(* ===== verification/Prelude.thy ===== *)
theory Prelude
  imports Main "HOL-Library.Word" "HOL-Library.Signed_Division" "HOL-Library.Monad_Syntax"
begin

section \<open>Prelude: machine types, byte strings and shared lemmas\<close>

text \<open>
  The vocabulary every component theory shares: the fixed-width unsigned types of the C
  sources as words, the C conversions to \<open>int\<close>, \<open>size_t\<close> and \<open>loff_t\<close> written out on
  \<open>int\<close>, big-endian byte strings, updates of a window of a list, and the collections of
  simplification rules the component proofs use.
\<close>

unbundle bit_operations_syntax

named_theorems retcode_defs \<open>return code constants\<close>
named_theorems cconv_simps \<open>C integer conversions on values in range\<close>

type_synonym u8 = "8 word"
type_synonym u16 = "16 word"
type_synonym u32 = "32 word"
type_synonym retcode = int

subsection \<open>C integer conversions\<close>

text \<open>
  The target is a 32-bit machine: \<open>int\<close>, \<open>unsigned int\<close>, \<open>long\<close> and \<open>size_t\<close> have 32
  bits, \<open>loff_t\<close> has 64. A value that is kept as a mathematical integer in the model is
  narrowed with these functions where the source narrows it.
\<close>

definition to_int32 :: "int \<Rightarrow> int" where
  "to_int32 x = signed_take_bit 31 x"

definition to_uint32 :: "int \<Rightarrow> int" where
  "to_uint32 x = take_bit 32 x"

definition to_uint64 :: "int \<Rightarrow> int" where
  "to_uint64 x = take_bit 64 x"

lemma to_int32_id [cconv_simps]: "- (2 ^ 31) \<le> x \<Longrightarrow> x < 2 ^ 31 \<Longrightarrow> to_int32 x = x"
  unfolding to_int32_def by (rule signed_take_bit_int_eq_self) simp_all

lemma to_uint32_id [cconv_simps]: "0 \<le> x \<Longrightarrow> x < 2 ^ 32 \<Longrightarrow> to_uint32 x = x"
  by (simp add: to_uint32_def take_bit_int_eq_self)

lemma to_uint64_id [cconv_simps]: "0 \<le> x \<Longrightarrow> x < 2 ^ 64 \<Longrightarrow> to_uint64 x = x"
  by (simp add: to_uint64_def take_bit_int_eq_self)

lemma to_uint32_range: "0 \<le> to_uint32 x" "to_uint32 x < 2 ^ 32"
  using take_bit_int_less_exp [of 32 x] by (simp_all add: to_uint32_def)

lemma to_int32_range: "- (2 ^ 31) \<le> to_int32 x" "to_int32 x < 2 ^ 31"
  using signed_take_bit_int_greater_eq_minus_exp [of 31 x] signed_take_bit_int_less_exp [of 31 x]
  by (simp_all add: to_int32_def)

subsection \<open>Big-endian byte strings\<close>

definition be16_bytes :: "u16 \<Rightarrow> u8 list" where
  "be16_bytes w = [ucast (drop_bit 8 w), ucast w]"

definition be32_bytes :: "u32 \<Rightarrow> u8 list" where
  "be32_bytes w = [ucast (drop_bit 24 w), ucast (drop_bit 16 w), ucast (drop_bit 8 w), ucast w]"

definition be32_word :: "u8 \<Rightarrow> u8 \<Rightarrow> u8 \<Rightarrow> u8 \<Rightarrow> u32" where
  "be32_word a b c d =
     push_bit 24 (ucast a) XOR push_bit 16 (ucast b) XOR push_bit 8 (ucast c) XOR ucast d"

lemma length_be16_bytes [simp]: "length (be16_bytes w) = 2"
  by (simp add: be16_bytes_def)

lemma length_be32_bytes [simp]: "length (be32_bytes w) = 4"
  by (simp add: be32_bytes_def)

lemma be32_word_bytes:
  "be32_word (ucast (drop_bit 24 w)) (ucast (drop_bit 16 w)) (ucast (drop_bit 8 w)) (ucast w) = w"
proof (rule bit_word_eqI)
  fix n :: nat
  assume "n < LENGTH(32)"
  then consider "n < 8" | "8 \<le> n" "n < 16" | "16 \<le> n" "n < 24" | "24 \<le> n" "n < 32"
    by fastforce
  then show "bit (be32_word (ucast (drop_bit 24 w)) (ucast (drop_bit 16 w))
      (ucast (drop_bit 8 w)) (ucast w)) n = bit w n"
    by cases (simp_all add: be32_word_def bit_simps, arith+)
qed

lemma be32_word_eq_0: "be32_word a b c d = 0 \<Longrightarrow> a = 0 \<and> b = 0 \<and> c = 0 \<and> d = 0"
proof -
  assume z: "be32_word a b c d = 0"
  have bz: "\<not> bit (be32_word a b c d) k" for k
    using z by simp
  have "\<not> bit a k" if "k < 8" for k
    using bz [of "24 + k"] that by (auto simp: be32_word_def bit_simps dest: bit_imp_le_length)
  moreover have "\<not> bit b k" if "k < 8" for k
    using bz [of "16 + k"] that by (auto simp: be32_word_def bit_simps dest: bit_imp_le_length)
  moreover have "\<not> bit c k" if "k < 8" for k
    using bz [of "8 + k"] that by (auto simp: be32_word_def bit_simps dest: bit_imp_le_length)
  moreover have "\<not> bit d k" if "k < 8" for k
    using bz [of k] that by (auto simp: be32_word_def bit_simps dest: bit_imp_le_length)
  ultimately show ?thesis
    by (auto intro!: bit_word_eqI)
qed

subsection \<open>Writing a window of a list\<close>

text \<open>\<open>memcpy_at i ys xs\<close> is \<open>memcpy (xs + i, ys, length ys)\<close> inside the bounds of \<open>xs\<close>.\<close>

definition memcpy_at :: "nat \<Rightarrow> 'a list \<Rightarrow> 'a list \<Rightarrow> 'a list" where
  "memcpy_at i ys xs = take i xs @ ys @ drop (i + length ys) xs"

lemma length_memcpy_at [simp]: "i + length ys \<le> length xs \<Longrightarrow> length (memcpy_at i ys xs) = length xs"
  by (simp add: memcpy_at_def)

lemma nth_memcpy_at:
  assumes "i + length ys \<le> length xs" and "k < length xs"
  shows "memcpy_at i ys xs ! k = (if i \<le> k \<and> k < i + length ys then ys ! (k - i) else xs ! k)"
  using assms by (auto simp: memcpy_at_def nth_append min_def)

lemma memcpy_at_Nil [simp]: "memcpy_at i [] xs = xs"
  by (simp add: memcpy_at_def)

lemma memcpy_at_append:
  "i + length xs + length ys \<le> length zs \<Longrightarrow>
   memcpy_at (i + length xs) ys (memcpy_at i xs zs) = memcpy_at i (xs @ ys) zs"
  by (simp add: memcpy_at_def ac_simps)

lemma take_drop_memcpy_at:
  "i + length ys \<le> length xs \<Longrightarrow> take (length ys) (drop i (memcpy_at i ys xs)) = ys"
  by (simp add: memcpy_at_def)

lemma take_drop_memcpy_disjoint:
  assumes "j + length ys \<le> length xs" "i + n \<le> j \<or> j + length ys \<le> i" "i + n \<le> length xs"
  shows "take n (drop i (memcpy_at j ys xs)) = take n (drop i xs)"
  using assms by (intro nth_equalityI) (auto simp: nth_memcpy_at)

lemma memcpy_at_self:
  "i + n \<le> length xs \<Longrightarrow> memcpy_at i (take n (drop i xs)) xs = xs"
  by (rule nth_equalityI) (auto simp: nth_memcpy_at)

subsection \<open>Selecting and ranking the elements of an interval\<close>

text \<open>
  The good blocks of a flash are \<open>filter good [0..<n]\<close>: a logical block is an index into
  that list, a physical block an element of it. The index of a good block is the number
  of good blocks below it.
\<close>

lemma filter_upt_prefix:
  "b \<le> n \<Longrightarrow> filter P [0..<n] = filter P [0..<b] @ filter P [b..<n]"
  by (metis filter_append le_add_diff_inverse upt_add_eq_append zero_le)

lemma filter_upt_rank:
  assumes "b < n" and "P b"
  shows "length (filter P [0..<b]) < length (filter P [0..<n])"
    and "filter P [0..<n] ! length (filter P [0..<b]) = b"
proof -
  have "filter P [0..<n] = filter P [0..<b] @ b # filter P [Suc b..<n]"
    using filter_upt_prefix [of b n P] assms by (simp add: upt_conv_Cons)
  then show "length (filter P [0..<b]) < length (filter P [0..<n])"
    and "filter P [0..<n] ! length (filter P [0..<b]) = b"
    by simp_all
qed

lemma filter_upt_select:
  assumes "l < length (filter P [0..<n])"
  shows "filter P [0..<n] ! l < n" and "P (filter P [0..<n] ! l)"
    and "length (filter P [0..<filter P [0..<n] ! l]) = l"
proof -
  have "filter P [0..<n] ! l \<in> set (filter P [0..<n])"
    using assms by (rule nth_mem)
  then show b: "filter P [0..<n] ! l < n" "P (filter P [0..<n] ! l)"
    by auto
  have "filter P [0..<n] ! length (filter P [0..<filter P [0..<n] ! l]) = filter P [0..<n] ! l"
    "length (filter P [0..<filter P [0..<n] ! l]) < length (filter P [0..<n])"
    using filter_upt_rank [of "filter P [0..<n] ! l" n P] b by simp_all
  then show "length (filter P [0..<filter P [0..<n] ! l]) = l"
    using assms nth_eq_iff_index_eq [of "filter P [0..<n]"] by (simp add: distinct_filter)
qed

lemma length_filter_upt_Suc:
  "length (filter P [0..<Suc n]) = (if P n then Suc (length (filter P [0..<n])) else length (filter P [0..<n]))"
  by simp

subsection \<open>Blocks of a byte range\<close>

lemma sdiv_nonneg: "0 \<le> x \<Longrightarrow> 0 < e \<Longrightarrow> x sdiv e = x div (e :: int)"
  by (simp add: signed_divide_int_def sgn_if)

lemma smod_nonneg: "0 \<le> x \<Longrightarrow> 0 < e \<Longrightarrow> x smod e = x mod (e :: int)"
  by (simp add: signed_modulo_int_def sgn_if)

lemma div_le_self: "0 \<le> x \<Longrightarrow> 0 < e \<Longrightarrow> x div e \<le> (x :: int)"
  using zdiv_mono2 [of x 1 e] by simp

lemma block_split:
  fixes e :: int
  assumes "0 < e" "0 \<le> r" "r < e"
  shows "(int b * e + r) div e = int b" and "(int b * e + r) mod e = r"
  using assms by simp_all

lemma block_addr_bound:
  fixes e :: int
  assumes "0 < e" "b < n" "0 \<le> r" "r < e"
  shows "int b * e + r < int n * e"
proof -
  have "int b * e + r < (int b + 1) * e"
    using assms by (simp add: algebra_simps)
  also have "\<dots> \<le> int n * e"
    using assms by (intro mult_right_mono) auto
  finally show ?thesis .
qed

lemma div_less_blocks:
  fixes e :: int
  assumes "0 < e" "0 \<le> x" "x < int n * e"
  shows "nat (x div e) < n" and "x = int (nat (x div e)) * e + x mod e" "0 \<le> x mod e" "x mod e < e"
proof -
  have "x div e * e + x mod e = x" "0 \<le> x mod e"
    using assms(1) by (simp_all only: div_mult_mod_eq pos_mod_sign)
  then have "x div e * e < int n * e"
    using assms(3) by linarith
  then have "x div e < int n"
    using assms(1) by (simp add: mult_less_cancel_right)
  then show "nat (x div e) < n"
    using assms by (simp add: nat_less_iff pos_imp_zdiv_nonneg_iff)
  show "x = int (nat (x div e)) * e + x mod e" "0 \<le> x mod e" "x mod e < e"
    using assms by (simp_all add: pos_imp_zdiv_nonneg_iff)
qed

end
