(* ===== verification/FastCRC.thy ===== *)
theory FastCRC
  imports Prelude
begin

section \<open>The frame check sequence (\<open>fastCRC.c\<close>)\<close>

text \<open>
  Model of \<open>lib/libalislupgrade_v4/src/fastCRC.c\<close> in the configuration the file selects,
  \<open>MG_CRC_32_ARITHMETIC_CCITT\<close>: the bitwise routine, the 256-entry table built from it
  on first use, the table-driven routine and the two frame check functions. A pointer and
  a length \<open>(bufptr, len)\<close> that is only read is the list of the \<open>len\<close> bytes; a buffer that
  is written is a list with an explicit bounds check, \<open>None\<close> being an access outside it.
\<close>

subsection \<open>Definitions\<close>

definition MG_CRC_32_CCITT :: u32 where
  "MG_CRC_32_CCITT = 0x04c11db7"

text \<open>One round of the inner loop: the highest bit decides whether the polynomial is added.\<close>

definition crc_bit :: "u32 \<Rightarrow> u32" where
  "crc_bit crc =
     (if crc AND 0x80000000 \<noteq> 0 then push_bit 1 crc XOR MG_CRC_32_CCITT else push_bit 1 crc)"

primrec MG_Compute_CRC :: "u32 \<Rightarrow> u8 list \<Rightarrow> u32" where
  "MG_Compute_CRC crc [] = crc AND 0xffffffff"
| "MG_Compute_CRC crc (b # bs) =
     MG_Compute_CRC ((crc_bit ^^ 8) (crc XOR push_bit 24 (ucast b))) bs"

text \<open>The globals of the file: the table and its initialised flag.\<close>

record crc_globals =
  MG_CRC_Table :: "u32 list"
  MG_CRC_Table_Initialized :: u8

definition crc_globals_init :: crc_globals where
  "crc_globals_init = \<lparr>MG_CRC_Table = replicate 256 0, MG_CRC_Table_Initialized = 0\<rparr>"

definition MG_Setup_CRC_Table :: "crc_globals \<Rightarrow> crc_globals" where
  "MG_Setup_CRC_Table g =
     (if MG_CRC_Table_Initialized g = 1 then g
      else g\<lparr>MG_CRC_Table :=
               map (\<lambda>count. MG_Compute_CRC (push_bit 24 (of_nat count)) [0]) [0..<256],
             MG_CRC_Table_Initialized := 1\<rparr>)"

definition crc_table_step :: "u32 list \<Rightarrow> u32 \<Rightarrow> u8 \<Rightarrow> u32" where
  "crc_table_step tab crc b =
     (tab ! unat ((drop_bit 24 crc AND 0xff) XOR ucast b) XOR push_bit 8 crc) AND 0xffffffff"

definition MG_Table_Driven_CRC :: "crc_globals \<Rightarrow> u32 \<Rightarrow> u8 list \<Rightarrow> u32 \<times> crc_globals" where
  "MG_Table_Driven_CRC g crc bs =
     (let g' = (if MG_CRC_Table_Initialized g = 0 then MG_Setup_CRC_Table g else g)
      in (foldl (crc_table_step (MG_CRC_Table g')) crc bs, g'))"

text \<open>\<open>MG_FCS_Coder\<close> stores the check sequence behind the first \<open>len\<close> bytes of the buffer.\<close>

definition MG_FCS_Coder :: "crc_globals \<Rightarrow> u8 list \<Rightarrow> nat \<Rightarrow> (u8 list \<times> crc_globals) option" where
  "MG_FCS_Coder g pucInData len =
     (if length pucInData < len + 4 then None
      else let (iFCS, g') = MG_Table_Driven_CRC g 0xffffffff (take len pucInData)
           in Some (pucInData[len + 3 := ucast iFCS AND 0xff,
                              len + 2 := ucast (drop_bit 8 iFCS) AND 0xff,
                              len + 1 := ucast (drop_bit 16 iFCS) AND 0xff,
                              len := ucast (drop_bit 24 iFCS) AND 0xff], g'))"

text \<open>\<open>MG_FCS_Decoder\<close> returns the remainder over data and check sequence; 0 is success.\<close>

definition MG_FCS_Decoder :: "crc_globals \<Rightarrow> u8 list \<Rightarrow> nat \<Rightarrow> (u32 \<times> crc_globals) option" where
  "MG_FCS_Decoder g pucInData len =
     (if length pucInData < len then None
      else let (iFCS, g') = MG_Table_Driven_CRC g 0xffffffff (take len pucInData)
           in Some (if iFCS \<noteq> 0 then iFCS else 0, g'))"

text \<open>The state the file keeps between calls: no table yet, or the complete one.\<close>

definition crc_globals_ok :: "crc_globals \<Rightarrow> bool" where
  "crc_globals_ok g \<longleftrightarrow>
     MG_CRC_Table_Initialized g = 0 \<or>
     MG_CRC_Table_Initialized g = 1 \<and>
     MG_CRC_Table g = map (\<lambda>count. MG_Compute_CRC (push_bit 24 (of_nat count)) [0]) [0..<256]"

text \<open>Flipping a window of a buffer with an error pattern.\<close>

definition xor_at :: "nat \<Rightarrow> u8 list \<Rightarrow> u8 list \<Rightarrow> u8 list" where
  "xor_at i e buf = memcpy_at i (map2 (XOR) (take (length e) (drop i buf)) e) buf"

subsection \<open>Checks over a shift register that is linear and invertible\<close>

text \<open>
  What the table and the frame check rely on is not the polynomial but three laws of one
  round: it is linear, it is a plain shift while the highest bit is clear, and it loses
  no information. The locale holds the consequences; \<open>crc_bit\<close> is its interpretation.
\<close>

definition crc_fold :: "(u32 \<Rightarrow> u32) \<Rightarrow> u32 \<Rightarrow> u8 list \<Rightarrow> u32" where
  "crc_fold rnd = foldl (\<lambda>c b. (rnd ^^ 8) (c XOR push_bit 24 (ucast b)))"

lemma crc_fold_simps [simp]:
  "crc_fold rnd c [] = c"
  "crc_fold rnd c (b # bs) = crc_fold rnd ((rnd ^^ 8) (c XOR push_bit 24 (ucast b))) bs"
  "crc_fold rnd c (bs @ bs') = crc_fold rnd (crc_fold rnd c bs) bs'"
  by (simp_all add: crc_fold_def)

locale msb_crc =
  fixes rnd :: "u32 \<Rightarrow> u32"
  assumes rnd_xor: "rnd (x XOR y) = rnd x XOR rnd y"
    and rnd_low: "\<not> bit x 31 \<Longrightarrow> rnd x = push_bit 1 x"
    and rnd_nonzero: "rnd x = 0 \<Longrightarrow> x = 0"
begin

lemma rnds_xor: "(rnd ^^ n) (x XOR y) = (rnd ^^ n) x XOR (rnd ^^ n) y"
  by (induction n) (simp_all add: rnd_xor)

lemma rnds_low:
  "(\<And>k. 32 - n \<le> k \<Longrightarrow> \<not> bit x k) \<Longrightarrow> n \<le> 31 \<Longrightarrow> (rnd ^^ n) x = push_bit n x"
proof (induction n)
  case 0
  then show ?case by simp
next
  case (Suc n)
  have "(rnd ^^ n) x = push_bit n x"
    using Suc by simp
  moreover have "\<not> bit (push_bit n x) 31"
    using Suc.prems by (simp add: bit_simps)
  ultimately show ?case
    by (simp add: rnd_low)
qed

lemma rnds_zero [simp]: "(rnd ^^ n) 0 = 0"
  by (induction n) (simp_all add: rnd_low)

lemma rnds_nonzero: "(rnd ^^ n) x = 0 \<Longrightarrow> x = 0"
  by (induction n) (auto dest: rnd_nonzero)

lemma byte_low: "k \<le> 16 \<Longrightarrow> (rnd ^^ 8) (push_bit k (ucast (b :: u8))) = push_bit (8 + k) (ucast b)"
  by (subst rnds_low) (auto simp: bit_simps push_bit_push_bit dest: bit_imp_le_length)

text \<open>A byte absorbed one step late: the shift register is a big-endian number.\<close>

lemma rnds_absorb:
  "k \<le> 16 \<Longrightarrow>
   (rnd ^^ 8) x XOR push_bit (8 + k) (ucast (b :: u8)) = (rnd ^^ 8) (x XOR push_bit k (ucast b))"
  by (simp add: rnds_xor byte_low)

lemma fold_four:
  "crc_fold rnd c [b1, b2, b3, b4] = (rnd ^^ 32) (c XOR be32_word b1 b2 b3 b4)"
proof -
  have "(rnd ^^ 32) y = (rnd ^^ 8) ((rnd ^^ 8) ((rnd ^^ 8) ((rnd ^^ 8) y)))" for y
    by (simp flip: funpow_add [THEN fun_cong, simplified comp_def])
  then show ?thesis
    using byte_low [of 0 b2] byte_low [of 8 b2] byte_low [of 16 b2]
      byte_low [of 0 b3] byte_low [of 8 b3] byte_low [of 16 b3]
      byte_low [of 0 b4] byte_low [of 8 b4] byte_low [of 16 b4]
    by (simp add: be32_word_def rnds_xor xor.assoc)
qed

lemma fold_own_crc: "crc_fold rnd c (be32_bytes c) = 0"
  unfolding be32_bytes_def fold_four be32_word_bytes by simp

lemma fold_xor:
  "length xs = length ys \<Longrightarrow>
   crc_fold rnd (a XOR b) (map2 (XOR) xs ys) = crc_fold rnd a xs XOR crc_fold rnd b ys"
proof (induction xs ys arbitrary: a b rule: list_induct2)
  case Nil
  then show ?case by simp
next
  case (Cons x xs y ys)
  have "(a XOR b) XOR push_bit 24 (ucast (x XOR y)) =
      (a XOR push_bit 24 (ucast x)) XOR (b XOR push_bit 24 (ucast y) :: u32)"
    by (rule bit_word_eqI) (auto simp: bit_simps)
  then have "crc_fold rnd (a XOR b) (map2 (XOR) (x # xs) (y # ys)) =
      crc_fold rnd ((rnd ^^ 8) (a XOR push_bit 24 (ucast x)) XOR
        (rnd ^^ 8) (b XOR push_bit 24 (ucast y))) (map2 (XOR) xs ys)"
    by (simp only: crc_fold_simps(2) list.map zip_Cons_Cons prod.case flip: rnds_xor)
  then show ?case
    by (simp only: Cons.IH crc_fold_simps(2))
qed

lemma fold_zeros: "crc_fold rnd c (replicate n 0) = (rnd ^^ (8 * n)) c"
proof (induction n arbitrary: c)
  case 0
  then show ?case by simp
next
  case (Suc n)
  have "(rnd ^^ (8 * Suc n)) c = (rnd ^^ (8 * n)) ((rnd ^^ 8) c)"
    by (simp add: add.commute [of 8] funpow_add del: funpow.simps)
  then show ?case
    using Suc by simp
qed

text \<open>A nonzero error pattern of four bytes leaves a nonzero remainder, however far it is from the end.\<close>

lemma fold_burst:
  assumes "[e1, e2, e3, e4] \<noteq> [0, 0, 0, 0 :: u8]"
  shows "crc_fold rnd 0 (replicate i 0 @ [e1, e2, e3, e4] @ replicate j 0) \<noteq> 0"
proof
  assume "crc_fold rnd 0 (replicate i 0 @ [e1, e2, e3, e4] @ replicate j 0) = 0"
  then have "(rnd ^^ (8 * j)) ((rnd ^^ 32) (0 XOR be32_word e1 e2 e3 e4)) = 0"
    by (simp only: crc_fold_simps(3) fold_zeros fold_four rnds_zero)
  then have "be32_word e1 e2 e3 e4 = 0"
    using rnds_nonzero by auto
  with assms show False
    by (auto dest: be32_word_eq_0)
qed

text \<open>The table: a byte is absorbed by looking up its sum with the highest byte.\<close>

lemma fold_table:
  "(rnd ^^ 8) (c XOR push_bit 24 (ucast b)) =
   (rnd ^^ 8) (push_bit 24 (drop_bit 24 c XOR ucast (b :: u8))) XOR push_bit 8 c"
proof -
  have c: "c XOR push_bit 24 (ucast b) =
      push_bit 24 (drop_bit 24 c XOR ucast b) XOR take_bit 24 c"
    by (rule bit_word_eqI) (auto simp: bit_simps)
  have "(rnd ^^ 8) (take_bit 24 c) = push_bit 8 (take_bit 24 c)"
    by (rule rnds_low) (simp_all add: bit_simps)
  also have "\<dots> = push_bit 8 c"
    by (rule bit_word_eqI) (auto simp: bit_simps)
  finally show ?thesis
    unfolding c rnds_xor by simp
qed

end

subsection \<open>The polynomial of the file is such a shift register\<close>

lemma crc_bit_bit: "crc_bit x = (if bit x 31 then push_bit 1 x XOR MG_CRC_32_CCITT else push_bit 1 x)"
proof -
  have "(x AND 0x80000000 \<noteq> 0) = bit x 31"
    using and_exp_eq_0_iff_not_bit [of x 31] by simp
  then show ?thesis by (simp add: crc_bit_def)
qed

interpretation mg: msb_crc crc_bit
proof unfold_locales
  fix x y :: u32
  show "crc_bit (x XOR y) = crc_bit x XOR crc_bit y"
    by (auto simp: crc_bit_bit bit_simps intro!: bit_word_eqI)
  show "crc_bit x = push_bit 1 x" if "\<not> bit x 31"
    using that by (simp add: crc_bit_bit)
  show "x = 0" if z: "crc_bit x = 0"
  proof (cases "bit x 31")
    case True
    then have "bit (crc_bit x) 0"
      by (simp add: crc_bit_bit bit_0 even_xor_iff MG_CRC_32_CCITT_def)
    with z show ?thesis by simp
  next
    case False
    with z have p: "push_bit 1 x = 0"
      by (simp add: crc_bit_bit)
    show ?thesis
    proof (rule bit_word_eqI)
      fix n :: nat
      assume n: "n < LENGTH(32)"
      have "\<not> bit (push_bit 1 x) (Suc n)"
        using p by simp
      with n False show "bit x n = bit 0 n"
        by (cases "n = 31") (auto simp: bit_simps bit_double_iff mult.commute [of x])
    qed
  qed
qed

lemma and_all_ones [simp]: "(x :: u32) AND 0xffffffff = x"
proof -
  have "(0xffffffff :: u32) = mask 32"
    by (simp add: mask_eq_exp_minus_1)
  then show ?thesis
    by (simp add: bit_eq_iff bit_simps)
qed

lemma MG_Compute_CRC_fold: "MG_Compute_CRC crc bs = crc_fold crc_bit crc bs"
  by (induction bs arbitrary: crc) simp_all

subsection \<open>The table\<close>

lemma crc_globals_ok_init: "crc_globals_ok crc_globals_init"
  by (simp add: crc_globals_ok_def crc_globals_init_def)

lemma crc_globals_ok_setup: "crc_globals_ok g \<Longrightarrow> crc_globals_ok (MG_Setup_CRC_Table g)"
  by (auto simp: crc_globals_ok_def MG_Setup_CRC_Table_def)

lemma table_index: "(drop_bit 24 c AND 0xff) XOR ucast (b :: u8) = drop_bit 24 (c :: u32) XOR ucast b"
proof -
  have "(0xff :: u32) = mask 8"
    by (simp add: mask_eq_exp_minus_1)
  then show ?thesis
    by (auto simp: bit_eq_iff bit_simps dest: bit_imp_le_length)
qed

lemma table_index_bound: "unat (drop_bit 24 (c :: u32) XOR ucast (b :: u8)) < 256"
proof -
  have "drop_bit 24 c XOR ucast b = take_bit 8 (drop_bit 24 c XOR ucast b)"
    by (auto simp: bit_eq_iff bit_simps dest: bit_imp_le_length)
  then have "unat (drop_bit 24 c XOR ucast b) = take_bit 8 (unat (drop_bit 24 c XOR ucast b))"
    by (metis unsigned_take_bit_eq)
  also have "\<dots> < 2 ^ 8"
    by (rule take_bit_nat_less_exp)
  finally show ?thesis by simp
qed

lemma crc_table_step_round:
  assumes "tab = map (\<lambda>count. MG_Compute_CRC (push_bit 24 (of_nat count)) [0]) [0..<256]"
  shows "crc_table_step tab c b = (crc_bit ^^ 8) (c XOR push_bit 24 (ucast b))"
  using table_index_bound [of c b] mg.fold_table [of c b]
  by (simp add: crc_table_step_def table_index assms MG_Compute_CRC_fold)

lemma crc_table_steps:
  assumes "tab = map (\<lambda>count. MG_Compute_CRC (push_bit 24 (of_nat count)) [0]) [0..<256]"
  shows "foldl (crc_table_step tab) crc bs = MG_Compute_CRC crc bs"
  by (induction bs arbitrary: crc) (simp_all add: crc_table_step_round [OF assms] MG_Compute_CRC_fold)

lemma table_driven_ok:
  "crc_globals_ok g \<Longrightarrow> fst (MG_Table_Driven_CRC g crc bs) = MG_Compute_CRC crc bs"
  by (auto simp: MG_Table_Driven_CRC_def crc_globals_ok_def MG_Setup_CRC_Table_def
      simp del: upt_rec_numeral intro!: crc_table_steps)

lemma table_driven_globals:
  "crc_globals_ok g \<Longrightarrow> crc_globals_ok (snd (MG_Table_Driven_CRC g crc bs))"
  by (simp add: MG_Table_Driven_CRC_def Let_def crc_globals_ok_setup)

subsection \<open>The frame check sequence\<close>

lemma list_update_four:
  "len + 4 \<le> length xs \<Longrightarrow>
   xs[len + 3 := d, len + 2 := c, len + 1 := b, len := a] = memcpy_at len [a, b, c, d] xs"
  by (rule nth_equalityI) (auto simp: nth_list_update nth_memcpy_at less_Suc_eq numeral_eq_Suc nth_Cons')

lemma and_ff [simp]: "(x :: u8) AND 0xff = x"
proof -
  have "(0xff :: u8) = mask 8"
    by (simp add: mask_eq_exp_minus_1)
  then show ?thesis
    by (simp add: bit_eq_iff bit_simps)
qed

lemma MG_FCS_Coder_frame:
  assumes "crc_globals_ok g" and "len + 4 \<le> length buf"
  shows "\<exists>g'. crc_globals_ok g' \<and> MG_FCS_Coder g buf len =
    Some (memcpy_at len (be32_bytes (MG_Compute_CRC 0xffffffff (take len buf))) buf, g')"
proof -
  obtain c g' where t: "MG_Table_Driven_CRC g 0xffffffff (take len buf) = (c, g')"
    by (cases "MG_Table_Driven_CRC g 0xffffffff (take len buf)")
  have "c = MG_Compute_CRC 0xffffffff (take len buf)" "crc_globals_ok g'"
    using table_driven_ok [OF assms(1), of "0xffffffff" "take len buf"]
      table_driven_globals [OF assms(1), of "0xffffffff" "take len buf"]
    by (simp_all add: t)
  then show ?thesis
    using assms(2) by (auto simp: MG_FCS_Coder_def t be32_bytes_def list_update_four [simplified])
qed

lemma MG_FCS_Decoder_value:
  assumes "crc_globals_ok g" and "len \<le> length buf"
  shows "map_option fst (MG_FCS_Decoder g buf len) = Some (MG_Compute_CRC 0xffffffff (take len buf))"
  using assms table_driven_ok [OF assms(1), of "0xffffffff" "take len buf"]
  by (auto simp: MG_FCS_Decoder_def split: prod.splits)

text \<open>Coded frames have remainder 0.\<close>

lemma coded_frame_remainder:
  assumes "len + 4 \<le> length buf"
  shows "MG_Compute_CRC 0xffffffff (take (len + 4)
    (memcpy_at len (be32_bytes (MG_Compute_CRC 0xffffffff (take len buf))) buf)) = 0"
proof -
  have "take (len + 4) (memcpy_at len (be32_bytes c) buf) = take len buf @ be32_bytes c" for c
    using assms by (simp add: memcpy_at_def)
  then show ?thesis
    by (simp add: MG_Compute_CRC_fold mg.fold_own_crc)
qed

text \<open>Flipping a window of the frame adds the remainder of the error pattern alone.\<close>

lemma take_xor_at:
  assumes "i + length e \<le> n" and "n \<le> length buf"
  shows "take n (xor_at i e buf) =
    map2 (XOR) (take n buf) (replicate i 0 @ e @ replicate (n - i - length e) 0)"
proof (rule nth_equalityI)
  show "length (take n (xor_at i e buf)) =
      length (map2 (XOR) (take n buf) (replicate i 0 @ e @ replicate (n - i - length e) 0))"
    using assms by (simp add: xor_at_def)
  fix k
  assume "k < length (take n (xor_at i e buf))"
  then have "k < n"
    by simp
  then show "take n (xor_at i e buf) ! k =
      map2 (XOR) (take n buf) (replicate i 0 @ e @ replicate (n - i - length e) 0) ! k"
    using assms by (auto simp: xor_at_def nth_memcpy_at nth_append)
qed

lemma remainder_xor_at:
  assumes "i + length e \<le> n" and "n \<le> length buf"
  shows "MG_Compute_CRC c (take n (xor_at i e buf)) =
    MG_Compute_CRC c (take n buf) XOR
    crc_fold crc_bit 0 (replicate i 0 @ e @ replicate (n - i - length e) 0)"
  unfolding MG_Compute_CRC_fold take_xor_at [OF assms]
  using mg.fold_xor [of "take n buf" "replicate i 0 @ e @ replicate (n - i - length e) 0" c 0] assms
  by simp

subsection \<open>Properties\<close>

text \<open>
  (C27) The table-driven check equals the bitwise one for every start value and every
  message, whether the table already exists or is built by this call, and leaves the
  globals in a state where the next call is correct again.
\<close>

theorem table_driven_is_bitwise:
  assumes "crc_globals_ok g"
  shows "fst (MG_Table_Driven_CRC g crc bs) = MG_Compute_CRC crc bs \<and>
    crc_globals_ok (snd (MG_Table_Driven_CRC g crc bs))"
  using assms by (simp add: table_driven_ok table_driven_globals)

theorem table_driven_is_bitwise_witness:
  "crc_globals_ok crc_globals_init \<and>
   fst (MG_Table_Driven_CRC crc_globals_init 0xffffffff [0x31, 0x32]) =
     MG_Compute_CRC 0xffffffff [0x31, 0x32] \<and>
   crc_globals_ok (snd (MG_Table_Driven_CRC crc_globals_init 0xffffffff [0x31, 0x32]))"
  using crc_globals_ok_init table_driven_is_bitwise [OF crc_globals_ok_init] by blast

text \<open>
  A frame coded by \<open>MG_FCS_Coder\<close> passes \<open>MG_FCS_Decoder\<close>: coding succeeds when four
  bytes are free behind the data, changes only those four bytes, and decoding data and
  check sequence together returns 0.
\<close>

lemma fcs_code_decode:
  assumes "crc_globals_ok g" and "len + 4 \<le> length buf"
  shows "\<exists>buf' g'. MG_FCS_Coder g buf len = Some (buf', g') \<and>
    length buf' = length buf \<and> take len buf' = take len buf \<and>
    drop (len + 4) buf' = drop (len + 4) buf \<and>
    map_option fst (MG_FCS_Decoder g' buf' (len + 4)) = Some 0"
proof -
  let ?buf = "memcpy_at len (be32_bytes (MG_Compute_CRC 0xffffffff (take len buf))) buf"
  obtain g' where g': "crc_globals_ok g'" "MG_FCS_Coder g buf len = Some (?buf, g')"
    using MG_FCS_Coder_frame [OF assms] by blast
  have "map_option fst (MG_FCS_Decoder g' ?buf (len + 4)) = Some 0"
    using MG_FCS_Decoder_value [OF g'(1), of "len + 4" ?buf] coded_frame_remainder [OF assms(2)]
      assms(2) by simp
  with g' assms(2) show ?thesis
    by (auto simp: memcpy_at_def)
qed

text \<open>
  (C26) Every corruption of a coded frame that is confined to four consecutive bytes, be
  it in the data, in the check sequence or across both, is detected: the decoder's result
  is not 0.
\<close>

theorem fcs_detects_burst:
  assumes "crc_globals_ok g" and "len + 4 \<le> length buf"
    and "MG_FCS_Coder g buf len = Some (buf', g')"
    and "length e = 4" and "e \<noteq> [0, 0, 0, 0]" and "i \<le> len"
  shows "\<exists>r g''. MG_FCS_Decoder g' (xor_at i e buf') (len + 4) = Some (r, g'') \<and> r \<noteq> 0"
proof -
  let ?buf = "memcpy_at len (be32_bytes (MG_Compute_CRC 0xffffffff (take len buf))) buf"
  have g': "crc_globals_ok g'" "buf' = ?buf"
    using MG_FCS_Coder_frame [OF assms(1,2)] assms(3) by auto
  obtain e1 e2 e3 e4 where e: "e = [e1, e2, e3, e4]"
    using assms(4) by (auto simp: numeral_eq_Suc length_Suc_conv)
  have len: "len + 4 \<le> length buf'" "i + length e \<le> len + 4"
    using assms g' by auto
  have "MG_Compute_CRC 0xffffffff (take (len + 4) (xor_at i e buf')) =
      crc_fold crc_bit 0 (replicate i 0 @ e @ replicate (len + 4 - i - length e) 0)"
    using remainder_xor_at [OF len(2,1), of "0xffffffff"] coded_frame_remainder [OF assms(2)] g'(2)
    by simp
  then have nz: "MG_Compute_CRC 0xffffffff (take (len + 4) (xor_at i e buf')) \<noteq> 0"
    using mg.fold_burst assms(5) unfolding e by metis
  have "length (xor_at i e buf') = length buf'"
    using len by (simp add: xor_at_def)
  with nz show ?thesis
    using MG_FCS_Decoder_value [OF g'(1), of "len + 4" "xor_at i e buf'"] len(1) by auto
qed

theorem fcs_detects_burst_witness:
  "\<exists>buf' g'. MG_FCS_Coder crc_globals_init [1, 2, 0, 0, 0, 0] 2 = Some (buf', g') \<and>
     (\<exists>r g''. MG_FCS_Decoder g' (xor_at 1 [0, 128, 0, 1] buf') (2 + 4) = Some (r, g'') \<and> r \<noteq> 0)"
proof -
  have b: "(2 :: nat) + 4 \<le> length [1, 2, 0, 0, 0, 0 :: u8]"
    by simp
  obtain buf' g' where c: "MG_FCS_Coder crc_globals_init [1, 2, 0, 0, 0, 0] 2 = Some (buf', g')"
    using MG_FCS_Coder_frame [OF crc_globals_ok_init b] by blast
  have "\<exists>r g''. MG_FCS_Decoder g' (xor_at 1 [0, 128, 0, 1] buf') (2 + 4) = Some (r, g'') \<and> r \<noteq> 0"
    by (rule fcs_detects_burst [OF crc_globals_ok_init b c]) simp_all
  with c show ?thesis by blast
qed

end
