(* ===== verification/Dsmcc.thy ===== *)
theory Dsmcc
  imports Prelude
begin

section \<open>DSM-CC download messages (\<open>lib_ota_dbc.c\<close>)\<close>

text \<open>
  The parsers of the data carousel in \<open>plugins/ota/lib_ota_dbc.c\<close>: the group announcement
  (DSI), the module directory (DII) and the data blocks (DDB), for both versions of the
  upgrade library. A message is a byte buffer with a read position; a read outside the
  buffer, a division by zero and a write outside an array are \<open>None\<close>. The values of the
  \<open>unsigned\<close> locals are natural numbers, reduced where the source stores them in a
  narrower type.

  The two versions of the library differ in the selection of a group and in one byte:
  \<open>libalislupgrade_v3\<close> reads the version byte of a module in a DII and of a DDB,
  \<open>libalislupgrade_v4\<close> has these statements commented out. The shared code takes the number of
  version bytes as the parameter \<open>nver\<close>.
\<close>

subsection \<open>Reading bytes\<close>

definition rd :: "u8 list \<Rightarrow> int \<Rightarrow> nat option" where
  "rd buf p = (if 0 \<le> p \<and> p < int (length buf) then Some (unat (buf ! nat p)) else None)"

definition get_2byte_value :: "u8 list \<Rightarrow> int \<Rightarrow> nat option" where
  "get_2byte_value buf p = do { b1 \<leftarrow> rd buf p; b2 \<leftarrow> rd buf (p + 1); Some (b1 * 256 + b2) }"

definition get_3byte_value :: "u8 list \<Rightarrow> int \<Rightarrow> nat option" where
  "get_3byte_value buf p = do {
     b1 \<leftarrow> rd buf p; b2 \<leftarrow> rd buf (p + 1); b3 \<leftarrow> rd buf (p + 2);
     Some (b1 * 65536 + b2 * 256 + b3) }"

definition get_4byte_value :: "u8 list \<Rightarrow> int \<Rightarrow> nat option" where
  "get_4byte_value buf p = do {
     b1 \<leftarrow> rd buf p; b2 \<leftarrow> rd buf (p + 1); b3 \<leftarrow> rd buf (p + 2); b4 \<leftarrow> rd buf (p + 3);
     Some (b1 * 16777216 + b2 * 65536 + b3 * 256 + b4) }"

definition DBC_SUCCESS :: int where "DBC_SUCCESS = 0"
definition DBC_FAIL :: int where "DBC_FAIL = 1"
definition BIT_MAP_NUM :: nat where "BIT_MAP_NUM = 32"
definition DC_MODULE_MAX :: nat where "DC_MODULE_MAX = 128"

subsection \<open>Types\<close>

text \<open>
  \<open>struct DCModuleInfo\<close>; the buffer pointer is an offset into the download memory.
\<close>

record DCModuleInfo =
  module_id :: nat
  module_linked :: nat
  module_first :: nat
  module_last :: nat
  module_buf_pointer :: int
  module_buf_size :: nat
  block_num :: nat
  next_module_id :: nat
  next_block_num :: nat
  block_received :: "u32 list"
  module_download_finish :: nat

record DCGroupInfo =
  group_id :: nat
  group_size :: nat

subsection \<open>The group announcement (DSI)\<close>

text \<open>
  The compatibility descriptors: \<open>count\<close> of them at \<open>p\<close>, in \<open>clen\<close> bytes. The result is the
  position and what is left of the length after the loop, and the software version found.
\<close>

primrec dsi_compat :: "u8 list \<Rightarrow> nat \<Rightarrow> nat \<Rightarrow> nat \<Rightarrow> nat \<Rightarrow> int \<Rightarrow> nat \<Rightarrow> nat \<Rightarrow> (int \<times> nat \<times> nat) option" where
  "dsi_compat buf OUI sw_model sw_version 0 p clen nv = Some (p, clen, nv)"
| "dsi_compat buf OUI sw_model sw_version (Suc n) p clen nv = do {
     descriptor_type \<leftarrow> rd buf p;
     descriptor_len \<leftarrow> rd buf (p + 1);
     if clen < descriptor_len + 2 then Some (p + int clen, 0, nv)
     else do {
       specifier_type \<leftarrow> rd buf (p + 2);
       specifier_data \<leftarrow> get_3byte_value buf (p + 3);
       model \<leftarrow> get_2byte_value buf (p + 6);
       version \<leftarrow> get_2byte_value buf (p + 8);
       dsi_compat buf OUI sw_model sw_version n (p + 10 + (int descriptor_len - 8)) (clen - (descriptor_len + 2))
         (if descriptor_type = 2 \<and> specifier_type = 1 \<and> specifier_data = OUI \<and> model = sw_model \<and>
             version \<ge> sw_version then version else nv) } }"

text \<open>The group info descriptors; \<open>Some None\<close> is the early \<open>return DBC_FAIL\<close>.\<close>

function dsi_group_info :: "u8 list \<Rightarrow> int \<Rightarrow> nat \<Rightarrow> int option option" where
  "dsi_group_info buf p glen =
     (if glen = 0 then Some (Some p)
      else do {
        descriptor_tag \<leftarrow> rd buf p;
        descriptor_len \<leftarrow> rd buf (p + 1);
        if glen < descriptor_len + 2 then Some None
        else dsi_group_info buf (p + 2 + int descriptor_len) (glen - (descriptor_len + 2)) })"
  by pat_completeness auto
termination
  by (relation "measure (\<lambda>(buf, p, glen). glen)") auto

declare dsi_group_info.simps [simp del]

text \<open>
  The loop over the groups returns in its first round, whatever the versions are. The
  result is the return code, the software version and the group as left by the call.
\<close>

definition alisl_dsi_message :: "u8 list \<Rightarrow> int \<Rightarrow> nat \<Rightarrow> nat \<Rightarrow> nat \<Rightarrow> nat \<Rightarrow> DCGroupInfo
    \<Rightarrow> (int \<times> nat \<times> DCGroupInfo) option" where
  "alisl_dsi_message buf p0 OUI sw_model sw_version nv grp = do {
     transaction_id \<leftarrow> get_4byte_value buf (p0 + 4);
     adaptation_len \<leftarrow> rd buf (p0 + 9);
     message_len \<leftarrow> get_2byte_value buf (p0 + 10);
     let p = p0 + 12 + int adaptation_len + 20;
     compatibility_descriptor_len \<leftarrow> get_2byte_value buf p;
     let p = p + 2 + int compatibility_descriptor_len;
     private_data_len \<leftarrow> get_2byte_value buf p;
     num_of_groups \<leftarrow> get_2byte_value buf (p + 2);
     let p = p + 4;
     if num_of_groups = 0 then Some (DBC_FAIL, nv, grp)
     else do {
       gid \<leftarrow> get_4byte_value buf p;
       gsize \<leftarrow> get_4byte_value buf (p + 4);
       clen \<leftarrow> get_2byte_value buf (p + 8);
       let p = p + 10;
       (p, nv) \<leftarrow>
         (if clen < 2 then Some (p + int clen, nv)
          else do {
            count \<leftarrow> get_2byte_value buf p;
            (p, rest, nv) \<leftarrow> dsi_compat buf OUI sw_model sw_version count (p + 2) (clen - 2) nv;
            Some (p + int rest, nv) });
       let grp = grp\<lparr>group_id := gid, group_size := gsize\<rparr>;
       group_info_len \<leftarrow> get_2byte_value buf p;
       r \<leftarrow> dsi_group_info buf (p + 2) group_info_len;
       case r of
         None \<Rightarrow> Some (DBC_FAIL, nv, grp)
       | Some p \<Rightarrow> do {
           private_data_len \<leftarrow> get_2byte_value buf p;
           Some (DBC_SUCCESS, nv, grp) } } }"

text \<open>
  Version 3 looks at all groups and takes the first one with a hardware descriptor of this
  receiver's model and version and a software descriptor of its software model.
\<close>

primrec v3_dsi_compat :: "u8 list \<Rightarrow> nat \<Rightarrow> nat \<Rightarrow> nat \<Rightarrow> nat \<Rightarrow> nat \<Rightarrow> int \<Rightarrow> nat \<Rightarrow> bool \<Rightarrow> bool \<Rightarrow> nat
    \<Rightarrow> (int \<times> nat \<times> bool \<times> bool \<times> nat) option" where
  "v3_dsi_compat buf OUI hw_model hw_version sw_model 0 p clen hw sw nv = Some (p, clen, hw, sw, nv)"
| "v3_dsi_compat buf OUI hw_model hw_version sw_model (Suc n) p clen hw sw nv = do {
     descriptor_type \<leftarrow> rd buf p;
     descriptor_len \<leftarrow> rd buf (p + 1);
     if clen < descriptor_len + 2 then Some (p + int clen, 0, hw, sw, nv)
     else do {
       specifier_type \<leftarrow> rd buf (p + 2);
       specifier_data \<leftarrow> get_3byte_value buf (p + 3);
       model \<leftarrow> get_2byte_value buf (p + 6);
       version \<leftarrow> get_2byte_value buf (p + 8);
       let hw_fit = (descriptor_type = 1 \<and> specifier_type = 1 \<and> specifier_data = OUI \<and> model = hw_model \<and>
         version = hw_version);
       let sw_fit = (descriptor_type = 2 \<and> specifier_type = 1 \<and> specifier_data = OUI \<and> model = sw_model);
       v3_dsi_compat buf OUI hw_model hw_version sw_model n (p + 10 + (int descriptor_len - 8))
         (clen - (descriptor_len + 2)) (hw \<or> hw_fit) (sw \<or> sw_fit) (if sw_fit then version else nv) } }"

primrec v3_dsi_groups :: "u8 list \<Rightarrow> nat \<Rightarrow> nat \<Rightarrow> nat \<Rightarrow> nat \<Rightarrow> nat \<Rightarrow> int \<Rightarrow> nat \<Rightarrow> DCGroupInfo
    \<Rightarrow> (int \<times> nat \<times> DCGroupInfo) option" where
  "v3_dsi_groups buf OUI hw_model hw_version sw_model 0 p nv grp = Some (DBC_FAIL, nv, grp)"
| "v3_dsi_groups buf OUI hw_model hw_version sw_model (Suc n) p nv grp = do {
     gid \<leftarrow> get_4byte_value buf p;
     gsize \<leftarrow> get_4byte_value buf (p + 4);
     clen \<leftarrow> get_2byte_value buf (p + 8);
     let p = p + 10;
     (p, hw, sw, nv) \<leftarrow>
       (if clen < 2 then Some (p + int clen, False, False, nv)
        else do {
          count \<leftarrow> get_2byte_value buf p;
          (p, rest, hw, sw, nv) \<leftarrow>
            v3_dsi_compat buf OUI hw_model hw_version sw_model count (p + 2) (clen - 2) False False nv;
          Some (p + int rest, hw, sw, nv) });
     let grp = grp\<lparr>group_id := gid, group_size := gsize\<rparr>;
     group_info_len \<leftarrow> get_2byte_value buf p;
     r \<leftarrow> dsi_group_info buf (p + 2) group_info_len;
     case r of
       None \<Rightarrow> Some (DBC_FAIL, nv, grp)
     | Some p \<Rightarrow> do {
         private_data_len \<leftarrow> get_2byte_value buf p;
         if hw \<and> sw then Some (DBC_SUCCESS, nv, grp)
         else v3_dsi_groups buf OUI hw_model hw_version sw_model n (p + 2 + int private_data_len) nv grp } }"

definition v3_alisl_dsi_message :: "u8 list \<Rightarrow> int \<Rightarrow> nat \<Rightarrow> nat \<Rightarrow> nat \<Rightarrow> nat \<Rightarrow> nat \<Rightarrow> DCGroupInfo
    \<Rightarrow> (int \<times> nat \<times> DCGroupInfo) option" where
  "v3_alisl_dsi_message buf p0 OUI hw_model hw_version sw_model nv grp = do {
     transaction_id \<leftarrow> get_4byte_value buf (p0 + 4);
     adaptation_len \<leftarrow> rd buf (p0 + 9);
     message_len \<leftarrow> get_2byte_value buf (p0 + 10);
     let p = p0 + 12 + int adaptation_len + 20;
     compatibility_descriptor_len \<leftarrow> get_2byte_value buf p;
     let p = p + 2 + int compatibility_descriptor_len;
     private_data_len \<leftarrow> get_2byte_value buf p;
     num_of_groups \<leftarrow> get_2byte_value buf (p + 2);
     v3_dsi_groups buf OUI hw_model hw_version sw_model num_of_groups (p + 4) nv grp }"

subsection \<open>The module directory (DII)\<close>

text \<open>The bitmap of a module: a set bit is a block that is received or does not exist.\<close>

definition clear_block :: "u32 list \<Rightarrow> nat \<Rightarrow> u32 list" where
  "clear_block m i = m[i div 32 := (m ! (i div 32)) AND NOT (push_bit (i mod 32) 1)]"

definition fresh_blocks :: "nat \<Rightarrow> u32 list option" where
  "fresh_blocks n =
     (if n \<le> 32 * BIT_MAP_NUM then Some (foldl clear_block (replicate BIT_MAP_NUM (- 1)) [0..<n]) else None)"

text \<open>The descriptors of a module; \<open>Some None\<close> is the early \<open>return DBC_FAIL\<close>.\<close>

definition module_link :: "u8 list \<Rightarrow> int \<Rightarrow> DCModuleInfo \<Rightarrow> DCModuleInfo option" where
  "module_link buf p m = do {
     position \<leftarrow> rd buf p;
     next \<leftarrow> get_2byte_value buf (p + 1);
     let m = m\<lparr>module_linked := 1\<rparr>;
     Some (if position = 0 then m\<lparr>module_first := 1, next_module_id := next\<rparr>
           else if position = 1 then m\<lparr>next_module_id := next\<rparr>
           else if position = 2 then m\<lparr>module_last := 1\<rparr>
           else m) }"

function dii_descriptors :: "u8 list \<Rightarrow> int \<Rightarrow> nat \<Rightarrow> DCModuleInfo \<Rightarrow> (DCModuleInfo \<times> int option) option" where
  "dii_descriptors buf p ilen m =
     (if ilen = 0 then Some (m, Some p)
      else do {
        descriptor_tag \<leftarrow> rd buf p;
        descriptor_len \<leftarrow> rd buf (p + 1);
        if ilen < descriptor_len + 2 then Some (m, None)
        else if descriptor_tag = 4 then
          if descriptor_len < 3 then Some (m, None)
          else do {
            m' \<leftarrow> module_link buf (p + 2) m;
            dii_descriptors buf (p + 2 + int descriptor_len) (ilen - (descriptor_len + 2)) m' }
        else dii_descriptors buf (p + 2 + int descriptor_len) (ilen - (descriptor_len + 2)) m })"
  by pat_completeness auto
termination
  by (relation "measure (\<lambda>(buf, p, ilen, m). ilen)") auto

declare dii_descriptors.simps [simp del]

text \<open>The entry of a module before its descriptors are read.\<close>

definition dii_module :: "nat \<Rightarrow> int \<Rightarrow> nat \<Rightarrow> nat \<Rightarrow> DCModuleInfo \<Rightarrow> DCModuleInfo option" where
  "dii_module blocksize ptr mid msize m =
     (if blocksize = 0 then None
      else do {
        let n = (msize div blocksize + (if msize mod blocksize \<noteq> 0 then 1 else 0)) mod 65536;
        bm \<leftarrow> fresh_blocks n;
        Some (m\<lparr>module_buf_pointer := ptr, module_id := mid, module_buf_size := msize, block_num := n,
               module_linked := 0, module_first := 0, module_last := 0, next_block_num := 0,
               block_received := bm, module_download_finish := 0\<rparr>) })"

primrec dii_modules :: "nat \<Rightarrow> u8 list \<Rightarrow> nat \<Rightarrow> int \<Rightarrow> nat \<Rightarrow> nat \<Rightarrow> int \<Rightarrow> DCModuleInfo list
    \<Rightarrow> (DCModuleInfo list \<times> int option) option" where
  "dii_modules nver buf blocksize data_addr 0 index p ms = Some (ms, Some p)"
| "dii_modules nver buf blocksize data_addr (Suc n) index p ms = do {
     mid \<leftarrow> get_2byte_value buf p;
     msize \<leftarrow> get_4byte_value buf (p + 2);
     let p = p + 6 + int nver;
     let ptr = (if index = 0 then data_addr
                else module_buf_pointer (ms ! (index - 1)) + int (module_buf_size (ms ! (index - 1))));
     if length ms \<le> index then None
     else do {
       m \<leftarrow> dii_module blocksize ptr mid msize (ms ! index);
       module_info_len \<leftarrow> rd buf p;
       (m', r) \<leftarrow> dii_descriptors buf (p + 1) module_info_len m;
       case r of
         None \<Rightarrow> Some (ms[index := m'], None)
       | Some p' \<Rightarrow> dii_modules nver buf blocksize data_addr n (Suc index) p' (ms[index := m']) } }"

text \<open>
  The result is the return code, the modules, their number (stored in a byte) and the
  block size; the two numbers are unchanged when the transaction is not the group's.
\<close>

definition dii_message :: "nat \<Rightarrow> u8 list \<Rightarrow> int \<Rightarrow> nat \<Rightarrow> int \<Rightarrow> DCModuleInfo list \<Rightarrow> nat \<Rightarrow> nat
    \<Rightarrow> (int \<times> DCModuleInfo list \<times> nat \<times> nat) option" where
  "dii_message nver buf p0 gid data_addr ms mnum bsize = do {
     transaction_id \<leftarrow> get_4byte_value buf (p0 + 4);
     if transaction_id \<noteq> gid then Some (DBC_FAIL, ms, mnum, bsize)
     else do {
       adaptation_len \<leftarrow> rd buf (p0 + 9);
       message_len \<leftarrow> get_2byte_value buf (p0 + 10);
       let p = p0 + 12 + int adaptation_len;
       download_id \<leftarrow> get_4byte_value buf p;
       blocksize \<leftarrow> get_2byte_value buf (p + 4);
       let p = p + 6 + 1 + 4 + 4 + 1;
       compatibility_descriptor_len \<leftarrow> get_2byte_value buf p;
       let p = p + 2 + int compatibility_descriptor_len;
       num_of_modules \<leftarrow> get_2byte_value buf p;
       let mnum = num_of_modules mod 256;
       if num_of_modules > DC_MODULE_MAX then Some (DBC_FAIL, ms, mnum, blocksize)
       else do {
         (ms', r) \<leftarrow> dii_modules nver buf blocksize data_addr num_of_modules 0 (p + 2) ms;
         case r of
           None \<Rightarrow> Some (DBC_FAIL, ms', mnum, blocksize)
         | Some p' \<Rightarrow> do {
             private_data_len \<leftarrow> get_2byte_value buf p';
             Some (DBC_SUCCESS, ms', mnum, blocksize) } } } }"

definition alisl_dii_message where
  "alisl_dii_message = dii_message 0"

definition v3_alisl_dii_message where
  "v3_alisl_dii_message = dii_message 1"

subsection \<open>The data blocks (DDB)\<close>

definition set_block :: "u32 list \<Rightarrow> nat \<Rightarrow> u32 list" where
  "set_block m i = m[i div 32 := (m ! (i div 32)) OR push_bit (i mod 32) 1]"

definition block_is_set :: "u32 list \<Rightarrow> nat \<Rightarrow> bool" where
  "block_is_set m i \<longleftrightarrow> (m ! (i div 32)) AND push_bit (i mod 32) 1 \<noteq> 0"

text \<open>
  \<open>mem\<close> is the download memory the module pointers point into. The product of the block
  number and the block size is computed in 32 bits. \<open>ddb_store\<close> is the part of
  \<open>alisl_ddb_data\<close> after the header: the checks, the copy and the bitmap.
\<close>

definition ddb_store :: "u8 list \<Rightarrow> int \<Rightarrow> nat \<Rightarrow> DCModuleInfo \<Rightarrow> nat \<Rightarrow> nat \<Rightarrow> nat \<Rightarrow> u8 list
    \<Rightarrow> (int \<times> DCModuleInfo \<times> u8 list) option" where
  "ddb_store buf p message_len m blocksize bnum blk_id mem =
     (let pos = (bnum * blocksize) mod 2 ^ 32
      in if bnum mod 256 \<noteq> blk_id then Some (DBC_FAIL, m, mem)
         else if int bnum > int (block_num m) - 1 then Some (DBC_FAIL, m, mem)
         else if pos \<ge> module_buf_size m then Some (DBC_FAIL, m, mem)
         else if length (block_received m) \<le> bnum div 32 then None
         else if block_is_set (block_received m) bnum then Some (DBC_FAIL, m, mem)
         else
           let block_len = (if module_buf_size m - pos > blocksize then blocksize else module_buf_size m - pos);
               dst = module_buf_pointer m + int pos
           in if int message_len - 6 < int block_len then Some (DBC_FAIL, m, mem)
              else if p < 0 \<or> int (length buf) < p + int block_len \<or> dst < 0 \<or>
                      int (length mem) < dst + int block_len then None
              else
                let bm = set_block (block_received m) bnum
                in Some (DBC_SUCCESS,
                     m\<lparr>block_received := bm,
                       module_download_finish := (if \<forall>w\<in>set bm. w = - 1 then 1 else 0)\<rparr>,
                     memcpy_at (nat dst) (take block_len (drop (nat p) buf)) mem))"

definition ddb_data :: "nat \<Rightarrow> u8 list \<Rightarrow> int \<Rightarrow> DCModuleInfo \<Rightarrow> nat \<Rightarrow> nat \<Rightarrow> u8 list
    \<Rightarrow> (int \<times> DCModuleInfo \<times> u8 list) option" where
  "ddb_data nver buf p0 m blocksize blk_id mem = do {
     download_id \<leftarrow> get_4byte_value buf (p0 + 4);
     adaptation_len \<leftarrow> rd buf (p0 + 9);
     message_len \<leftarrow> get_2byte_value buf (p0 + 10);
     let p = p0 + 12 + int adaptation_len;
     mid \<leftarrow> get_2byte_value buf p;
     let p = p + 2 + int nver + 1;
     if module_id m \<noteq> mid then Some (DBC_FAIL, m, mem)
     else do {
       bnum \<leftarrow> get_2byte_value buf p;
       ddb_store buf (p + 2) message_len m blocksize bnum blk_id mem } }"

definition alisl_ddb_data where
  "alisl_ddb_data = ddb_data 0"

definition v3_alisl_ddb_data where
  "v3_alisl_ddb_data = ddb_data 1"

subsection \<open>The bitmap\<close>

definition got :: "u32 list \<Rightarrow> nat \<Rightarrow> bool" where
  "got bm i = bit (bm ! (i div 32)) (i mod 32)"

lemma block_is_set_got: "block_is_set bm i = got bm i"
proof -
  have "(w AND push_bit n 1 = 0) = (\<not> bit w n)" if "n < 32" for w :: u32 and n
    using and_exp_eq_0_iff_not_bit [of w n] by (simp add: push_bit_eq_mult)
  then show ?thesis
    by (simp add: block_is_set_def got_def)
qed

lemma div_mod_32_eq: "i div 32 = j div 32 \<Longrightarrow> i mod 32 = j mod 32 \<longleftrightarrow> i = (j :: nat)"
  by (metis div_mult_mod_eq)

lemma got_set_block:
  assumes "j div 32 < length bm"
  shows "got (set_block bm j) i = (got bm i \<or> i = j)"
proof (cases "i div 32 = j div 32")
  case True
  then show ?thesis
    using assms div_mod_32_eq [OF True] by (auto simp: got_def set_block_def bit_simps bit_1_iff)
next
  case False
  then show ?thesis
    by (auto simp: got_def set_block_def)
qed

lemma got_clear_block:
  assumes "j div 32 < length bm"
  shows "got (clear_block bm j) i = (got bm i \<and> i \<noteq> j)"
proof (cases "i div 32 = j div 32")
  case True
  then show ?thesis
    using assms div_mod_32_eq [OF True] by (auto simp: got_def clear_block_def bit_simps bit_1_iff)
next
  case False
  then show ?thesis
    by (auto simp: got_def clear_block_def)
qed

lemma length_set_block [simp]: "length (set_block bm i) = length bm"
  by (simp add: set_block_def)

lemma length_clear_block [simp]: "length (clear_block bm i) = length bm"
  by (simp add: clear_block_def)

lemma clear_blocks:
  "n \<le> 32 * length bm \<Longrightarrow> length (foldl clear_block bm [0..<n]) = length bm \<and>
     (\<forall>i. got (foldl clear_block bm [0..<n]) i = (got bm i \<and> n \<le> i))"
proof (induction n)
  case (Suc n)
  then have n: "n div 32 < length (foldl clear_block bm [0..<n])"
    by (simp add: less_mult_imp_div_less)
  have f: "foldl clear_block bm [0..<Suc n] = clear_block (foldl clear_block bm [0..<n]) n"
    by simp
  show ?case
    unfolding f using Suc got_clear_block [OF n] by (simp add: Suc_le_eq less_le) blast
qed simp

lemma all_set_iff:
  assumes "length bm = 32"
  shows "(\<forall>w\<in>set bm. w = - 1) \<longleftrightarrow> (\<forall>i<1024. got bm i)"
proof
  assume a: "\<forall>w\<in>set bm. w = - 1"
  show "\<forall>i<1024. got bm i"
  proof (intro allI impI)
    fix i :: nat
    assume "i < 1024"
    then have "bm ! (i div 32) \<in> set bm"
      using assms by (intro nth_mem) auto
    with a have "bm ! (i div 32) = - 1"
      by blast
    then show "got bm i"
      by (simp add: got_def)
  qed
next
  assume a: "\<forall>i<1024. got bm i"
  show "\<forall>w\<in>set bm. w = - 1"
  proof
    fix w
    assume "w \<in> set bm"
    then obtain j where j: "j < 32" "w = bm ! j"
      using assms by (auto simp: in_set_conv_nth)
    have "bit w k" if "k < 32" for k
      using a [rule_format, of "32 * j + k"] j that by (simp add: got_def)
    then show "w = - 1"
      by (intro bit_word_eqI) simp
  qed
qed

lemma fresh_blocks_spec:
  assumes "n \<le> 1024"
  obtains bm where "fresh_blocks n = Some bm" "length bm = 32" "\<And>i. i < 1024 \<Longrightarrow> got bm i = (n \<le> i)"
proof -
  let ?f = "replicate BIT_MAP_NUM (- 1) :: u32 list"
  have "got ?f i" if "i < 1024" for i
    using that by (simp add: got_def BIT_MAP_NUM_def less_mult_imp_div_less)
  moreover have "length ?f = 32"
    by (simp add: BIT_MAP_NUM_def)
  ultimately show ?thesis
    using clear_blocks [of n ?f] assms that [of "foldl clear_block ?f [0..<n]"]
    by (simp add: fresh_blocks_def BIT_MAP_NUM_def)
qed

subsection \<open>Reading an encoded message\<close>

definition nb16 :: "nat \<Rightarrow> u8 list" where
  "nb16 n = [of_nat (n div 256), of_nat n]"

definition nb32 :: "nat \<Rightarrow> u8 list" where
  "nb32 n = [of_nat (n div 16777216), of_nat (n div 65536), of_nat (n div 256), of_nat n]"

lemma length_nb [simp]: "length (nb16 n) = 2" "length (nb32 n) = 4"
  by (simp_all add: nb16_def nb32_def)

lemma rd_append_pre [simp]: "0 \<le> k \<Longrightarrow> rd (pre @ xs) (int (length pre) + k) = rd xs k"
  by (simp add: rd_def nth_append nat_add_distrib)

lemma rd_append_pre_0 [simp]: "rd (pre @ xs) (int (length pre)) = rd xs 0"
  using rd_append_pre [of 0 pre xs] by simp

lemma get_append_pre [simp]:
  "0 \<le> k \<Longrightarrow> get_2byte_value (pre @ xs) (int (length pre) + k) = get_2byte_value xs k"
  "0 \<le> k \<Longrightarrow> get_4byte_value (pre @ xs) (int (length pre) + k) = get_4byte_value xs k"
  by (simp_all add: get_2byte_value_def get_4byte_value_def add.assoc)

lemma rd_Cons_pos:
  assumes "0 < k"
  shows "rd (x # xs) k = rd xs (k - 1)"
proof -
  have "nat k = Suc (nat (k - 1))"
    using assms by simp
  with assms show ?thesis
    by (auto simp: rd_def)
qed

lemma rd_Cons [simp]:
  "rd (x # xs) 0 = Some (unat x)" "rd (x # xs) 1 = rd xs 0" "rd (x # xs) (numeral k) = rd xs (numeral k - 1)"
  using rd_Cons_pos [of 1 x xs] rd_Cons_pos [of "numeral k" x xs] by (simp_all only: zero_less_numeral zero_less_one diff_self)
    (simp add: rd_def)

lemma unat_byte: "unat (of_nat n :: u8) = n mod 256"
  by (simp add: unat_of_nat)

lemma get_2byte_nb16 [simp]: "n < 65536 \<Longrightarrow> get_2byte_value (nb16 n @ xs) 0 = Some n"
  by (simp add: get_2byte_value_def nb16_def unat_byte less_mult_imp_div_less)

lemma get_4byte_nb32 [simp]:
  assumes "n < 2 ^ 32"
  shows "get_4byte_value (nb32 n @ xs) 0 = Some n"
proof -
  have d: "n div 65536 = n div 256 div 256" "n div 16777216 = n div 256 div 256 div 256"
    by (simp_all flip: div_mult2_eq)
  have "n div 256 div 256 div 256 < 256"
    using assms by (simp add: less_mult_imp_div_less flip: div_mult2_eq)
  then have m: "n div 256 div 256 div 256 mod 256 = n div 256 div 256 div 256"
    by simp
  have "n div 16777216 * 16777216 + n div 65536 mod 256 * 65536 + n div 256 mod 256 * 256 + n mod 256 = n"
    unfolding d using div_mult_mod_eq [of n 256] div_mult_mod_eq [of "n div 256" 256]
      div_mult_mod_eq [of "n div 256 div 256" 256] by linarith
  then show ?thesis
    using m by (simp add: get_4byte_value_def nb32_def unat_byte d)
qed

text \<open>A DDB message with \<open>nver\<close> version bytes, laid out as the pack tool does.\<close>

definition ddb_msg :: "nat \<Rightarrow> nat \<Rightarrow> u8 \<Rightarrow> nat \<Rightarrow> u8 list \<Rightarrow> u8 list" where
  "ddb_msg nver mid ver bnum payload =
     [0x11, 0x03, 0x10, 0x03] @ nb32 11 @ [0xff, 0] @ nb16 (length payload + 6) @ nb16 mid @
     replicate nver ver @ [0xff] @ nb16 bnum @ payload"

lemma get_at_prefix:
  "int (length pre) = p \<Longrightarrow> n < 65536 \<Longrightarrow> get_2byte_value (pre @ nb16 n @ xs) p = Some n"
  using get_append_pre(1) [of 0 pre "nb16 n @ xs"] by simp

lemma drop_prefix: "n = length pre \<Longrightarrow> drop n (pre @ xs) = xs"
  by simp

lemma ddb_data_msg:
  assumes "mid < 65536" "bnum < 65536" "length payload + 6 < 65536"
  obtains buf p where "drop (nat p) buf = payload @ post" "0 \<le> p" "p + int (length payload) \<le> int (length buf)"
    "ddb_data nver (pre @ ddb_msg nver mid ver bnum payload @ post) (int (length pre)) m B blk mem =
      (if module_id m \<noteq> mid then Some (DBC_FAIL, m, mem)
       else ddb_store buf p (length payload + 6) m B bnum blk mem)"
proof -
  let ?hd = "[0x11, 0x03, 0x10, 0x03] @ nb32 11 @ [0xff, 0] @ nb16 (length payload + 6)"
  let ?buf = "pre @ ddb_msg nver mid ver bnum payload @ post"
  let ?p = "int (length pre)"
  let ?d = "?p + 12 + 2 + int nver + 1 + 2"
  have buf1: "?buf = (pre @ ?hd) @ nb16 mid @ replicate nver ver @ [0xff] @ nb16 bnum @ payload @ post"
    and buf2: "?buf = (pre @ ?hd @ nb16 mid @ replicate nver ver @ [0xff]) @ nb16 bnum @ payload @ post"
    and buf3: "?buf = (pre @ ?hd @ nb16 mid @ replicate nver ver @ [0xff] @ nb16 bnum) @ payload @ post"
    by (simp_all add: ddb_msg_def)
  have h: "get_4byte_value ?buf (?p + 4) = Some 11" "rd ?buf (?p + 9) = Some 0"
    by (simp_all add: ddb_msg_def nb32_def get_4byte_value_def add.assoc)
  have l: "get_2byte_value ?buf (?p + 10) = Some (length payload + 6)"
    using get_at_prefix [of "pre @ [0x11, 0x03, 0x10, 0x03] @ nb32 11 @ [0xff, 0]" "?p + 10" "length payload + 6"] assms(3)
    by (simp add: ddb_msg_def)
  have i: "get_2byte_value ?buf (?p + 12) = Some mid"
    unfolding buf1 using assms(1) by (intro get_at_prefix) simp_all
  have b: "get_2byte_value ?buf (?p + 12 + 2 + int nver + 1) = Some bnum"
    unfolding buf2 using assms(2) by (intro get_at_prefix) simp_all
  have "nat ?d = length (pre @ ?hd @ nb16 mid @ replicate nver ver @ [0xff] @ nb16 bnum)"
    by simp
  then have d: "drop (nat ?d) ?buf = payload @ post"
    unfolding buf3 by (rule drop_prefix)
  have len: "?d + int (length payload) \<le> int (length ?buf)"
    unfolding buf3 by simp
  have "ddb_data nver ?buf ?p m B blk mem = (if module_id m \<noteq> mid then Some (DBC_FAIL, m, mem)
      else ddb_store ?buf ?d (length payload + 6) m B bnum blk mem)"
    using h l i b unfolding ddb_data_def by (simp add: Let_def del: of_nat_add append_assoc)
  moreover have "0 \<le> ?d"
    by simp
  ultimately show ?thesis
    using d len that by blast
qed

text \<open>
  A module that is being received: the block count and the bitmap fit the size, and the
  finish flag is set exactly when every block is there.
\<close>

definition module_ok :: "nat \<Rightarrow> DCModuleInfo \<Rightarrow> bool" where
  "module_ok B m \<longleftrightarrow> 0 < B \<and> B < 65530 \<and> 0 < module_buf_size m \<and> module_buf_size m \<le> 1024 * B \<and>
     module_buf_size m < 2 ^ 32 \<and>
     block_num m = (module_buf_size m + B - 1) div B \<and> length (block_received m) = 32 \<and>
     (\<forall>i<1024. block_num m \<le> i \<longrightarrow> got (block_received m) i) \<and>
     module_download_finish m = (if \<forall>i<block_num m. got (block_received m) i then 1 else 0)"

text \<open>The bytes of block \<open>b\<close> of an image.\<close>

definition image_block :: "nat \<Rightarrow> u8 list \<Rightarrow> nat \<Rightarrow> u8 list" where
  "image_block B img b = take B (drop (b * B) img)"

lemma module_ok_blocks:
  assumes "module_ok B m" "b < block_num m"
  shows "b < 1024" "b * B < module_buf_size m" "b div 32 < length (block_received m)"
proof -
  let ?s = "module_buf_size m"
  have B: "0 < B" "?s \<le> 1024 * B" "block_num m = (?s + B - 1) div B" "length (block_received m) = 32" "0 < ?s"
    using assms(1) by (auto simp: module_ok_def)
  have "Suc b * B \<le> (?s + B - 1) div B * B"
    using assms(2) B(3) by (intro mult_right_mono) auto
  also have "\<dots> \<le> ?s + B - 1"
    by (rule div_times_less_eq_dividend)
  finally show s: "b * B < ?s"
    using B(1,5) by simp
  then have "b * B < 1024 * B"
    using B(2) by linarith
  then show "b < 1024"
    by simp
  then show "b div 32 < length (block_received m)"
    using B(4) by (simp add: less_mult_imp_div_less)
qed

lemma ddb_store_block:
  assumes "module_ok B m" "b < block_num m" "length img = module_buf_size m"
    and "0 \<le> module_buf_pointer m" "module_buf_pointer m + int (module_buf_size m) \<le> int (length mem)"
    and "drop (nat p) buf = image_block B img b @ post" "0 \<le> p"
    and "p + int (length (image_block B img b)) \<le> int (length buf)"
  shows "ddb_store buf p (length (image_block B img b) + 6) m B b (b mod 256) mem =
    (if got (block_received m) b then Some (DBC_FAIL, m, mem)
     else Some (DBC_SUCCESS, m\<lparr>block_received := set_block (block_received m) b,
              module_download_finish := (if \<forall>w\<in>set (set_block (block_received m) b). w = - 1 then 1 else 0)\<rparr>,
            memcpy_at (nat (module_buf_pointer m) + b * B) (image_block B img b) mem))"
proof -
  let ?s = "module_buf_size m" and ?pl = "image_block B img b"
  note ok = module_ok_blocks [OF assms(1,2)]
  have "b * B < 2 ^ 32"
    using ok(2) assms(1) by (auto simp: module_ok_def)
  then have pos: "b * B mod 2 ^ 32 = b * B"
    by simp
  have n: "(if ?s - b * B > B then B else ?s - b * B) = length ?pl"
    using assms(3) by (simp add: image_block_def min_def)
  have dst: "nat (module_buf_pointer m + int (b * B)) = nat (module_buf_pointer m) + b * B"
    "0 \<le> module_buf_pointer m + int (b * B)"
    "module_buf_pointer m + int (b * B) + int (length ?pl) \<le> int (length mem)"
  proof -
    have "b * B + length ?pl \<le> ?s"
      using assms(3) ok(2) by (auto simp: image_block_def min_def)
    then show "module_buf_pointer m + int (b * B) + int (length ?pl) \<le> int (length mem)"
      using assms(5) by linarith
    show "nat (module_buf_pointer m + int (b * B)) = nat (module_buf_pointer m) + b * B"
      "0 \<le> module_buf_pointer m + int (b * B)"
      using assms(4) by linarith+
  qed
  have "take (length ?pl) (drop (nat p) buf) = ?pl"
    using assms(6) by simp
  then show ?thesis
    unfolding ddb_store_def pos n Let_def block_is_set_got
    using assms(2,7,8) ok dst by (auto simp: not_less)
qed

subsection \<open>The contract of a block collector\<close>

text \<open>
  The download relies on this: each delivered block is recorded and nothing else, and the
  finish flag says that every block has been delivered. Delivering all blocks, in any
  order and with repetitions, then finishes the download.
\<close>

locale block_collector =
  fixes inv :: "'s \<Rightarrow> bool"
    and total_blocks :: "'s \<Rightarrow> nat"
    and has :: "'s \<Rightarrow> nat \<Rightarrow> bool"
    and finished :: "'s \<Rightarrow> bool"
    and deliver :: "'s \<Rightarrow> nat \<Rightarrow> 's"
  assumes deliver_inv: "inv s \<Longrightarrow> b < total_blocks s \<Longrightarrow> inv (deliver s b)"
    and deliver_total: "inv s \<Longrightarrow> b < total_blocks s \<Longrightarrow> total_blocks (deliver s b) = total_blocks s"
    and deliver_has: "inv s \<Longrightarrow> b < total_blocks s \<Longrightarrow> has (deliver s b) c = (has s c \<or> c = b)"
    and finished_iff: "inv s \<Longrightarrow> finished s \<longleftrightarrow> (\<forall>b<total_blocks s. has s b)"
begin

lemma deliver_all:
  assumes "inv s" "set bs \<subseteq> {..<total_blocks s}"
  shows "inv (foldl deliver s bs) \<and> total_blocks (foldl deliver s bs) = total_blocks s \<and>
    (\<forall>c. has (foldl deliver s bs) c = (has s c \<or> c \<in> set bs))"
  using assms
proof (induction bs arbitrary: s)
  case (Cons b bs)
  then have b: "b < total_blocks s" "set bs \<subseteq> {..<total_blocks (deliver s b)}" "inv (deliver s b)"
    by (auto simp: deliver_total deliver_inv)
  from Cons.IH [OF b(3,2)] show ?case
    using Cons.prems(1) b(1) by (auto simp: deliver_total deliver_has)
qed simp

lemma deliver_all_finishes:
  assumes "inv s" "set bs = {..<total_blocks s}"
  shows "finished (foldl deliver s bs)"
  using deliver_all [OF assms(1), of bs] assms(2) by (auto simp: finished_iff)

lemma unfinished_before_all:
  assumes "inv s" "set bs \<subseteq> {..<total_blocks s}" "finished (foldl deliver s bs)" "b < total_blocks s"
  shows "has s b \<or> b \<in> set bs"
  using deliver_all [OF assms(1,2)] assms(3,4) by (auto simp: finished_iff)

end

text \<open>
  The state of a module download: the block size, the image being sent, the module entry
  and the download memory. A delivery runs the DDB parser on the message of the block.
\<close>

type_synonym ddb_state = "nat \<times> nat \<times> u8 list \<times> DCModuleInfo \<times> u8 list"

definition ddb_inv :: "ddb_state \<Rightarrow> bool" where
  "ddb_inv = (\<lambda>(nver, B, img, m, mem).
     module_ok B m \<and> module_id m < 65536 \<and> length img = module_buf_size m \<and>
     0 \<le> module_buf_pointer m \<and> module_buf_pointer m + int (module_buf_size m) \<le> int (length mem) \<and>
     (\<forall>b<block_num m. got (block_received m) b \<longrightarrow>
        take (length (image_block B img b)) (drop (nat (module_buf_pointer m) + b * B) mem) = image_block B img b))"

definition ddb_total :: "ddb_state \<Rightarrow> nat" where
  "ddb_total = (\<lambda>(nver, B, img, m, mem). block_num m)"

definition ddb_has :: "ddb_state \<Rightarrow> nat \<Rightarrow> bool" where
  "ddb_has = (\<lambda>(nver, B, img, m, mem) b. b < block_num m \<and> got (block_received m) b)"

definition ddb_finished :: "ddb_state \<Rightarrow> bool" where
  "ddb_finished = (\<lambda>(nver, B, img, m, mem). module_download_finish m = 1)"

definition ddb_deliver :: "ddb_state \<Rightarrow> nat \<Rightarrow> ddb_state" where
  "ddb_deliver = (\<lambda>(nver, B, img, m, mem) b.
     case ddb_data nver (ddb_msg nver (module_id m) 0 b (image_block B img b)) 0 m B (b mod 256) mem of
       Some (r, m', mem') \<Rightarrow> (nver, B, img, m', mem')
     | None \<Rightarrow> (nver, B, img, m, mem))"

lemma image_block_bounds:
  assumes "b * B < length img"
  shows "length (image_block B img b) \<le> B" "b * B + length (image_block B img b) \<le> length img"
  using assms by (auto simp: image_block_def min_def)

lemma blocks_disjoint:
  assumes "b \<noteq> c"
  shows "b * B + B \<le> c * B \<or> c * B + B \<le> b * (B :: nat)"
proof (cases "b < c")
  case True
  then have "Suc b * B \<le> c * B"
    by (intro mult_right_mono) auto
  then show ?thesis by simp
next
  case False
  then have "Suc c * B \<le> b * B"
    using assms by (intro mult_right_mono) auto
  then show ?thesis by simp
qed

lemma blocks_cover:
  assumes "0 < B" "length img = n" "p + n \<le> length mem"
    and "\<And>b. b * B < n \<Longrightarrow>
      take (length (image_block B img b)) (drop (p + b * B) mem) = image_block B img b"
  shows "take n (drop p mem) = img"
proof (rule nth_equalityI)
  show "length (take n (drop p mem)) = length img"
    using assms(2,3) by simp
next
  fix i
  assume "i < length (take n (drop p mem))"
  then have i: "i < n"
    by simp
  let ?b = "i div B" and ?j = "i mod B"
  have ib: "?b * B + ?j = i" "?j < B"
    using assms(1) by simp_all
  then have b: "?b * B < n"
    using i by linarith
  have "?j < n - ?b * B"
    using ib(1) i b by linarith
  then have "?j < length (image_block B img ?b)"
    using ib(2) assms(2) by (simp add: image_block_def)
  then have "mem ! (p + ?b * B + ?j) = image_block B img ?b ! ?j"
    using arg_cong [OF assms(4) [OF b], of "\<lambda>xs. xs ! ?j"] ib i assms(3) by simp
  moreover have "image_block B img ?b ! ?j = img ! i"
    using ib b assms(2) by (simp add: image_block_def)
  ultimately show "take n (drop p mem) ! i = img ! i"
    using i ib(1) assms(3) by (simp add: add.assoc)
qed

lemma module_ok_set_block:
  assumes "module_ok B m" "b < block_num m"
  shows "module_ok B (m\<lparr>block_received := set_block (block_received m) b,
    module_download_finish := (if \<forall>w\<in>set (set_block (block_received m) b). w = - 1 then 1 else 0)\<rparr>)"
proof -
  note ok = module_ok_blocks [OF assms]
  have m: "length (block_received m) = 32" "\<forall>i<1024. block_num m \<le> i \<longrightarrow> got (block_received m) i"
    using assms(1) by (auto simp: module_ok_def)
  have n: "i < 1024" if "i < block_num m" for i
    using module_ok_blocks(1) [OF assms(1) that] .
  note g = got_set_block [OF ok(3)]
  have "(\<forall>w\<in>set (set_block (block_received m) b). w = - 1) \<longleftrightarrow>
      (\<forall>i<block_num m. got (set_block (block_received m) b) i)"
    using all_set_iff [of "set_block (block_received m) b"] m n g by (metis length_set_block not_le)
  then show ?thesis
    using assms(1) g by (auto simp: module_ok_def)
qed

lemma ddb_deliver_step:
  assumes "ddb_inv (nver, B, img, m, mem)" "b < block_num m"
  shows "\<exists>r m' mem'.
    ddb_data nver (pre @ ddb_msg nver (module_id m) ver b (image_block B img b) @ post) (int (length pre)) m B
      (b mod 256) mem = Some (r, m', mem') \<and> r = (if got (block_received m) b then DBC_FAIL else DBC_SUCCESS) \<and>
    ddb_inv (nver, B, img, m', mem') \<and> (\<forall>c. got (block_received m') c = (got (block_received m) c \<or> c = b)) \<and>
    block_num m' = block_num m \<and> module_id m' = module_id m \<and>
    module_buf_pointer m' = module_buf_pointer m \<and> module_buf_size m' = module_buf_size m \<and>
    length mem' = length mem \<and>
    (\<forall>a<length mem. a < nat (module_buf_pointer m) \<or> nat (module_buf_pointer m) + module_buf_size m \<le> a \<longrightarrow>
       mem' ! a = mem ! a)"
proof -
  let ?s = "module_buf_size m" and ?ptr = "module_buf_pointer m" and ?pl = "image_block B img b"
  have i: "module_ok B m" "module_id m < 65536" "length img = ?s" "0 \<le> ?ptr" "?ptr + int ?s \<le> int (length mem)"
    and sl: "\<And>c. c < block_num m \<Longrightarrow> got (block_received m) c \<Longrightarrow>
      take (length (image_block B img c)) (drop (nat ?ptr + c * B) mem) = image_block B img c"
    using assms(1) by (auto simp: ddb_inv_def)
  have bs: "c * B < length img" if "c < block_num m" for c
    using module_ok_blocks(2) [OF i(1) that] i(3) by simp
  note ok = module_ok_blocks [OF i(1) assms(2)]
  note pb = image_block_bounds [OF bs [OF assms(2)]]
  have "B < 65530"
    using i(1) by (simp add: module_ok_def)
  then have c: "module_id m < 65536" "b < 65536" "length ?pl + 6 < 65536"
    using i(2) ok(1) pb(1) by linarith+
  obtain buf p where d: "drop (nat p) buf = ?pl @ post" "0 \<le> p" "p + int (length ?pl) \<le> int (length buf)"
    "ddb_data nver (pre @ ddb_msg nver (module_id m) ver b ?pl @ post) (int (length pre)) m B (b mod 256) mem =
      ddb_store buf p (length ?pl + 6) m B b (b mod 256) mem"
    by (rule ddb_data_msg [OF c, of post nver pre ver m B "b mod 256" mem]) (rule that, simp_all)
  note st = ddb_store_block [OF i(1) assms(2) i(3-5) d(1-3)]
  show ?thesis
  proof (cases "got (block_received m) b")
    case True
    then show ?thesis
      using st d(4) assms(1) by (intro exI [of _ DBC_FAIL] exI [of _ m] exI [of _ mem]) auto
  next
    case False
    define m' where "m' = m\<lparr>block_received := set_block (block_received m) b,
      module_download_finish := (if \<forall>w\<in>set (set_block (block_received m) b). w = - 1 then 1 else 0)\<rparr>"
    define mem' where "mem' = memcpy_at (nat ?ptr + b * B) ?pl mem"
    have fit: "nat ?ptr + b * B + length ?pl \<le> length mem"
      using pb(2) i(3-5) by linarith
    have len: "length mem' = length mem"
      using fit by (simp add: mem'_def)
    have g: "got (block_received m') c = (got (block_received m) c \<or> c = b)" for c
      using got_set_block [OF ok(3)] by (simp add: m'_def)
    have slice: "take (length (image_block B img c)) (drop (nat ?ptr + c * B) mem') = image_block B img c"
      if c: "c < block_num m" "got (block_received m') c" for c
    proof (cases "c = b")
      case True
      then show ?thesis
        using fit by (simp add: mem'_def take_drop_memcpy_at)
    next
      case False
      note cb = image_block_bounds [OF bs [OF c(1)]]
      have dj: "nat ?ptr + c * B + length (image_block B img c) \<le> nat ?ptr + b * B \<or>
          nat ?ptr + b * B + length ?pl \<le> nat ?ptr + c * B"
        using blocks_disjoint [OF False, of B] cb(1) pb(1) by auto
      moreover have "nat ?ptr + c * B + length (image_block B img c) \<le> length mem"
        using cb(2) i(3-5) by linarith
      ultimately show ?thesis
        using take_drop_memcpy_disjoint [OF fit] sl [OF c(1)] g c(2) False by (simp add: mem'_def)
    qed
    have "ddb_inv (nver, B, img, m', mem')"
      using module_ok_set_block [OF i(1) assms(2)] i(2-5) len slice by (simp add: ddb_inv_def m'_def)
    moreover have "mem' ! a = mem ! a"
      if "a < length mem" "a < nat ?ptr \<or> nat ?ptr + ?s \<le> a" for a
      using nth_memcpy_at [OF fit that(1)] that(2) pb(2) i(3) by (auto simp: mem'_def)
    ultimately show ?thesis
      using st d(4) False g len
      by (intro exI [of _ DBC_SUCCESS] exI [of _ m'] exI [of _ mem']) (simp add: m'_def mem'_def)
  qed
qed

lemma ddb_deliver_eq:
  assumes "ddb_inv (nver, B, img, m, mem)" "b < block_num m"
  obtains r m' mem' where
    "ddb_data nver (ddb_msg nver (module_id m) 0 b (image_block B img b)) 0 m B (b mod 256) mem = Some (r, m', mem')"
    "ddb_deliver (nver, B, img, m, mem) b = (nver, B, img, m', mem')" "ddb_inv (nver, B, img, m', mem')"
    "\<forall>c. got (block_received m') c = (got (block_received m) c \<or> c = b)"
    "block_num m' = block_num m" "module_id m' = module_id m" "module_buf_pointer m' = module_buf_pointer m"
    "module_buf_size m' = module_buf_size m" "length mem' = length mem"
    "\<forall>a<length mem. a < nat (module_buf_pointer m) \<or> nat (module_buf_pointer m) + module_buf_size m \<le> a \<longrightarrow>
       mem' ! a = mem ! a"
proof -
  from ddb_deliver_step [OF assms, of "[]" 0 "[]"] obtain r m' mem' where
    d: "ddb_data nver (ddb_msg nver (module_id m) 0 b (image_block B img b)) 0 m B (b mod 256) mem = Some (r, m', mem')"
    and s: "ddb_inv (nver, B, img, m', mem')" "\<forall>c. got (block_received m') c = (got (block_received m) c \<or> c = b)"
    "block_num m' = block_num m" "module_id m' = module_id m" "module_buf_pointer m' = module_buf_pointer m"
    "module_buf_size m' = module_buf_size m" "length mem' = length mem"
    "\<forall>a<length mem. a < nat (module_buf_pointer m) \<or> nat (module_buf_pointer m) + module_buf_size m \<le> a \<longrightarrow>
       mem' ! a = mem ! a"
    by auto
  have "ddb_deliver (nver, B, img, m, mem) b = (nver, B, img, m', mem')"
    by (simp add: ddb_deliver_def d)
  from that [OF d this s] show ?thesis .
qed

interpretation ddb: block_collector ddb_inv ddb_total ddb_has ddb_finished ddb_deliver
proof
  fix s :: ddb_state and b c :: nat
  obtain nver B img m mem where s: "s = (nver, B, img, m, mem)"
    by (cases s) auto
  assume i: "ddb_inv s"
  show "ddb_finished s \<longleftrightarrow> (\<forall>b<ddb_total s. ddb_has s b)"
    using i by (simp add: s ddb_inv_def module_ok_def ddb_finished_def ddb_total_def ddb_has_def)
  assume b: "b < ddb_total s"
  then have "b < block_num m"
    by (simp add: s ddb_total_def)
  note step = ddb_deliver_eq [OF i [unfolded s] this]
  show "ddb_inv (ddb_deliver s b)"
    by (rule step) (simp add: s)
  show "ddb_total (ddb_deliver s b) = ddb_total s"
    by (rule step) (simp add: s ddb_total_def)
  show "ddb_has (ddb_deliver s b) c = (ddb_has s c \<or> c = b)"
    by (rule step) (use b in \<open>auto simp: s ddb_has_def ddb_total_def\<close>)
qed

subsection \<open>Receiving a module\<close>

text \<open>A run of the DDB parser over received sections: buffer, position and section number.\<close>

fun run_sections :: "nat \<Rightarrow> nat \<Rightarrow> (u8 list \<times> int \<times> nat) list \<Rightarrow> DCModuleInfo \<Rightarrow> u8 list
    \<Rightarrow> (DCModuleInfo \<times> u8 list) option" where
  "run_sections nver B [] m mem = Some (m, mem)"
| "run_sections nver B ((buf, p, blk) # ss) m mem = do {
     (r, m', mem') \<leftarrow> ddb_data nver buf p m B blk mem;
     run_sections nver B ss m' mem' }"

definition block_section :: "nat \<Rightarrow> nat \<Rightarrow> nat \<Rightarrow> u8 list \<Rightarrow> nat \<Rightarrow> u8 list \<times> int \<times> nat" where
  "block_section nver B mid img b = (ddb_msg nver mid 0 b (image_block B img b), 0, b mod 256)"

lemma run_sections_deliver:
  assumes "ddb_inv (nver, B, img, m, mem)" "set bs \<subseteq> {..<block_num m}"
  shows "\<exists>m' mem'. run_sections nver B (map (block_section nver B (module_id m) img) bs) m mem = Some (m', mem') \<and>
    foldl ddb_deliver (nver, B, img, m, mem) bs = (nver, B, img, m', mem') \<and>
    module_buf_pointer m' = module_buf_pointer m \<and> module_buf_size m' = module_buf_size m \<and>
    length mem' = length mem \<and>
    (\<forall>a<length mem. a < nat (module_buf_pointer m) \<or> nat (module_buf_pointer m) + module_buf_size m \<le> a \<longrightarrow>
       mem' ! a = mem ! a)"
  using assms
proof (induction bs arbitrary: m mem)
  case (Cons b bs)
  then have "b < block_num m"
    by simp
  then obtain r m1 mem1 where s:
    "ddb_data nver (ddb_msg nver (module_id m) 0 b (image_block B img b)) 0 m B (b mod 256) mem = Some (r, m1, mem1)"
    "ddb_deliver (nver, B, img, m, mem) b = (nver, B, img, m1, mem1)" "ddb_inv (nver, B, img, m1, mem1)"
    "\<forall>c. got (block_received m1) c = (got (block_received m) c \<or> c = b)"
    "block_num m1 = block_num m" "module_id m1 = module_id m" "module_buf_pointer m1 = module_buf_pointer m"
    "module_buf_size m1 = module_buf_size m" "length mem1 = length mem"
    "\<forall>a<length mem. a < nat (module_buf_pointer m) \<or> nat (module_buf_pointer m) + module_buf_size m \<le> a \<longrightarrow>
       mem1 ! a = mem ! a"
    by (rule ddb_deliver_eq [OF Cons.prems(1)])
  have "set bs \<subseteq> {..<block_num m1}"
    using Cons.prems(2) s(5) by simp
  from Cons.IH [OF s(3) this] show ?case
    using s by (auto simp: block_section_def)
qed simp

lemma div_rest: "r < B \<Longrightarrow> (r + q * B) div B = (q :: nat)"
  by simp

lemma ceil_div:
  assumes "0 < B"
  shows "n div B + (if n mod B \<noteq> 0 then 1 else 0) = (n + B - 1) div (B :: nat)"
proof (cases "n mod B = 0")
  case True
  then obtain q where q: "n = q * B"
    by (metis div_mult_mod_eq add.right_neutral)
  then have "n + B - 1 = (B - 1) + q * B"
    using assms by simp
  then have "(n + B - 1) div B = q"
    using div_rest [of "B - 1" B q] assms by (simp only:)
  then show ?thesis
    using True q assms by simp
next
  case False
  have "n + B = n mod B + (n div B + 1) * B"
    by simp
  then have "n + B - 1 = (n mod B - 1) + (n div B + 1) * B"
    using False by linarith
  moreover have "n mod B - 1 < B"
    using mod_less_divisor [OF assms, of n] by linarith
  ultimately have "(n + B - 1) div B = n div B + 1"
    using div_rest [of "n mod B - 1" B "n div B + 1"] by (simp only:)
  then show ?thesis
    using False by simp
qed

lemma blocks_1024: "0 < B \<Longrightarrow> n \<le> 1024 * B \<Longrightarrow> (n + B - 1) div B \<le> (1024 :: nat)"
proof -
  assume "0 < B" "n \<le> 1024 * B"
  then have "(n + B - 1) div B < 1025"
    by (intro div_less_iff_less_mult [THEN iffD2]) auto
  then show ?thesis by simp
qed

text \<open>A module that has been announced and of which nothing has been received.\<close>

definition fresh_module :: "nat \<Rightarrow> int \<Rightarrow> nat \<Rightarrow> nat \<Rightarrow> DCModuleInfo \<Rightarrow> bool" where
  "fresh_module B ptr mid sz m \<longleftrightarrow> module_buf_pointer m = ptr \<and> module_id m = mid \<and> module_buf_size m = sz \<and>
     block_num m = (sz + B - 1) div B \<and> fresh_blocks (block_num m) = Some (block_received m) \<and>
     module_download_finish m = 0"

lemma dii_module_fresh:
  assumes "0 < B" "sz \<le> 1024 * B"
  obtains m where "dii_module B ptr mid sz m0 = Some m" "fresh_module B ptr mid sz m"
proof -
  let ?n = "(sz + B - 1) div B"
  have n: "?n \<le> 1024" "?n mod 65536 = ?n"
    using blocks_1024 [OF assms] by simp_all
  obtain bm where bm: "fresh_blocks ?n = Some bm"
    using fresh_blocks_spec [OF n(1)] by blast
  have "dii_module B ptr mid sz m0 = Some (m0\<lparr>module_buf_pointer := ptr, module_id := mid, module_buf_size := sz,
      block_num := ?n, module_linked := 0, module_first := 0, module_last := 0, next_block_num := 0,
      block_received := bm, module_download_finish := 0\<rparr>)"
    using assms(1) bm n(2) ceil_div [OF assms(1), of sz] by (simp add: dii_module_def Let_def)
  with that bm show ?thesis
    by (simp add: fresh_module_def)
qed

lemma fresh_module_inv:
  assumes "fresh_module B ptr mid (length img) m"
    and "mid < 65536" "0 < B" "B < 65530" "0 < length img" "length img \<le> 1024 * B" "length img < 2 ^ 32"
    and "0 \<le> ptr" "ptr + int (length img) \<le> int (length mem)"
  shows "ddb_inv (nver, B, img, m, mem)" "\<forall>b<block_num m. \<not> got (block_received m) b"
proof -
  let ?n = "(length img + B - 1) div B" and ?bm = "block_received m"
  have m: "block_num m = ?n" "fresh_blocks ?n = Some ?bm" "module_buf_size m = length img"
    "module_buf_pointer m = ptr" "module_id m = mid" "module_download_finish m = 0"
    using assms(1) by (auto simp: fresh_module_def)
  have n: "?n \<le> 1024"
    by (rule blocks_1024 [OF assms(3,6)])
  obtain bm where f: "fresh_blocks ?n = Some bm" "length bm = 32" "\<And>i. i < 1024 \<Longrightarrow> got bm i = (?n \<le> i)"
    using fresh_blocks_spec [OF n] by blast
  with m(2) have "?bm = bm"
    by simp
  note bm = f(2,3) [folded this]
  have "B \<le> length img + B - 1"
    using assms(5) by linarith
  then have pos: "0 < ?n"
    using assms(3) by (simp only: div_greater_zero_iff)
  show free: "\<forall>b<block_num m. \<not> got ?bm b"
    unfolding m(1) using bm(2) n by (simp add: not_le [symmetric])
  then have "\<not> (\<forall>i<?n. got ?bm i)"
    using pos unfolding m(1) by blast
  then have "module_ok B m"
    unfolding module_ok_def m using assms(4-7) bm n pos by (intro conjI) (simp_all add: assms(3), blast)
  then show "ddb_inv (nver, B, img, m, mem)"
    using assms(2,8,9) free m by (auto simp: ddb_inv_def)
qed

lemma dii_module_inv:
  assumes "dii_module B ptr mid (length img) m0 = Some m"
    and "mid < 65536" "0 < B" "B < 65530" "0 < length img" "length img \<le> 1024 * B" "length img < 2 ^ 32"
    and "0 \<le> ptr" "ptr + int (length img) \<le> int (length mem)"
  shows "ddb_inv (nver, B, img, m, mem)" "module_buf_pointer m = ptr" "module_buf_size m = length img"
    "module_id m = mid" "\<forall>b<block_num m. \<not> got (block_received m) b"
proof -
  have f: "fresh_module B ptr mid (length img) m"
    using dii_module_fresh [OF assms(3,6), of ptr mid m0] assms(1) by auto
  from fresh_module_inv [OF f assms(2-9)] show "ddb_inv (nver, B, img, m, mem)"
    "\<forall>b<block_num m. \<not> got (block_received m) b" by blast+
  from f show "module_buf_pointer m = ptr" "module_buf_size m = length img" "module_id m = mid"
    by (simp_all add: fresh_module_def)
qed

text \<open>A module of six bytes in blocks of four, used by the witnesses.\<close>

definition blank_module :: DCModuleInfo where
  "blank_module = \<lparr>module_id = 0, module_linked = 0, module_first = 0, module_last = 0,
     module_buf_pointer = 0, module_buf_size = 0, block_num = 0, next_module_id = 0, next_block_num = 0,
     block_received = replicate 32 0, module_download_finish = 0\<rparr>"

definition demo_img :: "u8 list" where
  "demo_img = [10, 20, 30, 40, 50, 60]"

definition demo_module :: DCModuleInfo where
  "demo_module = the (dii_module 4 1 7 6 blank_module)"

lemma demo_module_facts:
  "dii_module 4 1 7 (length demo_img) blank_module = Some demo_module" "block_num demo_module = 2"
  "length demo_img = 6"
proof -
  show len: "length demo_img = 6"
    by (simp add: demo_img_def)
  obtain bm where bm: "fresh_blocks 2 = Some bm"
    by (rule fresh_blocks_spec [of 2]) simp_all
  define m where "m = blank_module\<lparr>module_buf_pointer := 1, module_id := 7, module_buf_size := 6, block_num := 2,
      module_linked := 0, module_first := 0, module_last := 0, next_block_num := 0,
      block_received := bm, module_download_finish := 0\<rparr>"
  have "dii_module 4 1 7 6 blank_module = Some m"
    using bm by (simp add: dii_module_def m_def Let_def numeral_2_eq_2)
  then show "dii_module 4 1 7 (length demo_img) blank_module = Some demo_module" "block_num demo_module = 2"
    unfolding len by (simp_all add: demo_module_def m_def)
qed

text \<open>A run over all blocks of a fresh module.\<close>

lemma run_all_blocks:
  assumes "dii_module B ptr mid (length img) m0 = Some m"
    and "mid < 65536" "0 < B" "B < 65530" "0 < length img" "length img \<le> 1024 * B"
    and "length img < 2 ^ 32" "0 \<le> ptr" "ptr + int (length img) \<le> int (length mem)"
    and "set bs = {..<block_num m}"
  obtains m' mem' where
    "run_sections nver B (map (block_section nver B mid img) bs) m mem = Some (m', mem')"
    "module_download_finish m' = 1" "ddb_inv (nver, B, img, m', mem')"
    "\<forall>b<block_num m'. got (block_received m') b"
    "module_buf_pointer m' = ptr" "module_buf_size m' = length img" "length mem' = length mem"
    "\<forall>a<length mem. a < nat ptr \<or> nat ptr + length img \<le> a \<longrightarrow> mem' ! a = mem ! a"
proof -
  note inv = dii_module_inv [OF assms(1-9)]
  from run_sections_deliver [OF inv(1), of bs nver] assms(10) obtain m' mem' where r:
    "run_sections nver B (map (block_section nver B mid img) bs) m mem = Some (m', mem')"
    "foldl ddb_deliver (nver, B, img, m, mem) bs = (nver, B, img, m', mem')"
    "module_buf_pointer m' = ptr" "module_buf_size m' = length img" "length mem' = length mem"
    "\<forall>a<length mem. a < nat ptr \<or> nat ptr + length img \<le> a \<longrightarrow> mem' ! a = mem ! a"
    using inv(2-4) by auto
  have t: "set bs = {..<ddb_total (nver, B, img, m, mem)}"
    using assms(10) by (simp add: ddb_total_def)
  have fin: "ddb_finished (nver, B, img, m', mem')"
    using ddb.deliver_all_finishes [OF inv(1) t] r(2) by simp
  have inv': "ddb_inv (nver, B, img, m', mem')"
    using ddb.deliver_all [OF inv(1), of bs nver] t r(2) by simp
  then have "\<forall>b<block_num m'. got (block_received m') b"
    using fin ddb.finished_iff [OF inv'] by (simp add: ddb_total_def ddb_has_def)
  with r fin inv' that show ?thesis
    by (simp add: ddb_finished_def)
qed

text \<open>
  (C29) Whatever the order and the repetitions, once every block of a module announced by a
  DII has been received, the module is marked finished and the download memory holds
  exactly the module's bytes at its place, and every byte outside that place is unchanged.
\<close>

theorem ddb_reassembles:
  assumes "dii_module B ptr mid (length img) m0 = Some m"
    and "mid < 65536" and "0 < B" and "B < 65530" and "0 < length img" and "length img \<le> 1024 * B"
    and "length img < 2 ^ 32" and "0 \<le> ptr" and "ptr + int (length img) \<le> int (length mem)"
    and "set bs = {..<block_num m}"
  shows "\<exists>m' mem'. run_sections nver B (map (block_section nver B mid img) bs) m mem = Some (m', mem') \<and>
    module_download_finish m' = 1 \<and> take (length img) (drop (nat ptr) mem') = img \<and>
    (\<forall>a<length mem. a < nat ptr \<or> nat ptr + length img \<le> a \<longrightarrow> mem' ! a = mem ! a)"
proof -
  obtain m' mem' where r:
    "run_sections nver B (map (block_section nver B mid img) bs) m mem = Some (m', mem')"
    "module_download_finish m' = 1" and inv': "ddb_inv (nver, B, img, m', mem')"
    and all: "\<forall>b<block_num m'. got (block_received m') b"
    and r': "module_buf_pointer m' = ptr" "module_buf_size m' = length img" "length mem' = length mem"
    "\<forall>a<length mem. a < nat ptr \<or> nat ptr + length img \<le> a \<longrightarrow> mem' ! a = mem ! a"
    by (rule run_all_blocks [OF assms])
  have blk: "b < block_num m'" if "b * B < length img" for b
  proof -
    have "block_num m' = (length img + B - 1) div B"
      using inv' r'(2) by (simp add: ddb_inv_def module_ok_def)
    moreover have "b + 1 \<le> (length img + B - 1) div B"
      using that assms(3) by (intro less_eq_div_iff_mult_less_eq [THEN iffD2]) auto
    ultimately show ?thesis by simp
  qed
  have "take (length img) (drop (nat ptr) mem') = img"
    using inv' all blk r'(1) assms(3,8,9) r'(3)
    by (intro blocks_cover [of B img "length img"]) (auto simp: ddb_inv_def)
  with r r'(4) show ?thesis by blast
qed

theorem ddb_reassembles_witness:
  "\<exists>m' mem'. run_sections 1 4 (map (block_section 1 4 7 demo_img) [1, 0, 1]) demo_module (replicate 8 0) =
     Some (m', mem') \<and> module_download_finish m' = 1 \<and> take 6 (drop 1 mem') = demo_img"
proof -
  have "set [1, 0, 1] = {..<block_num demo_module}"
    by (auto simp: demo_module_facts)
  then show ?thesis
    using ddb_reassembles [OF demo_module_facts(1), of "replicate 8 0" "[1, 0, 1]" 1] demo_module_facts(3)
    by auto
qed

text \<open>
  A module announced by a DII is never marked finished early: if the parser has seen
  only sections of some of its blocks and the finish flag is set, then every block was
  among them.
\<close>

lemma ddb_finish_is_complete:
  assumes "dii_module B ptr mid (length img) m0 = Some m"
    and "mid < 65536" and "0 < B" and "B < 65530" and "0 < length img" and "length img \<le> 1024 * B"
    and "length img < 2 ^ 32" and "0 \<le> ptr" and "ptr + int (length img) \<le> int (length mem)"
    and "set bs \<subseteq> {..<block_num m}"
    and "run_sections nver B (map (block_section nver B mid img) bs) m mem = Some (m', mem')"
    and "module_download_finish m' = 1"
  shows "set bs = {..<block_num m}"
proof -
  note inv = dii_module_inv [OF assms(1-9)]
  have t: "set bs \<subseteq> {..<ddb_total (nver, B, img, m, mem)}"
    using assms(10) by (simp add: ddb_total_def)
  have "foldl ddb_deliver (nver, B, img, m, mem) bs = (nver, B, img, m', mem')"
    using run_sections_deliver [OF inv(1), of bs nver] assms(10,11) inv(4) by auto
  then have "ddb_finished (foldl ddb_deliver (nver, B, img, m, mem) bs)"
    using assms(12) by (simp add: ddb_finished_def)
  from ddb.unfinished_before_all [OF inv(1) t this] show ?thesis
    using inv(5) assms(10) by (auto simp: ddb_total_def ddb_has_def)
qed

end
