(* ===== verification/Ota.thy ===== *)
theory Ota
  imports Dsmcc
begin

section \<open>Section handling and memory layout of the OTA download (\<open>lib_ota.c\<close>)\<close>

text \<open>
  \<open>plugins/ota/lib_ota.c\<close> of both library versions: the section parser, the callback that
  collects data sections, the set-up of the section filters, and the placement of the
  modules in the download memory. The file's static variables are the record \<open>ota\<close>; the
  download memory is its field \<open>ram\<close>, addressed by the module pointers. The demultiplexer
  is a parameter: which sections a request delivers and what its calls return.

  The code of the two versions is shared where it is the same and takes the version as a
  parameter: \<open>extra_bytes\<close> is the number of \<open>last_section_number\<close> bytes, and of version bytes,
  that are read (1 in \<open>libalislupgrade_v3\<close>, 0 in \<open>libalislupgrade_v4\<close>).
\<close>

definition OTA_SUCCESS :: int where "OTA_SUCCESS = 0"
definition OTA_FAILURE :: int where "OTA_FAILURE = 1"
definition DSI_NUM :: nat where "DSI_NUM = 0"
definition DII_NUM :: nat where "DII_NUM = 1"
definition DDB_NUM :: nat where "DDB_NUM = 2"
definition DMX_MAX_SECTION_SIZE :: nat where "DMX_MAX_SECTION_SIZE = 4096"
definition OTA_DOWNLOAD_INFO_TIMEOUT :: nat where "OTA_DOWNLOAD_INFO_TIMEOUT = 20000"

record dl_info =
  dl_hw_version :: nat
  dl_sw_version :: nat
  dl_sw_type :: nat
  dl_sw_size :: nat

record modules_range =
  mr_start :: nat
  mr_end :: nat
  mr_len :: nat
  mr_total :: nat
  pice_index :: nat
  valid_size :: int

record restrict_t =
  rs_mask :: "u8 list"
  rs_value :: "u8 list list"
  mask_len :: nat
  value_num :: nat

record get_section_param =
  sec_pid :: nat
  sec_tbl_len :: nat
  wai_flg_dly :: nat
  mask_value :: restrict_t
  get_sec_cb :: bool
  continue_get_sec :: nat
  continue_mutex_locked :: bool
  p_mdl_range :: "modules_range option"

record ota =
  g_oui :: nat
  g_model :: nat
  g_hw_version :: nat
  g_sw_model :: nat
  g_sw_version :: nat
  g_ota_ram1_addr :: int
  g_ota_ram1_len :: nat
  g_ota_size :: nat
  g_dc_group :: DCGroupInfo
  g_dc_module :: "DCModuleInfo list"
  g_dc_module_num :: nat
  g_dc_blocksize :: nat
  g_ota_section_buf :: "u8 list"
  g_dl_info :: dl_info
  received_section_num :: nat
  total_block_num :: nat
  progress_shown :: "nat list"
  ram :: "u8 list"

subsection \<open>The section parser\<close>

text \<open>
  \<open>junk\<close> is the initial value of the local \<open>new_sw_version\<close>, which only a matching software
  descriptor sets. \<open>idx\<close> is \<open>sec_param->param8\<close>, an index into the modules.
\<close>

datatype ota_lib = V3 | V4

primrec extra_bytes :: "ota_lib \<Rightarrow> nat" where
  "extra_bytes V3 = 1"
| "extra_bytes V4 = 0"

primrec dsi_message :: "ota_lib \<Rightarrow> nat \<Rightarrow> u8 list \<Rightarrow> int \<Rightarrow> ota \<Rightarrow> (int \<times> nat \<times> DCGroupInfo) option" where
  "dsi_message V3 junk buf p s =
     v3_alisl_dsi_message buf p (g_oui s) (g_model s) (g_hw_version s) (g_sw_model s) junk (g_dc_group s)"
| "dsi_message V4 junk buf p s =
     alisl_dsi_message buf p (g_oui s) (g_sw_model s) (g_sw_version s) junk (g_dc_group s)"

definition parse_dsmcc_sec_gen :: "ota_lib \<Rightarrow> nat \<Rightarrow> u8 list \<Rightarrow> nat \<Rightarrow> nat \<Rightarrow> ota \<Rightarrow> (int \<times> ota) option" where
  "parse_dsmcc_sec_gen lib junk buf section_type idx s = do {
     table_id \<leftarrow> rd buf 0;
     table_id_extension \<leftarrow> get_2byte_value buf 3;
     section_num \<leftarrow> rd buf 6;
     let p = 7 + int (extra_bytes lib);
     if section_type = DSI_NUM then
       if table_id_extension \<noteq> 0 \<and> table_id_extension \<noteq> 1 then Some (OTA_FAILURE, s)
       else do {
         (ret, nv, grp) \<leftarrow> dsi_message lib junk buf p s;
         let s = s\<lparr>g_dc_group := grp\<rparr>;
         Some (if ret = DBC_SUCCESS
               then (OTA_SUCCESS, s\<lparr>g_dl_info := (g_dl_info s)\<lparr>dl_hw_version := g_hw_version s,
                       dl_sw_version := nv, dl_sw_type := 0, dl_sw_size := group_size grp\<rparr>\<rparr>)
               else (OTA_FAILURE, s)) }
     else if section_type = DII_NUM then
       if table_id_extension \<noteq> group_id (g_dc_group s) mod 65536 then Some (OTA_FAILURE, s)
       else do {
         (ret, ms, mnum, bsize) \<leftarrow> dii_message (extra_bytes lib) buf p (group_id (g_dc_group s)) (g_ota_ram1_addr s)
            (g_dc_module s) (g_dc_module_num s) (g_dc_blocksize s);
         let s = s\<lparr>g_dc_module := ms, g_dc_module_num := mnum, g_dc_blocksize := bsize\<rparr>;
         Some (if ret = DBC_SUCCESS then OTA_SUCCESS else OTA_FAILURE, s) }
     else if section_type = DDB_NUM then
       if length (g_dc_module s) \<le> idx then None
       else if table_id_extension \<noteq> module_id (g_dc_module s ! idx) then Some (OTA_FAILURE, s)
       else do {
         (ret, m, mem) \<leftarrow> ddb_data (extra_bytes lib) buf p (g_dc_module s ! idx) (g_dc_blocksize s) section_num (ram s);
         let s = s\<lparr>g_dc_module := (g_dc_module s)[idx := m], ram := mem\<rparr>;
         Some (if ret = DBC_SUCCESS then OTA_SUCCESS else OTA_FAILURE, s) }
     else Some (OTA_FAILURE, s) }"

definition parse_dsmcc_sec where
  "parse_dsmcc_sec = parse_dsmcc_sec_gen V4"

definition v3_parse_dsmcc_sec where
  "v3_parse_dsmcc_sec = parse_dsmcc_sec_gen V3"

subsection \<open>The data section callback\<close>

text \<open>
  The loops over the modules from \<open>lo\<close> on, \<open>n\<close> of them: the search for a module number
  (\<open>Some None\<close>: not found) and the test for an unfinished module. Both stop at the first hit.
\<close>

primrec find_module :: "DCModuleInfo list \<Rightarrow> nat \<Rightarrow> nat \<Rightarrow> nat \<Rightarrow> nat option option" where
  "find_module ms mid 0 lo = Some None"
| "find_module ms mid (Suc n) lo =
     (if length ms \<le> lo then None
      else if module_id (ms ! lo) = mid then Some (Some lo)
      else find_module ms mid n (Suc lo))"

primrec range_finished :: "DCModuleInfo list \<Rightarrow> nat \<Rightarrow> nat \<Rightarrow> bool option" where
  "range_finished ms 0 lo = Some True"
| "range_finished ms (Suc n) lo =
     (if length ms \<le> lo then None
      else if module_download_finish (ms ! lo) \<noteq> 1 then Some False
      else range_finished ms n (Suc lo))"

text \<open>
  The common part: the search for the section's module among the \<open>n\<close> modules from \<open>lo\<close> on,
  the check of the last section number, the parser, and the test whether the whole range
  is finished. The result says whether the section was stored and whether the range is
  finished now.
\<close>

definition ddb_collect :: "ota_lib \<Rightarrow> nat \<Rightarrow> u8 list \<Rightarrow> nat \<Rightarrow> nat \<Rightarrow> ota \<Rightarrow> (bool \<times> bool \<times> ota) option" where
  "ddb_collect lib junk buf n lo s = do {
     table_id_extension \<leftarrow> get_2byte_value buf 3;
     hit \<leftarrow> find_module (g_dc_module s) table_id_extension n lo;
     case hit of
       None \<Rightarrow> Some (False, False, s)
     | Some index \<Rightarrow> do {
         last_num \<leftarrow> rd buf 7;
         if (int (block_num (g_dc_module s ! index)) - 1) mod 256 \<noteq> int last_num then Some (False, False, s)
         else do {
           (ret, s') \<leftarrow> parse_dsmcc_sec_gen lib junk buf DDB_NUM (index mod 256) s;
           if ret \<noteq> 0 then Some (False, False, s')
           else do {
             fin \<leftarrow> range_finished (g_dc_module s') n lo;
             Some (True, fin, s') } } } }"

definition ddb_section :: "nat \<Rightarrow> get_section_param \<Rightarrow> ota \<Rightarrow> (get_section_param \<times> ota) option" where
  "ddb_section junk rq s = do {
     rng \<leftarrow> p_mdl_range rq;
     if mr_end rng \<ge> g_dc_module_num s then Some (rq, s)
     else do {
       (stored, fin, s') \<leftarrow> ddb_collect V4 junk (g_ota_section_buf s) (Suc (mr_end rng) - mr_start rng) (mr_start rng) s;
       Some (if stored
             then (if fin then rq\<lparr>continue_get_sec := 0, continue_mutex_locked := False\<rparr> else rq,
                   s'\<lparr>received_section_num := received_section_num s' + 1\<rparr>)
             else (rq, s')) } }"

text \<open>Version 3 has no module range and reports the progress; no blocks at all is a division by zero.\<close>

definition v3_ddb_section :: "nat \<Rightarrow> get_section_param \<Rightarrow> ota \<Rightarrow> (get_section_param \<times> ota) option" where
  "v3_ddb_section junk rq s = do {
     (stored, fin, s') \<leftarrow> ddb_collect V3 junk (g_ota_section_buf s) (g_dc_module_num s) 0 s;
     if \<not> stored then Some (rq, s')
     else if total_block_num s' = 0 then None
     else
       let n = received_section_num s' + 1
       in Some (if fin then rq\<lparr>continue_get_sec := 0\<rparr> else rq,
                s'\<lparr>received_section_num := n, progress_shown := progress_shown s' @ [n * 100 div total_block_num s']\<rparr>) }"

subsection \<open>Buffers for the demultiplexer\<close>

definition sec_request_buf :: "nat \<Rightarrow> nat option" where
  "sec_request_buf len = (if DMX_MAX_SECTION_SIZE < len then None else Some len)"

text \<open>
  A section arrives: it is written to \<open>tmp_buffer\<close>, whose content \<open>tmp\<close> then is, and
  \<open>sec_update_buf\<close> copies its valid part to the section buffer and calls the callback.
\<close>

definition sec_update_buf :: "(get_section_param \<Rightarrow> ota \<Rightarrow> (get_section_param \<times> ota) option) \<Rightarrow> u8 list \<Rightarrow> nat
    \<Rightarrow> get_section_param \<Rightarrow> ota \<Rightarrow> (get_section_param \<times> ota) option" where
  "sec_update_buf cb tmp valid_len rq s =
     (let (rq, s) =
        (if DMX_MAX_SECTION_SIZE \<ge> valid_len
         then (rq\<lparr>sec_tbl_len := valid_len mod 65536\<rparr>,
               s\<lparr>g_ota_section_buf := memcpy_at 0 (take valid_len tmp) (g_ota_section_buf s)\<rparr>)
         else (rq, s))
      in if get_sec_cb rq then cb rq s else Some (rq, s))"

text \<open>The sections a request delivers, one after the other; each is requested and updated.\<close>

primrec deliver_sections :: "(get_section_param \<Rightarrow> ota \<Rightarrow> (get_section_param \<times> ota) option) \<Rightarrow> u8 list list
    \<Rightarrow> get_section_param \<Rightarrow> ota \<Rightarrow> (get_section_param \<times> ota) option" where
  "deliver_sections cb [] rq s = Some (rq, s)"
| "deliver_sections cb (sec # secs) rq s =
     (case sec_request_buf (length sec) of
        None \<Rightarrow> deliver_sections cb secs rq s
      | Some n \<Rightarrow> do { (rq, s) \<leftarrow> sec_update_buf cb sec n rq s; deliver_sections cb secs rq s })"

subsection \<open>Section requests\<close>

text \<open>
  What the demultiplexer does for one request: the results of its calls and the sections it
  delivers to the callback until the request ends.
\<close>

record dmx_env =
  dmx_construct_ret :: int
  dmx_open_ret :: int
  dmx_start_ret :: int
  dmx_sections :: "get_section_param \<Rightarrow> u8 list list"
  dmx_poll_ret :: int
  dmx_flag_got :: bool

definition dmx_req_section :: "dmx_env \<Rightarrow> nat \<Rightarrow> get_section_param \<Rightarrow> ota
    \<Rightarrow> (int \<times> get_section_param \<times> ota) option" where
  "dmx_req_section dmx junk rq s =
     (if dmx_open_ret dmx \<noteq> 0 then Some (OTA_FAILURE, rq, s)
      else if dmx_start_ret dmx \<noteq> 0 then Some (OTA_FAILURE, rq, s)
      else
        let continuous = (if get_sec_cb rq then continue_get_sec rq else 0);
            rq = (if continuous \<noteq> 0 then rq\<lparr>continue_mutex_locked := True\<rparr> else rq)
        in do {
          (rq, s) \<leftarrow> deliver_sections (ddb_section junk) (dmx_sections dmx rq) rq s;
          Some (if dmx_poll_ret dmx = 0 then OTA_SUCCESS else OTA_FAILURE, rq, s) })"

text \<open>Version 3 creates the demultiplexer for each request and tests the flag of the channel.\<close>

definition v3_dmx_req_section :: "dmx_env \<Rightarrow> nat \<Rightarrow> get_section_param \<Rightarrow> ota
    \<Rightarrow> (int \<times> get_section_param \<times> ota) option" where
  "v3_dmx_req_section dmx junk rq s =
     (if dmx_construct_ret dmx \<noteq> 0 then Some (OTA_FAILURE, rq, s)
      else if dmx_open_ret dmx \<noteq> 0 then Some (OTA_FAILURE, rq, s)
      else if dmx_start_ret dmx \<noteq> 0 then Some (OTA_FAILURE, rq, s)
      else do {
        (rq, s) \<leftarrow> deliver_sections (v3_ddb_section junk) (dmx_sections dmx rq) rq s;
        Some (if dmx_flag_got dmx then OTA_SUCCESS else OTA_FAILURE, rq, s) })"

text \<open>A row of 16 filter bytes, all zero but those given.\<close>

definition filter_row :: "(nat \<times> u8) list \<Rightarrow> u8 list" where
  "filter_row ups = foldl (\<lambda>xs (i, b). xs[i := b]) (replicate 16 0) ups"

definition sec_restrict :: "nat \<Rightarrow> ota \<Rightarrow> restrict_t" where
  "sec_restrict section_type s =
     (if section_type = DSI_NUM then
        \<lparr>rs_mask = filter_row [(0, 0xff), (1, 0x80), (3, 0xff), (4, 0xfe), (6, 0xff)],
         rs_value = [filter_row [(0, 0x3b), (1, 0x80), (3, 0), (4, 0), (6, 0)]], mask_len = 7, value_num = 1\<rparr>
      else if section_type = DII_NUM then
        \<lparr>rs_mask = filter_row [(0, 0xff), (1, 0x80), (3, 0xff), (4, 0xff), (6, 0xff)],
         rs_value = [filter_row [(0, 0x3b), (1, 0x80), (3, of_nat (group_id (g_dc_group s) div 256)),
                       (4, of_nat (group_id (g_dc_group s))), (6, 0)]], mask_len = 7, value_num = 1\<rparr>
      else if section_type = DDB_NUM then
        if g_dc_module_num s > 4 then
          \<lparr>rs_mask = filter_row [(0, 0xff), (1, 0x80)], rs_value = [filter_row [(0, 0x3c), (1, 0x80)]],
           mask_len = 2, value_num = 1\<rparr>
        else
          \<lparr>rs_mask = filter_row [(0, 0xff), (1, 0x80), (3, 0xff), (4, 0xff)],
           rs_value = map (\<lambda>m. filter_row [(0, 0x3c), (1, 0x80), (3, of_nat (module_id m div 256)),
             (4, of_nat (module_id m))]) (take (g_dc_module_num s) (g_dc_module s)),
           mask_len = 5, value_num = g_dc_module_num s\<rparr>
      else \<lparr>rs_mask = filter_row [], rs_value = [], mask_len = 0, value_num = 0\<rparr>)"

text \<open>
  The parser runs on the section buffer after the request, for the two announcement types;
  a data request has no parser and takes the module range instead.
\<close>

definition si_private_sec_parsing_start :: "dmx_env \<Rightarrow> nat \<Rightarrow> nat \<Rightarrow> nat \<Rightarrow> bool \<Rightarrow> nat \<Rightarrow> modules_range option
    \<Rightarrow> ota \<Rightarrow> (int \<times> ota) option" where
  "si_private_sec_parsing_start dmx junk section_type pid has_parser param32 rng s =
     (let rq = \<lparr>sec_pid = pid, sec_tbl_len = 0,
                wai_flg_dly = (if section_type = DSI_NUM \<or> section_type = DII_NUM then param32 else 300000),
                mask_value = sec_restrict section_type s, get_sec_cb = (section_type = DDB_NUM),
                continue_get_sec = (if section_type = DDB_NUM then 1 else 0), continue_mutex_locked = False,
                p_mdl_range = (if section_type = DDB_NUM \<and> \<not> has_parser then rng else None)\<rparr>
      in do {
        (ret, rq, s) \<leftarrow> dmx_req_section dmx junk rq s;
        if ret \<noteq> OTA_SUCCESS then Some (OTA_FAILURE, s)
        else if has_parser then parse_dsmcc_sec junk (g_ota_section_buf s) section_type 0 s
        else Some (OTA_SUCCESS, s) })"

definition v3_si_private_sec_parsing_start :: "dmx_env \<Rightarrow> nat \<Rightarrow> nat \<Rightarrow> nat \<Rightarrow> bool \<Rightarrow> ota \<Rightarrow> (int \<times> ota) option" where
  "v3_si_private_sec_parsing_start dmx junk section_type pid has_parser s =
     (let rq = \<lparr>sec_pid = pid, sec_tbl_len = 0, wai_flg_dly = 600000, mask_value = sec_restrict section_type s,
                get_sec_cb = (section_type = DDB_NUM), continue_get_sec = (if section_type = DDB_NUM then 1 else 0),
                continue_mutex_locked = False, p_mdl_range = None\<rparr>
      in do {
        (ret, rq, s) \<leftarrow> v3_dmx_req_section dmx junk rq s;
        if ret \<noteq> OTA_SUCCESS then Some (OTA_FAILURE, s)
        else if has_parser then v3_parse_dsmcc_sec junk (g_ota_section_buf s) section_type 0 s
        else Some (OTA_SUCCESS, s) })"

subsection \<open>The download commands\<close>

text \<open>The result is the return code, the download info when it has been copied, and the state.\<close>

definition ota_cmd_get_download_info :: "dmx_env \<Rightarrow> dmx_env \<Rightarrow> nat \<Rightarrow> nat \<Rightarrow> ota
    \<Rightarrow> (int \<times> dl_info option \<times> ota) option" where
  "ota_cmd_get_download_info dmx1 dmx2 junk pid s = do {
     (ret, s) \<leftarrow> si_private_sec_parsing_start dmx1 junk DSI_NUM pid True OTA_DOWNLOAD_INFO_TIMEOUT None s;
     if ret \<noteq> OTA_SUCCESS then Some (OTA_FAILURE, None, s)
     else do {
       let s = s\<lparr>g_ota_size := dl_sw_size (g_dl_info s)\<rparr>;
       let info = g_dl_info s;
       (ret, s) \<leftarrow> si_private_sec_parsing_start dmx2 junk DII_NUM pid True OTA_DOWNLOAD_INFO_TIMEOUT None s;
       Some (if ret \<noteq> OTA_SUCCESS then OTA_FAILURE else OTA_SUCCESS, Some info, s) } }"

text \<open>The modules of a piece are made ready again: nothing received, not finished.\<close>

definition reset_module :: "DCModuleInfo \<Rightarrow> DCModuleInfo option" where
  "reset_module m = do {
     bm \<leftarrow> fresh_blocks (block_num m);
     Some (m\<lparr>module_download_finish := 0, block_received := bm\<rparr>) }"

primrec reset_modules :: "nat \<Rightarrow> nat \<Rightarrow> ota \<Rightarrow> ota option" where
  "reset_modules 0 j s = Some s"
| "reset_modules (Suc n) j s =
     (if length (g_dc_module s) \<le> j then None
      else do {
        m \<leftarrow> reset_module (g_dc_module s ! j);
        reset_modules n (Suc j) (s\<lparr>g_dc_module := (g_dc_module s)[j := m],
          total_block_num := total_block_num s + block_num m\<rparr>) })"

definition ota_cmd_start_download_by_piece :: "dmx_env \<Rightarrow> nat \<Rightarrow> nat \<Rightarrow> modules_range \<Rightarrow> ota
    \<Rightarrow> (int \<times> modules_range \<times> ota) option" where
  "ota_cmd_start_download_by_piece dmx junk pid rng s = do {
     let n = Suc (mr_end rng) - mr_start rng;
     s \<leftarrow> reset_modules n (mr_start rng) (s\<lparr>total_block_num := 0, received_section_num := 0\<rparr>);
     (ret, s) \<leftarrow> si_private_sec_parsing_start dmx junk DDB_NUM pid False 0 (Some rng) s;
     if ret \<noteq> OTA_SUCCESS then Some (OTA_FAILURE, rng, s)
     else Some (OTA_SUCCESS,
       rng\<lparr>valid_size := int (sum_list (map module_buf_size (take n (drop (mr_start rng) (g_dc_module s))))) mod 2 ^ 32\<rparr>,
       s) }"

definition ota_cmd_start_download_one_shot :: "dmx_env \<Rightarrow> nat \<Rightarrow> nat \<Rightarrow> modules_range \<Rightarrow> ota \<Rightarrow> (int \<times> ota) option" where
  "ota_cmd_start_download_one_shot dmx junk pid rng s =
     (if g_ota_size s > g_ota_ram1_len s then Some (OTA_FAILURE, s)
      else if length (g_dc_module s) < g_dc_module_num s then None
      else do {
        let s = s\<lparr>progress_shown := progress_shown s @ [0], received_section_num := 0,
          total_block_num := sum_list (map block_num (take (g_dc_module_num s) (g_dc_module s)))\<rparr>;
        (ret, s) \<leftarrow> si_private_sec_parsing_start dmx junk DDB_NUM pid False 0 (Some rng) s;
        Some (if ret \<noteq> OTA_SUCCESS then (OTA_FAILURE, s)
              else (OTA_SUCCESS, s\<lparr>progress_shown := progress_shown s @ [100]\<rparr>)) })"

text \<open>The commands of version 3.\<close>

definition v3_ota_cmd_get_download_info :: "dmx_env \<Rightarrow> dmx_env \<Rightarrow> nat \<Rightarrow> nat \<Rightarrow> ota
    \<Rightarrow> (int \<times> dl_info option \<times> ota) option" where
  "v3_ota_cmd_get_download_info dmx1 dmx2 junk pid s = do {
     (ret, s) \<leftarrow> v3_si_private_sec_parsing_start dmx1 junk DSI_NUM pid True s;
     if ret \<noteq> OTA_SUCCESS then Some (OTA_FAILURE, None, s)
     else do {
       let s = s\<lparr>g_ota_size := dl_sw_size (g_dl_info s)\<rparr>;
       let info = g_dl_info s;
       (ret, s) \<leftarrow> v3_si_private_sec_parsing_start dmx2 junk DII_NUM pid True s;
       Some (if ret \<noteq> OTA_SUCCESS then OTA_FAILURE else OTA_SUCCESS, Some info, s) } }"

definition v3_ota_cmd_start_download :: "dmx_env \<Rightarrow> nat \<Rightarrow> nat \<Rightarrow> ota \<Rightarrow> (int \<times> ota) option" where
  "v3_ota_cmd_start_download dmx junk pid s =
     (if g_ota_size s > g_ota_ram1_len s then Some (OTA_FAILURE, s)
      else if length (g_dc_module s) < g_dc_module_num s then None
      else do {
        let s = s\<lparr>progress_shown := progress_shown s @ [0], received_section_num := 0,
          total_block_num := sum_list (map block_num (take (g_dc_module_num s) (g_dc_module s)))\<rparr>;
        (ret, s) \<leftarrow> v3_si_private_sec_parsing_start dmx junk DDB_NUM pid False s;
        Some (if ret \<noteq> OTA_SUCCESS then (OTA_FAILURE, s)
              else (OTA_SUCCESS, s\<lparr>progress_shown := progress_shown s @ [100]\<rparr>)) })"

subsection \<open>The download memory\<close>

text \<open>
  The placement loop of \<open>alislupg_ota_mem_config_by_piece\<close>. \<open>j\<close> counts the modules that may
  still go into the piece; \<open>remain\<close> is an \<open>unsigned long\<close> of 32 bits.
\<close>

fun piece_layout :: "int \<Rightarrow> nat \<Rightarrow> int \<Rightarrow> DCModuleInfo list \<Rightarrow> nat \<Rightarrow> int \<Rightarrow> int \<Rightarrow> nat \<Rightarrow> DCModuleInfo list \<times> nat" where
  "piece_layout addr len L [] remain cur_ptr j piece_num = ([], piece_num)"
| "piece_layout addr len L (m # ms) remain cur_ptr j piece_num =
     (let (remain, cur_ptr, piece_num, j) =
            (if remain < module_buf_size m \<or> j = 0 then (len, addr, piece_num + 1, L)
             else (remain, cur_ptr, piece_num, j));
          (ms', pn) = piece_layout addr len L ms (nat ((int remain - int (module_buf_size m)) mod 2 ^ 32))
            (cur_ptr + int (module_buf_size m)) (j - 1) piece_num
      in (m\<lparr>module_buf_pointer := cur_ptr\<rparr> # ms', pn))"

text \<open>The result is the return code, the piece count if it is stored, the range and the state.\<close>

definition alislupg_ota_mem_config_by_piece :: "int \<Rightarrow> nat \<Rightarrow> modules_range \<Rightarrow> ota
    \<Rightarrow> (int \<times> nat option \<times> modules_range \<times> ota) option" where
  "alislupg_ota_mem_config_by_piece addr len rng s =
     (let s = s\<lparr>g_ota_ram1_addr := addr, g_ota_ram1_len := len\<rparr>
      in case g_dc_module s of
        [] \<Rightarrow> None
      | m0 # _ \<Rightarrow>
          if module_buf_size m0 > len then Some (OTA_FAILURE, None, rng, s)
          else if module_buf_size m0 = 0 \<or> length (g_dc_module s) < g_dc_module_num s then None
          else
            let L = (len div module_buf_size m0) mod 65536;
                n = g_dc_module_num s;
                (ms, pn) = piece_layout addr len (int L) (take n (g_dc_module s)) len addr (int L) 1
            in Some (OTA_SUCCESS, Some (pn mod 65536), rng\<lparr>mr_len := L, mr_total := n\<rparr>,
                 s\<lparr>g_dc_module := ms @ drop n (g_dc_module s), received_section_num := 0\<rparr>))"

fun chain_layout :: "int \<Rightarrow> DCModuleInfo list \<Rightarrow> DCModuleInfo list" where
  "chain_layout p [] = []"
| "chain_layout p (m # ms) = m\<lparr>module_buf_pointer := p\<rparr> # chain_layout (p + int (module_buf_size m)) ms"

definition alislupg_ota_mem_config_one_shot :: "int \<Rightarrow> nat \<Rightarrow> modules_range \<Rightarrow> ota
    \<Rightarrow> (int \<times> modules_range \<times> ota) option" where
  "alislupg_ota_mem_config_one_shot addr len rng s =
     (case g_dc_module s of
        [] \<Rightarrow> None
      | m0 # _ \<Rightarrow>
          let n = g_dc_module_num s
          in if module_buf_size m0 = 0 \<or> length (g_dc_module s) < n then None
             else Some (OTA_SUCCESS,
               rng\<lparr>mr_start := 0, mr_end := nat ((int n - 1) mod 65536),
                   mr_len := (len div module_buf_size m0) mod 65536\<rparr>,
               s\<lparr>g_ota_ram1_addr := addr, g_ota_ram1_len := len,
                 g_dc_module := chain_layout addr (take n (g_dc_module s)) @ drop n (g_dc_module s)\<rparr>))"

definition v3_alislupg_ota_mem_config :: "int \<Rightarrow> nat \<Rightarrow> ota \<Rightarrow> (int \<times> ota) option" where
  "v3_alislupg_ota_mem_config addr len s =
     (let n = g_dc_module_num s
      in if length (g_dc_module s) < n then None
         else Some (OTA_SUCCESS, s\<lparr>g_ota_ram1_addr := addr, g_ota_ram1_len := len,
           g_dc_module := chain_layout addr (take n (g_dc_module s)) @ drop n (g_dc_module s)\<rparr>))"

definition alislupg_ota_set_dl_param :: "nat \<Rightarrow> nat \<Rightarrow> nat \<Rightarrow> nat \<Rightarrow> nat \<Rightarrow> ota \<Rightarrow> int \<times> ota" where
  "alislupg_ota_set_dl_param oui hw_model hw_ver sw_model sw_ver s =
     (OTA_SUCCESS, s\<lparr>g_oui := oui, g_model := hw_model, g_hw_version := hw_ver, g_sw_model := sw_model,
        g_sw_version := sw_ver\<rparr>)"

subsection \<open>Where the modules lie\<close>

definition mod_sizes :: "DCModuleInfo list \<Rightarrow> nat" where
  "mod_sizes ms = sum_list (map module_buf_size ms)"

lemma mod_sizes_simps [simp]:
  "mod_sizes [] = 0" "mod_sizes (m # ms) = module_buf_size m + mod_sizes ms"
  "mod_sizes (xs @ ys) = mod_sizes xs + mod_sizes ys"
  by (simp_all add: mod_sizes_def)

lemma mod_sizes_bound: "\<forall>m\<in>set ms. module_buf_size m \<le> S \<Longrightarrow> mod_sizes ms \<le> length ms * S"
  by (induction ms) auto

lemma chain_layout_length [simp]: "length (chain_layout p ms) = length ms"
  by (induction ms arbitrary: p) auto

lemma chain_layout_nth:
  "i < length ms \<Longrightarrow> chain_layout p ms ! i = (ms ! i)\<lparr>module_buf_pointer := p + int (mod_sizes (take i ms))\<rparr>"
proof (induction ms arbitrary: p i)
  case (Cons m ms)
  then show ?case
    by (cases i) (simp_all add: add.assoc)
qed simp

lemma piece_layout_length: "length (fst (piece_layout addr len L ms r c j pn)) = length ms"
  by (induction addr len L ms r c j pn rule: piece_layout.induct) (simp_all add: case_prod_beta Let_def)

text \<open>The modules that precede module \<open>i\<close> in its piece when every piece has \<open>L\<close> modules.\<close>

definition before_in_piece :: "nat \<Rightarrow> nat \<Rightarrow> DCModuleInfo list \<Rightarrow> DCModuleInfo list" where
  "before_in_piece L i ms = take (i mod L) (drop (i div L * L) ms)"

lemma before_in_piece_append:
  assumes "length pref = q * L" "length pre < L"
  shows "before_in_piece L (length (pref @ pre)) (pref @ pre @ rest) = pre"
proof -
  have "length (pref @ pre) mod L = length pre" "length (pref @ pre) div L = q"
    using assms by (simp_all add: mult.commute)
  then show ?thesis
    using assms(1) by (simp add: before_in_piece_def)
qed

lemma last_piece: "0 < k \<Longrightarrow> k \<le> L \<Longrightarrow> (q * L + k - 1) div L = (q :: nat)"
proof -
  assume "0 < k" "k \<le> L"
  then have "q * L + k - 1 = (k - 1) + q * L" "k - 1 < L"
    by simp_all
  then show ?thesis
    by (simp only: div_rest)
qed

lemma nat_sub: "nat (int a - int b) = a - b" "nat (int a - (int b + int c)) = a - (b + c)"
  by linarith+

text \<open>
  The loop when no module is larger than \<open>S\<close> and \<open>L\<close> modules of that size fit: \<open>pref\<close> are the
  modules of the \<open>pn - 1\<close> complete pieces, \<open>pre\<close> those already in the current piece.
\<close>

lemma piece_layout_spec:
  assumes "\<forall>m\<in>set (pre @ ms). module_buf_size m \<le> S" "L * S \<le> len" "len < 2 ^ 32" "0 < L"
    and "length pre \<le> L" "length pref = (pn - 1) * L" "0 < pn" "pre = [] \<Longrightarrow> pn = 1"
    and "piece_layout addr len (int L) ms (len - mod_sizes pre) (addr + int (mod_sizes pre))
      (int L - int (length pre)) pn = (ms', pn')"
  shows "(\<forall>t<length ms. ms' ! t = (ms ! t)\<lparr>module_buf_pointer :=
      addr + int (mod_sizes (before_in_piece L (length (pref @ pre) + t) (pref @ pre @ ms)))\<rparr>) \<and>
    pn' = (if pre @ ms = [] then pn else (length (pref @ pre @ ms) - 1) div L + 1)"
  using assms
proof (induction ms arbitrary: pre pref pn ms' pn')
  case Nil
  then show ?case
    using last_piece [of "length pre" L "pn - 1"] by auto
next
  case (Cons m ms)
  let ?full = "length pre = L"
  define pref1 where "pref1 = (if ?full then pref @ pre else pref)"
  define pre1 where "pre1 = (if ?full then [] else pre)"
  define pn1 where "pn1 = (if ?full then pn + 1 else pn)"
  have "mod_sizes (pre1 @ [m]) \<le> length (pre1 @ [m]) * S"
    using Cons.prems(1) by (intro mod_sizes_bound) (auto simp: pre1_def split: if_splits)
  moreover have "length (pre1 @ [m]) * S \<le> L * S"
    using Cons.prems(4,5) by (intro mult_right_mono) (auto simp: pre1_def)
  ultimately have fit: "mod_sizes pre1 + module_buf_size m \<le> len"
    using Cons.prems(2) by simp
  then have wrap: "nat ((int (len - mod_sizes pre1) - int (module_buf_size m)) mod 2 ^ 32) =
      len - mod_sizes (pre1 @ [m])"
    using Cons.prems(3) by (simp add: of_nat_diff nat_minus_as_int)
  have sp: "pref1 @ pre1 = pref @ pre"
    by (simp add: pref1_def pre1_def)
  have lt: "length pre1 < L" "length pref1 = (pn1 - 1) * L" "0 < pn1"
    using Cons.prems(4-7) by (auto simp: pre1_def pref1_def pn1_def diff_mult_distrib)
  obtain ms1 where r: "ms' = m\<lparr>module_buf_pointer := addr + int (mod_sizes pre1)\<rparr> # ms1"
    "piece_layout addr len (int L) ms (len - mod_sizes (pre1 @ [m])) (addr + int (mod_sizes (pre1 @ [m])))
      (int L - int (length (pre1 @ [m]))) pn1 = (ms1, pn')"
    using Cons.prems(9) fit wrap Cons.prems(5)
    by (auto simp: pre1_def pn1_def case_prod_beta Let_def prod_eq_iff add.assoc diff_diff_eq nat_sub
      add.commute [of _ "1 :: int"] split: if_splits)
  have IH: "(\<forall>t<length ms. ms1 ! t = (ms ! t)\<lparr>module_buf_pointer :=
      addr + int (mod_sizes (before_in_piece L (length (pref1 @ pre1 @ [m]) + t) (pref1 @ (pre1 @ [m]) @ ms)))\<rparr>) \<and>
    pn' = (length (pref1 @ (pre1 @ [m]) @ ms) - 1) div L + 1"
    using Cons.IH [OF _ Cons.prems(2-4) _ lt(2,3) _ r(2)] Cons.prems(1) lt(1) by (auto simp: pre1_def)
  have lens: "length pref1 + length pre1 = length pref + length pre"
    using arg_cong [OF sp, of length] by (simp only: length_append)
  have sp': "pref1 @ pre1 @ xs = pref @ pre @ xs" for xs
    using arg_cong [OF sp, of "\<lambda>ys. ys @ xs"] by simp
  have eq: "pref1 @ (pre1 @ [m]) @ ms = pref @ pre @ m # ms" "length (pref1 @ pre1 @ [m]) = Suc (length (pref @ pre))"
    using lens by (simp_all add: sp')
  have hd: "before_in_piece L (length (pref @ pre)) (pref @ pre @ m # ms) = pre1"
    using before_in_piece_append [OF lt(2,1), of "m # ms"] lens by (simp add: sp')
  have "ms' ! t = ((m # ms) ! t)\<lparr>module_buf_pointer :=
      addr + int (mod_sizes (before_in_piece L (length (pref @ pre) + t) (pref @ pre @ m # ms)))\<rparr>"
    if "t < length (m # ms)" for t
    using that IH hd unfolding r(1) eq by (cases t) simp_all
  with IH show ?case
    unfolding eq by simp
qed

lemma take_mod_piece:
  assumes "i < n" "i div L = j div L" "i < j" "j < length ms" "0 < L"
  shows "mod_sizes (before_in_piece L i ms) + module_buf_size (ms ! i) \<le> mod_sizes (before_in_piece L j ms)"
proof -
  let ?d = "drop (i div L * L) ms"
  note dm = div_mult_mod_eq [of i L] div_mult_mod_eq [of j L]
  then have ij: "i mod L < j mod L" "i div L * L + i mod L = i" "j div L * L + j mod L = j"
    using assms(2,3) by (metis nat_add_left_cancel_less)+
  then have l: "i mod L < length ?d"
    unfolding length_drop using assms(2-4) by linarith
  have "take (j mod L) ?d = take (i mod L) ?d @ ?d ! (i mod L) # drop (Suc (i mod L)) (take (j mod L) ?d)"
    using id_take_nth_drop [of "i mod L" "take (j mod L) ?d"] l ij(1) by (simp add: min_def)
  then have "mod_sizes (take (j mod L) ?d) \<ge> mod_sizes (take (i mod L) ?d) + module_buf_size (?d ! (i mod L))"
    by (metis (no_types, lifting) add_le_cancel_left le_add1 mod_sizes_simps(2,3))
  moreover have "?d ! (i mod L) = ms ! i"
  proof -
    have "i div L * L \<le> length ms"
      using ij(2) assms(3,4) by linarith
    from nth_drop [OF this, of "i mod L"] show ?thesis
      unfolding ij(2) .
  qed
  ultimately show ?thesis
    using assms(2) by (simp add: before_in_piece_def)
qed

lemma before_in_piece_fits:
  assumes "\<forall>m\<in>set ms. module_buf_size m \<le> S" "L * S \<le> len" "0 < L" "i < length ms"
  shows "mod_sizes (before_in_piece L i ms) + module_buf_size (ms ! i) \<le> len"
proof -
  have "mod_sizes (before_in_piece L i ms) \<le> length (before_in_piece L i ms) * S"
    using assms(1) by (intro mod_sizes_bound) (auto simp: before_in_piece_def dest: in_set_takeD in_set_dropD)
  also have "\<dots> \<le> (L - 1) * S"
    using mod_less_divisor [OF assms(3), of i] by (intro mult_right_mono) (simp_all add: before_in_piece_def)
  finally have "mod_sizes (before_in_piece L i ms) + module_buf_size (ms ! i) \<le> (L - 1) * S + S"
    using assms(1,4) by (intro add_mono) auto
  also have "\<dots> = L * S"
    using assms(3) by (cases L) auto
  finally show ?thesis
    using assms(2) by simp
qed

text \<open>The loop changes only the places; it never goes below the buffer, and it stays in it as long as no module is larger than it.\<close>

lemma piece_layout_above:
  assumes "addr \<le> c" and "t < length ms"
  shows "addr \<le> module_buf_pointer (fst (piece_layout addr len L ms r c j pn) ! t) \<and>
    (\<exists>q. fst (piece_layout addr len L ms r c j pn) ! t = (ms ! t)\<lparr>module_buf_pointer := q\<rparr>)"
  using assms
proof (induction ms arbitrary: t r c j pn)
  case (Cons m ms)
  then show ?case
    by (cases t) (auto simp: case_prod_beta Let_def)
qed simp

lemma piece_layout_in_buffer:
  assumes "\<forall>m\<in>set ms. module_buf_size m \<le> len" and "len < 2 ^ 32" and "c + int r = addr + int len" and "r \<le> len" and "t < length ms"
  shows "module_buf_pointer (fst (piece_layout addr len L ms r c j pn) ! t) + int (module_buf_size (ms ! t)) \<le> addr + int len"
  using assms(1,3,4,5)
proof (induction ms arbitrary: t r c j pn)
  case (Cons m ms)
  define r1 where "r1 = (if r < module_buf_size m \<or> j = 0 then len else r)"
  define c1 where "c1 = (if r < module_buf_size m \<or> j = 0 then addr else c)"
  define j1 where "j1 = (if r < module_buf_size m \<or> j = 0 then L else j)"
  define pn1 where "pn1 = (if r < module_buf_size m \<or> j = 0 then pn + 1 else pn)"
  let ?r = "nat ((int r1 - int (module_buf_size m)) mod 2 ^ 32)" and ?c = "c1 + int (module_buf_size m)"
  have fit: "module_buf_size m \<le> r1" "c1 + int r1 = addr + int len" "r1 \<le> len"
    using Cons.prems by (auto simp: r1_def c1_def)
  have w: "?r = r1 - module_buf_size m"
    using fit assms(2) by (simp add: of_nat_diff [symmetric] del: of_nat_diff)
  have eq: "fst (piece_layout addr len L (m # ms) r c j pn) =
      m\<lparr>module_buf_pointer := c1\<rparr> # fst (piece_layout addr len L ms ?r ?c (j1 - 1) pn1)"
    by (simp add: r1_def c1_def j1_def pn1_def case_prod_beta Let_def)
  have "c1 + int (module_buf_size m) \<le> addr + int len"
    using fit by simp
  moreover have "module_buf_pointer (fst (piece_layout addr len L ms ?r ?c (j1 - 1) pn1) ! k) + int (module_buf_size (ms ! k)) \<le> addr + int len"
    if "k < length ms" for k
    unfolding w using Cons.prems(1) fit that by (intro Cons.IH) auto
  ultimately show ?case
    using Cons.prems(4) unfolding eq by (cases t) auto
qed simp

text \<open>
  (C31) Placing the modules piece by piece: the placement succeeds whenever the first module fits the
  buffer, and it changes only the places. All modules lie in the buffer exactly when none is larger than the buffer,
  which is not checked for those behind the first (\<open>by_piece_checks_first_only\<close>). When no module is larger than the first,
  the modules are divided into groups of \<open>len / size\<close>, the number of pieces is that of these
  groups, each module lies behind those before it in its group, and two modules of a group never overlap.
\<close>

theorem by_piece_layout:
  fixes s :: ota and len :: nat
  defines "n \<equiv> g_dc_module_num s"
    and "S \<equiv> module_buf_size (g_dc_module s ! 0)"
  defines "L \<equiv> len div S"
  assumes "0 < n" and "n \<le> length (g_dc_module s)" and "n < 256"
    and "0 < S" and "S \<le> len" and "len < 2 ^ 32" and "L < 65536"
  shows "\<exists>pn rng' s'. alislupg_ota_mem_config_by_piece addr len rng s = Some (OTA_SUCCESS, Some pn, rng', s') \<and>
    mr_len rng' = L \<and> mr_total rng' = n \<and> g_dc_module_num s' = n \<and>
    (\<forall>i<n. \<exists>q. g_dc_module s' ! i = (g_dc_module s ! i)\<lparr>module_buf_pointer := q\<rparr>) \<and>
    ((\<forall>i<n. addr \<le> module_buf_pointer (g_dc_module s' ! i) \<and>
        module_buf_pointer (g_dc_module s' ! i) + int (module_buf_size (g_dc_module s' ! i)) \<le> addr + int len) \<longleftrightarrow>
     (\<forall>i<n. module_buf_size (g_dc_module s ! i) \<le> len)) \<and>
    ((\<forall>i<n. module_buf_size (g_dc_module s ! i) \<le> S) \<longrightarrow> pn = (n - 1) div L + 1 \<and>
     (\<forall>i<n. module_buf_pointer (g_dc_module s' ! i) = addr + int (mod_sizes (before_in_piece L i (take n (g_dc_module s))))) \<and>
     (\<forall>j<n. \<forall>i<j. i div L = j div L \<longrightarrow>
        module_buf_pointer (g_dc_module s' ! i) + int (module_buf_size (g_dc_module s' ! i)) \<le>
        module_buf_pointer (g_dc_module s' ! j)))"
proof -
  let ?ms = "take n (g_dc_module s)"
  obtain m0 rest where ms: "g_dc_module s = m0 # rest"
    using assms(4,5) by (cases "g_dc_module s") auto
  then have S: "module_buf_size m0 = S"
    by (simp add: S_def)
  have L: "0 < L" "L * S \<le> len" "len div S mod 65536 = L"
    using assms(7,8,10) by (simp_all add: L_def div_greater_zero_iff)
  obtain ms' pn' where r: "piece_layout addr len (int L) ?ms len addr (int L) 1 = (ms', pn')"
    by fastforce
  define s' where "s' = s\<lparr>g_ota_ram1_addr := addr, g_ota_ram1_len := len,
    g_dc_module := ms' @ drop n (g_dc_module s), received_section_num := 0\<rparr>"
  have run: "alislupg_ota_mem_config_by_piece addr len rng s =
      Some (OTA_SUCCESS, Some (pn' mod 65536), rng\<lparr>mr_len := L, mr_total := n\<rparr>, s')"
    using r S L(3) assms(5,7,8) unfolding alislupg_ota_mem_config_by_piece_def s'_def
    by (simp add: ms n_def [symmetric] Let_def)
  have len: "length ms' = n" "length ?ms = n"
    using piece_layout_length [of addr len "int L" ?ms len addr "int L" 1] r assms(5) by simp_all
  have at: "g_dc_module s' ! i = ms' ! i" "?ms ! i = g_dc_module s ! i" if "i < n" for i
    using that len assms(5) by (simp_all add: s'_def nth_append)
  have up: "addr \<le> module_buf_pointer (g_dc_module s' ! i) \<and> (\<exists>q. g_dc_module s' ! i = (g_dc_module s ! i)\<lparr>module_buf_pointer := q\<rparr>)" if "i < n" for i
    using piece_layout_above [of addr addr i ?ms len "int L" len "int L" 1] r that len at by simp
  then have sz: "module_buf_size (g_dc_module s' ! i) = module_buf_size (g_dc_module s ! i)" if "i < n" for i
    using that by fastforce
  have inb: "module_buf_pointer (g_dc_module s' ! i) + int (module_buf_size (g_dc_module s ! i)) \<le> addr + int len"
    if "\<forall>i<n. module_buf_size (g_dc_module s ! i) \<le> len" "i < n" for i
  proof -
    have "\<forall>m\<in>set ?ms. module_buf_size m \<le> len"
      using that(1) assms(5) by (auto simp: in_set_conv_nth)
    then show ?thesis
      using piece_layout_in_buffer [of ?ms len addr len addr i "int L" "int L" 1] r that(2) len at assms(9) by simp
  qed
  have fits: "(\<forall>i<n. addr \<le> module_buf_pointer (g_dc_module s' ! i) \<and>
        module_buf_pointer (g_dc_module s' ! i) + int (module_buf_size (g_dc_module s' ! i)) \<le> addr + int len) \<longleftrightarrow>
     (\<forall>i<n. module_buf_size (g_dc_module s ! i) \<le> len)"
    using inb up sz by fastforce
  have grp: "pn' mod 65536 = (n - 1) div L + 1 \<and>
     (\<forall>i<n. module_buf_pointer (g_dc_module s' ! i) = addr + int (mod_sizes (before_in_piece L i ?ms)))"
    if "\<forall>i<n. module_buf_size (g_dc_module s ! i) \<le> S"
  proof -
    have "\<forall>m\<in>set ?ms. module_buf_size m \<le> S"
      using that assms(5) by (auto simp: in_set_conv_nth)
    then have "\<forall>t<n. ms' ! t = (?ms ! t)\<lparr>module_buf_pointer := addr + int (mod_sizes (before_in_piece L t ?ms))\<rparr>"
      "pn' = (n - 1) div L + 1"
      using piece_layout_spec [of "[]" ?ms S L len "[]" 1 addr ms' pn'] r L assms(4,5,9) by auto
    moreover have "(n - 1) div L + 1 < 65536"
      using div_le_dividend [of "n - 1" L] assms(6) by linarith
    ultimately show ?thesis
      using at by simp
  qed
  have ord: "int (mod_sizes (before_in_piece L i ?ms)) + int (module_buf_size (g_dc_module s ! i)) \<le>
      int (mod_sizes (before_in_piece L j ?ms))" if "i < j" "j < n" "i div L = j div L" for i j
    using take_mod_piece [of i n L j ?ms] that assms(5) L(1) by simp
  have num: "g_dc_module_num s' = n"
    by (simp add: s'_def n_def)
  show ?thesis
  proof (intro exI conjI)
    show "alislupg_ota_mem_config_by_piece addr len rng s =
      Some (OTA_SUCCESS, Some (pn' mod 65536), rng\<lparr>mr_len := L, mr_total := n\<rparr>, s')"
      by (rule run)
  qed (use up fits grp ord num sz in \<open>auto simp: num\<close>)
qed

text \<open>A state with modules of the given sizes, used by the witnesses.\<close>

definition demo_range :: modules_range where
  "demo_range = \<lparr>mr_start = 0, mr_end = 0, mr_len = 0, mr_total = 0, pice_index = 0, valid_size = 0\<rparr>"

definition demo_ota :: "nat list \<Rightarrow> ota" where
  "demo_ota sizes = \<lparr>g_oui = 0x90E6, g_model = 0x3823, g_hw_version = 0x0201, g_sw_model = 1, g_sw_version = 1,
     g_ota_ram1_addr = 0, g_ota_ram1_len = 0, g_ota_size = 0, g_dc_group = \<lparr>group_id = 0, group_size = 0\<rparr>,
     g_dc_module = map (\<lambda>n. blank_module\<lparr>module_buf_size := n\<rparr>) sizes,
     g_dc_module_num = length sizes, g_dc_blocksize = 0, g_ota_section_buf = [],
     g_dl_info = \<lparr>dl_hw_version = 0, dl_sw_version = 0, dl_sw_type = 0, dl_sw_size = 0\<rparr>,
     received_section_num = 0, total_block_num = 0, progress_shown = [], ram = []\<rparr>"

theorem by_piece_layout_witness:
  "\<exists>rng' s'. alislupg_ota_mem_config_by_piece 100 11 demo_range (demo_ota [5, 5, 4]) =
     Some (OTA_SUCCESS, Some 2, rng', s') \<and> mr_len rng' = 2 \<and>
     module_buf_pointer (g_dc_module s' ! 1) = 105 \<and> module_buf_pointer (g_dc_module s' ! 2) = 100"
proof -
  let ?s = "demo_ota [5, 5, 4]"
  have n: "g_dc_module_num ?s = 3" "length (g_dc_module ?s) = 3"
    and sz: "\<forall>i<3. module_buf_size (g_dc_module ?s ! i) \<le> 5" "module_buf_size (g_dc_module ?s ! 0) = 5"
    by (auto simp: demo_ota_def blank_module_def less_Suc_eq numeral_3_eq_3)
  obtain pn rng' s' where r: "alislupg_ota_mem_config_by_piece 100 11 demo_range ?s = Some (OTA_SUCCESS, Some pn, rng', s')" "mr_len rng' = 2"
    and g: "pn = (3 - 1) div 2 + 1"
      "\<forall>i<3. module_buf_pointer (g_dc_module s' ! i) = 100 + int (mod_sizes (before_in_piece 2 i (take 3 (g_dc_module ?s))))"
    using by_piece_layout [of ?s 11 100 demo_range] n sz by auto
  have "mod_sizes (before_in_piece 2 1 (take 3 (g_dc_module ?s))) = 5"
    "mod_sizes (before_in_piece 2 2 (take 3 (g_dc_module ?s))) = 0"
    by (simp_all add: before_in_piece_def demo_ota_def blank_module_def)
  with r g show ?thesis
    by auto
qed

text \<open>
  Only the first module is compared with the size of the buffer: a configuration
  whose second module is larger than the buffer is accepted, and that module is placed so
  that it ends behind the buffer.
\<close>

lemma by_piece_checks_first_only:
  "\<exists>rng' s'. alislupg_ota_mem_config_by_piece 100 4 demo_range (demo_ota [2, 5]) =
     Some (OTA_SUCCESS, Some 2, rng', s') \<and>
     module_buf_pointer (g_dc_module s' ! 1) + int (module_buf_size (g_dc_module s' ! 1)) > 100 + 4"
  by (simp add: alislupg_ota_mem_config_by_piece_def demo_ota_def blank_module_def Let_def)

text \<open>
  Placing all modules at once: the modules lie one behind the other from the start of
  the buffer, and the range covers exactly all of them.
\<close>

lemma one_shot_layout:
  assumes "0 < g_dc_module_num s" and "g_dc_module_num s \<le> length (g_dc_module s)" and "g_dc_module_num s < 256"
    and "0 < module_buf_size (g_dc_module s ! 0)"
  shows "\<exists>rng' s'. alislupg_ota_mem_config_one_shot addr len rng s = Some (OTA_SUCCESS, rng', s') \<and>
    mr_start rng' = 0 \<and> mr_end rng' = g_dc_module_num s - 1 \<and>
    (\<forall>i<g_dc_module_num s. g_dc_module s' ! i =
       (g_dc_module s ! i)\<lparr>module_buf_pointer := addr + int (mod_sizes (take i (g_dc_module s)))\<rparr>)"
proof -
  obtain m0 rest where ms: "g_dc_module s = m0 # rest" "0 < module_buf_size m0"
    using assms(1,2,4) by (cases "g_dc_module s") auto
  let ?n = "g_dc_module_num s"
  define s' where "s' = s\<lparr>g_ota_ram1_addr := addr, g_ota_ram1_len := len,
    g_dc_module := chain_layout addr (take ?n (g_dc_module s)) @ drop ?n (g_dc_module s)\<rparr>"
  have run: "alislupg_ota_mem_config_one_shot addr len rng s = Some (OTA_SUCCESS, rng\<lparr>mr_start := 0,
      mr_end := nat ((int ?n - 1) mod 65536), mr_len := (len div module_buf_size m0) mod 65536\<rparr>, s')"
    using ms assms(2) by (simp add: alislupg_ota_mem_config_one_shot_def s'_def Let_def)
  have "nat ((int ?n - 1) mod 65536) = ?n - 1"
    using assms(1,3) by simp
  moreover have "g_dc_module s' ! i =
      (g_dc_module s ! i)\<lparr>module_buf_pointer := addr + int (mod_sizes (take i (g_dc_module s)))\<rparr>" if "i < ?n" for i
    using that assms(2) by (simp add: s'_def nth_append chain_layout_nth min_def)
  ultimately show ?thesis
    unfolding run by auto
qed

end
