(* ===== verification/Ota_Piece.thy ===== *)
theory Ota_Piece
  imports FastCRC Ota "HOL-Library.Sublist"
begin

section \<open>The piecewise download as producer and consumer (\<open>aliota.c\<close>)\<close>

text \<open>
  In \<open>libalislupgrade_v4/src/plugins/ota/aliota.c\<close> one thread downloads the upgrade package
  piece by piece into a buffer (\<open>ota_file_download_by_piece\<close>) and another reads it from there
  (\<open>ota_file_skip_head\<close>, \<open>ota_file_read\<close>); two semaphores pass the buffer to and fro. The two
  threads are one step relation on the state \<open>piece_st\<close>, a step being what a thread does
  between two semaphore operations. The downloads are those of theory \<open>Ota\<close>; what the
  demultiplexer delivers is open in each of them. The buffer \<open>ota_buf\<close> is the part of the
  memory \<open>ram\<close> at \<open>buf_addr\<close>; the pointers \<open>p_ota_buf\<close> and \<open>p_ota_valid\<close> are offsets into it.
\<close>

subsection \<open>State\<close>

datatype prod_pc = P_Info | P_Download nat | P_Wait nat | P_Done | P_Failed

text \<open>
  The consumer waits in \<open>ota_file_skip_head\<close> (for a header of the given size), is between
  two reads, waits inside a read for the given rest, or has reported an error.
\<close>

datatype cons_pc = C_Skip nat | C_Idle | C_Wait nat | C_Err

text \<open>
  The fields \<open>accepted\<close> and \<open>taken\<close> are not in the source: the payloads of the pieces that
  passed the check, and the bytes handed to the reader so far.
\<close>

record piece_st =
  dl :: ota
  rng :: modules_range
  piece_num :: nat
  buf_addr :: nat
  p_ota_buf :: nat
  p_ota_valid :: "nat option"
  g_piece_size :: nat
  piece_read_sem :: nat
  piece_source_sem :: nat
  crc_tab :: crc_globals
  prod :: prod_pc
  cons :: cons_pc
  accepted :: "u8 list list"
  taken :: "u8 list"

definition ota_bytes :: "piece_st \<Rightarrow> nat \<Rightarrow> nat \<Rightarrow> u8 list" where
  "ota_bytes s off n = take n (drop (buf_addr s + off) (ram (dl s)))"

subsection \<open>The consumer\<close>

text \<open>
  The loop of \<open>ota_file_read\<close> until it returns or has to wait for the next piece: \<open>rem\<close> is
  \<open>remain_read_size\<close>. The bytes left in the buffer are copied in both cases.
\<close>

definition read_some :: "nat \<Rightarrow> nat \<Rightarrow> piece_st \<Rightarrow> piece_st" where
  "read_some valid rem s =
     (let remain_buf = valid - p_ota_buf s
      in if rem = 0 then s\<lparr>cons := C_Idle\<rparr>
         else if remain_buf \<ge> rem
         then s\<lparr>taken := taken s @ ota_bytes s (p_ota_buf s) rem, p_ota_buf := p_ota_buf s + rem, cons := C_Idle\<rparr>
         else s\<lparr>taken := taken s @ ota_bytes s (p_ota_buf s) remain_buf,
                piece_read_sem := piece_read_sem s + 1, cons := C_Wait (rem - remain_buf)\<rparr>)"

text \<open>Without a valid piece the read copies from the buffer and leaves the pointer.\<close>

definition ota_file_read :: "nat \<Rightarrow> piece_st \<Rightarrow> piece_st" where
  "ota_file_read n s =
     (case p_ota_valid s of
        Some valid \<Rightarrow>
          if valid < p_ota_buf s \<or> valid - p_ota_buf s > g_piece_size s then s\<lparr>cons := C_Idle\<rparr>
          else read_some valid n s
      | None \<Rightarrow> s\<lparr>taken := taken s @ ota_bytes s (p_ota_buf s) n, cons := C_Idle\<rparr>)"

subsection \<open>The producer\<close>

definition DATA_ALIGN :: "nat \<Rightarrow> nat \<Rightarrow> nat" where
  "DATA_ALIGN x a = (x + a - 1) div a * a"

text \<open>The range of modules of piece \<open>i\<close>; the fields are \<open>unsigned short\<close>.\<close>

definition piece_range :: "nat \<Rightarrow> modules_range \<Rightarrow> modules_range" where
  "piece_range i r =
     (let e = nat ((int (i + 1) * int (mr_len r) - 1) mod 65536)
      in r\<lparr>mr_start := i * mr_len r mod 65536,
           mr_end := (if e \<ge> mr_total r then nat ((int (mr_total r) - 1) mod 65536) else e)\<rparr>)"

text \<open>The check of a piece: its last four bytes are the check sum of the others, low byte first.\<close>

definition src_crc :: "u8 list \<Rightarrow> u32" where
  "src_crc bs = ucast (bs ! 0) OR push_bit 8 (ucast (bs ! 1)) OR push_bit 16 (ucast (bs ! 2)) OR push_bit 24 (ucast (bs ! 3))"

definition piece_crc :: "crc_globals \<Rightarrow> u8 list \<Rightarrow> bool \<times> crc_globals" where
  "piece_crc g data =
     (let (crc, g') = MG_Table_Driven_CRC g 0xffffffff (take (length data - 4) data)
      in (crc = src_crc (drop (length data - 4) data), g'))"

text \<open>
  The end of a piece: the payload is published and the consumer is woken up; after the last
  piece the thread ends, otherwise it waits for the buffer.
\<close>

definition publish :: "nat \<Rightarrow> nat \<Rightarrow> piece_st \<Rightarrow> piece_st" where
  "publish i valid s = s\<lparr>p_ota_valid := Some valid, piece_source_sem := piece_source_sem s + 1,
     accepted := accepted s @ [ota_bytes s 0 valid],
     prod := (if i = piece_num s - 1 then P_Done else P_Wait i)\<rparr>"

subsection \<open>The steps\<close>

text \<open>
  A request for the announcements or for a piece ends with whatever the demultiplexer \<open>dmx\<close>
  delivers; \<open>no_buffer\<close> is the failed allocation of \<open>ota_buf\<close>. A request that the model leaves
  undefined (\<open>None\<close>, an access outside a buffer or a table) has no step.
\<close>

inductive pstep :: "piece_st \<Rightarrow> piece_st \<Rightarrow> bool" where
  info_fail: "\<lbrakk>prod s = P_Info; ota_cmd_get_download_info dmx1 dmx2 junk pid (dl s) = Some (ret, info, d);
      ret \<noteq> OTA_SUCCESS\<rbrakk> \<Longrightarrow> pstep s (s\<lparr>dl := d, prod := P_Failed\<rparr>)"
| no_buffer: "\<lbrakk>prod s = P_Info; ota_cmd_get_download_info dmx1 dmx2 junk pid (dl s) = Some (OTA_SUCCESS, info, d)\<rbrakk>
    \<Longrightarrow> pstep s (s\<lparr>dl := d, prod := P_Failed\<rparr>)"
| info_ok: "\<lbrakk>prod s = P_Info; ota_cmd_get_download_info dmx1 dmx2 junk pid (dl s) = Some (OTA_SUCCESS, info, d);
      len = DATA_ALIGN (g_piece_size s) 0x20000;
      alislupg_ota_mem_config_by_piece (int (buf_addr s)) len (rng s)
        (d\<lparr>ram := memcpy_at (buf_addr s) (replicate len 0xff) (ram d)\<rparr>) = Some (ret, pn, r, d');
      n = (case pn of None \<Rightarrow> 0 | Some n \<Rightarrow> n)\<rbrakk>
    \<Longrightarrow> pstep s (s\<lparr>dl := d', rng := r, piece_num := n, prod := (if n = 0 then P_Done else P_Download 0)\<rparr>)"
| piece_fail: "\<lbrakk>prod s = P_Download i;
      ota_cmd_start_download_by_piece dmx junk pid (piece_range i (rng s)) (dl s) = Some (ret, r, d); ret \<noteq> OTA_SUCCESS\<rbrakk>
    \<Longrightarrow> pstep s (s\<lparr>dl := d, rng := r, p_ota_valid := None, piece_source_sem := piece_source_sem s + 1, prod := P_Failed\<rparr>)"
| piece_bad: "\<lbrakk>prod s = P_Download i;
      ota_cmd_start_download_by_piece dmx junk pid (piece_range i (rng s)) (dl s) = Some (OTA_SUCCESS, r, d);
      4 \<le> valid_size r; int (buf_addr s) + valid_size r \<le> int (length (ram d));
      piece_crc (crc_tab s) (take (nat (valid_size r)) (drop (buf_addr s) (ram d))) = (False, g)\<rbrakk>
    \<Longrightarrow> pstep s (s\<lparr>dl := d, rng := r\<lparr>valid_size := valid_size r - 4\<rparr>, crc_tab := g\<rparr>)"
| piece_good: "\<lbrakk>prod s = P_Download i;
      ota_cmd_start_download_by_piece dmx junk pid (piece_range i (rng s)) (dl s) = Some (OTA_SUCCESS, r, d);
      4 \<le> valid_size r; int (buf_addr s) + valid_size r \<le> int (length (ram d));
      piece_crc (crc_tab s) (take (nat (valid_size r)) (drop (buf_addr s) (ram d))) = (True, g)\<rbrakk>
    \<Longrightarrow> pstep s (publish i (nat (valid_size r - 4)) (s\<lparr>dl := d, rng := r\<lparr>valid_size := valid_size r - 4\<rparr>, crc_tab := g\<rparr>))"
| next_piece: "\<lbrakk>prod s = P_Wait i; 0 < piece_read_sem s\<rbrakk>
    \<Longrightarrow> pstep s (s\<lparr>piece_read_sem := piece_read_sem s - 1, prod := P_Download (i + 1)\<rparr>)"
| skip_head: "\<lbrakk>cons s = C_Skip n; 0 < piece_source_sem s\<rbrakk>
    \<Longrightarrow> pstep s (ota_file_read n (s\<lparr>piece_source_sem := piece_source_sem s - 1, p_ota_buf := 0\<rparr>))"
| read: "cons s = C_Idle \<Longrightarrow> pstep s (ota_file_read n s)"
| resume: "\<lbrakk>cons s = C_Wait n; 0 < piece_source_sem s; p_ota_valid s = Some valid\<rbrakk>
    \<Longrightarrow> pstep s (read_some valid n (s\<lparr>piece_source_sem := piece_source_sem s - 1, p_ota_buf := 0\<rparr>))"
| read_error: "\<lbrakk>cons s = C_Wait n; 0 < piece_source_sem s; p_ota_valid s = None\<rbrakk>
    \<Longrightarrow> pstep s (s\<lparr>piece_source_sem := piece_source_sem s - 1, cons := C_Err\<rparr>)"

definition piece_init :: "nat \<Rightarrow> piece_st \<Rightarrow> bool" where
  "piece_init hsize s \<longleftrightarrow> prod s = P_Info \<and> cons s = C_Skip hsize \<and> piece_read_sem s = 0 \<and> piece_source_sem s = 0 \<and>
     p_ota_valid s = None \<and> crc_globals_ok (crc_tab s) \<and> accepted s = [] \<and> taken s = []"


inductive_cases pstepE: "pstep s s'"

subsection \<open>The invariant\<close>

abbreviation skipping :: "piece_st \<Rightarrow> bool" where
  "skipping s \<equiv> \<exists>n. cons s = C_Skip n"

abbreviation waiting :: "piece_st \<Rightarrow> bool" where
  "waiting s \<equiv> \<exists>n. cons s = C_Wait n"

text \<open>The consumer is where it needs \<open>n\<close> published pieces to have come that far.\<close>

definition expects :: "nat \<Rightarrow> piece_st \<Rightarrow> bool" where
  "expects n s \<longleftrightarrow> (if n = 0 then skipping s else waiting s)"

text \<open>
  A published piece belongs to the consumer: it has not been noticed yet, is being read, or
  has been read to its end and given back.
\<close>

definition published :: "piece_st \<Rightarrow> bool" where
  "published s \<longleftrightarrow> accepted s \<noteq> [] \<and> p_ota_valid s = Some (length (last (accepted s))) \<and>
     ota_bytes s 0 (length (last (accepted s))) = last (accepted s) \<and>
     (piece_source_sem s = 1 \<and> piece_read_sem s = 0 \<and> expects (length (accepted s) - 1) s \<and> taken s = concat (butlast (accepted s)) \<or>
      piece_source_sem s = 0 \<and> piece_read_sem s = 0 \<and> cons s = C_Idle \<and> p_ota_buf s \<le> length (last (accepted s)) \<and>
        taken s = concat (butlast (accepted s)) @ take (p_ota_buf s) (last (accepted s)) \<or>
      piece_source_sem s = 0 \<and> piece_read_sem s = 1 \<and> waiting s \<and> taken s = concat (accepted s))"

definition pre_download :: "piece_st \<Rightarrow> bool" where
  "pre_download s \<longleftrightarrow> accepted s = [] \<and> taken s = [] \<and> skipping s \<and> piece_read_sem s = 0 \<and> piece_source_sem s = 0"

definition failed :: "piece_st \<Rightarrow> bool" where
  "failed s \<longleftrightarrow> pre_download s \<or>
     piece_read_sem s = 0 \<and> p_ota_valid s = None \<and>
     (piece_source_sem s = 1 \<and> expects (length (accepted s)) s \<and> taken s = concat (accepted s) \<or>
      piece_source_sem s = 0 \<and> accepted s = [] \<and> cons s = C_Idle \<or>
      piece_source_sem s = 0 \<and> accepted s \<noteq> [] \<and> cons s = C_Err \<and> taken s = concat (accepted s))"

definition pinv :: "piece_st \<Rightarrow> bool" where
  "pinv s \<longleftrightarrow>
     (case prod s of
        P_Info \<Rightarrow> pre_download s
      | P_Download i \<Rightarrow> i = length (accepted s) \<and> piece_read_sem s = 0 \<and> piece_source_sem s = 0 \<and> expects i s \<and>
          taken s = concat (accepted s)
      | P_Wait i \<Rightarrow> length (accepted s) = i + 1 \<and> published s
      | P_Done \<Rightarrow> pre_download s \<or> published s
      | P_Failed \<Rightarrow> failed s) \<and>
     crc_globals_ok (crc_tab s) \<and>
     (\<forall>p\<in>set (accepted s). \<exists>c. length c = 4 \<and> src_crc c = MG_Compute_CRC 0xffffffff p)"

lemma pinv_init: "piece_init h s \<Longrightarrow> pinv s"
  by (simp add: piece_init_def pinv_def pre_download_def)

lemma concat_butlast_last: "xs \<noteq> [] \<Longrightarrow> concat (butlast xs) @ last xs = concat xs"
  by (induction xs) auto

lemma ota_bytes_frame [simp]:
  "ota_bytes (s\<lparr>taken := x\<rparr>) = ota_bytes s" "ota_bytes (s\<lparr>cons := c\<rparr>) = ota_bytes s"
  "ota_bytes (s\<lparr>p_ota_buf := n\<rparr>) = ota_bytes s" "ota_bytes (s\<lparr>piece_read_sem := m\<rparr>) = ota_bytes s"
  "ota_bytes (s\<lparr>piece_source_sem := k\<rparr>) = ota_bytes s" "ota_bytes (s\<lparr>accepted := a\<rparr>) = ota_bytes s"
  "ota_bytes (s\<lparr>prod := p\<rparr>) = ota_bytes s" "ota_bytes (s\<lparr>p_ota_valid := v\<rparr>) = ota_bytes s"
  by (simp_all add: ota_bytes_def fun_eq_iff)

text \<open>The bytes behind the read pointer come from the piece.\<close>

lemma ota_bytes_piece:
  assumes "ota_bytes s 0 v = p" "off + n \<le> v"
  shows "ota_bytes s off n = take n (drop off p)"
proof -
  have "take n (drop off p) = take n (take (v - off) (drop (buf_addr s + off) (ram (dl s))))"
    using assms(1) by (auto simp: ota_bytes_def drop_take add.commute)
  then show ?thesis
    using assms(2) by (simp add: ota_bytes_def min_def)
qed

text \<open>Reading at any place of the published piece keeps what the reader was given in step.\<close>

definition reading :: "piece_st \<Rightarrow> bool" where
  "reading s \<longleftrightarrow> accepted s \<noteq> [] \<and> p_ota_valid s = Some (length (last (accepted s))) \<and>
     ota_bytes s 0 (length (last (accepted s))) = last (accepted s) \<and>
     piece_source_sem s = 0 \<and> piece_read_sem s = 0 \<and> p_ota_buf s \<le> length (last (accepted s)) \<and>
     taken s = concat (butlast (accepted s)) @ take (p_ota_buf s) (last (accepted s))"

lemma reading_stop: "reading s \<Longrightarrow> published (s\<lparr>cons := C_Idle\<rparr>)"
  by (simp add: reading_def published_def)

lemma reading_part:
  assumes "reading s" "p_ota_buf s + n \<le> length (last (accepted s))"
  shows "reading (s\<lparr>taken := taken s @ ota_bytes s (p_ota_buf s) n, p_ota_buf := p_ota_buf s + n\<rparr>)"
proof -
  have "ota_bytes s (p_ota_buf s) n = take n (drop (p_ota_buf s) (last (accepted s)))"
    using assms by (intro ota_bytes_piece) (auto simp: reading_def)
  then show ?thesis
    using assms by (simp add: reading_def take_add)
qed

lemma reading_rest:
  assumes "reading s"
  shows "taken s @ ota_bytes s (p_ota_buf s) (length (last (accepted s)) - p_ota_buf s) = concat (accepted s)"
proof -
  have "ota_bytes s (p_ota_buf s) (length (last (accepted s)) - p_ota_buf s) = drop (p_ota_buf s) (last (accepted s))"
    using assms ota_bytes_piece[of s "length (last (accepted s))" "last (accepted s)" "p_ota_buf s"
        "length (last (accepted s)) - p_ota_buf s"] by (simp add: reading_def)
  then show ?thesis
    using assms concat_butlast_last[of "accepted s"] by (simp add: reading_def)
qed

lemma read_some_published:
  assumes "reading s"
  shows "published (read_some (length (last (accepted s))) n s)"
proof (cases "n \<le> length (last (accepted s)) - p_ota_buf s")
  case True
  then show ?thesis
    using reading_stop[OF assms] reading_stop[OF reading_part[OF assms, of n]] assms
    by (cases "n = 0") (simp_all add: read_some_def Let_def reading_def)
next
  case False
  then show ?thesis
    using assms reading_rest[OF assms] by (simp add: read_some_def Let_def reading_def published_def)
qed

lemma ota_file_read_published: "reading s \<Longrightarrow> published (ota_file_read n s)"
  using read_some_published[of s n] reading_stop[of s] by (simp add: ota_file_read_def reading_def)

lemma read_keeps [simp]:
  "prod (read_some v n s) = prod s" "accepted (read_some v n s) = accepted s" "crc_tab (read_some v n s) = crc_tab s"
  "prod (ota_file_read n s) = prod s" "accepted (ota_file_read n s) = accepted s" "crc_tab (ota_file_read n s) = crc_tab s"
  by (auto simp: read_some_def ota_file_read_def Let_def split: option.splits)

lemma ota_file_read_invalid:
  "p_ota_valid s = None \<Longrightarrow> ota_file_read n s = s\<lparr>taken := taken s @ ota_bytes s (p_ota_buf s) n, cons := C_Idle\<rparr>"
  by (simp add: ota_file_read_def)

subsection \<open>Every step keeps the invariant\<close>

lemma piece_crc_ok:
  assumes "piece_crc g data = (ok, g')" "crc_globals_ok g"
  shows "crc_globals_ok g'" "ok \<longleftrightarrow> src_crc (drop (length data - 4) data) = MG_Compute_CRC 0xffffffff (take (length data - 4) data)"
  using assms table_driven_ok[OF assms(2), of "0xffffffff" "take (length data - 4) data"]
    table_driven_globals[OF assms(2), of "0xffffffff" "take (length data - 4) data"]
  by (auto simp: piece_crc_def split: prod.splits)

lemma published_wakes:
  "\<lbrakk>published s; piece_source_sem s = 1\<rbrakk> \<Longrightarrow> reading (s\<lparr>piece_source_sem := 0, p_ota_buf := 0\<rparr>)"
  by (auto simp: published_def reading_def)

lemma published_idle: "\<lbrakk>published s; cons s = C_Idle\<rbrakk> \<Longrightarrow> reading s"
  by (auto simp: published_def reading_def expects_def split: if_splits)

text \<open>A signal to the consumer is a published piece or the end of a failed download.\<close>

definition after_publish :: "piece_st \<Rightarrow> bool" where
  "after_publish s \<longleftrightarrow> prod s = P_Done \<or> (\<exists>i. prod s = P_Wait i \<and> length (accepted s) = i + 1)"

lemma pinv_posted:
  assumes "pinv s" "0 < piece_source_sem s"
  shows "piece_source_sem s = 1 \<and>
    (after_publish s \<and> published s \<or>
     prod s = P_Failed \<and> piece_read_sem s = 0 \<and> p_ota_valid s = None \<and> expects (length (accepted s)) s \<and> taken s = concat (accepted s))"
  using assms by (auto simp: pinv_def after_publish_def pre_download_def failed_def published_def split: prod_pc.splits)

lemma pinv_idle:
  assumes "pinv s" "cons s = C_Idle"
  shows "after_publish s \<and> reading s \<or>
    prod s = P_Failed \<and> piece_read_sem s = 0 \<and> piece_source_sem s = 0 \<and> p_ota_valid s = None \<and> accepted s = []"
  using assms by (auto simp: pinv_def after_publish_def pre_download_def failed_def expects_def published_idle
      split: prod_pc.splits if_splits)

lemma pinv_published:
  assumes "pinv s" "after_publish s" "published s'" "prod s' = prod s" "accepted s' = accepted s" "crc_tab s' = crc_tab s"
  shows "pinv s'"
  using assms by (auto simp: pinv_def after_publish_def)

lemma piece_taken_pinv:
  assumes inv: "pinv s" and pc: "prod s = P_Download i"
    and v: "4 \<le> valid_size r" "int (buf_addr s) + valid_size r \<le> int (length (ram d))"
    and crc: "piece_crc (crc_tab s) (take (nat (valid_size r)) (drop (buf_addr s) (ram d))) = (True, g)"
  shows "pinv (publish i (nat (valid_size r - 4)) (s\<lparr>dl := d, rng := r', crc_tab := g\<rparr>))"
proof -
  define data where "data = take (nat (valid_size r)) (drop (buf_addr s) (ram d))"
  have len: "length data = nat (valid_size r)" "length data - 4 = nat (valid_size r - 4)"
    using v by (simp_all add: data_def nat_diff_distrib)
  define p where "p = take (length data - 4) data"
  have bytes: "ota_bytes (s\<lparr>dl := d, rng := r', crc_tab := g\<rparr>) 0 (nat (valid_size r - 4)) = p" "length p = nat (valid_size r - 4)"
    unfolding p_def using len v by (simp_all add: ota_bytes_def data_def)
  have "\<exists>c. length c = 4 \<and> src_crc c = MG_Compute_CRC 0xffffffff p" "crc_globals_ok g"
    using piece_crc_ok[OF crc] inv v len by (auto simp: data_def[symmetric] p_def pinv_def intro!: exI[of _ "drop (length data - 4) data"])
  then show ?thesis
    using inv pc bytes by (auto simp: pinv_def publish_def published_def expects_def)
qed

lemma pstep_pinv:
  assumes "pstep s s'" "pinv s"
  shows "pinv s'"
  using assms(1)
proof cases
  case piece_good then show ?thesis using assms(2) by (auto intro: piece_taken_pinv)
next
  case (piece_bad i dmx junk pid r d g)
  then show ?thesis using assms(2) piece_crc_ok(1)[OF piece_bad(6)] by (simp add: pinv_def expects_def)
next
  case (skip_head n)
  let ?t = "s\<lparr>piece_source_sem := 0, p_ota_buf := 0\<rparr>"
  have s': "s' = ota_file_read n ?t" using skip_head pinv_posted[OF assms(2)] by simp
  from pinv_posted[OF assms(2) skip_head(3)] show ?thesis
  proof (elim conjE disjE)
    assume "after_publish s" "published s" "piece_source_sem s = 1"
    then show ?thesis unfolding s' by (intro pinv_published[OF assms(2)] ota_file_read_published published_wakes) simp_all
  next
    assume "prod s = P_Failed" "p_ota_valid s = None" "expects (length (accepted s)) s" "piece_read_sem s = 0"
    then show ?thesis unfolding s' using assms(2) skip_head(2)
      by (auto simp: pinv_def failed_def expects_def ota_file_read_invalid split: if_splits)
  qed
next
  case (read n)
  from pinv_idle[OF assms(2) read(2)] show ?thesis
  proof (elim conjE disjE)
    assume "after_publish s" "reading s"
    then show ?thesis unfolding read(1) by (intro pinv_published[OF assms(2)] ota_file_read_published) simp_all
  qed (use assms(2) read in \<open>auto simp: pinv_def failed_def ota_file_read_invalid\<close>)
next
  case (resume n valid)
  let ?t = "s\<lparr>piece_source_sem := 0, p_ota_buf := 0\<rparr>"
  have pub: "after_publish s" "published s" "piece_source_sem s = 1"
    using resume pinv_posted[OF assms(2)] by auto
  then have "valid = length (last (accepted ?t))" using resume by (simp add: published_def)
  then have "published (read_some valid n ?t)" using read_some_published[OF published_wakes, of s n] pub by simp
  then show ?thesis using pub resume by (intro pinv_published[OF assms(2)]) simp_all
next
  case read_error
  then show ?thesis using pinv_posted[OF assms(2)] assms(2)
    by (auto simp: pinv_def published_def failed_def expects_def split: if_splits)
next
  case next_piece
  then show ?thesis using assms(2) by (auto simp: pinv_def published_def expects_def)
qed (use assms(2) in \<open>auto simp: pinv_def pre_download_def published_def failed_def expects_def split: prod_pc.splits if_splits\<close>)

lemma reachable_pinv: "\<lbrakk>pstep\<^sup>*\<^sup>* s0 s; piece_init h s0\<rbrakk> \<Longrightarrow> pinv s"
  by (induction rule: rtranclp_induct) (auto intro: pinv_init pstep_pinv)

text \<open>While a piece is being downloaded no step of the consumer is possible.\<close>

lemma downloading_consumer_rests:
  assumes "pinv s" "prod s = P_Download i" "pstep s s'"
  shows "cons s' = cons s \<and> taken s' = taken s"
  using assms(3)
proof cases
  case piece_good then show ?thesis by (simp add: publish_def)
qed (use assms in \<open>auto simp: pinv_def expects_def split: if_splits\<close>)

text \<open>Once pieces were published the protocol stops only at its end.\<close>

lemma woken_moves: "\<lbrakk>0 < piece_source_sem s; skipping s \<or> waiting s\<rbrakk> \<Longrightarrow> \<exists>s'. pstep s s'"
  by (cases "p_ota_valid s") (blast intro: pstep.skip_head pstep.resume pstep.read_error)+

lemma published_moves:
  assumes "published s" "after_publish s"
  shows "(\<exists>s'. pstep s s') \<or> prod s = P_Done \<and> waiting s \<and> taken s = concat (accepted s)"
proof (cases "piece_source_sem s = 1")
  case True
  then have "skipping s \<or> waiting s"
    using assms(1) by (auto simp: published_def expects_def split: if_splits)
  then show ?thesis
    using True woken_moves[of s] by simp
next
  case False
  then show ?thesis
    using assms pstep.next_piece[of s] unfolding published_def after_publish_def by (auto intro: pstep.read)
qed

lemma failed_moves:
  assumes "failed s"
  shows "(\<exists>s'. pstep s s') \<or> accepted s = [] \<and> skipping s \<or> cons s = C_Err \<and> taken s = concat (accepted s)"
  using assms woken_moves[of s] unfolding failed_def pre_download_def expects_def
  by (auto intro: pstep.read split: if_splits)

lemma stranded_stops:
  assumes "pre_download s" "prod s = P_Failed \<or> prod s = P_Done"
  shows "\<not> pstep s s'"
  using assms by (auto simp: pre_download_def elim: pstepE)

text \<open>
  A download can be started when the modules of the piece are in the table and their blocks
  fit into the bitmaps; then it can end, at least with an error.
\<close>

definition piece_startable :: "nat \<Rightarrow> piece_st \<Rightarrow> bool" where
  "piece_startable i s \<longleftrightarrow> (\<forall>j\<in>{mr_start (piece_range i (rng s))..mr_end (piece_range i (rng s))}.
     j < length (g_dc_module (dl s)) \<and> block_num (g_dc_module (dl s) ! j) \<le> 32 * BIT_MAP_NUM)"

definition dead_dmx :: dmx_env where
  "dead_dmx = \<lparr>dmx_construct_ret = 0, dmx_open_ret = 1, dmx_start_ret = 0, dmx_sections = (\<lambda>_. []), dmx_poll_ret = 0, dmx_flag_got = False\<rparr>"

lemma dead_info: "\<exists>d. ota_cmd_get_download_info dead_dmx dead_dmx 0 7 s = Some (OTA_FAILURE, None, d)"
  by (simp add: ota_cmd_get_download_info_def si_private_sec_parsing_start_def dmx_req_section_def dead_dmx_def
      OTA_FAILURE_def OTA_SUCCESS_def Let_def)

lemma reset_modules_startable:
  assumes "\<forall>k\<in>{j..<j + n}. k < length (g_dc_module d) \<and> block_num (g_dc_module d ! k) \<le> 32 * BIT_MAP_NUM"
  shows "\<exists>d'. reset_modules n j d = Some d'"
  using assms
proof (induction n arbitrary: j d)
  case (Suc n)
  then obtain m where m: "reset_module (g_dc_module d ! j) = Some m" "block_num m = block_num (g_dc_module d ! j)"
    by (auto simp: reset_module_def fresh_blocks_def)
  let ?d = "d\<lparr>g_dc_module := (g_dc_module d)[j := m], total_block_num := total_block_num d + block_num m\<rparr>"
  have "\<exists>d'. reset_modules n (Suc j) ?d = Some d'"
    using Suc.prems by (intro Suc.IH) (auto simp: nth_list_update)
  moreover have "j < length (g_dc_module d)"
    using Suc.prems by auto
  ultimately show ?case
    using m by simp
qed simp

lemma startable_moves:
  assumes "piece_startable i s" "prod s = P_Download i"
  shows "\<exists>s'. pstep s s'"
proof -
  let ?r = "piece_range i (rng s)"
  have "{mr_start ?r..<mr_start ?r + (Suc (mr_end ?r) - mr_start ?r)} = {mr_start ?r..mr_end ?r}"
    by auto
  then obtain d where "reset_modules (Suc (mr_end ?r) - mr_start ?r) (mr_start ?r)
      ((dl s)\<lparr>total_block_num := 0, received_section_num := 0\<rparr>) = Some d"
    using assms(1) reset_modules_startable[of "mr_start ?r" "Suc (mr_end ?r) - mr_start ?r"
        "(dl s)\<lparr>total_block_num := 0, received_section_num := 0\<rparr>"] by (simp add: piece_startable_def) blast
  then have "ota_cmd_start_download_by_piece dead_dmx 0 7 ?r (dl s) = Some (OTA_FAILURE, ?r, d)"
    by (simp add: ota_cmd_start_download_by_piece_def si_private_sec_parsing_start_def dmx_req_section_def
        dead_dmx_def OTA_FAILURE_def OTA_SUCCESS_def Let_def)
  then show ?thesis
    using pstep.piece_fail[OF assms(2)] by (force simp: OTA_FAILURE_def OTA_SUCCESS_def)
qed

lemma info_moves: "prod s = P_Info \<Longrightarrow> \<exists>s'. pstep s s'"
  using dead_info[of "dl s"] pstep.info_fail[of s] by (force simp: OTA_FAILURE_def OTA_SUCCESS_def)

subsection \<open>Properties\<close>


text \<open>
  (C32) The buffer has one owner: at most one of the two semaphores is up, and while the
  producer downloads piece \<open>i\<close> all \<open>i\<close> pieces before it have been read completely and no step
  hands anything to the reader.
\<close>

theorem buffer_handover_exclusive:
  assumes "piece_init h s0" and "pstep\<^sup>*\<^sup>* s0 s"
  shows "piece_source_sem s + piece_read_sem s \<le> 1 \<and>
    (\<forall>i. prod s = P_Download i \<longrightarrow> i = length (accepted s) \<and> taken s = concat (accepted s) \<and>
       (\<forall>s'. pstep s s' \<longrightarrow> cons s' = cons s \<and> taken s' = taken s))"
proof -
  have inv: "pinv s" using reachable_pinv assms by blast
  then have "piece_source_sem s + piece_read_sem s \<le> 1"
    by (auto simp: pinv_def published_def failed_def pre_download_def split: prod_pc.splits)
  then show ?thesis
    using inv downloading_consumer_rests[OF inv] by (auto simp: pinv_def)
qed

text \<open>
  (C33) The two threads do not block each other: some step is possible in every reachable
  state, apart from three kinds of final state: the producer is done and the reader, which has
  taken every accepted piece, asks for more than the package holds; the download failed after
  an accepted piece and the reader was given all accepted pieces and the error; or no piece
  was ever accepted, the producer has ended, and the reader is left in \<open>ota_file_skip_head\<close>
  for ever (\<open>info_failure_strands_reader\<close>). A download in progress has to be one that the table of
  modules allows to start.
\<close>

theorem handover_progress:
  assumes "piece_init h s0" and "pstep\<^sup>*\<^sup>* s0 s"
    and "\<And>i. prod s = P_Download i \<Longrightarrow> piece_startable i s"
  shows "(\<exists>s'. pstep s s') \<or> prod s = P_Done \<and> waiting s \<and> accepted s \<noteq> [] \<and> taken s = concat (accepted s) \<or>
    prod s = P_Failed \<and> cons s = C_Err \<and> accepted s \<noteq> [] \<and> taken s = concat (accepted s) \<or>
    (prod s = P_Done \<or> prod s = P_Failed) \<and> accepted s = [] \<and> taken s = [] \<and> skipping s"
proof -
  have "pinv s" using reachable_pinv assms by blast
  then show ?thesis
    using assms(3) published_moves[of s] failed_moves[of s] info_moves[of s] startable_moves[of _ s]
    by (cases "prod s") (auto simp: pinv_def after_publish_def pre_download_def published_def failed_def expects_def)
qed

text \<open>
  When the announcements cannot be received the producer ends without waking the
  reader: the reader stays in \<open>ota_file_skip_head\<close> and no step is possible any more.
\<close>

lemma info_failure_strands_reader:
  assumes "piece_init h s0" and "ota_cmd_get_download_info dmx1 dmx2 junk pid (dl s0) = Some (ret, info, d)"
    and "ret \<noteq> OTA_SUCCESS"
  shows "\<exists>s. pstep s0 s \<and> cons s = C_Skip h \<and> (\<forall>s'. \<not> pstep s s')"
proof -
  let ?s = "s0\<lparr>dl := d, prod := P_Failed\<rparr>"
  have "pstep s0 ?s"
    using assms by (intro pstep.info_fail) (auto simp: piece_init_def)
  moreover have "\<forall>s'. \<not> pstep ?s s'"
    using stranded_stops[of ?s] assms(1) by (simp add: piece_init_def pre_download_def)
  ultimately show ?thesis
    using assms(1) by (intro exI[of _ ?s]) (simp add: piece_init_def)
qed

text \<open>
  When the first piece cannot be downloaded the reader does not notice: its header and
  every later read are served, without an error, from the start of the buffer.
\<close>

lemma first_piece_failure_is_silent:
  assumes "prod s = P_Download 0" and "cons s = C_Skip n" and "taken s = []" and "piece_source_sem s = 0"
    and "ota_cmd_start_download_by_piece dmx junk pid (piece_range 0 (rng s)) (dl s) = Some (ret, r, d)"
    and "ret \<noteq> OTA_SUCCESS"
  shows "\<exists>s1 s2. pstep s s1 \<and> prod s1 = P_Failed \<and> pstep s1 s2 \<and> cons s2 = C_Idle \<and> taken s2 = ota_bytes s2 0 n \<and>
    (\<forall>m. \<exists>s3. pstep s2 s3 \<and> cons s3 = C_Idle \<and> taken s3 = taken s2 @ ota_bytes s2 0 m)"
proof -
  define s1 where "s1 = s\<lparr>dl := d, rng := r, p_ota_valid := None, piece_source_sem := piece_source_sem s + 1, prod := P_Failed\<rparr>"
  define t where "t = s1\<lparr>piece_source_sem := piece_source_sem s1 - 1, p_ota_buf := 0\<rparr>"
  define s2 where "s2 = ota_file_read n t"
  have t: "p_ota_valid t = None" "p_ota_buf t = 0" "taken t = []" by (simp_all add: t_def s1_def assms)
  have "pstep s s1" unfolding s1_def using assms by (intro pstep.piece_fail)
  moreover have "pstep s1 s2" unfolding s2_def t_def using assms by (intro pstep.skip_head) (simp_all add: s1_def)
  moreover have s2: "cons s2 = C_Idle" "taken s2 = ota_bytes s2 0 n" "p_ota_valid s2 = None" "p_ota_buf s2 = 0"
    using t by (simp_all add: s2_def ota_file_read_invalid)
  moreover have "pstep s2 (ota_file_read m s2)" for m by (rule pstep.read) (rule s2(1))
  ultimately show ?thesis
    using ota_file_read_invalid[OF s2(3)] by (intro exI[of _ s1] exI[of _ s2]) (auto simp: s1_def intro!: exI)
qed

subsection \<open>Witnesses\<close>

text \<open>
  A package of one piece: a group announcement, the directory of one module of six bytes, and
  the module in one block, two bytes and their check sum.
\<close>

definition demo_dsi :: "u8 list" where
  "demo_dsi = (replicate 64 0)[44 := 1]"

definition demo_dii :: "u8 list" where
  "demo_dii = (replicate 64 0)[24 := 6, 38 := 1, 40 := 9, 44 := 6]"

definition demo_ddb :: "u8 list" where
  "demo_ddb = (replicate 24 0)[4 := 9, 18 := 12, 20 := 9] @ [0x41, 0x42, 0xF4, 0x82, 0xEC, 0xAE] @ replicate 34 0"

definition demo_dmx :: "u8 list \<Rightarrow> dmx_env" where
  "demo_dmx sec = \<lparr>dmx_construct_ret = 0, dmx_open_ret = 0, dmx_start_ret = 0, dmx_sections = (\<lambda>_. [sec]),
     dmx_poll_ret = 0, dmx_flag_got = True\<rparr>"

definition demo_bitmap :: "u32 list" where
  "demo_bitmap = (replicate 32 (- 1))[0 := - 2]"

definition demo_entry :: DCModuleInfo where
  "demo_entry = blank_module\<lparr>module_id := 9, module_buf_size := 6, block_num := 1, block_received := demo_bitmap\<rparr>"

definition demo_mem :: "u8 list" where
  "demo_mem = replicate 0x20000 0xff"

definition demo_dl :: "nat \<Rightarrow> DCModuleInfo \<Rightarrow> u8 list \<Rightarrow> u8 list \<Rightarrow> ota" where
  "demo_dl bsize m sec mem =
     (demo_ota [0])\<lparr>g_dc_module := [m], g_dc_blocksize := bsize, g_ota_section_buf := sec, ram := mem\<rparr>"

definition demo_info :: dl_info where
  "demo_info = \<lparr>dl_hw_version = 0x0201, dl_sw_version = 0, dl_sw_type = 0, dl_sw_size = 0\<rparr>"

definition demo_placed :: ota where
  "demo_placed = (demo_dl 6 demo_entry demo_dii demo_mem)\<lparr>g_dl_info := demo_info, g_ota_ram1_len := 0x20000\<rparr>"

definition demo_rng :: modules_range where
  "demo_rng = demo_range\<lparr>mr_len := 0x20000 div 6 mod 65536, mr_total := 1\<rparr>"

definition demo_piece :: piece_st where
  "demo_piece = \<lparr>dl = demo_dl 0 blank_module (replicate 64 0) [], rng = demo_range, piece_num = 0, buf_addr = 0,
     p_ota_buf = 0, p_ota_valid = None, g_piece_size = 0x20000, piece_read_sem = 0, piece_source_sem = 0,
     crc_tab = crc_globals_init, prod = P_Info, cons = C_Skip 1, accepted = [], taken = []\<rparr>"

definition demo_downloading :: piece_st where
  "demo_downloading = demo_piece\<lparr>dl := demo_placed, rng := demo_rng, piece_num := 1, prod := P_Download 0\<rparr>"

lemmas section_parse = parse_dsmcc_sec_def parse_dsmcc_sec_gen_def rd_def get_2byte_value_def get_4byte_value_def
  Let_def OTA_SUCCESS_def DBC_SUCCESS_def

lemma section_kinds [simp]: "DSI_NUM \<noteq> DDB_NUM" "DII_NUM \<noteq> DDB_NUM" "DII_NUM \<noteq> DSI_NUM" "DDB_NUM \<noteq> DSI_NUM" "DDB_NUM \<noteq> DII_NUM"
  by (simp_all add: DSI_NUM_def DII_NUM_def DDB_NUM_def)

lemma demo_lengths [simp]: "length demo_dsi = 64" "length demo_dii = 64" "length demo_ddb = 64" "length demo_mem = 0x20000"
  unfolding demo_dsi_def demo_dii_def demo_ddb_def demo_mem_def length_replicate by simp_all

lemma demo_piece_init: "piece_init 1 demo_piece"
  by (simp add: piece_init_def demo_piece_def crc_globals_ok_init)

lemma demo_section:
  assumes "length sec = 64" "length (g_ota_section_buf s) = 64"
  shows "sec_update_buf cb sec 64 rq s =
    (if get_sec_cb rq then cb (rq\<lparr>sec_tbl_len := 64\<rparr>) (s\<lparr>g_ota_section_buf := sec\<rparr>)
     else Some (rq\<lparr>sec_tbl_len := 64\<rparr>, s\<lparr>g_ota_section_buf := sec\<rparr>))"
  using assms by (simp add: sec_update_buf_def memcpy_at_def DMX_MAX_SECTION_SIZE_def)

lemma demo_announcement:
  assumes "length sec = 64" "length (g_ota_section_buf s) = 64" "ty \<noteq> DDB_NUM"
  shows "si_private_sec_parsing_start (demo_dmx sec) 0 ty 7 True t None s =
    parse_dsmcc_sec 0 sec ty 0 (s\<lparr>g_ota_section_buf := sec\<rparr>)"
  using assms by (simp add: si_private_sec_parsing_start_def dmx_req_section_def demo_dmx_def sec_request_buf_def
      DMX_MAX_SECTION_SIZE_def demo_section)

lemma demo_dsi_parsed:
  "parse_dsmcc_sec 0 demo_dsi DSI_NUM 0 s = Some (OTA_SUCCESS, s\<lparr>g_dc_group := (g_dc_group s)\<lparr>group_id := 0, group_size := 0\<rparr>,
     g_dl_info := (g_dl_info s)\<lparr>dl_hw_version := g_hw_version s, dl_sw_version := 0, dl_sw_type := 0, dl_sw_size := 0\<rparr>\<rparr>)"
  by (simp add: section_parse alisl_dsi_message_def demo_dsi_def dsi_group_info.simps)

lemma demo_blocks: "fresh_blocks (Suc 0) = Some demo_bitmap"
  by (simp add: fresh_blocks_def demo_bitmap_def clear_block_def BIT_MAP_NUM_def)

lemma demo_dii_parsed:
  assumes "g_dc_module s = [blank_module]" "group_id (g_dc_group s) = 0" "g_ota_ram1_addr s = 0"
  shows "parse_dsmcc_sec 0 demo_dii DII_NUM 0 s =
    Some (OTA_SUCCESS, s\<lparr>g_dc_module := [demo_entry], g_dc_module_num := 1, g_dc_blocksize := 6\<rparr>)"
  using assms by (simp add: section_parse dii_message_def demo_dii_def dii_descriptors.simps dii_module_def blank_module_def
      demo_blocks demo_entry_def DC_MODULE_MAX_def)

lemma demo_info_received:
  "\<exists>i. ota_cmd_get_download_info (demo_dmx demo_dsi) (demo_dmx demo_dii) 0 7 (dl demo_piece) =
     Some (OTA_SUCCESS, i, (demo_dl 6 demo_entry demo_dii [])\<lparr>g_dl_info := demo_info\<rparr>)"
  by (simp add: ota_cmd_get_download_info_def demo_announcement demo_dsi_parsed demo_dii_parsed demo_piece_def
      demo_dl_def demo_ota_def demo_info_def Let_def)

lemma demo_config:
  "alislupg_ota_mem_config_by_piece 0 0x20000 demo_range ((demo_dl 6 demo_entry demo_dii [])\<lparr>g_dl_info := demo_info, ram := demo_mem\<rparr>) =
     Some (OTA_SUCCESS, Some 1, demo_rng, demo_placed)"
  by (simp add: alislupg_ota_mem_config_by_piece_def demo_dl_def demo_ota_def demo_entry_def blank_module_def
      demo_rng_def demo_placed_def demo_range_def Let_def)

lemma demo_download:
  "\<exists>r d. ota_cmd_start_download_by_piece (demo_dmx demo_ddb) 0 7 (piece_range 0 demo_rng) demo_placed = Some (OTA_SUCCESS, r, d) \<and>
     valid_size r = 6 \<and> ram d = memcpy_at 0 [0x41, 0x42, 0xF4, 0x82, 0xEC, 0xAE] demo_mem"
proof -
  have rng: "piece_range 0 demo_rng = demo_rng"
    by (simp add: piece_range_def demo_rng_def demo_range_def)
  have one: "mr_start demo_rng = 0" "mr_end demo_rng = 0"
    by (simp_all add: demo_rng_def demo_range_def)
  show ?thesis
    apply (simp add: rng one ota_cmd_start_download_by_piece_def)
    apply (simp add: demo_placed_def demo_dl_def demo_ota_def demo_entry_def blank_module_def reset_module_def demo_blocks Let_def)
    apply (simp add: si_private_sec_parsing_start_def dmx_req_section_def demo_dmx_def sec_request_buf_def
        DMX_MAX_SECTION_SIZE_def ddb_section_def one demo_section)
    apply (simp add: ddb_collect_def section_parse ddb_data_def ddb_store_def demo_ddb_def nth_append block_is_set_def set_block_def)
    apply (simp add: demo_bitmap_def one Let_def DBC_FAIL_def OTA_FAILURE_def)
    done
qed

lemma demo_crc: "\<exists>g. piece_crc crc_globals_init [0x41, 0x42, 0xF4, 0x82, 0xEC, 0xAE] = (True, g)"
proof -
  have "MG_Compute_CRC 0xffffffff [0x41, 0x42] = (0xAEEC82F4 :: u32)" by code_simp
  moreover have "src_crc [0xF4, 0x82, 0xEC, 0xAE] = 0xAEEC82F4" by (simp add: src_crc_def)
  ultimately show ?thesis
    using table_driven_ok[OF crc_globals_ok_init, of "0xffffffff" "[0x41, 0x42]"]
    by (cases "MG_Table_Driven_CRC crc_globals_init 0xffffffff [0x41, 0x42]") (simp add: piece_crc_def)
qed

lemma demo_starts: "pstep demo_piece demo_downloading"
proof -
  obtain i where "ota_cmd_get_download_info (demo_dmx demo_dsi) (demo_dmx demo_dii) 0 7 (dl demo_piece) =
      Some (OTA_SUCCESS, i, (demo_dl 6 demo_entry demo_dii [])\<lparr>g_dl_info := demo_info\<rparr>)"
    using demo_info_received by blast
  moreover have "memcpy_at 0 (replicate 0x20000 0xff) [] = demo_mem"
    unfolding memcpy_at_def demo_mem_def by simp
  moreover have "ram (demo_dl 6 demo_entry demo_dii []) = []"
    by (simp add: demo_dl_def)
  moreover have "prod demo_piece = P_Info" "g_piece_size demo_piece = 0x20000" "buf_addr demo_piece = 0" "rng demo_piece = demo_range"
    by (simp_all add: demo_piece_def)
  ultimately show ?thesis
    using pstep.info_ok[where s = demo_piece and len = "0x20000" and pn = "Some 1" and n = 1 and ret = OTA_SUCCESS
        and r = demo_rng and d' = demo_placed] demo_config
    by (simp add: DATA_ALIGN_def demo_downloading_def)
qed

lemma demo_publishes:
  "\<exists>s. pstep demo_downloading s \<and> accepted s = [[0x41, 0x42]] \<and> prod s = P_Done \<and> cons s = C_Skip 1 \<and>
     piece_source_sem s = 1 \<and> p_ota_valid s = Some 2 \<and> g_piece_size s = 0x20000 \<and> buf_addr s = 0 \<and> taken s = [] \<and>
     take 2 (ram (dl s)) = [0x41, 0x42]"
proof -
  obtain r d where d: "ota_cmd_start_download_by_piece (demo_dmx demo_ddb) 0 7 (piece_range 0 demo_rng) demo_placed = Some (OTA_SUCCESS, r, d)"
    "valid_size r = 6" "ram d = memcpy_at 0 [0x41, 0x42, 0xF4, 0x82, 0xEC, 0xAE] demo_mem"
    using demo_download by blast
  obtain g where g: "piece_crc crc_globals_init [0x41, 0x42, 0xF4, 0x82, 0xEC, 0xAE] = (True, g)"
    using demo_crc by blast
  have "pstep demo_downloading (publish 0 (nat (valid_size r - 4))
      (demo_downloading\<lparr>dl := d, rng := r\<lparr>valid_size := valid_size r - 4\<rparr>, crc_tab := g\<rparr>))"
    using d g by (intro pstep.piece_good) (simp_all add: demo_downloading_def demo_piece_def memcpy_at_def)
  then show ?thesis
    using d by (fastforce simp: publish_def demo_downloading_def demo_piece_def ota_bytes_def memcpy_at_def)
qed

lemma demo_reads:
  "\<exists>s. pstep\<^sup>*\<^sup>* demo_piece s \<and> accepted s = [[0x41, 0x42]] \<and> taken s = [0x41] \<and> prod s = P_Done \<and> cons s = C_Idle"
proof -
  obtain s where s: "pstep demo_downloading s" "accepted s = [[0x41, 0x42]]" "prod s = P_Done" "cons s = C_Skip 1"
     "piece_source_sem s = 1" "p_ota_valid s = Some 2" "g_piece_size s = 0x20000" "buf_addr s = 0" "taken s = []"
     "take 2 (ram (dl s)) = [0x41, 0x42]"
    using demo_publishes by blast
  let ?s = "ota_file_read 1 (s\<lparr>piece_source_sem := piece_source_sem s - 1, p_ota_buf := 0\<rparr>)"
  have "take 1 (ram (dl s)) = [0x41]"
    using arg_cong[OF s(10), of "take 1"] by simp
  then have "taken ?s = [0x41]" "cons ?s = C_Idle"
    using s by (simp_all add: ota_file_read_def read_some_def ota_bytes_def)
  moreover have "pstep\<^sup>*\<^sup>* demo_piece ?s"
    using pstep.skip_head[OF s(4)] s(5)
    by (intro rtranclp.rtrancl_into_rtrancl[OF converse_rtranclp_into_rtranclp[OF demo_starts r_into_rtranclp[of pstep, OF s(1)]]]) simp
  ultimately show ?thesis
    using s by (intro exI[of _ ?s]) simp
qed


theorem buffer_handover_exclusive_witness:
  "pstep\<^sup>*\<^sup>* demo_piece demo_downloading \<and> prod demo_downloading = P_Download 0 \<and>
     (\<exists>s'. pstep demo_downloading s' \<and> accepted s' = [[0x41, 0x42]] \<and> cons s' = C_Skip 1 \<and> taken s' = [])"
proof -
  have s: "pstep\<^sup>*\<^sup>* demo_piece demo_downloading" "prod demo_downloading = P_Download 0" "cons demo_downloading = C_Skip 1"
    "taken demo_downloading = []"
    using demo_starts by (auto simp: demo_downloading_def demo_piece_def)
  obtain s' where "pstep demo_downloading s'" "accepted s' = [[0x41, 0x42]]"
    using demo_publishes by blast
  then show ?thesis
    using buffer_handover_exclusive[OF demo_piece_init s(1)] s by (intro conjI exI[of _ s']) auto
qed

theorem handover_progress_witness:
  "\<exists>s. pstep\<^sup>*\<^sup>* demo_piece s \<and> prod s = P_Done \<and> taken s = [0x41] \<and> (\<exists>s'. pstep s s')"
proof -
  obtain s where s: "pstep\<^sup>*\<^sup>* demo_piece s" "taken s = [0x41]" "prod s = P_Done" "cons s = C_Idle"
    using demo_reads by blast
  show ?thesis
    using handover_progress[OF demo_piece_init s(1)] s by (intro exI[of _ s]) simp
qed

end
