(* ===== verification/Flash_Device.thy ===== *)
theory Flash_Device
  imports Prelude
begin

section \<open>The flash device descriptor and its bad block map (\<open>alislstorage.c\<close>)\<close>

text \<open>
  The device descriptor \<open>alislsto_dev_t\<close> of \<open>lib/libalislstorage\<close>, the bad block bitmap,
  the translation between logical and physical addresses, the scan that fills the
  descriptor and the seek operations.

  The Linux MTD driver behind the file descriptor is not part of the repository: it is
  the parameter \<open>mtd_driver\<close>, a record of the system calls and ioctls the library issues,
  over an abstract driver state \<open>'k\<close>. A result \<open>None\<close> of an operation is undefined
  behaviour of the C code (a null or dangling pointer, an access outside an array, a
  division by zero) or a loop that does not end.
\<close>

subsection \<open>Types\<close>

datatype 'a ptr = Null | Dangling | Valid 'a

primrec deref :: "'a ptr \<Rightarrow> 'a option" where
  "deref Null = None"
| "deref Dangling = None"
| "deref (Valid x) = Some x"

text \<open>\<open>mtd_info_t\<close>: the fields the library uses, unsigned 32-bit values.\<close>

record mtd_info =
  info_type :: int
  info_size :: int
  info_erasesize :: int
  info_writesize :: int

definition MTD_NANDFLASH :: int where "MTD_NANDFLASH = 4"

datatype alislsto_type = STO_TYPE_NOR | STO_TYPE_NAND

definition STO_ERR_NONE :: retcode where [retcode_defs]: "STO_ERR_NONE = 0"
definition STO_ERR_NOLAYOUTMAP :: retcode where [retcode_defs]: "STO_ERR_NOLAYOUTMAP = 2"
definition STO_ERR_INVALIDHANDLE :: retcode where [retcode_defs]: "STO_ERR_INVALIDHANDLE = 3"
definition STO_ERR_OVERFLOW :: retcode where [retcode_defs]: "STO_ERR_OVERFLOW = 5"
definition STO_ERR_INVALIDSIZE :: retcode where [retcode_defs]: "STO_ERR_INVALIDSIZE = 6"
definition STO_ERR_INVALIDPARAM :: retcode where [retcode_defs]: "STO_ERR_INVALIDPARAM = 7"
definition STO_ERR_DRIVER :: retcode where [retcode_defs]: "STO_ERR_DRIVER = 8"
definition STO_ERR_MEM :: retcode where [retcode_defs]: "STO_ERR_MEM = 9"

definition STO_INVALID_HANDLE :: int where "STO_INVALID_HANDLE = -1"
definition STO_ERASE_TYPE_BLOCK :: int where "STO_ERASE_TYPE_BLOCK = 0"
definition STO_ERASE_TYPE_SECTOR :: int where "STO_ERASE_TYPE_SECTOR = 1"
definition SECTOR_SIZE_4K :: int where "SECTOR_SIZE_4K = 4096"

text \<open>One row of the flash layout map (\<open>storage_map_t\<close>).\<close>

record storage_map =
  smap_offset :: int
  smap_size :: int
  smap_imgsz :: int

text \<open>The device descriptor; the \<open>margin\<close> of the private part is kept with it.\<close>

record alislsto_dev =
  dev_type :: alislsto_type
  dev_name :: "string option"
  dev_attr :: "storage_map list option"
  dev_handle :: int
  dev_info :: "mtd_info ptr"
  dev_offset :: int
  dev_maxpart :: int
  dev_open_cnt :: nat
  dev_pmi :: bool
  dev_margin :: int
  dev_bad_cnt :: int
  dev_bad_map :: "u8 list option"
  dev_info_logic :: "mtd_info ptr"
  dev_erase_type :: int

text \<open>
  The kernel driver. \<open>memgetinfo\<close>, \<open>memgetbadblock\<close>, \<open>memsetbadblock\<close>, \<open>memerase\<close> and
  \<open>memerase4k\<close> are the ioctls of these names, \<open>klseek\<close>, \<open>kread\<close> and \<open>kwrite\<close> the system
  calls; each returns its C return value, \<open>kread\<close> with the bytes it stored in the buffer.
\<close>

record 'k mtd_driver =
  memgetinfo :: "'k \<Rightarrow> int \<times> mtd_info"
  memgetbadblock :: "'k \<Rightarrow> int \<Rightarrow> int"
  memsetbadblock :: "'k \<Rightarrow> int \<Rightarrow> int \<times> 'k"
  memerase :: "'k \<Rightarrow> int \<Rightarrow> int \<Rightarrow> int \<times> 'k"
  memerase4k :: "'k \<Rightarrow> int \<Rightarrow> int \<Rightarrow> int \<times> 'k"
  klseek :: "'k \<Rightarrow> int \<Rightarrow> int \<times> 'k"
  kread :: "'k \<Rightarrow> int \<Rightarrow> int \<times> u8 list \<times> 'k"
  kwrite :: "'k \<Rightarrow> u8 list \<Rightarrow> int \<times> 'k"

subsection \<open>The bad block bitmap\<close>

definition bitarray_set_index :: "u8 list option \<Rightarrow> nat \<Rightarrow> u8 list option option" where
  "bitarray_set_index bitarray idx =
     (case bitarray of
        None \<Rightarrow> Some None
      | Some m \<Rightarrow> if idx div 8 < length m
                then Some (Some (m[idx div 8 := (m ! (idx div 8)) OR push_bit (idx mod 8) 1]))
                else None)"

definition bitarray_get_index :: "u8 list option \<Rightarrow> nat \<Rightarrow> int option" where
  "bitarray_get_index bitarray idx =
     (case bitarray of
        None \<Rightarrow> Some (-1)
      | Some m \<Rightarrow> if idx div 8 < length m
                then Some (uint ((m ! (idx div 8)) AND push_bit (idx mod 8) 1))
                else None)"

subsection \<open>Logical and physical addresses\<close>

text \<open>
  The scan of \<open>alislsto_get_phy_addr\<close>: \<open>cnt\<close> walks over the blocks, \<open>block_idx\<close> counts
  the good ones before it; the loop breaks at the good block number \<open>block_logic\<close>.
\<close>

function phy_scan :: "u8 list option \<Rightarrow> nat \<Rightarrow> int \<Rightarrow> nat \<Rightarrow> nat \<Rightarrow> (nat \<times> nat) option" where
  "phy_scan bad_map block_all block_logic cnt block_idx =
     (if cnt < block_all then
        do { b \<leftarrow> bitarray_get_index bad_map cnt;
             if b = 0 then
               if int block_idx = block_logic then Some (cnt, block_idx)
               else phy_scan bad_map block_all block_logic (Suc cnt) (Suc block_idx)
             else phy_scan bad_map block_all block_logic (Suc cnt) block_idx }
      else Some (cnt, block_idx))"
  by pat_completeness auto
termination
  by (relation "measure (\<lambda>(m, block_all, l, cnt, i). block_all - cnt)") auto

declare phy_scan.simps [simp del]

definition alislsto_get_phy_addr :: "alislsto_dev option \<Rightarrow> int \<Rightarrow> (retcode \<times> int option) option" where
  "alislsto_get_phy_addr handle offset_logic =
     (case handle of
        None \<Rightarrow> Some (-1, None)
      | Some dev \<Rightarrow>
          if dev_info dev = Null then Some (-1, None)
          else do {
            info \<leftarrow> deref (dev_info dev);
            if offset_logic > info_size info then Some (-1, None)
            else if dev_bad_cnt dev = 0 \<or> info_type info \<noteq> MTD_NANDFLASH then Some (0, Some offset_logic)
            else if info_erasesize info = 0 then None
            else do {
              let block_all = nat (info_size info div info_erasesize info);
              let block_logic = to_uint32 (offset_logic sdiv info_erasesize info);
              (cnt, block_idx) \<leftarrow> phy_scan (dev_bad_map dev) block_all block_logic 0 0;
              if block_idx = block_all then Some (-1, None)
              else Some (0, Some (to_uint32 (int cnt * info_erasesize info)
                                   + offset_logic smod info_erasesize info)) } })"

function logic_scan :: "u8 list option \<Rightarrow> int \<Rightarrow> nat \<Rightarrow> nat \<Rightarrow> nat option" where
  "logic_scan bad_map block_phy cnt block_idx =
     (if int cnt < block_phy then
        do { b \<leftarrow> bitarray_get_index bad_map cnt;
             logic_scan bad_map block_phy (Suc cnt) (if b = 0 then Suc block_idx else block_idx) }
      else Some block_idx)"
  by pat_completeness auto
termination
  by (relation "measure (\<lambda>(m, block_phy, cnt, i). nat block_phy - cnt)") auto

declare logic_scan.simps [simp del]

definition alislsto_get_logic_addr :: "alislsto_dev option \<Rightarrow> int \<Rightarrow> (retcode \<times> int option) option" where
  "alislsto_get_logic_addr handle offset_phy =
     (case handle of
        None \<Rightarrow> Some (-1, None)
      | Some dev \<Rightarrow>
          if dev_info dev = Null then Some (-1, None)
          else do {
            info \<leftarrow> deref (dev_info dev);
            if offset_phy > info_size info then Some (-1, None)
            else if dev_bad_cnt dev = 0 \<or> info_type info \<noteq> MTD_NANDFLASH then Some (0, Some offset_phy)
            else if info_erasesize info = 0 then None
            else do {
              let block_phy = to_uint32 (offset_phy sdiv info_erasesize info);
              block_idx \<leftarrow> logic_scan (dev_bad_map dev) block_phy 0 0;
              Some (0, Some (to_uint32 (int block_idx * info_erasesize info)
                              + offset_phy smod info_erasesize info)) } })"

text \<open>A block whose erasure failed is marked in the driver's table and in the map.\<close>

definition update_bbt :: "'k mtd_driver \<Rightarrow> alislsto_dev \<Rightarrow> 'k \<Rightarrow> int \<Rightarrow> (alislsto_dev \<times> 'k) option" where
  "update_bbt drv dev k addr =
     (let (ret, k') = memsetbadblock drv k addr in
      if ret \<noteq> 0 then Some (dev, k')
      else do {
        info \<leftarrow> deref (dev_info dev);
        if info_erasesize info = 0 then None
        else do {
          let idx = nat (to_uint32 (addr sdiv info_erasesize info));
          b \<leftarrow> bitarray_get_index (dev_bad_map dev) idx;
          if b \<noteq> 0 then Some (dev, k')
          else do {
            m \<leftarrow> bitarray_set_index (dev_bad_map dev) idx;
            logic \<leftarrow> deref (dev_info_logic dev);
            Some (dev\<lparr>dev_bad_map := m, dev_bad_cnt := dev_bad_cnt dev + 1,
                      dev_info_logic :=
                        Valid (logic\<lparr>info_size := to_uint32 (info_size logic - info_erasesize info)\<rparr>)\<rparr>,
                  k') } } })"

subsection \<open>Filling the descriptor (\<open>show_flash_info\<close>)\<close>

text \<open>The bad block scan: one \<open>MEMGETBADBLOCK\<close> per block, in address order.\<close>

function bad_scan :: "'k mtd_driver \<Rightarrow> 'k \<Rightarrow> mtd_info \<Rightarrow> int \<Rightarrow> nat \<Rightarrow> nat \<Rightarrow> u8 list option
    \<Rightarrow> (nat \<times> u8 list option) option" where
  "bad_scan drv k info offset block_cnt bad_block_cnt m =
     (if offset < info_size info then
        if info_erasesize info \<le> 0 then None
        else if memgetbadblock drv k offset \<noteq> 0 then
          do { m' \<leftarrow> bitarray_set_index m block_cnt;
               bad_scan drv k info (offset + info_erasesize info) (Suc block_cnt) (Suc bad_block_cnt) m' }
        else bad_scan drv k info (offset + info_erasesize info) (Suc block_cnt) bad_block_cnt m
      else Some (bad_block_cnt, m))"
  by pat_completeness auto
termination
  by (relation "measure (\<lambda>(drv, k, info, offset, c, b, m). nat (info_size info - offset))") auto

declare bad_scan.simps [simp del]

text \<open>
  \<open>malloc_ok i\<close> says whether the call's allocation number \<open>i\<close> (the two info blocks, then
  the bitmap) succeeds. When the second one fails the first is freed and the descriptor
  keeps the freed pointer.
\<close>

definition show_flash_info :: "'k mtd_driver \<Rightarrow> (nat \<Rightarrow> bool) \<Rightarrow> alislsto_dev option \<Rightarrow> 'k
    \<Rightarrow> (retcode \<times> alislsto_dev option) option" where
  "show_flash_info drv malloc_ok handle k =
     (case handle of
        None \<Rightarrow> Some (STO_ERR_INVALIDPARAM, None)
      | Some dev \<Rightarrow>
          if \<not> malloc_ok 0 then Some (STO_ERR_OVERFLOW, Some (dev\<lparr>dev_info := Null\<rparr>))
          else if \<not> malloc_ok 1 then
            Some (STO_ERR_OVERFLOW, Some (dev\<lparr>dev_info := Dangling, dev_info_logic := Null\<rparr>))
          else
            let (ret, info) = memgetinfo drv k;
                dev = dev\<lparr>dev_info := Valid info, dev_info_logic := Valid info\<rparr>
            in if ret \<noteq> 0 then
                 Some (STO_ERR_DRIVER, Some (dev\<lparr>dev_info := Null, dev_info_logic := Null\<rparr>))
               else if info_type info \<noteq> MTD_NANDFLASH then Some (STO_ERR_NONE, Some dev)
               else if info_erasesize info = 0 then None
               else if \<not> malloc_ok 2 then
                 Some (STO_ERR_DRIVER, Some (dev\<lparr>dev_bad_map := None, dev_info := Null,
                                              dev_info_logic := Null\<rparr>))
               else do {
                 let block_cnt = nat (info_size info div info_erasesize info);
                 let bad_map_size = block_cnt div 8 + (if block_cnt mod 8 \<noteq> 0 then 1 else 0);
                 (bad_block_cnt, m) \<leftarrow> bad_scan drv k info 0 0 0 (Some (replicate bad_map_size 0));
                 let dev = dev\<lparr>dev_bad_map := m\<rparr>;
                 Some (STO_ERR_NONE, Some
                   (if bad_block_cnt \<noteq> 0 then
                      dev\<lparr>dev_info_logic := Valid (info\<lparr>info_size :=
                            to_uint32 (info_size info - int bad_block_cnt * info_erasesize info)\<rparr>),
                          dev_bad_cnt := int bad_block_cnt\<rparr>
                    else dev)) })"

subsection \<open>Offsets and seeks\<close>

definition alislsto_get_offset :: "alislsto_dev option \<Rightarrow> retcode \<times> int option" where
  "alislsto_get_offset handle =
     (case handle of None \<Rightarrow> (STO_ERR_INVALIDPARAM, None)
      | Some dev \<Rightarrow> (STO_ERR_NONE, Some (dev_offset dev)))"

definition alislsto_set_offset :: "alislsto_dev option \<Rightarrow> int \<Rightarrow> bool \<Rightarrow> retcode \<times> alislsto_dev option" where
  "alislsto_set_offset handle offset flag =
     (case handle of None \<Rightarrow> (STO_ERR_INVALIDHANDLE, None)
      | Some dev \<Rightarrow> (STO_ERR_NONE, Some (if flag then dev\<lparr>dev_offset := offset\<rparr> else dev)))"

definition SEEK_SET :: int where "SEEK_SET = 0"
definition SEEK_CUR :: int where "SEEK_CUR = 1"
definition SEEK_END :: int where "SEEK_END = 2"

text \<open>
  The target of a seek over an area of \<open>area\<close> bytes from position \<open>cur\<close>; \<open>None\<close> is an
  unknown whence. The comparisons with the unsigned size are unsigned, the sums are
  assigned to an \<open>int\<close>.
\<close>

definition seek_target :: "int \<Rightarrow> int \<Rightarrow> int \<Rightarrow> int \<Rightarrow> int option" where
  "seek_target area cur offset whenence =
     (if whenence = SEEK_SET then
        Some (if to_uint32 offset \<ge> area then to_uint32 (area - 1)
              else if offset \<ge> 0 then offset else cur)
      else if whenence = SEEK_CUR then
        let new_addr = to_int32 (cur + offset)
        in Some (if new_addr < 0 then 0
                 else if new_addr \<ge> area then to_uint32 (area - 1) else new_addr)
      else if whenence = SEEK_END then
        let new_addr = to_int32 (to_int32 area + offset - 1)
        in Some (if new_addr < 0 then 0 else if offset \<le> 0 then new_addr else cur)
      else None)"

definition alislsto_lseek :: "alislsto_dev option \<Rightarrow> int \<Rightarrow> int \<Rightarrow> (int \<times> alislsto_dev option) option" where
  "alislsto_lseek handle offset whenence =
     (case handle of
        None \<Rightarrow> Some (STO_ERR_INVALIDHANDLE, None)
      | Some dev \<Rightarrow>
          if dev_handle dev = STO_INVALID_HANDLE then Some (STO_ERR_INVALIDHANDLE, Some dev)
          else if whenence \<noteq> SEEK_SET \<and> whenence \<noteq> SEEK_CUR \<and> whenence \<noteq> SEEK_END then Some (-1, Some dev)
          else do {
            info \<leftarrow> deref (dev_info dev);
            target \<leftarrow> seek_target (info_size info) (dev_offset dev) offset whenence;
            Some (to_int32 target, Some (dev\<lparr>dev_offset := target\<rparr>)) })"

definition alislsto_lseek_logic :: "alislsto_dev option \<Rightarrow> int \<Rightarrow> int \<Rightarrow> (int \<times> alislsto_dev option) option" where
  "alislsto_lseek_logic handle offset whenence =
     (case handle of
        None \<Rightarrow> Some (STO_ERR_INVALIDHANDLE, None)
      | Some dev \<Rightarrow>
          if dev_handle dev = STO_INVALID_HANDLE then Some (STO_ERR_INVALIDHANDLE, Some dev)
          else do {
            (r, l) \<leftarrow> alislsto_get_logic_addr handle (dev_offset dev);
            case l of
              None \<Rightarrow> Some (-1, Some dev)
            | Some addr_logic \<Rightarrow>
                if whenence \<noteq> SEEK_SET \<and> whenence \<noteq> SEEK_CUR \<and> whenence \<noteq> SEEK_END then Some (-1, Some dev)
                else do {
                  logic \<leftarrow> deref (dev_info_logic dev);
                  target \<leftarrow> seek_target (info_size logic) addr_logic offset whenence;
                  (r', p) \<leftarrow> alislsto_get_phy_addr handle target;
                  case p of
                    None \<Rightarrow> Some (-1, Some dev)
                  | Some addr_phy \<Rightarrow> Some (to_int32 target, Some (dev\<lparr>dev_offset := addr_phy\<rparr>)) } })"

text \<open>\<open>alislsto_lseek_ext\<close> seeks inside an area of the layout map; \<open>STO_PMI\<close> is area 0.\<close>

definition alislsto_lseek_ext :: "alislsto_dev option \<Rightarrow> nat \<Rightarrow> int \<Rightarrow> (retcode \<times> alislsto_dev option) option" where
  "alislsto_lseek_ext handle idx offset =
     (case handle of
        None \<Rightarrow> Some (STO_ERR_INVALIDHANDLE, None)
      | Some dev \<Rightarrow>
          if \<not> dev_pmi dev then Some (STO_ERR_DRIVER, Some dev)
          else if dev_handle dev = STO_INVALID_HANDLE then Some (STO_ERR_INVALIDHANDLE, Some dev)
          else case dev_attr dev of
            None \<Rightarrow> Some (STO_ERR_NOLAYOUTMAP, Some dev)
          | Some rows \<Rightarrow>
              if length rows \<le> idx then None
              else do {
                info \<leftarrow> deref (dev_info dev);
                let row = rows ! idx;
                if smap_size row \<noteq> 0 \<and> offset > smap_size row \<or> smap_offset row + offset > info_size info
                then Some (STO_ERR_OVERFLOW, Some dev)
                else Some (STO_ERR_NONE, Some (dev\<lparr>dev_offset := smap_offset row + offset,
                       dev_margin := (if idx = 0 then info_size info
                                      else smap_offset row + smap_size row)\<rparr>)) })"

datatype alislsto_partattr = STO_PART_OFFSET | STO_PART_SIZE

definition alislsto_tell_ext :: "alislsto_dev option \<Rightarrow> nat \<Rightarrow> alislsto_partattr \<Rightarrow> int option" where
  "alislsto_tell_ext handle idx attr =
     (case handle of
        None \<Rightarrow> Some STO_ERR_INVALIDHANDLE
      | Some dev \<Rightarrow>
          if \<not> dev_pmi dev then Some STO_ERR_DRIVER
          else case dev_attr dev of
            None \<Rightarrow> None
          | Some rows \<Rightarrow>
              if length rows \<le> idx then None
              else Some (case attr of STO_PART_SIZE \<Rightarrow> smap_size (rows ! idx)
                         | STO_PART_OFFSET \<Rightarrow> to_uint32 (smap_offset (rows ! idx))))"

subsection \<open>Well-formed descriptors\<close>

definition bad_block :: "u8 list \<Rightarrow> nat \<Rightarrow> bool" where
  "bad_block m b = bit (m ! (b div 8)) (b mod 8)"

definition blocks_of :: "mtd_info \<Rightarrow> nat" where
  "blocks_of info = nat (info_size info div info_erasesize info)"

definition good_blocks :: "u8 list \<Rightarrow> nat \<Rightarrow> nat list" where
  "good_blocks m n = filter (\<lambda>b. \<not> bad_block m b) [0..<n]"

definition info_ok :: "mtd_info \<Rightarrow> bool" where
  "info_ok info \<longleftrightarrow> 0 < info_erasesize info \<and> 0 \<le> info_size info \<and> info_size info < 2 ^ 32 \<and>
     info_size info mod info_erasesize info = 0"

text \<open>
  The descriptor of an open device: whole blocks, a bitmap that covers them, a bad block
  count that counts the bitmap, and a logical size of the good blocks.
\<close>

definition dev_ok :: "alislsto_dev \<Rightarrow> bool" where
  "dev_ok dev =
     (case dev_info dev of
        Valid info \<Rightarrow>
          info_ok info \<and>
          (if info_type info = MTD_NANDFLASH then
             case dev_bad_map dev of
               None \<Rightarrow> False
             | Some m \<Rightarrow>
                 blocks_of info \<le> 8 * length m \<and>
                 dev_bad_cnt dev = int (blocks_of info) - int (length (good_blocks m (blocks_of info)))
           else dev_bad_cnt dev = 0) \<and>
          dev_info_logic dev =
            Valid (info\<lparr>info_size := info_size info - dev_bad_cnt dev * info_erasesize info\<rparr>)
      | _ \<Rightarrow> False)"

text \<open>The physical sizes and the usable addresses of a device.\<close>

definition dev_psize :: "alislsto_dev \<Rightarrow> int" where
  "dev_psize dev = (case dev_info dev of Valid info \<Rightarrow> info_size info | _ \<Rightarrow> 0)"

definition dev_lsize :: "alislsto_dev \<Rightarrow> int" where
  "dev_lsize dev = (case dev_info_logic dev of Valid info \<Rightarrow> info_size info | _ \<Rightarrow> 0)"

definition dev_usable :: "alislsto_dev \<Rightarrow> int \<Rightarrow> bool" where
  "dev_usable dev p =
     (case (dev_info dev, dev_bad_map dev) of
        (Valid info, Some m) \<Rightarrow>
          info_type info \<noteq> MTD_NANDFLASH \<or> \<not> bad_block m (nat (p div info_erasesize info))
      | _ \<Rightarrow> True)"

subsection \<open>The bitmap\<close>

lemma bitarray_get_index_Some:
  "idx div 8 < length m \<Longrightarrow> \<exists>v. bitarray_get_index (Some m) idx = Some v \<and> (v = 0 \<longleftrightarrow> \<not> bad_block m idx)"
proof -
  have "(w AND push_bit i 1 = 0) = (\<not> bit w i)" if "i < 8" for w :: u8 and i
    using and_exp_eq_0_iff_not_bit [of w i] by (simp add: push_bit_eq_mult)
  moreover assume "idx div 8 < length m"
  ultimately show ?thesis
    by (simp add: bitarray_get_index_def bad_block_def uint_0_iff)
qed

lemma bad_block_set_index:
  assumes "idx div 8 < length m"
  shows "\<exists>m'. bitarray_set_index (Some m) idx = Some (Some m') \<and> length m' = length m \<and>
    (\<forall>b. b div 8 < length m \<longrightarrow> bad_block m' b = (bad_block m b \<or> b = idx))"
proof -
  let ?m = "m[idx div 8 := (m ! (idx div 8)) OR push_bit (idx mod 8) 1]"
  have "bad_block ?m b = (bad_block m b \<or> b = idx)" if "b div 8 < length m" for b
  proof (cases "b div 8 = idx div 8")
    case True
    then have "b = idx \<longleftrightarrow> b mod 8 = idx mod 8"
      by (metis div_mult_mod_eq)
    with True assms show ?thesis
      by (auto simp: bad_block_def bit_simps bit_1_iff)
  next
    case False
    then show ?thesis
      by (auto simp: bad_block_def)
  qed
  with assms show ?thesis
    by (auto simp: bitarray_set_index_def)
qed

subsection \<open>The scans compute select and rank\<close>

lemma good_blocks_0 [simp]: "good_blocks m 0 = []"
  by (simp add: good_blocks_def)

lemma phy_scan_spec:
  assumes "n \<le> 8 * length m"
  shows "cnt \<le> n \<Longrightarrow> block_idx = length (good_blocks m cnt) \<Longrightarrow> int block_idx \<le> l \<Longrightarrow>
    phy_scan (Some m) n l cnt block_idx =
      Some (if l < int (length (good_blocks m n)) then (good_blocks m n ! nat l, nat l)
            else (n, length (good_blocks m n)))"
proof (induction "n - cnt" arbitrary: cnt block_idx)
  case 0
  then show ?case by (simp add: phy_scan.simps)
next
  case (Suc k)
  then have cnt: "cnt < n" "cnt div 8 < length m"
    using assms by auto
  obtain v where v: "bitarray_get_index (Some m) cnt = Some v" "v = 0 \<longleftrightarrow> \<not> bad_block m cnt"
    using bitarray_get_index_Some [OF cnt(2)] by blast
  have IH: "phy_scan (Some m) n l (Suc cnt) i = Some (if l < int (length (good_blocks m n))
      then (good_blocks m n ! nat l, nat l) else (n, length (good_blocks m n)))"
    if "i = length (good_blocks m (Suc cnt))" "int i \<le> l" for i
    using Suc.hyps(1) [of "Suc cnt" i] Suc.hyps(2) cnt that by simp
  show ?case
  proof (cases "bad_block m cnt")
    case True
    then show ?thesis
      using IH [of block_idx] Suc.prems cnt v
      by (simp add: phy_scan.simps [of _ _ _ cnt] good_blocks_def)
  next
    case False
    note rank = filter_upt_rank [where P = "\<lambda>b. \<not> bad_block m b", OF cnt(1)]
    show ?thesis
      using IH [of "Suc block_idx"] Suc.prems cnt v False rank
      by (auto simp: phy_scan.simps [of _ _ _ cnt] good_blocks_def)
  qed
qed

lemma logic_scan_spec:
  "n \<le> 8 * length m \<Longrightarrow> cnt \<le> n \<Longrightarrow> block_idx = length (good_blocks m cnt) \<Longrightarrow>
   logic_scan (Some m) (int n) cnt block_idx = Some (length (good_blocks m n))"
proof (induction "n - cnt" arbitrary: cnt block_idx)
  case 0
  then show ?case by (simp add: logic_scan.simps)
next
  case (Suc k)
  then have cnt: "cnt < n" "cnt div 8 < length m"
    by auto
  obtain v where v: "bitarray_get_index (Some m) cnt = Some v" "v = 0 \<longleftrightarrow> \<not> bad_block m cnt"
    using bitarray_get_index_Some [OF cnt(2)] by blast
  have "logic_scan (Some m) (int n) (Suc cnt) (if v = 0 then Suc block_idx else block_idx) =
      Some (length (good_blocks m n))"
    by (rule Suc.hyps(1)) (use Suc.prems Suc.hyps(2) cnt v(2) in \<open>auto simp: good_blocks_def\<close>)
  with cnt v show ?case
    by (simp add: logic_scan.simps [of _ _ cnt])
qed

subsection \<open>Addresses of a well-formed device\<close>

lemma dev_ok_NAND:
  assumes "dev_ok dev" and "dev_bad_cnt dev \<noteq> 0"
  obtains info m where "dev_info dev = Valid info" "dev_bad_map dev = Some m" "info_ok info"
    "info_type info = MTD_NANDFLASH" "blocks_of info \<le> 8 * length m"
    "dev_lsize dev = int (length (good_blocks m (blocks_of info))) * info_erasesize info"
    "info_size info = int (blocks_of info) * info_erasesize info"
proof -
  from assms obtain info m where i: "dev_info dev = Valid info" "dev_bad_map dev = Some m"
    "info_ok info" "info_type info = MTD_NANDFLASH" "blocks_of info \<le> 8 * length m"
    "dev_bad_cnt dev = int (blocks_of info) - int (length (good_blocks m (blocks_of info)))"
    "dev_info_logic dev = Valid (info\<lparr>info_size := info_size info - dev_bad_cnt dev * info_erasesize info\<rparr>)"
    by (auto simp: dev_ok_def split: ptr.splits if_splits option.splits)
  have s: "info_size info = int (blocks_of info) * info_erasesize info"
    using i(3) by (auto simp: info_ok_def blocks_of_def pos_imp_zdiv_nonneg_iff)
  then have "dev_lsize dev =
      (int (blocks_of info) - dev_bad_cnt dev) * info_erasesize info"
    using i(7) by (simp add: dev_lsize_def algebra_simps)
  then have "dev_lsize dev = int (length (good_blocks m (blocks_of info))) * info_erasesize info"
    using i(6) by simp
  with i s that show ?thesis by blast
qed

lemma phy_addr_good:
  assumes "dev_info dev = Valid info" "dev_bad_map dev = Some m" "info_ok info"
    "info_type info = MTD_NANDFLASH" "blocks_of info \<le> 8 * length m" "dev_bad_cnt dev \<noteq> 0"
    "info_size info = int (blocks_of info) * info_erasesize info"
    "length (good_blocks m (blocks_of info)) < blocks_of info"
    "0 \<le> x" "x < int (length (good_blocks m (blocks_of info))) * info_erasesize info"
  shows "alislsto_get_phy_addr (Some dev) x = Some (0, Some
    (int (good_blocks m (blocks_of info) ! nat (x div info_erasesize info)) * info_erasesize info
      + x mod info_erasesize info))"
proof -
  let ?e = "info_erasesize info" and ?g = "good_blocks m (blocks_of info)"
  have e: "0 < ?e" "info_size info < 2 ^ 32"
    using assms(3) by (auto simp: info_ok_def)
  have l: "nat (x div ?e) < length ?g"
    using div_less_blocks(1) [OF e(1) assms(9,10)] .
  have sx: "x \<le> info_size info"
    using assms(7,8,10) e(1) mult_right_mono [of "int (length ?g)" "int (blocks_of info)" ?e] by linarith
  have b: "?g ! nat (x div ?e) < blocks_of info"
    using filter_upt_select(1) l unfolding good_blocks_def .
  note sd = sdiv_nonneg [OF assms(9) e(1)] smod_nonneg [OF assms(9) e(1)]
  have xd: "0 \<le> x div ?e" "x div ?e < 2 ^ 32"
    using e sx assms(9) div_le_self [OF assms(9) e(1)] by (auto simp: pos_imp_zdiv_nonneg_iff)
  have "phy_scan (Some m) (blocks_of info) (x div ?e) 0 0 = Some (?g ! nat (x div ?e), nat (x div ?e))"
    using phy_scan_spec [OF assms(5), of 0 0 "x div ?e"] l xd(1) by (simp add: nat_less_iff)
  moreover have "to_uint32 (int (?g ! nat (x div ?e)) * ?e) = int (?g ! nat (x div ?e)) * ?e"
  proof (rule to_uint32_id)
    show "0 \<le> int (?g ! nat (x div ?e)) * ?e"
      using e(1) by simp
    show "int (?g ! nat (x div ?e)) * ?e < 2 ^ 32"
      using block_addr_bound [OF e(1) b, of 0] e assms(7) by linarith
  qed
  ultimately show ?thesis
    using assms(1-6,8) l sx xd e
    by (simp add: alislsto_get_phy_addr_def sd to_uint32_id flip: blocks_of_def)
qed

lemma logic_addr_value:
  assumes "dev_info dev = Valid info" "dev_bad_map dev = Some m" "info_ok info"
    "info_type info = MTD_NANDFLASH" "blocks_of info \<le> 8 * length m" "dev_bad_cnt dev \<noteq> 0"
    "info_size info = int (blocks_of info) * info_erasesize info"
    "0 \<le> p" "p < info_size info"
  shows "alislsto_get_logic_addr (Some dev) p = Some (0, Some
    (int (length (good_blocks m (nat (p div info_erasesize info)))) * info_erasesize info
      + p mod info_erasesize info))"
proof -
  let ?e = "info_erasesize info"
  let ?b = "nat (p div ?e)"
  have e: "0 < ?e" "info_size info < 2 ^ 32"
    using assms(3) by (auto simp: info_ok_def)
  have b: "?b < blocks_of info" "p = int ?b * ?e + p mod ?e"
    using div_less_blocks [OF e(1) assms(8), of "blocks_of info"] assms(7,9) by auto
  note sd = sdiv_nonneg [OF assms(8) e(1)] smod_nonneg [OF assms(8) e(1)]
  have pd: "0 \<le> p div ?e" "p div ?e < 2 ^ 32"
    using e assms(8,9) div_le_self [OF assms(8) e(1)] by (auto simp: pos_imp_zdiv_nonneg_iff)
  have g: "length (good_blocks m ?b) \<le> ?b"
    using length_filter_le [of "\<lambda>b. \<not> bad_block m b" "[0..<?b]"] by (simp add: good_blocks_def)
  then have "int (length (good_blocks m ?b)) * ?e \<le> int ?b * ?e"
    using e(1) by (intro mult_right_mono) auto
  also have "\<dots> < 2 ^ 32"
    using block_addr_bound [OF e(1) b(1), of 0] e assms(7) by linarith
  finally have u: "to_uint32 (int (length (good_blocks m ?b)) * ?e) = int (length (good_blocks m ?b)) * ?e"
    using e(1) by (intro to_uint32_id) auto
  have "logic_scan (Some m) (p div ?e) 0 0 = Some (length (good_blocks m ?b))"
    using logic_scan_spec [of ?b m 0 0] assms(5) b(1) pd(1) by simp
  with assms u pd e show ?thesis
    by (simp add: alislsto_get_logic_addr_def sd to_uint32_id)
qed

text \<open>A logical address past the good blocks is not refused: the scan runs off the end.\<close>

lemma phy_addr_past_end:
  assumes "dev_info dev = Valid info" "dev_bad_map dev = Some m" "info_ok info"
    "info_type info = MTD_NANDFLASH" "blocks_of info \<le> 8 * length m" "dev_bad_cnt dev \<noteq> 0"
    "info_size info = int (blocks_of info) * info_erasesize info"
    "length (good_blocks m (blocks_of info)) < blocks_of info"
    "int (length (good_blocks m (blocks_of info))) * info_erasesize info \<le> x" "x \<le> info_size info"
  shows "alislsto_get_phy_addr (Some dev) x =
    Some (0, Some (info_size info + x mod info_erasesize info))"
proof -
  let ?e = "info_erasesize info" and ?g = "good_blocks m (blocks_of info)"
  have e: "0 < ?e" "info_size info < 2 ^ 32" "0 \<le> info_size info"
    using assms(3) by (auto simp: info_ok_def)
  have x: "0 \<le> x"
    using assms(9) e(1) mult_nonneg_nonneg [of "int (length ?g)" ?e] by linarith
  note sd = sdiv_nonneg [OF x e(1)] smod_nonneg [OF x e(1)]
  have xd: "0 \<le> x div ?e" "x div ?e < 2 ^ 32" "int (length ?g) \<le> x div ?e"
    using e x assms(9,10) div_le_self [OF x e(1)] zdiv_mono1 [OF assms(9) e(1)]
    by (auto simp: pos_imp_zdiv_nonneg_iff)
  have "phy_scan (Some m) (blocks_of info) (x div ?e) 0 0 = Some (blocks_of info, length ?g)"
    using phy_scan_spec [OF assms(5), of 0 0 "x div ?e"] xd by simp
  moreover have "to_uint32 (int (blocks_of info) * ?e) = info_size info"
    using e assms(7) to_uint32_id [of "info_size info"] by simp
  ultimately show ?thesis
    using assms(1-6,8,10) xd e
    by (simp add: alislsto_get_phy_addr_def sd to_uint32_id flip: blocks_of_def)
qed

subsection \<open>The contract of an address translation\<close>

text \<open>
  What the seek and the erase operations rely on: the logical addresses of a device are
  mapped in order onto its usable physical addresses, and back.
\<close>

locale address_map =
  fixes ok :: "'d \<Rightarrow> bool"
    and lsize :: "'d \<Rightarrow> int"
    and psize :: "'d \<Rightarrow> int"
    and usable :: "'d \<Rightarrow> int \<Rightarrow> bool"
    and phy :: "'d \<Rightarrow> int \<Rightarrow> int option"
    and logic :: "'d \<Rightarrow> int \<Rightarrow> int option"
  assumes phy_in: "ok d \<Longrightarrow> 0 \<le> x \<Longrightarrow> x < lsize d \<Longrightarrow>
      \<exists>p. phy d x = Some p \<and> 0 \<le> p \<and> p < psize d \<and> usable d p \<and> logic d p = Some x"
    and logic_in: "ok d \<Longrightarrow> 0 \<le> p \<Longrightarrow> p < psize d \<Longrightarrow> usable d p \<Longrightarrow>
      \<exists>x. logic d p = Some x \<and> 0 \<le> x \<and> x < lsize d \<and> phy d x = Some p"
    and logic_mono: "ok d \<Longrightarrow> 0 \<le> p \<Longrightarrow> p < q \<Longrightarrow> q < psize d \<Longrightarrow> usable d p \<Longrightarrow> usable d q \<Longrightarrow>
      the (logic d p) < the (logic d q)"
begin

lemma phy_bij:
  assumes "ok d"
  shows "bij_betw (\<lambda>x. the (phy d x)) {x. 0 \<le> x \<and> x < lsize d} {p. 0 \<le> p \<and> p < psize d \<and> usable d p}"
proof (rule bij_betw_byWitness [where f' = "\<lambda>p. the (logic d p)"])
  show "\<forall>x\<in>{x. 0 \<le> x \<and> x < lsize d}. the (logic d (the (phy d x))) = x"
    using phy_in [OF assms] by fastforce
  show "\<forall>p\<in>{p. 0 \<le> p \<and> p < psize d \<and> usable d p}. the (phy d (the (logic d p))) = p"
    using logic_in [OF assms] by fastforce
  show "(\<lambda>x. the (phy d x)) ` {x. 0 \<le> x \<and> x < lsize d} \<subseteq> {p. 0 \<le> p \<and> p < psize d \<and> usable d p}"
    using phy_in [OF assms] by fastforce
  show "(\<lambda>p. the (logic d p)) ` {p. 0 \<le> p \<and> p < psize d \<and> usable d p} \<subseteq> {x. 0 \<le> x \<and> x < lsize d}"
    using logic_in [OF assms] by fastforce
qed

lemma phy_mono:
  assumes "ok d" "0 \<le> x" "x < y" "y < lsize d" "phy d x = Some p" "phy d y = Some q"
  shows "p < q"
proof (rule ccontr)
  assume n: "\<not> p < q"
  have p: "0 \<le> p" "p < psize d" "usable d p" "logic d p = Some x"
    using phy_in [OF assms(1,2)] assms by auto
  have q: "0 \<le> q" "q < psize d" "usable d q" "logic d q = Some y"
    using phy_in [OF assms(1), of y] assms by auto
  show False
  proof (cases "p = q")
    case True
    with p q assms(3) show False by simp
  next
    case False
    with n have "the (logic d q) < the (logic d p)"
      by (intro logic_mono assms(1)) (use p q in auto)
    with p q assms(3) show False by simp
  qed
qed

end

definition phy_of :: "alislsto_dev \<Rightarrow> int \<Rightarrow> int option" where
  "phy_of dev x =
     (case alislsto_get_phy_addr (Some dev) x of
        Some (r, Some p) \<Rightarrow> if r = 0 then Some p else None
      | _ \<Rightarrow> None)"

definition logic_of :: "alislsto_dev \<Rightarrow> int \<Rightarrow> int option" where
  "logic_of dev p =
     (case alislsto_get_logic_addr (Some dev) p of
        Some (r, Some x) \<Rightarrow> if r = 0 then Some x else None
      | _ \<Rightarrow> None)"

lemma phy_of_iff: "phy_of dev x = Some p \<longleftrightarrow> alislsto_get_phy_addr (Some dev) x = Some (0, Some p)"
  by (auto simp: phy_of_def split: option.splits)

lemma logic_of_iff: "logic_of dev p = Some x \<longleftrightarrow> alislsto_get_logic_addr (Some dev) p = Some (0, Some x)"
  by (auto simp: logic_of_def split: option.splits)

lemma dev_ok_plain:
  assumes "dev_ok dev" and "dev_bad_cnt dev = 0"
  shows "dev_lsize dev = dev_psize dev"
    and "0 \<le> x \<Longrightarrow> x < dev_psize dev \<Longrightarrow>
      alislsto_get_phy_addr (Some dev) x = Some (0, Some x) \<and>
      alislsto_get_logic_addr (Some dev) x = Some (0, Some x) \<and> dev_usable dev x"
proof -
  obtain info where i: "dev_info dev = Valid info" "info_ok info" "dev_info_logic dev = Valid info"
    using assms by (auto simp: dev_ok_def split: ptr.splits)
  show "dev_lsize dev = dev_psize dev"
    using i by (simp add: dev_lsize_def dev_psize_def)
  assume x: "0 \<le> x" "x < dev_psize dev"
  have e: "0 < info_erasesize info" "info_size info = int (blocks_of info) * info_erasesize info"
    using i by (auto simp: info_ok_def blocks_of_def pos_imp_zdiv_nonneg_iff)
  have "dev_usable dev x"
  proof (cases "info_type info = MTD_NANDFLASH")
    case True
    then obtain m where m: "dev_bad_map dev = Some m"
      "length (good_blocks m (blocks_of info)) = blocks_of info"
      using assms i by (auto simp: dev_ok_def split: option.splits)
    have "nat (x div info_erasesize info) < blocks_of info"
      using div_less_blocks(1) [OF e(1) x(1)] x(2) e(2) i(1) by (simp add: dev_psize_def)
    then have "\<not> bad_block m (nat (x div info_erasesize info))"
      using m(2) length_filter_less [of "nat (x div info_erasesize info)" "[0..<blocks_of info]"]
      by (fastforce simp: good_blocks_def)
    with i m show ?thesis by (simp add: dev_usable_def)
  qed (auto simp: dev_usable_def i split: option.splits)
  with i x assms(2) show "alislsto_get_phy_addr (Some dev) x = Some (0, Some x) \<and>
      alislsto_get_logic_addr (Some dev) x = Some (0, Some x) \<and> dev_usable dev x"
    by (simp add: alislsto_get_phy_addr_def alislsto_get_logic_addr_def dev_psize_def)
qed

lemma dev_ok_lossy:
  assumes "dev_ok dev" and "dev_bad_cnt dev \<noteq> 0"
  obtains info m where "dev_info dev = Valid info" "dev_bad_map dev = Some m" "info_ok info"
    "info_type info = MTD_NANDFLASH" "blocks_of info \<le> 8 * length m"
    "info_size info = int (blocks_of info) * info_erasesize info"
    "length (good_blocks m (blocks_of info)) < blocks_of info"
    "dev_lsize dev = int (length (good_blocks m (blocks_of info))) * info_erasesize info"
    "dev_psize dev = info_size info"
    "\<And>p. dev_usable dev p = (\<not> bad_block m (nat (p div info_erasesize info)))"
proof -
  obtain info m where i: "dev_info dev = Valid info" "dev_bad_map dev = Some m" "info_ok info"
    "info_type info = MTD_NANDFLASH" "blocks_of info \<le> 8 * length m"
    "dev_lsize dev = int (length (good_blocks m (blocks_of info))) * info_erasesize info"
    "info_size info = int (blocks_of info) * info_erasesize info"
    using dev_ok_NAND [OF assms] by blast
  moreover have "length (good_blocks m (blocks_of info)) < blocks_of info"
    using assms i length_filter_le [of "\<lambda>b. \<not> bad_block m b" "[0..<blocks_of info]"]
    by (auto simp: dev_ok_def good_blocks_def)
  ultimately show ?thesis
    using that by (simp add: dev_psize_def dev_usable_def)
qed

lemma phy_of_in:
  assumes "dev_ok d" "0 \<le> x" "x < dev_lsize d"
  shows "\<exists>p. phy_of d x = Some p \<and> 0 \<le> p \<and> p < dev_psize d \<and> dev_usable d p \<and> logic_of d p = Some x"
proof (cases "dev_bad_cnt d = 0")
  case True
  then show ?thesis
    using dev_ok_plain [OF assms(1) True] assms by (simp add: phy_of_def logic_of_def)
next
  case False
  from dev_ok_lossy [OF assms(1) False] obtain info m where i: "dev_info d = Valid info"
    "dev_bad_map d = Some m" "info_ok info" "info_type info = MTD_NANDFLASH"
    "blocks_of info \<le> 8 * length m"
    "info_size info = int (blocks_of info) * info_erasesize info"
    "length (good_blocks m (blocks_of info)) < blocks_of info"
    "dev_lsize d = int (length (good_blocks m (blocks_of info))) * info_erasesize info"
    "dev_psize d = info_size info"
    "\<And>p. dev_usable d p = (\<not> bad_block m (nat (p div info_erasesize info)))" by blast
  let ?e = "info_erasesize info" and ?g = "good_blocks m (blocks_of info)"
  let ?l = "nat (x div ?e)"
  let ?p = "int (?g ! ?l) * ?e + x mod ?e"
  have e: "0 < ?e" using i(3) by (simp add: info_ok_def)
  have l: "?l < length ?g" "x = int ?l * ?e + x mod ?e" "0 \<le> x mod ?e" "x mod ?e < ?e"
    using div_less_blocks [OF e assms(2), of "length ?g"] assms(3) i(8) by simp_all
  note sel = filter_upt_select [OF l(1) [unfolded good_blocks_def], folded good_blocks_def]
  have p: "?p div ?e = int (?g ! ?l)" "?p mod ?e = x mod ?e" "0 \<le> ?p" "?p < info_size info"
    using e l sel(1) block_addr_bound [OF e sel(1) l(3,4)] i(6) by simp_all
  have "phy_of d x = Some ?p"
    using phy_addr_good [OF i(1-5) False i(6,7) assms(2)] assms(3) i(8) by (simp add: phy_of_def)
  moreover have "logic_of d ?p = Some x"
    using logic_addr_value [OF i(1-5) False i(6) p(3,4)] p(1,2) sel(3) l(2)
    by (simp add: logic_of_def)
  ultimately show ?thesis
    using p sel(2) i(9,10) by simp
qed

lemma logic_of_in:
  assumes "dev_ok d" "0 \<le> p" "p < dev_psize d" "dev_usable d p"
  shows "\<exists>x. logic_of d p = Some x \<and> 0 \<le> x \<and> x < dev_lsize d \<and> phy_of d x = Some p"
proof (cases "dev_bad_cnt d = 0")
  case True
  then show ?thesis
    using dev_ok_plain [OF assms(1) True] assms by (simp add: phy_of_def logic_of_def)
next
  case False
  from dev_ok_lossy [OF assms(1) False] obtain info m where i: "dev_info d = Valid info"
    "dev_bad_map d = Some m" "info_ok info" "info_type info = MTD_NANDFLASH"
    "blocks_of info \<le> 8 * length m"
    "info_size info = int (blocks_of info) * info_erasesize info"
    "length (good_blocks m (blocks_of info)) < blocks_of info"
    "dev_lsize d = int (length (good_blocks m (blocks_of info))) * info_erasesize info"
    "dev_psize d = info_size info"
    "\<And>p. dev_usable d p = (\<not> bad_block m (nat (p div info_erasesize info)))" by blast
  let ?e = "info_erasesize info" and ?g = "good_blocks m (blocks_of info)"
  let ?b = "nat (p div ?e)"
  let ?x = "int (length (good_blocks m ?b)) * ?e + p mod ?e"
  have e: "0 < ?e" using i(3) by (simp add: info_ok_def)
  have b: "?b < blocks_of info" "p = int ?b * ?e + p mod ?e" "0 \<le> p mod ?e" "p mod ?e < ?e"
    using div_less_blocks [OF e assms(2), of "blocks_of info"] assms(3) i(6,9) by simp_all
  have good: "\<not> bad_block m ?b"
    using assms(4) i(10) by simp
  note rank = filter_upt_rank [where P = "\<lambda>b. \<not> bad_block m b", OF b(1) good, folded good_blocks_def]
  have x: "?x div ?e = int (length (good_blocks m ?b))" "?x mod ?e = p mod ?e" "0 \<le> ?x"
    "?x < int (length ?g) * ?e"
    using e b rank(1) block_addr_bound [OF e rank(1) b(3,4)] by simp_all
  have "logic_of d p = Some ?x"
    using logic_addr_value [OF i(1-5) False i(6) assms(2)] assms(3) i(9) by (simp add: logic_of_def)
  moreover have "phy_of d ?x = Some p"
    using phy_addr_good [OF i(1-5) False i(6,7) x(3,4)] x(1,2) rank(2) b(2) by (simp add: phy_of_def)
  ultimately show ?thesis
    using x i(8) by simp
qed

lemma length_good_blocks_mono:
  "a \<le> b \<Longrightarrow> length (good_blocks m a) \<le> length (good_blocks m b)"
  using filter_upt_prefix [of a b "\<lambda>b. \<not> bad_block m b"] by (simp add: good_blocks_def)

lemma logic_of_mono:
  assumes "dev_ok d" "0 \<le> p" "p < q" "q < dev_psize d" "dev_usable d p" "dev_usable d q"
  shows "the (logic_of d p) < the (logic_of d q)"
proof (cases "dev_bad_cnt d = 0")
  case True
  then show ?thesis
    using dev_ok_plain [OF assms(1) True] assms by (simp add: logic_of_def)
next
  case False
  from dev_ok_lossy [OF assms(1) False] obtain info m where i: "dev_info d = Valid info"
    "dev_bad_map d = Some m" "info_ok info" "info_type info = MTD_NANDFLASH"
    "blocks_of info \<le> 8 * length m"
    "info_size info = int (blocks_of info) * info_erasesize info"
    "dev_psize d = info_size info"
    "\<And>p. dev_usable d p = (\<not> bad_block m (nat (p div info_erasesize info)))" by blast
  let ?e = "info_erasesize info"
  let ?r = "\<lambda>p. length (good_blocks m (nat (p div ?e)))"
  have e: "0 < ?e" using i(3) by (simp add: info_ok_def)
  have v: "the (logic_of d a) = int (?r a) * ?e + a mod ?e" if "0 \<le> a" "a < info_size info" for a
    using logic_addr_value [OF i(1-5) False i(6) that] by (simp add: logic_of_def)
  have m: "0 \<le> p mod ?e" "p mod ?e < ?e" "0 \<le> q mod ?e"
    using e by simp_all
  have pq: "p div ?e \<le> q div ?e" "0 \<le> p div ?e"
    using zdiv_mono1 [of p q] e assms(2,3) by (simp_all add: pos_imp_zdiv_nonneg_iff)
  have "int (?r p) * ?e + p mod ?e < int (?r q) * ?e + q mod ?e"
  proof (cases "p div ?e = q div ?e")
    case True
    then have "p div ?e * ?e = q div ?e * ?e"
      by simp
    then have "p mod ?e < q mod ?e"
      using assms(3) div_mult_mod_eq [of p ?e] div_mult_mod_eq [of q ?e] by linarith
    with True show ?thesis by simp
  next
    case False
    then have "Suc (nat (p div ?e)) \<le> nat (q div ?e)"
      using pq by linarith
    then have "?r p < ?r q"
      using length_good_blocks_mono [of "Suc (nat (p div ?e))" "nat (q div ?e)" m] assms(5) i(8)
      by (simp add: good_blocks_def)
    then show ?thesis
      using block_addr_bound [OF e, of "?r p" "?r q" "p mod ?e"] m by linarith
  qed
  with v assms(2-4) i(7) show ?thesis by simp
qed

interpretation am: address_map dev_ok dev_lsize dev_psize dev_usable phy_of logic_of
  by unfold_locales (fact phy_of_in, fact logic_of_in, fact logic_of_mono)

subsection \<open>Address translation of an open device\<close>

text \<open>A NAND part of four 4-byte blocks whose block 1 is bad, used by the witnesses.\<close>

definition demo_info :: mtd_info where
  "demo_info = \<lparr>info_type = MTD_NANDFLASH, info_size = 16, info_erasesize = 4, info_writesize = 2\<rparr>"

definition demo_dev :: alislsto_dev where
  "demo_dev = \<lparr>dev_type = STO_TYPE_NAND, dev_name = None, dev_attr = None, dev_handle = 3,
     dev_info = Valid demo_info, dev_offset = 0, dev_maxpart = 0, dev_open_cnt = 1, dev_pmi = False,
     dev_margin = 0, dev_bad_cnt = 1, dev_bad_map = Some [2],
     dev_info_logic = Valid (demo_info\<lparr>info_size := 12\<rparr>), dev_erase_type = 0\<rparr>"

lemma demo_dev_ok: "dev_ok demo_dev"
  by code_simp

text \<open>
  (C25) On a well-formed device every logical address below the logical size is translated
  to an address of a good block, and translating that address back gives the logical
  address; conversely every address of a good block has a logical address that is
  translated back to it.
\<close>

theorem addr_roundtrip:
  assumes "dev_ok dev"
  shows "(0 \<le> x \<and> x < dev_lsize dev \<longrightarrow>
          (\<exists>p. alislsto_get_phy_addr (Some dev) x = Some (0, Some p) \<and> 0 \<le> p \<and> p < dev_psize dev \<and>
               dev_usable dev p \<and> alislsto_get_logic_addr (Some dev) p = Some (0, Some x))) \<and>
         (0 \<le> p \<and> p < dev_psize dev \<and> dev_usable dev p \<longrightarrow>
          (\<exists>y. alislsto_get_logic_addr (Some dev) p = Some (0, Some y) \<and> 0 \<le> y \<and> y < dev_lsize dev \<and>
               alislsto_get_phy_addr (Some dev) y = Some (0, Some p)))"
  using am.phy_in [OF assms, of x] am.logic_in [OF assms, of p] by (simp add: phy_of_iff logic_of_iff)

theorem addr_roundtrip_witness:
  "dev_ok demo_dev \<and> alislsto_get_phy_addr (Some demo_dev) 5 = Some (0, Some 9) \<and>
   (\<exists>p. alislsto_get_phy_addr (Some demo_dev) 5 = Some (0, Some p) \<and>
        dev_usable demo_dev p \<and> alislsto_get_logic_addr (Some demo_dev) p = Some (0, Some 5))"
proof -
  have "(0::int) \<le> 5 \<and> 5 < dev_lsize demo_dev"
    by code_simp
  moreover have "alislsto_get_phy_addr (Some demo_dev) 5 = Some (0, Some 9)"
    by code_simp
  ultimately show ?thesis
    using addr_roundtrip [OF demo_dev_ok, of 5] demo_dev_ok by blast
qed

text \<open>
  The translation of the logical addresses is an order-preserving bijection onto the
  addresses of the good blocks: no good byte is lost and none is used twice.
\<close>

lemma phy_addr_bijection:
  assumes "dev_ok dev"
  shows "bij_betw (\<lambda>x. the (phy_of dev x)) {x. 0 \<le> x \<and> x < dev_lsize dev}
           {p. 0 \<le> p \<and> p < dev_psize dev \<and> dev_usable dev p} \<and>
         (\<forall>x y. 0 \<le> x \<and> x < y \<and> y < dev_lsize dev \<longrightarrow> the (phy_of dev x) < the (phy_of dev y))"
proof -
  have "the (phy_of dev x) < the (phy_of dev y)" if "0 \<le> x" "x < y" "y < dev_lsize dev" for x y
    using am.phy_in [OF assms that(1)] am.phy_in [OF assms, of y] am.phy_mono [OF assms that] that
    by fastforce
  with am.phy_bij [OF assms] show ?thesis by blast
qed

text \<open>
  On a device with a bad block, a logical address at or past the logical size (up to
  the physical size) is not refused, although the comment of \<open>alislsto_get_phy_addr\<close>
  (case 5) says so: the call succeeds with an address past the end of the flash.
\<close>

lemma phy_addr_accepts_past_end:
  assumes "dev_ok dev" and "dev_bad_cnt dev \<noteq> 0"
    and "dev_lsize dev \<le> x" and "x \<le> dev_psize dev"
  shows "\<exists>p. alislsto_get_phy_addr (Some dev) x = Some (0, Some p) \<and> dev_psize dev \<le> p"
proof -
  from dev_ok_lossy [OF assms(1,2)] obtain info m where i: "dev_info dev = Valid info"
    "dev_bad_map dev = Some m" "info_ok info" "info_type info = MTD_NANDFLASH"
    "blocks_of info \<le> 8 * length m"
    "info_size info = int (blocks_of info) * info_erasesize info"
    "length (good_blocks m (blocks_of info)) < blocks_of info"
    "dev_lsize dev = int (length (good_blocks m (blocks_of info))) * info_erasesize info"
    "dev_psize dev = info_size info" by blast
  have "0 < info_erasesize info"
    using i(3) by (simp add: info_ok_def)
  with phy_addr_past_end [OF i(1-5) assms(2) i(6,7)] assms(3,4) i(8,9) show ?thesis
    by (intro exI [of _ "info_size info + x mod info_erasesize info"]) simp
qed

subsection \<open>The scan establishes the invariant\<close>

definition kbad :: "'k mtd_driver \<Rightarrow> 'k \<Rightarrow> int \<Rightarrow> nat \<Rightarrow> bool" where
  "kbad drv k e b \<longleftrightarrow> memgetbadblock drv k (int b * e) \<noteq> 0"

lemma bad_scan_spec:
  assumes "0 < info_erasesize info" "info_size info = int n * info_erasesize info"
  shows "n \<le> 8 * length m \<Longrightarrow> c \<le> n \<Longrightarrow>
    \<exists>m'. bad_scan drv k info (int c * info_erasesize info) c bc (Some m) =
           Some (bc + length (filter (kbad drv k (info_erasesize info)) [c..<n]), Some m') \<and>
         length m' = length m \<and>
         (\<forall>b<n. bad_block m' b = (bad_block m b \<or> c \<le> b \<and> kbad drv k (info_erasesize info) b))"
proof (induction "n - c" arbitrary: c bc m)
  case 0
  then show ?case
    using assms by (auto simp: bad_scan.simps)
next
  case (Suc j)
  let ?e = "info_erasesize info"
  have c: "c < n" "c div 8 < length m" "j = n - Suc c" "Suc c \<le> n"
    using Suc.hyps(2) Suc.prems by auto
  have upt: "[c..<n] = c # [Suc c..<n]"
    using c(1) by (simp add: upt_conv_Cons)
  have lt: "int c * ?e < info_size info" "int c * ?e + ?e = int (Suc c) * ?e"
    using assms c(1) by (simp_all add: algebra_simps)
  show ?case
  proof (cases "kbad drv k ?e c")
    case True
    obtain m1 where m1: "bitarray_set_index (Some m) c = Some (Some m1)" "length m1 = length m"
      "\<forall>b. b div 8 < length m \<longrightarrow> bad_block m1 b = (bad_block m b \<or> b = c)"
      using bad_block_set_index [OF c(2)] by blast
    obtain m' where m': "bad_scan drv k info (int (Suc c) * ?e) (Suc c) (Suc bc) (Some m1) =
        Some (Suc bc + length (filter (kbad drv k ?e) [Suc c..<n]), Some m')" "length m' = length m1"
      "\<forall>b<n. bad_block m' b = (bad_block m1 b \<or> Suc c \<le> b \<and> kbad drv k ?e b)"
      using Suc.hyps(1) [OF c(3) _ c(4), of m1 "Suc bc"] Suc.prems m1(2) by auto
    have "bad_block m' b = (bad_block m b \<or> c \<le> b \<and> kbad drv k ?e b)" if "b < n" for b
    proof -
      have "b div 8 < length m"
        using that Suc.prems(1) by auto
      with m'(3) m1(3) that True show ?thesis
        by (auto simp: Suc_le_eq le_less)
    qed
    moreover have "bad_scan drv k info (int c * ?e) c bc (Some m) =
        Some (bc + length (filter (kbad drv k ?e) [c..<n]), Some m')"
      using True lt assms(1) m1(1) m'(1) upt
      by (simp add: bad_scan.simps [of _ _ _ _ c] kbad_def)
    ultimately show ?thesis
      using m1(2) m'(2) by auto
  next
    case False
    obtain m' where m': "bad_scan drv k info (int (Suc c) * ?e) (Suc c) bc (Some m) =
        Some (bc + length (filter (kbad drv k ?e) [Suc c..<n]), Some m')" "length m' = length m"
      "\<forall>b<n. bad_block m' b = (bad_block m b \<or> Suc c \<le> b \<and> kbad drv k ?e b)"
      using Suc.hyps(1) [OF c(3) Suc.prems(1) c(4), of bc] by auto
    then have "\<forall>b<n. bad_block m' b = (bad_block m b \<or> c \<le> b \<and> kbad drv k ?e b)"
      using False by (auto simp: Suc_le_eq le_less)
    with False lt assms(1) m' upt show ?thesis
      by (intro exI [of _ m']) (simp add: bad_scan.simps [of _ _ _ _ c] kbad_def)
  qed
qed

lemma info_ok_size: "info_ok info \<Longrightarrow> info_size info = int (blocks_of info) * info_erasesize info"
  by (auto simp: info_ok_def blocks_of_def pos_imp_zdiv_nonneg_iff)

lemma filter_upt_complement: "length (filter P [0..<n]) + length (filter (\<lambda>x. \<not> P x) [0..<n]) = n"
  using sum_length_filter_compl [of P "[0..<n]"] by simp

lemma length_filter_remove:
  assumes "b < n" "P b"
  shows "length (filter P [0..<n]) = Suc (length (filter (\<lambda>c. P c \<and> c \<noteq> b) [0..<n]))"
proof -
  have "[0..<n] = [0..<b] @ b # [Suc b..<n]"
    using assms(1) by (metis less_imp_add_positive upt_add_eq_append upt_conv_Cons zero_le less_imp_le_nat le_add_diff_inverse)
  moreover have "filter (\<lambda>c. P c \<and> c \<noteq> b) [0..<b] = filter P [0..<b]"
    "filter (\<lambda>c. P c \<and> c \<noteq> b) [Suc b..<n] = filter P [Suc b..<n]"
    by (rule filter_cong; auto)+
  ultimately show ?thesis
    using assms(2) by simp
qed

lemma good_blocks_cong:
  "(\<And>b. b < n \<Longrightarrow> bad_block m b = P b) \<Longrightarrow> good_blocks m n = filter (\<lambda>b. \<not> P b) [0..<n]"
  unfolding good_blocks_def by (rule filter_cong) auto

lemma show_flash_info_fills:
  assumes "\<forall>i<3. malloc_ok i" and "memgetinfo drv k = (0, info)" and "info_ok info"
    and "dev_bad_cnt dev = 0"
  shows "\<exists>dev'. show_flash_info drv malloc_ok (Some dev) k = Some (STO_ERR_NONE, Some dev') \<and>
    dev_ok dev' \<and> dev_info dev' = Valid info \<and> dev_offset dev' = dev_offset dev \<and>
    dev_type dev' = dev_type dev \<and> dev_handle dev' = dev_handle dev \<and> dev_erase_type dev' = dev_erase_type dev \<and>
    dev_open_cnt dev' = dev_open_cnt dev \<and> dev_info_logic dev' \<noteq> Dangling \<and>
    (info_type info = MTD_NANDFLASH \<longrightarrow>
      (\<forall>p. 0 \<le> p \<and> p < info_size info \<longrightarrow>
        dev_usable dev' p = (memgetbadblock drv k (p - p mod info_erasesize info) = 0)))"
proof (cases "info_type info = MTD_NANDFLASH")
  case False
  with assms show ?thesis
    by (intro exI [of _ "dev\<lparr>dev_info := Valid info, dev_info_logic := Valid info\<rparr>"])
      (simp add: show_flash_info_def dev_ok_def)
next
  case True
  let ?e = "info_erasesize info" and ?n = "blocks_of info"
  let ?sz = "?n div 8 + (if ?n mod 8 \<noteq> 0 then 1 else 0)"
  let ?bad = "filter (kbad drv k ?e) [0..<?n]"
  have e: "0 < ?e" "info_size info < 2 ^ 32" and s: "info_size info = int ?n * ?e"
    using assms(3) info_ok_size [OF assms(3)] by (auto simp: info_ok_def)
  have sz: "?n \<le> 8 * length (replicate ?sz (0 :: u8))"
    using div_mult_mod_eq [of ?n 8] mod_less_divisor [of 8 ?n] by auto
  obtain m' where m': "bad_scan drv k info 0 0 0 (Some (replicate ?sz 0)) = Some (length ?bad, Some m')"
    "length m' = ?sz" "\<forall>b<?n. bad_block m' b = kbad drv k ?e b"
    using bad_scan_spec [OF e(1) s sz, of 0 drv k 0] sz
    by (auto simp: bad_block_def nth_replicate)
  have g: "length ?bad + length (good_blocks m' ?n) = ?n"
    using filter_upt_complement [of "kbad drv k ?e" ?n] good_blocks_cong [of ?n m' "kbad drv k ?e"] m'(3)
    by simp
  have bs: "0 \<le> int (length ?bad) * ?e" "int (length ?bad) * ?e \<le> info_size info"
    using e(1) g s mult_right_mono [of "int (length ?bad)" "int ?n" ?e] by simp_all
  have u: "to_uint32 (info_size info - int (length ?bad) * ?e) = info_size info - int (length ?bad) * ?e"
    using bs e(2) by (intro to_uint32_id) auto
  define dev' where "dev' = dev\<lparr>dev_info := Valid info, dev_bad_map := Some m',
    dev_info_logic := Valid (info\<lparr>info_size := info_size info - int (length ?bad) * ?e\<rparr>),
    dev_bad_cnt := int (length ?bad)\<rparr>"
  have "show_flash_info drv malloc_ok (Some dev) k = Some (STO_ERR_NONE, Some dev')"
    using assms True e m'(1) u
    by (cases "?bad = []")
      (simp_all add: show_flash_info_def dev'_def Let_def flip: blocks_of_def)
  moreover have "dev_ok dev'"
    using assms(3) True sz m'(2) g by (simp add: dev_ok_def dev'_def)
  moreover have "dev_usable dev' p = (memgetbadblock drv k (p - p mod ?e) = 0)"
    if p: "0 \<le> p" "p < info_size info" for p
  proof -
    have "nat (p div ?e) < ?n" "int (nat (p div ?e)) * ?e = p - p mod ?e"
      using div_less_blocks [OF e(1) p(1), of ?n] p(2) s by auto
    then show ?thesis
      using m'(3) True by (simp add: dev_usable_def dev'_def kbad_def)
  qed
  ultimately show ?thesis
    by (intro exI [of _ dev']) (simp add: dev'_def)
qed

text \<open>
  (C28) On a descriptor without counted bad blocks, when the allocations and the driver's
  \<open>MEMGETINFO\<close> succeed with a whole number of blocks, \<open>show_flash_info\<close> returns success and
  a well-formed descriptor, in which exactly the blocks the driver reports bad are unusable.
\<close>

theorem show_flash_info_ok:
  assumes "\<forall>i<3. malloc_ok i" and "memgetinfo drv k = (0, info)" and "info_ok info"
    and "dev_bad_cnt dev = 0"
  shows "\<exists>dev'. show_flash_info drv malloc_ok (Some dev) k = Some (STO_ERR_NONE, Some dev') \<and>
    dev_ok dev' \<and> dev_info dev' = Valid info \<and> dev_offset dev' = dev_offset dev \<and>
    (info_type info = MTD_NANDFLASH \<longrightarrow>
      (\<forall>p. 0 \<le> p \<and> p < info_size info \<longrightarrow>
        dev_usable dev' p = (memgetbadblock drv k (p - p mod info_erasesize info) = 0)))"
  using show_flash_info_fills [OF assms] by blast

definition demo_drv :: "unit mtd_driver" where
  "demo_drv = \<lparr>memgetinfo = \<lambda>k. (0, demo_info), memgetbadblock = \<lambda>k a. if a = 4 then 1 else 0,
     memsetbadblock = \<lambda>k a. (0, k), memerase = \<lambda>k a l. (0, k), memerase4k = \<lambda>k a l. (0, k),
     klseek = \<lambda>k a. (a, k), kread = \<lambda>k n. (n, replicate (nat n) 0, k),
     kwrite = \<lambda>k bs. (int (length bs), k)\<rparr>"

theorem show_flash_info_ok_witness:
  "\<exists>dev'. show_flash_info demo_drv (\<lambda>i. True) (Some (demo_dev\<lparr>dev_bad_cnt := 0\<rparr>)) () =
     Some (STO_ERR_NONE, Some dev') \<and> dev_ok dev' \<and> dev_usable dev' 3 \<and> \<not> dev_usable dev' 5"
proof -
  have i: "memgetinfo demo_drv () = (0, demo_info)" "info_ok demo_info"
    "info_type demo_info = MTD_NANDFLASH" "info_size demo_info = 16" "info_erasesize demo_info = 4"
    by (simp_all add: demo_drv_def demo_info_def info_ok_def)
  have "memgetbadblock demo_drv () 0 = 0" "memgetbadblock demo_drv () 4 \<noteq> 0"
    by (simp_all add: demo_drv_def)
  then show ?thesis
    using show_flash_info_ok [of "\<lambda>i. True" demo_drv "()" demo_info "demo_dev\<lparr>dev_bad_cnt := 0\<rparr>"] i
    by fastforce
qed

subsection \<open>Marking a block bad\<close>

lemma mark_good_block:
  assumes "n \<le> 8 * length m" "b < n" "\<not> bad_block m b"
  obtains m' where "bitarray_set_index (Some m) b = Some (Some m')" "length m' = length m"
    "\<forall>c<n. bad_block m' c = (bad_block m c \<or> c = b)"
    "int (length (good_blocks m n)) = int (length (good_blocks m' n)) + 1"
proof -
  have "b div 8 < length m"
    using assms(1,2) by auto
  then obtain m' where m': "bitarray_set_index (Some m) b = Some (Some m')" "length m' = length m"
    "\<forall>c. c div 8 < length m \<longrightarrow> bad_block m' c = (bad_block m c \<or> c = b)"
    using bad_block_set_index by blast
  have bb: "bad_block m' c = (bad_block m c \<or> c = b)" if "c < n" for c
    using m'(3) that assms(1) by auto
  have "int (length (good_blocks m n)) = int (length (good_blocks m' n)) + 1"
    using length_filter_remove [of b n "\<lambda>c. \<not> bad_block m c"] assms(2,3)
      good_blocks_cong [of n m' "\<lambda>c. bad_block m c \<or> c = b"] bb
    by (simp add: good_blocks_def)
  with m' bb that show ?thesis by blast
qed

text \<open>
  Marking a block bad keeps the descriptor well formed: when the driver accepts the
  mark, the block stops being usable, every other block keeps its state, and the logical
  size shrinks by one block unless the block was already marked; when the driver refuses,
  the descriptor is unchanged.
\<close>

lemma update_bbt_ok:
  assumes "dev_ok dev" and "dev_info dev = Valid info" and "info_type info = MTD_NANDFLASH"
    and "b < blocks_of info" and "memsetbadblock drv k (int b * info_erasesize info) = (r, k')"
  shows "\<exists>dev'. update_bbt drv dev k (int b * info_erasesize info) = Some (dev', k') \<and> dev_ok dev' \<and>
    (if r \<noteq> 0 then dev' = dev
     else (\<forall>p. 0 \<le> p \<and> p < info_size info \<longrightarrow>
             dev_usable dev' p = (dev_usable dev p \<and> p div info_erasesize info \<noteq> int b)) \<and>
          dev_lsize dev' = dev_lsize dev -
            (if dev_usable dev (int b * info_erasesize info) then info_erasesize info else 0))"
proof (cases "r = 0")
  case False
  with assms show ?thesis
    by (simp add: update_bbt_def)
next
  case r: True
  let ?e = "info_erasesize info" and ?n = "blocks_of info"
  obtain m where m: "dev_bad_map dev = Some m" "info_ok info" "?n \<le> 8 * length m"
    "dev_bad_cnt dev = int ?n - int (length (good_blocks m ?n))"
    "dev_info_logic dev = Valid (info\<lparr>info_size := info_size info - dev_bad_cnt dev * ?e\<rparr>)"
    using assms(1-3) by (auto simp: dev_ok_def split: option.splits)
  have e: "0 < ?e" "info_size info < 2 ^ 32" and s: "info_size info = int ?n * ?e"
    using m(2) info_ok_size [OF m(2)] by (auto simp: info_ok_def)
  have bn: "int b < 2 ^ 32"
  proof -
    have "int b \<le> int b * ?e" using e(1) mult_left_mono [of 1 ?e "int b"] by simp
    also have "\<dots> < 2 ^ 32" using block_addr_bound [OF e(1) assms(4), of 0] e s by linarith
    finally show ?thesis .
  qed
  have idx: "nat (to_uint32 (int b * ?e sdiv ?e)) = b"
    using e(1) bn sdiv_nonneg [of "int b * ?e" ?e] by (simp add: to_uint32_id)
  have b8: "b div 8 < length m"
    using assms(4) m(3) by auto
  obtain v where v: "bitarray_get_index (Some m) b = Some v" "v = 0 \<longleftrightarrow> \<not> bad_block m b"
    using bitarray_get_index_Some [OF b8] by blast
  have us: "dev_usable dev (int b * ?e) = (\<not> bad_block m b)"
    using assms(2,3) m(1) e(1) by (simp add: dev_usable_def)
  have blk: "nat (p div ?e) < ?n" "p div ?e = int b \<longleftrightarrow> nat (p div ?e) = b"
    if "0 \<le> p" "p < info_size info" for p
    using div_less_blocks [OF e(1) that(1), of ?n] that s e(1) by (auto simp: pos_imp_zdiv_nonneg_iff)
  show ?thesis
  proof (cases "bad_block m b")
    case True
    then have "update_bbt drv dev k (int b * ?e) = Some (dev, k')"
      using assms(2,5) r e idx v m(1) by (simp add: update_bbt_def)
    moreover have "dev_usable dev p = (dev_usable dev p \<and> p div ?e \<noteq> int b)"
      if "0 \<le> p" "p < info_size info" for p
      using True blk [OF that] assms(2,3) m(1) by (auto simp: dev_usable_def)
    ultimately show ?thesis
      using assms(1) r us True by auto
  next
    case False
    from mark_good_block [OF m(3) assms(4) False] obtain m'
      where m': "bitarray_set_index (Some m) b = Some (Some m')" "length m' = length m"
        and bb: "\<forall>c<?n. bad_block m' c = (bad_block m c \<or> c = b)"
        and g: "int (length (good_blocks m ?n)) = int (length (good_blocks m' ?n)) + 1" by blast
    have ls: "info_size info - dev_bad_cnt dev * ?e = int (length (good_blocks m ?n)) * ?e"
      unfolding s m(4) by (simp add: left_diff_distrib)
    have g_le: "int (length (good_blocks m' ?n)) * ?e \<le> info_size info"
      using length_filter_le [of "\<lambda>b. \<not> bad_block m' b" "[0..<?n]"] e(1)
      unfolding s good_blocks_def by (intro mult_right_mono) auto
    have "to_uint32 (info_size info - dev_bad_cnt dev * ?e - ?e) = info_size info - (dev_bad_cnt dev + 1) * ?e"
      using ls g g_le e by (subst to_uint32_id) (simp_all add: algebra_simps)
    then have upd: "update_bbt drv dev k (int b * ?e) = Some (dev\<lparr>dev_bad_map := Some m',
        dev_bad_cnt := dev_bad_cnt dev + 1,
        dev_info_logic := Valid (info\<lparr>info_size := info_size info - (dev_bad_cnt dev + 1) * ?e\<rparr>)\<rparr>, k')"
      (is "_ = Some (?dev', k')")
      using assms(2,5) r e idx v False m(1,5) m'(1) by (simp add: update_bbt_def)
    have "dev_ok ?dev'"
      using assms(2,3) m(2-4) m'(2) g by (simp add: dev_ok_def)
    moreover have "dev_usable ?dev' p = (dev_usable dev p \<and> p div ?e \<noteq> int b)"
      if "0 \<le> p" "p < info_size info" for p
      using bb blk [OF that] assms(2,3) m(1) by (auto simp: dev_usable_def)
    moreover have "dev_lsize ?dev' = dev_lsize dev - ?e"
      using m(5) by (simp add: dev_lsize_def algebra_simps)
    ultimately show ?thesis
      using upd r us False by auto
  qed
qed

subsection \<open>Seeks\<close>

lemma seek_target_range:
  assumes "0 < area" "area < 2 ^ 31" "- (2 ^ 31) \<le> offset" "offset < 2 ^ 31"
    and "whenence = SEEK_SET \<or> whenence = SEEK_CUR \<or> whenence = SEEK_END"
    and "whenence = SEEK_END \<Longrightarrow> offset \<le> 0 \<or> 0 \<le> cur \<and> cur < area"
  shows "\<exists>t. seek_target area cur offset whenence = Some t \<and> 0 \<le> t \<and> t < area"
proof -
  have a: "to_uint32 (area - 1) = area - 1" "to_int32 area = area"
    using assms(1,2) by (simp_all add: to_uint32_id to_int32_id)
  have o: "to_uint32 offset \<ge> 2 ^ 31" if "offset < 0"
  proof -
    have "to_uint32 offset = offset + 2 ^ 32"
      using mod_add_self2 [of offset "2 ^ 32"] mod_pos_pos_trivial [of "offset + 2 ^ 32" "2 ^ 32"] that assms(3)
      by (simp add: to_uint32_def take_bit_eq_mod)
    with assms(3) show ?thesis by simp
  qed
  have o2: "to_uint32 offset = offset" if "0 \<le> offset"
    using that assms(4) by (intro to_uint32_id) auto
  have s: "to_int32 (area + offset - 1) = area + offset - 1" if "offset \<le> 0"
    using that assms(1-3) by (intro to_int32_id) auto
  show ?thesis
    using assms a o o2 s by (auto simp: seek_target_def SEEK_SET_def SEEK_CUR_def SEEK_END_def Let_def)
qed

lemma seek_whence_distinct [simp]:
  "SEEK_SET \<noteq> SEEK_END" "SEEK_CUR \<noteq> SEEK_END" "SEEK_SET \<noteq> SEEK_CUR"
  by (simp_all add: SEEK_SET_def SEEK_CUR_def SEEK_END_def)

lemma seek_target_set:
  "0 \<le> offset \<Longrightarrow> offset < area \<Longrightarrow> area < 2 ^ 31 \<Longrightarrow> seek_target area cur offset SEEK_SET = Some offset"
  by (simp add: seek_target_def to_uint32_id)

lemma dev_ok_sizes:
  assumes "dev_ok dev"
  obtains info linfo where "dev_info dev = Valid info" "dev_psize dev = info_size info"
    "dev_info_logic dev = Valid linfo" "dev_lsize dev = info_size linfo"
    "dev_lsize dev \<le> dev_psize dev"
proof -
  obtain info where i: "dev_info dev = Valid info" "info_ok info"
    "dev_info_logic dev = Valid (info\<lparr>info_size := info_size info - dev_bad_cnt dev * info_erasesize info\<rparr>)"
    using assms by (auto simp: dev_ok_def split: ptr.splits)
  moreover have "0 \<le> dev_bad_cnt dev"
  proof (cases "dev_bad_cnt dev = 0")
    case False
    from dev_ok_lossy [OF assms False] obtain info' m where l: "dev_info dev = Valid info'"
      "dev_bad_map dev = Some m" "info_type info' = MTD_NANDFLASH"
      "length (good_blocks m (blocks_of info')) < blocks_of info'" by blast
    then show ?thesis
      using assms by (simp add: dev_ok_def)
  qed simp
  ultimately have "0 \<le> dev_bad_cnt dev * info_erasesize info"
    by (simp add: info_ok_def)
  with i show ?thesis
    using that by (simp add: dev_psize_def dev_lsize_def)
qed

lemma logic_addr_total:
  assumes "dev_ok dev" "0 \<le> p" "p \<le> dev_psize dev"
  shows "\<exists>x. alislsto_get_logic_addr (Some dev) p = Some (0, Some x)"
proof (cases "dev_bad_cnt dev = 0")
  case True
  moreover obtain info where "dev_info dev = Valid info" "dev_psize dev = info_size info"
    by (rule dev_ok_sizes [OF assms(1)])
  ultimately show ?thesis
    using assms(3) by (simp add: alislsto_get_logic_addr_def)
next
  case False
  from dev_ok_lossy [OF assms(1) False] obtain info m where i: "dev_info dev = Valid info"
    "dev_bad_map dev = Some m" "info_ok info" "info_type info = MTD_NANDFLASH"
    "blocks_of info \<le> 8 * length m"
    "info_size info = int (blocks_of info) * info_erasesize info"
    "dev_psize dev = info_size info" by blast
  let ?e = "info_erasesize info"
  let ?b = "nat (p div ?e)"
  have e: "0 < ?e" "info_size info < 2 ^ 32"
    using i(3) by (auto simp: info_ok_def)
  have "p div ?e \<le> int (blocks_of info)"
    using zdiv_mono1 [of p "int (blocks_of info) * ?e" ?e] assms(3) e(1) i(6,7) by simp
  then have "?b \<le> blocks_of info" "0 \<le> p div ?e"
    using assms(2) e(1) by (auto simp: pos_imp_zdiv_nonneg_iff)
  moreover have "p div ?e < 2 ^ 32"
    using div_le_self [OF assms(2) e(1)] assms(3) e(2) i(7) by linarith
  ultimately have "logic_scan (Some m) (to_uint32 (p sdiv ?e)) 0 0 = Some (length (good_blocks m ?b))"
    using logic_scan_spec [of ?b m 0 0] i(5) assms(2) e(1) by (simp add: sdiv_nonneg to_uint32_id)
  with i(1,2,4,7) False e(1) assms(3) show ?thesis
    by (simp add: alislsto_get_logic_addr_def)
qed

text \<open>
  On a device of less than 2 GiB every seek with a valid whence from a position inside
  the device succeeds, returns the new position, changes nothing but the position and stays
  inside the device; a seek from the start to an offset inside the device goes exactly there.
\<close>

lemma lseek_in_bounds:
  assumes "dev_ok dev" and "dev_handle dev \<noteq> STO_INVALID_HANDLE"
    and "0 < dev_psize dev" and "dev_psize dev < 2 ^ 31"
    and "0 \<le> dev_offset dev" and "dev_offset dev < dev_psize dev"
    and "- (2 ^ 31) \<le> offset" and "offset < 2 ^ 31"
    and "whenence = SEEK_SET \<or> whenence = SEEK_CUR \<or> whenence = SEEK_END"
  shows "\<exists>t. alislsto_lseek (Some dev) offset whenence = Some (t, Some (dev\<lparr>dev_offset := t\<rparr>)) \<and>
    0 \<le> t \<and> t < dev_psize dev \<and>
    (whenence = SEEK_SET \<and> 0 \<le> offset \<and> offset < dev_psize dev \<longrightarrow> t = offset)"
proof -
  obtain info where i: "dev_info dev = Valid info" "dev_psize dev = info_size info"
    using dev_ok_sizes [OF assms(1)] by blast
  obtain t where t: "seek_target (info_size info) (dev_offset dev) offset whenence = Some t" "0 \<le> t"
    "t < info_size info"
    using seek_target_range [OF _ _ assms(7,8,9), of "info_size info" "dev_offset dev"] assms(3-6) i(2) by auto
  have "to_int32 t = t"
    using t assms(4) i(2) by (intro to_int32_id) auto
  with t i assms(2,4,9) seek_target_set [of offset "info_size info"] show ?thesis
    by (auto simp: alislsto_lseek_def)
qed

text \<open>
  A logical seek (to the end only backwards) lands on the physical address of a good
  block that translates back to the returned logical position; a seek from the start to a
  logical offset inside the device goes exactly there.
\<close>

lemma lseek_logic_lands_on_good_block:
  assumes "dev_ok dev" and "dev_handle dev \<noteq> STO_INVALID_HANDLE"
    and "0 < dev_lsize dev" and "dev_psize dev < 2 ^ 31"
    and "0 \<le> dev_offset dev" and "dev_offset dev \<le> dev_psize dev"
    and "- (2 ^ 31) \<le> offset" and "offset < 2 ^ 31"
    and "whenence = SEEK_SET \<or> whenence = SEEK_CUR \<or> whenence = SEEK_END \<and> offset \<le> 0"
  shows "\<exists>x p. alislsto_lseek_logic (Some dev) offset whenence = Some (x, Some (dev\<lparr>dev_offset := p\<rparr>)) \<and>
    0 \<le> x \<and> x < dev_lsize dev \<and> 0 \<le> p \<and> p < dev_psize dev \<and> dev_usable dev p \<and>
    alislsto_get_logic_addr (Some dev) p = Some (0, Some x) \<and>
    (whenence = SEEK_SET \<and> 0 \<le> offset \<and> offset < dev_lsize dev \<longrightarrow> x = offset)"
proof -
  obtain linfo where i: "dev_info_logic dev = Valid linfo" "dev_lsize dev = info_size linfo"
    "dev_lsize dev \<le> dev_psize dev"
    using dev_ok_sizes [OF assms(1)] by blast
  obtain c where c: "alislsto_get_logic_addr (Some dev) (dev_offset dev) = Some (0, Some c)"
    using logic_addr_total [OF assms(1,5,6)] by blast
  obtain x where x: "seek_target (info_size linfo) c offset whenence = Some x" "0 \<le> x" "x < info_size linfo"
    using seek_target_range [OF _ _ assms(7,8), of "info_size linfo" whenence c] assms(3,4,9) i(2,3) by auto
  obtain p where p: "alislsto_get_phy_addr (Some dev) x = Some (0, Some p)" "0 \<le> p" "p < dev_psize dev"
    "dev_usable dev p" "alislsto_get_logic_addr (Some dev) p = Some (0, Some x)"
    using am.phy_in [OF assms(1) x(2)] x(3) i(2) by (auto simp: phy_of_iff logic_of_iff)
  have "to_int32 x = x"
    using x assms(4) i(2,3) by (intro to_int32_id) auto
  moreover have "whenence = SEEK_SET \<and> 0 \<le> offset \<and> offset < dev_lsize dev \<longrightarrow> x = offset"
    using seek_target_set [of offset "info_size linfo" c] x(1) assms(4) i(2,3) by auto
  ultimately show ?thesis
    using c x p i assms(2,9) by (intro exI [of _ x] exI [of _ p]) (auto simp: alislsto_lseek_logic_def)
qed

end
