(* ===== verification/Storage.thy ===== *)
theory Storage
  imports Flash_Device
begin

section \<open>Reading, writing and erasing the flash (\<open>alislstorage.c\<close>)\<close>

text \<open>
  The transfer operations of \<open>lib/libalislstorage\<close>: \<open>alislsto_read\<close>,
  \<open>alislsto_write_no_erase\<close>, \<open>alislsto_write\<close> (read, modify, erase, write back),
  \<open>alislsto_erase\<close> and the two locked transfers. Each loop of the source is a recursive
  function over the position in the device; the position only grows, which is the
  termination measure. \<open>None\<close> is undefined behaviour or a loop that does not end.
\<close>

subsection \<open>Reading\<close>

text \<open>
  One round of the loop of \<open>alislsto_read\<close> per call. \<open>buf\<close> is the caller's buffer, filled
  up to \<open>readsz\<close>. A failing \<open>read\<close> is only logged: its bytes are counted all the same.
\<close>

function read_loop :: "'k mtd_driver \<Rightarrow> alislsto_type \<Rightarrow> mtd_info \<Rightarrow> nat \<Rightarrow> int \<Rightarrow> 'k \<Rightarrow> u8 list \<Rightarrow> nat
    \<Rightarrow> (nat \<times> int \<times> 'k \<times> u8 list) option" where
  "read_loop drv ty info len offset k buf readsz =
     (if offset \<ge> info_size info then Some (readsz, offset, k, buf)
      else if info_erasesize info \<le> 0 then None
      else if ty = STO_TYPE_NAND \<and> memgetbadblock drv k offset \<noteq> 0 then
        if readsz < len then read_loop drv ty info len (offset + info_erasesize info) k buf readsz
        else Some (readsz, offset + info_erasesize info, k, buf)
      else
        let (pos, k1) = klseek drv k offset in
        if pos < 0 then Some (readsz, offset, k1, buf)
        else
          let size = min (len - readsz) (nat (info_erasesize info - offset smod info_erasesize info));
              (ret, bs, k2) = kread drv k1 (int size)
          in if length buf < readsz + size then None
             else let buf' = memcpy_at readsz bs buf
                  in if readsz + size < len
                     then read_loop drv ty info len (offset + int size) k2 buf' (readsz + size)
                     else Some (readsz + size, offset + int size, k2, buf'))"
  by pat_completeness auto
termination
proof (relation "measure (\<lambda>(drv, ty, info, len, offset, k, buf, readsz). nat (info_size info - offset))",
    goal_cases)
  case (3 drv ty info len offset k buf readsz)
  have "offset smod info_erasesize info < info_erasesize info"
    using 3(2) smod_int_range [of "info_erasesize info" offset] by (auto simp: not_le)
  then show ?case using 3 by (auto simp: min_def split: if_splits)
qed auto

declare read_loop.simps [simp del]

text \<open>The result is the returned size with the buffer, the descriptor and the driver afterwards.\<close>

definition alislsto_read :: "'k mtd_driver \<Rightarrow> alislsto_dev option \<Rightarrow> 'k \<Rightarrow> u8 list option \<Rightarrow> nat
    \<Rightarrow> (int \<times> u8 list option \<times> alislsto_dev option \<times> 'k) option" where
  "alislsto_read drv handle k buf len =
     (case (handle, buf) of
        (Some dev, Some b) \<Rightarrow> do {
          info \<leftarrow> deref (dev_info dev);
          (readsz, offset, k', b') \<leftarrow> read_loop drv (dev_type dev) info len (dev_offset dev) k b 0;
          Some (int readsz, Some b', Some (dev\<lparr>dev_offset := offset\<rparr>), k') }
      | _ \<Rightarrow> Some (STO_ERR_INVALIDPARAM, buf, handle, k))"

subsection \<open>Writing to erased blocks\<close>

text \<open>
  The inner loop of \<open>alislsto_write_no_erase\<close> looks for the next block the driver does not
  report bad; it has no bound.
\<close>

partial_function (option) skip_bad :: "'k mtd_driver \<Rightarrow> 'k \<Rightarrow> int \<Rightarrow> int \<Rightarrow> int option" where
  "skip_bad drv k erasesize offset =
     (if memgetbadblock drv k offset \<noteq> 0 then skip_bad drv k erasesize (offset + erasesize)
      else Some offset)"

declare skip_bad.simps [code]

lemma skip_bad_result:
  assumes found: "skip_bad drv k e offset = Some r"
  shows "memgetbadblock drv k r = 0 \<and> (\<exists>n. r = offset + int n * e)"
proof (rule skip_bad.raw_induct [OF _ found], goal_cases)
  case (1 f drv k e offset r)
  show ?case
  proof (cases "memgetbadblock drv k offset = 0")
    case True
    with 1(2) show ?thesis by (auto intro: exI [of _ 0])
  next
    case False
    with 1(2) 1(1) [of drv k e "offset + e" r] obtain n
      where "memgetbadblock drv k r = 0" "r = offset + e + int n * e"
      by auto
    then show ?thesis
      by (auto intro!: exI [of _ "Suc n"] simp: algebra_simps)
  qed
qed

function write_no_erase_loop :: "'k mtd_driver \<Rightarrow> alislsto_type \<Rightarrow> mtd_info \<Rightarrow> u8 list \<Rightarrow> nat \<Rightarrow> int \<Rightarrow> 'k \<Rightarrow> nat
    \<Rightarrow> (nat \<times> int \<times> 'k) option" where
  "write_no_erase_loop drv ty info buf len offset0 k written =
     (if offset0 \<ge> info_size info then Some (written, offset0, k)
      else if info_erasesize info \<le> 0 \<or> info_writesize info \<le> 0 then None
      else
        case (if ty = STO_TYPE_NAND then skip_bad drv k (info_erasesize info) offset0 else Some offset0) of
          None \<Rightarrow> None
        | Some offset \<Rightarrow>
            if offset smod info_writesize info \<noteq> 0 then Some (written, offset, k)
            else
              let size = min (len - written) (nat (info_erasesize info - offset smod info_erasesize info));
                  (pos, k1) = klseek drv k offset
              in if pos < 0 then Some (written, offset, k1)
                 else if length buf < written + size then None
                 else
                   let (wrsize, k2) = kwrite drv k1 (take size (drop written buf))
                   in if wrsize \<noteq> int size then Some (written, offset, k2)
                      else if written + size < len
                           then write_no_erase_loop drv ty info buf len (offset + int size) k2 (written + size)
                           else Some (written + size, offset + int size, k2))"
  by pat_completeness auto
termination
proof (relation "measure (\<lambda>(drv, ty, info, buf, len, offset, k, written). nat (info_size info - offset))",
    goal_cases)
  case (2 drv ty info buf len offset0 k written offset)
  then have e: "0 < info_erasesize info" by simp
  have "offset0 \<le> offset"
    using 2(3) skip_bad_result [of drv k "info_erasesize info" offset0 offset] e
    by (auto split: if_splits)
  moreover have "offset smod info_erasesize info < info_erasesize info"
    using e smod_int_range [of "info_erasesize info" offset] by auto
  ultimately show ?case using 2 by (auto simp: min_def split: if_splits)
qed auto

declare write_no_erase_loop.simps [simp del]

definition alislsto_write_no_erase :: "'k mtd_driver \<Rightarrow> alislsto_dev option \<Rightarrow> 'k \<Rightarrow> u8 list option \<Rightarrow> nat
    \<Rightarrow> (int \<times> alislsto_dev option \<times> 'k) option" where
  "alislsto_write_no_erase drv handle k buf len =
     (case (handle, buf) of
        (Some dev, Some b) \<Rightarrow> do {
          info \<leftarrow> deref (dev_info dev);
          (written, offset, k') \<leftarrow> write_no_erase_loop drv (dev_type dev) info b len (dev_offset dev) k 0;
          Some (int written, Some (dev\<lparr>dev_offset := offset\<rparr>), k') }
      | _ \<Rightarrow> Some (STO_ERR_INVALIDPARAM, handle, k))"

subsection \<open>Writing with erasure\<close>

text \<open>
  A round of \<open>alislsto_write\<close> first builds the image of a whole unit (a block, or a 4 KiB
  sector): a unit that is only partly covered by the data is read into \<open>wrbuf\<close> and
  overlaid, a whole unit is written straight from the caller's buffer. The result is
  \<open>None\<close> when the unit could not be read, or the image, the number of the caller's bytes in
  it and the scratch buffer.
\<close>

definition write_prepare :: "'k mtd_driver \<Rightarrow> int \<Rightarrow> u8 list \<Rightarrow> nat \<Rightarrow> int \<Rightarrow> 'k \<Rightarrow> u8 list \<Rightarrow> nat
    \<Rightarrow> ('k \<times> (u8 list \<times> nat \<times> u8 list) option) option" where
  "write_prepare drv unit_size buf len offset k wrbuf written =
     (if offset smod unit_size \<noteq> 0 \<or> len - written < nat unit_size then
        let (ret_size, bs, k') = kread drv k unit_size;
            wrbuf1 = memcpy_at 0 bs wrbuf;
            dstsize = (if offset smod unit_size \<noteq> 0 then min (nat (unit_size - offset smod unit_size)) len
                       else len - written)
        in if ret_size \<noteq> unit_size then Some (k', None)
           else if length buf < written + dstsize \<or> offset smod unit_size < 0 then None
           else let wrbuf2 = memcpy_at (nat (offset smod unit_size)) (take dstsize (drop written buf)) wrbuf1
                in Some (k', Some (wrbuf2, dstsize, wrbuf2))
      else if length buf < written + nat unit_size then None
      else Some (k, Some (take (nat unit_size) (drop written buf), nat unit_size, wrbuf)))"

lemma write_prepare_progress:
  assumes "write_prepare drv unit_size buf len offset k wrbuf written = Some (k', Some (dst, wrsize, w))"
    and "0 < unit_size" "written + wrsize < len"
  shows "0 < wrsize"
proof -
  have "offset smod unit_size < unit_size"
    using assms(2) smod_int_range [of unit_size offset] by auto
  with assms show ?thesis
    by (auto simp: write_prepare_def Let_def split: if_splits prod.splits)
qed

definition erase_unit :: "'k mtd_driver \<Rightarrow> alislsto_dev \<Rightarrow> 'k \<Rightarrow> int \<Rightarrow> int \<Rightarrow> int \<times> 'k" where
  "erase_unit drv dev k start len =
     (if dev_erase_type dev = STO_ERASE_TYPE_SECTOR then memerase4k drv k start len
      else memerase drv k start len)"

function write_loop :: "'k mtd_driver \<Rightarrow> int \<Rightarrow> mtd_info \<Rightarrow> u8 list \<Rightarrow> nat \<Rightarrow> alislsto_dev \<Rightarrow> 'k \<Rightarrow> u8 list \<Rightarrow> nat
    \<Rightarrow> (nat \<times> alislsto_dev \<times> 'k) option" where
  "write_loop drv unit_size info buf len dev k wrbuf written =
     (if dev_offset dev \<ge> info_size info then Some (written, dev, k)
      else if unit_size \<le> 0 \<or> info_erasesize info \<le> 0 then None
      else if dev_type dev = STO_TYPE_NAND \<and> memgetbadblock drv k (dev_offset dev) \<noteq> 0 then
        let dev' = dev\<lparr>dev_offset := dev_offset dev + info_erasesize info\<rparr>
        in if written < len then write_loop drv unit_size info buf len dev' k wrbuf written
           else Some (written, dev', k)
      else
        let base = dev_offset dev - dev_offset dev smod unit_size;
            (pos, k1) = klseek drv k base
        in if pos < 0 then Some (written, dev, k1)
           else case write_prepare drv unit_size buf len (dev_offset dev) k1 wrbuf written of
             None \<Rightarrow> None
           | Some (k2, None) \<Rightarrow> Some (written, dev, k2)
           | Some (k2, Some (dstbuf, wrsize, wrbuf')) \<Rightarrow>
               let (ret, k3) = erase_unit drv dev k2 base unit_size
               in if ret < 0 then
                    (case update_bbt drv dev k3 base of
                       None \<Rightarrow> None
                     | Some (dev1, k4) \<Rightarrow>
                         let dev' = dev1\<lparr>dev_offset := dev_offset dev + unit_size\<rparr>
                         in if written < len then write_loop drv unit_size info buf len dev' k4 wrbuf' written
                            else Some (written, dev', k4))
                  else
                    let (pos', k4) = klseek drv k3 base
                    in if pos' < 0 then Some (written, dev, k4)
                       else
                         let (ret_size, k5) = kwrite drv k4 dstbuf
                         in if ret_size \<noteq> unit_size then Some (written, dev, k5)
                            else
                              let dev' = dev\<lparr>dev_offset := dev_offset dev + int wrsize\<rparr>
                              in if written + wrsize < len
                                 then write_loop drv unit_size info buf len dev' k5 wrbuf' (written + wrsize)
                                 else Some (written + wrsize, dev', k5))"
  by pat_completeness auto
termination
  by (relation "measure (\<lambda>(drv, unit_size, info, buf, len, dev, k, wrbuf, written).
      nat (info_size info - dev_offset dev))")
    (auto dest: write_prepare_progress)

declare write_loop.simps [simp del]

text \<open>\<open>malloc_ok\<close> says whether the scratch buffer can be allocated.\<close>

definition write_unit :: "alislsto_dev \<Rightarrow> mtd_info \<Rightarrow> int" where
  "write_unit dev info =
     (if dev_erase_type dev = STO_ERASE_TYPE_SECTOR then SECTOR_SIZE_4K else info_erasesize info)"

definition alislsto_write :: "'k mtd_driver \<Rightarrow> bool \<Rightarrow> alislsto_dev option \<Rightarrow> 'k \<Rightarrow> u8 list option \<Rightarrow> nat
    \<Rightarrow> (int \<times> alislsto_dev option \<times> 'k) option" where
  "alislsto_write drv malloc_ok handle k buf len =
     (case (handle, buf) of
        (Some dev, Some b) \<Rightarrow> do {
          info \<leftarrow> deref (dev_info dev);
          let unit_size = write_unit dev info;
          if \<not> malloc_ok then Some (STO_ERR_MEM, handle, k)
          else do {
            (written, dev', k') \<leftarrow> write_loop drv unit_size info b len dev k (replicate (nat unit_size) 0) 0;
            Some (int written, Some dev', k') } }
      | _ \<Rightarrow> Some (STO_ERR_INVALIDPARAM, handle, k))"

subsection \<open>Erasing\<close>

text \<open>
  The loop of \<open>alislsto_erase\<close>: \<open>i\<close> counts the erased blocks; a bad block and a block whose
  erasure fails are passed over without counting.
\<close>

function erase_loop :: "'k mtd_driver \<Rightarrow> mtd_info \<Rightarrow> int \<Rightarrow> int \<Rightarrow> int \<Rightarrow> int \<Rightarrow> alislsto_dev \<Rightarrow> 'k \<Rightarrow> int \<Rightarrow> int
    \<Rightarrow> (retcode \<times> alislsto_dev \<times> 'k) option" where
  "erase_loop drv info block_size len addr_logic erase_num dev k erase_start i =
     (if i \<ge> erase_num then Some (STO_ERR_NONE, dev, k)
      else if erase_start \<ge> info_size info then
        (case dev_info_logic dev of
           Valid logic \<Rightarrow>
             if addr_logic = 0 \<and> len \<ge> info_size logic then Some (STO_ERR_NONE, dev, k)
             else Some (STO_ERR_OVERFLOW, dev, k)
         | _ \<Rightarrow> if addr_logic = 0 then None else Some (STO_ERR_OVERFLOW, dev, k))
      else if block_size \<le> 0 then None
      else if dev_type dev = STO_TYPE_NAND \<and> memgetbadblock drv k erase_start \<noteq> 0 then
        erase_loop drv info block_size len addr_logic erase_num dev k (erase_start + block_size) i
      else
        let (ret, k1) = erase_unit drv dev k erase_start block_size
        in if ret \<noteq> 0 then
             (case update_bbt drv dev k1 erase_start of
                None \<Rightarrow> None
              | Some (dev1, k2) \<Rightarrow>
                  erase_loop drv info block_size len addr_logic erase_num dev1 k2 (erase_start + block_size) i)
           else erase_loop drv info block_size len addr_logic erase_num dev k1 (erase_start + block_size) (i + 1))"
  by pat_completeness auto
termination
  by (relation "measure (\<lambda>(drv, info, bs, len, al, n, dev, k, start, i). nat (info_size info - start))") auto

declare erase_loop.simps [simp del]

text \<open>An erase size of \<open>2 ^ 31\<close> or more, negative as the \<open>int\<close> of the source, is outside the model.\<close>

definition alislsto_erase :: "'k mtd_driver \<Rightarrow> alislsto_dev option \<Rightarrow> 'k \<Rightarrow> int \<Rightarrow> int
    \<Rightarrow> (retcode \<times> alislsto_dev option \<times> 'k) option" where
  "alislsto_erase drv handle k start len =
     (case handle of
        None \<Rightarrow> Some (STO_ERR_INVALIDHANDLE, handle, k)
      | Some dev \<Rightarrow> do {
          info \<leftarrow> deref (dev_info dev);
          let block_size = to_int32 (info_erasesize info);
          if block_size = -1 \<or> block_size = 0 then Some (STO_ERR_INVALIDSIZE, handle, k)
          else if block_size < 0 then None
          else if start smod block_size \<noteq> 0 \<or> len mod block_size \<noteq> 0 then
            Some (STO_ERR_INVALIDPARAM, handle, k)
          else do {
            (r, l) \<leftarrow> alislsto_get_logic_addr handle start;
            case l of
              None \<Rightarrow> Some (STO_ERR_INVALIDPARAM, handle, k)
            | Some addr_logic \<Rightarrow> do {
                let block_size =
                  (if dev_erase_type dev = STO_ERASE_TYPE_SECTOR then SECTOR_SIZE_4K else block_size);
                (ret, dev', k') \<leftarrow> erase_loop drv info block_size len addr_logic
                                    (to_int32 (len div block_size)) dev k start 0;
                Some (ret, Some dev', k') } } })"

subsection \<open>Locked transfers\<close>

text \<open>
  \<open>alislsto_rw_param_t\<close> without its handle, which is passed beside it. The index \<open>-1\<close>
  seeks on the device, any other index inside an area of the layout map.
\<close>

record alislsto_rw_param =
  rw_size :: nat
  rw_offset :: int
  rw_whenence :: int
  rw_idx :: int
  rw_flag :: bool

text \<open>The seek both transfers start with: the error, the returned position, the descriptor.\<close>

definition lock_seek :: "alislsto_rw_param \<Rightarrow> alislsto_dev option \<Rightarrow> (retcode \<times> int \<times> alislsto_dev option) option" where
  "lock_seek para handle =
     (if rw_idx para = -1 then do {
        (cur_offset, h) \<leftarrow> alislsto_lseek handle (to_int32 (rw_offset para)) (rw_whenence para);
        Some (STO_ERR_NONE, cur_offset, h) }
      else if \<not> (rw_whenence para = SEEK_CUR \<and> rw_offset para = 0) then do {
        (err, h) \<leftarrow> alislsto_lseek_ext handle (nat (rw_idx para)) (rw_offset para);
        Some (err, 0, h) }
      else Some (STO_ERR_NONE, 0, handle))"

definition alislsto_lock_read :: "'k mtd_driver \<Rightarrow> alislsto_rw_param \<Rightarrow> alislsto_dev option \<Rightarrow> 'k \<Rightarrow> u8 list option
    \<Rightarrow> int option \<Rightarrow> (retcode \<times> int option \<times> u8 list option \<times> alislsto_dev option \<times> 'k) option" where
  "alislsto_lock_read drv para handle k buf actual_size =
     (case (handle, buf) of
        (Some dev, Some b) \<Rightarrow> do {
          (err, cur_offset, h1) \<leftarrow> lock_seek para handle;
          if err \<noteq> STO_ERR_NONE \<or> cur_offset = -1 then
            Some (err, actual_size, buf, snd (alislsto_set_offset h1 (dev_offset dev) (rw_flag para)), k)
          else do {
            (n, buf', h2, k') \<leftarrow>
              (if rw_size para \<noteq> 0 then alislsto_read drv h1 k buf (rw_size para) else Some (0, buf, h1, k));
            Some (if n \<noteq> int (rw_size para) then STO_ERR_MEM else STO_ERR_NONE, Some n, buf',
                  snd (alislsto_set_offset h2 (dev_offset dev) (rw_flag para)), k') } }
      | _ \<Rightarrow> Some (STO_ERR_INVALIDHANDLE, actual_size, buf, handle, k))"

definition alislsto_lock_write :: "'k mtd_driver \<Rightarrow> alislsto_rw_param \<Rightarrow> alislsto_dev option \<Rightarrow> 'k \<Rightarrow> u8 list option
    \<Rightarrow> int option \<Rightarrow> (retcode \<times> int option \<times> alislsto_dev option \<times> 'k) option" where
  "alislsto_lock_write drv para handle k buf actual_size =
     (case (handle, buf) of
        (Some dev, Some b) \<Rightarrow> do {
          (err, cur_offset, h1) \<leftarrow> lock_seek para handle;
          if err \<noteq> STO_ERR_NONE \<or> cur_offset = -1 then
            Some (err, actual_size, snd (alislsto_set_offset h1 (dev_offset dev) (rw_flag para)), k)
          else do {
            (n, h2, k') \<leftarrow>
              (if rw_size para \<noteq> 0 then alislsto_write_no_erase drv h1 k buf (rw_size para) else Some (0, h1, k));
            Some (if n \<noteq> int (rw_size para) then STO_ERR_MEM else STO_ERR_NONE, Some n,
                  snd (alislsto_set_offset h2 (dev_offset dev) (rw_flag para)), k') } }
      | _ \<Rightarrow> Some (STO_ERR_INVALIDHANDLE, actual_size, handle, k))"

subsection \<open>What the driver documents\<close>

text \<open>
  The state of a flash as a client of the driver sees it: the bytes, the file position and
  the set of bad blocks.
\<close>

record flash =
  fl_mem :: "int \<Rightarrow> u8"
  fl_pos :: int
  fl_bad :: "int \<Rightarrow> bool"

text \<open>
  The laws of the MTD character device that the library relies on, for a driver state
  abstracted by \<open>ab\<close>: \<open>MEMGETBADBLOCK\<close> reports the bad blocks inside the device; a seek
  inside the device succeeds; a read inside a good block returns its bytes and advances
  the position; a page-aligned write inside a good block clears bits; an erase of aligned
  units of a good block that returns 0 sets all bytes to \<open>0xff\<close>.
\<close>

definition in_block :: "mtd_info \<Rightarrow> flash \<Rightarrow> int \<Rightarrow> int \<Rightarrow> bool" where
  "in_block info f a n \<longleftrightarrow> 0 \<le> a \<and> 0 \<le> n \<and> a + n \<le> info_size info \<and>
     a mod info_erasesize info + n \<le> info_erasesize info \<and> \<not> fl_bad f (a div info_erasesize info)"

definition mem_write :: "int \<Rightarrow> u8 list \<Rightarrow> (int \<Rightarrow> u8) \<Rightarrow> int \<Rightarrow> u8" where
  "mem_write a bs mem = (\<lambda>x. if a \<le> x \<and> x < a + int (length bs) then mem x AND bs ! nat (x - a) else mem x)"

definition mem_erase :: "int \<Rightarrow> int \<Rightarrow> (int \<Rightarrow> u8) \<Rightarrow> int \<Rightarrow> u8" where
  "mem_erase a n mem = (\<lambda>x. if a \<le> x \<and> x < a + n then 0xff else mem x)"

definition bytes_at :: "(int \<Rightarrow> u8) \<Rightarrow> int \<Rightarrow> int \<Rightarrow> u8 list" where
  "bytes_at mem a n = map mem [a..a + n - 1]"

definition law_bad :: "'k mtd_driver \<Rightarrow> ('k \<Rightarrow> flash) \<Rightarrow> mtd_info \<Rightarrow> bool" where
  "law_bad drv ab info \<longleftrightarrow> (\<forall>k a. 0 \<le> a \<and> a < info_size info \<longrightarrow>
     (memgetbadblock drv k a \<noteq> 0 \<longleftrightarrow> fl_bad (ab k) (a div info_erasesize info)))"

definition law_seek :: "'k mtd_driver \<Rightarrow> ('k \<Rightarrow> flash) \<Rightarrow> mtd_info \<Rightarrow> bool" where
  "law_seek drv ab info \<longleftrightarrow> (\<forall>k a. 0 \<le> a \<and> a < info_size info \<longrightarrow>
     (\<exists>k'. klseek drv k a = (a, k') \<and> ab k' = (ab k)\<lparr>fl_pos := a\<rparr>))"

definition law_read :: "'k mtd_driver \<Rightarrow> ('k \<Rightarrow> flash) \<Rightarrow> mtd_info \<Rightarrow> bool" where
  "law_read drv ab info \<longleftrightarrow> (\<forall>k n. in_block info (ab k) (fl_pos (ab k)) n \<longrightarrow>
     (\<exists>k'. kread drv k n = (n, bytes_at (fl_mem (ab k)) (fl_pos (ab k)) n, k') \<and>
           ab k' = (ab k)\<lparr>fl_pos := fl_pos (ab k) + n\<rparr>))"

definition law_write :: "'k mtd_driver \<Rightarrow> ('k \<Rightarrow> flash) \<Rightarrow> mtd_info \<Rightarrow> bool" where
  "law_write drv ab info \<longleftrightarrow> (\<forall>k bs. in_block info (ab k) (fl_pos (ab k)) (int (length bs)) \<and>
       fl_pos (ab k) mod info_writesize info = 0 \<and> int (length bs) mod info_writesize info = 0 \<longrightarrow>
     (\<exists>k'. kwrite drv k bs = (int (length bs), k') \<and>
           ab k' = (ab k)\<lparr>fl_mem := mem_write (fl_pos (ab k)) bs (fl_mem (ab k)),
                          fl_pos := fl_pos (ab k) + int (length bs)\<rparr>))"

definition law_erase :: "('k \<Rightarrow> int \<Rightarrow> int \<Rightarrow> int \<times> 'k) \<Rightarrow> ('k \<Rightarrow> flash) \<Rightarrow> mtd_info \<Rightarrow> int \<Rightarrow> bool" where
  "law_erase op ab info unit_size \<longleftrightarrow> (\<forall>k a. in_block info (ab k) a unit_size \<and> a mod unit_size = 0 \<longrightarrow>
     fst (op k a unit_size) = 0 \<longrightarrow>
       ab (snd (op k a unit_size)) = (ab k)\<lparr>fl_mem := mem_erase a unit_size (fl_mem (ab k))\<rparr>)"

definition mtd_laws :: "'k mtd_driver \<Rightarrow> ('k \<Rightarrow> flash) \<Rightarrow> mtd_info \<Rightarrow> bool" where
  "mtd_laws drv ab info \<longleftrightarrow> law_bad drv ab info \<and> law_seek drv ab info \<and> law_read drv ab info \<and>
     law_write drv ab info \<and> law_erase (memerase drv) ab info (info_erasesize info) \<and>
     law_erase (memerase4k drv) ab info SECTOR_SIZE_4K"

text \<open>The addresses a transfer from \<open>off\<close> can use, in order.\<close>

definition live :: "mtd_info \<Rightarrow> (int \<Rightarrow> bool) \<Rightarrow> int \<Rightarrow> bool" where
  "live info bad a \<longleftrightarrow> \<not> bad (a div info_erasesize info)"

definition live_from :: "mtd_info \<Rightarrow> (int \<Rightarrow> bool) \<Rightarrow> int \<Rightarrow> int list" where
  "live_from info bad off = filter (live info bad) [off..info_size info - 1]"

text \<open>
  The bad blocks as a device of type \<open>ty\<close> sees them: only a NAND device looks for them, so
  a NOR part must have none.
\<close>

definition bad_seen :: "alislsto_type \<Rightarrow> (int \<Rightarrow> bool) \<Rightarrow> bool" where
  "bad_seen ty bad \<longleftrightarrow> ty = STO_TYPE_NAND \<or> (\<forall>b. \<not> bad b)"

text \<open>A transfer may start at a block boundary or inside a good block.\<close>

definition start_ok :: "mtd_info \<Rightarrow> (int \<Rightarrow> bool) \<Rightarrow> int \<Rightarrow> bool" where
  "start_ok info bad off \<longleftrightarrow> 0 \<le> off \<and> (off mod info_erasesize info = 0 \<or> live info bad off)"

subsection \<open>Blocks and good addresses\<close>

lemma block_end:
  fixes e :: int
  assumes "0 < e" "0 \<le> off" "off < sz" "sz mod e = 0"
  shows "off < off - off mod e + e" "off - off mod e + e \<le> sz" "(off - off mod e + e) mod e = 0"
proof -
  show "off < off - off mod e + e"
    using assms(1) by simp
  obtain n where n: "sz = n * e"
    using assms(4) by (metis dvd_def mod_eq_0_iff_dvd mult.commute)
  have "off div e < n"
  proof (rule ccontr)
    assume "\<not> off div e < n"
    then have "n * e \<le> off div e * e"
      using assms(1) by simp
    also have "\<dots> \<le> off"
      using assms(1) div_mult_mod_eq [of off e] pos_mod_sign [of e off] by linarith
    finally show False
      using n assms(3) by simp
  qed
  then have "(off div e + 1) * e \<le> n * e"
    using assms(1) by (intro mult_right_mono) auto
  moreover have "(off div e + 1) * e = off - off mod e + e"
    by (simp add: algebra_simps minus_mod_eq_mult_div)
  ultimately show "off - off mod e + e \<le> sz" "(off - off mod e + e) mod e = 0"
    using n mod_mult_self2_is_0 [of "off div e + 1" e] by simp_all
qed

lemma same_block:
  fixes e :: int
  assumes "0 < e" "off - off mod e \<le> a" "a < off - off mod e + e"
  shows "a div e = off div e"
proof -
  have "off - off mod e = off div e * e"
    by (simp add: minus_mod_eq_div_mult)
  with assms have "a = off div e * e + (a - off div e * e)" "0 \<le> a - off div e * e" "a - off div e * e < e"
    by simp_all
  then show ?thesis
    using div_pos_pos_trivial [of "a - off div e * e" e] assms(1)
    by (metis add.commute add_0 div_mult_self1 less_irrefl)
qed

lemma upto_append: "a \<le> b \<Longrightarrow> b \<le> c + 1 \<Longrightarrow> [a..c] = [a..b - 1] @ [b..c :: int]"
proof (cases "b \<le> c")
  case False
  moreover assume "b \<le> c + 1"
  ultimately have "b = c + 1"
    by simp
  then show ?thesis by simp
qed (simp add: upto_split1)

lemma distinct_live_from [simp]: "distinct (live_from info bad off)"
  by (simp add: live_from_def)

lemma live_from_end [simp]: "info_size info \<le> off \<Longrightarrow> live_from info bad off = []"
  by (simp add: live_from_def)

lemma live_from_good:
  assumes "info_ok info" "0 \<le> off" "off < info_size info" "live info bad off"
    and "off \<le> mid" "mid \<le> off - off mod info_erasesize info + info_erasesize info"
  shows "live_from info bad off = [off..mid - 1] @ live_from info bad mid"
proof -
  let ?e = "info_erasesize info"
  have e: "0 < ?e" "info_size info mod ?e = 0"
    using assms(1) by (auto simp: info_ok_def)
  note be = block_end [OF e(1) assms(2,3) e(2)]
  have "live info bad a" if "a \<in> set [off..mid - 1]" for a
    using that same_block [OF e(1), of off a] assms(4,6) pos_mod_sign [OF e(1), of off]
    by (auto simp: live_def)
  then have "filter (live info bad) [off..mid - 1] = [off..mid - 1]"
    by (simp add: filter_id_conv)
  then show ?thesis
    using upto_append [of off mid "info_size info - 1"] assms(5,6) be(2) by (simp add: live_from_def)
qed

lemma live_from_bad:
  assumes "info_ok info" "0 \<le> off" "off < info_size info" "\<not> live info bad off"
    and "off mod info_erasesize info = 0"
  shows "live_from info bad off = live_from info bad (off + info_erasesize info)"
proof -
  let ?e = "info_erasesize info"
  have e: "0 < ?e" "info_size info mod ?e = 0"
    using assms(1) by (auto simp: info_ok_def)
  note be = block_end [OF e(1) assms(2,3) e(2)]
  have "\<not> live info bad a" if "a \<in> set [off..off + ?e - 1]" for a
    using that same_block [OF e(1), of off a] assms(4,5) by (simp add: live_def)
  then have "filter (live info bad) [off..off + ?e - 1] = []"
    by (simp only: filter_empty_conv) blast
  then show ?thesis
    using upto_append [of off "off + ?e" "info_size info - 1"] assms(5) e(1) be(2)
    by (simp add: live_from_def)
qed

lemma live_from_in: "a \<in> set (live_from info bad off) \<Longrightarrow> off \<le> a \<and> a < info_size info \<and> live info bad a"
  by (auto simp: live_from_def)

lemmas driver_laws =
  law_bad_def law_seek_def law_read_def law_write_def law_erase_def

lemma mtd_bad:
  "mtd_laws drv ab info \<Longrightarrow> 0 \<le> a \<Longrightarrow> a < info_size info \<Longrightarrow>
   memgetbadblock drv k a \<noteq> 0 \<longleftrightarrow> \<not> live info (fl_bad (ab k)) a"
  by (simp add: mtd_laws_def law_bad_def live_def)

lemma mtd_seek:
  assumes "mtd_laws drv ab info" "0 \<le> a" "a < info_size info"
  obtains k' where "klseek drv k a = (a, k')" "ab k' = (ab k)\<lparr>fl_pos := a\<rparr>"
  using assms by (fastforce simp: mtd_laws_def law_seek_def)

lemma mtd_read:
  assumes "mtd_laws drv ab info" "in_block info (ab k) (fl_pos (ab k)) n"
  obtains k' where "kread drv k n = (n, bytes_at (fl_mem (ab k)) (fl_pos (ab k)) n, k')"
    "ab k' = (ab k)\<lparr>fl_pos := fl_pos (ab k) + n\<rparr>"
  using assms by (fastforce simp: mtd_laws_def law_read_def)

lemma length_bytes_at [simp]: "0 \<le> n \<Longrightarrow> length (bytes_at mem a n) = nat n"
  by (simp add: bytes_at_def)

text \<open>Where a transfer of \<open>n\<close> bytes over the addresses \<open>as\<close> leaves the position.\<close>

definition transfer_end :: "mtd_info \<Rightarrow> int list \<Rightarrow> nat \<Rightarrow> int \<Rightarrow> int" where
  "transfer_end info as n off = (if n \<le> length as then as ! (n - 1) + 1 else max off (info_size info))"

lemma transfer_end_append:
  assumes "length as < n" "off' \<le> info_size info" "off \<le> info_size info"
  shows "transfer_end info (as @ bs) n off = transfer_end info bs (n - length as) off'"
proof -
  have "n - Suc 0 - length as = n - length as - Suc 0"
    by simp
  with assms show ?thesis
    by (auto simp: transfer_end_def nth_append max_def)
qed

subsection \<open>Reading returns the bytes of the good blocks\<close>

lemma in_block_chunk:
  assumes "info_ok info" "0 \<le> off" "off < info_size info" "live info (fl_bad f) off"
    and "0 \<le> n" "n \<le> info_erasesize info - off mod info_erasesize info"
  shows "in_block info f off n"
  using assms block_end(2) [of "info_erasesize info" off "info_size info"]
  by (auto simp: in_block_def live_def info_ok_def)

lemma chunk_bound:
  assumes "0 < (e :: int)"
  shows "int (min a (nat (e - x mod e))) \<le> e - x mod e"
proof -
  have "x mod e < e"
    using assms by (rule pos_mod_bound)
  then show ?thesis by simp
qed

lemma read_loop_good:
  assumes "mtd_laws drv ab info" "info_ok info" "bad_seen ty (fl_bad (ab k))"
    and "0 \<le> off" "off < info_size info" "live info (fl_bad (ab k)) off"
    and "n = min (len - readsz) (nat (info_erasesize info - off mod info_erasesize info))"
    and "readsz + n \<le> length buf"
  obtains k' where "fl_mem (ab k') = fl_mem (ab k)" "fl_bad (ab k') = fl_bad (ab k)"
    "read_loop drv ty info len off k buf readsz =
      (let buf' = memcpy_at readsz (map (fl_mem (ab k)) [off..off + int n - 1]) buf
       in if readsz + n < len then read_loop drv ty info len (off + int n) k' buf' (readsz + n)
          else Some (readsz + n, off + int n, k', buf'))"
proof -
  have e: "0 < info_erasesize info"
    using assms(2) by (simp add: info_ok_def)
  obtain k1 where k1: "klseek drv k off = (off, k1)" "ab k1 = (ab k)\<lparr>fl_pos := off\<rparr>"
    by (rule mtd_seek [OF assms(1,4,5)])
  have "int n \<le> info_erasesize info - off mod info_erasesize info"
    using assms(7) chunk_bound [OF e] by simp
  then have "in_block info (ab k1) (fl_pos (ab k1)) (int n)"
    using in_block_chunk [OF assms(2,4,5), of "ab k1" "int n"] assms(6) k1(2) by simp
  then obtain k2 where "kread drv k1 (int n) = (int n, bytes_at (fl_mem (ab k1)) (fl_pos (ab k1)) (int n), k2)"
    and k2': "ab k2 = (ab k1)\<lparr>fl_pos := fl_pos (ab k1) + int n\<rparr>"
    by (rule mtd_read [OF assms(1)])
  then have k2: "kread drv k1 (int n) = (int n, bytes_at (fl_mem (ab k)) off (int n), k2)"
    by (simp add: k1(2))
  have nb: "(ty = STO_TYPE_NAND \<and> memgetbadblock drv k off \<noteq> 0) = False"
    using mtd_bad [OF assms(1,4,5), of k] assms(6) by simp
  have "read_loop drv ty info len off k buf readsz =
      (let buf' = memcpy_at readsz (map (fl_mem (ab k)) [off..off + int n - 1]) buf
       in if readsz + n < len then read_loop drv ty info len (off + int n) k2 buf' (readsz + n)
          else Some (readsz + n, off + int n, k2, buf'))"
    unfolding read_loop.simps [of drv ty info len off] nb if_False
    using assms(4,5,8) e k1(1) k2 assms(7) [symmetric] by (simp add: smod_nonneg bytes_at_def)
  moreover have "fl_mem (ab k2) = fl_mem (ab k)" "fl_bad (ab k2) = fl_bad (ab k)"
    using k1(2) k2' by simp_all
  ultimately show ?thesis
    using that by blast
qed

lemma read_loop_spec:
  assumes "mtd_laws drv ab info" "info_ok info"
  shows "bad_seen ty bad \<Longrightarrow> start_ok info bad off \<Longrightarrow> fl_bad (ab k) = bad \<Longrightarrow> fl_mem (ab k) = mem \<Longrightarrow>
    readsz < len \<Longrightarrow> len \<le> length buf \<Longrightarrow>
    \<exists>k'. fl_mem (ab k') = mem \<and> fl_bad (ab k') = bad \<and>
      read_loop drv ty info len off k buf readsz =
        Some (readsz + min (len - readsz) (length (live_from info bad off)),
              transfer_end info (live_from info bad off) (len - readsz) off, k',
              memcpy_at readsz (map mem (take (len - readsz) (live_from info bad off))) buf)"
proof (induction "nat (info_size info - off)" arbitrary: off k buf readsz rule: less_induct)
  case less
  let ?e = "info_erasesize info" and ?sz = "info_size info"
  have e: "0 < ?e" "?sz mod ?e = 0" and off: "0 \<le> off"
    using assms(2) less.prems(2) by (auto simp: info_ok_def start_ok_def)
  consider "?sz \<le> off" | "off < ?sz" "\<not> live info bad off" | "off < ?sz" "live info bad off"
    by linarith
  then show ?case
  proof cases
    case 1
    then show ?thesis
      using less.prems by (auto simp: read_loop.simps [of _ _ _ _ off] transfer_end_def)
  next
    case 2
    then have al: "off mod ?e = 0" and ty: "ty = STO_TYPE_NAND"
      using less.prems(1,2) by (auto simp: start_ok_def bad_seen_def live_def)
    note be = block_end [OF e(1) off 2(1) e(2)]
    have step: "read_loop drv ty info len off k buf readsz = read_loop drv ty info len (off + ?e) k buf readsz"
      using 2 e mtd_bad [OF assms(1) off 2(1), of k] ty less.prems(3,5)
      by (subst read_loop.simps) auto
    have st: "start_ok info bad (off + ?e)"
      using off e(1) al be by (simp add: start_ok_def)
    have te: "transfer_end info as n (off + ?e) = transfer_end info as n off" for as n
      using be(2) al 2(1) by (simp add: transfer_end_def max_def)
    show ?thesis
      using less.hyps [OF _ less.prems(1) st less.prems(3,4,5,6)] 2(1) e(1)
        live_from_bad [OF assms(2) off 2 al] step te by simp
  next
    case 3
    define n where "n = min (len - readsz) (nat (?e - off mod ?e))"
    note be = block_end [OF e(1) off 3(1) e(2)]
    have n: "0 < n" "off + int n \<le> off - off mod ?e + ?e" "readsz + n \<le> len"
      using less.prems(5) e(1) chunk_bound [OF e(1), of "len - readsz" off] by (auto simp: n_def)
    let ?C = "[off..off + int n - 1]"
    have A: "live_from info bad off = ?C @ live_from info bad (off + int n)"
      using live_from_good [OF assms(2) off 3] n(2) by simp
    obtain k' where k': "fl_mem (ab k') = mem" "fl_bad (ab k') = bad"
      "read_loop drv ty info len off k buf readsz =
        (let buf' = memcpy_at readsz (map mem ?C) buf
         in if readsz + n < len then read_loop drv ty info len (off + int n) k' buf' (readsz + n)
            else Some (readsz + n, off + int n, k', buf'))"
    proof (rule read_loop_good [OF assms, of ty k off n len readsz buf])
      show "bad_seen ty (fl_bad (ab k))" "0 \<le> off" "off < ?sz" "live info (fl_bad (ab k)) off"
        "n = min (len - readsz) (nat (?e - off mod ?e))" "readsz + n \<le> length buf"
        using less.prems off 3 n(3) by (simp_all add: n_def)
    qed (use less.prems in simp)
    show ?thesis
    proof (cases "readsz + n < len")
      case True
      then have "n = nat (?e - off mod ?e)"
        unfolding n_def by auto
      then have "off + int n = off - off mod ?e + ?e"
        using pos_mod_bound [OF e(1), of off] by linarith
      then have "(off + int n) mod ?e = 0"
        using be(3) by (simp only:)
      then have st: "start_ok info bad (off + int n)"
        using off by (simp add: start_ok_def)
      let ?buf = "memcpy_at readsz (map mem ?C) buf"
      have "len \<le> length ?buf"
        using n(3) less.prems(6) by simp
      from less.hyps [OF _ less.prems(1) st k'(2,1) True this] n(1) 3(1)
      obtain k'' where k'': "fl_mem (ab k'') = mem" "fl_bad (ab k'') = bad"
        "read_loop drv ty info len (off + int n) k' ?buf (readsz + n) =
          Some (readsz + n + min (len - (readsz + n)) (length (live_from info bad (off + int n))),
              transfer_end info (live_from info bad (off + int n)) (len - (readsz + n)) (off + int n), k'',
              memcpy_at (readsz + n) (map mem (take (len - (readsz + n)) (live_from info bad (off + int n)))) ?buf)"
        by auto
      moreover have "transfer_end info (live_from info bad off) (len - readsz) off =
          transfer_end info (live_from info bad (off + int n)) (len - (readsz + n)) (off + int n)"
        using transfer_end_append [of ?C "len - readsz" "off + int n" info off] True n(2) be(2) 3(1) A
        by (simp add: diff_diff_left)
      moreover have "readsz + n + length (take (len - (readsz + n)) (live_from info bad (off + int n))) \<le> length buf"
        using True less.prems(6) by auto
      then have "memcpy_at (readsz + n) (map mem (take (len - (readsz + n)) (live_from info bad (off + int n)))) ?buf =
          memcpy_at readsz (map mem (take (len - readsz) (live_from info bad off))) buf"
        using memcpy_at_append [of readsz "map mem ?C"
            "map mem (take (len - (readsz + n)) (live_from info bad (off + int n)))" buf] True A
        by simp
      moreover have sum: "readsz + min (len - readsz) (n + l) = readsz + n + min (len - (readsz + n)) l" for l
        using True by arith
      ultimately show ?thesis
        using k'(3) True A
        by (intro exI [of _ k'']) (simp add: Let_def)
    next
      case False
      then have "len - readsz = n"
        using n(3) less.prems(5) by simp
      then show ?thesis
        using k' False A n(1) by (intro exI [of _ k']) (simp add: transfer_end_def nth_append Let_def)
    qed
  qed
qed

subsection \<open>Writing a unit\<close>

text \<open>The memory after the bytes \<open>bs\<close> were stored at the addresses \<open>as\<close>.\<close>

definition store_at :: "int list \<Rightarrow> u8 list \<Rightarrow> (int \<Rightarrow> u8) \<Rightarrow> int \<Rightarrow> u8" where
  "store_at as bs mem = fold (\<lambda>(a, b) m. m(a := b)) (zip as bs) mem"

lemma store_at_Nil [simp]: "store_at [] bs mem = mem" "store_at as [] mem = mem"
  by (simp_all add: store_at_def)

lemma store_at_append:
  "length as = length bs \<Longrightarrow> store_at (as @ as') (bs @ bs') mem = store_at as' bs' (store_at as bs mem)"
  by (simp add: store_at_def)

lemma store_at_other: "x \<notin> set as \<Longrightarrow> store_at as bs mem x = mem x"
  unfolding store_at_def
proof (induction as bs arbitrary: mem rule: list_induct2')
qed auto

lemma store_at_nth:
  assumes "distinct as" "i < length as" "i < length bs"
  shows "store_at as bs mem (as ! i) = bs ! i"
  using assms
proof (induction as arbitrary: bs mem i)
  case (Cons a as)
  obtain b bs' where bs: "bs = b # bs'"
    using Cons.prems(3) by (cases bs) auto
  have step: "store_at (a # as) bs mem = store_at as bs' (mem(a := b))"
    by (simp add: store_at_def bs)
  show ?case
  proof (cases i)
    case 0
    then show ?thesis
      using Cons.prems(1) store_at_other [of a as bs'] step bs by simp
  next
    case (Suc j)
    then show ?thesis
      using Cons.IH [of j bs' "mem(a := b)"] Cons.prems step bs by (simp del: fun_upd_apply)
  qed
qed simp

lemma map_store_at:
  assumes "distinct as" "length as = length bs"
  shows "map (store_at as bs mem) as = bs"
  using assms by (intro nth_equalityI) (auto simp: store_at_nth)

lemma store_at_upto:
  assumes "n = length bs"
  shows "store_at [a..a + int n - 1] bs mem x = (if a \<le> x \<and> x < a + int n then bs ! nat (x - a) else mem x)"
proof (cases "a \<le> x \<and> x < a + int n")
  case True
  then have "x = [a..a + int n - 1] ! nat (x - a)" "nat (x - a) < n"
    by (simp_all add: nat_less_iff)
  moreover have "store_at [a..a + int n - 1] bs mem ([a..a + int n - 1] ! nat (x - a)) = bs ! nat (x - a)"
    using \<open>nat (x - a) < n\<close> assms by (intro store_at_nth) auto
  ultimately show ?thesis
    using True by simp
next
  case False
  then have "x \<notin> set [a..a + int n - 1]"
    by simp
  then show ?thesis
    using store_at_other [of x "[a..a + int n - 1]" bs mem] False by auto
qed

lemma mem_write_erased:
  assumes "int (length bs) = n"
  shows "mem_write a bs (mem_erase a n mem) = store_at [a..a + n - 1] bs mem"
proof
  fix x
  have "(0xff :: u8) = - 1"
    by simp
  then have "(0xff :: u8) AND w = w" for w
    by (simp only: and.left_neutral)
  then show "mem_write a bs (mem_erase a n mem) x = store_at [a..a + n - 1] bs mem x"
    using store_at_upto [of "length bs" bs a mem x] assms by (simp add: mem_write_def mem_erase_def)
qed

lemma store_overlay:
  fixes mem :: "int \<Rightarrow> u8"
  assumes "0 < u" "off mod u + int (length bs) \<le> u"
  shows "store_at [off - off mod u..off - off mod u + u - 1]
      (memcpy_at (nat (off mod u)) bs (bytes_at mem (off - off mod u) u)) mem =
    store_at [off..off + int (length bs) - 1] bs mem"
proof
  fix x
  let ?b = "off - off mod u"
  let ?img = "memcpy_at (nat (off mod u)) bs (bytes_at mem ?b u)"
  have m: "0 \<le> off mod u" "nat (off mod u) + length bs \<le> nat u"
    using assms pos_mod_sign [OF assms(1), of off] by (linarith+)
  then have len: "length ?img = nat u" "int (nat u) = u"
    using assms(1) by simp_all
  have img: "?img ! nat (x - ?b) = (if off \<le> x \<and> x < off + int (length bs) then bs ! nat (x - off) else mem x)"
    if "?b \<le> x" "x < ?b + u"
  proof -
    have k: "nat (x - ?b) < nat u"
      using that assms(1) by linarith
    have "bytes_at mem ?b u ! nat (x - ?b) = mem x"
      using that k by (simp add: bytes_at_def)
    moreover have "nat (off mod u) \<le> nat (x - ?b) \<and> nat (x - ?b) < nat (off mod u) + length bs
        \<longleftrightarrow> off \<le> x \<and> x < off + int (length bs)"
      using that m(1) by linarith
    moreover have "nat (x - ?b) - nat (off mod u) = nat (x - off)"
      using that m(1) by linarith
    ultimately show ?thesis
      using nth_memcpy_at [of "nat (off mod u)" bs "bytes_at mem ?b u" "nat (x - ?b)"] m(2) k assms(1)
      by simp
  qed
  have "?b \<le> off" "off + int (length bs) \<le> ?b + u"
    using m(1) assms(2) by linarith+
  then show "store_at [?b..?b + u - 1] ?img mem x = store_at [off..off + int (length bs) - 1] bs mem x"
    using store_at_upto [of "nat u" ?img ?b mem x] store_at_upto [of "length bs" bs off mem x] img len
    by auto
qed

lemma write_prepare_good:
  assumes "mtd_laws drv ab info" "0 < u" "0 \<le> off" "fl_pos (ab k) = off - off mod u"
    and "in_block info (ab k) (off - off mod u) u" "length wrbuf = nat u"
    and "off mod u = 0 \<or> written = 0" "written < len" "len \<le> length buf"
    and "n = min (nat (u - off mod u)) (len - written)"
  obtains k' dst w where "write_prepare drv u buf len off k wrbuf written = Some (k', Some (dst, n, w))"
    "fl_mem (ab k') = fl_mem (ab k)" "fl_bad (ab k') = fl_bad (ab k)" "length dst = nat u" "length w = nat u"
    "store_at [off - off mod u..off - off mod u + u - 1] dst (fl_mem (ab k)) =
      store_at [off..off + int n - 1] (take n (drop written buf)) (fl_mem (ab k))"
proof (cases "off mod u \<noteq> 0 \<or> len - written < nat u")
  case True
  let ?b = "off - off mod u"
  let ?img = "bytes_at (fl_mem (ab k)) ?b u" and ?bs = "take n (drop written buf)"
  obtain k' where "kread drv k u = (u, bytes_at (fl_mem (ab k)) (fl_pos (ab k)) u, k')"
    and k': "ab k' = (ab k)\<lparr>fl_pos := fl_pos (ab k) + u\<rparr>"
    using mtd_read [OF assms(1), of k u] assms(4,5) by metis
  then have rd: "kread drv k u = (u, ?img, k')"
    by (simp add: assms(4))
  have n: "(if off mod u \<noteq> 0 then min (nat (u - off mod u)) len else len - written) = n"
    "written + n \<le> length buf" "length ?bs = n"
    using True assms(7-10) by auto
  have m: "0 \<le> off mod u" "off mod u < u"
    using assms(2) by simp_all
  then have o: "off mod u + int n \<le> u" "nat (off mod u) + n \<le> nat u"
    using assms(10) by linarith+
  have w: "memcpy_at 0 ?img wrbuf = ?img"
    using assms(2,6) by (simp add: memcpy_at_def)
  let ?d = "memcpy_at (nat (off mod u)) ?bs ?img"
  have "write_prepare drv u buf len off k wrbuf written = Some (k', Some (?d, n, ?d))"
    using True rd n m(1) w smod_nonneg [OF assms(3,2)]
    by (cases "off mod u = 0") (simp_all add: write_prepare_def Let_def)
  moreover have "length ?d = nat u"
    using o(2) n(3) assms(2) by simp
  moreover have "store_at [?b..?b + u - 1] ?d (fl_mem (ab k)) = store_at [off..off + int n - 1] ?bs (fl_mem (ab k))"
    using store_overlay [OF assms(2), of off ?bs] o(1) n(3) by simp
  ultimately show ?thesis
    using that k' by simp
next
  case False
  then have n: "n = nat u" "written + nat u \<le> length buf"
    using assms(2,8-10) by auto
  then have "write_prepare drv u buf len off k wrbuf written =
      Some (k, Some (take (nat u) (drop written buf), nat u, wrbuf))"
    using False smod_nonneg [OF assms(3,2)] by (auto simp: write_prepare_def)
  then show ?thesis
    using that n False assms(2,6) by simp
qed

subsection \<open>Writing stores the data and nothing else\<close>

definition unit_ok :: "mtd_info \<Rightarrow> int \<Rightarrow> bool" where
  "unit_ok info u \<longleftrightarrow> 0 < u \<and> info_erasesize info mod u = 0 \<and> 0 < info_writesize info \<and>
     u mod info_writesize info = 0"

definition erase_never_fails :: "'k mtd_driver \<Rightarrow> ('k \<Rightarrow> flash) \<Rightarrow> mtd_info \<Rightarrow> alislsto_dev \<Rightarrow> bool" where
  "erase_never_fails drv ab info dev \<longleftrightarrow>
     (\<forall>k a. in_block info (ab k) a (write_unit dev info) \<and> a mod write_unit dev info = 0 \<longrightarrow>
        fst (erase_unit drv dev k a (write_unit dev info)) = 0)"

lemma erase_unit_offset [simp]:
  "erase_unit drv (dev\<lparr>dev_offset := x\<rparr>) = erase_unit drv dev"
  "write_unit (dev\<lparr>dev_offset := x\<rparr>) = write_unit dev"
  "erase_never_fails drv ab info (dev\<lparr>dev_offset := x\<rparr>) = erase_never_fails drv ab info dev"
  by (auto simp: fun_eq_iff erase_unit_def write_unit_def erase_never_fails_def)

lemma mtd_erase:
  assumes "mtd_laws drv ab info" "erase_never_fails drv ab info dev"
    and "in_block info (ab k) a (write_unit dev info)" "a mod write_unit dev info = 0"
  obtains k' where "erase_unit drv dev k a (write_unit dev info) = (0, k')"
    "ab k' = (ab k)\<lparr>fl_mem := mem_erase a (write_unit dev info) (fl_mem (ab k))\<rparr>"
proof -
  obtain r k' where e: "erase_unit drv dev k a (write_unit dev info) = (r, k')"
    by (cases "erase_unit drv dev k a (write_unit dev info)")
  moreover have "r = 0"
    using assms(2-4) e unfolding erase_never_fails_def by fastforce
  moreover have "ab k' = (ab k)\<lparr>fl_mem := mem_erase a (write_unit dev info) (fl_mem (ab k))\<rparr>"
  proof -
    have "law_erase (erase_unit drv dev) ab info (write_unit dev info)"
      using assms(1) by (auto simp: mtd_laws_def law_erase_def erase_unit_def write_unit_def)
    from this [unfolded law_erase_def, rule_format, of k a] show ?thesis
      using assms(3,4) e \<open>r = 0\<close> by simp
  qed
  ultimately show ?thesis
    using that by blast
qed

lemma mtd_write:
  assumes "mtd_laws drv ab info" "in_block info (ab k) (fl_pos (ab k)) (int (length bs))"
    and "fl_pos (ab k) mod info_writesize info = 0" "int (length bs) mod info_writesize info = 0"
  obtains k' where "kwrite drv k bs = (int (length bs), k')"
    "ab k' = (ab k)\<lparr>fl_mem := mem_write (fl_pos (ab k)) bs (fl_mem (ab k)),
                     fl_pos := fl_pos (ab k) + int (length bs)\<rparr>"
proof -
  have "law_write drv ab info"
    using assms(1) by (simp add: mtd_laws_def)
  from this [unfolded law_write_def, rule_format, of k bs] show ?thesis
    using assms(2-4) that by blast
qed

lemma unit_in_block:
  fixes e u :: int
  assumes "0 < u" "0 < e" "e mod u = 0" "0 \<le> off"
  shows "off - off mod e \<le> off - off mod u" "off - off mod u + u \<le> off - off mod e + e"
proof -
  have "off mod u = off mod e mod u"
    using assms(3) mod_mod_cancel [of u e off] by (simp add: mod_eq_0_iff_dvd)
  also have "\<dots> \<le> off mod e"
    using assms by (intro zmod_le_nonneg_dividend) simp
  finally show "off - off mod e \<le> off - off mod u" by simp
  have be: "off < off - off mod e + e"
    using pos_mod_bound [OF assms(2), of off] by linarith
  have "(off - off mod e + e) mod e = 0"
    by (simp add: minus_mod_eq_mult_div)
  then have "(off - off mod e + e) mod u = 0"
    using assms(3) by (metis dvd_trans mod_0_imp_dvd mod_eq_0_iff_dvd)
  then show "off - off mod u + u \<le> off - off mod e + e"
    using block_end(2) [OF assms(1,4) be] by simp
qed

lemma in_block_unit:
  assumes "info_ok info" "unit_ok info u" "0 \<le> off" "off < info_size info" "live info (fl_bad f) off"
  shows "in_block info f (off - off mod u) u"
proof -
  let ?e = "info_erasesize info" and ?b = "off - off mod u"
  have e: "0 < ?e" "info_size info mod ?e = 0" "0 < u" "?e mod u = 0"
    using assms(1,2) by (auto simp: info_ok_def unit_ok_def)
  note ub = unit_in_block [OF e(3,1,4) assms(3)]
  note be = block_end [OF e(1) assms(3,4) e(2)]
  have m: "0 \<le> off mod ?e" "off mod ?e < ?e" "0 \<le> off mod u" "off mod u < u"
    using e by simp_all
  have d: "?b div ?e = off div ?e"
    using same_block [OF e(1), of off ?b] ub m by linarith
  have "off - off mod ?e = off div ?e * ?e" "?b = ?b div ?e * ?e + ?b mod ?e"
    by (simp_all add: minus_mod_eq_div_mult)
  then have "?b mod ?e + u \<le> ?e"
    using ub d by simp
  moreover have "0 \<le> ?b"
    using zmod_le_nonneg_dividend [OF assms(3), of u] by simp
  ultimately show ?thesis
    using ub be(2) d assms(5) e(3) by (simp add: in_block_def live_def)
qed

lemma write_loop_good:
  assumes "mtd_laws drv ab info" "info_ok info" "unit_ok info u" "u = write_unit dev info"
    and "erase_never_fails drv ab info dev"
    and "0 \<le> dev_offset dev" "dev_offset dev < info_size info" "live info (fl_bad (ab k)) (dev_offset dev)"
    and "length wrbuf = nat u" "dev_offset dev mod u = 0 \<or> written = 0" "written < len" "len \<le> length buf"
    and "n = min (nat (u - dev_offset dev mod u)) (len - written)"
  obtains k' w where "fl_bad (ab k') = fl_bad (ab k)" "length w = nat u"
    "fl_mem (ab k') = store_at [dev_offset dev..dev_offset dev + int n - 1] (take n (drop written buf)) (fl_mem (ab k))"
    "write_loop drv u info buf len dev k wrbuf written =
      (let dev' = dev\<lparr>dev_offset := dev_offset dev + int n\<rparr>
       in if written + n < len then write_loop drv u info buf len dev' k' w (written + n)
          else Some (written + n, dev', k'))"
proof -
  let ?off = "dev_offset dev"
  let ?b = "?off - ?off mod u"
  have u: "0 < u" "0 < info_erasesize info" "?b mod u = 0"
    "u mod info_writesize info = 0" "0 < info_writesize info"
    using assms(2,3) by (auto simp: unit_ok_def info_ok_def minus_mod_eq_mult_div)
  have bw: "?b mod info_writesize info = 0"
    using u(3,4) by (metis dvd_trans mod_0_imp_dvd mod_eq_0_iff_dvd)
  note ib = in_block_unit [OF assms(2,3,6,7)]
  have ib1: "in_block info f ?b u" if "fl_bad f = fl_bad (ab k)" for f
    using ib [of f] assms(8) that by simp
  have bs: "0 \<le> ?b" "?b < info_size info"
    using ib1 [of "ab k"] u(1) by (auto simp: in_block_def)
  obtain k1 where k1: "klseek drv k ?b = (?b, k1)" "ab k1 = (ab k)\<lparr>fl_pos := ?b\<rparr>"
    by (rule mtd_seek [OF assms(1) bs])
  obtain k2 dst w where k2: "write_prepare drv u buf len ?off k1 wrbuf written = Some (k2, Some (dst, n, w))"
    "fl_mem (ab k2) = fl_mem (ab k1)" "fl_bad (ab k2) = fl_bad (ab k1)" "length dst = nat u" "length w = nat u"
    "store_at [?b..?b + u - 1] dst (fl_mem (ab k1)) =
      store_at [?off..?off + int n - 1] (take n (drop written buf)) (fl_mem (ab k1))"
    using write_prepare_good [OF assms(1) u(1) assms(6) _ _ assms(9-13), of k1] ib1 k1(2) by auto
  obtain k3 where k3: "erase_unit drv dev k2 ?b u = (0, k3)"
    "ab k3 = (ab k2)\<lparr>fl_mem := mem_erase ?b u (fl_mem (ab k2))\<rparr>"
    using mtd_erase [OF assms(1,5), of k2 ?b] ib1 [of "ab k2"] k1(2) k2(3) u(3) assms(4) by auto
  obtain k4 where k4: "klseek drv k3 ?b = (?b, k4)" "ab k4 = (ab k3)\<lparr>fl_pos := ?b\<rparr>"
    by (rule mtd_seek [OF assms(1) bs])
  have il: "int (length dst) = u"
    using k2(4) u(1) by simp
  obtain k5 where "kwrite drv k4 dst = (int (length dst), k5)"
    and k5: "ab k5 = (ab k4)\<lparr>fl_mem := mem_write (fl_pos (ab k4)) dst (fl_mem (ab k4)),
                     fl_pos := fl_pos (ab k4) + int (length dst)\<rparr>"
    by (rule mtd_write [OF assms(1), of k4 dst])
      (use ib1 [of "ab k4"] k1(2) k2(3) k3(2) k4(2) il bw u(4) in simp_all)
  then have wr: "kwrite drv k4 dst = (u, k5)"
    using il by simp
  have nb: "(dev_type dev = STO_TYPE_NAND \<and> memgetbadblock drv k ?off \<noteq> 0) = False"
    using mtd_bad [OF assms(1,6,7), of k] assms(8) by simp
  have "write_loop drv u info buf len dev k wrbuf written =
      (let dev' = dev\<lparr>dev_offset := ?off + int n\<rparr>
       in if written + n < len then write_loop drv u info buf len dev' k5 w (written + n)
          else Some (written + n, dev', k5))"
    unfolding write_loop.simps [of drv u info buf len dev k] nb if_False
    using smod_nonneg [OF assms(6) u(1)] assms(7) u bs k1(1) k2(1) k3(1) k4(1) wr by (simp add: Let_def)
  moreover have "fl_mem (ab k5) = store_at [?off..?off + int n - 1] (take n (drop written buf)) (fl_mem (ab k))"
    using k5 k4(2) k3(2) k2(2,6) k1(2) mem_write_erased [OF il, of ?b "fl_mem (ab k)"] by simp
  moreover have "fl_bad (ab k5) = fl_bad (ab k)"
    using k5 k4(2) k3(2) k2(3) k1(2) by simp
  ultimately show ?thesis
    using that k2(5) by blast
qed

lemma unit_step_start:
  assumes "info_ok info" "unit_ok info u" "0 \<le> off" "off < info_size info" "live info bad off"
  shows "start_ok info bad (off - off mod u + u)" "(off - off mod u + u) mod u = 0"
proof -
  let ?e = "info_erasesize info" and ?t = "off - off mod u + u"
  have e: "0 < ?e" "info_size info mod ?e = 0" "0 < u" "?e mod u = 0"
    using assms(1,2) by (auto simp: info_ok_def unit_ok_def)
  note ub = unit_in_block [OF e(3,1,4) assms(3)]
  note be = block_end [OF e(1) assms(3,4) e(2)]
  have t: "0 \<le> ?t" "off < ?t"
    using pos_mod_bound [OF e(3), of off] assms(3) by linarith+
  show "start_ok info bad ?t"
  proof (cases "?t = off - off mod ?e + ?e")
    case True
    then have "?t mod ?e = 0"
      using be(3) by (simp only:)
    with t(1) show ?thesis
      unfolding start_ok_def by blast
  next
    case False
    then have "?t div ?e = off div ?e"
      using same_block [OF e(1), of off ?t] ub t(2) pos_mod_sign [OF e(1), of off] by linarith
    with assms(5) t(1) show ?thesis
      unfolding start_ok_def live_def by simp
  qed
  show "?t mod u = 0"
    by (simp add: minus_mod_eq_mult_div)
qed

lemma store_take_append:
  assumes "length C = n" "written + n \<le> len" "len \<le> length buf"
  shows "store_at (take (len - (written + n)) R) (drop (written + n) buf)
      (store_at C (take n (drop written buf)) mem) =
    store_at (take (len - written) (C @ R)) (drop written buf) mem"
proof -
  have d: "drop written buf = take n (drop written buf) @ drop (written + n) buf"
    by (metis add.commute append_take_drop_id drop_drop)
  have t: "take (len - written) (C @ R) = C @ take (len - (written + n)) R"
    using assms(1,2) by simp
  have "length C = length (take n (drop written buf))"
    using assms by simp
  then have "store_at (C @ take (len - (written + n)) R) (take n (drop written buf) @ drop (written + n) buf) mem =
      store_at (take (len - (written + n)) R) (drop (written + n) buf) (store_at C (take n (drop written buf)) mem)"
    by (rule store_at_append)
  then show ?thesis
    unfolding t d [symmetric] by (rule sym)
qed

lemma write_loop_spec:
  assumes "mtd_laws drv ab info" "info_ok info" "unit_ok info u"
  shows "u = write_unit dev info \<Longrightarrow> erase_never_fails drv ab info dev \<Longrightarrow> bad_seen (dev_type dev) bad \<Longrightarrow>
    start_ok info bad (dev_offset dev) \<Longrightarrow> fl_bad (ab k) = bad \<Longrightarrow> length wrbuf = nat u \<Longrightarrow>
    dev_offset dev mod u = 0 \<or> written = 0 \<Longrightarrow> written < len \<Longrightarrow> len \<le> length buf \<Longrightarrow>
    \<exists>k'. fl_bad (ab k') = bad \<and>
      fl_mem (ab k') = store_at (take (len - written) (live_from info bad (dev_offset dev)))
        (drop written buf) (fl_mem (ab k)) \<and>
      write_loop drv u info buf len dev k wrbuf written =
        Some (written + min (len - written) (length (live_from info bad (dev_offset dev))),
              dev\<lparr>dev_offset := transfer_end info (live_from info bad (dev_offset dev)) (len - written)
                    (dev_offset dev)\<rparr>, k')"
proof (induction "nat (info_size info - dev_offset dev)" arbitrary: dev k wrbuf written rule: less_induct)
  case less
  let ?e = "info_erasesize info" and ?sz = "info_size info" and ?off = "dev_offset dev"
  let ?A = "live_from info bad ?off"
  have e: "0 < ?e" "?sz mod ?e = 0" "0 < u" "?e mod u = 0" and off: "0 \<le> ?off"
    using assms(2,3) less.prems(4) by (auto simp: info_ok_def start_ok_def unit_ok_def)
  consider "?sz \<le> ?off" | "?off < ?sz" "\<not> live info bad ?off" | "?off < ?sz" "live info bad ?off"
    by linarith
  then show ?case
  proof cases
    case 1
    then show ?thesis
      using less.prems by (intro exI [of _ k]) (simp add: write_loop.simps [of _ _ _ _ _ dev] transfer_end_def)
  next
    case 2
    then have al: "?off mod ?e = 0" and ty: "dev_type dev = STO_TYPE_NAND"
      using less.prems(3,4) by (auto simp: start_ok_def bad_seen_def live_def)
    note be = block_end [OF e(1) off 2(1) e(2)]
    let ?dev = "dev\<lparr>dev_offset := ?off + ?e\<rparr>"
    have step: "write_loop drv u info buf len dev k wrbuf written = write_loop drv u info buf len ?dev k wrbuf written"
      using 2 e mtd_bad [OF assms(1) off 2(1), of k] ty less.prems(5,8)
      by (subst write_loop.simps) simp
    have st: "start_ok info bad (dev_offset ?dev)" "(?off + ?e) mod u = 0"
      using off e al be mod_mod_cancel [of u ?e "?off + ?e"] by (simp_all add: start_ok_def mod_eq_0_iff_dvd)
    have te: "transfer_end info as n (?off + ?e) = transfer_end info as n ?off" for as n
      using be(2) al 2(1) by (simp add: transfer_end_def max_def)
    show ?thesis
      using less.hyps [of ?dev k wrbuf written] less.prems st 2(1) e(1)
        live_from_bad [OF assms(2) off 2 al] step te by simp
  next
    case 3
    define n where "n = min (nat (u - ?off mod u)) (len - written)"
    have m: "?off mod u < u" "0 \<le> ?off mod u"
      using e(3) by simp_all
    have n: "0 < n" "?off + int n \<le> ?off - ?off mod u + u" "written + n \<le> len"
      using less.prems(8) m by (auto simp: n_def)
    let ?C = "[?off..?off + int n - 1]" and ?R = "live_from info bad (?off + int n)"
    have A: "?A = ?C @ ?R"
      using live_from_good [OF assms(2) off 3, of "?off + int n"] n(2) unit_in_block [OF e(3,1,4) off] by simp
    obtain k' w where k': "fl_bad (ab k') = bad" "length w = nat u"
      "fl_mem (ab k') = store_at ?C (take n (drop written buf)) (fl_mem (ab k))"
      "write_loop drv u info buf len dev k wrbuf written =
        (let dev' = dev\<lparr>dev_offset := ?off + int n\<rparr>
         in if written + n < len then write_loop drv u info buf len dev' k' w (written + n)
            else Some (written + n, dev', k'))"
      using write_loop_good [OF assms less.prems(1,2) off 3(1) _ less.prems(6-9) n_def] 3(2) less.prems(5) by blast
    note st = store_take_append [of ?C n written len buf ?R "fl_mem (ab k)", OF _ n(3) less.prems(9)]
    show ?thesis
    proof (cases "written + n < len")
      case True
      then have "?off + int n = ?off - ?off mod u + u"
        using m unfolding n_def by linarith
      then have so: "start_ok info bad (?off + int n)" "(?off + int n) mod u = 0"
        using unit_step_start [OF assms(2,3) off 3] by (simp_all only:)
      let ?dev = "dev\<lparr>dev_offset := ?off + int n\<rparr>"
      from less.hyps [of ?dev k' w "written + n"] less.prems so k'(1,2) True n(1) 3(1)
      obtain k'' where k'': "fl_bad (ab k'') = bad"
        "fl_mem (ab k'') = store_at (take (len - (written + n)) ?R) (drop (written + n) buf) (fl_mem (ab k'))"
        "write_loop drv u info buf len ?dev k' w (written + n) =
          Some (written + n + min (len - (written + n)) (length ?R),
                dev\<lparr>dev_offset := transfer_end info ?R (len - (written + n)) (?off + int n)\<rparr>, k'')"
        by auto
      moreover have "transfer_end info ?A (len - written) ?off =
          transfer_end info ?R (len - (written + n)) (?off + int n)"
        using transfer_end_append [of ?C "len - written" "?off + int n" info ?off] True n(2) 3(1) A
          block_end(2) [OF e(1) off 3(1) e(2)] unit_in_block(2) [OF e(3,1,4) off]
        by (simp add: diff_diff_left)
      moreover have "written + min (len - written) (n + l) = written + n + min (len - (written + n)) l" for l
        using True by arith
      ultimately show ?thesis
        using k'(3,4) True A st by (intro exI [of _ k'']) (simp add: Let_def)
    next
      case False
      then have "len - written = n"
        using n(3) less.prems(8) by simp
      then show ?thesis
        using k' False A n(1) st
        by (intro exI [of _ k']) (simp add: transfer_end_def nth_append Let_def)
    qed
  qed
qed

subsection \<open>A simulated flash\<close>

text \<open>A driver over the abstract flash itself, with the geometry of \<open>demo_dev\<close>: it obeys the laws.\<close>

definition sim_drv :: "flash mtd_driver" where
  "sim_drv = \<lparr>memgetinfo = \<lambda>k. (0, demo_info),
     memgetbadblock = \<lambda>k a. if a < 0 \<or> 16 \<le> a then -1 else if fl_bad k (a div 4) then 1 else 0,
     memsetbadblock = \<lambda>k a. (0, k\<lparr>fl_bad := (fl_bad k)(a div 4 := True)\<rparr>),
     memerase = \<lambda>k a n. (0, k\<lparr>fl_mem := mem_erase a n (fl_mem k)\<rparr>),
     memerase4k = \<lambda>k a n. (0, k\<lparr>fl_mem := mem_erase a n (fl_mem k)\<rparr>),
     klseek = \<lambda>k a. (a, k\<lparr>fl_pos := a\<rparr>),
     kread = \<lambda>k n. (n, bytes_at (fl_mem k) (fl_pos k) n, k\<lparr>fl_pos := fl_pos k + n\<rparr>),
     kwrite = \<lambda>k bs. (int (length bs), k\<lparr>fl_mem := mem_write (fl_pos k) bs (fl_mem k),
                                          fl_pos := fl_pos k + int (length bs)\<rparr>)\<rparr>"

definition sim_flash :: flash where
  "sim_flash = \<lparr>fl_mem = \<lambda>a. of_int a, fl_pos = 0, fl_bad = \<lambda>b. b = 1\<rparr>"

lemma sim_laws: "mtd_laws sim_drv (\<lambda>k. k) demo_info"
  by (simp add: mtd_laws_def driver_laws sim_drv_def demo_info_def)

lemma sim_start:
  "dev_info demo_dev = Valid demo_info" "info_ok demo_info" "bad_seen (dev_type demo_dev) (fl_bad sim_flash)"
  "start_ok demo_info (fl_bad sim_flash) (dev_offset demo_dev)"
  "unit_ok demo_info (write_unit demo_dev demo_info)"
  "erase_never_fails sim_drv (\<lambda>k. k) demo_info demo_dev"
  by (simp_all add: demo_dev_def demo_info_def info_ok_def bad_seen_def start_ok_def unit_ok_def write_unit_def
      erase_never_fails_def erase_unit_def sim_drv_def STO_ERASE_TYPE_SECTOR_def)

lemma sim_mem: "fl_mem sim_flash a = of_int a"
  by (simp add: sim_flash_def)

lemma sim_live: "live_from demo_info (fl_bad sim_flash) (dev_offset demo_dev) = [0, 1, 2, 3, 8, 9, 10, 11, 12, 13, 14, 15]"
  by code_simp

subsection \<open>Transfers on an open device\<close>

lemma alislsto_read_spec:
  assumes "mtd_laws drv ab info" and "dev_info dev = Valid info" and "info_ok info"
    and "bad_seen (dev_type dev) (fl_bad (ab k))"
    and "start_ok info (fl_bad (ab k)) (dev_offset dev)"
    and "0 < len" and "len \<le> length buf"
    and "as = live_from info (fl_bad (ab k)) (dev_offset dev)"
  shows "\<exists>k'. alislsto_read drv (Some dev) k (Some buf) len =
      Some (int (min len (length as)), Some (memcpy_at 0 (map (fl_mem (ab k)) (take len as)) buf),
            Some (dev\<lparr>dev_offset := transfer_end info as len (dev_offset dev)\<rparr>), k') \<and>
    fl_mem (ab k') = fl_mem (ab k) \<and> fl_bad (ab k') = fl_bad (ab k)"
  using read_loop_spec [OF assms(1,3,4,5) refl refl, of 0 len buf] assms(2,6-8)
  by (auto simp: alislsto_read_def)

text \<open>
  Reading \<open>len\<close> bytes, from a block boundary or from inside a good block, fills the
  buffer with the bytes of the good blocks from that position on, in order and without
  those of the bad blocks; it returns the number of bytes there were, leaves the position
  behind the last byte read and does not change the flash.
\<close>

lemma read_returns_good_bytes:
  assumes "mtd_laws drv ab info" and "dev_info dev = Valid info" and "info_ok info"
    and "bad_seen (dev_type dev) (fl_bad (ab k))"
    and "start_ok info (fl_bad (ab k)) (dev_offset dev)"
    and "0 < len" and "len \<le> length buf"
    and "as = live_from info (fl_bad (ab k)) (dev_offset dev)"
  shows "\<exists>k'. alislsto_read drv (Some dev) k (Some buf) len =
      Some (int (min len (length as)), Some (memcpy_at 0 (map (fl_mem (ab k)) (take len as)) buf),
            Some (dev\<lparr>dev_offset := transfer_end info as len (dev_offset dev)\<rparr>), k') \<and>
    fl_mem (ab k') = fl_mem (ab k) \<and> fl_bad (ab k') = fl_bad (ab k)"
  by (rule alislsto_read_spec [OF assms])

lemma alislsto_write_spec:
  assumes "mtd_laws drv ab info" and "dev_info dev = Valid info" and "info_ok info"
    and "bad_seen (dev_type dev) (fl_bad (ab k))"
    and "start_ok info (fl_bad (ab k)) (dev_offset dev)"
    and "unit_ok info (write_unit dev info)" and "erase_never_fails drv ab info dev"
    and "0 < len" and "len \<le> length buf"
    and "as = live_from info (fl_bad (ab k)) (dev_offset dev)"
  shows "\<exists>k'. alislsto_write drv True (Some dev) k (Some buf) len =
      Some (int (min len (length as)),
            Some (dev\<lparr>dev_offset := transfer_end info as len (dev_offset dev)\<rparr>), k') \<and>
    fl_mem (ab k') = store_at (take len as) buf (fl_mem (ab k)) \<and> fl_bad (ab k') = fl_bad (ab k)"
proof -
  let ?w = "replicate (nat (write_unit dev info)) (0 :: u8)"
  have "length ?w = nat (write_unit dev info)" "dev_offset dev mod write_unit dev info = 0 \<or> (0 :: nat) = 0"
    by simp_all
  from write_loop_spec [OF assms(1,3,6) refl assms(7,4,5) refl this assms(8,9)] show ?thesis
    using assms(2,10) by (auto simp: alislsto_write_def)
qed

text \<open>
  (C21) When no erasure fails, writing \<open>len\<close> bytes stores them at the good addresses from the
  position on, in order, and leaves every other byte of the flash as it was, those of the
  partly covered first and last unit included; the number of bytes that fitted is returned
  and the position is behind the last one.
\<close>

theorem write_stores_exactly:
  assumes "mtd_laws drv ab info" and "dev_info dev = Valid info" and "info_ok info"
    and "bad_seen (dev_type dev) (fl_bad (ab k))"
    and "start_ok info (fl_bad (ab k)) (dev_offset dev)"
    and "unit_ok info (write_unit dev info)" and "erase_never_fails drv ab info dev"
    and "0 < len" and "len \<le> length buf"
    and "as = live_from info (fl_bad (ab k)) (dev_offset dev)"
  shows "\<exists>k'. alislsto_write drv True (Some dev) k (Some buf) len =
      Some (int (min len (length as)),
            Some (dev\<lparr>dev_offset := transfer_end info as len (dev_offset dev)\<rparr>), k') \<and>
    fl_mem (ab k') = store_at (take len as) buf (fl_mem (ab k)) \<and> fl_bad (ab k') = fl_bad (ab k)"
  by (rule alislsto_write_spec [OF assms])

theorem write_stores_exactly_witness:
  "\<exists>k'. alislsto_write sim_drv True (Some demo_dev) sim_flash (Some [7, 7, 7, 7, 7, 7]) 6 =
     Some (6, Some (demo_dev\<lparr>dev_offset := 10\<rparr>), k') \<and> fl_mem k' 9 = 7 \<and> fl_mem k' 10 = 10 \<and> fl_mem k' 5 = 5"
  using write_stores_exactly [OF sim_laws sim_start(1-6) _ _ refl, of 6 "[7, 7, 7, 7, 7, 7]"]
  by (auto simp: sim_live transfer_end_def store_at_def sim_mem)

subsection \<open>Erasing\<close>

lemma live_from_bad_unit:
  assumes "info_ok info" "unit_ok info u" "0 \<le> off" "off < info_size info" "\<not> live info bad off" "off mod u = 0"
  shows "live_from info bad off = live_from info bad (off + u)"
proof -
  let ?e = "info_erasesize info"
  have e: "0 < ?e" "info_size info mod ?e = 0" "0 < u" "?e mod u = 0"
    using assms(1,2) by (auto simp: info_ok_def unit_ok_def)
  have ub: "off - off mod ?e \<le> off" "off + u \<le> off - off mod ?e + ?e"
    using unit_in_block [OF e(3,1,4) assms(3)] assms(6) by simp_all
  note be = block_end [OF e(1) assms(3,4) e(2)]
  have "\<not> live info bad a" if "a \<in> set [off..off + u - 1]" for a
    using that same_block [OF e(1), of off a] assms(5) ub by (simp add: live_def)
  then have "filter (live info bad) [off..off + u - 1] = []"
    by (simp only: filter_empty_conv) blast
  then show ?thesis
    using upto_append [of off "off + u" "info_size info - 1"] e(3) ub(2) be(2)
    by (simp add: live_from_def)
qed

text \<open>The memory after the addresses \<open>as\<close> were erased.\<close>

definition erase_at :: "int list \<Rightarrow> (int \<Rightarrow> u8) \<Rightarrow> int \<Rightarrow> u8" where
  "erase_at as mem = (\<lambda>x. if x \<in> set as then 0xff else mem x)"

lemma erase_at_append: "erase_at (as @ bs) mem = erase_at bs (erase_at as mem)"
  by (auto simp: erase_at_def)

lemma erase_at_upto: "mem_erase a u mem = erase_at [a..a + u - 1] mem"
  by (auto simp: erase_at_def mem_erase_def)

lemma erase_loop_spec:
  assumes "mtd_laws drv ab info" "info_ok info" "unit_ok info u" "u = write_unit dev info"
    "erase_never_fails drv ab info dev" "dev_info_logic dev = Valid logic"
  shows "bad_seen (dev_type dev) bad \<Longrightarrow> 0 \<le> start \<Longrightarrow> start mod u = 0 \<Longrightarrow> fl_bad (ab k) = bad \<Longrightarrow>
    i \<le> num \<Longrightarrow>
    \<exists>k'. fl_bad (ab k') = bad \<and>
      fl_mem (ab k') = erase_at (take (nat ((num - i) * u)) (live_from info bad start)) (fl_mem (ab k)) \<and>
      erase_loop drv info u len al num dev k start i =
        Some (if (num - i) * u \<le> int (length (live_from info bad start)) \<or> al = 0 \<and> info_size logic \<le> len
              then STO_ERR_NONE else STO_ERR_OVERFLOW, dev, k')"
proof (induction "nat (info_size info - start)" arbitrary: start k i rule: less_induct)
  case less
  let ?sz = "info_size info"
  have u: "0 < u"
    using assms(3) by (auto simp: unit_ok_def)
  have al: "(start + u) mod u = 0"
    using less.prems(3) by simp
  consider "i = num" | "i < num" "?sz \<le> start" | "i < num" "start < ?sz" "\<not> live info bad start"
    | "i < num" "start < ?sz" "live info bad start"
    using less.prems(5) by linarith
  then show ?case
  proof cases
    case 1
    then show ?thesis
      using less.prems by (intro exI [of _ k]) (simp add: erase_loop.simps [of _ _ _ _ _ _ _ _ start] erase_at_def)
  next
    case 2
    have "0 < (num - i) * u"
      using 2(1) u by simp
    then show ?thesis
      using 2 less.prems assms(6)
      by (intro exI [of _ k]) (auto simp: erase_loop.simps [of _ _ _ _ _ _ _ _ start] erase_at_def)
  next
    case 3
    then have ty: "dev_type dev = STO_TYPE_NAND"
      using less.prems(1) by (auto simp: bad_seen_def live_def)
    have step: "erase_loop drv info u len al num dev k start i = erase_loop drv info u len al num dev k (start + u) i"
      using 3 u ty mtd_bad [OF assms(1) less.prems(2) 3(2), of k] less.prems(4)
      by (subst erase_loop.simps) simp
    show ?thesis
      using less.hyps [of "start + u" k i] less.prems 3(2) u al step
        live_from_bad_unit [OF assms(2,3) less.prems(2) 3(2,3) less.prems(3)] by simp
  next
    case 4
    let ?C = "[start..start + u - 1]" and ?R = "live_from info bad (start + u)"
    have ib: "in_block info (ab k) start u"
      using in_block_unit [OF assms(2,3) less.prems(2) 4(2), of "ab k"] 4(3) less.prems(3,4) by simp
    obtain k1 where k1: "erase_unit drv dev k start u = (0, k1)"
      "ab k1 = (ab k)\<lparr>fl_mem := mem_erase start u (fl_mem (ab k))\<rparr>"
      using mtd_erase [OF assms(1,5), of k start] ib less.prems(3) assms(4) by auto
    have nb: "(dev_type dev = STO_TYPE_NAND \<and> memgetbadblock drv k start \<noteq> 0) = False"
      using mtd_bad [OF assms(1) less.prems(2) 4(2), of k] 4(3) less.prems(4) by simp
    have step: "erase_loop drv info u len al num dev k start i =
        erase_loop drv info u len al num dev k1 (start + u) (i + 1)"
      unfolding erase_loop.simps [of drv info u len al num dev k start] nb if_False
      using 4(1,2) u k1(1) by simp
    have A: "live_from info bad start = ?C @ ?R"
      using live_from_good [OF assms(2) less.prems(2) 4(2,3), of "start + u"] u
        unit_in_block(2) [of u "info_erasesize info" start] less.prems(2,3) assms(2,3)
      by (simp add: unit_ok_def info_ok_def)
    have n: "(num - i) * u = u + (num - (i + 1)) * u"
      by (simp add: algebra_simps)
    moreover have "0 \<le> (num - (i + 1)) * u"
      using 4(1) u by simp
    ultimately have n': "nat ((num - i) * u) = nat u + nat ((num - (i + 1)) * u)"
      using u by (simp add: nat_add_distrib)
    from less.hyps [of "start + u" k1 "i + 1"] less.prems 4(1,2) u al k1(2)
    obtain k' where "fl_bad (ab k') = bad"
      "fl_mem (ab k') = erase_at (take (nat ((num - (i + 1)) * u)) ?R) (fl_mem (ab k1))"
      "erase_loop drv info u len al num dev k1 (start + u) (i + 1) =
        Some (if (num - (i + 1)) * u \<le> int (length ?R) \<or> al = 0 \<and> info_size logic \<le> len
              then STO_ERR_NONE else STO_ERR_OVERFLOW, dev, k')"
      by auto
    then show ?thesis
      using step A n n' u k1(2) by (intro exI [of _ k']) (simp add: erase_at_append erase_at_upto)
  qed
qed

lemma alislsto_erase_spec:
  assumes "mtd_laws drv ab info" and "dev_ok dev" and "dev_info dev = Valid info"
    and "bad_seen (dev_type dev) (fl_bad (ab k))" and "info_erasesize info < 2 ^ 31"
    and "unit_ok info (write_unit dev info)" and "erase_never_fails drv ab info dev"
    and "0 \<le> start" and "start \<le> info_size info" and "start mod info_erasesize info = 0"
    and "0 \<le> len" and "len < 2 ^ 31" and "len mod info_erasesize info = 0"
    and "as = live_from info (fl_bad (ab k)) start"
  shows "\<exists>k'. alislsto_erase drv (Some dev) k start len =
      Some (if len \<le> int (length as) \<or>
               alislsto_get_logic_addr (Some dev) start = Some (0, Some 0) \<and> dev_lsize dev \<le> len
            then STO_ERR_NONE else STO_ERR_OVERFLOW, Some dev, k') \<and>
    fl_mem (ab k') = erase_at (take (nat len) as) (fl_mem (ab k)) \<and> fl_bad (ab k') = fl_bad (ab k)"
proof -
  let ?e = "info_erasesize info" and ?u = "write_unit dev info"
  obtain logic where l: "dev_info_logic dev = Valid logic" "dev_lsize dev = info_size logic"
    "dev_psize dev = info_size info"
    using dev_ok_sizes [OF assms(2)] assms(3) by (metis ptr.inject)
  have i: "info_ok info"
    using assms(2,3) by (simp add: dev_ok_def)
  have e: "0 < ?e" "to_int32 ?e = ?e" "0 < ?u" "?e mod ?u = 0"
    using i assms(5,6) by (auto simp: info_ok_def unit_ok_def intro: to_int32_id)
  have su: "start mod ?u = 0" "len mod ?u = 0"
    using e(4) assms(10,13) by (metis dvd_trans mod_0_imp_dvd mod_eq_0_iff_dvd)+
  then have du: "len div ?u * ?u = len"
    by (metis add.right_neutral div_mult_mod_eq)
  obtain x where x: "alislsto_get_logic_addr (Some dev) start = Some (0, Some x)"
    using logic_addr_total [OF assms(2,8)] assms(9) l(3) by auto
  have "0 \<le> len div ?u"
    using assms(11) e(3) by (simp add: pos_imp_zdiv_nonneg_iff)
  then have n: "to_int32 (len div ?u) = len div ?u" "0 \<le> len div ?u"
    using assms(12) div_le_self [OF assms(11) e(3)] by (auto intro!: to_int32_id)
  have w: "(if dev_erase_type dev = STO_ERASE_TYPE_SECTOR then SECTOR_SIZE_4K else ?e) = ?u"
    by (simp add: write_unit_def)
  from erase_loop_spec [OF assms(1) i assms(6) refl assms(7) l(1) assms(4,8) su(1) refl n(2), of len x]
  obtain k' where "fl_bad (ab k') = fl_bad (ab k)" "fl_mem (ab k') = erase_at (take (nat len) as) (fl_mem (ab k))"
    "erase_loop drv info ?u len x (len div ?u) dev k start 0 =
        Some (if len \<le> int (length as) \<or> x = 0 \<and> info_size logic \<le> len then STO_ERR_NONE
              else STO_ERR_OVERFLOW, dev, k')"
    using assms(14) du by auto
  then show ?thesis
    using assms(3,8,10,13) e x n(1) l(2) w smod_nonneg [OF assms(8) e(1)]
    by (intro exI [of _ k']) (auto simp: alislsto_erase_def)
qed

text \<open>
  (C23) When no erasure fails, \<open>alislsto_erase\<close> of a block-aligned range sets exactly the
  first \<open>len\<close> bytes of the good blocks from \<open>start\<close> on to \<open>0xff\<close> (all of them when there are
  fewer) and keeps every other byte; it reports success when there are enough, or when the
  whole device was asked for, and an overflow otherwise.
\<close>

theorem erase_clears_good_blocks:
  assumes "mtd_laws drv ab info" and "dev_ok dev" and "dev_info dev = Valid info"
    and "bad_seen (dev_type dev) (fl_bad (ab k))" and "info_erasesize info < 2 ^ 31"
    and "unit_ok info (write_unit dev info)" and "erase_never_fails drv ab info dev"
    and "0 \<le> start" and "start \<le> info_size info" and "start mod info_erasesize info = 0"
    and "0 \<le> len" and "len < 2 ^ 31" and "len mod info_erasesize info = 0"
    and "as = live_from info (fl_bad (ab k)) start"
  shows "\<exists>k'. alislsto_erase drv (Some dev) k start len =
      Some (if len \<le> int (length as) \<or>
               alislsto_get_logic_addr (Some dev) start = Some (0, Some 0) \<and> dev_lsize dev \<le> len
            then STO_ERR_NONE else STO_ERR_OVERFLOW, Some dev, k') \<and>
    fl_mem (ab k') = erase_at (take (nat len) as) (fl_mem (ab k)) \<and> fl_bad (ab k') = fl_bad (ab k)"
  by (rule alislsto_erase_spec [OF assms])

theorem erase_clears_good_blocks_witness:
  "\<exists>k'. alislsto_erase sim_drv (Some demo_dev) sim_flash 0 8 = Some (STO_ERR_NONE, Some demo_dev, k') \<and>
     fl_mem k' 3 = 0xff \<and> fl_mem k' 5 = 5 \<and> fl_mem k' 11 = 0xff \<and> fl_mem k' 12 = 12"
proof -
  have d: "dev_offset demo_dev = 0" "info_erasesize demo_info = 4" "info_size demo_info = 16"
    by (simp_all add: demo_dev_def demo_info_def)
  show ?thesis
    using erase_clears_good_blocks [OF sim_laws demo_dev_ok sim_start(1,3) _ sim_start(5,6) _ _ _ _ _ _ refl, of 0 8]
      sim_live d by (auto simp: erase_at_def sim_mem)
qed

subsection \<open>The contract of a byte store\<close>

text \<open>
  What the upgrade writer and the system information rely on: a read returns the cells
  from the position on, a write stores exactly the data there, and the position can be
  put back. Reading back what was written, and independence of disjoint writes, follow.
\<close>

locale byte_store =
  fixes ok :: "'s \<Rightarrow> bool"
    and addrs :: "'s \<Rightarrow> int list"
    and cell :: "'s \<Rightarrow> int \<Rightarrow> u8"
    and rd :: "'s \<Rightarrow> nat \<Rightarrow> (int \<times> u8 list \<times> 's) option"
    and wr :: "'s \<Rightarrow> u8 list \<Rightarrow> (int \<times> 's) option"
    and rewind :: "'s \<Rightarrow> 's \<Rightarrow> 's"
  assumes addrs_distinct: "ok s \<Longrightarrow> distinct (addrs s)"
    and rd_cells: "ok s \<Longrightarrow> 0 < n \<Longrightarrow> n \<le> length (addrs s) \<Longrightarrow>
      \<exists>s'. rd s n = Some (int n, map (cell s) (take n (addrs s)), s') \<and> cell s' = cell s"
    and wr_cells: "ok s \<Longrightarrow> bs \<noteq> [] \<Longrightarrow> length bs \<le> length (addrs s) \<Longrightarrow>
      \<exists>s'. wr s bs = Some (int (length bs), s') \<and>
           cell (rewind s s') = store_at (take (length bs) (addrs s)) bs (cell s) \<and>
           ok (rewind s s') \<and> addrs (rewind s s') = addrs s"
begin

lemma write_read:
  assumes "ok s" "bs \<noteq> []" "length bs \<le> length (addrs s)"
  shows "\<exists>s' s''. wr s bs = Some (int (length bs), s') \<and> rd (rewind s s') (length bs) = Some (int (length bs), bs, s'') \<and>
    (\<forall>a. a \<notin> set (take (length bs) (addrs s)) \<longrightarrow> cell s'' a = cell s a)"
proof -
  obtain s' where s': "wr s bs = Some (int (length bs), s')"
    "cell (rewind s s') = store_at (take (length bs) (addrs s)) bs (cell s)"
    "ok (rewind s s')" "addrs (rewind s s') = addrs s"
    using wr_cells [OF assms] by blast
  have n: "0 < length bs" "length bs \<le> length (addrs (rewind s s'))"
    using assms(2,3) s'(4) by simp_all
  obtain s'' where s'': "rd (rewind s s') (length bs) =
      Some (int (length bs), map (cell (rewind s s')) (take (length bs) (addrs (rewind s s'))), s'')"
    "cell s'' = cell (rewind s s')"
    using rd_cells [OF s'(3) n] by blast
  moreover have "map (cell (rewind s s')) (take (length bs) (addrs (rewind s s'))) = bs"
    using map_store_at [of "take (length bs) (addrs s)" bs] addrs_distinct [OF assms(1)] assms(3) s'(2,4)
    by (simp add: distinct_take)
  ultimately show ?thesis
    using s'(1,2) by (intro exI [of _ s'] exI [of _ s'']) (simp add: store_at_other)
qed

end

text \<open>An open device as a byte store: driver, abstraction, descriptor and driver state.\<close>

type_synonym 'k store = "'k mtd_driver \<times> ('k \<Rightarrow> flash) \<times> alislsto_dev \<times> 'k"

definition store_info :: "alislsto_dev \<Rightarrow> mtd_info" where
  "store_info dev = (case dev_info dev of Valid info \<Rightarrow> info | _ \<Rightarrow> demo_info)"

definition store_ok :: "'k store \<Rightarrow> bool" where
  "store_ok = (\<lambda>(drv, ab, dev, k). let info = store_info dev in
     dev_info dev = Valid info \<and> mtd_laws drv ab info \<and> info_ok info \<and>
     bad_seen (dev_type dev) (fl_bad (ab k)) \<and> start_ok info (fl_bad (ab k)) (dev_offset dev) \<and>
     unit_ok info (write_unit dev info) \<and> erase_never_fails drv ab info dev)"

definition store_addrs :: "'k store \<Rightarrow> int list" where
  "store_addrs = (\<lambda>(drv, ab, dev, k). live_from (store_info dev) (fl_bad (ab k)) (dev_offset dev))"

definition store_cell :: "'k store \<Rightarrow> int \<Rightarrow> u8" where
  "store_cell = (\<lambda>(drv, ab, dev, k). fl_mem (ab k))"

definition store_read :: "'k store \<Rightarrow> nat \<Rightarrow> (int \<times> u8 list \<times> 'k store) option" where
  "store_read = (\<lambda>(drv, ab, dev, k) n.
     case alislsto_read drv (Some dev) k (Some (replicate n 0)) n of
       Some (r, Some bs, Some dev', k') \<Rightarrow> Some (r, bs, (drv, ab, dev', k'))
     | _ \<Rightarrow> None)"

definition store_write :: "'k store \<Rightarrow> u8 list \<Rightarrow> (int \<times> 'k store) option" where
  "store_write = (\<lambda>(drv, ab, dev, k) bs.
     case alislsto_write drv True (Some dev) k (Some bs) (length bs) of
       Some (r, Some dev', k') \<Rightarrow> Some (r, (drv, ab, dev', k'))
     | _ \<Rightarrow> None)"

definition store_rewind :: "'k store \<Rightarrow> 'k store \<Rightarrow> 'k store" where
  "store_rewind = (\<lambda>(drv0, ab0, dev0, k0) (drv, ab, dev, k).
     (drv, ab, dev\<lparr>dev_offset := dev_offset dev0\<rparr>, k))"

lemma store_info_Valid [simp]: "dev_info dev = Valid info \<Longrightarrow> store_info dev = info"
  by (simp add: store_info_def)

lemma store_info_offset [simp]: "store_info (dev\<lparr>dev_offset := x\<rparr>) = store_info dev"
  by (simp add: store_info_def)

lemma store_ok_iff:
  "store_ok (drv, ab, dev, k) \<longleftrightarrow> (\<exists>info. dev_info dev = Valid info \<and> mtd_laws drv ab info \<and> info_ok info \<and>
     bad_seen (dev_type dev) (fl_bad (ab k)) \<and> start_ok info (fl_bad (ab k)) (dev_offset dev) \<and>
     unit_ok info (write_unit dev info) \<and> erase_never_fails drv ab info dev)"
  by (auto simp: store_ok_def Let_def)

lemma store_read_iff:
  "store_read (drv, ab, dev, k) n = Some (r, bs, s') \<longleftrightarrow> (\<exists>dev' k'. s' = (drv, ab, dev', k') \<and>
     alislsto_read drv (Some dev) k (Some (replicate n 0)) n = Some (r, Some bs, Some dev', k'))"
  by (auto simp: store_read_def split: option.splits)

lemma store_write_iff:
  "store_write (drv, ab, dev, k) bs = Some (r, s') \<longleftrightarrow> (\<exists>dev' k'. s' = (drv, ab, dev', k') \<and>
     alislsto_write drv True (Some dev) k (Some bs) (length bs) = Some (r, Some dev', k'))"
  by (auto simp: store_write_def split: option.splits)

lemma store_read_cells:
  assumes "store_ok s" "0 < n" "n \<le> length (store_addrs s)"
  shows "\<exists>s'. store_read s n = Some (int n, map (store_cell s) (take n (store_addrs s)), s') \<and> store_cell s' = store_cell s"
proof -
  obtain drv ab dev k where s: "s = (drv, ab, dev, k)"
    by (cases s) auto
  from assms(1) obtain info where i: "dev_info dev = Valid info" "mtd_laws drv ab info" "info_ok info"
    "bad_seen (dev_type dev) (fl_bad (ab k))" "start_ok info (fl_bad (ab k)) (dev_offset dev)"
    unfolding s store_ok_iff by blast
  from read_loop_spec [OF i(2-5) refl refl, of 0 n "replicate n 0"] assms(2)
  obtain k' where "fl_mem (ab k') = fl_mem (ab k)"
    "read_loop drv (dev_type dev) info n (dev_offset dev) k (replicate n 0) 0 =
      Some (n, transfer_end info (store_addrs s) n (dev_offset dev), k',
            memcpy_at 0 (map (fl_mem (ab k)) (take n (store_addrs s))) (replicate n 0))"
    using assms(3) i(1) by (auto simp: s store_addrs_def min_def)
  then show ?thesis
    using i(1) assms(3) by (simp add: s store_read_def alislsto_read_def store_cell_def memcpy_at_def)
qed

lemma store_write_cells:
  assumes "store_ok s" "bs \<noteq> []" "length bs \<le> length (store_addrs s)"
  shows "\<exists>s'. store_write s bs = Some (int (length bs), s') \<and>
    store_cell (store_rewind s s') = store_at (take (length bs) (store_addrs s)) bs (store_cell s) \<and>
    store_ok (store_rewind s s') \<and> store_addrs (store_rewind s s') = store_addrs s"
proof -
  obtain drv ab dev k where s: "s = (drv, ab, dev, k)"
    by (cases s) auto
  from assms(1) obtain info where i: "dev_info dev = Valid info" "mtd_laws drv ab info" "info_ok info"
    "bad_seen (dev_type dev) (fl_bad (ab k))" "start_ok info (fl_bad (ab k)) (dev_offset dev)"
    "unit_ok info (write_unit dev info)" "erase_never_fails drv ab info dev"
    unfolding s store_ok_iff by blast
  let ?w = "replicate (nat (write_unit dev info)) (0 :: u8)"
  have w: "length ?w = nat (write_unit dev info)" "dev_offset dev mod write_unit dev info = 0 \<or> (0 :: nat) = 0"
    by simp_all
  from write_loop_spec [OF i(2,3,6) refl i(7,4,5) refl w, of "length bs" bs] assms(2)
  obtain k' where k': "fl_bad (ab k') = fl_bad (ab k)"
    "fl_mem (ab k') = store_at (take (length bs) (store_addrs s)) bs (fl_mem (ab k))"
    "write_loop drv (write_unit dev info) info bs (length bs) dev k ?w 0 = Some (length bs,
      dev\<lparr>dev_offset := transfer_end info (store_addrs s) (length bs) (dev_offset dev)\<rparr>, k')"
    using assms(3) i(1) by (auto simp: s store_addrs_def min_def)
  then show ?thesis
    using i by (auto simp: s store_write_def alislsto_write_def store_cell_def store_rewind_def
        store_ok_iff store_addrs_def)
qed

interpretation sto: byte_store store_ok store_addrs store_cell store_read store_write store_rewind
proof
  show "distinct (store_addrs s)" for s :: "'k store"
    by (cases s) (simp add: store_addrs_def live_from_def)
qed (fact store_read_cells, fact store_write_cells)

text \<open>
  (C22) What was written is read back: after writing \<open>bs\<close> to a device with room for it and
  seeking back, a read of the same length returns \<open>bs\<close>, and every byte outside the written
  addresses is still the original one.
\<close>

theorem write_then_read:
  assumes "mtd_laws drv ab info" and "dev_info dev = Valid info" and "info_ok info"
    and "bad_seen (dev_type dev) (fl_bad (ab k))"
    and "start_ok info (fl_bad (ab k)) (dev_offset dev)"
    and "unit_ok info (write_unit dev info)" and "erase_never_fails drv ab info dev"
    and "bs \<noteq> []" and "length bs \<le> length (live_from info (fl_bad (ab k)) (dev_offset dev))"
  shows "\<exists>dev' k' dev'' k''.
    alislsto_write drv True (Some dev) k (Some bs) (length bs) = Some (int (length bs), Some dev', k') \<and>
    alislsto_read drv (Some (dev'\<lparr>dev_offset := dev_offset dev\<rparr>)) k' (Some (replicate (length bs) 0)) (length bs) =
      Some (int (length bs), Some bs, Some dev'', k'') \<and>
    (\<forall>a. a \<notin> set (take (length bs) (live_from info (fl_bad (ab k)) (dev_offset dev))) \<longrightarrow>
         fl_mem (ab k'') a = fl_mem (ab k) a)"
proof -
  have "store_ok (drv, ab, dev, k)"
    using assms(1-7) by (auto simp: store_ok_iff)
  from sto.write_read [OF this assms(8)] obtain s' s'' where
    w: "store_write (drv, ab, dev, k) bs = Some (int (length bs), s')" and
    r: "store_read (store_rewind (drv, ab, dev, k) s') (length bs) = Some (int (length bs), bs, s'')" and
    c: "\<forall>a. a \<notin> set (take (length bs) (store_addrs (drv, ab, dev, k))) \<longrightarrow>
      store_cell s'' a = store_cell (drv, ab, dev, k) a"
    using assms(2,9) by (auto simp: store_addrs_def)
  from w obtain dev' k' where w': "s' = (drv, ab, dev', k')"
    "alislsto_write drv True (Some dev) k (Some bs) (length bs) = Some (int (length bs), Some dev', k')"
    by (auto simp: store_write_iff)
  from r [unfolded w' store_rewind_def, simplified, unfolded store_read_iff] w' c show ?thesis
    using assms(2) by (auto simp: store_addrs_def store_cell_def)
qed

theorem write_then_read_witness:
  "\<exists>dev' k' dev'' k''.
    alislsto_write sim_drv True (Some demo_dev) sim_flash (Some [5, 6, 7, 8, 9]) 5 = Some (5, Some dev', k') \<and>
    alislsto_read sim_drv (Some (dev'\<lparr>dev_offset := dev_offset demo_dev\<rparr>)) k' (Some (replicate 5 0)) 5 =
      Some (5, Some [5, 6, 7, 8, 9], Some dev'', k'')"
proof -
  have "([5, 6, 7, 8, 9] :: u8 list) \<noteq> []"
    "length ([5, 6, 7, 8, 9] :: u8 list) \<le> length (live_from demo_info (fl_bad sim_flash) (dev_offset demo_dev))"
    unfolding sim_live by simp_all
  moreover have l: "length ([5, 6, 7, 8, 9] :: u8 list) = 5"
    by simp
  ultimately show ?thesis
    using write_then_read [OF sim_laws sim_start(1-6), of "[5, 6, 7, 8, 9]"]
    unfolding l of_nat_numeral by blast
qed

subsection \<open>Writing without erasing\<close>

lemma skip_bad_finds:
  assumes "mtd_laws drv ab info" "info_ok info"
  shows "start_ok info (fl_bad (ab k)) off \<Longrightarrow> live_from info (fl_bad (ab k)) off \<noteq> [] \<Longrightarrow>
    \<exists>off'. skip_bad drv k (info_erasesize info) off = Some off' \<and> 0 \<le> off' \<and> off' < info_size info \<and>
      live info (fl_bad (ab k)) off' \<and> (off' = off \<or> off' mod info_erasesize info = 0) \<and>
      live_from info (fl_bad (ab k)) off' = live_from info (fl_bad (ab k)) off"
proof (induction "nat (info_size info - off)" arbitrary: off rule: less_induct)
  case less
  let ?e = "info_erasesize info" and ?bad = "fl_bad (ab k)"
  have e: "0 < ?e" "info_size info mod ?e = 0" and off: "0 \<le> off" "off < info_size info"
    using assms(2) less.prems by (auto simp: info_ok_def start_ok_def not_le [symmetric])
  note mb = mtd_bad [OF assms(1) off, of k]
  show ?case
  proof (cases "live info ?bad off")
    case True
    then show ?thesis
      using mb off by (intro exI [of _ off]) (simp add: skip_bad.simps [of drv k ?e off])
  next
    case False
    then have al: "off mod ?e = 0"
      using less.prems(1) by (simp add: start_ok_def)
    note lf = live_from_bad [OF assms(2) off False al]
    have st: "start_ok info ?bad (off + ?e)" "live_from info ?bad (off + ?e) \<noteq> []"
      using off e(1) al lf less.prems(2) by (simp_all add: start_ok_def)
    have "skip_bad drv k ?e off = skip_bad drv k ?e (off + ?e)"
      using mb False by (subst skip_bad.simps) simp
    with less.hyps [OF _ st] off(2) e(1) al lf show ?thesis
      by (auto simp: mod_add_self2)
  qed
qed

text \<open>What flash that holds \<open>mem\<close> at \<open>as\<close> keeps of bytes written over it without an erasure.\<close>

definition programmed :: "(int \<Rightarrow> u8) \<Rightarrow> int list \<Rightarrow> u8 list \<Rightarrow> u8 list" where
  "programmed mem as bs = map2 (\<lambda>a b. mem a AND b) as bs"

lemma length_programmed [simp]: "length (programmed mem as bs) = min (length as) (length bs)"
  by (simp add: programmed_def)

lemma programmed_cong: "(\<And>a. a \<in> set as \<Longrightarrow> mem a = mem' a) \<Longrightarrow> programmed mem as bs = programmed mem' as bs"
  by (auto simp: programmed_def dest: set_zip_leftD)

lemma programmed_blank:
  assumes "\<And>a. a \<in> set as \<Longrightarrow> mem a = 0xff"
  shows "store_at as (programmed mem as bs) mem' = store_at as bs mem'"
proof -
  have "(0xff :: u8) = - 1"
    by simp
  then have "(0xff :: u8) AND w = w" for w
    by (simp only: and.left_neutral)
  then have "programmed mem as bs = map snd (zip as bs)"
    using assms by (auto simp: programmed_def dest: set_zip_leftD)
  moreover have "zip as (map snd (zip as bs)) = zip as bs"
    by (intro nth_equalityI) simp_all
  ultimately show ?thesis
    by (simp add: store_at_def)
qed

lemma mem_write_programmed:
  assumes "n = length bs"
  shows "mem_write a bs mem = store_at [a..a + int n - 1] (programmed mem [a..a + int n - 1] bs) mem"
proof
  fix x
  let ?bs = "programmed mem [a..a + int n - 1] bs"
  have l: "n = length ?bs"
    using assms by simp
  show "mem_write a bs mem x = store_at [a..a + int n - 1] ?bs mem x"
    unfolding store_at_upto [OF l] using assms by (simp add: mem_write_def programmed_def nat_less_iff)
qed

lemma programmed_append:
  assumes "length as = length bs" and "set as \<inter> set as' = {}"
  shows "store_at (as @ as') (programmed mem (as @ as') (bs @ bs')) mem =
    (let mem' = store_at as (programmed mem as bs) mem in store_at as' (programmed mem' as' bs') mem')"
proof -
  let ?mem = "store_at as (programmed mem as bs) mem"
  have "programmed ?mem as' bs' = programmed mem as' bs'"
    using assms(2) by (intro programmed_cong store_at_other) auto
  moreover have "programmed mem (as @ as') (bs @ bs') = programmed mem as bs @ programmed mem as' bs'"
    using assms(1) by (simp add: programmed_def)
  ultimately show ?thesis
    using assms(1) by (simp add: Let_def store_at_append)
qed

lemma write_no_erase_good:
  assumes "mtd_laws drv ab info" "info_ok info" "unit_ok info (info_erasesize info)"
    and "bad_seen ty (fl_bad (ab k))" "start_ok info (fl_bad (ab k)) off0"
    and "as = live_from info (fl_bad (ab k)) off0" "len - written \<le> length as" "written < len"
    and "off0 mod info_writesize info = 0" "int (len - written) mod info_writesize info = 0"
    and "len \<le> length buf"
  obtains off n k' where "0 \<le> off" "off < info_size info" "live info (fl_bad (ab k)) off" "0 < n"
    "off mod info_writesize info = 0" "as = live_from info (fl_bad (ab k)) off"
    "n = min (len - written) (nat (info_erasesize info - off mod info_erasesize info))"
    "fl_bad (ab k') = fl_bad (ab k)" "off0 \<le> off"
    "fl_mem (ab k') = store_at [off..off + int n - 1]
       (programmed (fl_mem (ab k)) [off..off + int n - 1] (take n (drop written buf))) (fl_mem (ab k))"
    "write_no_erase_loop drv ty info buf len off0 k written =
      (if written + n < len then write_no_erase_loop drv ty info buf len (off + int n) k' (written + n)
       else Some (written + n, off + int n, k'))"
proof -
  let ?e = "info_erasesize info" and ?w = "info_writesize info" and ?bad = "fl_bad (ab k)"
  have e: "0 < ?e" "info_size info mod ?e = 0" "0 < ?w" "?e mod ?w = 0"
    using assms(2,3) by (auto simp: info_ok_def unit_ok_def)
  have ne: "as \<noteq> []" "off0 < info_size info"
    using assms(6-8) by (auto simp: not_le [symmetric])
  obtain off where off: "(if ty = STO_TYPE_NAND then skip_bad drv k ?e off0 else Some off0) = Some off"
    "0 \<le> off" "off < info_size info" "live info ?bad off" "off = off0 \<or> off mod ?e = 0"
    "as = live_from info ?bad off"
  proof (cases "ty = STO_TYPE_NAND")
    case True
    then show ?thesis
      using skip_bad_finds [OF assms(1,2,5)] ne(1) assms(6) that by auto
  next
    case False
    then show ?thesis
      using that [of off0] assms(4-6) ne(2) by (simp add: bad_seen_def live_def start_ok_def)
  qed
  have le: "off0 \<le> off"
    using off(1) skip_bad_result [of drv k ?e off0 off] e(1) by (auto split: if_splits)
  have ow: "off mod ?w = 0"
    using off(5) assms(9) e(4) by (metis dvd_trans mod_0_imp_dvd mod_eq_0_iff_dvd)
  define n where "n = min (len - written) (nat (?e - off mod ?e))"
  have m: "off mod ?e < ?e" "0 \<le> off mod ?e"
    using e(1) by simp_all
  have n: "0 < n" "int n \<le> ?e - off mod ?e" "written + n \<le> len"
    using assms(8) m by (auto simp: n_def)
  have nw: "int n mod ?w = 0"
  proof (cases "len - written \<le> nat (?e - off mod ?e)")
    case True
    then show ?thesis using assms(10) by (simp add: n_def)
  next
    case False
    then have "int n = ?e - off mod ?e"
      using m by (simp add: n_def)
    moreover have "(?e - off mod ?e) mod ?w = 0"
      using ow e(4) by (metis diff_0 dvd_diff mod_0_imp_dvd mod_eq_0_iff_dvd mod_mod_cancel)
    ultimately show ?thesis by simp
  qed
  let ?bs = "take n (drop written buf)"
  have bl: "length ?bs = n"
    using n(3) assms(11) by simp
  obtain k1 where k1: "klseek drv k off = (off, k1)" "ab k1 = (ab k)\<lparr>fl_pos := off\<rparr>"
    by (rule mtd_seek [OF assms(1) off(2,3)])
  have ib: "in_block info (ab k1) off (int n)"
    using in_block_chunk [OF assms(2) off(2,3), of "ab k1" "int n"] off(4) k1(2) n(2) by simp
  obtain k2 where "kwrite drv k1 ?bs = (int (length ?bs), k2)"
    and k2: "ab k2 = (ab k1)\<lparr>fl_mem := mem_write (fl_pos (ab k1)) ?bs (fl_mem (ab k1)),
                     fl_pos := fl_pos (ab k1) + int (length ?bs)\<rparr>"
    by (rule mtd_write [OF assms(1), of k1 ?bs]) (use ib k1(2) bl ow nw in simp_all)
  then have wr: "kwrite drv k1 ?bs = (int n, k2)"
    using bl by simp
  have mem: "fl_mem (ab k2) = store_at [off..off + int n - 1]
      (programmed (fl_mem (ab k)) [off..off + int n - 1] ?bs) (fl_mem (ab k))"
    using k2 k1(2) mem_write_programmed [of n ?bs off "fl_mem (ab k)"] bl by simp
  have "write_no_erase_loop drv ty info buf len off0 k written =
      (if written + n < len then write_no_erase_loop drv ty info buf len (off + int n) k2 (written + n)
       else Some (written + n, off + int n, k2))"
    unfolding write_no_erase_loop.simps [of drv ty info buf len off0] off(1)
    using ne(2) e k1(1) wr n(3) assms(11) off(2) ow n_def [symmetric]
      smod_nonneg [OF off(2) e(1)] smod_nonneg [OF off(2) e(3)] by simp
  then show ?thesis
    using that [OF off(2-4) n(1) ow off(6) n_def _ le mem] k1(2) k2 by simp
qed

lemma write_no_erase_loop_spec:
  assumes "mtd_laws drv ab info" "info_ok info" "unit_ok info (info_erasesize info)"
  shows "bad_seen ty bad \<Longrightarrow> start_ok info bad off \<Longrightarrow> fl_bad (ab k) = bad \<Longrightarrow>
    as = live_from info bad off \<Longrightarrow> len - written \<le> length as \<Longrightarrow> written < len \<Longrightarrow>
    off mod info_writesize info = 0 \<Longrightarrow> int (len - written) mod info_writesize info = 0 \<Longrightarrow>
    len \<le> length buf \<Longrightarrow>
    \<exists>k'. fl_bad (ab k') = bad \<and>
      fl_mem (ab k') = store_at (take (len - written) as)
        (programmed (fl_mem (ab k)) (take (len - written) as) (drop written buf)) (fl_mem (ab k)) \<and>
      write_no_erase_loop drv ty info buf len off k written = Some (len, as ! (len - written - 1) + 1, k')"
proof (induction "nat (info_size info - off)" arbitrary: off k written as rule: less_induct)
  case less
  let ?e = "info_erasesize info" and ?w = "info_writesize info"
  have e: "0 < ?e" "0 < ?w" "?e mod ?w = 0" "info_size info mod ?e = 0"
    using assms(2,3) by (auto simp: info_ok_def unit_ok_def)
  obtain off1 n k1 where g': "0 \<le> off1" "off1 < info_size info" "live info (fl_bad (ab k)) off1" "0 < n"
    "off1 mod ?w = 0" "as = live_from info (fl_bad (ab k)) off1"
    "n = min (len - written) (nat (?e - off1 mod ?e))" "fl_bad (ab k1) = fl_bad (ab k)" "off \<le> off1"
    "fl_mem (ab k1) = store_at [off1..off1 + int n - 1]
       (programmed (fl_mem (ab k)) [off1..off1 + int n - 1] (take n (drop written buf))) (fl_mem (ab k))"
    "write_no_erase_loop drv ty info buf len off k written =
      (if written + n < len then write_no_erase_loop drv ty info buf len (off1 + int n) k1 (written + n)
       else Some (written + n, off1 + int n, k1))"
    by (rule write_no_erase_good [OF assms less.prems(1,2,4) [folded less.prems(3)] less.prems(5-9)])
  note g = g' [unfolded less.prems(3)]
  let ?C = "[off1..off1 + int n - 1]" and ?R = "live_from info bad (off1 + int n)"
  have n: "int n \<le> ?e - off1 mod ?e" "written + n \<le> len"
    using chunk_bound [OF e(1), of "len - written" off1] g(7) less.prems(6) by auto
  have A: "as = ?C @ ?R"
    using live_from_good [OF assms(2) g(1-3), of "off1 + int n"] g(6) n(1) by simp
  have "take (len - written) as = ?C @ take (len - (written + n)) ?R"
    "drop written buf = take n (drop written buf) @ drop (written + n) buf"
    using A n(2) by (simp_all add: ac_simps flip: drop_drop)
  moreover have "set ?C \<inter> set (take (len - (written + n)) ?R) = {}"
    using live_from_in [of _ info bad "off1 + int n"] by (fastforce dest: in_set_takeD)
  ultimately have st: "store_at (take (len - written) as)
      (programmed (fl_mem (ab k)) (take (len - written) as) (drop written buf)) (fl_mem (ab k)) =
    store_at (take (len - (written + n)) ?R)
      (programmed (fl_mem (ab k1)) (take (len - (written + n)) ?R) (drop (written + n) buf)) (fl_mem (ab k1))"
    using programmed_append [of ?C "take n (drop written buf)" "take (len - (written + n)) ?R" "fl_mem (ab k)"
        "drop (written + n) buf"] g(10) n(2) less.prems(9) by (simp add: Let_def)
  show ?case
  proof (cases "written + n < len")
    case True
    then have t: "off1 + int n = off1 - off1 mod ?e + ?e"
      using g(7) pos_mod_bound [OF e(1), of off1] by linarith
    have al: "(off1 + int n) mod ?e = 0"
      unfolding t by (rule block_end(3) [OF e(1) g(1,2) e(4)])
    have "?w dvd off1 + int n" "?w dvd off1"
      using al g(5) e(3) by (metis dvd_trans mod_0_imp_dvd)+
    then have nw: "int n mod ?w = 0"
      by (simp add: dvd_add_right_iff)
    have lw: "int (len - (written + n)) mod ?w = 0"
    proof -
      have "int (len - (written + n)) = int (len - written) - int n"
        using True by simp
      then show ?thesis
        using less.prems(8) nw by (metis dvd_diff mod_0_imp_dvd mod_eq_0_iff_dvd)
    qed
    have r: "start_ok info bad (off1 + int n)" "len - (written + n) \<le> length ?R"
      "(off1 + int n) mod ?w = 0"
      using g(1) al e(3) less.prems(5) A n(2) mod_mod_cancel [of ?w ?e "off1 + int n"]
      by (auto simp: start_ok_def mod_eq_0_iff_dvd)
    from less.hyps [OF _ less.prems(1) r(1) g(8) refl r(2) True r(3) lw less.prems(9)] g(2,4,9)
    obtain k' where k': "fl_bad (ab k') = bad"
      "fl_mem (ab k') = store_at (take (len - (written + n)) ?R)
         (programmed (fl_mem (ab k1)) (take (len - (written + n)) ?R) (drop (written + n) buf)) (fl_mem (ab k1))"
      "write_no_erase_loop drv ty info buf len (off1 + int n) k1 (written + n) =
        Some (len, ?R ! (len - (written + n) - 1) + 1, k')"
      by auto
    moreover have "as ! (len - written - 1) = ?R ! (len - (written + n) - 1)"
      unfolding A using True by (simp add: nth_append diff_diff_left ac_simps)
    ultimately show ?thesis
      using g(11) True st by (intro exI [of _ k']) simp
  next
    case False
    then have "len - written = n"
      using n(2) by simp
    then show ?thesis
      using g(4,8,10,11) False A st n(2) by (intro exI [of _ k1]) (simp add: nth_append)
  qed
qed

text \<open>A write without erasure keeps, at each good address, the bits that were set and are written as set.\<close>

lemma write_no_erase_programs:
  assumes "mtd_laws drv ab info" and "dev_info dev = Valid info" and "info_ok info"
    and "unit_ok info (info_erasesize info)"
    and "bad_seen (dev_type dev) (fl_bad (ab k))" and "start_ok info (fl_bad (ab k)) (dev_offset dev)"
    and "dev_offset dev mod info_writesize info = 0" and "int len mod info_writesize info = 0"
    and "0 < len" and "len \<le> length buf"
    and "as = live_from info (fl_bad (ab k)) (dev_offset dev)" and "len \<le> length as"
  shows "\<exists>k'. alislsto_write_no_erase drv (Some dev) k (Some buf) len =
      Some (int len, Some (dev\<lparr>dev_offset := as ! (len - 1) + 1\<rparr>), k') \<and>
    fl_mem (ab k') = store_at (take len as) (programmed (fl_mem (ab k)) (take len as) buf) (fl_mem (ab k)) \<and>
    fl_bad (ab k') = fl_bad (ab k)"
  using write_no_erase_loop_spec [OF assms(1,3-6) refl assms(11), of len 0 buf] assms(2,7-10,12)
  by (auto simp: alislsto_write_no_erase_def)

text \<open>
  Writing whole pages to erased flash with \<open>alislsto_write_no_erase\<close>, from a
  page-aligned position with room for them, stores exactly the data at the good addresses
  and returns its length.
\<close>

lemma write_no_erase_stores:
  assumes "mtd_laws drv ab info" and "dev_info dev = Valid info" and "info_ok info"
    and "unit_ok info (info_erasesize info)"
    and "bad_seen (dev_type dev) (fl_bad (ab k))" and "start_ok info (fl_bad (ab k)) (dev_offset dev)"
    and "dev_offset dev mod info_writesize info = 0" and "int len mod info_writesize info = 0"
    and "0 < len" and "len \<le> length buf"
    and "as = live_from info (fl_bad (ab k)) (dev_offset dev)" and "len \<le> length as"
    and "\<forall>a\<in>set (take len as). fl_mem (ab k) a = 0xff"
  shows "\<exists>k'. alislsto_write_no_erase drv (Some dev) k (Some buf) len =
      Some (int len, Some (dev\<lparr>dev_offset := as ! (len - 1) + 1\<rparr>), k') \<and>
    fl_mem (ab k') = store_at (take len as) buf (fl_mem (ab k)) \<and> fl_bad (ab k') = fl_bad (ab k)"
  using write_no_erase_programs [OF assms(1-12)] programmed_blank [of "take len as" "fl_mem (ab k)" buf] assms(13)
  by simp

text \<open>
  (C24) \<open>alislsto_write_no_erase\<close> does not return when the driver reports every further block
  bad, as it does past the end of the device: the search for a good block has no bound.
\<close>

theorem write_no_erase_diverges:
  assumes "dev_info dev = Valid info" and "dev_type dev = STO_TYPE_NAND"
    and "dev_offset dev < info_size info"
    and "\<forall>j. memgetbadblock drv k (dev_offset dev + int j * info_erasesize info) \<noteq> 0"
  shows "alislsto_write_no_erase drv (Some dev) k (Some buf) len = None"
proof -
  have "skip_bad drv k (info_erasesize info) (dev_offset dev) = None"
    using skip_bad_result [of drv k "info_erasesize info" "dev_offset dev"] assms(4)
    by (cases "skip_bad drv k (info_erasesize info) (dev_offset dev)") auto
  then show ?thesis
    using assms(1-3) by (simp add: alislsto_write_no_erase_def write_no_erase_loop.simps [of _ _ _ _ _ "dev_offset dev"])
qed

theorem write_no_erase_diverges_witness:
  "alislsto_write_no_erase sim_drv (Some demo_dev) (sim_flash\<lparr>fl_bad := \<lambda>b. True\<rparr>) (Some [0]) 1 = None"
  by (rule write_no_erase_diverges [of _ demo_info])
    (simp_all add: demo_dev_def demo_info_def sim_drv_def)

subsection \<open>Locked transfers\<close>

lemma lock_seek_handle:
  assumes "lock_seek para (Some dev) = Some (err, c, h)"
  obtains dev' where "h = Some dev'"
proof -
  have "h \<noteq> None"
    using assms
    by (auto simp: lock_seek_def alislsto_lseek_def alislsto_lseek_ext_def Let_def bind_eq_Some_conv
        split: if_splits option.splits)
  with that show ?thesis by blast
qed

lemma alislsto_read_handle:
  "alislsto_read drv (Some dev) k buf len = Some (n, buf', h, k') \<Longrightarrow> \<exists>dev'. h = Some dev'"
  by (auto simp: alislsto_read_def bind_eq_Some_conv split: option.splits)

lemma alislsto_write_no_erase_handle:
  "alislsto_write_no_erase drv (Some dev) k buf len = Some (n, h, k') \<Longrightarrow> \<exists>dev'. h = Some dev'"
  by (auto simp: alislsto_write_no_erase_def bind_eq_Some_conv split: option.splits)

lemma set_offset_restores: "\<exists>dev'. snd (alislsto_set_offset (Some dev) x True) = Some dev' \<and> dev_offset dev' = x"
  by (simp add: alislsto_set_offset_def)

text \<open>
  A locked transfer with the restore flag leaves the position of the device where it
  was, on success and on every error path, for reads and for writes.
\<close>

lemma lock_transfer_restores_position:
  assumes "rw_flag para"
  shows "(alislsto_lock_read drv para (Some dev) k (Some buf) act = Some (err, act', buf', h, k') \<longrightarrow>
           (\<exists>dev'. h = Some dev' \<and> dev_offset dev' = dev_offset dev)) \<and>
         (alislsto_lock_write drv para (Some dev) k (Some buf) act = Some (err, act', h, k') \<longrightarrow>
           (\<exists>dev'. h = Some dev' \<and> dev_offset dev' = dev_offset dev))"
proof (intro conjI impI)
  note restore = set_offset_restores [of _ "dev_offset dev"]
  assume r: "alislsto_lock_read drv para (Some dev) k (Some buf) act = Some (err, act', buf', h, k')"
  then obtain e c h1 where s: "lock_seek para (Some dev) = Some (e, c, h1)"
    by (auto simp: alislsto_lock_read_def bind_eq_Some_conv)
  then obtain dev1 where "h1 = Some dev1"
    by (rule lock_seek_handle)
  with r s assms restore show "\<exists>dev'. h = Some dev' \<and> dev_offset dev' = dev_offset dev"
    by (auto simp: alislsto_lock_read_def bind_eq_Some_conv split: if_splits dest: alislsto_read_handle)
next
  note restore = set_offset_restores [of _ "dev_offset dev"]
  assume w: "alislsto_lock_write drv para (Some dev) k (Some buf) act = Some (err, act', h, k')"
  then obtain e c h1 where s: "lock_seek para (Some dev) = Some (e, c, h1)"
    by (auto simp: alislsto_lock_write_def bind_eq_Some_conv)
  then obtain dev1 where "h1 = Some dev1"
    by (rule lock_seek_handle)
  with w s assms restore show "\<exists>dev'. h = Some dev' \<and> dev_offset dev' = dev_offset dev"
    by (auto simp: alislsto_lock_write_def bind_eq_Some_conv split: if_splits dest: alislsto_write_no_erase_handle)
qed

definition demo_para :: alislsto_rw_param where
  "demo_para = \<lparr>rw_size = 0, rw_offset = 9, rw_whenence = SEEK_SET, rw_idx = -1, rw_flag = True\<rparr>"

text \<open>
  A locked read whose seek is refused (an unknown whence) reports success: it returns
  \<open>STO_ERR_NONE\<close> without reading and without storing the actual size.
\<close>

lemma lock_read_refused_seek_reports_success:
  assumes "dev_handle dev \<noteq> STO_INVALID_HANDLE" and "rw_idx para = -1"
    and "rw_whenence para \<noteq> SEEK_SET" and "rw_whenence para \<noteq> SEEK_CUR" and "rw_whenence para \<noteq> SEEK_END"
  shows "\<exists>dev'. alislsto_lock_read drv para (Some dev) k (Some buf) act =
    Some (STO_ERR_NONE, act, Some buf, Some dev', k)"
  using assms by (simp add: alislsto_lock_read_def lock_seek_def alislsto_lseek_def alislsto_set_offset_def)


end
