(* ===== verification/Mtd_Table.thy ===== *)
theory Mtd_Table
  imports Flash_Device "HOL-Library.Sublist"
begin

section \<open>The partition table of the kernel (\<open>alislstorage.c\<close>)\<close>

text \<open>
  The storage library learns the flash partitions from the text of \<open>/proc/mtd\<close>, in two
  ways: \<open>alislsto_get_partinfo\<close> reads it line by line into a list, \<open>find_mtd_dev_num\<close>
  searches it for one name. Texts are strings without the terminating zero; a pointer into
  a string is the rest of the string, a null pointer is \<open>None\<close>. Where the source would follow
  a null pointer the outer \<open>None\<close> stands for the undefined behaviour.
\<close>

subsection \<open>String functions\<close>

abbreviation (input) newline :: char where "newline \<equiv> CHR 0x0A"
abbreviation (input) quote :: char where "quote \<equiv> CHR 0x22"

fun strstr :: "string \<Rightarrow> string \<Rightarrow> string option" where
  "strstr [] key = (if key = [] then Some [] else None)"
| "strstr (c # cs) key = (if prefix key (c # cs) then Some (c # cs) else strstr cs key)"

definition strchr :: "string \<Rightarrow> char \<Rightarrow> string option" where
  "strchr s c = (case dropWhile (\<lambda>x. x \<noteq> c) s of [] \<Rightarrow> None | t \<Rightarrow> Some t)"

definition is_space :: "char \<Rightarrow> bool" where
  "is_space c \<longleftrightarrow> c \<in> {CHR 0x20, CHR 0x09, CHR 0x0A, CHR 0x0B, CHR 0x0C, CHR 0x0D}"

definition digit_val :: "char \<Rightarrow> nat option" where
  "digit_val c =
     (let n = (of_char c :: nat)
      in if 48 \<le> n \<and> n \<le> 57 then Some (n - 48)
         else if 97 \<le> n \<and> n \<le> 122 then Some (n - 87)
         else if 65 \<le> n \<and> n \<le> 90 then Some (n - 55)
         else None)"

fun digits_val :: "nat \<Rightarrow> nat \<Rightarrow> string \<Rightarrow> nat" where
  "digits_val base acc [] = acc"
| "digits_val base acc (c # cs) =
     (case digit_val c of
        Some d \<Rightarrow> if d < base then digits_val base (acc * base + d) cs else acc
      | None \<Rightarrow> acc)"

text \<open>The hexadecimal prefix counts only when a digit follows it.\<close>

definition hex_prefix :: "string \<Rightarrow> string" where
  "hex_prefix s =
     (case s of
        z # x # d # t \<Rightarrow>
          if z = CHR ''0'' \<and> (x = CHR ''x'' \<or> x = CHR ''X'') \<and> (\<exists>v. digit_val d = Some v \<and> v < 16) then d # t else s
      | _ \<Rightarrow> s)"

text \<open>\<open>strtol\<close> with a \<open>long\<close> of 32 bits, which is clamped to its range.\<close>

definition strtol :: "nat \<Rightarrow> string \<Rightarrow> int" where
  "strtol base s =
     (let s = dropWhile is_space s;
          (neg, s) = (case s of c # t \<Rightarrow> if c = CHR ''-'' then (True, t) else if c = CHR ''+'' then (False, t) else (False, s)
                      | [] \<Rightarrow> (False, s));
          s = (if base = 16 then hex_prefix s else s);
          v = int (digits_val base 0 s);
          v = (if neg then - v else v)
      in max (- (2 ^ 31)) (min (2 ^ 31 - 1) v))"

abbreviation atoi :: "string \<Rightarrow> int" where "atoi s \<equiv> strtol 10 s"

subsection \<open>The list of partitions\<close>

record partinfo =
  part_name :: string
  part_index :: int
  part_size :: int

definition NAME_MAX :: nat where "NAME_MAX = 255"

text \<open>\<open>fgets\<close> with a buffer of 256 bytes: at most 255 characters, up to a newline.\<close>

fun fgets_line :: "nat \<Rightarrow> string \<Rightarrow> string \<times> string" where
  "fgets_line 0 s = ([], s)"
| "fgets_line (Suc n) [] = ([], [])"
| "fgets_line (Suc n) (c # s) =
     (if c = newline then ([c], s) else let (l, r) = fgets_line n s in (c # l, r))"

lemma fgets_line_append: "fgets_line n s = (l, r) \<Longrightarrow> s = l @ r"
  by (induction n s arbitrary: l r rule: fgets_line.induct) (auto split: prod.splits if_splits)

lemma fgets_line_progress: "fgets_line (Suc n) (c # s) = (l, r) \<Longrightarrow> length r < Suc (length s)"
  using fgets_line_append[of "Suc n" "c # s" l r] by (auto simp: Cons_eq_append_conv split: prod.splits if_splits)

function fgets_lines :: "string \<Rightarrow> string list" where
  "fgets_lines s = (if s = [] then [] else let (l, r) = fgets_line 255 s in l # fgets_lines r)"
  by pat_completeness auto
termination
proof (relation "measure length", goal_cases)
  case (2 s x l r)
  then show ?case
    using fgets_line_progress[of 254 "hd s" "tl s" l r] by (cases s) (simp_all add: eval_nat_numeral)
qed simp

declare fgets_lines.simps [simp del]

text \<open>
  A line with a device becomes an entry. A line with \<open>mtd\<close> but no colon, nothing behind the
  colon, or no quoted name lets the source follow a null pointer or pass the end.
\<close>

definition parse_mtd_line :: "string \<Rightarrow> partinfo option option" where
  "parse_mtd_line buffer =
     (case strstr buffer ''mtd'' of
        None \<Rightarrow> Some None
      | Some start \<Rightarrow>
          let start = drop 3 start; idx = atoi start
          in case strchr start (CHR '':'') of
               None \<Rightarrow> None
             | Some start \<Rightarrow>
                 if length start < 2 then None
                 else
                   let start = drop 2 start; sz = to_uint32 (strtol 16 start)
                   in case strchr start quote of
                        None \<Rightarrow> None
                      | Some start \<Rightarrow>
                          let name = take (NAME_MAX - 1) (drop 1 start)
                          in Some (Some \<lparr>part_name = takeWhile (\<lambda>c. c \<noteq> quote) name, part_index = idx, part_size = sz\<rparr>))"

text \<open>
  The loop over the lines. The list grows in steps of ten entries; \<open>realloc_ok n\<close> says whether
  the step at \<open>n\<close> entries succeeds. A failure leaves the entries read so far.
\<close>

primrec read_partinfo :: "(nat \<Rightarrow> bool) \<Rightarrow> string list \<Rightarrow> partinfo list \<Rightarrow> (bool \<times> partinfo list) option" where
  "read_partinfo realloc_ok [] acc = Some (True, acc)"
| "read_partinfo realloc_ok (l # ls) acc =
     (if strstr l ''mtd'' \<noteq> None \<and> length acc mod 10 = 0 \<and> \<not> realloc_ok (length acc) then Some (False, acc)
      else case parse_mtd_line l of
        None \<Rightarrow> None
      | Some None \<Rightarrow> read_partinfo realloc_ok ls acc
      | Some (Some e) \<Rightarrow> read_partinfo realloc_ok ls (acc @ [e]))"

definition find_part :: "string \<Rightarrow> partinfo list \<Rightarrow> (nat \<times> partinfo) option" where
  "find_part name ps = List.find (\<lambda>(i, e). part_name e = name) (enumerate 0 ps)"

subsection \<open>Searching the text for one name\<close>

text \<open>
  \<open>find_last_mtd_dev\<close> goes backwards from the name to the last \<open>mtd\<close> before it. The text up
  to the name is given; positions before its start are not read.
\<close>

fun find_last_mtd_dev :: "string \<Rightarrow> string \<Rightarrow> nat \<Rightarrow> nat option" where
  "find_last_mtd_dev buffer key pos =
     (if prefix key (drop pos buffer) then Some pos
      else case pos of 0 \<Rightarrow> None | Suc p \<Rightarrow> find_last_mtd_dev buffer key p)"

declare find_last_mtd_dev.simps [simp del]

fun str_pos :: "string \<Rightarrow> nat \<Rightarrow> string \<Rightarrow> nat option" where
  "str_pos key n [] = (if key = [] then Some n else None)"
| "str_pos key n (c # cs) = (if prefix key (c # cs) then Some n else str_pos key (Suc n) cs)"

lemma str_pos_bound: "str_pos key n cs = Some p \<Longrightarrow> n \<le> p \<and> p \<le> n + length cs"
  by (induction key n cs rule: str_pos.induct) (auto split: if_splits)

text \<open>
  \<open>find_dev_name_str\<close> looks for the name behind a quote and compares it with the text up to
  the closing quote. Text and name agree at the position found, and the zero that ends the
  name differs from the text there, so they are equal when the quote is not further off than
  the name is long. A match at the very start would read the byte before the text.
\<close>

function find_dev_name_str :: "string \<Rightarrow> string \<Rightarrow> nat \<Rightarrow> nat option option" where
  "find_dev_name_str buffer mtd_name tmp =
     (if length buffer \<le> tmp then Some None
      else case str_pos mtd_name tmp (drop tmp buffer) of
        None \<Rightarrow> Some None
      | Some start \<Rightarrow>
          if start = 0 then None
          else if buffer ! (start - 1) \<noteq> quote then find_dev_name_str buffer mtd_name (Suc start)
          else case str_pos [quote] start (drop start buffer) of
            None \<Rightarrow> Some None
          | Some stop \<Rightarrow>
              if stop - start \<le> length mtd_name then Some (Some start)
              else find_dev_name_str buffer mtd_name stop)"
  by pat_completeness auto
termination
  by (relation "measure (\<lambda>(b, m, tmp). length b - tmp)") (auto dest: str_pos_bound)

declare find_dev_name_str.simps [simp del]

text \<open>
  \<open>find_mtd_dev_num\<close>: \<open>proc\<close> is what one \<open>read\<close> of up to 1023 bytes of \<open>/proc/mtd\<close> returned, or
  why it failed. The result is the return code and the device name that is stored.
\<close>

datatype proc_read = Open_Fails | Read_Fails | Read_Text string

definition find_mtd_dev_num :: "proc_read \<Rightarrow> string option \<Rightarrow> nat \<Rightarrow> (retcode \<times> string option) option" where
  "find_mtd_dev_num proc mtd_name max_len =
     (case mtd_name of
        None \<Rightarrow> Some (STO_ERR_INVALIDPARAM, None)
      | Some name \<Rightarrow>
          (case proc of
             Open_Fails \<Rightarrow> Some (STO_ERR_DRIVER, None)
           | Read_Fails \<Rightarrow> Some (STO_ERR_DRIVER, None)
           | Read_Text text \<Rightarrow>
               let buffer = take 1023 text
               in case find_dev_name_str buffer name 0 of
                    None \<Rightarrow> None
                  | Some None \<Rightarrow> Some (STO_ERR_DRIVER, None)
                  | Some (Some tail) \<Rightarrow>
                      (case (if tail < 3 then None else find_last_mtd_dev buffer ''mtd'' (tail - 3)) of
                         None \<Rightarrow> Some (STO_ERR_DRIVER, None)
                       | Some start \<Rightarrow>
                           (case str_pos '':'' start (drop start buffer) of
                              None \<Rightarrow> Some (STO_ERR_DRIVER, None)
                            | Some stop \<Rightarrow>
                                let len = (if stop - start \<ge> max_len then max_len - 1 else stop - start)
                                in Some (STO_ERR_NONE, Some (take len (drop start buffer)))))))"

subsection \<open>The text the kernel prints\<close>

text \<open>\<open>/proc/mtd\<close> is a header and one line \<open>mtd%d: %8.8llx %8.8x "%s"\<close> for each device.\<close>

definition digit_char :: "nat \<Rightarrow> char" where
  "digit_char d = char_of (if d < 10 then 48 + d else 87 + d)"

fun dec_string :: "nat \<Rightarrow> string" where
  "dec_string n = (if n < 10 then [digit_char n] else dec_string (n div 10) @ [digit_char (n mod 10)])"

declare dec_string.simps [simp del]

definition hex8 :: "nat \<Rightarrow> string" where
  "hex8 n = map (\<lambda>i. digit_char (n div 16 ^ i mod 16)) (rev [0..<8])"

definition mtd_line :: "nat \<Rightarrow> nat \<Rightarrow> nat \<Rightarrow> string \<Rightarrow> string" where
  "mtd_line i sz er name = ''mtd'' @ dec_string i @ '': '' @ hex8 sz @ '' '' @ hex8 er @ '' '' @ [quote] @ name @ [quote]"

definition proc_mtd :: "(nat \<times> nat \<times> string) list \<Rightarrow> string" where
  "proc_mtd ps = concat (map (\<lambda>l. l @ [newline])
     (''dev:    size   erasesize  name'' # map (\<lambda>(i, sz, er, name). mtd_line i sz er name) (enumerate 0 ps)))"

lemma of_char_digit: "d < 16 \<Longrightarrow> (of_char (digit_char d) :: nat) = (if d < 10 then 48 + d else 87 + d)"
  by (auto simp: digit_char_def)

lemma digit_val_char [simp]: "d < 16 \<Longrightarrow> digit_val (digit_char d) = Some d"
  by (auto simp: digit_val_def of_char_digit Let_def)

lemma digit_char_not:
  assumes "d < 16" "(of_char c :: nat) < 48 \<or> 57 < (of_char c :: nat) \<and> (of_char c :: nat) < 97 \<or> 102 < (of_char c :: nat)"
  shows "digit_char d \<noteq> c"
  using assms of_char_digit[OF assms(1)] by (auto split: if_splits)

lemma digits_val_append:
  assumes "\<forall>d\<in>set ds. d < base" "base \<le> 16" "rest = [] \<or> digit_val (hd rest) = None"
  shows "digits_val base acc (map digit_char ds @ rest) = foldl (\<lambda>a d. a * base + d) acc ds"
  using assms
proof (induction ds arbitrary: acc)
  case Nil
  then show ?case by (cases rest) auto
next
  case (Cons d ds)
  then have "d < 16" by auto
  with Cons show ?case by simp
qed

lemma foldl_digits:
  "foldl (\<lambda>a d. a * 16 + d) acc (map (\<lambda>i. n div 16 ^ i mod 16) (rev [0..<k])) = acc * 16 ^ k + n mod (16 :: nat) ^ k"
proof (induction k arbitrary: acc)
  case (Suc k)
  have "n mod 16 ^ Suc k = n div 16 ^ k mod 16 * 16 ^ k + n mod 16 ^ k"
    using mod_mult2_eq[of n "16 ^ k" 16] by (simp add: mult.commute)
  moreover have "rev [0..<Suc k] = k # rev [0..<k]" by simp
  ultimately show ?case
    by (simp only: Suc.IH list.map foldl_Cons) (simp add: algebra_simps)
qed simp

fun dec_digits :: "nat \<Rightarrow> nat list" where
  "dec_digits n = (if n < 10 then [n] else dec_digits (n div 10) @ [n mod 10])"

declare dec_digits.simps [simp del]

lemma dec_string_digits: "dec_string n = map digit_char (dec_digits n)"
  by (induction n rule: dec_string.induct) (subst dec_string.simps, subst dec_digits.simps, simp)

lemma dec_digits_value: "(\<forall>d\<in>set (dec_digits n). d < 10) \<and> foldl (\<lambda>a d. a * 10 + d) 0 (dec_digits n) = n"
  by (induction n rule: dec_digits.induct) (subst (1 2) dec_digits.simps, auto)

lemma dec_digits_length: "n < 10 ^ k \<Longrightarrow> 0 < k \<Longrightarrow> length (dec_digits n) \<le> k"
proof (induction n arbitrary: k rule: dec_digits.induct)
  case (1 n)
  show ?case
  proof (cases "n < 10")
    case False
    with 1(2,3) obtain j where j: "k = Suc j" "0 < j"
      by (cases k; cases "k - 1") auto
    then show ?thesis using 1(1)[OF False, of j] 1(2) False
      by (subst dec_digits.simps) (simp add: div_less_iff_less_mult mult.commute)
  qed (use 1(3) in \<open>simp add: dec_digits.simps\<close>)
qed

lemma dec_digits_hd: "dec_digits n \<noteq> []"
  by (subst dec_digits.simps) simp

subsection \<open>Reading it back\<close>

lemma not_space: "d < 16 \<Longrightarrow> \<not> is_space (digit_char d)"
  using digit_char_not[of d] by (auto simp: is_space_def)

lemma strtol_digits:
  assumes "ds \<noteq> []" "\<forall>d\<in>set ds. d < base" "base \<le> 16" "rest = [] \<or> digit_val (hd rest) = None"
    and "foldl (\<lambda>a d. a * base + d) 0 ds < 2 ^ 31" "base = 16 \<Longrightarrow> 1 < length ds"
  shows "strtol base (map digit_char ds @ rest) = int (foldl (\<lambda>a d. a * base + d) 0 ds)"
proof -
  obtain d ds' where ds: "ds = d # ds'" using assms(1) by (cases ds) auto
  have all: "\<forall>d\<in>set ds. d < 16" using assms(2,3) by auto
  have sp: "dropWhile is_space (map digit_char ds @ rest) = map digit_char ds @ rest"
    using all not_space by (simp add: ds)
  have sgn: "digit_char d \<noteq> CHR ''-''" "digit_char d \<noteq> CHR ''+''"
    using all digit_char_not[of d] by (simp_all add: ds)
  have hex: "hex_prefix (map digit_char ds @ rest) = map digit_char ds @ rest" if b: "base = 16"
  proof -
    obtain e ds'' where e: "ds' = e # ds''" using assms(6)[OF b] ds by (cases ds') auto
    have "digit_char e \<noteq> CHR ''x''" "digit_char e \<noteq> CHR ''X''"
      using all digit_char_not[of e] by (simp_all add: ds e)
    then show ?thesis by (auto simp: hex_prefix_def ds e split: list.splits)
  qed
  have v: "(if base = 16 then hex_prefix (map digit_char ds @ rest) else map digit_char ds @ rest) = map digit_char ds @ rest"
    using hex by simp
  have nn: "int (foldl (\<lambda>a d. a * base + d) 0 ds) < 2 ^ 31" using assms(5) by simp
  have sign: "(case map digit_char ds @ rest of c # t \<Rightarrow> if c = CHR ''-'' then (True, t) else if c = CHR ''+'' then (False, t)
      else (False, map digit_char ds @ rest) | [] \<Rightarrow> (False, map digit_char ds @ rest)) = (False, map digit_char ds @ rest)"
    using sgn by (simp add: ds)
  show ?thesis
    unfolding strtol_def Let_def sp sign case_prod_conv v
    using nn by (simp add: digits_val_append[OF assms(2-4)])
qed

lemma strtol_dec:
  assumes "n < 2 ^ 31" "rest = [] \<or> digit_val (hd rest) = None"
  shows "atoi (dec_string n @ rest) = int n"
  using strtol_digits[of "dec_digits n" 10 rest] dec_digits_value[of n] dec_digits_hd assms by (simp add: dec_string_digits)

lemma hex8_digits: "hex8 n = map digit_char (map (\<lambda>i. n div 16 ^ i mod 16) (rev [0..<8]))"
  by (simp add: hex8_def)

lemma strtol_hex8:
  assumes "n < 2 ^ 31" "rest = [] \<or> digit_val (hd rest) = None"
  shows "strtol 16 (hex8 n @ rest) = int n"
proof -
  let ?ds = "map (\<lambda>i. n div 16 ^ i mod 16) (rev [0..<8])"
  have val: "foldl (\<lambda>a d. a * 16 + d) 0 ?ds = n"
    unfolding foldl_digits using assms(1) by simp
  have len: "length ?ds = 8" by simp
  have "strtol 16 (map digit_char ?ds @ rest) = int (foldl (\<lambda>a d. a * 16 + d) 0 ?ds)"
  proof (rule strtol_digits)
    show "?ds \<noteq> []" using len by (metis length_0_conv zero_neq_numeral)
    show "\<forall>d\<in>set ?ds. d < 16" by auto
    show "foldl (\<lambda>a d. a * 16 + d) 0 ?ds < 2 ^ 31" unfolding val using assms(1) .
  qed (use len assms(2) in simp_all)
  then show ?thesis unfolding hex8_digits val .
qed

lemma strchr_skip:
  "c \<notin> set xs \<Longrightarrow> strchr (xs @ c # ys) c = Some (c # ys)"
  by (simp add: strchr_def dropWhile_append)

lemma digit_chars: "set (hex8 n) \<subseteq> digit_char ` {..<16}" "set (dec_string n) \<subseteq> digit_char ` {..<16}"
  using dec_digits_value[of n] by (auto simp: hex8_def dec_string_digits intro!: imageI)

lemma not_in_digits:
  assumes "(of_char c :: nat) < 48 \<or> 57 < (of_char c :: nat) \<and> (of_char c :: nat) < 97 \<or> 102 < (of_char c :: nat)"
  shows "c \<notin> set (hex8 n)" "c \<notin> set (dec_string n)"
  using digit_chars[of n] digit_char_not[OF _ assms] by blast+

lemma parse_mtd_line_printed:
  assumes "i < 2 ^ 31" "sz < 2 ^ 31" "quote \<notin> set name" "length name < NAME_MAX"
  shows "parse_mtd_line (mtd_line i sz er name @ [newline]) =
    Some (Some \<lparr>part_name = name, part_index = int i, part_size = int sz\<rparr>)"
proof -
  define t4 where "t4 = quote # name @ [quote, newline]"
  define t3 where "t3 = CHR '' '' # hex8 er @ CHR '' '' # t4"
  define t2 where "t2 = hex8 sz @ t3"
  define t1 where "t1 = CHR '':'' # CHR '' '' # t2"
  have line: "mtd_line i sz er name @ [newline] = ''mtd'' @ dec_string i @ t1"
    by (simp add: mtd_line_def t1_def t2_def t3_def t4_def)
  have "strchr (dec_string i @ t1) (CHR '':'') = Some t1"
    unfolding t1_def by (intro strchr_skip not_in_digits) simp
  moreover have "atoi (dec_string i @ t1) = int i"
    using assms(1) by (intro strtol_dec) (simp_all add: t1_def digit_val_def)
  moreover have "strtol 16 t2 = int sz"
    unfolding t2_def using assms(2) by (intro strtol_hex8) (simp_all add: t3_def digit_val_def)
  moreover have "strchr t2 quote = Some t4"
    unfolding t2_def t3_def t4_def
    using strchr_skip[of quote "hex8 sz @ CHR '' '' # hex8 er @ [CHR '' '']"] not_in_digits[of quote] by simp
  moreover have "takeWhile (\<lambda>c. c \<noteq> quote) (take (NAME_MAX - 1) (name @ [quote, newline])) = name"
  proof (cases "length name < NAME_MAX - 1")
    case True
    then obtain m where "NAME_MAX - 1 = length name + Suc m"
      by (metis add_Suc_right less_imp_Suc_add)
    then show ?thesis using assms(3) by (auto simp: takeWhile_append)
  next
    case False
    then have "NAME_MAX - 1 = length name" using assms(4) by simp
    then show ?thesis using assms(3) by (auto simp: takeWhile_eq_all_conv)
  qed
  moreover have "strstr (''mtd'' @ dec_string i @ t1) ''mtd'' = Some (''mtd'' @ dec_string i @ t1)"
    by (simp add: prefix_def)
  moreover have "drop 2 t1 = t2" "\<not> length t1 < 2" "drop 1 t4 = name @ [quote, newline]" by (simp_all add: t1_def t4_def)
  moreover have "to_uint32 (int sz) = int sz" using assms(2) by (simp add: to_uint32_def take_bit_int_eq_self)
  ultimately show ?thesis
    unfolding parse_mtd_line_def line by (simp add: Let_def)
qed

text \<open>The devices a table may hold: an index, a size and a name that fit their fields.\<close>

definition mtd_row_ok :: "nat \<times> nat \<times> string \<Rightarrow> bool" where
  "mtd_row_ok = (\<lambda>(sz, er, name). sz < 2 ^ 31 \<and> quote \<notin> set name \<and> newline \<notin> set name \<and> length name \<le> 200)"

lemma mtd_line_short:
  assumes "mtd_row_ok (sz, er, name)" "i < 2 ^ 31"
  shows "newline \<notin> set (mtd_line i sz er name)" "length (mtd_line i sz er name) < 255"
proof -
  have "length (dec_string i) \<le> 10"
    using dec_digits_length[of i 10] assms(2) by (simp add: dec_string_digits)
  moreover have "length (hex8 n) = 8" for n by (simp add: hex8_def)
  ultimately show "length (mtd_line i sz er name) < 255"
    using assms(1) by (simp add: mtd_line_def mtd_row_ok_def)
  show "newline \<notin> set (mtd_line i sz er name)"
    using assms(1) not_in_digits[of newline] by (simp add: mtd_line_def mtd_row_ok_def)
qed

lemma fgets_line_full: "newline \<notin> set l \<Longrightarrow> length l < n \<Longrightarrow> fgets_line n (l @ newline # r) = (l @ [newline], r)"
proof (induction l arbitrary: n)
  case Nil
  then show ?case by (cases n) auto
next
  case (Cons c l)
  then show ?case by (cases n) auto
qed

lemma fgets_lines_text:
  "\<forall>l\<in>set ls. newline \<notin> set l \<and> length l < 255 \<Longrightarrow>
    fgets_lines (concat (map (\<lambda>l. l @ [newline]) ls)) = map (\<lambda>l. l @ [newline]) ls"
  by (induction ls) (simp_all add: fgets_lines.simps[of "_ @ _"] fgets_lines.simps[of "[]"] fgets_line_full)

text \<open>The entries that belong to a table, counted from \<open>n\<close>.\<close>

definition part_entries :: "nat \<Rightarrow> (nat \<times> nat \<times> string) list \<Rightarrow> partinfo list" where
  "part_entries n ps = map (\<lambda>(i, sz, er, name). \<lparr>part_name = name, part_index = int i, part_size = int sz\<rparr>) (enumerate n ps)"

lemma read_partinfo_printed:
  assumes "\<forall>k. realloc_ok k" "\<forall>r\<in>set ps. mtd_row_ok r" "n + length ps < 2 ^ 31"
  shows "read_partinfo realloc_ok (map (\<lambda>l. l @ [newline]) (map (\<lambda>(i, sz, er, name). mtd_line i sz er name) (enumerate n ps))) acc =
    Some (True, acc @ part_entries n ps)"
  using assms(2,3)
proof (induction ps arbitrary: n acc)
  case (Cons r ps)
  obtain sz er name where r: "r = (sz, er, name)" by (cases r)
  have "parse_mtd_line (mtd_line n sz er name @ [newline]) = Some (Some \<lparr>part_name = name, part_index = int n, part_size = int sz\<rparr>)"
    using Cons.prems by (intro parse_mtd_line_printed) (auto simp: r mtd_row_ok_def NAME_MAX_def)
  with Cons show ?case
    using assms(1) by (simp add: r part_entries_def)
qed (simp add: part_entries_def)

lemma read_proc_mtd:
  assumes "\<forall>k. realloc_ok k" "\<forall>r\<in>set ps. mtd_row_ok r" "length ps < 2 ^ 31"
  shows "read_partinfo realloc_ok (fgets_lines (proc_mtd ps)) [] = Some (True, part_entries 0 ps)"
proof -
  have "newline \<notin> set l \<and> length l < 255"
    if l: "l \<in> set (map (\<lambda>(i, sz, er, name). mtd_line i sz er name) (enumerate 0 ps))" for l
  proof -
    obtain x where "x \<in> set (enumerate 0 ps)" "l = (\<lambda>(i, sz, er, name). mtd_line i sz er name) x"
      using l by (subst (asm) set_map) blast
    then obtain i r where ir: "(i, r) \<in> set (enumerate 0 ps)" "l = (\<lambda>(i, sz, er, name). mtd_line i sz er name) (i, r)"
      by (metis surj_pair)
    obtain sz er name where r: "r = (sz, er, name)" by (cases r)
    have "i < length ps" "r \<in> set ps"
      using ir(1) by (auto simp: in_set_enumerate_eq)
    then show ?thesis
      using mtd_line_short[of sz er name i] assms(2,3) by (simp add: ir(2) r)
  qed
  then have "fgets_lines (proc_mtd ps) = (''dev:    size   erasesize  name'' @ [newline]) #
      map (\<lambda>l. l @ [newline]) (map (\<lambda>(i, sz, er, name). mtd_line i sz er name) (enumerate 0 ps))"
    unfolding proc_mtd_def by (subst fgets_lines_text) auto
  moreover have "parse_mtd_line (''dev:    size   erasesize  name'' @ [newline]) = Some None"
    "strstr (''dev:    size   erasesize  name'' @ [newline]) ''mtd'' = None"
    by (simp_all add: parse_mtd_line_def prefix_def)
  ultimately show ?thesis
    using read_partinfo_printed[OF assms(1,2), of 0 "[]"] assms(3) by simp
qed

lemma find_part_entry:
  assumes "find_part name ps = Some (i, e)"
  shows "i < length ps \<and> ps ! i = e \<and> part_name e = name \<and> (\<forall>j<i. part_name (ps ! j) \<noteq> name)"
proof -
  have "List.find (\<lambda>(i, e). part_name e = name) (enumerate 0 ps) = Some (i, e)"
    using assms by (simp add: find_part_def)
  then obtain k where k: "k < length ps" "enumerate 0 ps ! k = (i, e)" "part_name e = name"
    and l: "\<forall>j<k. \<not> (case enumerate 0 ps ! j of (i, e) \<Rightarrow> part_name e = name)"
    by (auto simp: find_Some_iff)
  then have "i = k" "ps ! k = e" by (auto simp: nth_enumerate_eq)
  with k l show ?thesis by (auto simp: nth_enumerate_eq)
qed

end
