(* ===== verification/Storage_Ctl.thy ===== *)
theory Storage_Ctl
  imports Storage Mtd_Table
begin

section \<open>Opening, closing and controlling flash devices (\<open>alislstorage.c\<close>)\<close>

text \<open>
  The part of the storage library around the transfers: the page map index of a NAND flash
  (\<open>alislsto_get_pmi\<close>, \<open>alislsto_set_pmi\<close>, \<open>storage_parse\<close>), the device handles with their open
  counts (\<open>alislsto_open\<close>, \<open>alislsto_close\<close>, \<open>alislsto_mtd_open\<close>, \<open>alislsto_mtd_close\<close> and what they
  call) and the remaining controls. Each public operation runs under the library's mutex and
  is one step on the state \<open>sto_lib\<close>; the kernel (driver, descriptors, \<open>/proc/mtd\<close>) is a parameter.
\<close>

subsection \<open>The page map index\<close>

record pmi_info =
  pmi_buf :: "u8 list"
  pmi_offset :: int
  pmi_length :: nat

text \<open>
  The search for the index in the four copies; \<open>is\<close> are the values of the loop counter left.
  The result is whether the loop was left by a \<open>break\<close>, the driver state and the buffer.
\<close>

fun pmi_scan :: "'k mtd_driver \<Rightarrow> mtd_info \<Rightarrow> nat list \<Rightarrow> 'k \<Rightarrow> pmi_info \<Rightarrow> (bool \<times> 'k \<times> pmi_info) option" where
  "pmi_scan drv info [] k p = Some (False, k, p)"
| "pmi_scan drv info (i # is) k p =
     (let start_offset = to_uint32 (info_writesize info * int i * 256);
          temp_offset = start_offset + info_erasesize info
      in if memgetbadblock drv k temp_offset \<noteq> 0 then pmi_scan drv info is k p
         else if memgetbadblock drv k start_offset \<noteq> 0 then pmi_scan drv info is k p
         else
           let (pos, k1) = klseek drv k start_offset
           in if pos < 0 then Some (True, k1, p)
              else
                let (ret, bs, k2) = kread drv k1 (int (pmi_length p));
                    p = p\<lparr>pmi_buf := memcpy_at 0 bs (pmi_buf p)\<rparr>
                in if length (pmi_buf p) < 16 then None
                   else if pmi_buf p ! 14 = 0x55 \<and> pmi_buf p ! 15 = 0xAA
                   then Some (True, k2, p\<lparr>pmi_offset := start_offset\<rparr>)
                   else pmi_scan drv info is k2 p)"

definition alislsto_get_pmi :: "'k mtd_driver \<Rightarrow> alislsto_dev option \<Rightarrow> 'k \<Rightarrow> pmi_info option
    \<Rightarrow> (retcode \<times> alislsto_dev option \<times> 'k \<times> pmi_info option) option" where
  "alislsto_get_pmi drv handle k pmi =
     (case (handle, pmi) of
        (Some dev, Some p) \<Rightarrow>
          if dev_info dev = Null then Some (STO_ERR_INVALIDHANDLE, handle, k, pmi)
          else do {
            info \<leftarrow> deref (dev_info dev);
            (left, k', p') \<leftarrow> pmi_scan drv info [0, 1, 2, 3] k p;
            Some (if left then (STO_ERR_NONE, Some (dev\<lparr>dev_pmi := True\<rparr>), k', Some p')
                  else (STO_ERR_DRIVER, Some (dev\<lparr>dev_pmi := False\<rparr>), k', Some p')) }
      | _ \<Rightarrow> Some (STO_ERR_INVALIDHANDLE, handle, k, pmi))"

text \<open>The block that holds the index is read, its start replaced, erased and written back.\<close>

definition alislsto_set_pmi :: "'k mtd_driver \<Rightarrow> bool \<Rightarrow> alislsto_dev option \<Rightarrow> 'k \<Rightarrow> pmi_info option
    \<Rightarrow> (retcode \<times> alislsto_dev option \<times> 'k) option" where
  "alislsto_set_pmi drv malloc_ok handle k pmi =
     (case (handle, pmi) of
        (Some dev, Some p) \<Rightarrow>
          if \<not> dev_pmi dev then Some (STO_ERR_DRIVER, handle, k)
          else do {
            info \<leftarrow> deref (dev_info dev);
            if \<not> malloc_ok then Some (STO_ERR_MEM, handle, k)
            else do {
              let dev = dev\<lparr>dev_offset := pmi_offset p\<rparr>;
              if memgetbadblock drv k (dev_offset dev) \<noteq> 0 then Some (STO_ERR_DRIVER, Some dev, k)
              else do {
                let (pos, k1) = klseek drv k (dev_offset dev);
                if pos < 0 then Some (STO_ERR_DRIVER, Some dev, k1)
                else do {
                  let (ret, bs, k2) = kread drv k1 (info_erasesize info);
                  let wrbuf = memcpy_at 0 bs (replicate (nat (info_erasesize info)) 0);
                  if length (pmi_buf p) < pmi_length p \<or> length wrbuf < pmi_length p then None
                  else do {
                    let wrbuf = memcpy_at 0 (take (pmi_length p) (pmi_buf p)) wrbuf;
                    let (er, k3) = memerase drv k2 (dev_offset dev) (info_erasesize info);
                    if er < 0 then Some (STO_ERR_DRIVER, Some dev, k3)
                    else do {
                      let (pos, k4) = klseek drv k3 (dev_offset dev);
                      if pos < 0 then Some (STO_ERR_DRIVER, Some dev, k4)
                      else do {
                        let (wr, k5) = kwrite drv k4 wrbuf;
                        Some (STO_ERR_NONE, Some dev, k5) } } } } } } }
      | _ \<Rightarrow> Some (STO_ERR_INVALIDHANDLE, handle, k))"

subsection \<open>The layout map in the index (\<open>alislstorageparser.c\<close>)\<close>

definition STO_HEADER_SIZE :: nat where "STO_HEADER_SIZE = 512"
definition O_RDWR :: int where "O_RDWR = 2"
definition EINVAL :: int where "EINVAL = 22"
definition STO_PRIVATE :: nat where "STO_PRIVATE = 1"
definition STO_KERNEL :: nat where "STO_KERNEL = 2"
definition STO_UBOOT :: nat where "STO_UBOOT = 12"
definition STO_NANDMAX :: nat where "STO_NANDMAX = 14"

text \<open>A 32-bit value of the buffer, in the byte order of the machine (low byte first).\<close>

definition le32 :: "u8 list \<Rightarrow> nat \<Rightarrow> int" where
  "le32 buf i = uint (buf ! i) + 256 * uint (buf ! (i + 1)) + 65536 * uint (buf ! (i + 2)) + 16777216 * uint (buf ! (i + 3))"

definition part_row :: "u8 list \<Rightarrow> nat \<Rightarrow> nat \<Rightarrow> storage_map \<Rightarrow> storage_map" where
  "part_row buf shift i m =
     m\<lparr>smap_offset := to_int32 (to_int32 (le32 buf (260 + (i - STO_KERNEL + 1) * 8)) * 2 ^ shift),
       smap_imgsz := le32 buf (420 + (i - STO_KERNEL + 1) * 4),
       smap_size := to_uint32 (le32 buf (264 + (i - STO_KERNEL + 1) * 8) * 2 ^ shift)\<rparr>"

definition uboot_row :: "u8 list \<Rightarrow> nat \<Rightarrow> storage_map \<Rightarrow> storage_map" where
  "uboot_row buf i m =
     m\<lparr>smap_offset := to_int32 (le32 buf (192 + (i - STO_UBOOT) * 8)),
       smap_imgsz := le32 buf (192 + (i - STO_UBOOT) * 8 + 4),
       smap_size := to_uint32 (to_int32 (le32 buf (192 + 8)) - to_int32 (le32 buf 192))\<rparr>"

definition storage_parse :: "'k mtd_driver \<Rightarrow> bool \<Rightarrow> alislsto_dev \<Rightarrow> 'k \<Rightarrow> (retcode \<times> alislsto_dev \<times> 'k) option" where
  "storage_parse drv malloc_ok dev k =
     (if \<not> malloc_ok then Some (STO_ERR_MEM, dev, k)
      else do {
        (ret, h, k', p) \<leftarrow> alislsto_get_pmi drv (Some dev) k
           (Some \<lparr>pmi_buf = replicate STO_HEADER_SIZE 0, pmi_offset = 0, pmi_length = STO_HEADER_SIZE\<rparr>);
        dev \<leftarrow> h;
        if ret \<noteq> STO_ERR_NONE then Some (ret, dev, k')
        else do {
          p \<leftarrow> p;
          m \<leftarrow> dev_attr dev;
          info \<leftarrow> deref (dev_info dev);
          let buf = pmi_buf p;
          if length m < STO_NANDMAX \<or> length buf < STO_HEADER_SIZE then None
          else do {
            let shift = (if le32 buf 28 = 1024 then 10 else 9);
            let m1 = map (\<lambda>i. part_row buf shift i (m ! i)) [STO_KERNEL..<STO_UBOOT];
            let m2 = map (\<lambda>i. uboot_row buf i (m ! i)) [STO_UBOOT..<STO_NANDMAX];
            let mx = foldl (\<lambda>mx i. if smap_size (m1 ! (i - STO_KERNEL)) \<noteq> 0 then int i else mx) (dev_maxpart dev) [STO_KERNEL..<STO_UBOOT];
            Some (STO_ERR_NONE,
              dev\<lparr>dev_attr := Some ([(m ! 0)\<lparr>smap_offset := 0\<rparr>, (m ! 1)\<lparr>smap_offset := 0, smap_size := info_size info\<rparr>] @ m1 @ m2 @ drop STO_NANDMAX m),
                  dev_maxpart := mx\<rparr>, k') } } })"

subsection \<open>The state of the library\<close>

text \<open>
  Descriptors live at addresses; \<open>fresh\<close> is the next unused one. \<open>fd_mtd\<close> says which device
  an open file descriptor belongs to, \<open>mtd_state\<close> is the driver's state of each device.
\<close>

record 'k sto_lib =
  devs :: "nat \<rightharpoonup> alislsto_dev"
  fresh :: nat
  nor_handle :: "nat option"
  nand_handle :: "nat option"
  handle_list :: "nat option list"
  partinfo_list :: "partinfo list"
  fd_mtd :: "int \<rightharpoonup> nat"
  mtd_state :: "nat \<Rightarrow> 'k"

text \<open>
  What the system answers: the text of \<open>/proc/mtd\<close> (or that it cannot be opened), the driver
  of each device, the descriptor \<open>open\<close> returns for a device number and flags, and whether allocations succeed:
  those of the partition list, of the handle list, of the path, of the descriptor and of its
  private part, of \<open>storage_parse\<close> and those inside \<open>show_flash_info\<close>.
\<close>

record 'k sto_env =
  proc_text :: "string option"
  proc_once :: proc_read
  env_drv :: "nat \<Rightarrow> 'k mtd_driver"
  kopen :: "nat \<Rightarrow> int \<Rightarrow> int"
  list_ok :: "nat \<Rightarrow> bool"
  handles_ok :: bool
  path_ok :: bool
  dev_alloc_ok :: bool
  priv_ok :: bool
  parse_ok :: bool
  info_alloc_ok :: "nat \<Rightarrow> bool"

definition zero_dev :: alislsto_dev where
  "zero_dev = \<lparr>dev_type = STO_TYPE_NOR, dev_name = None, dev_attr = None, dev_handle = 0, dev_info = Null, dev_offset = 0,
     dev_maxpart = 0, dev_open_cnt = 0, dev_pmi = False, dev_margin = 0, dev_bad_cnt = 0, dev_bad_map = None,
     dev_info_logic = Null, dev_erase_type = 0\<rparr>"

subsection \<open>Descriptors\<close>

definition alislsto_construct :: "'k sto_env \<Rightarrow> 'k sto_lib \<Rightarrow> retcode \<times> nat option \<times> 'k sto_lib" where
  "alislsto_construct e s =
     (if \<not> dev_alloc_ok e \<or> \<not> priv_ok e then (STO_ERR_INVALIDHANDLE, None, s)
      else (STO_ERR_NONE, Some (fresh s),
        s\<lparr>devs := (devs s)(fresh s \<mapsto> zero_dev\<lparr>dev_handle := STO_INVALID_HANDLE\<rparr>), fresh := fresh s + 1\<rparr>))"

definition alislsto_destruct :: "nat \<Rightarrow> 'k sto_lib \<Rightarrow> 'k sto_lib" where
  "alislsto_destruct h s = s\<lparr>devs := (devs s)(h := None)\<rparr>"

text \<open>
  What closing the last user does to a descriptor: the file is closed, the two info blocks are
  freed (a block that was freed before makes this undefined) and the fields are reset.
\<close>

definition release_dev :: "nat \<Rightarrow> alislsto_dev \<Rightarrow> 'k sto_lib \<Rightarrow> 'k sto_lib option" where
  "release_dev h dev s =
     (if dev_info dev = Dangling \<or> dev_info_logic dev = Dangling then None
      else
        let s = (if dev_handle dev \<noteq> STO_INVALID_HANDLE then s\<lparr>fd_mtd := (fd_mtd s)(dev_handle dev := None)\<rparr> else s)
        in Some (alislsto_destruct h s))"

text \<open>Opening the device file of a descriptor and filling the descriptor in.\<close>

definition dev_fill :: "'k sto_env \<Rightarrow> nat \<Rightarrow> nat \<Rightarrow> alislsto_dev \<Rightarrow> 'k sto_lib \<Rightarrow> (alislsto_dev \<times> 'k sto_lib) option" where
  "dev_fill e h mtd dev s = do {
     (r, d) \<leftarrow> show_flash_info (env_drv e mtd) (info_alloc_ok e) (Some dev) (mtd_state s mtd);
     dev \<leftarrow> d;
     let (pos, k) = klseek (env_drv e mtd) (mtd_state s mtd) 0;
     Some (dev, s\<lparr>mtd_state := (mtd_state s)(mtd := k)\<rparr>) }"

subsection \<open>The partition list\<close>

definition alislsto_get_partinfo :: "'k sto_env \<Rightarrow> 'k sto_lib \<Rightarrow> (retcode \<times> 'k sto_lib) option" where
  "alislsto_get_partinfo e s =
     (case proc_text e of
        None \<Rightarrow> Some (STO_ERR_DRIVER, s)
      | Some text \<Rightarrow> do {
          (ok, ps) \<leftarrow> read_partinfo (list_ok e) (fgets_lines text) [];
          let s = s\<lparr>partinfo_list := ps\<rparr>;
          if \<not> ok then Some (STO_ERR_MEM, s)
          else if ps = [] then Some (STO_ERR_DRIVER, s)
          else if length (handle_list s) < length ps then
            if \<not> handles_ok e then Some (STO_ERR_MEM, s)
            else Some (STO_ERR_NONE, s\<lparr>handle_list := handle_list s @ replicate (length ps - length (handle_list s)) None\<rparr>)
          else Some (STO_ERR_NONE, s) })"

definition ensure_partinfo :: "'k sto_env \<Rightarrow> 'k sto_lib \<Rightarrow> 'k sto_lib option" where
  "ensure_partinfo e s = (if partinfo_list s = [] then map_option snd (alislsto_get_partinfo e s) else Some s)"

definition alislsto_get_partsize :: "'k sto_env \<Rightarrow> string \<Rightarrow> 'k sto_lib \<Rightarrow> (retcode \<times> int \<times> 'k sto_lib) option" where
  "alislsto_get_partsize e name s = do {
     s \<leftarrow> ensure_partinfo e s;
     Some (case find_part name (partinfo_list s) of
             Some (i, p) \<Rightarrow> (STO_ERR_NONE, part_size p, s)
           | None \<Rightarrow> (STO_ERR_DRIVER, 0, s)) }"

subsection \<open>Opening and closing by partition\<close>

text \<open>
  The result of an open is the return code and the handle that is stored, if one is. An index
  equal to the number of handles passes the test of the source and is then used: the access
  is outside the list. The count of users is an unsigned 32-bit value.
\<close>

definition mtd_open_new :: "'k sto_env \<Rightarrow> nat \<Rightarrow> int \<Rightarrow> int \<Rightarrow> 'k sto_lib \<Rightarrow> (retcode \<times> nat option \<times> 'k sto_lib) option" where
  "mtd_open_new e index flags erase_type s =
     (if \<not> path_ok e then Some (STO_ERR_MEM, None, s)
      else case alislsto_construct e s of
        (r, None, s) \<Rightarrow> Some (STO_ERR_INVALIDHANDLE, None, s)
      | (r, Some h, s) \<Rightarrow>
          if length (partinfo_list s) \<le> index then None
          else do {
            dev \<leftarrow> devs s h;
            let dev = dev\<lparr>dev_type := (if part_name (partinfo_list s ! index) = ''sflash'' then STO_TYPE_NOR else STO_TYPE_NAND),
              dev_erase_type := erase_type, dev_name := Some (''/dev/mtd'' @ dec_string index), dev_attr := None,
              dev_handle := kopen e index flags\<rparr>;
            if dev_handle dev = STO_INVALID_HANDLE then Some (STO_ERR_INVALIDHANDLE, None, alislsto_destruct h s)
            else do {
              let s = s\<lparr>handle_list := (handle_list s)[index := Some h], fd_mtd := (fd_mtd s)(dev_handle dev \<mapsto> index)\<rparr>;
              (dev, s) \<leftarrow> dev_fill e h index (dev\<lparr>dev_open_cnt := 1\<rparr>) s;
              Some (STO_ERR_NONE, Some h, s\<lparr>devs := (devs s)(h \<mapsto> dev\<lparr>dev_offset := 0\<rparr>)\<rparr>) } })"

definition alislsto_mtd_open :: "'k sto_env \<Rightarrow> bool \<Rightarrow> int \<Rightarrow> int \<Rightarrow> int \<Rightarrow> 'k sto_lib \<Rightarrow> (retcode \<times> nat option \<times> 'k sto_lib) option" where
  "alislsto_mtd_open e has_handle index flags erase_type s =
     (if \<not> has_handle then Some (STO_ERR_INVALIDHANDLE, None, s)
      else do {
        s \<leftarrow> (if handle_list s = [] \<or> index > int (length (handle_list s)) then map_option snd (alislsto_get_partinfo e s) else Some s);
        if handle_list s = [] \<or> index > int (length (handle_list s)) then Some (STO_ERR_INVALIDPARAM, None, s)
        else if index < 0 \<or> index = int (length (handle_list s)) then None
        else case handle_list s ! nat index of
          None \<Rightarrow> mtd_open_new e (nat index) flags erase_type s
        | Some h \<Rightarrow> do {
            dev \<leftarrow> devs s h;
            if dev_open_cnt dev \<noteq> 0 then
              Some (STO_ERR_NONE, Some h, s\<lparr>devs := (devs s)(h \<mapsto> dev\<lparr>dev_open_cnt := (dev_open_cnt dev + 1) mod 2 ^ 32\<rparr>)\<rparr>)
            else mtd_open_new e (nat index) flags erase_type s } })"

text \<open>The name is looked up in the list; the result of the open itself is not looked at.\<close>

definition alislsto_mtd_open_by_name :: "'k sto_env \<Rightarrow> bool \<Rightarrow> string \<Rightarrow> int \<Rightarrow> 'k sto_lib \<Rightarrow> (retcode \<times> nat option \<times> 'k sto_lib) option" where
  "alislsto_mtd_open_by_name e has_handle name flags s = do {
     s \<leftarrow> ensure_partinfo e s;
     case find_part name (partinfo_list s) of
       None \<Rightarrow> Some (STO_ERR_DRIVER, None, s)
     | Some (i, p) \<Rightarrow> do {
         (r, h, s) \<leftarrow> alislsto_mtd_open e has_handle (int i) flags STO_ERASE_TYPE_BLOCK s;
         Some (STO_ERR_NONE, h, s) } }"

definition alislsto_mtd_close :: "nat option \<Rightarrow> 'k sto_lib \<Rightarrow> (retcode \<times> 'k sto_lib) option" where
  "alislsto_mtd_close handle s =
     (case handle of
        None \<Rightarrow> Some (STO_ERR_INVALIDPARAM, s)
      | Some h \<Rightarrow> do {
          dev \<leftarrow> devs s h;
          if dev_open_cnt dev = 0 then Some (STO_ERR_NONE, s)
          else if dev_open_cnt dev > 1 then
            Some (STO_ERR_NONE, s\<lparr>devs := (devs s)(h \<mapsto> dev\<lparr>dev_open_cnt := dev_open_cnt dev - 1\<rparr>)\<rparr>)
          else do {
            s \<leftarrow> release_dev h dev s;
            Some (STO_ERR_NONE, s\<lparr>handle_list := map (\<lambda>x. if x = Some h then None else x) (handle_list s)\<rparr>) } })"

subsection \<open>Opening and closing the whole flash\<close>

text \<open>
  The first user of a flash type: the device is found by its partition name (the NAND falls
  back to \<open>mtd1\<close>), opened and filled in; for the NAND the layout map is read, whatever the
  result. \<open>layout\<close> is the content of the static table of the type (\<open>nor_map\<close> or \<open>nand_map\<close>).
\<close>

definition sto_open_new :: "'k sto_env \<Rightarrow> alislsto_type \<Rightarrow> int \<Rightarrow> storage_map list \<Rightarrow> 'k sto_lib
    \<Rightarrow> (retcode \<times> nat option \<times> 'k sto_lib) option" where
  "sto_open_new e sto_type flags layout s =
     (if \<not> path_ok e then Some (STO_ERR_MEM, None, s)
      else case alislsto_construct e s of
        (r, None, s) \<Rightarrow> Some (STO_ERR_INVALIDHANDLE, None, s)
      | (r, Some h, s) \<Rightarrow> do {
          dev \<leftarrow> devs s h;
          (ret, mtd_dev) \<leftarrow> find_mtd_dev_num (proc_once e) (Some (if sto_type = STO_TYPE_NOR then ''sflash'' else ''ALI_Nand_Whole'')) 32;
          if sto_type = STO_TYPE_NOR \<and> ret \<noteq> STO_ERR_NONE then Some (STO_ERR_INVALIDHANDLE, None, alislsto_destruct h s)
          else do {
            name \<leftarrow> (if ret \<noteq> STO_ERR_NONE then Some ''mtd1'' else mtd_dev);
            let mtd = nat (atoi (drop 3 name));
            let dev = dev\<lparr>dev_type := sto_type, dev_name := Some (''/dev/mtd'' @ dec_string mtd), dev_attr := Some layout,
              dev_handle := kopen e mtd flags\<rparr>;
            if dev_handle dev = STO_INVALID_HANDLE then Some (STO_ERR_INVALIDHANDLE, None, alislsto_destruct h s)
            else do {
              let s = s\<lparr>fd_mtd := (fd_mtd s)(dev_handle dev \<mapsto> mtd)\<rparr>;
              let s = (if sto_type = STO_TYPE_NOR then s\<lparr>nor_handle := Some h\<rparr> else s\<lparr>nand_handle := Some h\<rparr>);
              (dev, s) \<leftarrow> dev_fill e h mtd (dev\<lparr>dev_open_cnt := 1\<rparr>) s;
              (dev, s) \<leftarrow> (if sto_type = STO_TYPE_NAND then do {
                  (r, dev, k) \<leftarrow> storage_parse (env_drv e mtd) (parse_ok e) dev (mtd_state s mtd);
                  Some (dev, s\<lparr>mtd_state := (mtd_state s)(mtd := k)\<rparr>) }
                else Some (dev, s));
              Some (STO_ERR_NONE, Some h, s\<lparr>devs := (devs s)(h \<mapsto> dev\<lparr>dev_offset := 0\<rparr>)\<rparr>) } } })"

definition alislsto_open :: "'k sto_env \<Rightarrow> bool \<Rightarrow> alislsto_type \<Rightarrow> int \<Rightarrow> storage_map list \<Rightarrow> 'k sto_lib
    \<Rightarrow> (retcode \<times> nat option \<times> 'k sto_lib) option" where
  "alislsto_open e has_handle sto_type flags layout s =
     (if \<not> has_handle then Some (STO_ERR_INVALIDHANDLE, None, s)
      else case (if sto_type = STO_TYPE_NOR then nor_handle s else nand_handle s) of
        Some h \<Rightarrow> do {
          dev \<leftarrow> devs s h;
          Some (STO_ERR_NONE, Some h, s\<lparr>devs := (devs s)(h \<mapsto> dev\<lparr>dev_open_cnt := (dev_open_cnt dev + 1) mod 2 ^ 32\<rparr>)\<rparr>) }
      | None \<Rightarrow> sto_open_new e sto_type flags layout s)"

text \<open>The open count is an unsigned 32-bit value.\<close>

definition alislsto_close :: "nat option \<Rightarrow> 'k sto_lib \<Rightarrow> (retcode \<times> 'k sto_lib) option" where
  "alislsto_close handle s =
     (case handle of
        None \<Rightarrow> Some (STO_ERR_INVALIDPARAM, s)
      | Some h \<Rightarrow> do {
          dev \<leftarrow> devs s h;
          let cnt = nat ((int (dev_open_cnt dev) - 1) mod 2 ^ 32);
          if cnt \<noteq> 0 then Some (STO_ERR_NONE, s\<lparr>devs := (devs s)(h \<mapsto> dev\<lparr>dev_open_cnt := cnt\<rparr>)\<rparr>)
          else do {
            let s = (case dev_type dev of STO_TYPE_NOR \<Rightarrow> s\<lparr>nor_handle := None\<rparr> | STO_TYPE_NAND \<Rightarrow> s\<lparr>nand_handle := None\<rparr>);
            s \<leftarrow> release_dev h dev s;
            Some (STO_ERR_NONE, s) } })"

subsection \<open>An operation on the device behind a handle\<close>

text \<open>
  The operations of theory \<open>Storage\<close> work on one descriptor and the driver's state of its device;
  here they are applied to those behind a handle. With a null handle they only
  return an error; a descriptor that is not open any more is outside the model.
\<close>

definition on_handle :: "'k sto_env \<Rightarrow> ('k mtd_driver \<Rightarrow> alislsto_dev option \<Rightarrow> 'k \<Rightarrow> ('r \<times> alislsto_dev option \<times> 'k) option)
    \<Rightarrow> nat option \<Rightarrow> 'k sto_lib \<Rightarrow> ('r option \<times> 'k sto_lib) option" where
  "on_handle e f handle s =
     (case handle of
        None \<Rightarrow> Some (None, s)
      | Some h \<Rightarrow> do {
          dev \<leftarrow> devs s h;
          mtd \<leftarrow> fd_mtd s (dev_handle dev);
          (r, dev', k) \<leftarrow> f (env_drv e mtd) (Some dev) (mtd_state s mtd);
          dev' \<leftarrow> dev';
          Some (Some r, s\<lparr>devs := (devs s)(h \<mapsto> dev'), mtd_state := (mtd_state s)(mtd := k)\<rparr>) })"

subsection \<open>Other controls\<close>

text \<open>The parameters of a device: its type, the information on the logical device and the last part.\<close>

definition alislsto_get_param :: "alislsto_dev option \<Rightarrow> bool \<Rightarrow> retcode \<times> (alislsto_type \<times> mtd_info ptr \<times> int) option" where
  "alislsto_get_param handle has_param =
     (case handle of
        Some dev \<Rightarrow> if has_param then (STO_ERR_NONE, Some (dev_type dev, dev_info_logic dev, dev_maxpart dev))
                     else (STO_ERR_INVALIDPARAM, None)
      | None \<Rightarrow> (STO_ERR_INVALIDPARAM, None))"

text \<open>The remaining ioctls of the driver are given by what they return.\<close>

definition alislsto_ioctl :: "('k \<Rightarrow> int \<Rightarrow> 'p \<Rightarrow> int \<times> 'p \<times> 'k) \<Rightarrow> alislsto_dev option \<Rightarrow> 'k \<Rightarrow> int \<Rightarrow> 'p option \<Rightarrow> retcode \<times> 'p option \<times> 'k" where
  "alislsto_ioctl kioctl handle k cmd param =
     (case (handle, param) of
        (Some dev, Some p) \<Rightarrow> let (ret, p', k') = kioctl k cmd p in (ret, Some p', k')
      | _ \<Rightarrow> (STO_ERR_INVALIDHANDLE, param, k))"

definition alislsto_lock_nor :: "('k \<Rightarrow> bool \<Rightarrow> int \<Rightarrow> int \<Rightarrow> int \<times> 'k) \<Rightarrow> alislsto_dev option \<Rightarrow> 'k \<Rightarrow> int \<Rightarrow> int \<Rightarrow> int \<Rightarrow> retcode \<times> 'k" where
  "alislsto_lock_nor memlock handle k lock start len =
     (case handle of
        None \<Rightarrow> (STO_ERR_INVALIDHANDLE, k)
      | Some dev \<Rightarrow> memlock k (lock = 1) (to_uint32 start) (to_uint32 len))"

definition alislsto_islock_nor :: "('k \<Rightarrow> int \<Rightarrow> int \<Rightarrow> int) \<Rightarrow> alislsto_dev option \<Rightarrow> 'k \<Rightarrow> int \<Rightarrow> int \<Rightarrow> int \<Rightarrow> retcode \<times> int" where
  "alislsto_islock_nor memislocked handle k start len lock =
     (case handle of
        None \<Rightarrow> (STO_ERR_INVALIDHANDLE, lock)
      | Some dev \<Rightarrow>
          let ret = memislocked k (to_uint32 start) (to_uint32 len)
          in if ret < 0 then (ret, lock) else (0, ret))"

subsection \<open>Handles and their users\<close>

text \<open>Every handle of the list is an allocated descriptor in use with an open file, and no two slots share one.\<close>

definition dev_sound :: "alislsto_dev \<Rightarrow> bool" where
  "dev_sound dev \<longleftrightarrow> 0 < dev_open_cnt dev \<and> dev_open_cnt dev < 2 ^ 32 \<and> dev_handle dev \<noteq> STO_INVALID_HANDLE \<and>
     dev_info dev \<noteq> Dangling \<and> dev_info_logic dev \<noteq> Dangling"

definition lib_ok :: "'k sto_lib \<Rightarrow> bool" where
  "lib_ok s \<longleftrightarrow> (\<forall>i<length (handle_list s). \<forall>h. handle_list s ! i = Some h \<longrightarrow>
       (\<exists>dev. devs s h = Some dev \<and> dev_sound dev) \<and> (\<forall>j<length (handle_list s). handle_list s ! j = Some h \<longrightarrow> j = i)) \<and>
     (\<forall>h dev. devs s h = Some dev \<longrightarrow> h < fresh s)"

definition users :: "'k sto_lib \<Rightarrow> nat \<Rightarrow> nat" where
  "users s i =
     (if i < length (handle_list s) then
        (case handle_list s ! i of
           None \<Rightarrow> 0
         | Some h \<Rightarrow> (case devs s h of None \<Rightarrow> 0 | Some dev \<Rightarrow> dev_open_cnt dev))
      else 0)"

lemma lib_okD:
  assumes "lib_ok s" "i < length (handle_list s)" "handle_list s ! i = Some h"
  shows "\<exists>dev. devs s h = Some dev \<and> dev_sound dev" "\<And>j. j < length (handle_list s) \<Longrightarrow> handle_list s ! j = Some h \<Longrightarrow> j = i"
    "h < fresh s"
proof -
  show e: "\<exists>dev. devs s h = Some dev \<and> dev_sound dev" using assms unfolding lib_ok_def by blast
  show "\<And>j. j < length (handle_list s) \<Longrightarrow> handle_list s ! j = Some h \<Longrightarrow> j = i"
    using assms unfolding lib_ok_def by blast
  show "h < fresh s" using e assms(1) unfolding lib_ok_def by blast
qed

lemma lib_okI:
  assumes "\<And>i h. i < length (handle_list s) \<Longrightarrow> handle_list s ! i = Some h \<Longrightarrow> \<exists>dev. devs s h = Some dev \<and> dev_sound dev"
    and "\<And>i j h. i < length (handle_list s) \<Longrightarrow> j < length (handle_list s) \<Longrightarrow> handle_list s ! i = Some h \<Longrightarrow>
      handle_list s ! j = Some h \<Longrightarrow> j = i"
    and "\<And>h dev. devs s h = Some dev \<Longrightarrow> h < fresh s"
  shows "lib_ok s"
  unfolding lib_ok_def using assms by blast

lemma lib_ok_fresh: "lib_ok s \<Longrightarrow> devs s h = Some dev \<Longrightarrow> h < fresh s"
  unfolding lib_ok_def by blast

text \<open>Changing the descriptor of one slot changes the users of this slot only.\<close>

lemma users_update:
  assumes "lib_ok s" "i < length (handle_list s)" "handle_list s ! i = Some h" "dev_sound dev"
  shows "lib_ok (s\<lparr>devs := (devs s)(h \<mapsto> dev)\<rparr>)"
    "users (s\<lparr>devs := (devs s)(h \<mapsto> dev)\<rparr>) = (users s)(i := dev_open_cnt dev)"
proof -
  note d = lib_okD[OF assms(1-3)]
  show "lib_ok (s\<lparr>devs := (devs s)(h \<mapsto> dev)\<rparr>)"
  proof (rule lib_okI)
    fix j h' assume "j < length (handle_list (s\<lparr>devs := (devs s)(h \<mapsto> dev)\<rparr>))" "handle_list (s\<lparr>devs := (devs s)(h \<mapsto> dev)\<rparr>) ! j = Some h'"
    then show "\<exists>d. devs (s\<lparr>devs := (devs s)(h \<mapsto> dev)\<rparr>) h' = Some d \<and> dev_sound d"
      using lib_okD(1)[OF assms(1), of j h'] assms(4) by simp
  next
    fix j l h' assume "j < length (handle_list (s\<lparr>devs := (devs s)(h \<mapsto> dev)\<rparr>))" "l < length (handle_list (s\<lparr>devs := (devs s)(h \<mapsto> dev)\<rparr>))"
      "handle_list (s\<lparr>devs := (devs s)(h \<mapsto> dev)\<rparr>) ! j = Some h'" "handle_list (s\<lparr>devs := (devs s)(h \<mapsto> dev)\<rparr>) ! l = Some h'"
    then show "l = j" using lib_okD(2)[OF assms(1), of j h' l] by simp
  qed (use lib_ok_fresh[OF assms(1)] d(3) in \<open>auto split: if_splits\<close>)
  show "users (s\<lparr>devs := (devs s)(h \<mapsto> dev)\<rparr>) = (users s)(i := dev_open_cnt dev)"
  proof
    fix j
    show "users (s\<lparr>devs := (devs s)(h \<mapsto> dev)\<rparr>) j = ((users s)(i := dev_open_cnt dev)) j"
      using assms(2,3) d(2)[of j] by (cases "handle_list s ! j") (auto simp: users_def)
  qed
qed

text \<open>A new descriptor in an empty slot.\<close>

lemma users_insert:
  assumes "lib_ok s" "i < length (handle_list s)" "users s i = 0" "dev_sound dev" "h = fresh s"
    and "s' = s\<lparr>fresh := Suc (fresh s), handle_list := (handle_list s)[i := Some h], fd_mtd := m, mtd_state := k, devs := (devs s)(h \<mapsto> dev)\<rparr>"
  shows "lib_ok s'" "users s' = (users s)(i := dev_open_cnt dev)"
proof -
  have new: "handle_list s ! j \<noteq> Some h" if "j < length (handle_list s)" for j
    using lib_okD(3)[OF assms(1) that, of h] assms(5) by auto
  show "lib_ok s'"
  proof (rule lib_okI)
    fix j h' assume "j < length (handle_list s')" "handle_list s' ! j = Some h'"
    then show "\<exists>d. devs s' h' = Some d \<and> dev_sound d"
      using lib_okD(1)[OF assms(1), of j h'] assms(2,4-6) by (auto simp: nth_list_update split: if_splits)
  next
    fix j l h' assume "j < length (handle_list s')" "l < length (handle_list s')" "handle_list s' ! j = Some h'" "handle_list s' ! l = Some h'"
    then show "l = j"
      using lib_okD(2)[OF assms(1), of j h' l] assms(2,6) new[of j] new[of l] by (auto simp: nth_list_update split: if_splits)
  qed (use lib_ok_fresh[OF assms(1)] assms(5,6) in \<open>auto simp: less_Suc_eq split: if_splits\<close>)
  show "users s' = (users s)(i := dev_open_cnt dev)"
  proof
    fix j
    show "users s' j = ((users s)(i := dev_open_cnt dev)) j"
      using assms(2,6) new[of j] by (cases "handle_list s ! j") (auto simp: users_def nth_list_update)
  qed
qed

text \<open>The last user of a slot leaves.\<close>

lemma users_remove:
  assumes "lib_ok s" "i < length (handle_list s)" "handle_list s ! i = Some h"
    and "s' = s\<lparr>devs := (devs s)(h := None), handle_list := map (\<lambda>x. if x = Some h then None else x) (handle_list s), fd_mtd := m\<rparr>"
  shows "lib_ok s'" "users s' = (users s)(i := 0)"
proof -
  note d = lib_okD[OF assms(1-3)]
  show "lib_ok s'"
  proof (rule lib_okI)
    fix j h' assume "j < length (handle_list s')" "handle_list s' ! j = Some h'"
    then show "\<exists>d. devs s' h' = Some d \<and> dev_sound d"
      using lib_okD(1)[OF assms(1), of j h'] assms(4) by (auto split: if_splits)
  next
    fix j l h' assume "j < length (handle_list s')" "l < length (handle_list s')" "handle_list s' ! j = Some h'" "handle_list s' ! l = Some h'"
    then show "l = j"
      using lib_okD(2)[OF assms(1), of j h' l] assms(4) by (auto split: if_splits)
  qed (use lib_ok_fresh[OF assms(1)] assms(4) in \<open>auto split: if_splits\<close>)
  show "users s' = (users s)(i := 0)"
  proof
    fix j
    show "users s' j = ((users s)(i := 0)) j"
      using assms(2-4) d(2)[of j] by (cases "handle_list s ! j") (auto simp: users_def)
  qed
qed

lemma show_flash_info_sound:
  assumes "show_flash_info drv a (Some dev) k = Some (r, d)" "\<forall>n. a n"
  shows "\<exists>dev'. d = Some dev' \<and> dev_open_cnt dev' = dev_open_cnt dev \<and> dev_handle dev' = dev_handle dev \<and>
    dev_info dev' \<noteq> Dangling \<and> dev_info_logic dev' \<noteq> Dangling"
  using assms by (auto simp: show_flash_info_def Let_def split: prod.splits if_splits bind_splits)

subsection \<open>Opening and closing count the users\<close>

lemma mtd_open_new_users:
  assumes "lib_ok s" "i < length (handle_list s)" "users s i = 0" "\<forall>n. info_alloc_ok e n"
    and "mtd_open_new e i flags et s = Some (STO_ERR_NONE, Some h, s')"
  shows "lib_ok s' \<and> handle_list s' = (handle_list s)[i := Some h] \<and> users s' = (users s)(i := 1)"
proof -
  obtain d0 d1 r m k where h: "h = fresh s" and d0: "dev_open_cnt d0 = 1" "dev_handle d0 \<noteq> STO_INVALID_HANDLE"
    and sf: "show_flash_info (env_drv e i) (info_alloc_ok e) (Some d0) (mtd_state s i) = Some (r, Some d1)"
    and s': "s' = s\<lparr>fresh := Suc (fresh s), handle_list := (handle_list s)[i := Some h], fd_mtd := m, mtd_state := k,
      devs := (devs s)(h \<mapsto> d1\<lparr>dev_offset := 0\<rparr>)\<rparr>"
    using assms(5) that[of "zero_dev\<lparr>dev_type := (if part_name (partinfo_list s ! i) = ''sflash'' then STO_TYPE_NOR else STO_TYPE_NAND),
        dev_erase_type := et, dev_name := Some (''/dev/mtd'' @ dec_string i), dev_attr := None, dev_handle := kopen e i flags, dev_open_cnt := 1\<rparr>"]
    by (auto simp: mtd_open_new_def alislsto_construct_def dev_fill_def Let_def retcode_defs
        split: if_splits prod.splits bind_splits)
  have "dev_sound (d1\<lparr>dev_offset := 0\<rparr>)" "dev_open_cnt d1 = 1"
    using show_flash_info_sound[OF sf assms(4)] d0 by (auto simp: dev_sound_def)
  with users_insert[OF assms(1-3) _ h s'] show ?thesis
    using assms(2) by (auto simp: s')
qed

lemma mtd_open_users:
  assumes "lib_ok s" "i < length (handle_list s)" "\<forall>n. info_alloc_ok e n" "users s i + 1 < 2 ^ 32"
    and "alislsto_mtd_open e True (int i) flags et s = Some (STO_ERR_NONE, Some h, s')"
  shows "lib_ok s' \<and> handle_list s' = (handle_list s)[i := Some h] \<and>
    users s' = (users s)(i := Suc (users s i)) \<and> (0 < users s i \<longrightarrow> handle_list s ! i = Some h)"
proof (cases "handle_list s ! i")
  case None
  then have "users s i = 0" "mtd_open_new e i flags et s = Some (STO_ERR_NONE, Some h, s')"
    using assms(2,5) by (auto simp: users_def alislsto_mtd_open_def split: if_splits)
  with mtd_open_new_users[OF assms(1,2) _ assms(3)] show ?thesis by simp
next
  case (Some h')
  obtain dev where dev: "devs s h' = Some dev" "dev_sound dev"
    using lib_okD(1)[OF assms(1,2) Some] by blast
  have u: "users s i = dev_open_cnt dev" using assms(2) Some dev by (simp add: users_def)
  have s': "h = h'" "s' = s\<lparr>devs := (devs s)(h \<mapsto> dev\<lparr>dev_open_cnt := Suc (dev_open_cnt dev)\<rparr>)\<rparr>"
    using assms(2,4,5) Some dev u by (auto simp: alislsto_mtd_open_def dev_sound_def split: if_splits)
  have "dev_sound (dev\<lparr>dev_open_cnt := Suc (dev_open_cnt dev)\<rparr>)" using dev(2) assms(4) u by (simp add: dev_sound_def)
  from users_update[OF assms(1,2) Some this] show ?thesis
    using s' u Some list_update_id[of "handle_list s" i] by simp
qed

text \<open>
  What the last user leaves behind: an empty slot, no descriptor, and the file closed.
\<close>

definition dev_released :: "nat \<Rightarrow> nat \<Rightarrow> 'k sto_lib \<Rightarrow> 'k sto_lib \<Rightarrow> bool" where
  "dev_released i h s s' \<longleftrightarrow> handle_list s' ! i = None \<and> devs s' h = None \<and>
     (\<exists>dev. devs s h = Some dev \<and> dev_handle dev \<noteq> STO_INVALID_HANDLE \<and> fd_mtd s' = (fd_mtd s)(dev_handle dev := None))"

definition dev_kept :: "nat \<Rightarrow> nat \<Rightarrow> 'k sto_lib \<Rightarrow> 'k sto_lib \<Rightarrow> bool" where
  "dev_kept i h s s' \<longleftrightarrow> handle_list s' ! i = Some h \<and> devs s' h \<noteq> None \<and> fd_mtd s' = fd_mtd s"

lemma mtd_close_users:
  assumes "lib_ok s" "i < length (handle_list s)" "handle_list s ! i = Some h"
  shows "\<exists>s'. alislsto_mtd_close (Some h) s = Some (STO_ERR_NONE, s') \<and> lib_ok s' \<and> users s' = (users s)(i := users s i - 1) \<and>
    (if users s i = 1 then dev_released i h s s' \<and> handle_list s' = (handle_list s)[i := None]
     else dev_kept i h s s' \<and> handle_list s' = handle_list s)"
proof -
  obtain dev where dev: "devs s h = Some dev" "dev_sound dev"
    using lib_okD(1)[OF assms] by blast
  have u: "users s i = dev_open_cnt dev" using assms(2,3) dev by (simp add: users_def)
  show ?thesis
  proof (cases "dev_open_cnt dev = 1")
    case True
    define m where "m = (fd_mtd s)(dev_handle dev := None)"
    define s' where "s' = s\<lparr>devs := (devs s)(h := None), handle_list := map (\<lambda>x. if x = Some h then None else x) (handle_list s), fd_mtd := m\<rparr>"
    have "alislsto_mtd_close (Some h) s = Some (STO_ERR_NONE, s')"
      using dev True by (simp add: alislsto_mtd_close_def release_dev_def alislsto_destruct_def dev_sound_def Let_def s'_def m_def)
    moreover have "map (\<lambda>x. if x = Some h then None else x) (handle_list s) = (handle_list s)[i := None]"
    proof (rule nth_equalityI)
      fix j assume "j < length (map (\<lambda>x. if x = Some h then None else x) (handle_list s))"
      then have j: "j < length (handle_list s)" "handle_list s ! j = Some h \<Longrightarrow> j = i"
        using lib_okD(2)[OF assms, of j] by simp_all
      show "map (\<lambda>x. if x = Some h then None else x) (handle_list s) ! j = (handle_list s)[i := None] ! j"
        by (cases "handle_list s ! j = Some h") (use j assms(2,3) in \<open>auto simp: nth_list_update\<close>)
    qed simp
    ultimately show ?thesis
      using users_remove[OF assms s'_def] True u dev assms(2)
      by (auto simp: s'_def m_def dev_released_def dev_sound_def)
  next
    case False
    let ?d = "dev\<lparr>dev_open_cnt := dev_open_cnt dev - 1\<rparr>"
    have "alislsto_mtd_close (Some h) s = Some (STO_ERR_NONE, s\<lparr>devs := (devs s)(h \<mapsto> ?d)\<rparr>)"
      using dev False by (simp add: alislsto_mtd_close_def dev_sound_def)
    moreover have "dev_sound ?d" using dev(2) False unfolding dev_sound_def by auto
    ultimately show ?thesis
      using users_update[OF assms, of ?d] False u assms(3) by (auto simp: dev_kept_def)
  qed
qed

subsection \<open>The contract of shared handles\<close>

text \<open>
  What the clients of the library rely on when several threads use the same partition: an
  open hands out the handle of the slot and adds a user, as long as the count has room for
  one more; a close removes one, and the other users keep their handle.
\<close>

locale shared_handles =
  fixes max_users :: nat
    and ok :: "'s \<Rightarrow> bool"
    and slot :: "'s \<Rightarrow> nat \<Rightarrow> 'h option"
    and cnt :: "'s \<Rightarrow> nat \<Rightarrow> nat"
    and opn :: "nat \<Rightarrow> 's \<Rightarrow> ('h \<times> 's) option"
    and cls :: "'h \<Rightarrow> 's \<Rightarrow> 's option"
  assumes slot_used: "ok s \<Longrightarrow> slot s i \<noteq> None \<longleftrightarrow> 0 < cnt s i"
    and opn_adds: "ok s \<Longrightarrow> cnt s i < max_users \<Longrightarrow> opn i s = Some (h, s') \<Longrightarrow> ok s' \<and> slot s' = (slot s)(i \<mapsto> h) \<and>
      cnt s' = (cnt s)(i := Suc (cnt s i)) \<and> (0 < cnt s i \<longrightarrow> slot s i = Some h)"
    and cls_removes: "ok s \<Longrightarrow> slot s i = Some h \<Longrightarrow> \<exists>s'. cls h s = Some s' \<and> ok s' \<and>
      slot s' = (if cnt s i = 1 then (slot s)(i := None) else slot s) \<and> cnt s' = (cnt s)(i := cnt s i - 1)"
begin

lemma second_open_shares:
  assumes "ok s" "cnt s i + 1 < max_users" "opn i s = Some (h, s1)" "opn i s1 = Some (h', s2)"
  shows "h' = h"
  using opn_adds[OF assms(1) _ assms(3)] opn_adds[OF _ _ assms(4)] assms(2) by auto

lemma opened_by_both:
  assumes "ok s" "cnt s i + 1 < max_users" "cnt s j + 1 < max_users" "opn i s = Some (h, s1)" "opn j s1 = Some (h', s2)"
  shows "ok s2 \<and> slot s2 i = Some h \<and> slot s2 j = Some h' \<and>
    cnt s2 = ((cnt s)(i := Suc (cnt s i)))(j := (if i = j then Suc (Suc (cnt s j)) else Suc (cnt s j)))"
proof -
  have o1: "ok s1" "slot s1 = (slot s)(i \<mapsto> h)" "cnt s1 = (cnt s)(i := Suc (cnt s i))"
    using opn_adds[OF assms(1) _ assms(4)] assms(2) by auto
  then have "cnt s1 j < max_users"
    using assms(2,3) by auto
  from opn_adds[OF o1(1) this assms(5)] show ?thesis
    using o1 by (cases "i = j") auto
qed

text \<open>
  Both users close again: the first close leaves the other user's handle in its slot, the
  second one brings every count and every slot back to what it was.
\<close>

lemma both_close:
  assumes "ok s" "cnt s i + 1 < max_users" "cnt s j + 1 < max_users" "opn i s = Some (h, s1)" "opn j s1 = Some (h', s2)"
  shows "\<exists>s3 s4. cls h s2 = Some s3 \<and> ok s3 \<and> slot s3 j = Some h' \<and> cnt s3 = (cnt s)(j := Suc (cnt s j)) \<and>
    cls h' s3 = Some s4 \<and> ok s4 \<and> cnt s4 = cnt s"
proof -
  note b = opened_by_both[OF assms]
  obtain s3 where s3: "cls h s2 = Some s3" "ok s3"
    "slot s3 = (if cnt s2 i = 1 then (slot s2)(i := None) else slot s2)" "cnt s3 = (cnt s2)(i := cnt s2 i - 1)"
    using cls_removes[of s2 i h] b by blast
  have c3: "slot s3 j = Some h'" "cnt s3 = (cnt s)(j := Suc (cnt s j))"
    using s3(3,4) b by (cases "i = j"; force simp: fun_upd_twist)+
  obtain s4 where "cls h' s3 = Some s4" "ok s4" "cnt s4 = (cnt s3)(j := cnt s3 j - 1)"
    using cls_removes[OF s3(2) c3(1)] by blast
  with s3(1,2) c3 show ?thesis
    by auto
qed

end

type_synonym 'k session = "'k sto_env \<times> int \<times> 'k sto_lib"

definition session_ok :: "'k session \<Rightarrow> bool" where
  "session_ok = (\<lambda>(e, fl, s). lib_ok s \<and> (\<forall>n. info_alloc_ok e n))"

definition session_slot :: "'k session \<Rightarrow> nat \<Rightarrow> nat option" where
  "session_slot = (\<lambda>(e, fl, s) i. if i < length (handle_list s) then handle_list s ! i else None)"

definition session_open :: "nat \<Rightarrow> 'k session \<Rightarrow> (nat \<times> 'k session) option" where
  "session_open i = (\<lambda>(e, fl, s).
     if i < length (handle_list s) then
       (case alislsto_mtd_open e True (int i) fl STO_ERASE_TYPE_BLOCK s of
          Some (r, Some h, s') \<Rightarrow> if r = STO_ERR_NONE then Some (h, e, fl, s') else None
        | _ \<Rightarrow> None)
     else None)"

definition session_close :: "nat \<Rightarrow> 'k session \<Rightarrow> 'k session option" where
  "session_close h = (\<lambda>(e, fl, s). map_option (\<lambda>(r, s'). (e, fl, s')) (alislsto_mtd_close (Some h) s))"

lemma session_open_iff:
  "session_open i (e, fl, s) = Some (h, s1) \<longleftrightarrow> (\<exists>s'. s1 = (e, fl, s') \<and> i < length (handle_list s) \<and>
     alislsto_mtd_open e True (int i) fl STO_ERASE_TYPE_BLOCK s = Some (STO_ERR_NONE, Some h, s'))"
  by (auto simp: session_open_def split: option.splits)

interpretation mh: shared_handles "2 ^ 32 - 1" session_ok session_slot "\<lambda>(e, fl, s). users s" session_open session_close
proof (unfold_locales, goal_cases)
  case (1 s i)
  obtain e fl t where s: "s = (e, fl, t)" by (cases s)
  show ?case
    using 1 lib_okD(1)[of t i] by (auto simp: s session_ok_def session_slot_def users_def dev_sound_def split: option.splits)
next
  case (2 s i h s')
  obtain e fl t where s: "s = (e, fl, t)" by (cases s)
  with 2 obtain t' where t: "s' = (e, fl, t')" "i < length (handle_list t)" "lib_ok t" "\<forall>n. info_alloc_ok e n"
    "alislsto_mtd_open e True (int i) fl STO_ERASE_TYPE_BLOCK t = Some (STO_ERR_NONE, Some h, t')"
    by (auto simp: session_open_iff session_ok_def)
  have "users t i + 1 < 2 ^ 32" using 2(2) by (simp add: s)
  from mtd_open_users[OF t(3,2,4) this t(5)] t show ?case
    by (auto simp: s session_ok_def session_slot_def fun_eq_iff nth_list_update)
next
  case (3 s i h)
  obtain e fl t where s: "s = (e, fl, t)" by (cases s)
  with 3 have t: "i < length (handle_list t)" "handle_list t ! i = Some h" "lib_ok t" "\<forall>n. info_alloc_ok e n"
    by (auto simp: session_slot_def session_ok_def split: if_splits)
  from mtd_close_users[OF t(3,1,2)] t show ?case
    by (auto simp: s session_close_def session_ok_def session_slot_def fun_eq_iff nth_list_update split: if_splits)
qed

subsection \<open>Properties\<close>

text \<open>
  (C34) The partition table survives the way through the text: for every table of partitions
  whose sizes and names fit, reading the text the kernel prints for it gives exactly the
  entries of the table in their order, a handle slot exists for each of them, and asking for
  the size of a name gives the size of the first partition of that name.
\<close>

theorem partinfo_roundtrip:
  assumes "proc_text e = Some (proc_mtd ps)" and "\<forall>n. list_ok e n" and "handles_ok e"
    and "\<forall>r\<in>set ps. mtd_row_ok r" and "ps \<noteq> []" and "length ps < 2 ^ 31" and "partinfo_list s = []"
  shows "\<exists>s'. alislsto_get_partinfo e s = Some (STO_ERR_NONE, s') \<and> length ps \<le> length (handle_list s') \<and>
    map (\<lambda>p. (part_index p, part_size p, part_name p)) (partinfo_list s') =
      map (\<lambda>(i, sz, er, name). (int i, int sz, name)) (enumerate 0 ps) \<and>
    (\<forall>k<length ps. (\<forall>j<k. snd (snd (ps ! j)) \<noteq> snd (snd (ps ! k))) \<longrightarrow>
       alislsto_get_partsize e (snd (snd (ps ! k))) s = Some (STO_ERR_NONE, int (fst (ps ! k)), s'))"
proof -
  have len: "length (part_entries 0 ps) = length ps" "part_entries 0 ps \<noteq> []"
    using assms(5) by (cases ps; simp add: part_entries_def)+
  define s' where "s' = s\<lparr>partinfo_list := part_entries 0 ps, handle_list := handle_list s @ replicate (length ps - length (handle_list s)) None\<rparr>"
  have s': "alislsto_get_partinfo e s = Some (STO_ERR_NONE, s')" "partinfo_list s' = part_entries 0 ps"
    "length ps \<le> length (handle_list s')"
    using read_proc_mtd[OF assms(2,4,6)] assms(1,3) len by (simp_all add: alislsto_get_partinfo_def s'_def Let_def)
  have entry: "part_entries 0 ps ! k = \<lparr>part_name = snd (snd (ps ! k)), part_index = int k, part_size = int (fst (ps ! k))\<rparr>"
    if "k < length ps" for k
    using that by (simp add: part_entries_def nth_enumerate_eq case_prod_beta)
  have size: "alislsto_get_partsize e (snd (snd (ps ! k))) s = Some (STO_ERR_NONE, int (fst (ps ! k)), s')"
    if k: "k < length ps" "\<forall>j<k. snd (snd (ps ! j)) \<noteq> snd (snd (ps ! k))" for k
  proof -
    let ?n = "snd (snd (ps ! k))"
    have "find_part ?n (part_entries 0 ps) = Some (k, part_entries 0 ps ! k)"
      unfolding find_part_def find_Some_iff using k entry len
      by (intro exI[of _ k]) (auto simp: nth_enumerate_eq)
    then show ?thesis
      using s' entry[OF k(1)] assms(7) by (simp add: alislsto_get_partsize_def ensure_partinfo_def)
  qed
  have "map (\<lambda>p. (part_index p, part_size p, part_name p)) (part_entries 0 ps) =
      map (\<lambda>(i, sz, er, name). (int i, int sz, name)) (enumerate 0 ps)"
    by (simp add: part_entries_def case_prod_beta)
  with s' size show ?thesis
    by (intro exI[of _ s']) simp
qed

text \<open>
  (C35) Handles are shared and counted: of two users of the library, the one that opens a
  partition second gets the handle of the first if it is the same partition. When the first
  closes its handle the other one's is still in its slot; when the second closes too, the
  number of users of every partition is what it was. A close that is the last of its
  partition empties the slot, frees the descriptor and closes the file; one that is not
  leaves slot, descriptor and files as they are. (The two counts have room for the new
  users: they are 32 bits wide.)
\<close>

theorem mtd_handles_counted:
  assumes "lib_ok s" and "\<forall>n. info_alloc_ok e n" and "i < length (handle_list s)" and "j < length (handle_list s)"
    and "users s i + 2 < 2 ^ 32" and "users s j + 2 < 2 ^ 32"
    and "alislsto_mtd_open e True (int i) fl STO_ERASE_TYPE_BLOCK s = Some (STO_ERR_NONE, Some h, s1)"
    and "alislsto_mtd_open e True (int j) fl STO_ERASE_TYPE_BLOCK s1 = Some (STO_ERR_NONE, Some h', s2)"
  shows "(i = j \<longrightarrow> h' = h) \<and>
    (\<exists>s3 s4. alislsto_mtd_close (Some h) s2 = Some (STO_ERR_NONE, s3) \<and> lib_ok s3 \<and>
       handle_list s3 ! j = Some h' \<and> users s3 = (users s)(j := Suc (users s j)) \<and>
       (if i \<noteq> j \<and> users s i = 0 then dev_released i h s2 s3 else dev_kept i h s2 s3) \<and>
       alislsto_mtd_close (Some h') s3 = Some (STO_ERR_NONE, s4) \<and> lib_ok s4 \<and> users s4 = users s \<and>
       (if users s j = 0 then dev_released j h' s3 s4 else dev_kept j h' s3 s4))"
proof -
  have ok: "session_ok (e, fl, s)" using assms(1,2) by (simp add: session_ok_def)
  have o1: "session_open i (e, fl, s) = Some (h, e, fl, s1)" using assms(3,7) by (simp add: session_open_iff)
  have "length (handle_list s1) = length (handle_list s)"
    using mtd_open_users[OF assms(1,3,2) _ assms(7)] assms(5) by simp
  then have o2: "session_open j (e, fl, s1) = Some (h', e, fl, s2)" using assms(4,8) by (simp add: session_open_iff)
  have room: "users s i + 1 < 2 ^ 32 - 1" "users s j + 1 < 2 ^ 32 - 1" using assms(5,6) by simp_all
  have both: "lib_ok s2" "i < length (handle_list s2)" "handle_list s2 ! i = Some h"
    "users s2 i = (if i = j then Suc (Suc (users s i)) else Suc (users s i))"
    using mh.opened_by_both[OF ok _ _ o1 o2] room
    by (auto simp: session_ok_def session_slot_def split: if_splits)
  obtain s3 s4 where s3: "alislsto_mtd_close (Some h) s2 = Some (STO_ERR_NONE, s3)" "lib_ok s3" "j < length (handle_list s3)"
      "handle_list s3 ! j = Some h'" "users s3 = (users s)(j := Suc (users s j))"
    and s4: "session_close h' (e, fl, s3) = Some (e, fl, s4)" "lib_ok s4" "users s4 = users s"
    using mh.both_close[OF ok _ _ o1 o2] room mtd_close_users[OF both(1-3)]
    by (auto simp: session_close_def session_ok_def session_slot_def split: if_splits)
  have "i = j \<longrightarrow> h' = h" using mh.second_open_shares[OF ok _ o1] o2 room(1) by auto
  moreover have "if i \<noteq> j \<and> users s i = 0 then dev_released i h s2 s3 else dev_kept i h s2 s3"
    using mtd_close_users[OF both(1-3)] both(4) s3(1) by (auto split: if_splits)
  moreover have "alislsto_mtd_close (Some h') s3 = Some (STO_ERR_NONE, s4)"
    "if users s j = 0 then dev_released j h' s3 s4 else dev_kept j h' s3 s4"
    using mtd_close_users[OF s3(2-4)] s3(5) s4(1) by (auto simp: session_close_def split: if_splits)
  ultimately show ?thesis
    using s3 s4 by blast
qed

text \<open>
  A failed open is hidden from the callers that open by name: when the device file of a known
  partition cannot be opened they are told of success and get no handle.
\<close>

lemma open_by_name_hides_failure:
  assumes "find_part name (partinfo_list s) = Some (i, p)" "partinfo_list s \<noteq> []" "i < length (handle_list s)"
    and "handle_list s ! i = None" "path_ok e" "dev_alloc_ok e" "priv_ok e" "kopen e i flags = STO_INVALID_HANDLE"
  shows "\<exists>s'. alislsto_mtd_open_by_name e True name flags s = Some (STO_ERR_NONE, None, s')"
  using assms find_part_entry[OF assms(1)]
  by (auto simp: alislsto_mtd_open_by_name_def ensure_partinfo_def alislsto_mtd_open_def mtd_open_new_def alislsto_construct_def Let_def)

text \<open>The number of handles itself passes the test of the index.\<close>

lemma mtd_open_index_past_end:
  "handle_list s \<noteq> [] \<Longrightarrow> alislsto_mtd_open e True (int (length (handle_list s))) flags et s = None"
  by (simp add: alislsto_mtd_open_def)

text \<open>A seek that fails ends the search for the index, which then counts as found.\<close>

lemma get_pmi_failed_seek_counts_as_found:
  assumes "dev_info dev = Valid info" "memgetbadblock drv k (info_erasesize info) = 0" "memgetbadblock drv k 0 = 0"
    and "klseek drv k 0 = (pos, k')" "pos < 0"
  shows "alislsto_get_pmi drv (Some dev) k (Some p) = Some (STO_ERR_NONE, Some (dev\<lparr>dev_pmi := True\<rparr>), k', Some p)"
  using assms by (simp add: alislsto_get_pmi_def to_uint32_def)

subsection \<open>Witnesses\<close>

definition demo_env :: "string option \<Rightarrow> flash sto_env" where
  "demo_env txt = \<lparr>proc_text = txt, proc_once = Open_Fails, env_drv = (\<lambda>m. sim_drv), kopen = (\<lambda>i fl. int i + 3), list_ok = (\<lambda>n. True),
     handles_ok = True, path_ok = True, dev_alloc_ok = True, priv_ok = True, parse_ok = True, info_alloc_ok = (\<lambda>n. True)\<rparr>"

definition demo_table :: "(nat \<times> nat \<times> string) list" where
  "demo_table = [(16, 4, ''boot''), (32, 4, ''kernel'')]"

definition demo_lib :: "partinfo list \<Rightarrow> nat option list \<Rightarrow> flash sto_lib" where
  "demo_lib ps hs = \<lparr>devs = (\<lambda>h. None), fresh = 0, nor_handle = None, nand_handle = None, handle_list = hs, partinfo_list = ps,
     fd_mtd = (\<lambda>n. None), mtd_state = (\<lambda>i. sim_flash)\<rparr>"

theorem partinfo_roundtrip_witness:
  "\<exists>s'. alislsto_get_partsize (demo_env (Some (proc_mtd demo_table))) ''kernel'' (demo_lib [] []) = Some (STO_ERR_NONE, 32, s')"
proof -
  have "\<forall>r\<in>set demo_table. mtd_row_ok r" by (simp add: demo_table_def mtd_row_ok_def)
  from partinfo_roundtrip[of "demo_env (Some (proc_mtd demo_table))" demo_table "demo_lib [] []", OF _ _ _ this]
  have "\<exists>s'. \<forall>k<length demo_table. (\<forall>j<k. snd (snd (demo_table ! j)) \<noteq> snd (snd (demo_table ! k))) \<longrightarrow>
       alislsto_get_partsize (demo_env (Some (proc_mtd demo_table))) (snd (snd (demo_table ! k))) (demo_lib [] []) =
       Some (STO_ERR_NONE, int (fst (demo_table ! k)), s')"
    by (auto simp: demo_env_def demo_lib_def demo_table_def)
  then obtain s' where "\<forall>k<length demo_table. (\<forall>j<k. snd (snd (demo_table ! j)) \<noteq> snd (snd (demo_table ! k))) \<longrightarrow>
       alislsto_get_partsize (demo_env (Some (proc_mtd demo_table))) (snd (snd (demo_table ! k))) (demo_lib [] []) =
       Some (STO_ERR_NONE, int (fst (demo_table ! k)), s')"
    by blast
  from this[rule_format, of 1] show ?thesis
    by (simp add: demo_table_def)
qed

lemma sim_fills: "\<exists>dev'. show_flash_info sim_drv (\<lambda>n. True) (Some (zero_dev\<lparr>dev_type := t, dev_erase_type := et, dev_name := n,
    dev_attr := a, dev_handle := fd, dev_open_cnt := c\<rparr>)) k = Some (STO_ERR_NONE, Some dev')"
  using show_flash_info_fills[of "\<lambda>n. True" sim_drv k demo_info "zero_dev\<lparr>dev_type := t, dev_erase_type := et, dev_name := n,
    dev_attr := a, dev_handle := fd, dev_open_cnt := c\<rparr>"] sim_start(2)
  by (auto simp: sim_drv_def zero_dev_def)

lemma demo_open:
  assumes "i < length (handle_list s)" "handle_list s ! i = None" "length (handle_list s) = length (partinfo_list s)"
  shows "\<exists>s'. alislsto_mtd_open (demo_env None) True (int i) 2 STO_ERASE_TYPE_BLOCK s = Some (STO_ERR_NONE, Some (fresh s), s') \<and>
    handle_list s' = (handle_list s)[i := Some (fresh s)] \<and> partinfo_list s' = partinfo_list s"
proof -
  have k: "klseek sim_drv f 0 = (0, f\<lparr>fl_pos := 0\<rparr>)" for f by (simp add: sim_drv_def)
  from assms show ?thesis
    using sim_fills[where t = "if part_name (partinfo_list s ! i) = ''sflash'' then STO_TYPE_NOR else STO_TYPE_NAND" and
      et = STO_ERASE_TYPE_BLOCK and n = "Some (''/dev/mtd'' @ dec_string i)" and a = None and fd = "int i + 3" and c = 1 and k = "mtd_state s i"]
    by (auto simp: alislsto_mtd_open_def mtd_open_new_def alislsto_construct_def dev_fill_def demo_env_def k Let_def STO_INVALID_HANDLE_def)
qed

definition demo_open_lib :: "flash sto_lib" where
  "demo_open_lib = demo_lib (part_entries 0 demo_table) [None, None]"

theorem mtd_handles_counted_witness:
  "\<exists>s1 s2 s3 s4. alislsto_mtd_open (demo_env None) True 0 2 STO_ERASE_TYPE_BLOCK demo_open_lib = Some (STO_ERR_NONE, Some 0, s1) \<and>
     alislsto_mtd_open (demo_env None) True 1 2 STO_ERASE_TYPE_BLOCK s1 = Some (STO_ERR_NONE, Some (fresh s1), s2) \<and>
     alislsto_mtd_close (Some 0) s2 = Some (STO_ERR_NONE, s3) \<and> users s3 1 = 1 \<and> dev_released 0 0 s2 s3 \<and>
     alislsto_mtd_close (Some (fresh s1)) s3 = Some (STO_ERR_NONE, s4) \<and> dev_released 1 (fresh s1) s3 s4"
proof -
  have ok: "lib_ok demo_open_lib" "users demo_open_lib 0 = 0" "users demo_open_lib 1 = 0" "length (handle_list demo_open_lib) = 2"
    "fresh demo_open_lib = 0" "handle_list demo_open_lib = [None, None]" "length (partinfo_list demo_open_lib) = 2"
    by (auto simp: demo_open_lib_def demo_lib_def users_def less_Suc_eq part_entries_def demo_table_def intro!: lib_okI)
  obtain s1 where s1: "alislsto_mtd_open (demo_env None) True (int 0) 2 STO_ERASE_TYPE_BLOCK demo_open_lib = Some (STO_ERR_NONE, Some 0, s1)"
    "handle_list s1 = [Some 0, None]" "length (partinfo_list s1) = 2"
    using demo_open[of 0 demo_open_lib] ok by auto
  obtain s2 where s2: "alislsto_mtd_open (demo_env None) True (int 1) 2 STO_ERASE_TYPE_BLOCK s1 = Some (STO_ERR_NONE, Some (fresh s1), s2)"
    using demo_open[of 1 s1] s1 by auto
  from mtd_handles_counted[OF ok(1) _ _ _ _ _ s1(1) s2] ok(2-4) s1(1) s2 show ?thesis
    by (auto simp: demo_env_def)
qed

end
