(* ===== verification/Package.thy ===== *)
theory Package
  imports Ota_Piece Storage_Ctl
begin

section \<open>The upgrade package\<close>

text \<open>
  The format of the upgrade package (\<open>alislupg_header_t\<close> of \<open>alislupgrade.h\<close>, shared with the
  packing tool) and the part of \<open>ALiUpgPackTool/src/aliupgpacktool.cpp\<close> that builds it: the
  images one behind the other after the header, and the check sums that are put into it, one
  for each piece of the download, before it becomes a carousel (theory \<open>PackTool\<close>). A struct in
  memory is its byte list, low bytes first, without padding.
\<close>

subsection \<open>The header\<close>

definition MAX_PART_NAME_LEN :: nat where "MAX_PART_NAME_LEN = 24"
definition MAX_PART :: nat where "MAX_PART = 64"

record imageinfo =
  image_name :: "u8 list"
  image_offset :: int
  image_size :: int

record upg_header =
  upg_ver :: int
  package_ver :: int
  part_cnt :: int
  ota_down_buf_size :: int
  reserves :: "int list"
  image_info :: "imageinfo list"

definition le32_bytes :: "int \<Rightarrow> u8 list" where
  "le32_bytes x = [of_int x, of_int (x div 256), of_int (x div 65536), of_int (x div 16777216)]"

definition imageinfo_bytes :: "imageinfo \<Rightarrow> u8 list" where
  "imageinfo_bytes im = image_name im @ le32_bytes (image_offset im) @ le32_bytes (image_size im)"

definition header_bytes :: "upg_header \<Rightarrow> u8 list" where
  "header_bytes h = le32_bytes (upg_ver h) @ le32_bytes (package_ver h) @ le32_bytes (part_cnt h) @
     le32_bytes (ota_down_buf_size h) @ concat (map le32_bytes (reserves h)) @ concat (map imageinfo_bytes (image_info h))"

definition HEADER_SIZE :: nat where "HEADER_SIZE = 28 + 32 * 64"

abbreviation int_at :: "u8 list \<Rightarrow> nat \<Rightarrow> int" where "int_at buf i \<equiv> to_int32 (le32 buf i)"

definition imageinfo_at :: "u8 list \<Rightarrow> nat \<Rightarrow> imageinfo" where
  "imageinfo_at buf i = \<lparr>image_name = take 24 (drop (28 + 32 * i) buf), image_offset = int_at buf (28 + 32 * i + 24),
     image_size = int_at buf (28 + 32 * i + 28)\<rparr>"

definition header_of_bytes :: "u8 list \<Rightarrow> upg_header" where
  "header_of_bytes buf = \<lparr>upg_ver = int_at buf 0, package_ver = int_at buf 4, part_cnt = int_at buf 8,
     ota_down_buf_size = int_at buf 12, reserves = [int_at buf 16, int_at buf 20, int_at buf 24],
     image_info = map (imageinfo_at buf) [0..<MAX_PART]\<rparr>"

subsection \<open>Building the package\<close>

record flash_part =
  partSelect :: bool
  partName :: string
  partSize :: int
  partFile :: "u8 list"

definition align :: "int \<Rightarrow> int \<Rightarrow> int" where
  "align size_align n = (if n mod size_align = 0 then n else n + (size_align - n mod size_align))"

text \<open>A file that cannot be opened counts as empty: its size and its aligned size are 0.\<close>

definition partFileAlignSize :: "int \<Rightarrow> flash_part \<Rightarrow> int" where
  "partFileAlignSize a p = align a (int (length (partFile p)))"

definition c_name :: "string \<Rightarrow> u8 list" where
  "c_name s = map of_char s @ replicate (MAX_PART_NAME_LEN - length s) 0"

text \<open>The entries of the selected partitions, in order, from the given offset on.\<close>

definition image_len :: "int \<Rightarrow> flash_part \<Rightarrow> int" where
  "image_len a p = (if partFileAlignSize a p \<noteq> 0 then partFileAlignSize a p else partSize p)"

fun image_entries :: "int \<Rightarrow> int \<Rightarrow> flash_part list \<Rightarrow> imageinfo list \<times> int" where
  "image_entries a off [] = ([], off)"
| "image_entries a off (p # ps) =
     (if partSelect p then
        let (es, off') = image_entries a (off + image_len a p) ps
        in (\<lparr>image_name = c_name (partName p), image_offset = off, image_size = image_len a p\<rparr> # es, off')
      else image_entries a off ps)"

text \<open>
  The data of a partition: the file (or, without one, a filler of the partition's size) is
  copied in portions, then padded to the aligned size.
\<close>

function copy_portions :: "nat \<Rightarrow> bool \<Rightarrow> nat \<Rightarrow> u8 list \<Rightarrow> u8 list" where
  "copy_portions n has_file remain f =
     (if remain = 0 \<or> n = 0 then []
      else if remain \<ge> n then
        (if has_file then take n f @ replicate (n - length f) 0 else replicate n 0xff) @ copy_portions n has_file (remain - n) (drop n f)
      else (if has_file then take remain f @ replicate (remain - length f) 0 else replicate remain 0xff))"
  by pat_completeness auto
termination
  by (relation "measure (\<lambda>(n, h, r, f). r)") auto

declare copy_portions.simps [simp del]

definition BYTES_READ_PERTIME :: nat where "BYTES_READ_PERTIME = 4 * 1024 * 1024"

definition image_data :: "int \<Rightarrow> flash_part \<Rightarrow> u8 list" where
  "image_data a p =
     (let fileSize = length (partFile p);
          remain = (if fileSize = 0 then nat (partSize p) else fileSize)
      in copy_portions BYTES_READ_PERTIME (fileSize \<noteq> 0) remain (partFile p) @
         replicate (nat (partFileAlignSize a p) - fileSize) 0xff)"

definition no_image :: imageinfo where
  "no_image = \<lparr>image_name = replicate 24 0, image_offset = 0, image_size = 0\<rparr>"

definition ALIGN_128KB :: int where "ALIGN_128KB = 128 * 1024"
definition ALIGN_64KB :: int where "ALIGN_64KB = 64 * 1024"

text \<open>
  The header with the selected NAND and NOR partitions, zero entries after them, and the
  package. More than 64 selected partitions would overrun the header.
\<close>

definition gen_header :: "int \<Rightarrow> int \<Rightarrow> int \<Rightarrow> int \<Rightarrow> flash_part list \<Rightarrow> flash_part list \<Rightarrow> upg_header option" where
  "gen_header mainver upgver bootver down nand nor =
     (let (es1, off1) = image_entries ALIGN_128KB (int HEADER_SIZE) nand;
          (es2, off2) = image_entries ALIGN_64KB off1 nor;
          es = es1 @ es2
      in if MAX_PART < length es \<or> (\<exists>e\<in>set es. length (image_name e) \<noteq> MAX_PART_NAME_LEN) then None
         else Some \<lparr>upg_ver = 40, package_ver = to_int32 (push_bit 16 bootver OR push_bit 8 upgver OR mainver),
           part_cnt = int (length es), ota_down_buf_size = down, reserves = [0, 0, 0],
           image_info = es @ replicate (MAX_PART - length es) no_image\<rparr>)"

definition gen_package :: "int \<Rightarrow> int \<Rightarrow> int \<Rightarrow> int \<Rightarrow> flash_part list \<Rightarrow> flash_part list \<Rightarrow> u8 list option" where
  "gen_package mainver upgver bootver down nand nor =
     map_option (\<lambda>h. header_bytes h @ concat (map (image_data ALIGN_128KB) (filter partSelect nand)) @
       concat (map (image_data ALIGN_64KB) (filter partSelect nor))) (gen_header mainver upgver bootver down nand nor)"

subsection \<open>Check sums for the pieces\<close>

definition crc_piece_size :: "int \<Rightarrow> nat" where
  "crc_piece_size down = nat (down * 0xFE200 - 4)"

function insert_crc :: "crc_globals \<Rightarrow> nat \<Rightarrow> u8 list \<Rightarrow> u8 list" where
  "insert_crc g P data =
     (if data = [] \<or> P = 0 then []
      else let (crc, g') = MG_Table_Driven_CRC g 0xffffffff (take P data)
           in take P data @ le32_bytes (uint crc) @ insert_crc g' P (drop P data))"
  by pat_completeness auto
termination
  by (relation "measure (\<lambda>(g, P, d). length d)") auto

declare insert_crc.simps [simp del]

subsection \<open>Reading the header back\<close>

lemma four_bytes: "x mod 256 + 256 * (x div 256 mod 256) + 65536 * (x div 65536 mod 256) + 16777216 * (x div 16777216 mod 256) =
    (x :: int) mod 4294967296"
proof -
  have d1: "x div 256 div 256 = x div 65536"
    using zdiv_zmult2_eq[of 256 x 256] by simp
  have d2: "x div 65536 div 256 = x div 16777216"
    using zdiv_zmult2_eq[of 256 x 65536] by simp
  have "x mod 4294967296 = 256 * (x div 256 mod 16777216) + x mod 256"
    using zmod_zmult2_eq[of 16777216 x 256] by simp
  moreover have "x div 256 mod 16777216 = 256 * (x div 65536 mod 65536) + x div 256 mod 256"
    using zmod_zmult2_eq[of 65536 "x div 256" 256] d1 by simp
  moreover have "x div 65536 mod 65536 = 256 * (x div 16777216 mod 256) + x div 65536 mod 256"
    using zmod_zmult2_eq[of 256 "x div 65536" 256] d2 by simp
  ultimately show ?thesis by linarith
qed

lemma le32_at: "le32 (pre @ le32_bytes x @ rest) (length pre) = to_uint32 x"
proof -
  have "le32 (pre @ le32_bytes x @ rest) (length pre) =
      x mod 256 + 256 * (x div 256 mod 256) + 65536 * (x div 65536 mod 256) + 16777216 * (x div 16777216 mod 256)"
    by (simp only: le32_def le32_bytes_def nth_append_length nth_append_length_plus append_Cons nth_Cons_0 uint_word_of_int)
      (simp add: nth_append uint_word_of_int)
  then show ?thesis
    unfolding four_bytes by (simp add: to_uint32_def take_bit_eq_mod)
qed

lemma le32_bytes_length [simp]: "length (le32_bytes x) = 4"
  by (simp add: le32_bytes_def)

lemma int_at_bytes:
  assumes "length pre = i" "- (2 ^ 31) \<le> x" "x < 2 ^ 31"
  shows "int_at (pre @ le32_bytes x @ rest) i = x"
proof -
  have "to_int32 (to_uint32 x) = to_int32 x"
    by (simp add: to_int32_def to_uint32_def signed_take_bit_take_bit)
  then show ?thesis
    using le32_at[of pre x rest] assms to_int32_id[of x] by simp
qed

definition image_ok :: "imageinfo \<Rightarrow> bool" where
  "image_ok im \<longleftrightarrow> length (image_name im) = 24 \<and> - (2 ^ 31) \<le> image_offset im \<and> image_offset im < 2 ^ 31 \<and>
     - (2 ^ 31) \<le> image_size im \<and> image_size im < 2 ^ 31"

definition header_ok :: "upg_header \<Rightarrow> bool" where
  "header_ok h \<longleftrightarrow> (\<forall>x\<in>{upg_ver h, package_ver h, part_cnt h, ota_down_buf_size h} \<union> set (reserves h). - (2 ^ 31) \<le> x \<and> x < 2 ^ 31) \<and>
     length (reserves h) = 3 \<and> length (image_info h) = MAX_PART \<and> (\<forall>im\<in>set (image_info h). image_ok im)"

lemma imageinfo_bytes_length: "image_ok im \<Longrightarrow> length (imageinfo_bytes im) = 32"
  by (simp add: image_ok_def imageinfo_bytes_def)

lemma concat_length: "\<forall>x\<in>set xs. length (f x) = n \<Longrightarrow> length (concat (map f xs)) = n * length xs"
  by (induction xs) auto

lemma concat_split:
  assumes "i < length xs"
  shows "concat (map f xs) = concat (map f (take i xs)) @ f (xs ! i) @ concat (map f (drop (Suc i) xs))"
  by (subst id_take_nth_drop[OF assms]) simp

lemma header_bytes_length: "header_ok h \<Longrightarrow> length (header_bytes h) = HEADER_SIZE"
  using concat_length[of "reserves h" le32_bytes 4] concat_length[of "image_info h" imageinfo_bytes 32] imageinfo_bytes_length
  by (simp add: header_ok_def header_bytes_def HEADER_SIZE_def MAX_PART_def)

lemma imageinfo_at_bytes:
  assumes "image_ok im" "length pre = 28 + 32 * i"
  shows "imageinfo_at (pre @ imageinfo_bytes im @ rest) i = im"
proof -
  have n: "length (image_name im) = 24" using assms(1) by (simp add: image_ok_def)
  have "int_at (pre @ imageinfo_bytes im @ rest) (28 + 32 * i + 24) = image_offset im"
    using int_at_bytes[of "pre @ image_name im" "28 + 32 * i + 24" "image_offset im" "le32_bytes (image_size im) @ rest"] assms n
    by (simp add: imageinfo_bytes_def image_ok_def)
  moreover have "int_at (pre @ imageinfo_bytes im @ rest) (28 + 32 * i + 28) = image_size im"
    using int_at_bytes[of "pre @ image_name im @ le32_bytes (image_offset im)" "28 + 32 * i + 28" "image_size im" rest] assms n
    by (simp add: imageinfo_bytes_def image_ok_def)
  moreover have "take 24 (drop (28 + 32 * i) (pre @ imageinfo_bytes im @ rest)) = image_name im"
    using assms(2) n by (simp add: imageinfo_bytes_def)
  ultimately show ?thesis
    by (simp add: imageinfo_at_def)
qed

lemma header_roundtrip:
  assumes "header_ok h"
  shows "header_of_bytes (header_bytes h @ rest) = h"
proof -
  obtain r1 r2 r3 where r: "reserves h = [r1, r2, r3]"
    using assms by (auto simp: header_ok_def length_Suc_conv numeral_3_eq_3)
  let ?ims = "concat (map imageinfo_bytes (image_info h)) @ rest"
  let ?b = "header_bytes h @ rest"
  have rng: "- (2 ^ 31) \<le> x \<and> x < 2 ^ 31" if "x \<in> {upg_ver h, package_ver h, part_cnt h, ota_down_buf_size h, r1, r2, r3}" for x
    using assms that by (auto simp: header_ok_def r)
  have b: "?b = le32_bytes (upg_ver h) @ le32_bytes (package_ver h) @ le32_bytes (part_cnt h) @ le32_bytes (ota_down_buf_size h) @
      le32_bytes r1 @ le32_bytes r2 @ le32_bytes r3 @ ?ims"
    by (simp add: header_bytes_def r)
  have "int_at ?b 0 = upg_ver h" "int_at ?b 4 = package_ver h" "int_at ?b 8 = part_cnt h" "int_at ?b 12 = ota_down_buf_size h"
    "int_at ?b 16 = r1" "int_at ?b 20 = r2" "int_at ?b 24 = r3"
    unfolding b
    using int_at_bytes[of "[]" 0 "upg_ver h"] int_at_bytes[of "le32_bytes (upg_ver h)" 4 "package_ver h"]
      int_at_bytes[of "le32_bytes (upg_ver h) @ le32_bytes (package_ver h)" 8 "part_cnt h"]
      int_at_bytes[of "le32_bytes (upg_ver h) @ le32_bytes (package_ver h) @ le32_bytes (part_cnt h)" 12 "ota_down_buf_size h"]
      int_at_bytes[of "le32_bytes (upg_ver h) @ le32_bytes (package_ver h) @ le32_bytes (part_cnt h) @ le32_bytes (ota_down_buf_size h)" 16 r1]
      int_at_bytes[of "le32_bytes (upg_ver h) @ le32_bytes (package_ver h) @ le32_bytes (part_cnt h) @ le32_bytes (ota_down_buf_size h) @ le32_bytes r1" 20 r2]
      int_at_bytes[of "le32_bytes (upg_ver h) @ le32_bytes (package_ver h) @ le32_bytes (part_cnt h) @ le32_bytes (ota_down_buf_size h) @ le32_bytes r1 @ le32_bytes r2" 24 r3]
      rng by simp_all
  moreover have "imageinfo_at ?b i = image_info h ! i" if i: "i < MAX_PART" for i
  proof -
    have ok: "\<forall>im\<in>set (image_info h). image_ok im" "length (image_info h) = MAX_PART" using assms by (auto simp: header_ok_def)
    let ?pre = "le32_bytes (upg_ver h) @ le32_bytes (package_ver h) @ le32_bytes (part_cnt h) @ le32_bytes (ota_down_buf_size h) @
      le32_bytes r1 @ le32_bytes r2 @ le32_bytes r3 @ concat (map imageinfo_bytes (take i (image_info h)))"
    have "length (concat (map imageinfo_bytes (take i (image_info h)))) = 32 * i"
      using concat_length[of "take i (image_info h)" imageinfo_bytes 32] ok i imageinfo_bytes_length by (auto dest: in_set_takeD)
    then have "length ?pre = 28 + 32 * i" by simp
    from imageinfo_at_bytes[OF _ this, of "image_info h ! i"] show ?thesis
      unfolding b using concat_split[of i "image_info h" imageinfo_bytes] ok i by simp
  qed
  then have "map (imageinfo_at ?b) [0..<MAX_PART] = image_info h"
    using assms by (intro nth_equalityI) (simp_all add: header_ok_def)
  ultimately show ?thesis
    by (simp add: header_of_bytes_def r)
qed

subsection \<open>The images\<close>

lemma copy_file: "0 < n \<Longrightarrow> r \<le> length f \<Longrightarrow> copy_portions n True r f = take r f"
proof (induction n True r f rule: copy_portions.induct)
  case (1 n r f)
  then show ?case
    by (subst copy_portions.simps) (auto simp flip: take_add)
qed

lemma copy_fill: "0 < n \<Longrightarrow> copy_portions n False r f = replicate r 0xff"
proof (induction n False r f rule: copy_portions.induct)
  case (1 n r f)
  then show ?case
    by (subst copy_portions.simps) (auto simp flip: replicate_add)
qed

lemma align_bounds:
  assumes "0 < a" "0 \<le> n"
  shows "n \<le> align a n \<and> (align a n = 0 \<longleftrightarrow> n = 0)"
proof (cases "n mod a = 0")
  case False
  then have "align a n = n + (a - n mod a)" "n mod a < a" using assms(1) by (simp_all add: align_def)
  then have "n < align a n" by linarith
  moreover have "n \<noteq> 0" using False by auto
  ultimately show ?thesis using assms by auto
qed (simp add: align_def)

lemma image_data_length:
  assumes "0 < a" "0 \<le> partSize p"
  shows "int (length (image_data a p)) = image_len a p"
  using align_bounds[OF assms(1), of "int (length (partFile p))"] assms(2)
  by (auto simp: image_data_def image_len_def partFileAlignSize_def Let_def copy_file copy_fill BYTES_READ_PERTIME_def align_def)

lemma image_data_file: "0 < a \<Longrightarrow> partFile p \<noteq> [] \<Longrightarrow> prefix (partFile p) (image_data a p)"
  by (simp add: image_data_def copy_file BYTES_READ_PERTIME_def)

text \<open>The total length of the images of a list of partitions.\<close>

definition images_len :: "int \<Rightarrow> flash_part list \<Rightarrow> int" where
  "images_len a ps = sum_list (map (image_len a) ps)"

lemma images_len_simps [simp]:
  "images_len a [] = 0" "images_len a (p # ps) = image_len a p + images_len a ps"
  "images_len a (ps @ qs) = images_len a ps + images_len a qs"
  by (simp_all add: images_len_def)

lemma image_entries_spec:
  "fst (image_entries a off ps) =
     map (\<lambda>i. \<lparr>image_name = c_name (partName (filter partSelect ps ! i)),
        image_offset = off + images_len a (take i (filter partSelect ps)),
        image_size = image_len a (filter partSelect ps ! i)\<rparr>) [0..<length (filter partSelect ps)] \<and>
   snd (image_entries a off ps) = off + images_len a (filter partSelect ps)"
proof (induction a off ps rule: image_entries.induct)
  case (2 a off p ps)
  have "[0..<Suc n] = 0 # map Suc [0..<n]" for n
    by (simp add: map_Suc_upt upt_conv_Cons)
  with 2 show ?case
    by (auto simp: case_prod_beta Let_def add.assoc simp del: upt_Suc)
qed simp

lemma concat_data_length:
  assumes "0 < a" "\<forall>p\<in>set ps. 0 \<le> partSize p"
  shows "int (length (concat (map (image_data a) ps))) = images_len a ps"
  using assms(2) by (induction ps) (auto simp: image_data_length[OF assms(1)])

subsection \<open>Pieces\<close>

function pieces :: "nat \<Rightarrow> 'a list \<Rightarrow> 'a list list" where
  "pieces n xs = (if xs = [] \<or> n = 0 then [] else take n xs # pieces n (drop n xs))"
  by pat_completeness auto
termination
  by (relation "measure (\<lambda>(n, xs). length xs)") auto

declare pieces.simps [simp del]

lemma pieces_concat: "0 < n \<Longrightarrow> concat (pieces n xs) = xs"
  by (induction n xs rule: pieces.induct) (subst pieces.simps, simp)

lemma insert_crc_pieces:
  assumes "crc_globals_ok g" "0 < P"
  shows "pieces (P + 4) (insert_crc g P data) = map (\<lambda>c. c @ le32_bytes (uint (MG_Compute_CRC 0xffffffff c))) (pieces P data)"
  using assms
proof (induction g P data rule: insert_crc.induct)
  case (1 g P data)
  note P = 1(3)
  show ?case
  proof (cases "data = []")
    case False
    obtain crc g' where cg: "MG_Table_Driven_CRC g 0xffffffff (take P data) = (crc, g')" by (cases "MG_Table_Driven_CRC g 0xffffffff (take P data)")
    have crc: "crc = MG_Compute_CRC 0xffffffff (take P data)" "crc_globals_ok g'"
      using table_driven_ok[OF 1(2)] table_driven_globals[OF 1(2)] cg by (metis fst_conv, metis snd_conv)
    let ?c = "take P data @ le32_bytes (uint crc)" and ?r = "insert_crc g' P (drop P data)"
    have ins: "insert_crc g P data = ?c @ ?r"
      using P by (subst insert_crc.simps) (simp add: False cg)
    have split: "take (P + 4) (?c @ ?r) = ?c" "drop (P + 4) (?c @ ?r) = ?r"
    proof -
      have "?r = [] \<or> length ?c = P + 4"
        by (cases "length data \<le> P") (simp_all add: insert_crc.simps)
      then show "take (P + 4) (?c @ ?r) = ?c" "drop (P + 4) (?c @ ?r) = ?r" by auto
    qed
    have IH: "pieces (P + 4) ?r = map (\<lambda>c. c @ le32_bytes (uint (MG_Compute_CRC 0xffffffff c))) (pieces P (drop P data))"
      using 1(1)[of "(crc, g')" crc g'] False P cg crc(2) by simp
    show ?thesis
      unfolding ins pieces.simps[of "P + 4" "?c @ ?r"] pieces.simps[of P data] split
      using IH False P crc(1) by simp
  qed (simp add: insert_crc.simps pieces.simps)
qed

lemma src_crc_bytes: "src_crc (le32_bytes (uint c)) = c"
proof (rule bit_word_eqI)
  fix n assume n: "n < LENGTH(32)"
  have d: "uint c div 256 = drop_bit 8 (uint c)" "uint c div 65536 = drop_bit 16 (uint c)" "uint c div 16777216 = drop_bit 24 (uint c)"
    by (simp_all add: drop_bit_eq_div)
  show "bit (src_crc (le32_bytes (uint c))) n = bit c n"
    unfolding src_crc_def le32_bytes_def d using n
    by (cases "n < 8"; cases "n < 16"; cases "n < 24") (auto simp: bit_simps)
qed

subsection \<open>Properties\<close>

text \<open>
  (C12) The check sums the packing tool inserts are those the receiver tests: cut into pieces
  of one check sum more than the tool's piece size, the prepared package consists of pieces
  that all pass the receiver's test, and without their check sums they are, one behind the
  other, the package.
\<close>

theorem inserted_crcs_verify:
  assumes "crc_globals_ok g" and "crc_globals_ok g'" and "0 < P"
  shows "(\<forall>c\<in>set (pieces (P + 4) (insert_crc g P data)). fst (piece_crc g' c)) \<and>
    concat (map (\<lambda>c. take (length c - 4) c) (pieces (P + 4) (insert_crc g P data))) = data"
proof -
  let ?f = "\<lambda>c. c @ le32_bytes (uint (MG_Compute_CRC 0xffffffff c))"
  have "fst (piece_crc g' (?f c))" for c
    using piece_crc_ok(2)[OF surjective_pairing assms(2), of "?f c"] by (simp add: src_crc_bytes)
  then have "\<forall>c\<in>set (map ?f (pieces P data)). fst (piece_crc g' c)" by simp
  moreover have "concat (map (\<lambda>c. take (length c - 4) c) (map ?f (pieces P data))) = data"
    using pieces_concat[OF assms(3), of data] by (simp add: o_def)
  ultimately show ?thesis
    unfolding insert_crc_pieces[OF assms(1,3)] by blast
qed

theorem inserted_crcs_verify_witness:
  "concat (map (\<lambda>c. take (length c - 4) c) (pieces (2 + 4) (insert_crc crc_globals_init 2 [1, 2, 3, 4, 5]))) = [1, 2, 3, 4, 5]"
  using inserted_crcs_verify[OF crc_globals_ok_init crc_globals_ok_init, of 2 "[1, 2, 3, 4, 5]"] by simp

end
