(* ===== verification/Upgrade.thy ===== *)
theory Upgrade
  imports Package
begin

section \<open>The upgrade library (\<open>alislupgrade.c\<close>, \<open>alislupgradeparser.c\<close>, \<open>object.c\<close>, \<open>tune.c\<close>)\<close>

text \<open>
  The life of an upgrade: the descriptor is constructed and opened for one of the sources, the
  package header is fetched through the plugin and parsed into the list of images, and the
  upgrade is started and stopped. The plugin is a record of handlers on a state of its own;
  the over-the-air plugin's configuration handler is modelled here as well. An outer \<open>None\<close>
  is undefined behaviour (a null handler, an access outside an array).
\<close>

datatype upg_err = ALISLUPG_ERR_NONE | ALISLUPG_ERR_NOSUPPORTOBJ | ALISLUPG_ERR_NOPLUGINREGISTER | ALISLUPG_ERR_PLUGINREGERR
  | ALISLUPG_ERR_PARSECFGERR | ALISLUPG_ERR_CANTGETCFG | ALISLUPG_ERR_TOOMANYPARTS | ALISLUPG_ERR_NOTENOUGHSPACE
  | ALISLUPG_ERR_MISMATCHPGSZ | ALISLUPG_ERR_VERIFYFAIL | ALISLUPG_ERR_INVALIDPARAM | ALISLUPG_ERR_FILEOPERATEFAIL
  | ALISLUPG_ERR_DOWNLOADFAIL | ALISLUPG_ERR_INVALIDPACKAGE | ALISLUPG_ERR_OTHER

text \<open>The numbers of the sources.\<close>

definition UPG_OTA :: nat where "UPG_OTA = 0"
definition UPG_USB :: nat where "UPG_USB = 1"
definition UPG_NET :: nat where "UPG_NET = 2"
definition UPG_DEFAULT_SCALE :: int where "UPG_DEFAULT_SCALE = 10"

record upg_elem =
  elem_name :: string
  img_size :: int
  img_offset :: int

text \<open>
  The handlers of a plugin. A handler gets the plugin's state and the error field of the
  descriptor; \<open>f_getcfg\<close> returns the length and the content of the buffer.
\<close>

record 'p upg_ops =
  f_getcfg :: "'p \<Rightarrow> nat \<Rightarrow> (int \<times> u8 list \<times> 'p) option"
  f_prestart :: "'p \<times> upg_err \<Rightarrow> 'p \<times> upg_err"
  f_prestop :: "'p \<times> upg_err \<Rightarrow> 'p \<times> upg_err"
  f_start :: "'p \<times> upg_err \<Rightarrow> 'p \<times> upg_err"
  f_stop :: "'p \<times> upg_err \<Rightarrow> 'p \<times> upg_err"
  f_setpktname :: "string \<Rightarrow> 'p \<Rightarrow> 'p"

record 'p upg_desc =
  sources :: nat
  src :: nat
  upg_method :: int
  object :: "'p upg_ops option option"
  plugin :: 'p
  percent :: int
  config :: string
  config_got :: bool
  elems :: "upg_elem list"
  upg_part_num :: nat
  package_header :: upg_header
  has_tune :: bool
  has_writter :: bool
  writersem :: nat
  sourcesem :: nat
  oversem :: nat
  progress_scale :: int
  upg_error :: upg_err

subsection \<open>Parsing the header\<close>

text \<open>A name fills 24 bytes; without a zero among them the string would run on.\<close>

definition c_string :: "u8 list \<Rightarrow> string option" where
  "c_string bs = (if 0 \<in> set bs then Some (map (\<lambda>b. char_of (unat b)) (takeWhile (\<lambda>b. b \<noteq> 0) bs)) else None)"

definition upgrade_parse_addelem :: "bool \<Rightarrow> upg_elem \<Rightarrow> upg_elem list \<Rightarrow> upg_elem list" where
  "upgrade_parse_addelem malloc_ok el els = (if malloc_ok then els @ [el] else els)"

definition upgrade_parse_destroyelem :: "'p upg_desc \<Rightarrow> 'p upg_desc" where
  "upgrade_parse_destroyelem d = d\<lparr>elems := []\<rparr>"

text \<open>
  The loop over the images: \<open>n\<close> images are left, \<open>i\<close> is the next one. An image that does not fit
  its partition ends it with an error; the elements added so far stay in the list.
\<close>

primrec parse_images :: "'k sto_env \<Rightarrow> (nat \<Rightarrow> bool) \<Rightarrow> imageinfo list \<Rightarrow> nat \<Rightarrow> nat \<Rightarrow> upg_elem list \<Rightarrow> 'k sto_lib
    \<Rightarrow> (upg_err \<times> upg_elem list \<times> 'k sto_lib) option" where
  "parse_images e al ims 0 i els s = Some (ALISLUPG_ERR_NONE, els, s)"
| "parse_images e al ims (Suc n) i els s =
     (if length ims \<le> i then None
      else do {
        name \<leftarrow> c_string (image_name (ims ! i));
        let el = \<lparr>elem_name = name, img_size = to_uint32 (image_size (ims ! i)), img_offset = image_offset (ims ! i)\<rparr>;
        (r, part_size, s) \<leftarrow> alislsto_get_partsize e name s;
        if img_size el > part_size then Some (ALISLUPG_ERR_NOTENOUGHSPACE, els, s)
        else parse_images e al ims n (Suc i) (upgrade_parse_addelem (al i) el els) s })"

definition upgrade_parse_header :: "'k sto_env \<Rightarrow> bool \<Rightarrow> (nat \<Rightarrow> bool) \<Rightarrow> u8 list \<Rightarrow> 'p upg_desc \<Rightarrow> 'k sto_lib
    \<Rightarrow> (upg_err \<times> 'p upg_desc \<times> 'k sto_lib) option" where
  "upgrade_parse_header e malloc_ok al buf d s =
     (if \<not> malloc_ok then Some (ALISLUPG_ERR_NOTENOUGHSPACE, d, s)
      else
        let header = header_of_bytes buf;
            d = d\<lparr>package_header := header, upg_part_num := nat (to_uint32 (part_cnt header))\<rparr>
        in if upg_ver header \<noteq> 40 then Some (ALISLUPG_ERR_INVALIDPACKAGE, d, s)
           else do {
             (err, els, s) \<leftarrow> parse_images e al (image_info header) (upg_part_num d) 0 (elems d) s;
             Some (err, d\<lparr>elems := els\<rparr>, s) })"

text \<open>
  Fetching and parsing. \<open>al\<close> answers the allocations: 0 the buffer, 1 the element used for
  parsing, \<open>2 + i\<close> the list element of image \<open>i\<close>. The length returned by the handler only
  counts as failed when it is not positive.
\<close>

definition upgrade_parse_config :: "'k sto_env \<Rightarrow> (nat \<Rightarrow> bool) \<Rightarrow> 'p upg_desc \<Rightarrow> 'k sto_lib
    \<Rightarrow> (upg_err \<times> 'p upg_desc \<times> 'k sto_lib) option" where
  "upgrade_parse_config e al d s =
     (case object d of
        None \<Rightarrow> Some (ALISLUPG_ERR_INVALIDPARAM, d, s)
      | Some None \<Rightarrow> Some (ALISLUPG_ERR_INVALIDPARAM, d, s)
      | Some (Some ops) \<Rightarrow>
          if \<not> al 0 then Some (ALISLUPG_ERR_NOTENOUGHSPACE, d, s)
          else do {
            (len, buf, p) \<leftarrow> f_getcfg ops (plugin d) HEADER_SIZE;
            let d = d\<lparr>plugin := p\<rparr>;
            if len \<le> 0 then Some (ALISLUPG_ERR_CANTGETCFG, d, s)
            else do {
              (err, d, s) \<leftarrow> upgrade_parse_header e (al 1) (\<lambda>i. al (2 + i)) buf d s;
              Some (err, d\<lparr>plugin := f_setpktname ops (config d) (plugin d)\<rparr>, s) } })"

definition upgrade_get_config :: "'k sto_env \<Rightarrow> (nat \<Rightarrow> bool) \<Rightarrow> 'p upg_desc option \<Rightarrow> 'k sto_lib
    \<Rightarrow> (upg_err \<times> 'p upg_desc option \<times> 'k sto_lib) option" where
  "upgrade_get_config e al desc s =
     (case desc of
        None \<Rightarrow> Some (ALISLUPG_ERR_OTHER, None, s)
      | Some d \<Rightarrow> do { (err, d, s) \<leftarrow> upgrade_parse_config e al d s; Some (err, Some d, s) })"

subsection \<open>The configuration of the over-the-air plugin (\<open>aliota.c\<close>)\<close>

text \<open>
  The start of the first piece is downloaded into a buffer at \<open>addr\<close> and copied out. A failure
  is returned as the number of \<open>ALISLUPG_ERR_OTHER\<close>, which is positive. The memory that is
  allocated is \<open>0x100000\<close> bytes, a multiple of 128 KB.
\<close>

definition ERR_OTHER_CODE :: int where "ERR_OTHER_CODE = 14"

definition ota_file_get_config :: "dmx_env \<Rightarrow> dmx_env \<Rightarrow> dmx_env \<Rightarrow> nat \<Rightarrow> bool \<Rightarrow> nat \<Rightarrow> string \<Rightarrow> ota \<Rightarrow> nat
    \<Rightarrow> (int \<times> u8 list \<times> ota) option" where
  "ota_file_get_config dmx1 dmx2 dmx3 junk malloc_ok addr cfg d len =
     (if cfg = [] then Some (0, replicate len 0, d)
      else do {
        let pid = nat (atoi cfg);
        (ret, info, d) \<leftarrow> ota_cmd_get_download_info dmx1 dmx2 junk pid d;
        if ret \<noteq> OTA_SUCCESS then Some (ERR_OTHER_CODE, replicate len 0, d)
        else if \<not> malloc_ok then Some (ERR_OTHER_CODE, replicate len 0, d)
        else do {
          let mapmem_len = DATA_ALIGN 0x100000 0x20000;
          let d = d\<lparr>ram := memcpy_at addr (replicate mapmem_len 0xff) (ram d)\<rparr>;
          (ret, pn, r, d) \<leftarrow> alislupg_ota_mem_config_by_piece (int addr) mapmem_len
             \<lparr>mr_start = 0, mr_end = 0, mr_len = 0, mr_total = 0, pice_index = 0, valid_size = 0\<rparr> d;
          let r = r\<lparr>mr_start := 0, mr_end := nat ((int (mr_len r) - 1) mod 65536)\<rparr>;
          (ret, r, d) \<leftarrow> ota_cmd_start_download_by_piece dmx3 junk pid r d;
          if ret \<noteq> OTA_SUCCESS then Some (ERR_OTHER_CODE, replicate len 0, d)
          else if length (ram d) < addr + len then None
          else Some (int len, take len (drop addr (ram d)), d) } })"

text \<open>
  The length of the stream without the check sums of the pieces. The modules are placed in a
  second buffer at \<open>addr\<close>, which is freed at the end.
\<close>

definition ota_file_get_size :: "bool \<Rightarrow> nat \<Rightarrow> nat \<Rightarrow> int \<Rightarrow> ota \<Rightarrow> (int \<times> ota) option" where
  "ota_file_get_size malloc_ok piece_size addr sw_size d =
     (if \<not> malloc_ok then Some (ERR_OTHER_CODE, d)
      else do {
        let len = DATA_ALIGN piece_size 0x20000;
        (ret, pn, r, d) \<leftarrow> alislupg_ota_mem_config_by_piece (int addr) len
           \<lparr>mr_start = 0, mr_end = 0, mr_len = 0, mr_total = 0, pice_index = 0, valid_size = 0\<rparr> d;
        Some (to_int32 (sw_size - 4 * int (case pn of None \<Rightarrow> 0 | Some n \<Rightarrow> n)), d) })"

subsection \<open>The descriptor\<close>

text \<open>A zeroed descriptor; \<open>p\<close> is the plugin state before a plugin is registered.\<close>

definition zero_desc :: "'p \<Rightarrow> 'p upg_desc" where
  "zero_desc p = \<lparr>sources = 0, src = 0, upg_method = 0, object = None, plugin = p, percent = 0, config = [], config_got = False,
     elems = [], upg_part_num = 0, package_header = header_of_bytes (replicate HEADER_SIZE 0), has_tune = False, has_writter = False,
     writersem = 0, sourcesem = 0, oversem = 0, progress_scale = 0, upg_error = ALISLUPG_ERR_NONE\<rparr>"

definition upgrade_object_detect :: "(nat \<Rightarrow> bool) \<Rightarrow> nat \<Rightarrow> 'p upg_desc \<Rightarrow> upg_err \<times> 'p upg_desc" where
  "upgrade_object_detect dlopen_ok source d =
     (if and (src d) source \<noteq> 0 \<and> object d \<noteq> None then (ALISLUPG_ERR_NONE, d)
      else if \<not> dlopen_ok source then (ALISLUPG_ERR_NOSUPPORTOBJ, d\<lparr>sources := unset_bit source (sources d)\<rparr>)
      else (ALISLUPG_ERR_NONE, d\<lparr>sources := set_bit source (sources d)\<rparr>))"

text \<open>\<open>al\<close> answers the allocations of the descriptor, the object, the tune and the writer, in this order.\<close>

definition alislupg_construct :: "(nat \<Rightarrow> bool) \<Rightarrow> (nat \<Rightarrow> bool) \<Rightarrow> 'p \<Rightarrow> upg_err \<times> 'p upg_desc option" where
  "alislupg_construct al dlopen_ok p =
     (if \<not> al 0 \<or> \<not> al 1 then (ALISLUPG_ERR_OTHER, None)
      else
        let d = (zero_desc p)\<lparr>object := Some None\<rparr>;
            d = snd (upgrade_object_detect dlopen_ok UPG_OTA d);
            d = snd (upgrade_object_detect dlopen_ok UPG_USB d);
            d = snd (upgrade_object_detect dlopen_ok UPG_NET d)
        in if and (sources d) 7 = 0 then (ALISLUPG_ERR_NOSUPPORTOBJ, None)
           else if \<not> al 2 \<or> \<not> al 3 then (ALISLUPG_ERR_OTHER, None)
           else (ALISLUPG_ERR_NONE, Some (d\<lparr>has_tune := True, has_writter := True\<rparr>)))"

text \<open>
  The plugin of the selected source is loaded and registers its handlers and its state; \<open>lib\<close>
  is what the loader finds (\<open>None\<close>: no file, \<open>Some None\<close>: no register function).
\<close>

definition upgrade_object_init :: "('p upg_ops \<times> 'p) option option \<Rightarrow> 'p upg_desc \<Rightarrow> upg_err \<times> 'p upg_desc" where
  "upgrade_object_init lib d =
     (if \<not> bit (sources d) (src d) then (ALISLUPG_ERR_NOSUPPORTOBJ, d)
      else case lib of
        Some (Some (ops, p)) \<Rightarrow> (ALISLUPG_ERR_NONE, d\<lparr>object := Some (Some ops), plugin := p, percent := 0\<rparr>)
      | _ \<Rightarrow> (ALISLUPG_ERR_PLUGINREGERR, d))"

definition alislupg_open :: "('p upg_ops \<times> 'p) option option \<Rightarrow> (nat \<times> int \<times> string \<times> int) option \<Rightarrow> 'p upg_desc option
    \<Rightarrow> upg_err \<times> 'p upg_desc option" where
  "alislupg_open lib param desc =
     (case (desc, param) of
        (Some d, Some (source, method, cfg, scale)) \<Rightarrow>
          let d = d\<lparr>src := source\<rparr>
          in if \<not> bit (sources d) source then (ALISLUPG_ERR_NOSUPPORTOBJ, Some d)
             else
               let d = d\<lparr>upg_method := method, config := cfg, progress_scale := (if scale = 0 then UPG_DEFAULT_SCALE else scale)\<rparr>;
                   (err, d) = upgrade_object_init lib d
               in (err, Some d)
      | _ \<Rightarrow> (ALISLUPG_ERR_INVALIDPARAM, desc))"

text \<open>Calling a handler of the object; a missing handler is undefined.\<close>

definition run_handler :: "('p upg_ops \<Rightarrow> 'p \<times> upg_err \<Rightarrow> 'p \<times> upg_err) \<Rightarrow> 'p upg_desc \<Rightarrow> 'p upg_desc option" where
  "run_handler f d =
     (case object d of
        Some (Some ops) \<Rightarrow> let (p, er) = f ops (plugin d, upg_error d) in Some (d\<lparr>plugin := p, upg_error := er\<rparr>)
      | _ \<Rightarrow> None)"

definition alislupg_prestart :: "'p upg_desc option \<Rightarrow> (upg_err \<times> 'p upg_desc option) option" where
  "alislupg_prestart desc =
     (case desc of
        None \<Rightarrow> Some (ALISLUPG_ERR_INVALIDPARAM, None)
      | Some d \<Rightarrow> if object d = None then Some (ALISLUPG_ERR_INVALIDPARAM, desc)
                  else do { d \<leftarrow> run_handler f_prestart d; Some (ALISLUPG_ERR_NONE, Some d) })"

definition upgrade_tune_init :: "'p upg_desc \<Rightarrow> 'p upg_desc" where
  "upgrade_tune_init d = d\<lparr>writersem := 1, sourcesem := 0\<rparr>"

text \<open>
  The header is fetched once: \<open>config_got\<close> remembers that it was. Starting the tune starts the
  writer thread (theory \<open>Upgrade_Writer\<close>) and the plugin's source thread.
\<close>

definition ensure_config :: "'k sto_env \<Rightarrow> (nat \<Rightarrow> bool) \<Rightarrow> 'p upg_desc \<Rightarrow> 'k sto_lib \<Rightarrow> (upg_err \<times> 'p upg_desc \<times> 'k sto_lib) option" where
  "ensure_config e al d s =
     (if config_got d then Some (ALISLUPG_ERR_NONE, d, s)
      else do {
        (err, d, s) \<leftarrow> upgrade_parse_config e al d s;
        Some (err, if err = ALISLUPG_ERR_NONE then d\<lparr>config_got := True\<rparr> else d, s) })"

definition alislupg_start :: "'k sto_env \<Rightarrow> (nat \<Rightarrow> bool) \<Rightarrow> 'p upg_desc option \<Rightarrow> 'k sto_lib
    \<Rightarrow> (upg_err \<times> 'p upg_desc option \<times> 'k sto_lib) option" where
  "alislupg_start e al desc s =
     (case desc of
        None \<Rightarrow> Some (ALISLUPG_ERR_INVALIDPARAM, None, s)
      | Some d \<Rightarrow> do {
          (err, d, s) \<leftarrow> ensure_config e al d s;
          if err \<noteq> ALISLUPG_ERR_NONE then Some (err, Some d, s)
          else do {
            d \<leftarrow> run_handler f_start (upgrade_tune_init d);
            Some (ALISLUPG_ERR_NONE, Some d, s) } })"

text \<open>Waiting for the status: without an error the progress is reported as well.\<close>

definition alislupg_wait_status :: "'p upg_desc option \<Rightarrow> int \<Rightarrow> upg_err \<times> int \<times> upg_err option" where
  "alislupg_wait_status desc p_percent =
     (case desc of
        None \<Rightarrow> (ALISLUPG_ERR_OTHER, p_percent, None)
      | Some d \<Rightarrow> if upg_error d \<noteq> ALISLUPG_ERR_NONE then (upg_error d, p_percent, Some (upg_error d))
                  else (upg_error d, percent d, Some (upg_error d)))"

definition alislupg_prestop :: "'p upg_desc option \<Rightarrow> (upg_err \<times> 'p upg_desc option) option" where
  "alislupg_prestop desc =
     (case desc of
        None \<Rightarrow> Some (ALISLUPG_ERR_OTHER, None)
      | Some d \<Rightarrow> do { d \<leftarrow> run_handler f_prestop d; Some (ALISLUPG_ERR_NONE, Some d) })"

definition upgrade_tune_end :: "'p upg_desc \<Rightarrow> 'p upg_desc option" where
  "upgrade_tune_end d = run_handler f_stop d"

definition alislupg_abort :: "'p upg_desc option \<Rightarrow> (upg_err \<times> 'p upg_desc option) option" where
  "alislupg_abort desc =
     (case desc of
        None \<Rightarrow> Some (ALISLUPG_ERR_OTHER, None)
      | Some d \<Rightarrow> do {
          d \<leftarrow> run_handler f_prestop d;
          d \<leftarrow> (if has_tune d then do { d \<leftarrow> upgrade_tune_end d; Some (upgrade_parse_destroyelem d) } else Some d);
          Some (ALISLUPG_ERR_NONE, Some d) })"

text \<open>Stopping waits for the end of the writer; \<open>None\<close> is also a wait that does not end.\<close>

definition alislupg_stop :: "'p upg_desc option \<Rightarrow> (upg_err \<times> 'p upg_desc option) option" where
  "alislupg_stop desc =
     (case desc of
        None \<Rightarrow> Some (ALISLUPG_ERR_OTHER, None)
      | Some d \<Rightarrow>
          if oversem d = 0 then None
          else do {
            d \<leftarrow> upgrade_tune_end (d\<lparr>oversem := oversem d - 1\<rparr>);
            Some (ALISLUPG_ERR_NONE, Some (upgrade_parse_destroyelem d)) })"

definition upgrade_object_deinit :: "'p upg_desc \<Rightarrow> 'p upg_desc option" where
  "upgrade_object_deinit d = (case object d of Some (Some ops) \<Rightarrow> Some (d\<lparr>object := Some (Some ops)\<rparr>) | _ \<Rightarrow> None)"

definition alislupg_destruct :: "'p upg_desc option \<Rightarrow> upg_err \<times> 'p upg_desc option" where
  "alislupg_destruct desc = (case desc of None \<Rightarrow> (ALISLUPG_ERR_OTHER, None) | Some d \<Rightarrow> (ALISLUPG_ERR_NONE, None))"

subsection \<open>The partitions of the package\<close>

text \<open>The names of the first \<open>n\<close> elements; following the list past its end is undefined.\<close>

primrec elem_names :: "nat \<Rightarrow> upg_elem list \<Rightarrow> string list option" where
  "elem_names 0 els = Some []"
| "elem_names (Suc n) els = (case els of [] \<Rightarrow> None | el # els' \<Rightarrow> map_option ((#) (elem_name el)) (elem_names n els'))"

definition alislupg_get_upgrade_parts :: "'k sto_env \<Rightarrow> (nat \<Rightarrow> bool) \<Rightarrow> 'p upg_desc option \<Rightarrow> 'k sto_lib
    \<Rightarrow> (upg_err \<times> (string list \<times> nat) option \<times> 'p upg_desc option \<times> 'k sto_lib) option" where
  "alislupg_get_upgrade_parts e al desc s =
     (case desc of
        None \<Rightarrow> Some (ALISLUPG_ERR_INVALIDPARAM, None, None, s)
      | Some d \<Rightarrow> do {
          (err, d, s) \<leftarrow> ensure_config e al d s;
          if err \<noteq> ALISLUPG_ERR_NONE then Some (err, None, Some d, s)
          else do {
            names \<leftarrow> elem_names (upg_part_num d) (elems d);
            Some (ALISLUPG_ERR_NONE, Some (names, upg_part_num d mod 256), Some d, s) } })"

primrec rename_elems :: "string list \<Rightarrow> upg_elem list \<Rightarrow> upg_elem list option" where
  "rename_elems [] els = Some els"
| "rename_elems (n # ns) els =
     (case els of
        [] \<Rightarrow> None
      | el # els' \<Rightarrow> if MAX_PART_NAME_LEN \<le> length n then None
                    else map_option ((#) (el\<lparr>elem_name := n\<rparr>)) (rename_elems ns els'))"

definition alislupg_set_upgrade_parts :: "string list option \<Rightarrow> 'p upg_desc option \<Rightarrow> (upg_err \<times> 'p upg_desc option) option" where
  "alislupg_set_upgrade_parts names desc =
     (case (desc, names) of
        (Some d, Some ns) \<Rightarrow> do { els \<leftarrow> rename_elems ns (elems d); Some (ALISLUPG_ERR_NONE, Some (d\<lparr>elems := els\<rparr>)) }
      | _ \<Rightarrow> Some (ALISLUPG_ERR_INVALIDPARAM, desc))"

definition alislupg_get_upgrade_info :: "'k sto_env \<Rightarrow> (nat \<Rightarrow> bool) \<Rightarrow> 'p upg_desc option \<Rightarrow> 'k sto_lib
    \<Rightarrow> (upg_err \<times> upg_header option \<times> 'p upg_desc option \<times> 'k sto_lib) option" where
  "alislupg_get_upgrade_info e al desc s =
     (case desc of
        None \<Rightarrow> Some (ALISLUPG_ERR_INVALIDPARAM, None, None, s)
      | Some d \<Rightarrow> do {
          (err, d, s) \<leftarrow> ensure_config e al d s;
          if err \<noteq> ALISLUPG_ERR_NONE then Some (err, None, Some d, s)
          else Some (ALISLUPG_ERR_NONE, Some (package_header d), Some d, s) })"

subsection \<open>What parsing gives\<close>

text \<open>The element of an image and whether its partition holds it.\<close>

definition elem_of :: "imageinfo \<Rightarrow> string \<Rightarrow> upg_elem" where
  "elem_of im name = \<lparr>elem_name = name, img_size = to_uint32 (image_size im), img_offset = image_offset im\<rparr>"

definition part_holds :: "partinfo list \<Rightarrow> string \<Rightarrow> int \<Rightarrow> bool" where
  "part_holds ps name sz \<longleftrightarrow> sz \<le> (case find_part name ps of Some (i, p) \<Rightarrow> part_size p | None \<Rightarrow> 0)"

lemma get_partsize_known:
  "partinfo_list s \<noteq> [] \<Longrightarrow> alislsto_get_partsize e name s =
    Some (case find_part name (partinfo_list s) of Some (i, p) \<Rightarrow> (STO_ERR_NONE, part_size p, s) | None \<Rightarrow> (STO_ERR_DRIVER, 0, s))"
  by (simp add: alislsto_get_partsize_def ensure_partinfo_def split: option.splits)

lemma parse_images_step:
  assumes "partinfo_list s \<noteq> []" "i < length ims" "c_string (image_name (ims ! i)) = Some name"
  shows "parse_images e al ims (Suc n) i els s =
    (if part_holds (partinfo_list s) name (to_uint32 (image_size (ims ! i)))
     then parse_images e al ims n (Suc i) (upgrade_parse_addelem (al i) (elem_of (ims ! i) name) els) s
     else Some (ALISLUPG_ERR_NOTENOUGHSPACE, els, s))"
  using assms by (simp add: get_partsize_known part_holds_def elem_of_def Let_def not_less[symmetric] split: option.splits)

text \<open>All images that come before the first one that does not fit are added.\<close>

lemma parse_images_prefix:
  assumes "partinfo_list s \<noteq> []" "\<forall>j. al j" "i + k \<le> length ims" "k \<le> n"
    and "\<forall>j<k. c_string (image_name (ims ! (i + j))) = Some (names ! j) \<and>
      part_holds (partinfo_list s) (names ! j) (to_uint32 (image_size (ims ! (i + j))))"
  shows "parse_images e al ims n i els s =
    parse_images e al ims (n - k) (i + k) (els @ map (\<lambda>j. elem_of (ims ! (i + j)) (names ! j)) [0..<k]) s"
  using assms(3-5)
proof (induction k)
  case (Suc k)
  then have "parse_images e al ims (n - k) (i + k) els' s =
      parse_images e al ims (n - Suc k) (i + Suc k) (els' @ [elem_of (ims ! (i + k)) (names ! k)]) s" for els'
    using parse_images_step[OF assms(1), of "i + k" ims "names ! k" e al "n - Suc k" els'] assms(2)
    by (simp add: upgrade_parse_addelem_def Suc_diff_Suc)
  with Suc show ?case by simp
qed simp

text \<open>
  An image that does not fit its partition is reported, but the elements of the images before
  it stay in the list of the descriptor, where the next attempt appends to them.
\<close>

lemma failed_parse_keeps_elements:
  assumes "partinfo_list s \<noteq> []" "\<forall>j. al j" "k < n" "k < length ims"
    and "\<forall>j\<le>k. c_string (image_name (ims ! j)) = Some (names ! j)"
    and "\<forall>j<k. part_holds (partinfo_list s) (names ! j) (to_uint32 (image_size (ims ! j)))"
    and "\<not> part_holds (partinfo_list s) (names ! k) (to_uint32 (image_size (ims ! k)))"
  shows "parse_images e al ims n 0 els s =
    Some (ALISLUPG_ERR_NOTENOUGHSPACE, els @ map (\<lambda>j. elem_of (ims ! j) (names ! j)) [0..<k], s)"
proof -
  obtain m where m: "n - k = Suc m" using assms(3) by (metis Suc_diff_Suc)
  have "parse_images e al ims n 0 els s = parse_images e al ims (n - k) k (els @ map (\<lambda>j. elem_of (ims ! j) (names ! j)) [0..<k]) s"
    using parse_images_prefix[OF assms(1,2), of 0 k ims n names e els] assms(3-6) by simp
  then show ?thesis
    using parse_images_step[OF assms(1,4), of "names ! k"] assms(5,7) by (simp add: m)
qed

text \<open>
  After a stopped upgrade the list of images is empty but the header still counts as fetched:
  starting again does not parse anything.
\<close>

lemma restart_has_no_images:
  assumes "object d = Some (Some ops)" "config_got d" "elems d = []"
  shows "\<exists>d'. alislupg_start e al (Some d) s = Some (ALISLUPG_ERR_NONE, Some d', s) \<and> elems d' = []"
  using assms by (simp add: alislupg_start_def ensure_config_def run_handler_def upgrade_tune_init_def split: prod.splits)

lemma stop_keeps_config_got:
  assumes "alislupg_stop (Some d) = Some (r, Some d')"
  shows "elems d' = [] \<and> config_got d' = config_got d"
  using assms by (auto simp: alislupg_stop_def upgrade_tune_end_def run_handler_def upgrade_parse_destroyelem_def
      split: if_splits option.splits prod.splits bind_splits)

text \<open>
  A download that fails while the header is fetched is returned as a positive length: the
  empty buffer is parsed and reported as an invalid package.
\<close>

lemma failed_download_is_invalid_package:
  assumes "object d = Some (Some ops)" "f_getcfg ops (plugin d) HEADER_SIZE = Some (ERR_OTHER_CODE, replicate HEADER_SIZE 0, p)"
    and "al 0" "al 1"
  shows "\<exists>d'. upgrade_parse_config e al d s = Some (ALISLUPG_ERR_INVALIDPACKAGE, d', s)"
proof -
  have "le32 (replicate HEADER_SIZE 0) 0 = 0" by (simp add: le32_def HEADER_SIZE_def)
  then have "upg_ver (header_of_bytes (replicate HEADER_SIZE 0)) = 0"
    by (simp add: header_of_bytes_def to_int32_def)
  then show ?thesis
    using assms by (simp add: upgrade_parse_config_def upgrade_parse_header_def ERR_OTHER_CODE_def Let_def)
qed

subsection \<open>From the packing tool to the list of images\<close>

lemma unat_of_char: "unat (of_char c :: 8 word) = of_char c"
proof -
  have "unat (of_nat (of_char c) :: 8 word) = of_char c"
    using nat_of_char_less_256[of c] by (simp only: unat_of_nat) (simp add: take_bit_nat_eq_self)
  then show ?thesis by (simp only: of_nat_of_char)
qed

lemma of_char_0: "(of_char c :: nat) = 0 \<Longrightarrow> c = CHR 0x00"
  using char_of_char[of c, where 'a = nat] by (simp add: char_of_def)

lemma c_string_name:
  assumes "length n < MAX_PART_NAME_LEN" "CHR 0x00 \<notin> set n"
  shows "c_string (c_name n) = Some n"
proof -
  have z: "(of_char c :: u8) \<noteq> 0" if "c \<in> set n" for c
  proof
    assume "(of_char c :: u8) = 0"
    then have "unat (of_char c :: u8) = 0" by simp
    then have "(of_char c :: nat) = 0" by (simp add: unat_of_char)
    then have "c = CHR 0x00" by (rule of_char_0)
    with that assms(2) show False by simp
  qed
  have u: "char_of (unat (of_char c :: u8)) = c" for c
    by (simp add: unat_of_char)
  have "takeWhile (\<lambda>b. b \<noteq> 0) (c_name n) = map of_char n"
    using z assms(1) by (auto simp: c_name_def takeWhile_append)
  moreover have "0 \<in> set (c_name n)" using assms(1) by (simp add: c_name_def)
  ultimately show ?thesis by (simp add: c_string_def u o_def)
qed

text \<open>The selected partitions with the alignment of their flash type, and their images.\<close>

definition selected :: "flash_part list \<Rightarrow> flash_part list \<Rightarrow> (int \<times> flash_part) list" where
  "selected nand nor = map (Pair ALIGN_128KB) (filter partSelect nand) @ map (Pair ALIGN_64KB) (filter partSelect nor)"

definition sel_len :: "(int \<times> flash_part) list \<Rightarrow> int" where
  "sel_len sels = sum_list (map (\<lambda>(a, p). image_len a p) sels)"

lemma sel_len_simps [simp]:
  "sel_len [] = 0" "sel_len (x # xs) = image_len (fst x) (snd x) + sel_len xs" "sel_len (xs @ ys) = sel_len xs + sel_len ys"
  "sel_len (map (Pair a) ps) = images_len a ps"
  by (simp_all add: sel_len_def images_len_def o_def case_prod_beta)

definition sel_ok :: "int \<times> flash_part \<Rightarrow> bool" where
  "sel_ok = (\<lambda>(a, p). 0 < a \<and> 0 \<le> partSize p \<and> length (partName p) < MAX_PART_NAME_LEN \<and> CHR 0x00 \<notin> set (partName p))"

definition sel_image :: "(int \<times> flash_part) list \<Rightarrow> nat \<Rightarrow> imageinfo" where
  "sel_image sels i = \<lparr>image_name = c_name (partName (snd (sels ! i))), image_offset = int HEADER_SIZE + sel_len (take i sels),
     image_size = image_len (fst (sels ! i)) (snd (sels ! i))\<rparr>"

lemma gen_entries:
  "fst (image_entries ALIGN_128KB (int HEADER_SIZE) nand) @
     fst (image_entries ALIGN_64KB (snd (image_entries ALIGN_128KB (int HEADER_SIZE) nand)) nor) =
   map (sel_image (selected nand nor)) [0..<length (selected nand nor)]"
proof (rule nth_equalityI)
  fix i assume "i < length (fst (image_entries ALIGN_128KB (int HEADER_SIZE) nand) @
     fst (image_entries ALIGN_64KB (snd (image_entries ALIGN_128KB (int HEADER_SIZE) nand)) nor))"
  then show "(fst (image_entries ALIGN_128KB (int HEADER_SIZE) nand) @
     fst (image_entries ALIGN_64KB (snd (image_entries ALIGN_128KB (int HEADER_SIZE) nand)) nor)) ! i =
     map (sel_image (selected nand nor)) [0..<length (selected nand nor)] ! i"
    by (auto simp: image_entries_spec selected_def sel_image_def nth_append take_map add.assoc)
qed (simp add: image_entries_spec selected_def)

lemma sel_data_length:
  assumes "\<forall>x\<in>set sels. sel_ok x"
  shows "int (length (concat (map (\<lambda>(a, p). image_data a p) sels))) = sel_len sels" "0 \<le> sel_len sels"
proof -
  show eq: "int (length (concat (map (\<lambda>(a, p). image_data a p) sels))) = sel_len sels"
    using assms by (induction sels) (auto simp: sel_ok_def image_data_length)
  show "0 \<le> sel_len sels" using eq by (metis of_nat_0_le_iff)
qed

lemma sel_take:
  assumes "\<forall>x\<in>set sels. sel_ok x" "i < length sels"
  shows "0 \<le> sel_len (take i sels)" "0 \<le> image_len (fst (sels ! i)) (snd (sels ! i))"
    "sel_len (take i sels) + image_len (fst (sels ! i)) (snd (sels ! i)) \<le> sel_len sels"
proof -
  have split: "sels = take i sels @ [sels ! i] @ drop (Suc i) sels" using id_take_nth_drop[OF assms(2)] by simp
  have ok: "\<forall>x\<in>set (take i sels). sel_ok x" "\<forall>x\<in>set (drop (Suc i) sels). sel_ok x" "sel_ok (sels ! i)"
    using assms by (auto dest: in_set_takeD in_set_dropD)
  show "0 \<le> sel_len (take i sels)" by (rule sel_data_length(2)[OF ok(1)])
  show "0 \<le> image_len (fst (sels ! i)) (snd (sels ! i))"
    using sel_data_length(2)[of "[sels ! i]"] ok(3) by simp
  have "sel_len sels = sel_len (take i sels) + image_len (fst (sels ! i)) (snd (sels ! i)) + sel_len (drop (Suc i) sels)"
    by (subst split) simp
  then show "sel_len (take i sels) + image_len (fst (sels ! i)) (snd (sels ! i)) \<le> sel_len sels"
    using sel_data_length(2)[OF ok(2)] by simp
qed

text \<open>The generated header is well-formed and the package is it followed by the images.\<close>

lemma gen_package_parts:
  assumes "gen_package mainver upgver bootver down nand nor = Some pkg" "sels = selected nand nor"
    and "\<forall>x\<in>set sels. sel_ok x" "int HEADER_SIZE + sel_len sels < 2 ^ 31" "- (2 ^ 31) \<le> down" "down < 2 ^ 31"
  shows "\<exists>h. header_ok h \<and> pkg = header_bytes h @ concat (map (\<lambda>(a, p). image_data a p) sels) \<and> length sels \<le> MAX_PART \<and>
    upg_ver h = 40 \<and> part_cnt h = int (length sels) \<and> (\<forall>i<length sels. image_info h ! i = sel_image sels i)"
proof -
  let ?es = "map (sel_image sels) [0..<length sels]"
  define h where "h = \<lparr>upg_ver = 40, package_ver = to_int32 (push_bit 16 bootver OR push_bit 8 upgver OR mainver),
    part_cnt = int (length sels), ota_down_buf_size = down, reserves = [0, 0, 0],
    image_info = ?es @ replicate (MAX_PART - length ?es) no_image\<rparr>"
  have es: "fst (image_entries ALIGN_128KB (int HEADER_SIZE) nand) @
     fst (image_entries ALIGN_64KB (snd (image_entries ALIGN_128KB (int HEADER_SIZE) nand)) nor) = ?es"
    unfolding assms(2) by (rule gen_entries)
  have gen: "gen_header mainver upgver bootver down nand nor = Some h"
    using assms(1) es by (auto simp: gen_package_def gen_header_def case_prod_beta Let_def h_def split: if_splits)
  have "length (fst (image_entries ALIGN_128KB (int HEADER_SIZE) nand)) +
     length (fst (image_entries ALIGN_64KB (snd (image_entries ALIGN_128KB (int HEADER_SIZE) nand)) nor)) = length sels"
    using arg_cong[OF es, of length] by simp
  then have n: "length sels \<le> MAX_PART"
    using gen by (auto simp: gen_header_def case_prod_beta Let_def split: if_splits)
  have pkg: "pkg = header_bytes h @ concat (map (\<lambda>(a, p). image_data a p) sels)"
    using assms(1) unfolding gen_package_def gen assms(2) selected_def by (simp add: o_def)
  have "image_ok (sel_image sels i)" if i: "i < length sels" for i
  proof -
    have "sel_ok (sels ! i)" using assms(3) i by simp
    then have "length (c_name (partName (snd (sels ! i)))) = 24"
      by (auto simp: sel_ok_def c_name_def MAX_PART_NAME_LEN_def split: prod.splits)
    then show ?thesis
      using sel_take[OF assms(3) i] assms(4) by (simp add: image_ok_def sel_image_def)
  qed
  then have "header_ok h"
    using n assms(5,6) to_int32_range by (auto simp: header_ok_def h_def MAX_PART_def image_ok_def no_image_def)
  then show ?thesis
    using pkg n by (intro exI[of _ h]) (simp add: h_def nth_append)
qed

text \<open>The elements the library makes of the selected partitions.\<close>

definition sel_elem :: "(int \<times> flash_part) list \<Rightarrow> nat \<Rightarrow> upg_elem" where
  "sel_elem sels i = \<lparr>elem_name = partName (snd (sels ! i)), img_size = image_len (fst (sels ! i)) (snd (sels ! i)),
     img_offset = int HEADER_SIZE + sel_len (take i sels)\<rparr>"

definition sel_elems :: "(int \<times> flash_part) list \<Rightarrow> upg_elem list" where
  "sel_elems sels = map (sel_elem sels) [0..<length sels]"

lemma sel_elems_nth [simp]: "length (sel_elems sels) = length sels" "i < length sels \<Longrightarrow> sel_elems sels ! i = sel_elem sels i"
  by (simp_all add: sel_elems_def)

lemma sel_elems_sizes: "i \<le> length sels \<Longrightarrow> sum_list (map img_size (take i (sel_elems sels))) = sel_len (take i sels)"
  unfolding sel_len_def by (rule arg_cong[of _ _ sum_list], intro nth_equalityI) (auto simp: sel_elem_def case_prod_beta)

lemma package_header_parses:
  assumes "gen_package mainver upgver bootver down nand nor = Some pkg" "sels = selected nand nor"
    and "\<forall>x\<in>set sels. sel_ok x" "int HEADER_SIZE + sel_len sels < 2 ^ 31" "- (2 ^ 31) \<le> down" "down < 2 ^ 31"
    and "partinfo_list s \<noteq> []" "\<forall>j. al j"
    and "\<forall>x\<in>set sels. part_holds (partinfo_list s) (partName (snd x)) (image_len (fst x) (snd x))"
  shows "\<exists>d'. upgrade_parse_header e True al (take HEADER_SIZE pkg) d s = Some (ALISLUPG_ERR_NONE, d', s) \<and>
    elems d' = elems d @ sel_elems sels"
proof -
  obtain h where h: "header_ok h" "pkg = header_bytes h @ concat (map (\<lambda>(a, p). image_data a p) sels)"
    "upg_ver h = 40" "part_cnt h = int (length sels)" "\<forall>i<length sels. image_info h ! i = sel_image sels i" "length sels \<le> MAX_PART"
    using gen_package_parts[OF assms(1-6)] by blast
  let ?n = "length sels" and ?name = "\<lambda>j. partName (snd (sels ! j))"
  have hb: "header_of_bytes (take HEADER_SIZE pkg) = h"
    using header_roundtrip[OF h(1), of "[]"] header_bytes_length[OF h(1)] h(2) by simp
  have n: "nat (to_uint32 (int ?n)) = ?n" "?n \<le> length (image_info h)"
    using h(1,6) by (simp_all add: to_uint32_def take_bit_int_eq_self MAX_PART_def header_ok_def)
  have uint: "to_uint32 (image_size (image_info h ! i)) = image_len (fst (sels ! i)) (snd (sels ! i))" if i: "i < ?n" for i
    using sel_take[OF assms(3) i] assms(4) h(5) i by (simp add: sel_image_def to_uint32_def take_bit_int_eq_self)
  have "c_string (image_name (image_info h ! (0 + j))) = Some (map ?name [0..<?n] ! j) \<and>
      part_holds (partinfo_list s) (map ?name [0..<?n] ! j) (to_uint32 (image_size (image_info h ! (0 + j))))" if j: "j < ?n" for j
  proof -
    have "sel_ok (sels ! j)" using assms(3) j by simp
    then show ?thesis
      using c_string_name[of "?name j"] h(5) j assms(9) uint[OF j] by (auto simp: sel_ok_def sel_image_def split: prod.splits)
  qed
  then have "\<forall>j<?n. c_string (image_name (image_info h ! (0 + j))) = Some (map ?name [0..<?n] ! j) \<and>
      part_holds (partinfo_list s) (map ?name [0..<?n] ! j) (to_uint32 (image_size (image_info h ! (0 + j))))" by blast
  from parse_images_prefix[OF assms(7,8) _ _ this, of ?n e "elems d"]
  have "parse_images e al (image_info h) ?n 0 (elems d) s =
      Some (ALISLUPG_ERR_NONE, elems d @ map (\<lambda>j. elem_of (image_info h ! j) (map ?name [0..<?n] ! j)) [0..<?n], s)"
    using n(2) by simp
  moreover have "map (\<lambda>j. elem_of (image_info h ! j) (map ?name [0..<?n] ! j)) [0..<?n] = sel_elems sels"
    using uint h(5) by (intro nth_equalityI) (simp_all add: sel_elem_def elem_of_def sel_image_def)
  ultimately show ?thesis
    using h(3,4) n(1) by (simp add: upgrade_parse_header_def hb Let_def)
qed

lemma package_slice:
  assumes "gen_package mainver upgver bootver down nand nor = Some pkg" "sels = selected nand nor"
    and "\<forall>x\<in>set sels. sel_ok x" "int HEADER_SIZE + sel_len sels < 2 ^ 31" "- (2 ^ 31) \<le> down" "down < 2 ^ 31"
  shows "int (length pkg) = int HEADER_SIZE + sel_len sels"
    "i < length sels \<Longrightarrow> take (nat (image_len (fst (sels ! i)) (snd (sels ! i)))) (drop (nat (int HEADER_SIZE + sel_len (take i sels))) pkg) =
      image_data (fst (sels ! i)) (snd (sels ! i))"
proof -
  obtain h where h: "header_ok h" "pkg = header_bytes h @ concat (map (\<lambda>(a, p). image_data a p) sels)"
    using gen_package_parts[OF assms(1-6)] by blast
  show "int (length pkg) = int HEADER_SIZE + sel_len sels"
    using h(2) header_bytes_length[OF h(1)] sel_data_length(1)[OF assms(3)] by simp
  assume i: "i < length sels"
  have ok: "\<forall>x\<in>set (take i sels). sel_ok x" "sel_ok (sels ! i)" using assms(3) i by (auto dest: in_set_takeD)
  have l: "length (concat (map (\<lambda>(a, p). image_data a p) (take i sels))) = nat (sel_len (take i sels))"
    "length (image_data (fst (sels ! i)) (snd (sels ! i))) = nat (image_len (fst (sels ! i)) (snd (sels ! i)))"
    using sel_data_length(1)[OF ok(1)] image_data_length[of "fst (sels ! i)" "snd (sels ! i)"] ok(2)
    by (auto simp: sel_ok_def split: prod.splits)
  have "pkg = (header_bytes h @ concat (map (\<lambda>(a, p). image_data a p) (take i sels))) @ image_data (fst (sels ! i)) (snd (sels ! i)) @
      concat (map (\<lambda>(a, p). image_data a p) (drop (Suc i) sels))"
    using concat_split[OF i, of "\<lambda>(a, p). image_data a p"] h(2) by (simp add: case_prod_beta)
  moreover have "nat (int HEADER_SIZE + sel_len (take i sels)) = length (header_bytes h @ concat (map (\<lambda>(a, p). image_data a p) (take i sels)))"
    using header_bytes_length[OF h(1)] l(1) sel_take(1)[OF assms(3) i] by simp
  ultimately show "take (nat (image_len (fst (sels ! i)) (snd (sels ! i)))) (drop (nat (int HEADER_SIZE + sel_len (take i sels))) pkg) =
      image_data (fst (sels ! i)) (snd (sels ! i))" using l(2) by simp
qed

subsection \<open>Property\<close>

text \<open>
  (C7) What the packing tool writes the library reads: the header at the start of a generated
  package is accepted, and the list of images gets one element for each selected partition,
  in order, with its name, when every image fits its partition. The images lie one behind the
  other from the end of the header on, and the bytes of the package at the offset and of the
  length of an element are the tool's image of that partition.
\<close>

theorem package_parses_back:
  assumes "gen_package mainver upgver bootver down nand nor = Some pkg" and "sels = selected nand nor"
    and "\<forall>x\<in>set sels. sel_ok x" and "int HEADER_SIZE + sel_len sels < 2 ^ 31" and "- (2 ^ 31) \<le> down" and "down < 2 ^ 31"
    and "partinfo_list s \<noteq> []" and "\<forall>j. al j"
    and "\<forall>x\<in>set sels. part_holds (partinfo_list s) (partName (snd x)) (image_len (fst x) (snd x))"
  shows "\<exists>els d'. upgrade_parse_header e True al (take HEADER_SIZE pkg) d s = Some (ALISLUPG_ERR_NONE, d', s) \<and>
    elems d' = elems d @ els \<and> map elem_name els = map (\<lambda>x. partName (snd x)) sels \<and>
    (\<forall>i<length els. img_offset (els ! i) = int HEADER_SIZE + sum_list (map img_size (take i els)) \<and>
       take (nat (img_size (els ! i))) (drop (nat (img_offset (els ! i))) pkg) = image_data (fst (sels ! i)) (snd (sels ! i)))"
proof -
  obtain d' where d': "upgrade_parse_header e True al (take HEADER_SIZE pkg) d s = Some (ALISLUPG_ERR_NONE, d', s)"
    "elems d' = elems d @ sel_elems sels"
    using package_header_parses[OF assms] by blast
  have "map elem_name (sel_elems sels) = map (\<lambda>x. partName (snd x)) sels"
    by (intro nth_equalityI) (simp_all add: sel_elem_def)
  then show ?thesis
    using d' package_slice(2)[OF assms(1-6)] sel_elems_sizes[of _ sels] by (intro exI[of _ "sel_elems sels"]) (auto simp: sel_elem_def)
qed

definition demo_nand :: "flash_part list" where
  "demo_nand = [\<lparr>partSelect = True, partName = ''boot'', partSize = 7, partFile = []\<rparr>,
     \<lparr>partSelect = False, partName = ''see'', partSize = 9, partFile = [4]\<rparr>,
     \<lparr>partSelect = True, partName = ''kernel'', partSize = 200000, partFile = [1, 2, 3]\<rparr>]"

definition demo_parts :: "partinfo list" where
  "demo_parts = [\<lparr>part_name = ''boot'', part_index = 0, part_size = 100\<rparr>, \<lparr>part_name = ''kernel'', part_index = 1, part_size = 262144\<rparr>]"

lemma demo_selected: "selected demo_nand [] = [(131072, demo_nand ! 0), (131072, demo_nand ! 2)]"
  by (simp add: selected_def demo_nand_def ALIGN_128KB_def)

lemma demo_image_lens: "image_len 131072 (demo_nand ! 0) = 7" "image_len 131072 (demo_nand ! 2) = 131072"
  by (simp_all add: demo_nand_def image_len_def partFileAlignSize_def align_def)

theorem package_parses_back_witness:
  "\<exists>pkg d'. gen_package 1 0 0 2 demo_nand [] = Some pkg \<and>
     upgrade_parse_header (demo_env None) True (\<lambda>j. True) (take HEADER_SIZE pkg) (zero_desc ()) (demo_lib demo_parts []) =
       Some (ALISLUPG_ERR_NONE, d', demo_lib demo_parts []) \<and> map elem_name (elems d') = [''boot'', ''kernel'']"
proof -
  obtain pkg where pkg: "gen_package 1 0 0 2 demo_nand [] = Some pkg"
    by (simp add: gen_package_def gen_header_def demo_nand_def c_name_def MAX_PART_def MAX_PART_NAME_LEN_def Let_def)
  have names: "partName (demo_nand ! 0) = ''boot''" "partName (demo_nand ! 2) = ''kernel''"
    and "0 \<le> partSize (demo_nand ! 0)" "0 \<le> partSize (demo_nand ! 2)"
    by (simp_all add: demo_nand_def)
  then have ok: "\<forall>x\<in>set (selected demo_nand []). sel_ok x"
    by (simp add: demo_selected sel_ok_def MAX_PART_NAME_LEN_def)
  have len: "int HEADER_SIZE + sel_len (selected demo_nand []) < 2 ^ 31"
    by (simp add: demo_selected demo_image_lens HEADER_SIZE_def)
  have fit: "\<forall>x\<in>set (selected demo_nand []). part_holds (partinfo_list (demo_lib demo_parts [])) (partName (snd x)) (image_len (fst x) (snd x))"
    by (simp add: demo_selected demo_image_lens names part_holds_def demo_lib_def demo_parts_def find_part_def)
  have ne: "partinfo_list (demo_lib demo_parts []) \<noteq> []" by (simp add: demo_lib_def demo_parts_def)
  obtain d' els where "upgrade_parse_header (demo_env None) True (\<lambda>j. True) (take HEADER_SIZE pkg) (zero_desc ()) (demo_lib demo_parts []) =
       Some (ALISLUPG_ERR_NONE, d', demo_lib demo_parts [])" "elems d' = els" "map elem_name els = [''boot'', ''kernel'']"
    using package_parses_back[OF pkg refl ok len _ _ ne, of "\<lambda>j. True" "demo_env None" "zero_desc ()"] fit
    by (auto simp: zero_desc_def demo_selected names)
  then show ?thesis
    using pkg by auto
qed

end
