(* ===== verification/Upgrade_Writer.thy ===== *)
theory Upgrade_Writer
  imports Upgrade
begin

section \<open>Writing the images to the flash (\<open>writter.c\<close>, \<open>aliota.c\<close>)\<close>

text \<open>
  Two threads move the package to the flash through the buffer of the tune: the source
  (\<open>upgrade_obj_loop\<close> of the over-the-air plugin) fills it, the writer (\<open>upgrade_writter_loop\<close>)
  stores it with the storage library, and the semaphores \<open>writersem\<close> and \<open>sourcesem\<close> pass it to
  and fro. A step of the relation \<open>ustep\<close> is what one thread does between two waits. The bytes
  the source reads are those of \<open>stream\<close>, which theory \<open>Ota_Piece\<close> gives it;
  the step \<open>abort\<close> is \<open>upgrade_obj_prestop\<close> called by another thread.
\<close>

definition UPG_BUF_SIZE :: nat where "UPG_BUF_SIZE = 512 * 1024"
definition BOOT_PARAM_POS :: nat where "BOOT_PARAM_POS = 0x130 + 0x100"
definition BOOT_PARAM_TOTAL_SIZE :: nat where "BOOT_PARAM_TOTAL_SIZE = 0x5d0"

subsection \<open>The storage library through a handle\<close>

text \<open>
  The transfers of theory \<open>Storage\<close> on the device behind the handle of the partition.
\<close>

definition lib_write :: "'k sto_env \<Rightarrow> u8 list \<Rightarrow> nat \<Rightarrow> nat option \<Rightarrow> 'k sto_lib \<Rightarrow> (int option \<times> 'k sto_lib) option" where
  "lib_write e buf len = on_handle e (\<lambda>drv dev k. alislsto_write drv True dev k (Some buf) len)"

definition lib_erase :: "'k sto_env \<Rightarrow> int \<Rightarrow> int \<Rightarrow> nat option \<Rightarrow> 'k sto_lib \<Rightarrow> (int option \<times> 'k sto_lib) option" where
  "lib_erase e start len = on_handle e (\<lambda>drv dev k. alislsto_erase drv dev k start len)"

definition lib_seek :: "'k sto_env \<Rightarrow> int \<Rightarrow> nat option \<Rightarrow> 'k sto_lib \<Rightarrow> (int option \<times> 'k sto_lib) option" where
  "lib_seek e pos = on_handle e (\<lambda>drv dev k. do { (r, dev) \<leftarrow> alislsto_lseek dev pos SEEK_SET; Some (r, dev, k) })"

definition lib_read :: "'k sto_env \<Rightarrow> u8 list \<Rightarrow> nat \<Rightarrow> nat option \<Rightarrow> 'k sto_lib \<Rightarrow> (u8 list option \<times> 'k sto_lib) option" where
  "lib_read e buf len = on_handle e (\<lambda>drv dev k. do {
     (r, bs, dev, k) \<leftarrow> alislsto_read drv dev k (Some buf) len; bs \<leftarrow> bs; Some (bs, dev, k) })"

subsection \<open>The writer\<close>

record 'k writer =
  w_lib :: "'k sto_lib"
  mtd_handle :: "nat option"
  elem_old :: "nat option"
  totalwrite :: nat
  shown_percent :: int
  d_percent :: int

text \<open>
  The boot partition keeps its parameter area: it is read from the flash into the first
  buffer before the partition is erased.
\<close>

definition keep_boot_param :: "'k sto_env \<Rightarrow> bool \<Rightarrow> nat \<Rightarrow> u8 list \<Rightarrow> nat option \<Rightarrow> 'k sto_lib \<Rightarrow> (upg_err \<times> u8 list \<times> 'k sto_lib) option" where
  "keep_boot_param e malloc_ok sz buf handle s =
     (if sz < BOOT_PARAM_POS + BOOT_PARAM_TOTAL_SIZE then Some (ALISLUPG_ERR_OTHER, buf, s)
      else if \<not> malloc_ok then Some (ALISLUPG_ERR_OTHER, buf, s)
      else do {
        (r, s) \<leftarrow> lib_seek e (int BOOT_PARAM_POS) handle s;
        (bs, s) \<leftarrow> lib_read e (replicate BOOT_PARAM_TOTAL_SIZE 0) BOOT_PARAM_TOTAL_SIZE handle s;
        let param = (case bs of None \<Rightarrow> replicate BOOT_PARAM_TOTAL_SIZE 0 | Some bs \<Rightarrow> bs);
        (r, s) \<leftarrow> lib_seek e 0 handle s;
        Some (ALISLUPG_ERR_NONE, memcpy_at BOOT_PARAM_POS param buf, s) })"

definition erase_elem :: "'k sto_env \<Rightarrow> upg_elem \<Rightarrow> nat option \<Rightarrow> 'k sto_lib \<Rightarrow> 'k sto_lib option" where
  "erase_elem e el handle s = do {
     (len, s) \<leftarrow> (if elem_name el = ''sflash'' then Some (img_size el, s)
                  else do { (r, part_size, s) \<leftarrow> alislsto_get_partsize e (elem_name el) s; Some (part_size, s) });
     (r, s) \<leftarrow> lib_erase e 0 len handle s;
     (r, s) \<leftarrow> lib_seek e 0 handle s;
     Some s }"

text \<open>
  The first buffer of an element: its partition is opened by name and erased. The variable of
  the handle keeps its old value when no handle is stored.
\<close>

definition new_elem :: "'k sto_env \<Rightarrow> bool \<Rightarrow> nat \<Rightarrow> upg_elem \<Rightarrow> u8 list \<Rightarrow> nat \<Rightarrow> 'k writer \<Rightarrow> (upg_err \<times> u8 list \<times> 'k writer) option" where
  "new_elem e malloc_ok j el buf sz w = do {
     (r, h, lib) \<leftarrow> alislsto_mtd_open_by_name e True (elem_name el) O_RDWR (w_lib w);
     let w = w\<lparr>w_lib := lib, mtd_handle := (if h = None then mtd_handle w else h)\<rparr>;
     if r \<noteq> STO_ERR_NONE then Some (ALISLUPG_ERR_OTHER, buf, w)
     else do {
       (err, buf, lib) \<leftarrow> (if elem_name el = ''boot'' \<or> elem_name el = ''bootbak''
                            then keep_boot_param e malloc_ok sz buf (mtd_handle w) (w_lib w)
                            else Some (ALISLUPG_ERR_NONE, buf, w_lib w));
       let w = w\<lparr>w_lib := lib\<rparr>;
       if err \<noteq> ALISLUPG_ERR_NONE then Some (err, buf, w)
       else do {
         lib \<leftarrow> erase_elem e el (mtd_handle w) (w_lib w);
         Some (ALISLUPG_ERR_NONE, buf, w\<lparr>w_lib := lib, elem_old := Some j\<rparr>) } } }"

text \<open>Sizes are unsigned 32-bit values (\<open>size_t\<close>).\<close>

definition u32 :: "nat \<Rightarrow> nat" where
  "u32 n = n mod 2 ^ 32"

text \<open>The progress in percent; with a total below 100 its division has a zero divisor.\<close>

definition write_percent :: "nat \<Rightarrow> nat \<Rightarrow> int option" where
  "write_percent written tot =
     (if written \<ge> tot then Some 100
      else if tot div 100 = 0 then None
      else Some (int (written div (tot div 100))))"

text \<open>
  One turn of the loop of \<open>upgrade_writter_loop\<close> after the wait, without an error so far: the
  element is opened if it is a new one, the buffer is written and the progress is updated.
  The result of the write is not looked at.
\<close>

definition writter_turn :: "'k sto_env \<Rightarrow> bool \<Rightarrow> int \<Rightarrow> nat \<Rightarrow> upg_elem \<Rightarrow> u8 list \<Rightarrow> nat \<Rightarrow> nat \<Rightarrow> 'k writer
    \<Rightarrow> (upg_err \<times> u8 list \<times> 'k writer) option" where
  "writter_turn e malloc_ok scale j el buf sz tot w = do {
     (err, buf, w) \<leftarrow> (if elem_old w \<noteq> Some j then new_elem e malloc_ok j el buf sz w else Some (ALISLUPG_ERR_NONE, buf, w));
     if err \<noteq> ALISLUPG_ERR_NONE then Some (err, buf, w)
     else do {
       (r, lib) \<leftarrow> lib_write e buf sz (mtd_handle w) (w_lib w);
       let written = u32 (totalwrite w + sz);
       p \<leftarrow> write_percent written tot;
       let shown = (if p - shown_percent w \<ge> scale \<or> p = 100 then p else shown_percent w);
       Some (ALISLUPG_ERR_NONE, buf, w\<lparr>w_lib := lib, totalwrite := written, d_percent := p, shown_percent := shown\<rparr>) } }"

text \<open>The end of the writer closes the last handle.\<close>

definition writter_end :: "'k writer \<Rightarrow> 'k writer option" where
  "writter_end w = do { (r, lib) \<leftarrow> alislsto_mtd_close (mtd_handle w) (w_lib w); Some (w\<lparr>w_lib := lib\<rparr>) }"

subsection \<open>The two threads\<close>

record 'k upg_st =
  writer :: "'k writer"
  w_run :: bool
  w_check :: bool
  t_buf :: "u8 list"
  t_size :: nat
  t_total :: nat
  t_elem :: nat
  sem_writer :: nat
  sem_source :: nat
  sem_over :: nat
  d_error :: upg_err
  s_run :: bool
  s_elem :: nat
  elemread :: nat
  perread :: nat
  totalread :: nat
  stream :: "u8 list"

text \<open>The number of bytes the source asks for next; \<open>els\<close> is the list of elements.\<close>

definition img_len :: "upg_elem \<Rightarrow> nat" where
  "img_len el = nat (img_size el)"

definition source_len :: "upg_elem list \<Rightarrow> 'k upg_st \<Rightarrow> nat" where
  "source_len els s = (if img_len (els ! s_elem s) < UPG_BUF_SIZE then img_len (els ! s_elem s) else perread s)"

text \<open>
  After a read of \<open>n\<close> bytes: the counters are advanced, at the end of the element the next one
  becomes current, and the buffer is handed to the writer.
\<close>

definition source_turn :: "upg_elem list \<Rightarrow> nat \<Rightarrow> 'k upg_st \<Rightarrow> 'k upg_st" where
  "source_turn els n s =
     (let len = img_len (els ! s_elem s);
          er = u32 (elemread s + n);
          rest = nat ((int len - int er) mod 2 ^ 32);
          pr = (if rest < UPG_BUF_SIZE then rest else n);
          s = s\<lparr>t_elem := s_elem s, t_buf := memcpy_at 0 (take n (stream s)) (t_buf s), stream := drop n (stream s), t_size := n,
                totalread := u32 (totalread s + n), sem_source := sem_source s + 1\<rparr>
      in if pr = 0 then s\<lparr>s_elem := s_elem s + 1, elemread := 0, perread := UPG_BUF_SIZE\<rparr>
         else s\<lparr>elemread := er, perread := pr\<rparr>)"

definition source_more :: "upg_elem list \<Rightarrow> 'k upg_st \<Rightarrow> bool" where
  "source_more els s \<longleftrightarrow> s_run s \<and> totalread s < t_total s \<and> s_elem s < length els"

text \<open>
  A step of the writer. \<open>w_check\<close> marks the writer between giving the buffer back and looking
  at the progress and the error; its \<open>malloc\<close> may fail.
\<close>

inductive wstep :: "'k sto_env \<Rightarrow> int \<Rightarrow> upg_elem list \<Rightarrow> 'k upg_st \<Rightarrow> 'k upg_st \<Rightarrow> bool" for e scale els where
  writer_write: "\<lbrakk>w_run s; \<not> w_check s; 0 < sem_source s; d_error s = ALISLUPG_ERR_NONE; t_elem s < length els;
      writter_turn e m scale (t_elem s) (els ! t_elem s) (t_buf s) (t_size s) (t_total s) (writer s) = Some (ALISLUPG_ERR_NONE, buf, w)\<rbrakk>
    \<Longrightarrow> wstep e scale els s (s\<lparr>sem_source := sem_source s - 1, t_buf := buf, writer := w, sem_writer := sem_writer s + 1, w_check := True\<rparr>)"
| writer_next: "\<lbrakk>w_run s; w_check s; d_percent (writer s) \<noteq> 100; d_error s = ALISLUPG_ERR_NONE\<rbrakk>
    \<Longrightarrow> wstep e scale els s (s\<lparr>w_check := False\<rparr>)"
| writer_done: "\<lbrakk>w_run s; w_check s; d_percent (writer s) = 100 \<or> d_error s \<noteq> ALISLUPG_ERR_NONE; writter_end (writer s) = Some w\<rbrakk>
    \<Longrightarrow> wstep e scale els s (s\<lparr>w_check := False, writer := w, w_run := False, sem_over := sem_over s + 1\<rparr>)"
| writer_fail: "\<lbrakk>w_run s; \<not> w_check s; 0 < sem_source s; d_error s = ALISLUPG_ERR_NONE; t_elem s < length els;
      writter_turn e m scale (t_elem s) (els ! t_elem s) (t_buf s) (t_size s) (t_total s) (writer s) = Some (err, buf, w);
      err \<noteq> ALISLUPG_ERR_NONE; writter_end w = Some w'\<rbrakk>
    \<Longrightarrow> wstep e scale els s (s\<lparr>sem_source := sem_source s - 1, t_buf := buf, d_error := err, writer := w', w_run := False, sem_over := sem_over s + 1\<rparr>)"
| writer_stop: "\<lbrakk>w_run s; \<not> w_check s; 0 < sem_source s; d_error s \<noteq> ALISLUPG_ERR_NONE; writter_end (writer s) = Some w'\<rbrakk>
    \<Longrightarrow> wstep e scale els s (s\<lparr>sem_source := sem_source s - 1, writer := w', w_run := False, sem_over := sem_over s + 1\<rparr>)"

text \<open>
  A step of the upgrade: of the source, of the writer, or an abort from outside, which may fall
  between any two of them. A read that the stream cannot satisfy does not return.
\<close>

inductive ustep :: "'k sto_env \<Rightarrow> int \<Rightarrow> upg_elem list \<Rightarrow> 'k upg_st \<Rightarrow> 'k upg_st \<Rightarrow> bool" for e scale els where
  source_end: "\<lbrakk>s_run s; \<not> source_more els s\<rbrakk> \<Longrightarrow> ustep e scale els s (s\<lparr>s_run := False\<rparr>)"
| source_quit: "\<lbrakk>source_more els s; 0 < sem_writer s; d_error s \<noteq> ALISLUPG_ERR_NONE\<rbrakk>
    \<Longrightarrow> ustep e scale els s (s\<lparr>sem_writer := sem_writer s - 1, s_run := False\<rparr>)"
| source_fill: "\<lbrakk>source_more els s; 0 < sem_writer s; d_error s = ALISLUPG_ERR_NONE; n = source_len els s; n \<le> length (stream s)\<rbrakk>
    \<Longrightarrow> ustep e scale els s (source_turn els n (s\<lparr>sem_writer := sem_writer s - 1\<rparr>))"
| source_fail: "\<lbrakk>source_more els s; 0 < sem_writer s; d_error s = ALISLUPG_ERR_NONE\<rbrakk>
    \<Longrightarrow> ustep e scale els s (s\<lparr>sem_writer := sem_writer s - 1, t_elem := s_elem s, d_error := ALISLUPG_ERR_OTHER,
          sem_source := sem_source s + 1, s_run := False\<rparr>)"
| writer: "wstep e scale els s s' \<Longrightarrow> ustep e scale els s s'"
| abort: "ustep e scale els s (s\<lparr>d_error := ALISLUPG_ERR_OTHER\<rparr>)"

subsection \<open>Where a transfer continues\<close>

text \<open>A transfer that ended inside the good addresses continues with the next good one.\<close>

lemma live_from_after:
  assumes "info_ok info" "0 \<le> off" "0 < n" "n \<le> length (live_from info bad off)"
    and "p = live_from info bad off ! (n - 1)"
  shows "live_from info bad (p + 1) = drop n (live_from info bad off)" "start_ok info bad (p + 1)"
proof -
  let ?as = "live_from info bad off" and ?P = "live info bad" and ?e = "info_erasesize info"
  have mem: "p \<in> set ?as" using assms(3-5) by simp
  then have p: "off \<le> p" "p < info_size info" "?P p" using live_from_in[of p info bad off] by auto
  let ?l = "filter ?P [off..p - 1]"
  have split: "?as = ?l @ p # live_from info bad (p + 1)"
    using upto_append[of off p "info_size info - 1"] upto_append[of p "p + 1" "info_size info - 1"] p by (simp add: live_from_def)
  then have "?as ! length ?l = p" "length ?l < length ?as" by (metis nth_append_length, simp)
  then have "length ?l = n - 1"
    using nth_eq_iff_index_eq[OF distinct_live_from, of "length ?l" info bad off "n - 1"] assms(3-5) by simp
  then have "n = Suc (length ?l)" using assms(3) by simp
  then show "live_from info bad (p + 1) = drop n ?as" by (subst split) simp
  have e: "0 < ?e" using assms(1) by (simp add: info_ok_def)
  show "start_ok info bad (p + 1)"
  proof (cases "(p + 1) mod ?e = 0")
    case False
    have "p mod ?e \<noteq> ?e - 1"
    proof
      assume "p mod ?e = ?e - 1"
      then have "(p + 1) mod ?e = (?e - 1 + 1) mod ?e" by (metis mod_add_left_eq)
      with False show False by simp
    qed
    then have "p - p mod ?e \<le> p + 1" "p + 1 < p - p mod ?e + ?e"
      using pos_mod_bound[OF e, of p] pos_mod_sign[OF e, of p] by linarith+
    from same_block[OF e this] p show ?thesis using assms(2) by (simp add: start_ok_def live_def)
  qed (use p assms(2) in \<open>simp add: start_ok_def\<close>)
qed

subsection \<open>A partition as the target of an image\<close>

text \<open>
  What is asked of the partition \<open>i\<close> of an element: it is found by its name and is none of the
  partitions with a treatment of their own; its device can be opened, obeys the laws of a flash
  with geometry \<open>info\<close>, which has the size of the table, and does not fail to erase; the image
  is not empty and fits the good blocks.
\<close>

definition target_ok :: "'k sto_env \<Rightarrow> ('k \<Rightarrow> flash) \<Rightarrow> mtd_info \<Rightarrow> (int \<Rightarrow> bool) \<Rightarrow> partinfo list \<Rightarrow> upg_elem \<Rightarrow> nat \<Rightarrow> bool" where
  "target_ok e ab info bad ps el i \<longleftrightarrow>
     (\<exists>p. find_part (elem_name el) ps = Some (i, p) \<and> part_size p = info_size info) \<and>
     elem_name el \<notin> {''boot'', ''bootbak'', ''sflash''} \<and> kopen e i O_RDWR \<noteq> STO_INVALID_HANDLE \<and>
     mtd_laws (env_drv e i) ab info \<and> (\<forall>k. memgetinfo (env_drv e i) k = (0, info)) \<and>
     erase_never_fails (env_drv e i) ab info zero_dev \<and>
     info_ok info \<and> info_size info < 2 ^ 31 \<and> unit_ok info (info_erasesize info) \<and>
     0 < img_len el \<and> img_len el \<le> length (live_from info bad 0)"

definition alloc_ok :: "'k sto_env \<Rightarrow> bool" where
  "alloc_ok e \<longleftrightarrow> path_ok e \<and> dev_alloc_ok e \<and> priv_ok e \<and> (\<forall>n. info_alloc_ok e n)"

text \<open>The handle \<open>h\<close> is an open device of partition \<open>i\<close> that stands behind \<open>c\<close> good bytes.\<close>

definition open_at :: "mtd_info \<Rightarrow> (int \<Rightarrow> bool) \<Rightarrow> nat \<Rightarrow> nat \<Rightarrow> nat \<Rightarrow> 'k sto_lib \<Rightarrow> bool" where
  "open_at info bad i h c lib \<longleftrightarrow>
     (\<exists>dev. devs lib h = Some dev \<and> dev_ok dev \<and> dev_info dev = Valid info \<and> dev_info_logic dev \<noteq> Dangling \<and>
        dev_type dev = STO_TYPE_NAND \<and> dev_erase_type dev = STO_ERASE_TYPE_BLOCK \<and> dev_handle dev \<noteq> STO_INVALID_HANDLE \<and>
        fd_mtd lib (dev_handle dev) = Some i \<and> start_ok info bad (dev_offset dev) \<and>
        live_from info bad (dev_offset dev) = drop c (live_from info bad 0))"

text \<open>The library before and after an operation on the device of partition \<open>i\<close>.\<close>

definition only_part :: "nat \<Rightarrow> 'k sto_lib \<Rightarrow> 'k sto_lib \<Rightarrow> bool" where
  "only_part i lib lib' \<longleftrightarrow> partinfo_list lib' = partinfo_list lib \<and> (\<forall>m. m \<noteq> i \<longrightarrow> mtd_state lib' m = mtd_state lib m)"

lemma only_part_trans: "only_part i a b \<Longrightarrow> only_part i b c \<Longrightarrow> only_part i a c"
  by (simp add: only_part_def)

lemma block_units:
  assumes "dev_erase_type dev = STO_ERASE_TYPE_BLOCK"
  shows "write_unit dev info = info_erasesize info" "erase_never_fails drv ab info dev = erase_never_fails drv ab info zero_dev"
  using assms by (auto simp: write_unit_def erase_never_fails_def erase_unit_def zero_dev_def STO_ERASE_TYPE_BLOCK_def STO_ERASE_TYPE_SECTOR_def)

lemma dev_ok_at: "dev_ok (dev\<lparr>dev_offset := x\<rparr>) = dev_ok dev"
  by (simp add: dev_ok_def cong: ptr.case_cong option.case_cong)

lemma target_size: "target_ok e ab info bad ps el i \<Longrightarrow> 0 < info_size info"
  by (cases "0 < info_size info") (auto simp: target_ok_def)

lemma target_block:
  assumes "target_ok e ab info bad ps el i"
  shows "0 < info_erasesize info" "info_erasesize info < 2 ^ 31" "info_size info mod info_erasesize info = 0"
proof -
  show a: "0 < info_erasesize info" "info_size info mod info_erasesize info = 0"
    using assms by (simp_all add: target_ok_def info_ok_def)
  then have "info_erasesize info \<le> info_size info"
    using target_size[OF assms] zdvd_imp_le[of "info_erasesize info" "info_size info"] by auto
  then show "info_erasesize info < 2 ^ 31" using assms by (simp add: target_ok_def)
qed

lemma target_unit:
  assumes "target_ok e ab info bad ps el i" "dev_erase_type dev = STO_ERASE_TYPE_BLOCK"
  shows "mtd_laws (env_drv e i) ab info" "unit_ok info (write_unit dev info)" "erase_never_fails (env_drv e i) ab info dev"
  using assms by (simp_all add: target_ok_def block_units)

text \<open>Opening the partition of an element for the first time.\<close>

lemma open_target:
  assumes "target_ok e ab info bad (partinfo_list lib) el i" "alloc_ok e"
    and "i < length (handle_list lib)" "handle_list lib ! i = None" "fl_bad (ab (mtd_state lib i)) = bad"
  shows "\<exists>h lib'. alislsto_mtd_open_by_name e True (elem_name el) O_RDWR lib = Some (STO_ERR_NONE, Some h, lib') \<and>
    handle_list lib' = (handle_list lib)[i := Some h] \<and> open_at info bad i h 0 lib' \<and> only_part i lib lib' \<and>
    fl_bad (ab (mtd_state lib' i)) = bad"
proof -
  obtain p where p: "find_part (elem_name el) (partinfo_list lib) = Some (i, p)"
    using assms(1) by (auto simp: target_ok_def)
  note pe = find_part_entry[OF p]
  let ?dev = "zero_dev\<lparr>dev_type := STO_TYPE_NAND, dev_erase_type := STO_ERASE_TYPE_BLOCK,
    dev_name := Some (''/dev/mtd'' @ dec_string i), dev_attr := None, dev_handle := kopen e i O_RDWR, dev_open_cnt := 1\<rparr>"
  have "\<forall>i<3. info_alloc_ok e i" "memgetinfo (env_drv e i) (mtd_state lib i) = (0, info)" "info_ok info" "dev_bad_cnt ?dev = 0"
    using assms(1,2) by (simp_all add: target_ok_def alloc_ok_def zero_dev_def)
  from show_flash_info_fills[OF this] obtain dev where dev:
    "show_flash_info (env_drv e i) (info_alloc_ok e) (Some ?dev) (mtd_state lib i) = Some (STO_ERR_NONE, Some dev)"
    "dev_ok dev" "dev_info dev = Valid info" "dev_type dev = STO_TYPE_NAND" "dev_handle dev = kopen e i O_RDWR"
    "dev_erase_type dev = STO_ERASE_TYPE_BLOCK" "dev_info_logic dev \<noteq> Dangling"
    by auto
  obtain k where k: "klseek (env_drv e i) (mtd_state lib i) 0 = (0, k)" "ab k = (ab (mtd_state lib i))\<lparr>fl_pos := 0\<rparr>"
    using mtd_seek[of "env_drv e i" ab info 0] assms(1) target_size[OF assms(1)] by (auto simp: target_ok_def)
  have hl: "handle_list lib \<noteq> []" using assms(3) by auto
  have ne: "partinfo_list lib \<noteq> []" "elem_name el \<noteq> ''sflash''" "kopen e i O_RDWR \<noteq> STO_INVALID_HANDLE"
    using pe assms(1) by (auto simp: target_ok_def)
  let ?lib = "lib\<lparr>fresh := Suc (fresh lib), handle_list := (handle_list lib)[i := Some (fresh lib)],
    fd_mtd := (fd_mtd lib)(kopen e i O_RDWR \<mapsto> i), mtd_state := (mtd_state lib)(i := k), devs := (devs lib)(fresh lib \<mapsto> dev\<lparr>dev_offset := 0\<rparr>)\<rparr>"
  have "alislsto_mtd_open_by_name e True (elem_name el) O_RDWR lib = Some (STO_ERR_NONE, Some (fresh lib), ?lib)"
    using p pe assms(2-4) ne hl dev(1) k(1)
    by (simp add: alislsto_mtd_open_by_name_def ensure_partinfo_def alislsto_mtd_open_def mtd_open_new_def alislsto_construct_def
        dev_fill_def alloc_ok_def Let_def)
  moreover have "open_at info bad i (fresh lib) 0 ?lib"
    using dev ne(3) target_block(1)[OF assms(1)] by (auto simp: open_at_def start_ok_def dev_ok_at)
  ultimately show ?thesis
    using k(2) assms(5) by (intro exI[of _ "fresh lib"] exI[of _ ?lib]) (simp add: only_part_def)
qed

text \<open>The transfers through a handle, on the device of the partition.\<close>

lemma on_handle_dev:
  assumes "devs lib h = Some dev" "fd_mtd lib (dev_handle dev) = Some i"
    and "f (env_drv e i) (Some dev) (mtd_state lib i) = Some (r, Some dev', k)"
  shows "on_handle e f (Some h) lib =
    Some (Some r, lib\<lparr>devs := (devs lib)(h \<mapsto> dev'), mtd_state := (mtd_state lib)(i := k)\<rparr>)"
  using assms by (simp add: on_handle_def)

lemma seek_start:
  assumes "open_at info bad i h c lib" "0 < info_size info" "0 < info_erasesize info"
  shows "\<exists>lib'. lib_seek e 0 (Some h) lib = Some (Some 0, lib') \<and> handle_list lib' = handle_list lib \<and>
    open_at info bad i h 0 lib' \<and> only_part i lib lib' \<and> mtd_state lib' i = mtd_state lib i"
proof -
  obtain dev where dev: "devs lib h = Some dev" "fd_mtd lib (dev_handle dev) = Some i" "dev_info dev = Valid info"
    "dev_handle dev \<noteq> STO_INVALID_HANDLE" "dev_ok dev" "dev_info_logic dev \<noteq> Dangling"
    "dev_type dev = STO_TYPE_NAND" "dev_erase_type dev = STO_ERASE_TYPE_BLOCK"
    using assms(1) by (auto simp: open_at_def)
  have "alislsto_lseek (Some dev) 0 SEEK_SET = Some (0, Some (dev\<lparr>dev_offset := 0\<rparr>))"
    using dev assms(2) by (simp add: alislsto_lseek_def seek_target_def to_uint32_def to_int32_def)
  then have "lib_seek e 0 (Some h) lib =
    Some (Some 0, lib\<lparr>devs := (devs lib)(h \<mapsto> dev\<lparr>dev_offset := 0\<rparr>), mtd_state := (mtd_state lib)(i := mtd_state lib i)\<rparr>)"
    unfolding lib_seek_def by (intro on_handle_dev[OF dev(1,2)]) simp
  then show ?thesis
    using dev assms(3) by (auto simp: open_at_def only_part_def start_ok_def dev_ok_at)
qed

lemma erase_target:
  assumes "target_ok e ab info bad (partinfo_list lib) el i" "open_at info bad i h 0 lib" "fl_bad (ab (mtd_state lib i)) = bad"
  shows "\<exists>lib'. erase_elem e el (Some h) lib = Some lib' \<and> handle_list lib' = handle_list lib \<and> open_at info bad i h 0 lib' \<and>
    only_part i lib lib' \<and> fl_bad (ab (mtd_state lib' i)) = bad"
proof -
  obtain p where p: "find_part (elem_name el) (partinfo_list lib) = Some (i, p)" "part_size p = info_size info"
    and ne: "elem_name el \<noteq> ''sflash''"
    using assms(1) by (auto simp: target_ok_def)
  have sz: "alislsto_get_partsize e (elem_name el) lib = Some (STO_ERR_NONE, info_size info, lib)"
    using p find_part_entry[OF p(1)] by (auto simp: alislsto_get_partsize_def ensure_partinfo_def)
  obtain dev where dev: "devs lib h = Some dev" "fd_mtd lib (dev_handle dev) = Some i" "dev_info dev = Valid info"
    "dev_handle dev \<noteq> STO_INVALID_HANDLE" "dev_ok dev" "dev_info_logic dev \<noteq> Dangling"
    "dev_type dev = STO_TYPE_NAND" "dev_erase_type dev = STO_ERASE_TYPE_BLOCK"
    "start_ok info bad (dev_offset dev)" "live_from info bad (dev_offset dev) = drop 0 (live_from info bad 0)"
    using assms(2) by (auto simp: open_at_def)
  note tb = target_block[OF assms(1)] target_size[OF assms(1)]
  note t = target_unit[OF assms(1) dev(8)]
  obtain r k where k: "alislsto_erase (env_drv e i) (Some dev) (mtd_state lib i) 0 (info_size info) = Some (r, Some dev, k)"
    "fl_bad (ab k) = bad"
    using alislsto_erase_spec[of "env_drv e i" ab info dev "mtd_state lib i" 0 "info_size info", OF _ dev(5,3) _ tb(2) t(2,3) _ _ _ _ _ _ refl]
      assms(1,3) dev(7) tb t(1) by (auto simp: target_ok_def bad_seen_def)
  let ?lib = "lib\<lparr>devs := (devs lib)(h \<mapsto> dev), mtd_state := (mtd_state lib)(i := k)\<rparr>"
  have er: "lib_erase e 0 (info_size info) (Some h) lib = Some (Some r, ?lib)"
    unfolding lib_erase_def by (rule on_handle_dev[OF dev(1,2)]) (use k in simp)
  have "open_at info bad i h 0 ?lib" using dev by (auto simp: open_at_def)
  from seek_start[OF this tb(4,1), of e] show ?thesis
    using er sz ne k(2) by (auto simp: erase_elem_def only_part_def)
qed

lemma write_target:
  assumes "target_ok e ab info bad (partinfo_list lib) el i" "open_at info bad i h c lib" "fl_bad (ab (mtd_state lib i)) = bad"
    and "0 < n" "n \<le> length buf" "c + n \<le> length (live_from info bad 0)"
  shows "\<exists>r lib'. lib_write e buf n (Some h) lib = Some (r, lib') \<and> handle_list lib' = handle_list lib \<and>
    open_at info bad i h (c + n) lib' \<and> only_part i lib lib' \<and> fl_bad (ab (mtd_state lib' i)) = bad \<and>
    fl_mem (ab (mtd_state lib' i)) = store_at (take n (drop c (live_from info bad 0))) buf (fl_mem (ab (mtd_state lib i)))"
proof -
  obtain dev where dev: "devs lib h = Some dev" "fd_mtd lib (dev_handle dev) = Some i" "dev_info dev = Valid info"
    "dev_handle dev \<noteq> STO_INVALID_HANDLE" "dev_ok dev" "dev_info_logic dev \<noteq> Dangling"
    "dev_type dev = STO_TYPE_NAND" "dev_erase_type dev = STO_ERASE_TYPE_BLOCK"
    "start_ok info bad (dev_offset dev)" "live_from info bad (dev_offset dev) = drop c (live_from info bad 0)"
    using assms(2) by (auto simp: open_at_def)
  let ?as = "live_from info bad (dev_offset dev)"
  have len: "n \<le> length ?as" using assms(6) dev(10) by simp
  let ?off = "transfer_end info ?as n (dev_offset dev)"
  have off: "?off = ?as ! (n - 1) + 1" using len by (simp add: transfer_end_def)
  have i: "info_ok info" "0 \<le> dev_offset dev" using assms(1) dev(9) by (auto simp: target_ok_def start_ok_def)
  note la = live_from_after[OF i assms(4) len refl] and t = target_unit[OF assms(1) dev(8)]
  obtain r k where k: "alislsto_write (env_drv e i) True (Some dev) (mtd_state lib i) (Some buf) n = Some (r, Some (dev\<lparr>dev_offset := ?off\<rparr>), k)"
    "fl_mem (ab k) = store_at (take n ?as) buf (fl_mem (ab (mtd_state lib i)))" "fl_bad (ab k) = bad"
    using alislsto_write_spec[of "env_drv e i" ab info dev "mtd_state lib i" n buf, OF t(1) dev(3) i(1) _ _ t(2,3) assms(4,5) refl]
      assms(3) dev(7,9) by (auto simp: bad_seen_def)
  have "lib_write e buf n (Some h) lib =
    Some (Some r, lib\<lparr>devs := (devs lib)(h \<mapsto> dev\<lparr>dev_offset := ?off\<rparr>), mtd_state := (mtd_state lib)(i := k)\<rparr>)"
    unfolding lib_write_def by (rule on_handle_dev[OF dev(1,2)]) (rule k)
  then show ?thesis
    using dev k(2,3) la off by (auto simp: open_at_def only_part_def dev_ok_at add.commute)
qed

text \<open>The first buffer of an element: afterwards its partition is open at the start.\<close>

lemma new_elem_target:
  assumes "target_ok e ab info bad (partinfo_list (w_lib w)) el i" "alloc_ok e"
    and "i < length (handle_list (w_lib w))" "handle_list (w_lib w) ! i = None" "fl_bad (ab (mtd_state (w_lib w) i)) = bad"
  shows "\<exists>h lib. new_elem e m j el buf sz w = Some (ALISLUPG_ERR_NONE, buf, w\<lparr>w_lib := lib, mtd_handle := Some h, elem_old := Some j\<rparr>) \<and>
    handle_list lib = (handle_list (w_lib w))[i := Some h] \<and> open_at info bad i h 0 lib \<and> only_part i (w_lib w) lib \<and>
    fl_bad (ab (mtd_state lib i)) = bad"
proof -
  obtain h l1 where o: "alislsto_mtd_open_by_name e True (elem_name el) O_RDWR (w_lib w) = Some (STO_ERR_NONE, Some h, l1)"
    "handle_list l1 = (handle_list (w_lib w))[i := Some h]" "open_at info bad i h 0 l1" "only_part i (w_lib w) l1"
    "fl_bad (ab (mtd_state l1 i)) = bad"
    using open_target[OF assms] by blast
  have "partinfo_list l1 = partinfo_list (w_lib w)" using o(4) by (simp add: only_part_def)
  then obtain l2 where r: "erase_elem e el (Some h) l1 = Some l2" "handle_list l2 = handle_list l1" "open_at info bad i h 0 l2"
    "only_part i l1 l2" "fl_bad (ab (mtd_state l2 i)) = bad"
    using erase_target[of e ab info bad l1 el i h] assms(1) o(3,5) by auto
  show ?thesis
    using o r assms(1) only_part_trans[OF o(4) r(4)]
    by (intro exI[of _ h] exI[of _ l2]) (simp add: new_elem_def target_ok_def)
qed

end
