(* ===== verification/Upgrade_Run.thy ===== *)
theory Upgrade_Run
  imports Upgrade_Writer
begin

section \<open>An upgrade from the package stream to the flash\<close>

text \<open>
  The two threads of theory \<open>Upgrade_Writer\<close> together with the flash library: the images of the
  stream arrive completely and in order at the good addresses of their partitions. The
  targets of the images are given as a function of the element number; everything asked of
  them is in \<open>upg_plan_ok\<close>.
\<close>

subsection \<open>Images in the stream and on the flash\<close>

record 'k target =
  tg_part :: nat
  tg_ab :: "'k \<Rightarrow> flash"
  tg_info :: mtd_info
  tg_bad :: "int \<Rightarrow> bool"

definition start_of :: "upg_elem list \<Rightarrow> nat \<Rightarrow> nat" where
  "start_of els j = sum_list (map img_len (take j els))"

definition image_of :: "upg_elem list \<Rightarrow> u8 list \<Rightarrow> nat \<Rightarrow> u8 list" where
  "image_of els data j = take (img_len (els ! j)) (drop (start_of els j) data)"

text \<open>The partition holds \<open>bs\<close> at its first good addresses.\<close>

definition good_addrs :: "'k target \<Rightarrow> int list" where
  "good_addrs t = live_from (tg_info t) (tg_bad t) 0"

definition holds :: "'k target \<Rightarrow> 'k sto_lib \<Rightarrow> u8 list \<Rightarrow> bool" where
  "holds t lib bs \<longleftrightarrow> map (fl_mem (tg_ab t (mtd_state lib (tg_part t)))) (take (length bs) (good_addrs t)) = bs"

definition upg_plan_ok :: "'k sto_env \<Rightarrow> upg_elem list \<Rightarrow> (nat \<Rightarrow> 'k target) \<Rightarrow> partinfo list \<Rightarrow> bool" where
  "upg_plan_ok e els ts ps \<longleftrightarrow> alloc_ok e \<and> inj_on (\<lambda>j. tg_part (ts j)) {..<length els} \<and>
     (\<forall>j<length els. target_ok e (tg_ab (ts j)) (tg_info (ts j)) (tg_bad (ts j)) ps (els ! j) (tg_part (ts j)))"

text \<open>No partition of the package is open yet.\<close>

definition lib_start :: "upg_elem list \<Rightarrow> (nat \<Rightarrow> 'k target) \<Rightarrow> partinfo list \<Rightarrow> 'k sto_lib \<Rightarrow> bool" where
  "lib_start els ts ps lib \<longleftrightarrow> partinfo_list lib = ps \<and>
     (\<forall>j<length els. tg_part (ts j) < length (handle_list lib) \<and> handle_list lib ! tg_part (ts j) = None \<and>
        fl_bad (tg_ab (ts j) (mtd_state lib (tg_part (ts j)))) = tg_bad (ts j))"

definition upg_init :: "'k sto_lib \<Rightarrow> nat \<Rightarrow> u8 list \<Rightarrow> 'k upg_st" where
  "upg_init lib tot data = \<lparr>writer = \<lparr>w_lib = lib, mtd_handle = None, elem_old = None, totalwrite = 0, shown_percent = 0, d_percent = 0\<rparr>,
     w_run = True, w_check = False, t_buf = replicate UPG_BUF_SIZE 0, t_size = 0, t_total = tot, t_elem = 0, sem_writer = 1, sem_source = 0,
     sem_over = 0, d_error = ALISLUPG_ERR_NONE, s_run = True, s_elem = 0, elemread = 0, perread = UPG_BUF_SIZE, totalread = 0, stream = data\<rparr>"

lemma start_of_Suc: "j < length els \<Longrightarrow> start_of els (Suc j) = start_of els j + img_len (els ! j)"
  by (simp add: start_of_def take_Suc_conv_app_nth)

lemma start_of_mono: "i \<le> j \<Longrightarrow> start_of els i \<le> start_of els j"
proof (induction j)
  case (Suc j)
  then show ?case
    by (cases "i = Suc j"; cases "j < length els") (auto simp: start_of_Suc, simp add: start_of_def)
qed simp

lemma start_of_0 [simp]: "start_of els 0 = 0"
  by (simp add: start_of_def)

lemma image_end:
  assumes "i < j" "i < length els"
  shows "start_of els i + img_len (els ! i) \<le> start_of els j"
  using start_of_mono[of "Suc i" j els] assms by (simp add: start_of_Suc)

lemma holds_Nil [simp]: "holds t lib []"
  by (simp add: holds_def)

lemma holds_other: "tg_part t \<noteq> i \<Longrightarrow> only_part i lib lib' \<Longrightarrow> holds t lib' bs = holds t lib bs"
  by (simp add: holds_def only_part_def)

text \<open>Writing behind what a partition holds extends it.\<close>

lemma holds_extend:
  assumes "holds t lib bs" "length bs + n \<le> length (good_addrs t)" "n \<le> length buf"
    and "fl_mem (tg_ab t (mtd_state lib' (tg_part t))) =
      store_at (take n (drop (length bs) (good_addrs t))) buf (fl_mem (tg_ab t (mtd_state lib (tg_part t))))"
  shows "holds t lib' (bs @ take n buf)"
proof -
  let ?as = "take n (drop (length bs) (good_addrs t))" and ?mem = "fl_mem (tg_ab t (mtd_state lib (tg_part t)))"
  have d: "distinct (good_addrs t)" by (simp add: good_addrs_def)
  have "set (take (length bs) (good_addrs t)) \<inter> set (drop (length bs) (good_addrs t)) = {}"
    using set_take_disj_set_drop_if_distinct[OF d, of "length bs" "length bs"] by simp
  then have "a \<notin> set ?as" if "a \<in> set (take (length bs) (good_addrs t))" for a
    using that by (meson disjoint_iff in_set_takeD)
  then have "map (store_at ?as buf ?mem) (take (length bs) (good_addrs t)) = map ?mem (take (length bs) (good_addrs t))"
    by (intro map_cong refl store_at_other)
  moreover have "map (store_at ?as buf ?mem) ?as = take n buf"
  proof (intro nth_equalityI)
    fix i assume "i < length (map (store_at ?as buf ?mem) ?as)"
    then show "map (store_at ?as buf ?mem) ?as ! i = take n buf ! i"
      using store_at_nth[of ?as i buf ?mem] assms(3) d by simp
  qed (use assms(2,3) in simp)
  ultimately show ?thesis
    using assms by (simp add: holds_def take_add del: map_eq_conv)
qed

subsection \<open>The writer\<close>

text \<open>
  After \<open>totalwrite\<close> bytes the partitions hold the parts of the images that lie before this
  point of the stream; the partition the point lies in is open behind its part, and those
  that start behind it have not been opened.
\<close>

definition images_ok :: "upg_elem list \<Rightarrow> (nat \<Rightarrow> 'k target) \<Rightarrow> u8 list \<Rightarrow> 'k writer \<Rightarrow> bool" where
  "images_ok els ts data w \<longleftrightarrow>
     (\<forall>j<length els. holds (ts j) (w_lib w) (take (totalwrite w - start_of els j) (image_of els data j)))"

definition parts_ok :: "upg_elem list \<Rightarrow> (nat \<Rightarrow> 'k target) \<Rightarrow> partinfo list \<Rightarrow> nat set \<Rightarrow> 'k sto_lib \<Rightarrow> bool" where
  "parts_ok els ts ps J lib \<longleftrightarrow> partinfo_list lib = ps \<and>
     (\<forall>j<length els. tg_part (ts j) < length (handle_list lib) \<and> (j \<in> J \<longrightarrow> handle_list lib ! tg_part (ts j) = None) \<and>
        fl_bad (tg_ab (ts j) (mtd_state lib (tg_part (ts j)))) = tg_bad (ts j))"

definition cur_ok :: "upg_elem list \<Rightarrow> (nat \<Rightarrow> 'k target) \<Rightarrow> nat \<Rightarrow> 'k writer \<Rightarrow> bool" where
  "cur_ok els ts j w \<longleftrightarrow> elem_old w = Some j \<and>
     (\<exists>h. mtd_handle w = Some h \<and>
        open_at (tg_info (ts j)) (tg_bad (ts j)) (tg_part (ts j)) h (totalwrite w - start_of els j) (w_lib w))"

definition writer_ok :: "upg_elem list \<Rightarrow> (nat \<Rightarrow> 'k target) \<Rightarrow> partinfo list \<Rightarrow> u8 list \<Rightarrow> 'k writer \<Rightarrow> bool" where
  "writer_ok els ts ps data w \<longleftrightarrow> images_ok els ts data w \<and>
     parts_ok els ts ps {j. totalwrite w \<le> start_of els j} (w_lib w) \<and>
     (totalwrite w = 0 \<longrightarrow> elem_old w = None \<and> mtd_handle w = None) \<and>
     (\<forall>j<length els. start_of els j < totalwrite w \<and> totalwrite w \<le> start_of els j + img_len (els ! j) \<longrightarrow> cur_ok els ts j w) \<and>
     (\<forall>j. elem_old w = Some j \<longrightarrow> start_of els j < totalwrite w)"

lemma parts_okD:
  assumes "parts_ok els ts ps J lib" "j < length els"
  shows "partinfo_list lib = ps" "tg_part (ts j) < length (handle_list lib)"
    "fl_bad (tg_ab (ts j) (mtd_state lib (tg_part (ts j)))) = tg_bad (ts j)"
    "j \<in> J \<Longrightarrow> handle_list lib ! tg_part (ts j) = None"
  using assms by (auto simp: parts_ok_def)

text \<open>An operation on the partition of element \<open>j\<close> keeps what is known of the others.\<close>

lemma parts_ok_only:
  assumes "parts_ok els ts ps J lib" "only_part (tg_part (ts j)) lib lib'" "j < length els"
    and "inj_on (\<lambda>j. tg_part (ts j)) {..<length els}" "fl_bad (tg_ab (ts j) (mtd_state lib' (tg_part (ts j)))) = tg_bad (ts j)"
    and "handle_list lib' = handle_list lib \<or> (\<exists>h. handle_list lib' = (handle_list lib)[tg_part (ts j) := Some h])"
  shows "parts_ok els ts ps (J - {j}) lib'"
proof -
  have "tg_part (ts i) \<noteq> tg_part (ts j)" if "i < length els" "i \<noteq> j" for i
    using inj_onD[OF assms(4), of i j] that assms(3) by auto
  with assms show ?thesis
    by (auto simp: parts_ok_def only_part_def nth_list_update) (metis)+
qed

text \<open>Before the write the partition is open where the buffer belongs.\<close>

lemma turn_opens:
  assumes "upg_plan_ok e els ts ps" "writer_ok els ts ps data w" "j < length els"
    and "start_of els j \<le> totalwrite w" "totalwrite w < start_of els j + img_len (els ! j)"
  shows "\<exists>w'. (if elem_old w \<noteq> Some j then new_elem e m j (els ! j) buf sz w else Some (ALISLUPG_ERR_NONE, buf, w)) =
      Some (ALISLUPG_ERR_NONE, buf, w') \<and> totalwrite w' = totalwrite w \<and> shown_percent w' = shown_percent w \<and> cur_ok els ts j w' \<and> images_ok els ts data w' \<and>
      parts_ok els ts ps ({j. totalwrite w \<le> start_of els j} - {j}) (w_lib w')"
proof (cases "start_of els j < totalwrite w")
  case True
  then have "cur_ok els ts j w" using assms(2,3,5) by (auto simp: writer_ok_def)
  moreover have "parts_ok els ts ps ({j. totalwrite w \<le> start_of els j} - {j}) (w_lib w)"
    using assms(2) by (auto simp: writer_ok_def parts_ok_def)
  ultimately show ?thesis
    using assms(2) by (auto simp: writer_ok_def cur_ok_def)
next
  case False
  let ?t = "ts j"
  have po: "parts_ok els ts ps {j. totalwrite w \<le> start_of els j} (w_lib w)" and im: "images_ok els ts data w"
    and old: "elem_old w \<noteq> Some j"
    using assms(2) False by (auto simp: writer_ok_def)
  note pd = parts_okD[OF po assms(3)]
  have t: "target_ok e (tg_ab ?t) (tg_info ?t) (tg_bad ?t) (partinfo_list (w_lib w)) (els ! j) (tg_part ?t)" "alloc_ok e"
    and inj: "inj_on (\<lambda>j. tg_part (ts j)) {..<length els}"
    using assms(1,3) pd(1) by (auto simp: upg_plan_ok_def)
  have "handle_list (w_lib w) ! tg_part ?t = None" using pd(4) False by simp
  from new_elem_target[OF t pd(2) this pd(3), of m j buf sz] obtain h lib where
    n: "new_elem e m j (els ! j) buf sz w = Some (ALISLUPG_ERR_NONE, buf, w\<lparr>w_lib := lib, mtd_handle := Some h, elem_old := Some j\<rparr>)"
    "handle_list lib = (handle_list (w_lib w))[tg_part ?t := Some h]" "open_at (tg_info ?t) (tg_bad ?t) (tg_part ?t) h 0 lib"
    "only_part (tg_part ?t) (w_lib w) lib" "fl_bad (tg_ab ?t (mtd_state lib (tg_part ?t))) = tg_bad ?t"
    by blast
  have "holds (ts i) lib (take (totalwrite w - start_of els i) (image_of els data i))" if i: "i < length els" for i
  proof (cases "i = j")
    case False
    then have "tg_part (ts i) \<noteq> tg_part ?t" using inj_onD[OF inj, of i j] i assms(3) by auto
    from holds_other[OF this n(4)] im i show ?thesis by (simp add: images_ok_def)
  qed (use False assms(4) in simp)
  then show ?thesis
    using n old False parts_ok_only[OF po n(4) assms(3) inj n(5)] by (auto simp: cur_ok_def images_ok_def)
qed

text \<open>One turn of the writer stores the buffer and keeps the invariant.\<close>

lemma part_written:
  assumes "j < length els" "start_of els j \<le> x" "x + n \<le> start_of els j + img_len (els ! j)" "i < length els" "i \<noteq> j"
  shows "take (x + n - start_of els i) (image_of els data i) = take (x - start_of els i) (image_of els data i)"
proof (cases "i < j")
  case True
  then have "start_of els i + img_len (els ! i) \<le> x" using image_end[OF True assms(4)] assms(2) by simp
  then show ?thesis by (simp add: image_of_def)
next
  case False
  then have "x + n \<le> start_of els i" using image_end[of j i els] assms(1,3,5) by simp
  then show ?thesis by simp
qed

lemma writter_turn_ok:
  assumes "upg_plan_ok e els ts ps" "writer_ok els ts ps data w" "j < length els"
    and "start_of els j \<le> totalwrite w" "totalwrite w + n \<le> start_of els j + img_len (els ! j)" "0 < n" "n \<le> length buf"
    and "take n buf = take n (drop (totalwrite w) data)" "start_of els (length els) \<le> length data" "totalwrite w + n < 2 ^ 32"
    and "write_percent (totalwrite w + n) tot = Some p"
  shows "\<exists>w'. writter_turn e m scale j (els ! j) buf n tot w = Some (ALISLUPG_ERR_NONE, buf, w') \<and> writer_ok els ts ps data w' \<and>
    totalwrite w' = totalwrite w + n \<and> d_percent w' = p"
proof -
  let ?t = "ts j" and ?x = "totalwrite w" and ?s = "start_of els j"
  obtain w1 where w1: "(if elem_old w \<noteq> Some j then new_elem e m j (els ! j) buf n w else Some (ALISLUPG_ERR_NONE, buf, w)) =
      Some (ALISLUPG_ERR_NONE, buf, w1)" "totalwrite w1 = ?x" "cur_ok els ts j w1" "images_ok els ts data w1"
    "parts_ok els ts ps ({j. ?x \<le> start_of els j} - {j}) (w_lib w1)"
    using turn_opens[OF assms(1-4), of m buf n] assms(5,6) by auto
  note pd = parts_okD[OF w1(5) assms(3)]
  have t: "target_ok e (tg_ab ?t) (tg_info ?t) (tg_bad ?t) (partinfo_list (w_lib w1)) (els ! j) (tg_part ?t)"
    and inj: "inj_on (\<lambda>j. tg_part (ts j)) {..<length els}"
    using assms(1,3) pd(1) by (auto simp: upg_plan_ok_def)
  obtain h where h: "elem_old w1 = Some j" "mtd_handle w1 = Some h"
    "open_at (tg_info ?t) (tg_bad ?t) (tg_part ?t) h (?x - ?s) (w_lib w1)"
    using w1(2,3) by (auto simp: cur_ok_def)
  have fit: "?x - ?s + n \<le> length (live_from (tg_info ?t) (tg_bad ?t) 0)"
  proof -
    have "img_len (els ! j) \<le> length (live_from (tg_info ?t) (tg_bad ?t) 0)" using t by (simp add: target_ok_def)
    with assms(4,5) show ?thesis by linarith
  qed
  obtain r lib where wr: "lib_write e buf n (Some h) (w_lib w1) = Some (r, lib)" "handle_list lib = handle_list (w_lib w1)"
    "open_at (tg_info ?t) (tg_bad ?t) (tg_part ?t) h (?x - ?s + n) lib" "only_part (tg_part ?t) (w_lib w1) lib"
    "fl_bad (tg_ab ?t (mtd_state lib (tg_part ?t))) = tg_bad ?t"
    "fl_mem (tg_ab ?t (mtd_state lib (tg_part ?t))) =
      store_at (take n (drop (?x - ?s) (good_addrs ?t))) buf (fl_mem (tg_ab ?t (mtd_state (w_lib w1) (tg_part ?t))))"
    using write_target[OF t h(3) pd(3) assms(6,7) fit] unfolding good_addrs_def by blast
  define w' where "w' = w1\<lparr>w_lib := lib, totalwrite := ?x + n, d_percent := p,
    shown_percent := (if p - shown_percent w1 \<ge> scale \<or> p = 100 then p else shown_percent w1)\<rparr>"
  have turn: "writter_turn e m scale j (els ! j) buf n tot w = Some (ALISLUPG_ERR_NONE, buf, w')"
    using w1(1,2) h(2) wr(1) assms(10,11) by (simp add: writter_turn_def u32_def w'_def Let_def)
  have len: "length data \<ge> ?s + img_len (els ! j)" using image_end[OF assms(3,3)] assms(9) by simp
  have "holds (ts i) lib (take (?x + n - start_of els i) (image_of els data i))" if i: "i < length els" for i
  proof (cases "i = j")
    case True
    let ?bs = "take (?x - ?s) (image_of els data j)"
    have lb: "length ?bs = ?x - ?s" using assms(4,5) len by (simp add: image_of_def)
    have "take (?x + n - ?s) (image_of els data j) = take (?x - ?s + n) (drop ?s data)"
      using assms(4,5) by (simp add: image_of_def)
    also have "\<dots> = take (?x - ?s) (drop ?s data) @ take n (drop (?x - ?s) (drop ?s data))"
      by (rule take_add)
    also have "\<dots> = ?bs @ take n (drop ?x data)"
      using assms(4,5) by (simp add: image_of_def)
    finally have eq: "take (?x + n - ?s) (image_of els data j) = ?bs @ take n buf" using assms(8) by simp
    have "holds ?t (w_lib w1) ?bs" using w1(2,4) assms(3) by (simp add: images_ok_def)
    from holds_extend[OF this, of n buf lib] show ?thesis
      using eq True fit wr(6) assms(7) lb by (simp add: good_addrs_def)
  next
    case False
    then have "tg_part (ts i) \<noteq> tg_part ?t" using inj_onD[OF inj, of i j] i assms(3) by auto
    from holds_other[OF this wr(4)] show ?thesis
      using w1(2,4) i part_written[OF assms(3-5) i False] by (simp add: images_ok_def)
  qed
  moreover have "parts_ok els ts ps {j. ?x + n \<le> start_of els j} lib"
    using parts_ok_only[OF w1(5) wr(4) assms(3) inj wr(5)] wr(2) assms(4,6) by (auto simp: parts_ok_def)
  moreover have "i = j" if "i < length els" "start_of els i < ?x + n" "?x + n \<le> start_of els i + img_len (els ! i)" for i
    using that assms(3-6) image_end[of i j els] image_end[of j i els] by (cases i j rule: linorder_cases) auto
  ultimately have "writer_ok els ts ps data w'"
    using h(1,2) wr(3) assms(4,6) by (auto simp: writer_ok_def images_ok_def cur_ok_def w'_def)
  with turn show ?thesis by (intro exI[of _ w']) (simp add: w'_def)
qed

text \<open>Closing the last partition leaves the flash as it is.\<close>

lemma writter_end_ok:
  assumes "writter_end w = Some w'"
  shows "totalwrite w' = totalwrite w \<and> d_percent w' = d_percent w \<and> mtd_state (w_lib w') = mtd_state (w_lib w)"
  using assms by (auto simp: writter_end_def alislsto_mtd_close_def release_dev_def alislsto_destruct_def Let_def
      split: option.splits if_splits bind_splits)

lemma images_ok_state:
  "totalwrite w' = totalwrite w \<Longrightarrow> mtd_state (w_lib w') = mtd_state (w_lib w) \<Longrightarrow> images_ok els ts data w' = images_ok els ts data w"
  by (simp add: images_ok_def holds_def)

subsection \<open>The source\<close>

text \<open>The place of the source in the stream, and a buffer that is handed over to the writer.\<close>

definition source_ok :: "upg_elem list \<Rightarrow> u8 list \<Rightarrow> 'k upg_st \<Rightarrow> bool" where
  "source_ok els data s \<longleftrightarrow> s_elem s \<le> length els \<and> totalread s = start_of els (s_elem s) + elemread s \<and>
     stream s = drop (totalread s) data \<and> length (t_buf s) = UPG_BUF_SIZE \<and>
     (if s_elem s < length els
      then elemread s < img_len (els ! s_elem s) \<and> source_len els s = min UPG_BUF_SIZE (img_len (els ! s_elem s) - elemread s)
      else elemread s = 0)"

definition handed_ok :: "upg_elem list \<Rightarrow> u8 list \<Rightarrow> nat \<Rightarrow> 'k upg_st \<Rightarrow> bool" where
  "handed_ok els data x s \<longleftrightarrow> t_elem s < length els \<and> start_of els (t_elem s) \<le> x \<and>
     x + t_size s \<le> start_of els (t_elem s) + img_len (els ! t_elem s) \<and> 0 < t_size s \<and> t_size s \<le> UPG_BUF_SIZE \<and>
     take (t_size s) (t_buf s) = take (t_size s) (drop x data) \<and> totalread s = x + t_size s"

definition lens_ok :: "upg_elem list \<Rightarrow> u8 list \<Rightarrow> bool" where
  "lens_ok els data \<longleftrightarrow> (\<forall>j<length els. 0 < img_len (els ! j)) \<and> start_of els (length els) \<le> length data \<and>
     start_of els (length els) < 2 ^ 32"

lemma UPG_BUF_SIZE_pos: "0 < UPG_BUF_SIZE" "128 dvd UPG_BUF_SIZE"
  by (simp_all add: UPG_BUF_SIZE_def)

text \<open>Fields of the other thread do not matter.\<close>

lemma source_len_frame [simp]:
  "source_len els (s\<lparr>writer := v_writer\<rparr>) = source_len els s"
  "source_len els (s\<lparr>w_run := v_w_run\<rparr>) = source_len els s"
  "source_len els (s\<lparr>w_check := v_w_check\<rparr>) = source_len els s"
  "source_len els (s\<lparr>sem_writer := v_sem_writer\<rparr>) = source_len els s"
  "source_len els (s\<lparr>sem_source := v_sem_source\<rparr>) = source_len els s"
  "source_len els (s\<lparr>sem_over := v_sem_over\<rparr>) = source_len els s"
  "source_len els (s\<lparr>d_error := v_d_error\<rparr>) = source_len els s"
  "source_len els (s\<lparr>s_run := v_s_run\<rparr>) = source_len els s"
  by (simp_all add: source_len_def)

lemma source_ok_frame [simp]:
  "source_ok els data (s\<lparr>writer := v_writer\<rparr>) = source_ok els data s"
  "source_ok els data (s\<lparr>w_run := v_w_run\<rparr>) = source_ok els data s"
  "source_ok els data (s\<lparr>w_check := v_w_check\<rparr>) = source_ok els data s"
  "source_ok els data (s\<lparr>sem_writer := v_sem_writer\<rparr>) = source_ok els data s"
  "source_ok els data (s\<lparr>sem_source := v_sem_source\<rparr>) = source_ok els data s"
  "source_ok els data (s\<lparr>sem_over := v_sem_over\<rparr>) = source_ok els data s"
  "source_ok els data (s\<lparr>d_error := v_d_error\<rparr>) = source_ok els data s"
  "source_ok els data (s\<lparr>s_run := v_s_run\<rparr>) = source_ok els data s"
  by (simp_all add: source_ok_def)

lemma handed_ok_frame [simp]:
  "handed_ok els data x (s\<lparr>writer := v_writer\<rparr>) = handed_ok els data x s"
  "handed_ok els data x (s\<lparr>w_run := v_w_run\<rparr>) = handed_ok els data x s"
  "handed_ok els data x (s\<lparr>w_check := v_w_check\<rparr>) = handed_ok els data x s"
  "handed_ok els data x (s\<lparr>sem_writer := v_sem_writer\<rparr>) = handed_ok els data x s"
  "handed_ok els data x (s\<lparr>sem_source := v_sem_source\<rparr>) = handed_ok els data x s"
  "handed_ok els data x (s\<lparr>sem_over := v_sem_over\<rparr>) = handed_ok els data x s"
  "handed_ok els data x (s\<lparr>d_error := v_d_error\<rparr>) = handed_ok els data x s"
  "handed_ok els data x (s\<lparr>s_run := v_s_run\<rparr>) = handed_ok els data x s"
  by (simp_all add: handed_ok_def)

text \<open>What a turn of the source does to its counters, without the wrap-around that does not occur.\<close>

lemma source_turn_counters:
  assumes "lens_ok els data" "source_ok els data s" "s_elem s < length els" "n = source_len els s"
  shows "0 < n" "n \<le> UPG_BUF_SIZE" "elemread s + n \<le> img_len (els ! s_elem s)" "totalread s + n \<le> start_of els (length els)"
    "elemread s + n < img_len (els ! s_elem s) \<Longrightarrow> source_turn els n s =
      s\<lparr>t_elem := s_elem s, t_buf := memcpy_at 0 (take n (stream s)) (t_buf s), stream := drop n (stream s), t_size := n,
        totalread := totalread s + n, sem_source := sem_source s + 1, elemread := elemread s + n,
        perread := min UPG_BUF_SIZE (img_len (els ! s_elem s) - (elemread s + n))\<rparr> \<and> UPG_BUF_SIZE \<le> img_len (els ! s_elem s)"
    "elemread s + n = img_len (els ! s_elem s) \<Longrightarrow> source_turn els n s =
      s\<lparr>t_elem := s_elem s, t_buf := memcpy_at 0 (take n (stream s)) (t_buf s), stream := drop n (stream s), t_size := n,
        totalread := totalread s + n, sem_source := sem_source s + 1, s_elem := s_elem s + 1, elemread := 0, perread := UPG_BUF_SIZE\<rparr>"
proof -
  let ?len = "img_len (els ! s_elem s)"
  have so: "totalread s = start_of els (s_elem s) + elemread s" "elemread s < ?len" "n = min UPG_BUF_SIZE (?len - elemread s)"
    using assms(2-4) by (auto simp: source_ok_def)
  show n: "0 < n" "n \<le> UPG_BUF_SIZE" "elemread s + n \<le> ?len" using so UPG_BUF_SIZE_pos by auto
  have fin: "start_of els (s_elem s) + ?len \<le> start_of els (length els)" using image_end[OF assms(3,3)] .
  then show tr: "totalread s + n \<le> start_of els (length els)" using so(1) n(3) by simp
  have small: "start_of els (length els) < 2 ^ 32" using assms(1) by (simp add: lens_ok_def)
  have u: "u32 (elemread s + n) = elemread s + n" "u32 (totalread s + n) = totalread s + n"
    using n(3) fin tr small by (simp_all add: u32_def)
  have "int ?len - int (elemread s + n) = int (?len - (elemread s + n))" using n(3) by simp
  moreover have "int (?len - (elemread s + n)) mod 2 ^ 32 = int (?len - (elemread s + n))" using fin small by simp
  ultimately have rest: "nat ((int ?len - int (elemread s + n)) mod 2 ^ 32) = ?len - (elemread s + n)" by (simp only: nat_int)
  have pr: "(if ?len - (elemread s + n) < UPG_BUF_SIZE then ?len - (elemread s + n) else n) = min UPG_BUF_SIZE (?len - (elemread s + n))"
    using so(3) by auto
  have big: "UPG_BUF_SIZE \<le> ?len" if "elemread s + n < ?len"
  proof (rule ccontr)
    assume "\<not> UPG_BUF_SIZE \<le> ?len"
    then have "n = ?len" using assms(4) by (simp add: source_len_def)
    with that show False by simp
  qed
  show "source_turn els n s =
      s\<lparr>t_elem := s_elem s, t_buf := memcpy_at 0 (take n (stream s)) (t_buf s), stream := drop n (stream s), t_size := n,
        totalread := totalread s + n, sem_source := sem_source s + 1, elemread := elemread s + n,
        perread := min UPG_BUF_SIZE (?len - (elemread s + n))\<rparr> \<and> UPG_BUF_SIZE \<le> ?len" if "elemread s + n < ?len"
    using that big UPG_BUF_SIZE_pos(1) unfolding source_turn_def Let_def u rest pr by simp
  show "source_turn els n s =
      s\<lparr>t_elem := s_elem s, t_buf := memcpy_at 0 (take n (stream s)) (t_buf s), stream := drop n (stream s), t_size := n,
        totalread := totalread s + n, sem_source := sem_source s + 1, s_elem := s_elem s + 1, elemread := 0, perread := UPG_BUF_SIZE\<rparr>"
    if "elemread s + n = ?len"
    using that unfolding source_turn_def Let_def u rest pr by simp
qed

lemma source_turn_ok:
  assumes "lens_ok els data" "source_ok els data s" "s_elem s < length els" "n = source_len els s"
    and "s' = source_turn els n s"
  shows "source_ok els data s'" "handed_ok els data (totalread s) s'" "sem_source s' = sem_source s + 1"
    "writer s' = writer s" "w_run s' = w_run s" "w_check s' = w_check s" "sem_writer s' = sem_writer s" "d_error s' = d_error s"
    "t_total s' = t_total s" "s_run s' = s_run s" "sem_over s' = sem_over s"
proof -
  let ?len = "img_len (els ! s_elem s)"
  note c = source_turn_counters[OF assms(1-4)]
  have so: "totalread s = start_of els (s_elem s) + elemread s" "stream s = drop (totalread s) data" "length (t_buf s) = UPG_BUF_SIZE"
    using assms(2) by (auto simp: source_ok_def)
  have "start_of els (length els) \<le> length data" using assms(1) by (simp add: lens_ok_def)
  with c(4) have "n \<le> length data - totalread s" by linarith
  then have st: "n \<le> length (stream s)" using so(2) by simp
  have buf: "length (memcpy_at 0 (take n (stream s)) (t_buf s)) = UPG_BUF_SIZE"
    "take n (memcpy_at 0 (take n (stream s)) (t_buf s)) = take n (drop (totalread s) data)"
    using st c(2) so(2,3) by (simp_all add: memcpy_at_def)
  have str: "drop n (stream s) = drop (totalread s + n) data" using so(2) by (simp add: add.commute)
  have pos: "0 < img_len (els ! Suc (s_elem s))" if "Suc (s_elem s) < length els" using assms(1) that by (simp add: lens_ok_def)
  consider (more) "elemread s + n < ?len" | (over) "elemread s + n = ?len" using c(3) by linarith
  then have "source_ok els data s' \<and> handed_ok els data (totalread s) s' \<and> sem_source s' = sem_source s + 1 \<and>
    writer s' = writer s \<and> w_run s' = w_run s \<and> w_check s' = w_check s \<and> sem_writer s' = sem_writer s \<and> d_error s' = d_error s \<and>
    t_total s' = t_total s \<and> s_run s' = s_run s \<and> sem_over s' = sem_over s"
  proof cases
    case more
    have s': "s' = s\<lparr>t_elem := s_elem s, t_buf := memcpy_at 0 (take n (stream s)) (t_buf s), stream := drop n (stream s), t_size := n,
        totalread := totalread s + n, sem_source := sem_source s + 1, elemread := elemread s + n,
        perread := min UPG_BUF_SIZE (?len - (elemread s + n))\<rparr>" "UPG_BUF_SIZE \<le> ?len"
      using c(5)[OF more] assms(5) by simp_all
    have "source_ok els data s'"
      using s' buf(1) str so(1) assms(3) more by (simp add: source_ok_def source_len_def)
    moreover have "handed_ok els data (totalread s) s'"
      using s' buf(2) so(1) assms(3) c(1-3) by (simp add: handed_ok_def)
    ultimately show ?thesis using s' by simp
  next
    case over
    have s': "s' = s\<lparr>t_elem := s_elem s, t_buf := memcpy_at 0 (take n (stream s)) (t_buf s), stream := drop n (stream s), t_size := n,
        totalread := totalread s + n, sem_source := sem_source s + 1, s_elem := s_elem s + 1, elemread := 0, perread := UPG_BUF_SIZE\<rparr>"
      using c(6)[OF over] assms(5) by simp
    have "source_ok els data s'"
      using s' buf(1) str so(1) assms(3) over pos by (simp add: source_ok_def source_len_def start_of_Suc)
    moreover have "handed_ok els data (totalread s) s'"
      using s' buf(2) so(1) assms(3) c(1-3) by (simp add: handed_ok_def)
    ultimately show ?thesis using s' by simp
  qed
  then show "source_ok els data s'" "handed_ok els data (totalread s) s'" "sem_source s' = sem_source s + 1"
    "writer s' = writer s" "w_run s' = w_run s" "w_check s' = w_check s" "sem_writer s' = sem_writer s" "d_error s' = d_error s"
    "t_total s' = t_total s" "s_run s' = s_run s" "sem_over s' = sem_over s"
    by blast+
qed

subsection \<open>The two threads\<close>

definition sys_ok :: "upg_elem list \<Rightarrow> (nat \<Rightarrow> 'k target) \<Rightarrow> partinfo list \<Rightarrow> u8 list \<Rightarrow> 'k upg_st \<Rightarrow> bool" where
  "sys_ok els ts ps data s \<longleftrightarrow> images_ok els ts data (writer s) \<and> t_total s = start_of els (length els) \<and>
     totalwrite (writer s) \<le> t_total s \<and> (w_run s \<longrightarrow> writer_ok els ts ps data (writer s)) \<and>
     (d_error s = ALISLUPG_ERR_NONE \<longrightarrow> source_ok els data s \<and>
        (sem_writer s = 1 \<and> sem_source s = 0 \<and> totalread s = totalwrite (writer s) \<or>
         sem_writer s = 0 \<and> sem_source s = 1 \<and> handed_ok els data (totalwrite (writer s)) s))"

lemma handed_fits:
  assumes "handed_ok els data x s"
  shows "x + t_size s \<le> start_of els (length els)"
  using assms image_end[of "t_elem s" "length els" els] by (simp add: handed_ok_def)

lemma writter_turn_result:
  assumes "upg_plan_ok e els ts ps" "lens_ok els data" "sys_ok els ts ps data s" "w_run s" "0 < sem_source s" "d_error s = ALISLUPG_ERR_NONE"
    and "writter_turn e m scale (t_elem s) (els ! t_elem s) (t_buf s) (t_size s) (t_total s) (writer s) = Some (err, buf, w)"
  shows "err = ALISLUPG_ERR_NONE \<and> buf = t_buf s \<and> writer_ok els ts ps data w \<and> totalwrite w = totalread s \<and>
    write_percent (totalread s) (t_total s) = Some (d_percent w)"
proof -
  have w: "writer_ok els ts ps data (writer s)" "length (t_buf s) = UPG_BUF_SIZE" and h: "handed_ok els data (totalwrite (writer s)) s"
    using assms(3-6) by (auto simp: sys_ok_def source_ok_def)
  note hd = h[unfolded handed_ok_def] and fits = handed_fits[OF h]
  have l: "start_of els (length els) \<le> length data" "start_of els (length els) < 2 ^ 32" using assms(2) by (auto simp: lens_ok_def)
  then have small: "totalwrite (writer s) + t_size s < 2 ^ 32" using fits by linarith
  have "\<exists>w'. (if elem_old (writer s) \<noteq> Some (t_elem s) then new_elem e m (t_elem s) (els ! t_elem s) (t_buf s) (t_size s) (writer s)
      else Some (ALISLUPG_ERR_NONE, t_buf s, writer s)) = Some (ALISLUPG_ERR_NONE, t_buf s, w') \<and> totalwrite w' = totalwrite (writer s)"
    using turn_opens[OF assms(1) w(1), of "t_elem s" m "t_buf s" "t_size s"] hd by auto
  then obtain w' where "(if elem_old (writer s) \<noteq> Some (t_elem s) then new_elem e m (t_elem s) (els ! t_elem s) (t_buf s) (t_size s) (writer s)
      else Some (ALISLUPG_ERR_NONE, t_buf s, writer s)) = Some (ALISLUPG_ERR_NONE, t_buf s, w')" "totalwrite w' = totalwrite (writer s)"
    by blast
  then obtain p where p: "write_percent (totalwrite (writer s) + t_size s) (t_total s) = Some p"
    using assms(7) small by (auto simp: writter_turn_def u32_def Let_def split: bind_splits)
  from writter_turn_ok[OF assms(1) w(1) _ _ _ _ _ _ l(1) small p, of "t_elem s" "t_buf s" m scale] show ?thesis
    using hd w(2) assms(7) p by auto
qed

lemma wstep_sys_ok:
  assumes "upg_plan_ok e els ts ps" "lens_ok els data" "sys_ok els ts ps data s" "wstep e scale els s s'"
  shows "sys_ok els ts ps data s'"
  using assms(4)
proof cases
  case (writer_write m buf w)
  note r = writter_turn_result[OF assms(1-3) writer_write(2,4,5,7)]
  have so: "source_ok els data s" and h: "handed_ok els data (totalwrite (writer s)) s" "sem_writer s = 0" "sem_source s = 1"
    using assms(3) writer_write by (auto simp: sys_ok_def)
  have "totalread s \<le> t_total s" using handed_fits[OF h(1)] h(1) assms(3) by (simp add: handed_ok_def sys_ok_def)
  moreover have "images_ok els ts data w" using r by (simp add: writer_ok_def)
  moreover have "s' = s\<lparr>sem_source := 0, writer := w, sem_writer := 1, w_check := True\<rparr>"
    using writer_write(1) r h(2,3) by simp
  ultimately show ?thesis
    using r so assms(3) by (simp add: sys_ok_def)
next
  case writer_next
  then show ?thesis using assms(3) by (simp add: sys_ok_def)
next
  case (writer_done w)
  then show ?thesis
    using assms(3) writter_end_ok[OF writer_done(5)] images_ok_state[of w "writer s" els ts data]
    by (simp add: sys_ok_def)
next
  case (writer_fail m err buf w w')
  then show ?thesis using writter_turn_result[OF assms(1-3) writer_fail(2,4,5,7)] by simp
next
  case (writer_stop w')
  then show ?thesis
    using assms(3) writter_end_ok[OF writer_stop(6)] images_ok_state[of w' "writer s" els ts data] by (simp add: sys_ok_def)
qed

lemma ustep_sys_ok:
  assumes "upg_plan_ok e els ts ps" "lens_ok els data" "sys_ok els ts ps data s" "ustep e scale els s s'"
  shows "sys_ok els ts ps data s'"
  using assms(4)
proof cases
  case source_end
  then show ?thesis using assms(3) by (simp add: sys_ok_def)
next
  case source_quit
  then show ?thesis using assms(3) by (simp add: sys_ok_def)
next
  case (source_fill n)
  let ?s = "s\<lparr>sem_writer := sem_writer s - 1\<rparr>"
  have "source_ok els data ?s" "s_elem ?s < length els" "n = source_len els ?s"
    using assms(3) source_fill by (auto simp: sys_ok_def source_ok_def source_more_def)
  note st = source_turn_ok[OF assms(2) this source_fill(1)]
  show ?thesis using st assms(3) source_fill by (auto simp: sys_ok_def)
next
  case source_fail
  then show ?thesis using assms(3) by (simp add: sys_ok_def)
next
  case writer
  then show ?thesis by (rule wstep_sys_ok[OF assms(1-3)])
next
  case abort
  then show ?thesis using assms(3) by (simp add: sys_ok_def)
qed

lemma plan_lens:
  assumes "upg_plan_ok e els ts ps" "start_of els (length els) \<le> length data" "start_of els (length els) < 2 ^ 32"
  shows "lens_ok els data"
  using assms by (simp add: lens_ok_def upg_plan_ok_def target_ok_def)

lemma init_sys_ok:
  assumes "upg_plan_ok e els ts ps" "lib_start els ts ps lib" "lens_ok els data"
  shows "sys_ok els ts ps data (upg_init lib (start_of els (length els)) data)"
proof -
  let ?s = "upg_init lib (start_of els (length els)) data"
  have "writer_ok els ts ps data (writer ?s)"
    using assms(2) by (auto simp: writer_ok_def images_ok_def parts_ok_def lib_start_def upg_init_def)
  moreover have "source_ok els data ?s"
    using assms(3) by (auto simp: source_ok_def upg_init_def source_len_def lens_ok_def)
  ultimately show ?thesis by (simp add: sys_ok_def writer_ok_def) (simp add: upg_init_def)
qed

lemma reach_sys_ok:
  assumes "upg_plan_ok e els ts ps" "lens_ok els data" "sys_ok els ts ps data s0" "(ustep e scale els)\<^sup>*\<^sup>* s0 s"
  shows "sys_ok els ts ps data s"
  using assms(4,3) by (induction rule: rtranclp_induct) (auto intro: ustep_sys_ok[OF assms(1,2)])

subsection \<open>Progress\<close>

text \<open>
  With images of whole 128-byte units the progress reaches 100 exactly at the end: a
  remainder of fewer than 100 bytes, which would count as finished too early, cannot occur.
\<close>

definition aligned :: "upg_elem list \<Rightarrow> bool" where
  "aligned els \<longleftrightarrow> els \<noteq> [] \<and> (\<forall>j<length els. 128 dvd img_len (els ! j))"

lemma start_of_aligned: "aligned els \<Longrightarrow> 128 dvd start_of els j"
proof (induction j)
  case (Suc j)
  then show ?case
    by (cases "j < length els") (simp_all add: start_of_Suc aligned_def, simp add: start_of_def)
qed simp

lemma aligned_percent:
  assumes "128 dvd x" "128 dvd tot" "x \<le> tot" "0 < tot"
  shows "\<exists>p. write_percent x tot = Some p \<and> (p = 100 \<longleftrightarrow> x = tot)"
proof (cases "x = tot")
  case False
  have le: "x + 128 \<le> tot"
  proof -
    have "128 dvd tot - x" using assms(1,2) by (rule dvd_diff_nat[rotated])
    with dvd_imp_le[OF this] assms(3) False show ?thesis by simp
  qed
  let ?q = "tot div 100"
  have "x div ?q \<noteq> 100"
  proof
    assume "x div ?q = 100"
    then have "100 * ?q \<le> x" by (metis div_times_less_eq_dividend)
    moreover have "tot = 100 * ?q + tot mod 100" "tot mod 100 < 100" by simp_all
    ultimately show False using le by linarith
  qed
  moreover have "?q \<noteq> 0" using le by simp
  ultimately show ?thesis using False assms(3) by (simp add: write_percent_def)
qed (simp add: write_percent_def)

definition prog_ok :: "upg_elem list \<Rightarrow> 'k upg_st \<Rightarrow> bool" where
  "prog_ok els s \<longleftrightarrow> (d_error s = ALISLUPG_ERR_NONE \<longrightarrow>
     128 dvd totalwrite (writer s) \<and> 128 dvd totalread s \<and> (s_run s \<or> totalread s = t_total s) \<and>
     (if w_run s
      then sem_over s = 0 \<and> (if w_check s then write_percent (totalwrite (writer s)) (t_total s) = Some (d_percent (writer s))
                              else totalwrite (writer s) < t_total s)
      else sem_over s = 1 \<and> totalwrite (writer s) = t_total s))"

lemma source_end_complete:
  assumes "source_ok els data s" "\<not> source_more els s" "s_run s" "t_total s = start_of els (length els)" "totalread s \<le> t_total s"
  shows "totalread s = t_total s"
  using assms by (auto simp: source_more_def source_ok_def)

lemma source_in_range:
  assumes "sys_ok els ts ps data s" "d_error s = ALISLUPG_ERR_NONE"
  shows "totalread s \<le> t_total s"
  using assms handed_fits[of els data "totalwrite (writer s)" s] by (auto simp: sys_ok_def handed_ok_def)

lemma total_aligned:
  assumes "aligned els" "lens_ok els data"
  shows "128 dvd start_of els (length els)" "0 < start_of els (length els)"
proof -
  have "0 < length els" "0 < img_len (els ! 0)" using assms by (auto simp: aligned_def lens_ok_def)
  then show "0 < start_of els (length els)" using image_end[of 0 "length els" els] by simp
qed (rule start_of_aligned[OF assms(1)])

lemma wstep_prog_ok:
  assumes "upg_plan_ok e els ts ps" "lens_ok els data" "aligned els" "sys_ok els ts ps data s" "prog_ok els s" "wstep e scale els s s'"
  shows "prog_ok els s'"
proof -
  have tot: "128 dvd t_total s" "0 < t_total s" "totalwrite (writer s) \<le> t_total s"
    using total_aligned[OF assms(3,2)] assms(4) by (simp_all add: sys_ok_def)
  have pc: "d_percent (writer s) = 100 \<longleftrightarrow> totalwrite (writer s) = t_total s"
    if "w_run s" "w_check s" "d_error s = ALISLUPG_ERR_NONE"
    using aligned_percent[OF _ tot(1,3,2)] assms(5) that by (auto simp: prog_ok_def)
  show ?thesis
    using assms(6)
  proof cases
    case (writer_write m buf w)
    note r = writter_turn_result[OF assms(1,2,4) writer_write(2,4,5,7)]
    then show ?thesis using writer_write assms(5) by (simp add: prog_ok_def)
  next
    case writer_next
    then show ?thesis using pc assms(5) tot(3) by (simp add: prog_ok_def)
  next
    case (writer_done w)
    then show ?thesis using pc assms(5) writter_end_ok[OF writer_done(5)] by (auto simp: prog_ok_def)
  next
    case (writer_fail m err buf w w')
    then show ?thesis using writter_turn_result[OF assms(1,2,4) writer_fail(2,4,5,7)] by simp
  qed (use assms(5) in \<open>simp_all add: prog_ok_def\<close>)
qed

lemma ustep_prog_ok:
  assumes "upg_plan_ok e els ts ps" "lens_ok els data" "aligned els" "sys_ok els ts ps data s" "prog_ok els s" "ustep e scale els s s'"
  shows "prog_ok els s'"
proof -
  have tot: "128 dvd t_total s" "0 < t_total s" "totalwrite (writer s) \<le> t_total s"
    using total_aligned[OF assms(3,2)] assms(4) by (simp_all add: sys_ok_def)
  have pc: "d_percent (writer s) = 100 \<longleftrightarrow> totalwrite (writer s) = t_total s"
    if "w_run s" "w_check s" "d_error s = ALISLUPG_ERR_NONE"
    using aligned_percent[OF _ tot(1,3,2)] assms(5) that by (auto simp: prog_ok_def)
  show ?thesis
    using assms(6)
  proof cases
    case source_end
    then have "d_error s = ALISLUPG_ERR_NONE \<Longrightarrow> totalread s = t_total s"
      using source_end_complete[of els data s] source_in_range[OF assms(4)] assms(4) by (auto simp: sys_ok_def)
    then show ?thesis using source_end assms(5) by (auto simp: prog_ok_def)
  next
    case (source_fill n)
    let ?s = "s\<lparr>sem_writer := sem_writer s - 1\<rparr>"
    have so: "source_ok els data ?s" "s_elem ?s < length els" "n = source_len els ?s"
      using assms(4) source_fill by (auto simp: sys_ok_def source_ok_def source_more_def)
    note st = source_turn_ok[OF assms(2) so source_fill(1)]
    have al: "128 dvd img_len (els ! s_elem s)" "128 dvd start_of els (s_elem s)" "128 dvd totalread s"
      using assms(3,5) so(2) source_fill(4) start_of_aligned by (auto simp: aligned_def prog_ok_def)
    moreover have "totalread s = start_of els (s_elem s) + elemread s" using so(1) by (simp add: source_ok_def)
    ultimately have "128 dvd elemread s" by (metis dvd_add_right_iff)
    then have "128 dvd img_len (els ! s_elem s) - elemread s" using al(1) by simp
    then have "128 dvd n" using so UPG_BUF_SIZE_pos(2) by (auto simp: source_ok_def min_def)
    moreover have "totalread s' = totalread s + n" 
      using st(2) source_fill(1) by (simp add: handed_ok_def source_turn_def Let_def split: if_splits)
    moreover have "s_run s" using source_fill by (simp add: source_more_def)
    ultimately show ?thesis using st source_fill(4) assms(5) al(3) by (simp add: prog_ok_def)
  next
    case writer
    then show ?thesis by (rule wstep_prog_ok[OF assms(1-5)])
  qed (use assms(5) in \<open>simp_all add: prog_ok_def\<close>)
qed

lemma elem_at:
  assumes "0 < x" "x \<le> start_of els n" "n \<le> length els"
  shows "\<exists>j<n. start_of els j < x \<and> x \<le> start_of els j + img_len (els ! j)"
  using assms
proof (induction n)
  case (Suc n)
  show ?case
  proof (cases "x \<le> start_of els n")
    case True
    with Suc obtain j where "j < n" "start_of els j < x" "x \<le> start_of els j + img_len (els ! j)" by auto
    then show ?thesis by (intro exI[of _ j]) simp
  next
    case False
    with Suc.prems show ?thesis by (intro exI[of _ n]) (simp add: start_of_Suc)
  qed
qed simp

lemma writter_end_total:
  assumes "writer_ok els ts ps data w" "totalwrite w \<le> start_of els (length els)"
  shows "\<exists>w'. writter_end w = Some w'"
proof (cases "totalwrite w = 0")
  case True
  then show ?thesis using assms(1) by (simp add: writer_ok_def writter_end_def alislsto_mtd_close_def)
next
  case False
  with elem_at[of "totalwrite w" els "length els"] assms obtain j where "cur_ok els ts j w"
    by (auto simp: writer_ok_def)
  then show ?thesis
    by (auto simp: cur_ok_def open_at_def writter_end_def alislsto_mtd_close_def release_dev_def Let_def split: option.splits)
qed

text \<open>What is left to do; every step without an error makes it smaller.\<close>

definition work :: "upg_elem list \<Rightarrow> 'k upg_st \<Rightarrow> nat" where
  "work els s = 3 * (start_of els (length els) - totalwrite (writer s)) + sem_writer s + (if w_check s then 1 else 0) + (if s_run s then 1 else 0)"

lemma wstep_work:
  assumes "upg_plan_ok e els ts ps" "lens_ok els data" "sys_ok els ts ps data s" "wstep e scale els s s'" "d_error s' = ALISLUPG_ERR_NONE"
  shows "work els s' < work els s"
  using assms(4)
proof cases
  case (writer_write m buf w)
  note r = writter_turn_result[OF assms(1-3) writer_write(2,4,5,7)]
  have h: "handed_ok els data (totalwrite (writer s)) s" "sem_writer s = 0"
    using assms(3) writer_write by (auto simp: sys_ok_def)
  then have "totalwrite (writer s) < totalread s" "totalread s \<le> start_of els (length els)"
    using handed_fits[OF h(1)] by (auto simp: handed_ok_def)
  then show ?thesis using r h(2) writer_write(1,3) by (simp add: work_def)
next
  case (writer_done w)
  then show ?thesis using writter_end_ok[OF writer_done(5)] by (simp add: work_def)
next
  case (writer_fail m err buf w w')
  then show ?thesis using writter_turn_result[OF assms(1-3) writer_fail(2,4,5,7)] by simp
qed (use assms(5) in \<open>simp_all add: work_def\<close>)

lemma ustep_work:
  assumes "upg_plan_ok e els ts ps" "lens_ok els data" "sys_ok els ts ps data s" "ustep e scale els s s'" "d_error s' = ALISLUPG_ERR_NONE"
  shows "work els s' < work els s"
  using assms(4)
proof cases
  case (source_fill n)
  let ?s = "s\<lparr>sem_writer := sem_writer s - 1\<rparr>"
  have so: "source_ok els data ?s" "s_elem ?s < length els" "n = source_len els ?s"
    using assms(3) source_fill by (auto simp: sys_ok_def source_ok_def source_more_def)
  show ?thesis using source_turn_ok[OF assms(2) so source_fill(1)] source_fill(3) by (simp add: work_def)
next
  case writer
  then show ?thesis using wstep_work[OF assms(1-3) _ assms(5)] by blast
qed (use assms(5) in \<open>simp_all add: work_def\<close>)

text \<open>As long as the writer runs without an error, one of the two threads can go on.\<close>

lemma ustep_enabled:
  assumes "upg_plan_ok e els ts ps" "lens_ok els data" "aligned els" "sys_ok els ts ps data s" "prog_ok els s"
    and "d_error s = ALISLUPG_ERR_NONE" "w_run s"
  shows "\<exists>s'. ustep e scale els s s' \<and> d_error s' = ALISLUPG_ERR_NONE"
proof -
  let ?w = "writer s"
  have tot: "128 dvd t_total s" "0 < t_total s" "totalwrite ?w \<le> t_total s" "t_total s = start_of els (length els)"
    using total_aligned[OF assms(3,2)] assms(4) by (simp_all add: sys_ok_def)
  have wo: "writer_ok els ts ps data ?w" and so: "source_ok els data s" using assms(4,6,7) by (simp_all add: sys_ok_def)
  consider (check) "w_check s" | (handed) "\<not> w_check s" "sem_source s = 1" "handed_ok els data (totalwrite ?w) s"
    | (idle) "\<not> w_check s" "sem_writer s = 1" "totalread s = totalwrite ?w"
    using assms(4,6) by (auto simp: sys_ok_def)
  then show ?thesis
  proof cases
    case check
    obtain w where "writter_end ?w = Some w" using writter_end_total[OF wo] tot(3,4) by auto
    with check assms(6,7) show ?thesis
      using wstep.writer_next[of s e scale els] wstep.writer_done[of s w e scale els] by (cases "d_percent ?w = 100") (auto dest: ustep.writer)
  next
    case handed
    note hd = handed(3)[unfolded handed_ok_def] and fits = handed_fits[OF handed(3)]
    have l: "start_of els (length els) \<le> length data" "start_of els (length els) < 2 ^ 32" using assms(2) by (auto simp: lens_ok_def)
    have "128 dvd totalwrite ?w + t_size s" using assms(5,6) hd by (simp add: prog_ok_def)
    with aligned_percent[OF this tot(1) _ tot(2)] fits tot(4) obtain p
      where p: "write_percent (totalwrite ?w + t_size s) (t_total s) = Some p" by auto
    have "totalwrite ?w + t_size s < 2 ^ 32" using fits l by linarith
    from writter_turn_ok[OF assms(1) wo _ _ _ _ _ _ l(1) this p, of "t_elem s" "t_buf s" True scale] obtain w where
      "writter_turn e True scale (t_elem s) (els ! t_elem s) (t_buf s) (t_size s) (t_total s) ?w = Some (ALISLUPG_ERR_NONE, t_buf s, w)"
      using hd so by (auto simp: source_ok_def)
    from wstep.writer_write[OF assms(7) handed(1) _ assms(6) _ this] handed(2) hd assms(6) show ?thesis by (force dest: ustep.writer)
  next
    case idle
    then have lt: "totalread s < t_total s" using assms(5-7) by (simp add: prog_ok_def)
    then have "s_elem s < length els" "s_run s" using so assms(5,6) tot(4) by (auto simp: source_ok_def prog_ok_def split: if_splits)
    then have more: "source_more els s" using lt by (simp add: source_more_def)
    note c = source_turn_counters[OF assms(2) so \<open>s_elem s < length els\<close> refl]
    have "start_of els (length els) \<le> length data" using assms(2) by (simp add: lens_ok_def)
    with c(4) have "source_len els s \<le> length data - totalread s" by linarith
    then have "source_len els s \<le> length (stream s)" using so by (simp add: source_ok_def)
    from ustep.source_fill[OF more _ assms(6) refl this] idle(2)
    have "ustep e scale els s (source_turn els (source_len els s) (s\<lparr>sem_writer := sem_writer s - 1\<rparr>))" by simp
    moreover have "d_error (source_turn els (source_len els s) (s\<lparr>sem_writer := sem_writer s - 1\<rparr>)) = ALISLUPG_ERR_NONE"
      using assms(6) by (simp add: source_turn_def Let_def)
    ultimately show ?thesis by blast
  qed
qed

lemma reach_ok:
  assumes "upg_plan_ok e els ts ps" "lib_start els ts ps lib" "lens_ok els data"
    and "(ustep e scale els)\<^sup>*\<^sup>* (upg_init lib (start_of els (length els)) data) s"
  shows "sys_ok els ts ps data s" "aligned els \<Longrightarrow> prog_ok els s"
proof -
  have a: "sys_ok els ts ps data s \<and> (aligned els \<longrightarrow> prog_ok els s)"
    using assms(4)
  proof (induction rule: rtranclp_induct)
    case base
    have "aligned els \<Longrightarrow> prog_ok els (upg_init lib (start_of els (length els)) data)"
      using total_aligned[OF _ assms(3)] by (simp add: prog_ok_def upg_init_def)
    with init_sys_ok[OF assms(1-3)] show ?case by blast
  next
    case (step s s')
    with ustep_sys_ok[OF assms(1,3)] ustep_prog_ok[OF assms(1,3)] show ?case by blast
  qed
  then show "sys_ok els ts ps data s" "aligned els \<Longrightarrow> prog_ok els s" by blast+
qed

lemma can_finish:
  assumes "upg_plan_ok e els ts ps" "lens_ok els data" "aligned els" "sys_ok els ts ps data s" "prog_ok els s" "d_error s = ALISLUPG_ERR_NONE"
  shows "\<exists>s'. (ustep e scale els)\<^sup>*\<^sup>* s s' \<and> d_error s' = ALISLUPG_ERR_NONE \<and> \<not> w_run s'"
  using assms(4-6)
proof (induction "work els s" arbitrary: s rule: less_induct)
  case less
  show ?case
  proof (cases "w_run s")
    case True
    obtain s1 where s1: "ustep e scale els s s1" "d_error s1 = ALISLUPG_ERR_NONE"
      using ustep_enabled[OF assms(1-3) less.prems True] by blast
    from less.hyps[OF ustep_work[OF assms(1,2) less.prems(1) s1] ustep_sys_ok[OF assms(1,2) less.prems(1) s1(1)]
        ustep_prog_ok[OF assms(1-3) less.prems(1,2) s1(1)] s1(2)] s1(1)
    show ?thesis by (meson converse_rtranclp_into_rtranclp)
  qed (use less.prems in blast)
qed

lemma run_exists:
  assumes "upg_plan_ok e els ts ps" "lib_start els ts ps lib" "aligned els"
    and "start_of els (length els) \<le> length data" "start_of els (length els) < 2 ^ 32"
  shows "\<exists>s. (ustep e scale els)\<^sup>*\<^sup>* (upg_init lib (start_of els (length els)) data) s \<and> d_error s = ALISLUPG_ERR_NONE \<and> \<not> w_run s"
proof -
  let ?s = "upg_init lib (start_of els (length els)) data"
  note l = plan_lens[OF assms(1,4,5)]
  note r = reach_ok[OF assms(1,2) l rtranclp.rtrancl_refl]
  have "d_error ?s = ALISLUPG_ERR_NONE" by (simp add: upg_init_def)
  from can_finish[OF assms(1) l assms(3) r(1) r(2)[OF assms(3)] this] show ?thesis .
qed

subsection \<open>A small upgrade\<close>

text \<open>
  Two images of one unit each for the partitions \<open>kernel\<close> and \<open>rootfs\<close>; the second block of
  every device is bad.
\<close>

definition unit_info :: mtd_info where
  "unit_info = \<lparr>info_type = MTD_NANDFLASH, info_size = 512, info_erasesize = 128, info_writesize = 128\<rparr>"

definition unit_drv :: "flash mtd_driver" where
  "unit_drv = sim_drv\<lparr>memgetinfo := \<lambda>k. (0, unit_info),
     memgetbadblock := \<lambda>k a. if a < 0 \<or> 512 \<le> a then -1 else if fl_bad k (a div 128) then 1 else 0\<rparr>"

definition unit_env :: "flash sto_env" where
  "unit_env = (demo_env None)\<lparr>env_drv := \<lambda>m. unit_drv\<rparr>"

definition unit_parts :: "partinfo list" where
  "unit_parts = [\<lparr>part_name = ''boot'', part_index = 0, part_size = 512\<rparr>, \<lparr>part_name = ''kernel'', part_index = 1, part_size = 512\<rparr>,
     \<lparr>part_name = ''rootfs'', part_index = 2, part_size = 512\<rparr>]"

definition unit_elems :: "upg_elem list" where
  "unit_elems = [\<lparr>elem_name = ''kernel'', img_size = 128, img_offset = 0\<rparr>, \<lparr>elem_name = ''rootfs'', img_size = 128, img_offset = 128\<rparr>]"

definition unit_targets :: "nat \<Rightarrow> flash target" where
  "unit_targets j = \<lparr>tg_part = Suc j, tg_ab = (\<lambda>k. k), tg_info = unit_info, tg_bad = (\<lambda>b. b = 1)\<rparr>"

definition unit_lib :: "flash sto_lib" where
  "unit_lib = demo_lib unit_parts [None, None, None]"

definition unit_data :: "u8 list" where
  "unit_data = replicate 128 1 @ replicate 128 2"

lemma unit_laws: "mtd_laws unit_drv (\<lambda>k. k) unit_info"
  by (simp add: mtd_laws_def driver_laws sim_drv_def unit_drv_def unit_info_def)

lemma unit_start: "start_of unit_elems 0 = 0" "start_of unit_elems (Suc 0) = 128" "start_of unit_elems 2 = 256" "length unit_elems = 2"
  by (simp_all add: start_of_def unit_elems_def img_len_def)

lemma unit_room: "128 \<le> length (live_from unit_info (\<lambda>b. b = 1) 0)"
  using live_from_good[of unit_info 0 "\<lambda>b. b = 1" 128] by (simp add: unit_info_def info_ok_def live_def)

lemma unit_target:
  assumes "j < 2"
  shows "target_ok unit_env (\<lambda>k. k) unit_info (\<lambda>b. b = 1) unit_parts (unit_elems ! j) (Suc j)"
proof -
  have "j = 0 \<or> j = 1" using assms by auto
  moreover have "unit_ok unit_info 128" "info_ok unit_info" "erase_never_fails unit_drv (\<lambda>k. k) unit_info zero_dev"
    "info_size unit_info = 512" "info_erasesize unit_info = 128"
    by (simp_all add: unit_ok_def info_ok_def erase_never_fails_def erase_unit_def unit_info_def unit_drv_def sim_drv_def zero_dev_def
        STO_ERASE_TYPE_SECTOR_def)
  moreover have "memgetinfo unit_drv k = (0, unit_info)" for k by (simp add: unit_drv_def)
  ultimately show ?thesis
    using unit_laws unit_room
    by (auto simp: target_ok_def unit_env_def demo_env_def unit_parts_def unit_elems_def find_part_def img_len_def STO_INVALID_HANDLE_def)
qed

lemma unit_plan:
  "upg_plan_ok unit_env unit_elems unit_targets unit_parts" "lib_start unit_elems unit_targets unit_parts unit_lib" "aligned unit_elems"
  "start_of unit_elems (length unit_elems) \<le> length unit_data" "start_of unit_elems (length unit_elems) < 2 ^ 32"
proof -
  show "upg_plan_ok unit_env unit_elems unit_targets unit_parts"
    using unit_target by (auto simp: upg_plan_ok_def unit_start unit_targets_def inj_on_def alloc_ok_def unit_env_def demo_env_def)
  show "lib_start unit_elems unit_targets unit_parts unit_lib"
    by (auto simp: lib_start_def unit_start unit_targets_def unit_lib_def demo_lib_def sim_flash_def less_Suc_eq numeral_2_eq_2)
  show "aligned unit_elems" by (auto simp: aligned_def unit_elems_def img_len_def less_Suc_eq)
qed (simp_all add: unit_start unit_data_def)

lemma unit_run:
  "\<exists>s. (ustep unit_env 10 unit_elems)\<^sup>*\<^sup>* (upg_init unit_lib (start_of unit_elems (length unit_elems)) unit_data) s \<and>
     d_error s = ALISLUPG_ERR_NONE \<and> \<not> w_run s \<and> totalwrite (writer s) = 256"
proof -
  note l = plan_lens[OF unit_plan(1,4,5)]
  let ?s = "upg_init unit_lib (start_of unit_elems (length unit_elems)) unit_data"
  obtain s where s: "(ustep unit_env 10 unit_elems)\<^sup>*\<^sup>* ?s s" "d_error s = ALISLUPG_ERR_NONE" "\<not> w_run s"
    using run_exists[OF unit_plan] by blast
  note q = reach_ok[OF unit_plan(1,2) l s(1)]
  have "totalwrite (writer s) = 256" using q(1) q(2)[OF unit_plan(3)] s(2,3) by (simp add: prog_ok_def sys_ok_def unit_start)
  with s show ?thesis by blast
qed

lemma unit_image: "image_of unit_elems unit_data (Suc 0) = replicate 128 2" "image_of unit_elems unit_data 0 = replicate 128 1"
proof -
  have "img_len (unit_elems ! 0) = 128" "img_len (unit_elems ! Suc 0) = 128" by (simp_all add: unit_elems_def img_len_def)
  then show "image_of unit_elems unit_data (Suc 0) = replicate 128 2" "image_of unit_elems unit_data 0 = replicate 128 1"
    unfolding image_of_def unit_start unit_data_def by (simp_all del: replicate.simps)
qed

text \<open>When the writer has ended without an error, the partitions hold the whole images.\<close>

lemma finished_holds:
  assumes "upg_plan_ok e els ts ps" "lib_start els ts ps lib" "aligned els"
    and "start_of els (length els) \<le> length data" "start_of els (length els) < 2 ^ 32"
    and "(ustep e scale els)\<^sup>*\<^sup>* (upg_init lib (start_of els (length els)) data) s" "d_error s = ALISLUPG_ERR_NONE"
    and "\<not> w_run s" "j < length els"
  shows "holds (ts j) (w_lib (writer s)) (image_of els data j)"
proof -
  note r = reach_ok[OF assms(1,2) plan_lens[OF assms(1,4,5)] assms(6)]
  have "totalwrite (writer s) = start_of els (length els)" using r assms(3,7,8) by (simp add: prog_ok_def sys_ok_def)
  then have "length (image_of els data j) \<le> totalwrite (writer s) - start_of els j"
    using image_end[OF assms(9,9)] by (simp add: image_of_def)
  moreover have "holds (ts j) (w_lib (writer s)) (take (totalwrite (writer s) - start_of els j) (image_of els data j))"
    using r(1) assms(9) by (simp add: sys_ok_def images_ok_def)
  ultimately show ?thesis by simp
qed

subsection \<open>The upgrade as a whole\<close>

text \<open>
  (C6) At every moment of an upgrade, in every interleaving of the source and the writer and
  with errors and aborts at any point, the partitions hold the parts of the images
  that lie before the writer's point of the stream, at their first good addresses. The plan
  has only partitions other than \<open>boot\<close>, \<open>bootbak\<close> and \<open>sflash\<close>, and no erasure fails.
\<close>

theorem upgrade_stores_images:
  assumes "upg_plan_ok e els ts ps" and "lib_start els ts ps lib"
    and "start_of els (length els) \<le> length data" and "start_of els (length els) < 2 ^ 32"
    and "(ustep e scale els)\<^sup>*\<^sup>* (upg_init lib (start_of els (length els)) data) s" and "j < length els"
  shows "holds (ts j) (w_lib (writer s)) (take (totalwrite (writer s) - start_of els j) (image_of els data j))"
  using reach_ok(1)[OF assms(1,2) plan_lens[OF assms(1,3,4)] assms(5)] assms(6) by (simp add: sys_ok_def images_ok_def)

theorem upgrade_stores_images_witness:
  "\<exists>s. (ustep unit_env 10 unit_elems)\<^sup>*\<^sup>* (upg_init unit_lib 256 unit_data) s \<and> holds (unit_targets 1) (w_lib (writer s)) (replicate 128 2)"
proof -
  obtain s where s: "(ustep unit_env 10 unit_elems)\<^sup>*\<^sup>* (upg_init unit_lib (start_of unit_elems (length unit_elems)) unit_data) s"
    "totalwrite (writer s) = 256"
    using unit_run by blast
  have "Suc 0 < length unit_elems" by (simp add: unit_start)
  from upgrade_stores_images[OF unit_plan(1,2,4,5) s(1) this] s show ?thesis
    by (auto simp: unit_start unit_image simp del: replicate.simps)
qed

text \<open>
  (C5) An upgrade whose images are whole 128-byte units and that meets no error finishes: as
  long as the writer runs some step is possible, every step brings the end nearer, and when
  the writer has ended, and said so once, every partition holds its whole image. The plan
  has only partitions other than \<open>boot\<close>, \<open>bootbak\<close> and \<open>sflash\<close>, and no erasure fails.
\<close>

theorem upgrade_completes:
  assumes "upg_plan_ok e els ts ps" and "lib_start els ts ps lib" and "aligned els"
    and "start_of els (length els) \<le> length data" and "start_of els (length els) < 2 ^ 32"
    and "(ustep e scale els)\<^sup>*\<^sup>* (upg_init lib (start_of els (length els)) data) s" and "d_error s = ALISLUPG_ERR_NONE"
  shows "(w_run s \<longrightarrow> (\<exists>s'. ustep e scale els s s' \<and> d_error s' = ALISLUPG_ERR_NONE)) \<and>
    (\<forall>s'. ustep e scale els s s' \<and> d_error s' = ALISLUPG_ERR_NONE \<longrightarrow> work els s' < work els s) \<and>
    (\<not> w_run s \<longrightarrow> sem_over s = 1 \<and> (\<forall>j<length els. holds (ts j) (w_lib (writer s)) (image_of els data j)))"
proof -
  note l = plan_lens[OF assms(1,4,5)]
  note r = reach_ok[OF assms(1,2) l assms(6)]
  show ?thesis
    using finished_holds[OF assms] ustep_enabled[OF assms(1) l assms(3) r(1) r(2)[OF assms(3)] assms(7)] ustep_work[OF assms(1) l r(1)] r(2)[OF assms(3)] assms(7)
    by (auto simp: prog_ok_def)
qed

theorem upgrade_completes_witness:
  "\<exists>s. (ustep unit_env 10 unit_elems)\<^sup>*\<^sup>* (upg_init unit_lib 256 unit_data) s \<and> \<not> w_run s \<and> sem_over s = 1 \<and>
     holds (unit_targets 0) (w_lib (writer s)) (replicate 128 1) \<and> holds (unit_targets 1) (w_lib (writer s)) (replicate 128 2)"
proof -
  obtain s where s: "(ustep unit_env 10 unit_elems)\<^sup>*\<^sup>* (upg_init unit_lib (start_of unit_elems (length unit_elems)) unit_data) s"
    "d_error s = ALISLUPG_ERR_NONE" "\<not> w_run s"
    using unit_run by blast
  from upgrade_completes[OF unit_plan s(1,2)] s(3) have
    e: "sem_over s = 1" "\<forall>j<length unit_elems. holds (unit_targets j) (w_lib (writer s)) (image_of unit_elems unit_data j)" by blast+
  from e(2)[rule_format, of 0] e(2)[rule_format, of "Suc 0"] e(1) s show ?thesis
    by (intro exI[of _ s]) (auto simp: unit_start unit_image simp del: replicate.simps)
qed

subsection \<open>Threads that wait for ever\<close>

text \<open>
  When the writer ends with an error it does not give the buffer back: the source, if it has
  not read everything, waits for ever, although its comment says that it is safe to quit.
\<close>

lemma writer_end_strands_source:
  assumes "(ustep e scale els)\<^sup>*\<^sup>* s s'" "\<not> w_run s" "source_more els s" "sem_writer s = 0"
  shows "source_more els s' \<and> sem_writer s' = 0 \<and> s_run s'"
proof -
  have "\<not> w_run s' \<and> source_more els s' \<and> sem_writer s' = 0"
    using assms(1)
  proof (induction rule: rtranclp_induct)
    case (step a b)
    then show ?case by (auto elim!: ustep.cases wstep.cases simp: source_more_def)
  qed (use assms in simp)
  then show ?thesis by (simp add: source_more_def)
qed

text \<open>
  When the error comes from outside, the source ends at its next turn without waking the
  writer: the writer waits for ever and \<open>alislupg_stop\<close> with it.
\<close>

lemma source_end_strands_writer:
  assumes "(ustep e scale els)\<^sup>*\<^sup>* s s'" "\<not> s_run s" "w_run s" "\<not> w_check s" "sem_source s = 0"
  shows "w_run s' \<and> sem_over s' = sem_over s"
proof -
  have "\<not> s_run s' \<and> w_run s' \<and> \<not> w_check s' \<and> sem_source s' = 0 \<and> sem_over s' = sem_over s"
    using assms(1)
  proof (induction rule: rtranclp_induct)
    case (step a b)
    then show ?case by (auto elim!: ustep.cases wstep.cases simp: source_more_def)
  qed (use assms in simp)
  then show ?thesis by simp
qed

lemma abort_strands_writer:
  assumes "source_more els s" "w_run s" "\<not> w_check s" "sem_writer s = 1" "sem_source s = 0"
  shows "\<exists>s'. (ustep e scale els)\<^sup>*\<^sup>* s s' \<and> (\<forall>s''. (ustep e scale els)\<^sup>*\<^sup>* s' s'' \<longrightarrow> w_run s'' \<and> sem_over s'' = sem_over s)"
proof -
  let ?a = "s\<lparr>d_error := ALISLUPG_ERR_OTHER\<rparr>"
  let ?b = "?a\<lparr>sem_writer := sem_writer ?a - 1, s_run := False\<rparr>"
  have "ustep e scale els s ?a" by (rule ustep.abort)
  moreover have "ustep e scale els ?a ?b"
    by (rule ustep.source_quit) (use assms in \<open>auto simp: source_more_def\<close>)
  ultimately have r: "(ustep e scale els)\<^sup>*\<^sup>* s ?b"
    by (rule converse_rtranclp_into_rtranclp[OF _ r_into_rtranclp])
  have b: "\<not> s_run ?b" "w_run ?b" "\<not> w_check ?b" "sem_source ?b = 0" "sem_over ?b = sem_over s" using assms by simp_all
  show ?thesis
    by (intro exI[of _ ?b] conjI r allI impI) (use source_end_strands_writer[OF _ b(1-4)] b(5) in metis)+
qed

subsection \<open>Limits of the progress counter\<close>

text \<open>A stream of fewer than 100 bytes divides by zero unless one buffer takes all of it.\<close>

lemma percent_division_by_zero: "x < tot \<Longrightarrow> tot < 100 \<Longrightarrow> write_percent x tot = None"
  by (simp add: write_percent_def)

text \<open>The progress can reach 100 before the last bytes: the writer then ends without them.\<close>

lemma percent_full_too_early:
  assumes "0 < r" "r < 100" "0 < q"
  shows "write_percent (100 * q) (100 * q + r) = Some 100"
  using assms by (simp add: write_percent_def)

end
