(* ===== verification/Upgrade_File.thy ===== *)
theory Upgrade_File
  imports Upgrade_Run
begin

section \<open>Sources that read the package by offset (\<open>usb.c\<close>, \<open>net.c\<close>)\<close>

text \<open>
  The source threads of the USB and the network plugin have the same loop: for every buffer they
  seek to the place of the element in the package and read. The reader is a parameter here, a
  relation on a state of its own with a result (\<open>None\<close>: seek or read failed); locale
  \<open>offset_reader\<close> says what it has to do. An upgrade with such a reader is an upgrade of theory
  \<open>Upgrade_Run\<close> whose stream is what follows the header, so that its results carry over.
\<close>

type_synonym 'f reader = "'f \<Rightarrow> nat \<Rightarrow> nat \<Rightarrow> u8 list option \<Rightarrow> 'f \<Rightarrow> bool"

definition elem_offset :: "upg_elem list \<Rightarrow> 'k upg_st \<Rightarrow> nat" where
  "elem_offset els s = nat ((img_offset (els ! s_elem s) + int (elemread s)) mod 2 ^ 32)"

text \<open>After \<open>bs\<close> has been read into the buffer for a request of \<open>n\<close> bytes.\<close>

definition offset_turn :: "upg_elem list \<Rightarrow> nat \<Rightarrow> u8 list \<Rightarrow> 'k upg_st \<Rightarrow> 'k upg_st" where
  "offset_turn els n bs s =
     (let len = img_len (els ! s_elem s);
          er = u32 (elemread s + n);
          pr = (if er \<le> len \<and> len - er < UPG_BUF_SIZE then len - er else n);
          s = s\<lparr>t_elem := s_elem s, t_buf := memcpy_at 0 bs (t_buf s), t_size := n,
                totalread := u32 (totalread s + n), sem_source := sem_source s + 1\<rparr>
      in if pr = 0 then s\<lparr>s_elem := s_elem s + 1, elemread := 0, perread := UPG_BUF_SIZE\<rparr>
         else s\<lparr>elemread := er, perread := pr\<rparr>)"

inductive fstep :: "'f reader \<Rightarrow> 'k sto_env \<Rightarrow> int \<Rightarrow> upg_elem list \<Rightarrow> 'f \<times> 'k upg_st \<Rightarrow> 'f \<times> 'k upg_st \<Rightarrow> bool" for rdr e scale els where
  source_end: "\<lbrakk>s_run s; \<not> source_more els s\<rbrakk> \<Longrightarrow> fstep rdr e scale els (f, s) (f, s\<lparr>s_run := False\<rparr>)"
| source_quit: "\<lbrakk>source_more els s; 0 < sem_writer s; d_error s \<noteq> ALISLUPG_ERR_NONE\<rbrakk>
    \<Longrightarrow> fstep rdr e scale els (f, s) (f, s\<lparr>sem_writer := sem_writer s - 1, s_run := False\<rparr>)"
| source_fill: "\<lbrakk>source_more els s; 0 < sem_writer s; d_error s = ALISLUPG_ERR_NONE; n = source_len els s;
      rdr f (elem_offset els s) n (Some bs) f'\<rbrakk>
    \<Longrightarrow> fstep rdr e scale els (f, s) (f', offset_turn els n bs (s\<lparr>sem_writer := sem_writer s - 1\<rparr>))"
| source_fail: "\<lbrakk>source_more els s; 0 < sem_writer s; d_error s = ALISLUPG_ERR_NONE; n = source_len els s;
      rdr f (elem_offset els s) n None f'\<rbrakk>
    \<Longrightarrow> fstep rdr e scale els (f, s) (f', s\<lparr>sem_writer := sem_writer s - 1, t_elem := s_elem s, d_error := ALISLUPG_ERR_OTHER,
          sem_source := sem_source s + 1, s_run := False\<rparr>)"
| writer: "wstep e scale els s s' \<Longrightarrow> fstep rdr e scale els (f, s) (f, s')"

inductive_cases fstep_pairE: "fstep rdr e scale els (f, s) y"

text \<open>The images of the package lie one behind the other, directly behind the header.\<close>

definition contiguous :: "upg_elem list \<Rightarrow> bool" where
  "contiguous els \<longleftrightarrow> (\<forall>j<length els. img_offset (els ! j) = int (HEADER_SIZE + start_of els j))"

definition file_ok :: "upg_elem list \<Rightarrow> u8 list \<Rightarrow> bool" where
  "file_ok els data \<longleftrightarrow> contiguous els \<and> length data = HEADER_SIZE + start_of els (length els) \<and> length data < 2 ^ 31"

text \<open>The state as one of an upgrade from a stream.\<close>

definition as_stream :: "u8 list \<Rightarrow> 'k upg_st \<Rightarrow> 'k upg_st" where
  "as_stream data s = s\<lparr>stream := drop (HEADER_SIZE + totalread s) data\<rparr>"

lemma as_stream_fields [simp]:
  "writer (as_stream data s) = writer s" "w_run (as_stream data s) = w_run s" "w_check (as_stream data s) = w_check s"
  "t_buf (as_stream data s) = t_buf s" "t_size (as_stream data s) = t_size s" "t_total (as_stream data s) = t_total s"
  "t_elem (as_stream data s) = t_elem s" "sem_writer (as_stream data s) = sem_writer s" "sem_source (as_stream data s) = sem_source s"
  "sem_over (as_stream data s) = sem_over s" "d_error (as_stream data s) = d_error s" "s_run (as_stream data s) = s_run s"
  "s_elem (as_stream data s) = s_elem s" "elemread (as_stream data s) = elemread s" "perread (as_stream data s) = perread s"
  "totalread (as_stream data s) = totalread s" "source_len els (as_stream data s) = source_len els s"
  "source_more els (as_stream data s) = source_more els s" "work els (as_stream data s) = work els s"
  by (simp_all add: as_stream_def source_len_def source_more_def work_def)

lemma as_stream_update [simp]:
  "as_stream data (s\<lparr>writer := v_writer\<rparr>) = (as_stream data s)\<lparr>writer := v_writer\<rparr>"
  "as_stream data (s\<lparr>w_run := v_w_run\<rparr>) = (as_stream data s)\<lparr>w_run := v_w_run\<rparr>"
  "as_stream data (s\<lparr>w_check := v_w_check\<rparr>) = (as_stream data s)\<lparr>w_check := v_w_check\<rparr>"
  "as_stream data (s\<lparr>t_buf := v_t_buf\<rparr>) = (as_stream data s)\<lparr>t_buf := v_t_buf\<rparr>"
  "as_stream data (s\<lparr>t_elem := v_t_elem\<rparr>) = (as_stream data s)\<lparr>t_elem := v_t_elem\<rparr>"
  "as_stream data (s\<lparr>sem_writer := v_sem_writer\<rparr>) = (as_stream data s)\<lparr>sem_writer := v_sem_writer\<rparr>"
  "as_stream data (s\<lparr>sem_source := v_sem_source\<rparr>) = (as_stream data s)\<lparr>sem_source := v_sem_source\<rparr>"
  "as_stream data (s\<lparr>sem_over := v_sem_over\<rparr>) = (as_stream data s)\<lparr>sem_over := v_sem_over\<rparr>"
  "as_stream data (s\<lparr>d_error := v_d_error\<rparr>) = (as_stream data s)\<lparr>d_error := v_d_error\<rparr>"
  "as_stream data (s\<lparr>s_run := v_s_run\<rparr>) = (as_stream data s)\<lparr>s_run := v_s_run\<rparr>"
  by (simp_all add: as_stream_def)

text \<open>The writer does not look at the stream.\<close>

lemma stream_last:
  "s\<lparr>stream := x, writer := v_writer\<rparr> = s\<lparr>writer := v_writer, stream := x\<rparr>"
  "s\<lparr>stream := x, w_run := v_w_run\<rparr> = s\<lparr>w_run := v_w_run, stream := x\<rparr>"
  "s\<lparr>stream := x, w_check := v_w_check\<rparr> = s\<lparr>w_check := v_w_check, stream := x\<rparr>"
  "s\<lparr>stream := x, t_buf := v_t_buf\<rparr> = s\<lparr>t_buf := v_t_buf, stream := x\<rparr>"
  "s\<lparr>stream := x, t_elem := v_t_elem\<rparr> = s\<lparr>t_elem := v_t_elem, stream := x\<rparr>"
  "s\<lparr>stream := x, sem_writer := v_sem_writer\<rparr> = s\<lparr>sem_writer := v_sem_writer, stream := x\<rparr>"
  "s\<lparr>stream := x, sem_source := v_sem_source\<rparr> = s\<lparr>sem_source := v_sem_source, stream := x\<rparr>"
  "s\<lparr>stream := x, sem_over := v_sem_over\<rparr> = s\<lparr>sem_over := v_sem_over, stream := x\<rparr>"
  "s\<lparr>stream := x, d_error := v_d_error\<rparr> = s\<lparr>d_error := v_d_error, stream := x\<rparr>"
  "s\<lparr>stream := x, s_run := v_s_run\<rparr> = s\<lparr>s_run := v_s_run, stream := x\<rparr>"
  by simp_all

lemma wstep_stream:
  assumes "wstep e scale els s s'"
  shows "stream s' = stream s" "totalread s' = totalread s" "wstep e scale els (s\<lparr>stream := x\<rparr>) (s'\<lparr>stream := x\<rparr>)"
proof -
  show "stream s' = stream s" "totalread s' = totalread s" using assms by (auto elim!: wstep.cases)
  show "wstep e scale els (s\<lparr>stream := x\<rparr>) (s'\<lparr>stream := x\<rparr>)"
    using assms
  proof cases
    case (writer_write m buf w)
    with wstep.writer_write[of "s\<lparr>stream := x\<rparr>" els e m scale buf w] show ?thesis by (simp add: stream_last)
  next
    case writer_next
    with wstep.writer_next[of "s\<lparr>stream := x\<rparr>" e scale els] show ?thesis by (simp add: stream_last)
  next
    case (writer_done w)
    with wstep.writer_done[of "s\<lparr>stream := x\<rparr>" w e scale els] show ?thesis by (simp add: stream_last)
  next
    case (writer_fail m err buf w w')
    with wstep.writer_fail[of "s\<lparr>stream := x\<rparr>" els e m scale err buf w w'] show ?thesis by (simp add: stream_last)
  next
    case (writer_stop w')
    with wstep.writer_stop[of "s\<lparr>stream := x\<rparr>" w' e scale els] show ?thesis by (simp add: stream_last)
  qed
qed

lemma wstep_as_stream:
  assumes "wstep e scale els s s'"
  shows "wstep e scale els (as_stream data s) (as_stream data s')"
  using wstep_stream(2,3)[OF assms] by (simp add: as_stream_def)

lemma wstep_from_stream:
  assumes "wstep e scale els (as_stream data s) s'"
  shows "\<exists>s''. wstep e scale els s s'' \<and> s' = as_stream data s''"
proof -
  have "wstep e scale els s (s'\<lparr>stream := stream s\<rparr>)" using wstep_stream(3)[OF assms, of "stream s"] by (simp add: as_stream_def)
  moreover have "s' = as_stream data (s'\<lparr>stream := stream s\<rparr>)"
    using wstep_stream(1,2)[OF assms] by (simp add: as_stream_def)
  ultimately show ?thesis by blast
qed

lemma wrapped_rest:
  assumes "a \<le> len" "len < 2 ^ 32"
  shows "nat ((int len - int a) mod 2 ^ 32) = len - a"
proof -
  have "int len - int a = int (len - a)" using assms(1) by simp
  moreover have "int (len - a) mod 2 ^ 32 = int (len - a)" using assms(2) by simp
  ultimately show ?thesis by (simp only: nat_int)
qed

text \<open>A turn of the source that got the right bytes is a turn of the source that reads the stream.\<close>

lemma offset_turn_is_source_turn:
  assumes "lens_ok els (drop HEADER_SIZE data)" "source_ok els (drop HEADER_SIZE data) (as_stream data s)" "s_elem s < length els"
    and "n = source_len els s" "bs = take n (drop (HEADER_SIZE + totalread s) data)"
  shows "as_stream data (offset_turn els n bs s) = source_turn els n (as_stream data s)"
proof -
  let ?len = "img_len (els ! s_elem s)" and ?s = "as_stream data s"
  note c = source_turn_counters[OF assms(1,2), of n]
  have c1: "0 < n" "n \<le> UPG_BUF_SIZE" "elemread s + n \<le> ?len" "totalread s + n \<le> start_of els (length els)"
    using c(1-4) assms(3,4) by simp_all
  have small: "start_of els (length els) < 2 ^ 32" using assms(1) by (simp add: lens_ok_def)
  have "start_of els (s_elem s) + ?len \<le> start_of els (length els)" using image_end[OF assms(3,3)] .
  then have u: "u32 (elemread s + n) = elemread s + n" "u32 (totalread s + n) = totalread s + n"
    using c1 small by (simp_all add: u32_def)
  have eq: "nat ((int ?len - int (elemread s + n)) mod 2 ^ 32) = ?len - (elemread s + n)"
    using \<open>start_of els (s_elem s) + ?len \<le> _\<close> small by (intro wrapped_rest c1(3)) simp
  have st: "take n (stream ?s) = bs" "drop n (stream ?s) = drop (HEADER_SIZE + (totalread s + n)) data"
    using assms(5) by (simp_all add: as_stream_def add.commute add.left_commute)
  show ?thesis
    using c1(3) st unfolding offset_turn_def source_turn_def Let_def as_stream_fields u eq
    by (simp add: as_stream_def)
qed

lemma offset_turn_totalread: "totalread (offset_turn els n bs s) = u32 (totalread s + n)"
  by (simp add: offset_turn_def Let_def)

lemma elem_offset_is:
  assumes "file_ok els data" "source_ok els (drop HEADER_SIZE data) (as_stream data s)" "s_elem s < length els"
  shows "elem_offset els s = HEADER_SIZE + totalread s"
proof -
  have t: "totalread s = start_of els (s_elem s) + elemread s" "elemread s < img_len (els ! s_elem s)"
    using assms(2,3) by (auto simp: source_ok_def)
  have "start_of els (s_elem s) + img_len (els ! s_elem s) \<le> start_of els (length els)" using image_end[OF assms(3,3)] .
  then have b: "HEADER_SIZE + totalread s < 2 ^ 31" using t assms(1) by (simp add: file_ok_def)
  have "img_offset (els ! s_elem s) + int (elemread s) = int (HEADER_SIZE + totalread s)"
    using assms(1,3) t(1) by (simp add: file_ok_def contiguous_def)
  then have "elem_offset els s = nat (int (HEADER_SIZE + totalread s) mod 2 ^ 32)" unfolding elem_offset_def by presburger
  also have "int (HEADER_SIZE + totalread s) mod 2 ^ 32 = int (HEADER_SIZE + totalread s)" using b by simp
  finally show ?thesis by (simp only: nat_int)
qed

lemma file_lens:
  assumes "upg_plan_ok e els ts ps" "file_ok els data"
  shows "lens_ok els (drop HEADER_SIZE data)"
  using plan_lens[OF assms(1), of "drop HEADER_SIZE data"] assms(2) by (simp add: file_ok_def)

text \<open>
  The total is taken from the size of the file: when the file is longer than its images, the
  source ends after the last image and the writer, not yet at 100 percent, waits for ever.
\<close>

lemma longer_file_strands_writer:
  assumes "(fstep rdr e scale els)\<^sup>*\<^sup>* (f, s) (f', s')" "s_elem s = length els" "w_run s" "\<not> w_check s" "sem_source s = 0"
  shows "w_run s' \<and> sem_over s' = sem_over s"
proof -
  have "s_elem (snd y) = length els \<and> w_run (snd y) \<and> \<not> w_check (snd y) \<and> sem_source (snd y) = 0 \<and> sem_over (snd y) = sem_over s"
    if "(fstep rdr e scale els)\<^sup>*\<^sup>* (f, s) y" for y
    using that
  proof (induction rule: rtranclp_induct)
    case (step a b)
    then show ?case by (auto elim!: fstep.cases wstep.cases simp: source_more_def)
  qed (use assms in simp)
  from this[OF assms(1)] show ?thesis by simp
qed

subsection \<open>What a reader has to do\<close>

text \<open>
  \<open>pos_ok f p\<close>: the reader can still read everything from offset \<open>p\<close> of the package \<open>data\<close> on. What
  it returns without an error has to be the bytes of the package.
\<close>

locale offset_reader =
  fixes rdr :: "'f reader"
    and data :: "u8 list"
    and pos_ok :: "'f \<Rightarrow> nat \<Rightarrow> bool"
  assumes reader_exact: "\<lbrakk>pos_ok f p; p \<le> off; 0 < n; off + n \<le> length data; rdr f off n (Some bs) f'\<rbrakk>
    \<Longrightarrow> bs = take n (drop off data) \<and> pos_ok f' (off + n)"
begin

definition in_place :: "'f \<Rightarrow> 'k upg_st \<Rightarrow> bool" where
  "in_place f s \<longleftrightarrow> (d_error s = ALISLUPG_ERR_NONE \<longrightarrow> s_run s \<longrightarrow> (\<exists>p. pos_ok f p \<and> p \<le> HEADER_SIZE + totalread s))"

lemma fill_facts:
  assumes "upg_plan_ok e els ts ps" "file_ok els data" "sys_ok els ts ps (drop HEADER_SIZE data) (as_stream data s)"
    and "source_more els s" "d_error s = ALISLUPG_ERR_NONE" "n = source_len els s"
  shows "source_ok els (drop HEADER_SIZE data) (as_stream data s)" "s_elem s < length els" "0 < n"
    "elem_offset els s = HEADER_SIZE + totalread s" "elem_offset els s + n \<le> length data"
proof -
  show so: "source_ok els (drop HEADER_SIZE data) (as_stream data s)" using assms(3,5) by (simp add: sys_ok_def)
  show j: "s_elem s < length els" using assms(4) by (simp add: source_more_def)
  show off: "elem_offset els s = HEADER_SIZE + totalread s" by (rule elem_offset_is[OF assms(2) so j])
  note c = source_turn_counters[OF file_lens[OF assms(1,2)] so, of n]
  show "0 < n" using c(1) j assms(6) by simp
  show "elem_offset els s + n \<le> length data" using c(4) j assms(2,6) off by (simp add: file_ok_def)
qed

lemma fstep_simulates:
  assumes "upg_plan_ok e els ts ps" "file_ok els data" "sys_ok els ts ps (drop HEADER_SIZE data) (as_stream data s)" "in_place f s"
    and "fstep rdr e scale els (f, s) (f', s')"
  shows "ustep e scale els (as_stream data s) (as_stream data s') \<and> in_place f' s'"
  using assms(5)
proof cases
  case source_end
  then show ?thesis using ustep.source_end[of "as_stream data s" els e scale] by (simp add: in_place_def)
next
  case source_quit
  then show ?thesis using ustep.source_quit[of els "as_stream data s" e scale] by (simp add: in_place_def)
next
  case (source_fill n bs)
  note ff = fill_facts[OF assms(1-3) source_fill(2,4,5)]
  let ?s = "s\<lparr>sem_writer := sem_writer s - 1\<rparr>"
  have "s_run s" using source_fill(2) by (simp add: source_more_def)
  then obtain p where p: "pos_ok f p" "p \<le> elem_offset els s" using assms(4) source_fill(4) ff(4) by (auto simp: in_place_def)
  note r = reader_exact[OF p ff(3,5) source_fill(6)]
  have so: "source_ok els (drop HEADER_SIZE data) (as_stream data ?s)" "s_elem ?s < length els" "n = source_len els ?s"
    using ff(1,2) source_fill(5) by simp_all
  have eq: "as_stream data s' = source_turn els n (as_stream data ?s)"
    using offset_turn_is_source_turn[OF file_lens[OF assms(1,2)] so] r ff(4) source_fill(1) by simp
  have "n \<le> length (stream (as_stream data s))" using ff(4,5) by (simp add: as_stream_def)
  then have "ustep e scale els (as_stream data s) (as_stream data s')"
    using ustep.source_fill[of els "as_stream data s" n e scale] source_fill(2-5) eq by simp
  moreover have "totalread s' = totalread s + n"
    using ff(4,5) assms(2) source_fill(1) by (simp add: offset_turn_totalread u32_def file_ok_def)
  ultimately show ?thesis using r ff(4) by (auto simp: in_place_def)
next
  case (source_fail n)
  then show ?thesis using ustep.source_fail[of els "as_stream data s" e scale] by (simp add: in_place_def)
next
  case writer
  have "in_place f s'"
    using assms(4) writer wstep_stream(2)[OF writer(2)] by (auto simp: in_place_def elim!: wstep.cases)
  then show ?thesis using ustep.writer[OF wstep_as_stream[OF writer(2)]] writer(1) by blast
qed

lemma reach_simulates:
  assumes "upg_plan_ok e els ts ps" "lib_start els ts ps lib" "file_ok els data" "pos_ok f0 p0" "p0 \<le> HEADER_SIZE"
    and "(fstep rdr e scale els)\<^sup>*\<^sup>* (f0, upg_init lib (length data - HEADER_SIZE) []) (f, s)"
  shows "(ustep e scale els)\<^sup>*\<^sup>* (upg_init lib (start_of els (length els)) (drop HEADER_SIZE data)) (as_stream data s)"
    "in_place f s" "sys_ok els ts ps (drop HEADER_SIZE data) (as_stream data s)"
proof -
  let ?tot = "start_of els (length els)" and ?d = "drop HEADER_SIZE data"
  let ?i = "upg_init lib ?tot ?d"
  have tot: "length data - HEADER_SIZE = ?tot" using assms(3) by (simp add: file_ok_def)
  note l = file_lens[OF assms(1,3)]
  have "(ustep e scale els)\<^sup>*\<^sup>* ?i (as_stream data (snd y)) \<and> in_place (fst y) (snd y)"
    if "(fstep rdr e scale els)\<^sup>*\<^sup>* (f0, upg_init lib ?tot []) y" for y
    using that
  proof (induction rule: rtranclp_induct)
    case base
    have "as_stream data (upg_init lib ?tot []) = ?i" by (simp add: as_stream_def upg_init_def)
    moreover have "in_place f0 (upg_init lib ?tot [])" using assms(4,5) by (auto simp: in_place_def upg_init_def)
    ultimately show ?case by simp
  next
    case (step y z)
    have "sys_ok els ts ps ?d (as_stream data (snd y))" using reach_ok(1)[OF assms(1,2) l] step.IH by blast
    from fstep_simulates[OF assms(1,3) this, of "fst y" scale "fst z" "snd z"] step show ?case
      by (metis prod.collapse rtranclp.rtrancl_into_rtrancl)
  qed
  from this[of "(f, s)"] assms(6) tot
  show "(ustep e scale els)\<^sup>*\<^sup>* ?i (as_stream data s)" "in_place f s" by simp_all
  then show "sys_ok els ts ps ?d (as_stream data s)" using reach_ok(1)[OF assms(1,2) l] by blast
qed

lemma stores_images:
  assumes "upg_plan_ok e els ts ps" "lib_start els ts ps lib" "file_ok els data" "pos_ok f0 p0" "p0 \<le> HEADER_SIZE"
    and "(fstep rdr e scale els)\<^sup>*\<^sup>* (f0, upg_init lib (length data - HEADER_SIZE) []) (f, s)" and "j < length els"
  shows "holds (ts j) (w_lib (writer s)) (take (totalwrite (writer s) - start_of els j) (image_of els (drop HEADER_SIZE data) j))"
  using reach_simulates(3)[OF assms(1-6)] assms(7) by (simp add: sys_ok_def images_ok_def)

lemma finished_images:
  assumes "upg_plan_ok e els ts ps" "lib_start els ts ps lib" "file_ok els data" "pos_ok f0 p0" "p0 \<le> HEADER_SIZE" "aligned els"
    and "(fstep rdr e scale els)\<^sup>*\<^sup>* (f0, upg_init lib (length data - HEADER_SIZE) []) (f, s)"
    and "d_error s = ALISLUPG_ERR_NONE" "\<not> w_run s" "j < length els"
  shows "holds (ts j) (w_lib (writer s)) (image_of els (drop HEADER_SIZE data) j)" "sem_over s = 1"
proof -
  note r = reach_simulates(1)[OF assms(1-5,7)]
  have l: "start_of els (length els) \<le> length (drop HEADER_SIZE data)" "start_of els (length els) < 2 ^ 32"
    using assms(3) by (simp_all add: file_ok_def)
  show "holds (ts j) (w_lib (writer s)) (image_of els (drop HEADER_SIZE data) j)"
    using finished_holds[OF assms(1,2,6) l r _ _ assms(10)] assms(8,9) by simp
  show "sem_over s = 1"
    using reach_ok(2)[OF assms(1,2) file_lens[OF assms(1,3)] r assms(6)] assms(8,9) by (simp add: prog_ok_def)
qed

end

text \<open>A reader that does not fail inside the package.\<close>

locale complete_reader = offset_reader +
  assumes reader_total: "\<lbrakk>pos_ok f p; p \<le> off; 0 < n; off + n \<le> length data\<rbrakk> \<Longrightarrow> (\<exists>bs f'. rdr f off n (Some bs) f') \<and> (\<forall>f'. \<not> rdr f off n None f')"
begin

lemma no_error_step:
  assumes "upg_plan_ok e els ts ps" "file_ok els data" "sys_ok els ts ps (drop HEADER_SIZE data) (as_stream data s)" "in_place f s"
    and "fstep rdr e scale els (f, s) (f', s')" "d_error s = ALISLUPG_ERR_NONE"
  shows "d_error s' = ALISLUPG_ERR_NONE"
  using assms(5)
proof cases
  case (source_fill n bs)
  then show ?thesis using assms(6) by (simp add: offset_turn_def Let_def)
next
  case (source_fail n)
  note ff = fill_facts[OF assms(1-3) source_fail(2,4,5)]
  have "s_run s" using source_fail(2) by (simp add: source_more_def)
  then obtain p where "pos_ok f p" "p \<le> elem_offset els s" using assms(4,6) ff(4) by (auto simp: in_place_def)
  from reader_total[OF this ff(3,5)] source_fail(6) show ?thesis by blast
next
  case writer
  from writer(2) show ?thesis
  proof cases
    case (writer_fail m err buf w w')
    have "writter_turn e m scale (t_elem (as_stream data s)) (els ! t_elem (as_stream data s)) (t_buf (as_stream data s))
      (t_size (as_stream data s)) (t_total (as_stream data s)) (writer (as_stream data s)) = Some (err, buf, w)"
      using writer_fail by simp
    from writter_turn_result[OF assms(1) file_lens[OF assms(1,2)] assms(3) _ _ _ this] writer_fail show ?thesis by simp
  qed (use assms(6) in simp_all)
qed (use assms(6) in simp_all)

lemma never_fails:
  assumes "upg_plan_ok e els ts ps" "lib_start els ts ps lib" "file_ok els data" "pos_ok f0 p0" "p0 \<le> HEADER_SIZE"
    and "(fstep rdr e scale els)\<^sup>*\<^sup>* (f0, upg_init lib (length data - HEADER_SIZE) []) (f, s)"
  shows "d_error s = ALISLUPG_ERR_NONE"
proof -
  have "d_error (snd y) = ALISLUPG_ERR_NONE"
    if "(fstep rdr e scale els)\<^sup>*\<^sup>* (f0, upg_init lib (length data - HEADER_SIZE) []) y" for y
    using that
  proof (induction rule: rtranclp_induct)
    case (step y z)
    note r = reach_simulates(2,3)[OF assms(1-5), of scale "fst y" "snd y"]
    from no_error_step[OF assms(1,3) r(2) r(1), of scale "fst z" "snd z"] step show ?case by simp
  qed (simp add: upg_init_def)
  from this[OF assms(6)] show ?thesis by simp
qed

lemma can_step:
  assumes "upg_plan_ok e els ts ps" "lib_start els ts ps lib" "file_ok els data" "pos_ok f0 p0" "p0 \<le> HEADER_SIZE" "aligned els"
    and "(fstep rdr e scale els)\<^sup>*\<^sup>* (f0, upg_init lib (length data - HEADER_SIZE) []) (f, s)" "w_run s"
  shows "\<exists>y. fstep rdr e scale els (f, s) y"
proof -
  note r = reach_simulates[OF assms(1-5,7)] and l = file_lens[OF assms(1,3)]
  have ne: "d_error s = ALISLUPG_ERR_NONE" by (rule never_fails[OF assms(1-5,7)])
  have "prog_ok els (as_stream data s)" by (rule reach_ok(2)[OF assms(1,2) l r(1) assms(6)])
  then obtain s1 where "ustep e scale els (as_stream data s) s1" "d_error s1 = ALISLUPG_ERR_NONE"
    using ustep_enabled[OF assms(1) l assms(6) r(3), of scale] ne assms(8) by auto
  then show ?thesis
  proof cases
    case (source_fill n)
    then have sf: "source_more els s" "0 < sem_writer s" "n = source_len els s" by simp_all
    note ff = fill_facts[OF assms(1,3) r(3) sf(1) ne sf(3)]
    have "s_run s" using sf(1) by (simp add: source_more_def)
    then obtain p where "pos_ok f p" "p \<le> elem_offset els s" using r(2) ne ff(4) by (auto simp: in_place_def)
    with reader_total[OF this ff(3,5)] obtain bs f' where "rdr f (elem_offset els s) n (Some bs) f'" by blast
    from fstep.source_fill[of els s n rdr f bs f', OF sf(1,2) ne sf(3) this] show ?thesis by blast
  next
    case writer
    then obtain s2 where "wstep e scale els s s2" using wstep_from_stream by blast
    from fstep.writer[OF this, of rdr f] show ?thesis by blast
  next
    case source_end
    then show ?thesis using fstep.source_end[of s els rdr e scale f] by auto
  qed (use ne in auto)
qed

lemma step_works:
  assumes "upg_plan_ok e els ts ps" "lib_start els ts ps lib" "file_ok els data" "pos_ok f0 p0" "p0 \<le> HEADER_SIZE"
    and "(fstep rdr e scale els)\<^sup>*\<^sup>* (f0, upg_init lib (length data - HEADER_SIZE) []) (f, s)" "fstep rdr e scale els (f, s) (f', s')"
  shows "work els s' < work els s"
proof -
  note r = reach_simulates[OF assms(1-6)]
  have "d_error s' = ALISLUPG_ERR_NONE"
    using never_fails[OF assms(1-5), of scale f' s'] assms(6,7) by (meson rtranclp.rtrancl_into_rtrancl)
  then show ?thesis
    using ustep_work[OF assms(1) file_lens[OF assms(1,3)] r(3), of scale "as_stream data s'"]
      fstep_simulates[OF assms(1,3) r(3,2) assms(7)] by simp
qed

lemma finishes:
  assumes "upg_plan_ok e els ts ps" "lib_start els ts ps lib" "file_ok els data" "pos_ok f0 p0" "p0 \<le> HEADER_SIZE" "aligned els"
    and "(fstep rdr e scale els)\<^sup>*\<^sup>* (f0, upg_init lib (length data - HEADER_SIZE) []) (f, s)"
  shows "\<exists>f' s'. (fstep rdr e scale els)\<^sup>*\<^sup>* (f, s) (f', s') \<and> \<not> w_run s'"
  using assms(7)
proof (induction "work els s" arbitrary: f s rule: less_induct)
  case less
  show ?case
  proof (cases "w_run s")
    case True
    obtain f1 s1 where s1: "fstep rdr e scale els (f, s) (f1, s1)" using can_step[OF assms(1-6) less.prems True] by auto
    from less.hyps[OF step_works[OF assms(1-5) less.prems s1], of f1] less.prems s1
    show ?thesis by (meson converse_rtranclp_into_rtranclp rtranclp.rtrancl_into_rtrancl)
  qed auto
qed

end

end
