(* ===== verification/Net_Cache.thy ===== *)
theory Net_Cache
  imports Upgrade "HOL-Library.Sublist"
begin

section \<open>The cache of the network plugin (\<open>net_interface.c\<close>)\<close>

text \<open>
  A transfer thread hands the blocks libcurl receives to \<open>write_data\<close>, which puts them into a
  ring buffer; the plugin takes them out with \<open>url_read\<close> and \<open>url_seek\<close>. Every access to the
  ring happens under its mutex, so an interleaving of the two threads is given by the blocks
  that arrive before each access of the reader. A call that cannot go on yet is the outcome
  \<open>Wait\<close>, an access outside the buffer or a division by zero is \<open>Fault\<close>.
\<close>

datatype 'a outcome = Wait | Fault | Ret 'a

definition WRITER_MAX_LEN :: nat where "WRITER_MAX_LEN = 16384"
definition SEEK_BUF_SIZE :: nat where "SEEK_BUF_SIZE = 1024"
definition CACHE_BUF_SIZE :: nat where "CACHE_BUF_SIZE = 100 * 1024"
definition READ_SIZE :: nat where "READ_SIZE = 10240"

definition ONE_SHOT :: int where "ONE_SHOT = 1"
definition PIECE_BY_PIECE :: int where "PIECE_BY_PIECE = 0"

text \<open>Return codes: those of the interface and the number of \<open>ALISLUPG_ERR_INVALIDPARAM\<close>.\<close>

definition NET_ERR_NONE :: int where "NET_ERR_NONE = 0"
definition NET_ERR_TRANSFER_FAIL :: int where "NET_ERR_TRANSFER_FAIL = 3"
definition NET_ERR_ABORT :: int where "NET_ERR_ABORT = 4"
definition NET_ERR_OTHER :: int where "NET_ERR_OTHER = 5"
definition ERR_INVALIDPARAM_CODE :: int where "ERR_INVALIDPARAM_CODE = 10"

lemmas net_codes = NET_ERR_NONE_def NET_ERR_TRANSFER_FAIL_def NET_ERR_ABORT_def NET_ERR_OTHER_def ERR_INVALIDPARAM_CODE_def

record net_cache =
  cache_buff :: "u8 list"
  cache_size :: nat
  unread_data_len :: nat
  rd_pos :: nat
  wr_pos :: nat
  file_offset :: nat

text \<open>
  The variables of the two files. \<open>net_desc\<close> is the descriptor whose progress the transfer shows,
  as its method and its percentage. \<open>net_capath\<close> and the certificates are not part of it.
\<close>

record net =
  cache :: net_cache
  cache_change_flag :: int
  package_buf :: "u8 list option"
  package_len :: nat
  url_file_size :: int
  url_abort :: bool
  net_desc :: "(int \<times> int) option"
  net_download_finish :: bool

subsection \<open>Opening\<close>

definition zero_cache :: net_cache where
  "zero_cache = \<lparr>cache_buff = [], cache_size = 0, unread_data_len = 0, rd_pos = 0, wr_pos = 0, file_offset = 0\<rparr>"

definition change_net_cache :: "u8 list option \<Rightarrow> nat \<Rightarrow> net \<Rightarrow> int \<times> net" where
  "change_net_cache net_buf buf_size g =
     (case net_buf of
        None \<Rightarrow> (-1, g)
      | Some buf \<Rightarrow> if buf_size = 0 then (-1, g) else (0, g\<lparr>cache := zero_cache\<lparr>cache_buff := buf, cache_size := buf_size\<rparr>\<rparr>))"

definition set_cache_change_flag :: "int \<Rightarrow> net \<Rightarrow> net" where
  "set_cache_change_flag flag g = g\<lparr>cache_change_flag := flag\<rparr>"

text \<open>
  The content of the static buffer is \<open>static_buf\<close>; \<open>curl_ok\<close> and \<open>create_ok\<close> answer the
  initialisation of libcurl and the creation of the thread. The result is whether a thread runs.
\<close>

definition url_open :: "u8 list \<Rightarrow> bool \<Rightarrow> bool \<Rightarrow> net \<Rightarrow> bool \<times> net" where
  "url_open static_buf curl_ok create_ok g =
     (let g = g\<lparr>url_abort := False, url_file_size := 0\<rparr>;
          (ret, g) = (if cache_change_flag g = 1 then change_net_cache (package_buf g) (package_len g) g
                      else (0, g\<lparr>cache := zero_cache\<lparr>cache_buff := static_buf, cache_size := CACHE_BUF_SIZE\<rparr>\<rparr>))
      in if ret < 0 then (False, g) else (curl_ok \<and> create_ok, g))"

definition url_close :: "net \<Rightarrow> int \<times> net" where
  "url_close g = (NET_ERR_NONE, g\<lparr>url_abort := True\<rparr>)"

text \<open>
  What the transfer thread does with the answer to its first request (\<open>None\<close>: it failed); then
  the body is handed to \<open>write_data\<close>.
\<close>

definition transfer_size :: "int option \<Rightarrow> net \<Rightarrow> bool \<times> net" where
  "transfer_size answer g = (case answer of None \<Rightarrow> (False, g\<lparr>url_file_size := 0\<rparr>) | Some len \<Rightarrow> (True, g\<lparr>url_file_size := to_int32 len\<rparr>))"

subsection \<open>The writer of the ring\<close>

text \<open>\<open>memcpy\<close> into and out of the buffer, inside its bounds.\<close>

definition put_bytes :: "nat \<Rightarrow> u8 list \<Rightarrow> u8 list \<Rightarrow> u8 list option" where
  "put_bytes pos bs buf = (if pos + length bs \<le> length buf then Some (memcpy_at pos bs buf) else None)"

definition get_bytes :: "nat \<Rightarrow> nat \<Rightarrow> u8 list \<Rightarrow> u8 list option" where
  "get_bytes pos n buf = (if pos + n \<le> length buf then Some (take n (drop pos buf)) else None)"

definition cache_put :: "u8 list \<Rightarrow> net_cache \<Rightarrow> net_cache option" where
  "cache_put bs c =
     (if rd_pos c \<le> wr_pos c then
        if cache_size c < wr_pos c then None
        else
          let len_to_end = cache_size c - wr_pos c
          in if length bs \<le> len_to_end then do {
               buf \<leftarrow> put_bytes (wr_pos c) bs (cache_buff c);
               Some (c\<lparr>cache_buff := buf, wr_pos := wr_pos c + length bs\<rparr>) }
             else do {
               buf \<leftarrow> put_bytes (wr_pos c) (take len_to_end bs) (cache_buff c);
               buf \<leftarrow> put_bytes 0 (drop len_to_end bs) buf;
               Some (c\<lparr>cache_buff := buf, wr_pos := length bs - len_to_end\<rparr>) }
      else do {
        buf \<leftarrow> put_bytes (wr_pos c) bs (cache_buff c);
        Some (c\<lparr>cache_buff := buf, wr_pos := wr_pos c + length bs\<rparr>) })"

text \<open>In one-shot mode the progress of the download is shown while it runs.\<close>

definition show_download :: "net \<Rightarrow> net option" where
  "show_download g =
     (case net_desc g of
        None \<Rightarrow> Some g
      | Some (m, p) \<Rightarrow>
          if m \<noteq> ONE_SHOT \<or> url_file_size g = 0 then Some g
          else if url_file_size g \<le> int (unread_data_len (cache g)) then Some (g\<lparr>net_desc := Some (m, 100), net_download_finish := True\<rparr>)
          else if url_file_size g sdiv 100 = 0 then None
          else Some (g\<lparr>net_desc := Some (m, int (unread_data_len (cache g)) sdiv (url_file_size g sdiv 100))\<rparr>))"

definition write_data :: "u8 list \<Rightarrow> net \<Rightarrow> (int \<times> net) outcome" where
  "write_data bs g =
     (if url_abort g then Ret (NET_ERR_ABORT, g)
      else if cache_size (cache g) < unread_data_len (cache g) + length bs then Wait
      else
        case do {
          c \<leftarrow> cache_put bs (cache g);
          show_download (g\<lparr>cache := c\<lparr>unread_data_len := unread_data_len c + length bs\<rparr>\<rparr>) }
        of None \<Rightarrow> Fault | Some g \<Rightarrow> Ret (int (length bs), g))"

subsection \<open>The reader of the ring\<close>

definition cache_get :: "nat \<Rightarrow> net_cache \<Rightarrow> (u8 list \<times> net_cache) option" where
  "cache_get n c =
     (if rd_pos c \<le> wr_pos c then do {
        bs \<leftarrow> get_bytes (rd_pos c) n (cache_buff c);
        Some (bs, c\<lparr>rd_pos := rd_pos c + n\<rparr>) }
      else if cache_size c < rd_pos c then None
      else
        let len_to_end = cache_size c - rd_pos c
        in if n \<le> len_to_end then do {
             bs \<leftarrow> get_bytes (rd_pos c) n (cache_buff c);
             Some (bs, c\<lparr>rd_pos := rd_pos c + n\<rparr>) }
           else do {
             bs \<leftarrow> get_bytes (rd_pos c) len_to_end (cache_buff c);
             bs' \<leftarrow> get_bytes 0 (n - len_to_end) (cache_buff c);
             Some (bs @ bs', c\<lparr>rd_pos := n - len_to_end\<rparr>) })"

definition url_read_cache :: "nat \<Rightarrow> net_cache \<Rightarrow> (int \<times> u8 list \<times> net_cache) outcome" where
  "url_read_cache n c =
     (if n = 0 then Ret (ERR_INVALIDPARAM_CODE, [], c)
      else if unread_data_len c < n then Wait
      else
        case cache_get n c of
          None \<Rightarrow> Fault
        | Some (bs, c) \<Rightarrow> Ret (int n, bs, c\<lparr>unread_data_len := unread_data_len c - n, file_offset := file_offset c + n\<rparr>))"

text \<open>
  The blocks that arrive while the reader waits: \<open>write_data\<close> takes them one by one; a block
  for which there is no room is still waiting when the reader gets the mutex. After another
  return value than the length of the block libcurl ends the transfer.
\<close>

primrec deliver :: "u8 list list \<Rightarrow> net \<Rightarrow> (u8 list list \<times> net) option" where
  "deliver [] g = Some ([], g)"
| "deliver (b # bs) g =
     (case write_data b g of
        Wait \<Rightarrow> Some (b # bs, g)
      | Fault \<Rightarrow> None
      | Ret (r, g') \<Rightarrow> if r = int (length b) then deliver bs g' else Some ([], g'))"

text \<open>
  A state of the reader: the blocks that arrive before each of its next accesses, and the
  variables. When the data does not come before the time limit, the call returns \<open>-1\<close>.
\<close>

type_synonym net_run = "u8 list list list \<times> net"

definition push_back :: "u8 list list \<Rightarrow> u8 list list list \<Rightarrow> u8 list list list" where
  "push_back bs as = (case as of [] \<Rightarrow> [bs] | a # as' \<Rightarrow> (bs @ a) # as')"

definition read_access :: "nat \<Rightarrow> net_run \<Rightarrow> (int \<times> u8 list \<times> net_run) option" where
  "read_access n s = do {
     (left, g) \<leftarrow> deliver (case fst s of [] \<Rightarrow> [] | a # as \<Rightarrow> a) (snd s);
     let as = push_back left (tl (fst s));
     case url_read_cache n (cache g) of
       Wait \<Rightarrow> Some (-1, [], as, g)
     | Fault \<Rightarrow> None
     | Ret (r, bs, c) \<Rightarrow> Some (r, bs, as, g\<lparr>cache := c\<rparr>) }"

text \<open>The loop of \<open>url_read\<close>; \<open>acc\<close> is what the buffer of the caller has received.\<close>

partial_function (option) url_read_loop :: "nat \<Rightarrow> nat \<Rightarrow> nat \<Rightarrow> u8 list \<Rightarrow> net_run \<Rightarrow> (int \<times> u8 list \<times> net_run) option" where
  "url_read_loop sz per_size down acc s =
     (if down < sz then
        Option.bind (read_access (min (min sz per_size) (sz - down)) s) (\<lambda>(ret_len, bs, s).
          if ret_len < 0 then Some (-1, acc, s)
          else url_read_loop sz (min sz per_size) (down + nat ret_len) (acc @ bs) s)
      else Some (int down, acc, s))"

definition url_read :: "nat \<Rightarrow> net_run \<Rightarrow> (int \<times> u8 list \<times> net_run) option" where
  "url_read sz s = (if sz = 0 then Some (ERR_INVALIDPARAM_CODE, [], s) else url_read_loop sz READ_SIZE 0 [] s)"

partial_function (option) url_seek_loop :: "int \<Rightarrow> int \<Rightarrow> net_run \<Rightarrow> (int \<times> net_run) option" where
  "url_seek_loop offset cur_offset s =
     (if cur_offset < offset then
        Option.bind (url_read (min SEEK_BUF_SIZE (nat (offset - cur_offset))) s) (\<lambda>(ret_len, bs, s).
          if ret_len < 0 then Some (NET_ERR_TRANSFER_FAIL, s)
          else url_seek_loop offset (cur_offset + ret_len) s)
      else Some (NET_ERR_NONE, s))"

definition url_seek :: "int \<Rightarrow> int \<Rightarrow> net_run \<Rightarrow> (int \<times> net_run) option" where
  "url_seek offset whence s =
     (if whence \<noteq> SEEK_CUR \<and> whence \<noteq> SEEK_SET then Some (NET_ERR_OTHER, s)
      else url_seek_loop offset (if whence = SEEK_SET then int (file_offset (cache (snd s))) else 0) s)"

subsection \<open>The ring as a queue of bytes\<close>

text \<open>
  The unread bytes, read around the end of the buffer, and the well-formedness of the ring. A
  ring that is full after the writer went around has both positions at the same place.
\<close>

definition queue :: "net_cache \<Rightarrow> u8 list" where
  "queue c = take (unread_data_len c) (drop (rd_pos c) (cache_buff c) @ cache_buff c)"

definition cache_ok :: "net_cache \<Rightarrow> bool" where
  "cache_ok c \<longleftrightarrow> length (cache_buff c) = cache_size c \<and> rd_pos c \<le> cache_size c \<and> wr_pos c \<le> cache_size c \<and>
     unread_data_len c \<le> cache_size c \<and>
     (rd_pos c + unread_data_len c = wr_pos c \<or> rd_pos c + unread_data_len c = wr_pos c + cache_size c)"

lemma length_queue: "cache_ok c \<Longrightarrow> length (queue c) = unread_data_len c"
  by (auto simp: queue_def cache_ok_def)

lemma queue_nth:
  assumes "cache_ok c" "i < unread_data_len c"
  shows "queue c ! i = cache_buff c ! (if rd_pos c + i < cache_size c then rd_pos c + i else rd_pos c + i - cache_size c)"
  using assms by (auto simp: queue_def cache_ok_def nth_append add.commute)

text \<open>The writer appends, whenever there is room.\<close>

lemma cache_put_ok:
  assumes "cache_ok c" "unread_data_len c + length bs \<le> cache_size c"
  shows "\<exists>c'. cache_put bs c = Some c' \<and> cache_ok (c'\<lparr>unread_data_len := unread_data_len c' + length bs\<rparr>) \<and>
    queue (c'\<lparr>unread_data_len := unread_data_len c' + length bs\<rparr>) = queue c @ bs \<and>
    cache_size c' = cache_size c \<and> rd_pos c' = rd_pos c \<and> file_offset c' = file_offset c \<and> unread_data_len c' = unread_data_len c"
proof -
  let ?n = "length bs" and ?sz = "cache_size c" and ?w = "wr_pos c" and ?r = "rd_pos c" and ?u = "unread_data_len c"
  have b: "length (cache_buff c) = ?sz" "?r \<le> ?sz" "?w \<le> ?sz" "?r + ?u = ?w \<or> ?r + ?u = ?w + ?sz"
    using assms(1) by (auto simp: cache_ok_def)
  have app: "queue c' = queue c @ bs"
    if c': "cache_ok c'" "unread_data_len c' = ?u + ?n" "rd_pos c' = ?r" "cache_size c' = ?sz"
      and old: "\<And>i. i < ?u \<Longrightarrow> (let j = (if ?r + i < ?sz then ?r + i else ?r + i - ?sz) in cache_buff c' ! j = cache_buff c ! j)"
      and new: "\<And>i. i < ?n \<Longrightarrow> cache_buff c' ! (if ?w + i < ?sz then ?w + i else ?w + i - ?sz) = bs ! i" for c'
  proof (rule nth_equalityI)
    show "length (queue c') = length (queue c @ bs)" using that(1,2) assms(1) by (simp add: length_queue)
    fix i assume "i < length (queue c')"
    then have i: "i < ?u + ?n" using that(1,2) by (simp add: length_queue)
    show "queue c' ! i = (queue c @ bs) ! i"
    proof (cases "i < ?u")
      case True
      then show ?thesis
        using queue_nth[OF c'(1), of i] queue_nth[OF assms(1), of i] old[of i] c' assms(1)
        by (auto simp: nth_append length_queue Let_def split: if_splits)
    next
      case False
      then obtain k where k: "i = ?u + k" "k < ?n" using i by (metis le_Suc_ex nat_add_left_cancel_less not_less)
      have "(if ?r + i < ?sz then ?r + i else ?r + i - ?sz) = (if ?w + k < ?sz then ?w + k else ?w + k - ?sz)"
        using b k assms(2) by auto
      then have "queue c' ! i = bs ! k"
        using queue_nth[OF c'(1), of i] new[OF k(2)] c'(2-4) i by (simp only:)
      then show ?thesis using assms(1) k by (simp add: nth_append length_queue)
    qed
  qed
  show ?thesis
  proof (cases "?r \<le> ?w \<and> ?sz < ?w + ?n")
    case False
    then have nw: "?w + ?n \<le> ?sz" "(?r \<le> ?w \<longrightarrow> ?n \<le> ?sz - ?w)" using b assms(2) by auto
    let ?c = "c\<lparr>cache_buff := memcpy_at ?w bs (cache_buff c), wr_pos := ?w + ?n\<rparr>"
    let ?d = "?c\<lparr>unread_data_len := unread_data_len ?c + ?n\<rparr>"
    have ok: "cache_ok ?d" using b nw assms(2) by (auto simp: cache_ok_def)
    have "queue ?d = queue c @ bs"
      by (rule app[OF ok]) (use b nw assms(2) in \<open>auto simp: Let_def nth_memcpy_at\<close>)
    moreover have "cache_put bs c = Some ?c" using nw b by (auto simp: cache_put_def put_bytes_def Let_def)
    ultimately show ?thesis using ok by auto
  next
    case True
    let ?e = "?sz - ?w"
    have e: "?r + ?u = ?w" "?e < ?n" "?n - ?e \<le> ?r" using True b assms(2) by auto
    let ?buf = "memcpy_at 0 (drop ?e bs) (memcpy_at ?w (take ?e bs) (cache_buff c))"
    let ?c = "c\<lparr>cache_buff := ?buf, wr_pos := ?n - ?e\<rparr>"
    let ?d = "?c\<lparr>unread_data_len := unread_data_len ?c + ?n\<rparr>"
    have ok: "cache_ok ?d" using b e True assms(2) by (auto simp: cache_ok_def)
    have "queue ?d = queue c @ bs"
      by (rule app[OF ok]) (use b e True assms(2) in \<open>auto simp: Let_def nth_memcpy_at\<close>)
    moreover have "cache_put bs c = Some ?c" using True b e by (auto simp: cache_put_def put_bytes_def Let_def)
    ultimately show ?thesis using ok by auto
  qed
qed

text \<open>
  The reader takes from the front, except when the ring is full after the writer went around
  and the bytes reach over the end: then the code takes the branch that does not wrap.
\<close>

definition wraps_full :: "nat \<Rightarrow> net_cache \<Rightarrow> bool" where
  "wraps_full n c \<longleftrightarrow> unread_data_len c = cache_size c \<and> rd_pos c = wr_pos c \<and> cache_size c < rd_pos c + n"

lemma cache_get_ok:
  assumes "cache_ok c" "0 < n" "n \<le> unread_data_len c" "\<not> wraps_full n c"
  shows "\<exists>c'. cache_get n c = Some (take n (queue c), c') \<and>
    cache_ok (c'\<lparr>unread_data_len := unread_data_len c' - n\<rparr>) \<and>
    queue (c'\<lparr>unread_data_len := unread_data_len c' - n\<rparr>) = drop n (queue c) \<and>
    cache_size c' = cache_size c \<and> file_offset c' = file_offset c \<and> unread_data_len c' = unread_data_len c"
proof -
  let ?sz = "cache_size c" and ?w = "wr_pos c" and ?r = "rd_pos c" and ?u = "unread_data_len c" and ?b = "cache_buff c"
  have b: "length ?b = ?sz" "?r \<le> ?sz" "?w \<le> ?sz" "?u \<le> ?sz" "?r + ?u = ?w \<or> ?r + ?u = ?w + ?sz"
    using assms(1) by (auto simp: cache_ok_def)
  show ?thesis
  proof (cases "?w < ?r \<and> ?sz < ?r + n")
    case False
    then have fits: "?r + n \<le> ?sz" using b assms(2-4) by (auto simp: wraps_full_def)
    let ?c = "c\<lparr>rd_pos := ?r + n\<rparr>"
    let ?d = "?c\<lparr>unread_data_len := ?u - n\<rparr>"
    have ok: "cache_ok ?d" using b fits assms(3) by (auto simp: cache_ok_def)
    have "take n (drop ?r ?b) = take n (queue c)" using b fits assms(3) by (simp add: queue_def)
    moreover have "drop n (queue c) = queue ?d" using fits b(1) assms(3) by (simp add: queue_def drop_take add.commute)
    ultimately show ?thesis using fits b ok by (auto simp: cache_get_def get_bytes_def Let_def)
  next
    case True
    let ?e = "?sz - ?r"
    let ?c = "c\<lparr>rd_pos := n - ?e\<rparr>"
    let ?d = "?c\<lparr>unread_data_len := ?u - n\<rparr>"
    have e: "?r + ?u = ?w + ?sz" "?e < n" using True b by auto
    have ok: "cache_ok ?d" using b e True assms(3) by (auto simp: cache_ok_def)
    have "take ?e (drop ?r ?b) @ take (n - ?e) ?b = take n (queue c)" using b e assms(3) by (simp add: queue_def)
    moreover have "queue ?d = drop n (queue c)"
    proof -
      have "drop n (queue c) = take (?u - n) (drop (n - ?e) ?b)" using b e by (simp add: queue_def drop_take)
      moreover have "?u - n \<le> length (drop (n - ?e) ?b)" using b e True by (simp, linarith)
      ultimately show ?thesis by (simp add: queue_def)
    qed
    moreover have "n - ?e \<le> ?sz" using b e assms(3) by linarith
    ultimately show ?thesis using True b ok e by (auto simp: cache_get_def get_bytes_def Let_def)
  qed
qed

lemma cache_get_overrun:
  assumes "cache_ok c" "wraps_full n c"
  shows "cache_get n c = None"
  using assms by (auto simp: cache_get_def cache_ok_def wraps_full_def get_bytes_def)

lemma write_data_ok:
  assumes "cache_ok (cache g)" "\<not> url_abort g" "write_data bs g = Ret (r, g')"
  shows "r = int (length bs)" "cache_ok (cache g')" "queue (cache g') = queue (cache g) @ bs"
    "file_offset (cache g') = file_offset (cache g)" "cache_size (cache g') = cache_size (cache g)" "rd_pos (cache g') = rd_pos (cache g)"
    "\<not> url_abort g'" "url_file_size g' = url_file_size g" "unread_data_len (cache g') = unread_data_len (cache g) + length bs"
proof -
  have "unread_data_len (cache g) + length bs \<le> cache_size (cache g)" using assms(2,3) by (auto simp: write_data_def split: if_splits)
  from cache_put_ok[OF assms(1) this] obtain c where c: "cache_put bs (cache g) = Some c"
    "cache_ok (c\<lparr>unread_data_len := unread_data_len c + length bs\<rparr>)"
    "queue (c\<lparr>unread_data_len := unread_data_len c + length bs\<rparr>) = queue (cache g) @ bs"
    "cache_size c = cache_size (cache g)" "rd_pos c = rd_pos (cache g)" "file_offset c = file_offset (cache g)"
    "unread_data_len c = unread_data_len (cache g)" by blast
  let ?g = "g\<lparr>cache := c\<lparr>unread_data_len := unread_data_len c + length bs\<rparr>\<rparr>"
  have g': "r = int (length bs)" "show_download ?g = Some g'"
    using assms(2,3) c(1) by (auto simp: write_data_def split: if_splits option.splits)
  then have "cache g' = cache ?g" "url_abort g' = url_abort g" "url_file_size g' = url_file_size g"
    by (auto simp: show_download_def split: option.splits prod.splits if_splits)
  with c g'(1) assms(2) show "r = int (length bs)" "cache_ok (cache g')" "queue (cache g') = queue (cache g) @ bs"
    "file_offset (cache g') = file_offset (cache g)" "cache_size (cache g') = cache_size (cache g)" "rd_pos (cache g') = rd_pos (cache g)"
    "\<not> url_abort g'" "url_file_size g' = url_file_size g" "unread_data_len (cache g') = unread_data_len (cache g) + length bs"
    by simp_all
qed

lemma deliver_ok:
  assumes "deliver bs g = Some (left, g')" "cache_ok (cache g)" "\<not> url_abort g"
  shows "cache_ok (cache g') \<and> \<not> url_abort g' \<and> queue (cache g') @ concat left = queue (cache g) @ concat bs \<and>
    file_offset (cache g') = file_offset (cache g) \<and> cache_size (cache g') = cache_size (cache g) \<and> url_file_size g' = url_file_size g"
  using assms
proof (induction bs arbitrary: g)
  case (Cons b bs)
  show ?case
  proof (cases "write_data b g")
    case (Ret rg)
    obtain r g1 where rg: "rg = (r, g1)" by force
    note w = write_data_ok[OF Cons.prems(2,3) Ret[unfolded rg]]
    have "deliver bs g1 = Some (left, g')" using Cons.prems(1) Ret rg w(1) by simp
    from Cons.IH[OF this w(2,7)] w show ?thesis by simp
  qed (use Cons.prems in auto)
qed auto

lemma url_read_cache_ok:
  assumes "cache_ok c" "0 < n" "url_read_cache n c = Ret (r, bs, c')"
  shows "r = int n" "bs = take n (queue c)" "length bs = n" "cache_ok c'" "queue c' = drop n (queue c)"
    "file_offset c' = file_offset c + n" "cache_size c' = cache_size c"
proof -
  have n: "n \<le> unread_data_len c" using assms(2,3) by (auto simp: url_read_cache_def split: if_splits)
  have "\<not> wraps_full n c" using cache_get_overrun[OF assms(1)] assms(2,3) n by (auto simp: url_read_cache_def)
  from cache_get_ok[OF assms(1,2) n this] obtain c1 where "cache_get n c = Some (take n (queue c), c1)"
    "cache_ok (c1\<lparr>unread_data_len := unread_data_len c1 - n\<rparr>)" "queue (c1\<lparr>unread_data_len := unread_data_len c1 - n\<rparr>) = drop n (queue c)"
    "cache_size c1 = cache_size c" "file_offset c1 = file_offset c" by blast
  moreover have "cache_ok (x\<lparr>file_offset := o1\<rparr>) = cache_ok x" "queue (x\<lparr>file_offset := o1\<rparr>) = queue x" for x o1
    by (simp_all add: cache_ok_def queue_def)
  ultimately show "r = int n" "bs = take n (queue c)" "cache_ok c'" "queue c' = drop n (queue c)"
    "file_offset c' = file_offset c + n" "cache_size c' = cache_size c"
    using assms(2,3) n by (auto simp: url_read_cache_def)
  then show "length bs = n" using n assms(1) by (simp add: length_queue)
qed

subsection \<open>Reading the file through the ring\<close>

text \<open>
  The run delivers the file \<open>data\<close>: the unread bytes and the blocks still to come are the next
  bytes of the file, perhaps not up to its end.
\<close>

definition net_inv :: "u8 list \<Rightarrow> net_run \<Rightarrow> bool" where
  "net_inv data s \<longleftrightarrow> cache_ok (cache (snd s)) \<and> \<not> url_abort (snd s) \<and>
     prefix (queue (cache (snd s)) @ concat (concat (fst s))) (drop (file_offset (cache (snd s))) data)"

abbreviation at_offset :: "net_run \<Rightarrow> nat" where
  "at_offset s \<equiv> file_offset (cache (snd s))"

lemma concat_push_back: "concat (concat (push_back left as)) = concat left @ concat (concat as)"
  by (simp add: push_back_def split: list.splits)

lemma read_access_ok:
  assumes "net_inv data s" "0 < n" "read_access n s = Some (r, bs, s')"
  shows "net_inv data s'" "r = -1 \<and> bs = [] \<and> at_offset s' = at_offset s \<or>
    r = int n \<and> bs = take n (drop (at_offset s) data) \<and> length bs = n \<and> at_offset s' = at_offset s + n"
proof -
  obtain as g where s: "s = (as, g)" by force
  have i: "cache_ok (cache g)" "\<not> url_abort g"
    and p: "prefix (queue (cache g) @ concat (concat as)) (drop (file_offset (cache g)) data)"
    using assms(1) s by (simp_all add: net_inv_def)
  obtain left g1 where d: "deliver (case as of [] \<Rightarrow> [] | a # as \<Rightarrow> a) g = Some (left, g1)"
    using assms(3) s by (auto simp: read_access_def split: bind_splits)
  note dk = deliver_ok[OF d i]
  have "concat (concat as) = concat (case as of [] \<Rightarrow> [] | a # as \<Rightarrow> a) @ concat (concat (tl as))" by (cases as) simp_all
  then have q: "queue (cache g) @ concat (concat as) = queue (cache g1) @ concat (concat (push_back left (tl as)))"
    using dk by (simp add: concat_push_back)
  have "net_inv data s' \<and> (r = -1 \<and> bs = [] \<and> at_offset s' = at_offset s \<or>
    r = int n \<and> bs = take n (drop (at_offset s) data) \<and> length bs = n \<and> at_offset s' = at_offset s + n)"
  proof (cases "url_read_cache n (cache g1)")
    case Wait
    then show ?thesis using assms(3) s d p q dk by (auto simp: read_access_def net_inv_def Let_def)
  next
    case Fault
    then show ?thesis using assms(3) s d by (auto simp: read_access_def Let_def)
  next
    case (Ret x)
    obtain r1 b1 c1 where x: "x = (r1, b1, c1)" using prod_cases3 by blast
    have e: "r = r1" "bs = b1" "s' = (push_back left (tl as), g1\<lparr>cache := c1\<rparr>)"
      using assms(3) s d Ret x by (auto simp: read_access_def Let_def)
    note u = url_read_cache_ok[OF _ assms(2) Ret[unfolded x]]
    have ck: "cache_ok (cache g1)" using dk by simp
    note u = u[OF ck]
    let ?rest = "concat (concat (push_back left (tl as)))"
    obtain t where t: "queue (cache g1) @ ?rest @ t = drop (file_offset (cache g)) data"
      using p q by (auto elim: prefixE)
    have len: "n \<le> length (queue (cache g1))" using u(2,3) by (metis length_take min.cobounded1)
    have "take n (drop (file_offset (cache g)) data) = take n (queue (cache g1))" using t[symmetric] len by simp
    moreover have "drop (file_offset (cache g) + n) data = drop n (queue (cache g1)) @ ?rest @ t"
      using arg_cong[OF t, of "drop n"] len by (simp add: add.commute)
    ultimately show ?thesis using u e dk s i by (auto simp: net_inv_def)
  qed
  then show "net_inv data s'" "r = -1 \<and> bs = [] \<and> at_offset s' = at_offset s \<or>
    r = int n \<and> bs = take n (drop (at_offset s) data) \<and> length bs = n \<and> at_offset s' = at_offset s + n" by blast+
qed

lemma take_drop_split: "n \<le> m \<Longrightarrow> take m (drop k xs) = take n (drop k xs) @ take (m - n) (drop (k + n) xs)"
  using take_add[of n "m - n" "drop k xs"] by (simp add: add.commute)

lemma url_read_loop_ok:
  assumes "net_inv data s" "0 < per" "down \<le> sz" "url_read_loop sz per down acc s = Some (r, bs, s')"
  shows "net_inv data s' \<and> (r = -1 \<or>
    r = int sz \<and> bs = acc @ take (sz - down) (drop (at_offset s) data) \<and> length bs = length acc + (sz - down) \<and>
    at_offset s' = at_offset s + (sz - down))"
  using assms
proof (induction "sz - down" arbitrary: down acc s per rule: less_induct)
  case less
  show ?case
  proof (cases "down < sz")
    case False
    then show ?thesis using less.prems by (simp add: url_read_loop.simps)
  next
    case True
    define n where "n = min (min sz per) (sz - down)"
    have n: "0 < n" "n \<le> sz - down" "down + n \<le> sz" "0 < min sz per" using True less.prems(2) by (auto simp: n_def)
    obtain r1 b1 s1 where a: "read_access n s = Some (r1, b1, s1)"
      using less.prems(4) True by (subst (asm) url_read_loop.simps) (auto simp: n_def split: bind_splits)
    have step: "Some (r, bs, s') = (if r1 < 0 then Some (-1, acc, s1) else url_read_loop sz (min sz per) (down + nat r1) (acc @ b1) s1)"
      using less.prems(4) True a[unfolded n_def] by (subst (asm) url_read_loop.simps) simp
    note ok = read_access_ok[OF less.prems(1) n(1) a]
    show ?thesis
    proof (cases "r1 < 0")
      case neg: True
      then show ?thesis using ok step by simp
    next
      case False
      then have g: "r1 = int n" "b1 = take n (drop (at_offset s) data)" "length b1 = n" "at_offset s1 = at_offset s + n"
        using ok(2) by auto
      have "url_read_loop sz (min sz per) (down + n) (acc @ b1) s1 = Some (r, bs, s')"
        using step g(1) by simp
      from less.hyps[OF _ ok(1) n(4,3) this] n(1) True
      have ih: "net_inv data s' \<and> (r = -1 \<or> r = int sz \<and> bs = (acc @ b1) @ take (sz - (down + n)) (drop (at_offset s1) data) \<and>
        length bs = length (acc @ b1) + (sz - (down + n)) \<and> at_offset s' = at_offset s1 + (sz - (down + n)))"
        by simp
      have "take (sz - down) (drop (at_offset s) data) = b1 @ take (sz - (down + n)) (drop (at_offset s1) data)"
        using take_drop_split[OF n(2), of "at_offset s" data] g(2,4) by simp
      then show ?thesis using ih g(3,4) n(2) by auto
    qed
  qed
qed

lemma url_read_ok:
  assumes "net_inv data s" "0 < sz" "url_read sz s = Some (r, bs, s')"
  shows "net_inv data s'" "r = -1 \<or> r = int sz \<and> bs = take sz (drop (at_offset s) data) \<and> length bs = sz \<and> at_offset s' = at_offset s + sz"
  using url_read_loop_ok[OF assms(1), of READ_SIZE 0 sz "[]" r bs s'] assms(2,3)
  by (auto simp: url_read_def READ_SIZE_def)

text \<open>Seeking forward drops the bytes in between.\<close>

lemma url_seek_loop_ok:
  assumes "net_inv data s" "cur = int (at_offset s)" "cur \<le> off" "url_seek_loop off cur s = Some (r, s')"
  shows "net_inv data s' \<and> (r = NET_ERR_NONE \<and> int (at_offset s') = off \<or> r = NET_ERR_TRANSFER_FAIL)"
  using assms
proof (induction "nat (off - cur)" arbitrary: cur s rule: less_induct)
  case less
  show ?case
  proof (cases "cur < off")
    case False
    then show ?thesis using less.prems by (simp add: url_seek_loop.simps)
  next
    case True
    let ?n = "min SEEK_BUF_SIZE (nat (off - cur))"
    have n: "0 < ?n" "int ?n \<le> off - cur" using True by (auto simp: SEEK_BUF_SIZE_def)
    obtain r1 b1 s1 where a: "url_read ?n s = Some (r1, b1, s1)"
      using less.prems(4) True by (subst (asm) url_seek_loop.simps) (auto split: bind_splits)
    note ok = url_read_ok[OF less.prems(1) n(1) a]
    show ?thesis
    proof (cases "r1 < 0")
      case neg: True
      have "(r, s') = (NET_ERR_TRANSFER_FAIL, s1)"
        using less.prems(4) True a neg by (subst (asm) url_seek_loop.simps) simp
      then show ?thesis using ok by simp
    next
      case False
      then have g: "r1 = int ?n" "at_offset s1 = at_offset s + ?n" using ok(2) by auto
      have "url_seek_loop off (cur + int ?n) s1 = Some (r, s')"
        using less.prems(4) True a g(1) False by (subst (asm) url_seek_loop.simps) simp
      from less.hyps[OF _ ok(1) _ _ this] n g(2) less.prems(2) show ?thesis by simp
    qed
  qed
qed

lemma url_seek_ok:
  assumes "net_inv data s" "int (at_offset s) \<le> off" "url_seek off SEEK_SET s = Some (r, s')"
  shows "net_inv data s'" "r = NET_ERR_NONE \<and> int (at_offset s') = off \<or> r = NET_ERR_TRANSFER_FAIL"
  using url_seek_loop_ok[OF assms(1) refl assms(2), of r s'] assms(3) by (simp_all add: url_seek_def)

subsection \<open>A file that is completely in the buffer\<close>

text \<open>
  In one-shot mode the buffer holds the whole file before the upgrade reads it: no call waits,
  and the ring is never read around its end.
\<close>

definition ready :: "u8 list \<Rightarrow> net_run \<Rightarrow> bool" where
  "ready data s \<longleftrightarrow> net_inv data s \<and> concat (fst s) = [] \<and>
     rd_pos (cache (snd s)) + unread_data_len (cache (snd s)) = wr_pos (cache (snd s)) \<and>
     at_offset s + unread_data_len (cache (snd s)) = length data"

lemma read_access_ready:
  assumes "ready data s" "0 < n" "at_offset s + n \<le> length data"
  shows "\<exists>bs s'. read_access n s = Some (int n, bs, s') \<and> ready data s'"
proof -
  obtain as g where s: "s = (as, g)" by force
  have i: "cache_ok (cache g)" "concat as = []" "rd_pos (cache g) + unread_data_len (cache g) = wr_pos (cache g)"
    "n \<le> unread_data_len (cache g)" "file_offset (cache g) + unread_data_len (cache g) = length data"
    using assms s by (auto simp: ready_def net_inv_def)
  then have "\<not> wraps_full n (cache g)" using assms(2) by (auto simp: wraps_full_def cache_ok_def)
  from cache_get_ok[OF i(1) assms(2) i(4) this] obtain c where c: "cache_get n (cache g) = Some (take n (queue (cache g)), c)" by blast
  have rd: "rd_pos c = rd_pos (cache g) + n" "wr_pos c = wr_pos (cache g)" "unread_data_len c = unread_data_len (cache g)"
    "file_offset c = file_offset (cache g)"
    using c i(3) by (auto simp: cache_get_def split: bind_splits)
  let ?c = "c\<lparr>unread_data_len := unread_data_len c - n, file_offset := file_offset c + n\<rparr>"
  have "deliver (case as of [] \<Rightarrow> [] | a # as \<Rightarrow> a) g = Some ([], g)" using i(2) by (cases as) simp_all
  then have a: "read_access n s = Some (int n, take n (queue (cache g)), push_back [] (tl as), g\<lparr>cache := ?c\<rparr>)"
    using c i(4) assms(2) s by (simp add: read_access_def url_read_cache_def Let_def)
  have "concat (push_back [] (tl as)) = []" using i(2) by (cases as) (auto simp: push_back_def split: list.splits)
  then have "ready data (push_back [] (tl as), g\<lparr>cache := ?c\<rparr>)"
    using read_access_ok(1)[OF _ assms(2) a, of data] assms(1) rd i(3-5) by (simp add: ready_def)
  with a show ?thesis by blast
qed

lemma url_read_loop_ready:
  assumes "ready data s" "0 < per" "down \<le> sz" "at_offset s + (sz - down) \<le> length data"
  shows "\<exists>bs s'. url_read_loop sz per down acc s = Some (int sz, bs, s') \<and> ready data s'"
  using assms
proof (induction "sz - down" arbitrary: down acc s per rule: less_induct)
  case less
  show ?case
  proof (cases "down < sz")
    case False
    then show ?thesis using less.prems by (simp add: url_read_loop.simps)
  next
    case True
    define n where "n = min (min sz per) (sz - down)"
    have n: "0 < n" "n \<le> sz - down" "down + n \<le> sz" "0 < min sz per" using True less.prems(2) by (auto simp: n_def)
    obtain b1 s1 where a: "read_access n s = Some (int n, b1, s1)" "ready data s1"
      using read_access_ready[OF less.prems(1) n(1)] n(2) less.prems(4) by auto
    have "net_inv data s" using less.prems(1) by (simp add: ready_def)
    from read_access_ok(2)[OF this n(1) a(1)] have o: "at_offset s1 = at_offset s + n" using n(1) by auto
    have "url_read_loop sz per down acc s = url_read_loop sz (min sz per) (down + n) (acc @ b1) s1"
      using True a(1)[unfolded n_def] by (subst url_read_loop.simps) (simp add: n_def)
    with less.hyps[OF _ a(2) n(4,3), of "acc @ b1"] n(1,2) less.prems(4) True o show ?thesis by simp
  qed
qed

lemma url_read_ready:
  assumes "ready data s" "0 < sz" "at_offset s + sz \<le> length data"
  shows "\<exists>s'. url_read sz s = Some (int sz, take sz (drop (at_offset s) data), s') \<and> ready data s' \<and> at_offset s' = at_offset s + sz"
proof -
  obtain bs s' where r: "url_read sz s = Some (int sz, bs, s')" "ready data s'"
    using url_read_loop_ready[OF assms(1), of READ_SIZE 0 sz "[]"] assms(2,3) by (auto simp: url_read_def READ_SIZE_def)
  have "net_inv data s" using assms(1) by (simp add: ready_def)
  from url_read_ok(2)[OF this assms(2) r(1)] r show ?thesis by auto
qed

lemma url_seek_loop_ready:
  assumes "ready data s" "cur = int (at_offset s)" "cur \<le> off" "off \<le> int (length data)"
  shows "\<exists>s'. url_seek_loop off cur s = Some (NET_ERR_NONE, s') \<and> ready data s' \<and> int (at_offset s') = off"
  using assms
proof (induction "nat (off - cur)" arbitrary: cur s rule: less_induct)
  case less
  show ?case
  proof (cases "cur < off")
    case False
    then show ?thesis using less.prems by (simp add: url_seek_loop.simps)
  next
    case True
    define n where "n = min SEEK_BUF_SIZE (nat (off - cur))"
    have n: "0 < n" "int n \<le> off - cur" using True by (auto simp: n_def SEEK_BUF_SIZE_def)
    obtain b s1 where a: "url_read n s = Some (int n, b, s1)" "ready data s1" "at_offset s1 = at_offset s + n"
      using url_read_ready[OF less.prems(1) n(1)] n(2) less.prems(2,4) by auto
    have "url_seek_loop off cur s = url_seek_loop off (cur + int n) s1"
      using True a(1)[unfolded n_def] by (subst url_seek_loop.simps) (simp add: n_def)
    with less.hyps[OF _ a(2), of "cur + int n"] n a(3) less.prems show ?thesis by simp
  qed
qed

lemma url_seek_ready:
  assumes "ready data s" "int (at_offset s) \<le> off" "off \<le> int (length data)"
  shows "\<exists>s'. url_seek off SEEK_SET s = Some (NET_ERR_NONE, s') \<and> ready data s' \<and> int (at_offset s') = off"
  using url_seek_loop_ready[OF assms(1) refl assms(2,3)] by (simp add: url_seek_def)

subsection \<open>Limits of the ring\<close>

definition fresh_cache :: "u8 list \<Rightarrow> net_cache" where
  "fresh_cache buf = zero_cache\<lparr>cache_buff := buf, cache_size := length buf\<rparr>"

lemma fresh_cache_ok [simp]: "cache_ok (fresh_cache buf)" "queue (fresh_cache buf) = []"
  by (simp_all add: cache_ok_def queue_def fresh_cache_def zero_cache_def)

text \<open>When a file arrives before the first access and fits, it is in the ring as a whole.\<close>

lemma fresh_arrived:
  assumes "cache g = fresh_cache buf" "\<not> url_abort g" "net_desc g = None" "length data \<le> length buf"
  shows "\<exists>g1. deliver [data] g = Some ([], g1) \<and> ready data ([], g1) \<and> file_offset (cache g1) = 0 \<and> url_file_size g1 = url_file_size g"
proof -
  let ?c = "(fresh_cache buf)\<lparr>cache_buff := memcpy_at 0 data buf, wr_pos := length data, unread_data_len := length data\<rparr>"
  have d: "deliver [data] g = Some ([], g\<lparr>cache := ?c\<rparr>)"
    using assms by (simp add: write_data_def cache_put_def put_bytes_def show_download_def fresh_cache_def zero_cache_def Let_def)
  have "cache_ok ?c" "queue ?c = data" using assms(4) by (simp_all add: cache_ok_def queue_def fresh_cache_def zero_cache_def memcpy_at_def)
  then have "ready data ([], g\<lparr>cache := ?c\<rparr>)"
    using assms(2) by (simp add: ready_def net_inv_def) (simp add: fresh_cache_def zero_cache_def)
  with d show ?thesis by (auto simp: fresh_cache_def zero_cache_def)
qed

lemma read_access_arrived: "deliver bs g = Some ([], g1) \<Longrightarrow> read_access n ([bs], g) = read_access n ([], g1)"
  by (simp add: read_access_def push_back_def)

lemma url_read_arrived:
  assumes "deliver bs g = Some ([], g1)" "0 < n"
  shows "url_read n ([bs], g) = url_read n ([], g1)"
  using assms(2) read_access_arrived[OF assms(1)] by (simp add: url_read_def url_read_loop.simps[of n READ_SIZE 0 "[]"])

lemma url_seek_arrived:
  assumes "deliver bs g = Some ([], g1)" "int (file_offset (cache g)) < off" "file_offset (cache g1) = file_offset (cache g)"
  shows "url_seek off SEEK_SET ([bs], g) = url_seek off SEEK_SET ([], g1)"
proof -
  have "0 < min SEEK_BUF_SIZE (nat (off - int (file_offset (cache g))))" using assms(2) by (simp add: SEEK_BUF_SIZE_def)
  from url_read_arrived[OF assms(1) this] show ?thesis
    using assms(2,3) by (simp add: url_seek_def url_seek_loop.simps[of off "int (file_offset (cache g))"])
qed

text \<open>
  A ring that is large enough for it can be driven to fill up exactly after the writer went
  around; the next read over the end of the buffer then leaves the buffer.
\<close>

lemma ring_overrun_reachable:
  assumes "cache g = fresh_cache buf" "\<not> url_abort g" "net_desc g = None" "length a = k" "0 < k" "k < length buf" "length b = length buf"
  shows "\<exists>g1 c g2. write_data a g = Ret (int k, g1) \<and> url_read_cache k (cache g1) = Ret (int k, a, c) \<and>
    write_data b (g1\<lparr>cache := c\<rparr>) = Ret (int (length b), g2) \<and> url_read_cache (length buf - k + 1) (cache g2) = Fault"
proof -
  let ?c1 = "(fresh_cache buf)\<lparr>cache_buff := memcpy_at 0 a buf, wr_pos := k, unread_data_len := k\<rparr>"
  let ?c2 = "?c1\<lparr>rd_pos := k, unread_data_len := 0, file_offset := k\<rparr>"
  let ?b = "memcpy_at 0 (drop (length buf - k) b) (memcpy_at k (take (length buf - k) b) (memcpy_at 0 a buf))"
  let ?c3 = "?c2\<lparr>cache_buff := ?b, wr_pos := k, unread_data_len := length buf\<rparr>"
  have "write_data a g = Ret (int k, g\<lparr>cache := ?c1\<rparr>)"
    using assms by (simp add: write_data_def cache_put_def put_bytes_def show_download_def fresh_cache_def zero_cache_def Let_def)
  moreover have "url_read_cache k ?c1 = Ret (int k, a, ?c2)"
    using assms by (simp add: url_read_cache_def cache_get_def get_bytes_def fresh_cache_def zero_cache_def memcpy_at_def)
  moreover have "write_data b (g\<lparr>cache := ?c1\<rparr>\<lparr>cache := ?c2\<rparr>) = Ret (int (length b), g\<lparr>cache := ?c3\<rparr>)"
    using assms by (simp add: write_data_def cache_put_def put_bytes_def show_download_def fresh_cache_def zero_cache_def Let_def)
  moreover have "url_read_cache (length buf - k + 1) ?c3 = Fault"
    using assms by (simp add: url_read_cache_def cache_get_def get_bytes_def fresh_cache_def zero_cache_def)
  ultimately show ?thesis by fastforce
qed

definition tiny_net :: "u8 list \<Rightarrow> net" where
  "tiny_net buf = \<lparr>cache = fresh_cache buf, cache_change_flag = 0, package_buf = None, package_len = 0, url_file_size = 0, url_abort = False,
     net_desc = None, net_download_finish = False\<rparr>"

lemma tiny_net_simps: "cache (tiny_net buf) = fresh_cache buf" "\<not> url_abort (tiny_net buf)" "net_desc (tiny_net buf) = None"
  "cache_change_flag (tiny_net buf) = 0" "cache_size (fresh_cache buf) = length buf"
  by (simp_all add: tiny_net_def fresh_cache_def)

text \<open>
  (C10) Everywhere else the ring is a queue of bytes: a block for which there is room is appended, and a
  read of at least one byte returns and removes the bytes at the front; only when there is no
  room, or fewer bytes than asked for, the call waits. Both keep the ring well formed.
\<close>

theorem ring_is_queue:
  assumes "cache_ok (cache g)" and "\<not> url_abort g" and "net_desc g = None" and "0 < n"
  shows "(if length (queue (cache g)) + length b \<le> cache_size (cache g)
      then \<exists>g'. write_data b g = Ret (int (length b), g') \<and> cache_ok (cache g') \<and> queue (cache g') = queue (cache g) @ b
      else write_data b g = Wait) \<and>
    (if n \<le> length (queue (cache g))
      then wraps_full n (cache g) \<or> (\<exists>c. url_read_cache n (cache g) = Ret (int n, take n (queue (cache g)), c) \<and> cache_ok c \<and> queue c = drop n (queue (cache g)))
      else url_read_cache n (cache g) = Wait)"
proof -
  let ?c = "cache g"
  have w: "\<exists>g'. write_data b g = Ret (int (length b), g') \<and> cache_ok (cache g') \<and> queue (cache g') = queue ?c @ b"
    if fits: "unread_data_len ?c + length b \<le> cache_size ?c"
  proof -
    obtain g' where "write_data b g = Ret (int (length b), g')"
      using cache_put_ok[OF assms(1) fits] assms(2,3) fits by (auto simp: write_data_def show_download_def)
    with write_data_ok[OF assms(1,2) this] show ?thesis by blast
  qed
  have r: "\<exists>c. url_read_cache n ?c = Ret (int n, take n (queue ?c), c) \<and> cache_ok c \<and> queue c = drop n (queue ?c)"
    if full: "n \<le> unread_data_len ?c" "\<not> wraps_full n ?c"
  proof -
    obtain x bs c where "url_read_cache n ?c = Ret (x, bs, c)"
      using cache_get_ok[OF assms(1,4) full] assms(4) full by (auto simp: url_read_cache_def)
    with url_read_cache_ok[OF assms(1,4) this] show ?thesis by blast
  qed
  have "write_data b g = Wait" if "\<not> unread_data_len ?c + length b \<le> cache_size ?c"
    using that assms(2) by (simp add: write_data_def)
  moreover have "url_read_cache n ?c = Wait" if "\<not> n \<le> unread_data_len ?c"
    using that assms(4) by (simp add: url_read_cache_def)
  ultimately show ?thesis
    unfolding length_queue[OF assms(1)] using w r by (cases "wraps_full n ?c") simp_all
qed

theorem ring_is_queue_witness:
  "\<exists>g. write_data [1, 2, 3] (tiny_net [0, 0, 0, 0]) = Ret (3, g) \<and> queue (cache g) = [1, 2, 3] \<and> url_read_cache 2 (cache (tiny_net [0, 0, 0, 0])) = Wait"
  using ring_is_queue[of "tiny_net [0, 0, 0, 0]" 2 "[1, 2, 3]"] by (auto simp: tiny_net_simps)

text \<open>With the sizes of the code the two threads never wait for each other.\<close>

lemma cache_never_deadlocks:
  assumes "cache_ok (cache g)" "cache_size (cache g) = CACHE_BUF_SIZE" "n \<le> READ_SIZE" "length b \<le> WRITER_MAX_LEN"
    and "url_read_cache n (cache g) = Wait"
  shows "write_data b g \<noteq> Wait"
proof -
  have "unread_data_len (cache g) < READ_SIZE"
    using assms(3,5) by (auto simp: url_read_cache_def split: if_splits option.splits)
  then have "unread_data_len (cache g) + length b \<le> CACHE_BUF_SIZE"
    using assms(4) by (simp add: READ_SIZE_def WRITER_MAX_LEN_def CACHE_BUF_SIZE_def)
  then show ?thesis using assms(2) by (auto simp: write_data_def split: option.splits)
qed

text \<open>A seek to a place that has been passed is reported as done and leaves the position.\<close>

lemma seek_back_ignored: "off \<le> int (at_offset s) \<Longrightarrow> url_seek off SEEK_SET s = Some (NET_ERR_NONE, s)"
  by (simp add: url_seek_def url_seek_loop.simps)

text \<open>The code for an aborted transfer is a valid length: libcurl takes a block of four bytes for stored.\<close>

lemma abort_looks_stored: "url_abort g \<Longrightarrow> length b = 4 \<Longrightarrow> write_data b g = Ret (int (length b), g)"
  by (simp add: write_data_def NET_ERR_ABORT_def)

text \<open>Reading nothing returns a positive error number, which callers take for a length.\<close>

lemma empty_read_positive: "url_read 0 s = Some (r, bs, s') \<Longrightarrow> 0 < r"
  by (auto simp: url_read_def ERR_INVALIDPARAM_CODE_def)

end
