(* ===== verification/Net_Config.thy ===== *)
theory Net_Config
  imports Net_Cache
begin

section \<open>The configuration file of the network plugin (\<open>net.c\<close>)\<close>

text \<open>
  Before a package is downloaded a small text file is: one line per model, of the form
  \<open>model=hardware;version;file\<close>. The package is expected beside the configuration file. C strings
  are character lists without the terminating zero; a null pointer is \<open>None\<close>.
\<close>

subsection \<open>Strings\<close>

text \<open>The character at a position of a string, which ends with a zero.\<close>

definition char_at :: "string \<Rightarrow> nat \<Rightarrow> char" where
  "char_at s p = (if p < length s then s ! p else CHR 0x00)"

text \<open>The search for the last slash, backwards from the end.\<close>

primrec slash_pos :: "string \<Rightarrow> nat \<Rightarrow> nat" where
  "slash_pos s 0 = 0"
| "slash_pos s (Suc p) = (if char_at s (Suc p) = CHR ''/'' then Suc p else slash_pos s p)"

definition get_url_from_configurl :: "string \<Rightarrow> string" where
  "get_url_from_configurl configurl = take (slash_pos configurl (length configurl) + 1) configurl"

text \<open>The token up to a delimiter, and what follows it.\<close>

definition strsep :: "string option \<Rightarrow> string \<Rightarrow> string option \<times> string option" where
  "strsep stringp delim =
     (case stringp of
        None \<Rightarrow> (None, None)
      | Some s \<Rightarrow>
          let tok = takeWhile (\<lambda>c. c \<notin> set delim) s
          in (Some tok, if length tok < length s then Some (drop (length tok + 1) s) else None))"

text \<open>
  The number of a version \<open>xx.xx.xx\<close>; 0 for anything else. The loop keeps the number and the
  current field.
\<close>

primrec version_loop :: "string \<Rightarrow> int \<Rightarrow> int \<Rightarrow> (int \<times> int) option" where
  "version_loop [] v fld = Some (v, fld)"
| "version_loop (c # cs) v fld =
     (if c \<in> set ''0123456789'' then
        let fld = fld * 10 + (int (of_char c) - 48)
        in if 99 < fld then None else version_loop cs v fld
      else if c = CHR ''.'' then version_loop cs (to_int32 (v * 100 + fld)) 0
      else None)"

definition calc_version :: "string \<Rightarrow> int" where
  "calc_version sver =
     (case version_loop sver 0 0 of
        None \<Rightarrow> 0
      | Some (v, fld) \<Rightarrow> let v = to_int32 (v * 100 + fld) in if 999999 < v then 0 else v)"

subsection \<open>The lines of the configuration\<close>

text \<open>\<open>strncpy\<close> into an array of 256 characters; a longer string is not terminated.\<close>

definition strncpy256 :: "string \<Rightarrow> string option" where
  "strncpy256 s = (if length s < 256 then Some s else None)"

text \<open>The first three fields of a line; the loop stops after the third.\<close>

primrec line_items :: "nat \<Rightarrow> string option \<Rightarrow> string list" where
  "line_items 0 line = []"
| "line_items (Suc n) line =
     (case strsep line '';'' of
        (None, _) \<Rightarrow> []
      | (Some tok, rest) \<Rightarrow> tok # line_items n rest)"

definition check_config_item :: "string \<Rightarrow> (string option \<times> string option) option" where
  "check_config_item line =
     (let items = line_items 3 (Some line)
      in if length items \<noteq> 3 then None else Some (strncpy256 (items ! 1), strncpy256 (items ! 2)))"

text \<open>
  All lines are looked at; the last one that is well formed decides. The value is its file,
  \<open>Some None\<close> when the name was not terminated.
\<close>

function config_lines :: "string option \<Rightarrow> string option option \<Rightarrow> string option option" where
  "config_lines down_buf sfile =
     (case strsep down_buf [CHR 0x0A] of
        (None, _) \<Rightarrow> sfile
      | (Some line, rest) \<Rightarrow>
          config_lines rest (case check_config_item line of None \<Rightarrow> sfile | Some (ver, f) \<Rightarrow> Some f))"
  by pat_completeness auto

termination
  by (relation "measure (\<lambda>(b, f). case b of None \<Rightarrow> 0 | Some s \<Rightarrow> Suc (length s))")
    (auto simp: strsep_def Let_def split: option.splits if_splits)

declare config_lines.simps [simp del]

subsection \<open>Fetching the configuration\<close>

text \<open>
  What a connection does: the content of the static buffer, whether libcurl and the thread start,
  the length the server reports (\<open>None\<close>: the request failed) and the blocks that arrive before
  each access of the reader.
\<close>

record net_conn =
  cn_static :: "u8 list"
  cn_curl :: bool
  cn_create :: bool
  cn_answer :: "int option"
  cn_arrivals :: "u8 list list list"

text \<open>
  Opening and waiting for the size of the file. The results: a thread runs, the size came in
  time, and the state of the reader.
\<close>

definition url_connect :: "net_conn \<Rightarrow> net \<Rightarrow> bool \<times> bool \<times> net_run" where
  "url_connect cn g =
     (let (ok, g) = url_open (cn_static cn) (cn_curl cn) (cn_create cn) g
      in if \<not> ok then (False, False, [], g)
         else
           let (more, g) = transfer_size (cn_answer cn) g
           in (True, url_file_size g \<noteq> 0, if more then cn_arrivals cn else [], g))"

text \<open>The bytes of a C string in memory: \<open>behind\<close> is what the heap holds behind the buffer.\<close>

definition text_of :: "u8 list \<Rightarrow> u8 list \<Rightarrow> string option" where
  "text_of bs behind = c_string (bs @ behind)"

text \<open>
  The number returned is that of an \<open>upg_err\<close>; \<open>upgfile_url\<close> keeps its value unless a file was
  found. \<open>malloc_ok\<close> and \<open>behind\<close> describe the buffer of the downloaded text; a negative size, which
  libcurl reports for an unknown one, is too large for \<open>malloc\<close>.
\<close>

definition check_url_config_file :: "net_conn \<Rightarrow> bool \<Rightarrow> u8 list \<Rightarrow> string \<Rightarrow> string \<Rightarrow> net \<Rightarrow> (int \<times> string \<times> net) option" where
  "check_url_config_file cn malloc_ok behind confile_url upgfile_url g =
     (case url_connect cn g of
        (False, _, _, g) \<Rightarrow> Some (ERR_OTHER_CODE, upgfile_url, g)
      | (True, False, _, g) \<Rightarrow> Some (1, upgfile_url, snd (url_close g))
      | (True, True, s) \<Rightarrow>
          let file_len = nat (url_file_size (snd s))
          in if \<not> malloc_ok \<or> url_file_size (snd s) < 0 then Some (ERR_OTHER_CODE, upgfile_url, snd (url_close (snd s)))
             else do {
               (ret_len, bs, s) \<leftarrow> url_read file_len s;
               if ret_len < 0 then Some (5, upgfile_url, snd (url_close (snd s)))
               else do {
                 down_buf \<leftarrow> text_of bs behind;
                 case config_lines (Some down_buf) None of
                   None \<Rightarrow> Some (ERR_OTHER_CODE, upgfile_url, snd (url_close (snd s)))
                 | Some sfile \<Rightarrow> do {
                     sfile \<leftarrow> sfile;
                     Some (0, get_url_from_configurl confile_url @ sfile, snd (url_close (snd s))) } } })"

definition get_config_from_urlfile :: "net_conn \<Rightarrow> nat \<Rightarrow> net \<Rightarrow> (int \<times> u8 list \<times> net) option" where
  "get_config_from_urlfile cn len g =
     (case url_connect cn g of
        (False, _, _, g) \<Rightarrow> Some (0, [], g)
      | (True, False, _, g) \<Rightarrow> Some (0, [], snd (url_close g))
      | (True, True, s) \<Rightarrow> do {
          (ret_len, bs, s) \<leftarrow> url_read len s;
          Some (ret_len, bs, snd (url_close (snd s))) })"

subsection \<open>Writing and reading a configuration\<close>

text \<open>The place of the configuration file is the string up to its last slash.\<close>

lemma slash_pos_at:
  assumes "p \<le> q" "p = 0 \<or> char_at s p = CHR ''/''" "\<forall>i. p < i \<and> i \<le> q \<longrightarrow> char_at s i \<noteq> CHR ''/''"
  shows "slash_pos s q = p"
  using assms
proof (induction q)
  case (Suc q)
  then show ?case by (cases "p = Suc q") auto
qed simp

lemma get_url_directory:
  assumes "CHR ''/'' \<notin> set f"
  shows "get_url_from_configurl (d @ ''/'' @ f) = d @ ''/''"
proof -
  let ?s = "d @ ''/'' @ f"
  have "char_at ?s i \<noteq> CHR ''/''" if "length d < i" "i \<le> length ?s" for i
  proof (cases "i < length ?s")
    case True
    then have "char_at ?s i = f ! (i - length d - 1)" using that by (simp add: char_at_def nth_append)
    moreover have "f ! (i - length d - 1) \<in> set f" using that True by simp
    ultimately show ?thesis using assms by metis
  qed (simp add: char_at_def)
  then have "slash_pos ?s (length ?s) = length d"
    by (intro slash_pos_at) (auto simp: char_at_def)
  then show ?thesis by (simp add: get_url_from_configurl_def)
qed

lemma strsep_delim: "\<forall>c\<in>set t. c \<notin> set d \<Longrightarrow> c \<in> set d \<Longrightarrow> strsep (Some (t @ c # r)) d = (Some t, Some r)"
  by (auto simp: strsep_def takeWhile_append)

lemma strsep_last: "\<forall>c\<in>set t. c \<notin> set d \<Longrightarrow> strsep (Some t) d = (Some t, None)"
  by (simp add: strsep_def takeWhile_eq_all_conv[THEN iffD2] Let_def)

text \<open>An entry of the configuration, as a line of the file.\<close>

record config_entry =
  ce_model :: string
  ce_version :: string
  ce_file :: string

definition entry_line :: "config_entry \<Rightarrow> string" where
  "entry_line ce = ce_model ce @ '';'' @ ce_version ce @ '';'' @ ce_file ce"

definition entry_ok :: "config_entry \<Rightarrow> bool" where
  "entry_ok ce \<longleftrightarrow> (\<forall>s\<in>{ce_model ce, ce_version ce, ce_file ce}. CHR '';'' \<notin> set s \<and> CHR 0x0A \<notin> set s) \<and>
     length (ce_version ce) < 256 \<and> length (ce_file ce) < 256"

primrec config_text :: "config_entry list \<Rightarrow> string" where
  "config_text [] = []"
| "config_text (ce # ces) = entry_line ce @ (if ces = [] then [] else CHR 0x0A # config_text ces)"

text \<open>What comes behind the file name in its line is taken for a part of it, up to a semicolon.\<close>

lemma check_entry_line:
  assumes "entry_ok ce"
  shows "check_config_item (entry_line ce @ l) = Some (Some (ce_version ce), strncpy256 (ce_file ce @ takeWhile (\<lambda>c. c \<noteq> CHR '';'') l))"
proof -
  have "takeWhile (\<lambda>c. c \<noteq> CHR '';'') (ce_file ce @ l) = ce_file ce @ takeWhile (\<lambda>c. c \<noteq> CHR '';'') l"
    using assms by (intro takeWhile_append2) (auto simp: entry_ok_def)
  then obtain rest where 3: "strsep (Some (ce_file ce @ l)) '';'' = (Some (ce_file ce @ takeWhile (\<lambda>c. c \<noteq> CHR '';'') l), rest)"
    by (simp add: strsep_def Let_def)
  have "strsep (Some (entry_line ce @ l)) '';'' = (Some (ce_model ce), Some (ce_version ce @ '';'' @ ce_file ce @ l))"
    "strsep (Some (ce_version ce @ '';'' @ ce_file ce @ l)) '';'' = (Some (ce_version ce), Some (ce_file ce @ l))"
    using assms strsep_delim[of _ "'';''" "CHR '';''"] by (auto simp: entry_ok_def entry_line_def)
  then show ?thesis
    using assms by (simp add: check_config_item_def Let_def numeral_3_eq_3 3) (simp add: strncpy256_def entry_ok_def)
qed

lemma entry_line_newline: "entry_ok ce \<Longrightarrow> \<forall>c\<in>set (entry_line ce). c \<notin> set [CHR 0x0A]"
  by (auto simp: entry_ok_def entry_line_def)

text \<open>The last well-formed line decides, whatever came before it.\<close>

lemma config_lines_None [simp]: "config_lines None sfile = sfile"
  by (subst config_lines.simps) (simp add: strsep_def)

lemma config_lines_found: "config_lines b (Some x) = (case config_lines b None of None \<Rightarrow> Some x | Some y \<Rightarrow> Some y)"
proof (induction b arbitrary: x rule: measure_induct_rule[where f = "\<lambda>b. case b of None \<Rightarrow> 0 | Some s \<Rightarrow> Suc (length s)"])
  case (less b)
  show ?case
  proof (cases b)
    case (Some s)
    obtain line rest where p: "strsep b [CHR 0x0A] = (Some line, rest)"
      using Some by (auto simp: strsep_def Let_def)
    have step: "config_lines b sf = config_lines rest (case check_config_item line of None \<Rightarrow> sf | Some (ver, f) \<Rightarrow> Some f)" for sf
      using p by (simp add: config_lines.simps[of b])
    have "(case rest of None \<Rightarrow> 0 | Some s \<Rightarrow> Suc (length s)) < (case b of None \<Rightarrow> 0 | Some s \<Rightarrow> Suc (length s))"
      using p Some by (auto simp: strsep_def Let_def split: if_splits)
    from less[OF this] show ?thesis
      unfolding step by (cases "check_config_item line") (auto split: option.splits)
  qed simp
qed

lemma takeWhile_both: "takeWhile P (takeWhile Q xs) = takeWhile (\<lambda>c. P c \<and> Q c) xs"
  by (induction xs) auto

text \<open>
  The text with whatever follows it in memory: the rest of its last line is a part of that line,
  and the lines behind it are looked at too.
\<close>

lemma config_lines_entries:
  assumes "\<forall>ce\<in>set ces. entry_ok ce" "ces \<noteq> []"
  shows "config_lines (Some (config_text ces @ tail)) sfile = config_lines (snd (strsep (Some tail) [CHR 0x0A]))
    (Some (strncpy256 (ce_file (last ces) @ takeWhile (\<lambda>c. c \<noteq> CHR '';'' \<and> c \<noteq> CHR 0x0A) tail)))"
  using assms
proof (induction ces arbitrary: sfile)
  case (Cons ce ces)
  then have ce: "entry_ok ce" by simp
  note nl = entry_line_newline[OF ce]
  show ?case
  proof (cases "ces = []")
    case True
    have "strsep (Some (entry_line ce @ tail)) [CHR 0x0A] =
        (Some (entry_line ce @ takeWhile (\<lambda>c. c \<noteq> CHR 0x0A) tail), snd (strsep (Some tail) [CHR 0x0A]))"
      using nl takeWhile_append2[of "entry_line ce" "\<lambda>c. c \<noteq> CHR 0x0A" tail] by (fastforce simp: strsep_def Let_def)
    then show ?thesis
      using True check_entry_line[OF ce] by (simp add: config_lines.simps[of "Some (entry_line ce @ _)"] takeWhile_both)
  next
    case False
    then show ?thesis
      using strsep_delim[OF nl, of "CHR 0x0A" "config_text ces @ tail"] check_entry_line[OF ce, of "[]"] Cons
      by (simp add: config_lines.simps[of "Some (entry_line ce @ _)"])
  qed
qed simp

text \<open>
  The comment speaks of lines that end with a carriage return and a newline, but only the
  newline is a delimiter: the carriage return becomes part of the file name.
\<close>

lemma carriage_return_kept:
  assumes "entry_ok ce" "length (ce_file ce) < 255"
  shows "config_lines (Some (entry_line ce @ [CHR 0x0D, CHR 0x0A])) None = Some (Some (ce_file ce @ [CHR 0x0D]))"
proof -
  let ?ce = "ce\<lparr>ce_file := ce_file ce @ [CHR 0x0D]\<rparr>"
  have ce: "entry_ok ?ce" using assms by (auto simp: entry_ok_def)
  have "entry_line ce @ [CHR 0x0D, CHR 0x0A] = entry_line ?ce @ CHR 0x0A # []" by (simp add: entry_line_def)
  then have "config_lines (Some (entry_line ce @ [CHR 0x0D, CHR 0x0A])) None = config_lines (Some (entry_line ?ce @ CHR 0x0A # [])) None"
    by (rule arg_cong)
  also have "\<dots> = config_lines (Some []) (Some (Some (ce_file ?ce)))"
    using strsep_delim[OF entry_line_newline[OF ce], of "CHR 0x0A" "[]"] check_entry_line[OF ce, of "[]"] assms(2)
    by (subst config_lines.simps) (simp add: strncpy256_def)
  also have "\<dots> = Some (Some (ce_file ?ce))"
    by (simp add: config_lines.simps strsep_def check_config_item_def Let_def numeral_3_eq_3)
  finally show ?thesis by simp
qed

subsection \<open>Version numbers\<close>

lemma digit_field:
  assumes "d < 10"
  shows "digit_char d \<in> set ''0123456789''" "int (of_char (digit_char d)) - 48 = int d"
proof -
  have "\<forall>d\<in>set [0..<10]. digit_char d \<in> set ''0123456789'' \<and> int (of_char (digit_char d)) - 48 = int d" by code_simp
  with assms show "digit_char d \<in> set ''0123456789''" "int (of_char (digit_char d)) - 48 = int d" by simp_all
qed

lemma version_digits:
  assumes "n < 100"
  shows "version_loop (dec_string n @ cs) v 0 = version_loop cs v (int n)"
proof (cases "n < 10")
  case True
  then show ?thesis
    using digit_field[OF True] by (simp add: dec_string.simps[of n] Let_def del: set_simps)
next
  case False
  have q: "n div 10 < 10" "n mod 10 < 10" "int n = int (n div 10) * 10 + int (n mod 10)" using assms by presburger+
  have "dec_string n = [digit_char (n div 10), digit_char (n mod 10)]"
    using False q(1) by (simp add: dec_string.simps[of n] dec_string.simps[of "n div 10"])
  then show ?thesis
    using digit_field[OF q(1)] digit_field[OF q(2)] q assms by (simp add: Let_def del: set_simps)
qed

lemma version_number:
  assumes "a < 100" "b < 100" "c < 100"
  shows "calc_version (dec_string a @ ''.'' @ dec_string b @ ''.'' @ dec_string c) = int (a * 10000 + b * 100 + c)"
proof -
  have "version_loop (CHR ''.'' # cs) v fld = version_loop cs (to_int32 (v * 100 + fld)) 0" for cs v fld by simp
  moreover have "to_int32 (int x) = int x" if "x < 1000000" for x using that by (intro to_int32_id) simp_all
  note this[of a] this[of "a * 100 + b"] this[of "a * 10000 + b * 100 + c"]
  ultimately show ?thesis
    using version_digits[OF assms(1)] version_digits[OF assms(2)] version_digits[OF assms(3), of "[]"] assms
    by (simp add: calc_version_def Let_def algebra_simps)
qed

subsection \<open>Fetching a configuration\<close>

lemma text_of_bytes:
  assumes "CHR 0x00 \<notin> set t"
  shows "text_of (map of_char t) behind = map_option ((@) t) (c_string behind)"
proof -
  have z: "(of_char c :: u8) \<noteq> 0" if "c \<in> set t" for c
  proof
    assume "(of_char c :: u8) = 0"
    then have "(of_char c :: nat) = 0" using unat_of_char[of c] by simp
    with that assms show False using of_char_0 by metis
  qed
  then have "takeWhile (\<lambda>b. b \<noteq> 0) (map of_char t @ behind) = map of_char t @ takeWhile (\<lambda>b. b \<noteq> (0 :: u8)) behind"
    by (subst takeWhile_append2) auto
  moreover have "(0 :: u8) \<notin> set (map of_char t)" using z by auto
  ultimately show ?thesis by (simp add: text_of_def c_string_def comp_def unat_of_char)
qed

text \<open>A new connection delivers the file from its start.\<close>

lemma url_connect_inv:
  assumes "url_connect cn g = (True, sized, s)" "cache_change_flag g \<noteq> 1" "length (cn_static cn) = CACHE_BUF_SIZE"
    and "prefix (concat (concat (cn_arrivals cn))) data"
  shows "net_inv data s" "at_offset s = 0" "sized \<Longrightarrow> cn_answer cn = Some len \<Longrightarrow> url_file_size (snd s) = to_int32 len"
proof -
  have c: "cache_ok (zero_cache\<lparr>cache_buff := cn_static cn, cache_size := CACHE_BUF_SIZE\<rparr>)"
    "queue (zero_cache\<lparr>cache_buff := cn_static cn, cache_size := CACHE_BUF_SIZE\<rparr>) = []"
    using assms(3) by (simp_all add: cache_ok_def queue_def zero_cache_def)
  then show "net_inv data s" "at_offset s = 0" "sized \<Longrightarrow> cn_answer cn = Some len \<Longrightarrow> url_file_size (snd s) = to_int32 len"
    using assms by (auto simp: url_connect_def url_open_def transfer_size_def Let_def net_inv_def zero_cache_def split: if_splits option.splits)
qed

text \<open>The file of the entries, with or without a newline at its end.\<close>

definition config_file_text :: "config_entry list \<Rightarrow> bool \<Rightarrow> string" where
  "config_file_text ces nl = config_text ces @ (if nl then [CHR 0x0A] else [])"

text \<open>
  (C36) Whatever the network does, a configuration file that is fetched without an error names the
  package in the directory of the configuration file. Its name is that of the last entry,
  unless what the heap holds behind the buffer changes it: the buffer is as long as the file and
  the text is not terminated, so the parser reads on to the next zero byte (\<open>tail\<close>). A
  well-formed line among the heap bytes names the file instead; and when the file does not
  end with a newline, the heap bytes up to a semicolon or newline are appended to the
  name. Only newlines end a line: a name in a file with CR LF line ends keeps its carriage
  return.
\<close>

theorem config_fetched:
  assumes "cache_change_flag g \<noteq> 1" "length (cn_static cn) = CACHE_BUF_SIZE"
    and "\<forall>ce\<in>set ces. entry_ok ce" "ces \<noteq> []" "text = config_file_text ces nl" "CHR 0x00 \<notin> set text"
    and "cn_answer cn = Some (int (length text))" "length text < 2 ^ 31"
    and "prefix (concat (concat (cn_arrivals cn))) (map of_char text)" "CHR ''/'' \<notin> set f"
    and "check_url_config_file cn malloc_ok behind (d @ ''/'' @ f) url g = Some (0, url', g')"
  shows "\<exists>tail. c_string behind = Some tail \<and>
    (case config_lines (if nl then Some tail else snd (strsep (Some tail) [CHR 0x0A])) None of
       Some (Some heap_file) \<Rightarrow> url' = d @ ''/'' @ heap_file
     | _ \<Rightarrow> url' = d @ ''/'' @ ce_file (last ces) @ (if nl then [] else takeWhile (\<lambda>c. c \<noteq> CHR '';'' \<and> c \<noteq> CHR 0x0A) tail))"
proof -
  let ?data = "map of_char text :: u8 list"
  obtain s where s: "url_connect cn g = (True, True, s)"
    using assms(11) by (auto simp: check_url_config_file_def ERR_OTHER_CODE_def split: prod.splits bool.splits)
  note ci = url_connect_inv[OF s assms(1,2,9)]
  have sz: "url_file_size (snd s) = int (length ?data)"
    using ci(3)[OF _ assms(7)] assms(8) by (simp add: to_int32_id)
  have ne: "0 < length ?data" using assms(4,5) by (cases ces) (auto simp: entry_line_def config_file_text_def)
  obtain r bs s' where rd: "url_read (length ?data) s = Some (r, bs, s')" "0 \<le> r"
    using assms(11) s sz by (auto simp: check_url_config_file_def ERR_OTHER_CODE_def split: if_splits bind_splits)
  then have "bs = ?data" using url_read_ok(2)[OF ci(1) ne rd(1)] ci(2) by auto
  then obtain tail sfile where t: "c_string behind = Some tail" "config_lines (Some (text @ tail)) None = Some (Some sfile)"
      "url' = d @ ''/'' @ sfile"
    using assms(11) s sz rd text_of_bytes[OF assms(6), of behind] get_url_directory[OF assms(10), of d]
    by (auto simp: check_url_config_file_def ERR_OTHER_CODE_def bind_eq_Some_conv split: if_splits option.splits)
  let ?seen = "(if nl then [CHR 0x0A] else []) @ tail"
  have seen: "snd (strsep (Some ?seen) [CHR 0x0A]) = (if nl then Some tail else snd (strsep (Some tail) [CHR 0x0A]))"
    "takeWhile (\<lambda>c. c \<noteq> CHR '';'' \<and> c \<noteq> CHR 0x0A) ?seen = (if nl then [] else takeWhile (\<lambda>c. c \<noteq> CHR '';'' \<and> c \<noteq> CHR 0x0A) tail)"
    by (cases nl; simp add: strsep_def)+
  have "config_lines (if nl then Some tail else snd (strsep (Some tail) [CHR 0x0A]))
      (Some (strncpy256 (ce_file (last ces) @ (if nl then [] else takeWhile (\<lambda>c. c \<noteq> CHR '';'' \<and> c \<noteq> CHR 0x0A) tail)))) = Some (Some sfile)"
    using t(2) config_lines_entries[OF assms(3,4), of ?seen None] unfolding seen assms(5) config_file_text_def by simp
  then show ?thesis
    using t(1,3) config_lines_found by (auto simp: strncpy256_def split: option.splits if_splits)
qed

text \<open>A configuration of two entries that arrives at once.\<close>

definition demo_entries :: "config_entry list" where
  "demo_entries = [\<lparr>ce_model = ''1=35001-01001'', ce_version = ''01.00.00'', ce_file = ''old.bin''\<rparr>,
     \<lparr>ce_model = ''1=35001-01001'', ce_version = ''01.00.01'', ce_file = ''new.bin''\<rparr>]"

definition config_conn :: "u8 list \<Rightarrow> net_conn" where
  "config_conn bs = \<lparr>cn_static = replicate CACHE_BUF_SIZE 0, cn_curl = True, cn_create = True, cn_answer = Some (int (length bs)), cn_arrivals = [[bs]]\<rparr>"

lemma config_arrives:
  assumes "cache_change_flag g \<noteq> 1" "net_desc g = None" "0 < length bs" "length bs \<le> CACHE_BUF_SIZE" "text_of bs behind = Some t"
    and "config_lines (Some t) None = Some (Some sfile)"
  shows "\<exists>g'. check_url_config_file (config_conn bs) True behind confile_url url g = Some (0, get_url_from_configurl confile_url @ sfile, g')"
proof -
  let ?g = "g\<lparr>url_abort := False, url_file_size := int (length bs), cache := fresh_cache (replicate CACHE_BUF_SIZE 0)\<rparr>"
  have "to_int32 (int (length bs)) = int (length bs)" using assms(4) by (intro to_int32_id) (simp_all add: CACHE_BUF_SIZE_def)
  then have c: "url_connect (config_conn bs) g = (True, True, [[bs]], ?g)"
    using assms(1,3) by (simp add: url_connect_def url_open_def transfer_size_def config_conn_def Let_def fresh_cache_def)
  obtain g1 where g1: "deliver [bs] ?g = Some ([], g1)" "ready bs ([], g1)" "file_offset (cache g1) = 0"
    using fresh_arrived[of ?g "replicate CACHE_BUF_SIZE 0" bs] assms(2,4) by auto
  from url_read_ready[OF g1(2) assms(3)] g1(3) obtain s where "url_read (length bs) ([], g1) = Some (int (length bs), bs, s)" by auto
  then have "url_read (length bs) ([[bs]], ?g) = Some (int (length bs), bs, s)" using url_read_arrived[OF g1(1) assms(3)] by simp
  then show ?thesis using c assms(5,6) by (simp add: check_url_config_file_def)
qed

text \<open>
  With a newline at the end of the file the letter behind the buffer does no harm; without
  one it is taken for a part of the name.
\<close>

theorem config_fetched_witness:
  "(\<exists>g'. check_url_config_file (config_conn (map of_char (config_file_text demo_entries True))) True [0x7A, 0]
     ''http://h/up/set.cfg'' [] (tiny_net []) = Some (0, ''http://h/up/new.bin'', g')) \<and>
   (\<exists>g'. check_url_config_file (config_conn (map of_char (config_file_text demo_entries False))) True [0x7A, 0]
     ''http://h/up/set.cfg'' [] (tiny_net []) = Some (0, ''http://h/up/new.binz'', g'))"
proof -
  have "\<exists>g'. check_url_config_file (config_conn (map of_char (config_file_text demo_entries nl))) True [0x7A, 0]
     ''http://h/up/set.cfg'' [] (tiny_net []) = Some (0, if nl then ''http://h/up/new.bin'' else ''http://h/up/new.binz'', g')" for nl
  proof -
    let ?t = "config_file_text demo_entries nl" and ?u = "''http://h/up'' @ ''/'' @ ''set.cfg''"
    let ?cn = "config_conn (map of_char ?t)"
    have e: "\<forall>ce\<in>set demo_entries. entry_ok ce" "demo_entries \<noteq> []" "CHR 0x00 \<notin> set ?t" "length ?t < 2 ^ 31" "0 < length ?t" "length ?t \<le> CACHE_BUF_SIZE"
      by (simp_all add: demo_entries_def entry_ok_def entry_line_def CACHE_BUF_SIZE_def config_file_text_def)
    have g: "cache_change_flag (tiny_net []) \<noteq> 1" "net_desc (tiny_net []) = None" by (simp_all add: tiny_net_def)
    have z: "c_string [0x7A, 0] = Some ''z''" by code_simp
    have none: "config_lines (if nl then Some ''z'' else snd (strsep (Some ''z'') [CHR 0x0A])) None = None"
      by (cases nl) (simp_all add: config_lines.simps[of "Some ''z''"] strsep_def check_config_item_def Let_def numeral_3_eq_3)
    have tx: "text_of (map of_char ?t) [0x7A, 0] = Some (?t @ ''z'')"
      using text_of_bytes[OF e(3)] z by simp
    have "config_lines (Some (?t @ ''z'')) None = config_lines (if nl then Some ''z'' else snd (strsep (Some ''z'') [CHR 0x0A]))
        (Some (Some (if nl then ''new.bin'' else ''new.binz'')))"
      using config_lines_entries[OF e(1,2), of "(if nl then [CHR 0x0A] else []) @ ''z''" None]
      by (cases nl) (simp_all add: config_file_text_def demo_entries_def strncpy256_def strsep_def)
    then have l: "config_lines (Some (?t @ ''z'')) None = Some (Some (if nl then ''new.bin'' else ''new.binz''))"
      using config_lines_found none by simp
    obtain url' g' where r: "check_url_config_file ?cn True [0x7A, 0] ?u [] (tiny_net []) = Some (0, url', g')"
      using config_arrives[OF g _ _ tx l, of ?u "[]"] e(5,6) by auto
    have "length (cn_static ?cn) = CACHE_BUF_SIZE" "cn_answer ?cn = Some (int (length ?t))"
      "prefix (concat (concat (cn_arrivals ?cn))) (map of_char ?t)" by (simp_all add: config_conn_def)
    from config_fetched[OF g(1) this(1) e(1,2) refl e(3) this(2) e(4) this(3) _ r] none z have "url' = (if nl then ''http://h/up/new.bin'' else ''http://h/up/new.binz'')"
      by (simp add: demo_entries_def split: if_splits)
    with r show ?thesis
      by auto
  qed
  from this[of True] this[of False] show ?thesis by simp
qed

end
