(* ===== verification/Upgrade_Usb.thy ===== *)
theory Upgrade_Usb
  imports Upgrade_File Net_Cache
begin

section \<open>The USB plugin (\<open>usb.c\<close>)\<close>

text \<open>
  The package is a file on a mounted stick. Piece by piece it is read from the file while it is
  written to the flash; in one-shot mode it is loaded into memory first and read from there. The
  file system is given by the content of the file (\<open>None\<close>: it cannot be opened), the size that
  \<open>stat\<close> reports and the answers of the allocator.
\<close>

definition UPG_ALIGN_128K :: "int \<Rightarrow> int" where
  "UPG_ALIGN_128K sz = (to_uint32 (sz + 0x20000 - 1) div 0x20000) * 0x20000"

text \<open>
  The variables of the plugin: \<open>usb_off\<close> is \<open>usb_buf_file\<close> as a distance from \<open>usb_buf\<close>, which is
  \<open>None\<close> when it is null. \<open>u_percent\<close> is the progress field of the descriptor.
\<close>

record usb =
  usb_buf :: "u8 list option"
  usb_off :: int
  u_config :: string
  u_pktname :: string
  u_percent :: int

subsection \<open>The package in memory\<close>

definition usb_file_open :: "usb \<Rightarrow> upg_err \<times> usb" where
  "usb_file_open u = (if usb_buf u = None then (ALISLUPG_ERR_OTHER, u) else (ALISLUPG_ERR_NONE, u\<lparr>usb_off := 0\<rparr>))"

definition usb_file_seek :: "int \<Rightarrow> int \<Rightarrow> usb \<Rightarrow> upg_err \<times> usb" where
  "usb_file_seek offset whence u =
     (ALISLUPG_ERR_NONE,
      if whence = SEEK_SET then u\<lparr>usb_off := offset\<rparr> else if whence = SEEK_CUR then u\<lparr>usb_off := usb_off u + offset\<rparr> else u)"

definition usb_file_read :: "int \<Rightarrow> usb \<Rightarrow> (int \<times> u8 list) option" where
  "usb_file_read sz u =
     (case usb_buf u of
        None \<Rightarrow> None
      | Some buf \<Rightarrow>
          if usb_off u < 0 \<or> sz < 0 \<or> int (length buf) < usb_off u + sz then None
          else Some (sz, take (nat sz) (drop (nat (usb_off u)) buf)))"

text \<open>
  Loading the file. \<open>mem\<close> is what the allocated memory holds before; a file shorter than its
  size fills only a part and counts as failed. Only the failed allocation is shown to the
  application.
\<close>

definition usb_file_download :: "int \<Rightarrow> (nat \<Rightarrow> u8 list option) \<Rightarrow> u8 list option \<Rightarrow> usb \<times> upg_err \<Rightarrow> upg_err \<times> usb \<times> upg_err" where
  "usb_file_download st_size malloc file_stream ue =
     (let (u, err) = ue
      in case malloc (nat (UPG_ALIGN_128K st_size)) of
           None \<Rightarrow> (ALISLUPG_ERR_NOTENOUGHSPACE, u\<lparr>usb_buf := None\<rparr>, ALISLUPG_ERR_NOTENOUGHSPACE)
         | Some mem \<Rightarrow>
             case file_stream of
               None \<Rightarrow> (ALISLUPG_ERR_FILEOPERATEFAIL, u\<lparr>usb_buf := Some mem\<rparr>, err)
             | Some bs \<Rightarrow>
                 let u = u\<lparr>usb_buf := Some (memcpy_at 0 (take (nat st_size) bs) mem)\<rparr>
                 in if st_size = 0 \<or> int (length bs) < st_size then (ALISLUPG_ERR_FILEOPERATEFAIL, u, err)
                    else (ALISLUPG_ERR_NONE, u\<lparr>u_percent := 100\<rparr>, err))"

subsection \<open>The source thread\<close>

text \<open>
  The start of \<open>upgrade_obj_loop\<close>; \<open>st_size\<close> is the size of the package file. When the file cannot be
  opened the error is set and the writer is woken.
\<close>

definition usb_begin :: "int \<Rightarrow> bool \<Rightarrow> bool \<Rightarrow> int \<Rightarrow> usb \<times> 'k upg_st \<Rightarrow> usb \<times> 'k upg_st" where
  "usb_begin m fopen_ok fseek_ok st_size us =
     (let (u, s) = us;
          total = nat ((st_size - int HEADER_SIZE) mod 2 ^ 32)
      in if m = PIECE_BY_PIECE then
           if \<not> fopen_ok \<or> \<not> fseek_ok then
             (u, s\<lparr>d_error := ALISLUPG_ERR_OTHER, sem_source := sem_source s + 1, s_run := False\<rparr>)
           else (u, s\<lparr>t_total := total\<rparr>)
         else
           (snd (usb_file_seek (int HEADER_SIZE) SEEK_SET (snd (usb_file_open u))), s\<lparr>t_total := total\<rparr>))"

text \<open>
  Reading \<open>n\<close> bytes at an offset. The results of \<open>fseek\<close> and \<open>fread\<close> are not looked at: behind the
  end of the file the buffer has any content.
\<close>

inductive usb_read :: "int \<Rightarrow> u8 list \<Rightarrow> usb reader" for m pkt where
  from_file: "\<lbrakk>m = PIECE_BY_PIECE; length bs = n; off + n \<le> length pkt \<longrightarrow> bs = take n (drop off pkt)\<rbrakk>
    \<Longrightarrow> usb_read m pkt u off n (Some bs) u"
| from_memory: "\<lbrakk>m \<noteq> PIECE_BY_PIECE; usb_file_seek (to_int32 (int off)) SEEK_SET u = (r, u'); usb_file_read (int n) u' = Some (len, bs)\<rbrakk>
    \<Longrightarrow> usb_read m pkt u off n (Some bs) u'"

inductive_cases usb_readE: "usb_read m pkt u off n r u'"

definition usb_step :: "int \<Rightarrow> u8 list \<Rightarrow> 'k sto_env \<Rightarrow> int \<Rightarrow> upg_elem list \<Rightarrow> usb \<times> 'k upg_st \<Rightarrow> usb \<times> 'k upg_st \<Rightarrow> bool" where
  "usb_step m pkt = fstep (usb_read m pkt)"

subsection \<open>The handlers\<close>

text \<open>Starting and stopping allocate and free the buffer of the tune (\<open>usb.c\<close> and \<open>net.c\<close> alike).\<close>

definition usb_obj_start :: "bool \<Rightarrow> u8 list option \<Rightarrow> upg_err \<times> u8 list option" where
  "usb_obj_start malloc_ok tune_buf =
     (case tune_buf of
        None \<Rightarrow> if malloc_ok then (ALISLUPG_ERR_NONE, Some (replicate UPG_BUF_SIZE 0)) else (ALISLUPG_ERR_NOTENOUGHSPACE, None)
      | Some b \<Rightarrow> (ALISLUPG_ERR_NONE, Some b))"

definition usb_obj_stop :: "u8 list option \<Rightarrow> upg_err \<times> u8 list option" where
  "usb_obj_stop tune_buf = (ALISLUPG_ERR_NONE, None)"

text \<open>\<open>create_ok\<close>: the download thread could be created; its whole run is taken as part of the handler.\<close>

definition usb_obj_prestart :: "int \<Rightarrow> bool \<Rightarrow> int \<Rightarrow> (nat \<Rightarrow> u8 list option) \<Rightarrow> u8 list option \<Rightarrow> usb \<times> upg_err \<Rightarrow> usb \<times> upg_err" where
  "usb_obj_prestart m create_ok st_size malloc file_stream ue =
     (if m = ONE_SHOT \<and> create_ok then snd (usb_file_download st_size malloc file_stream ue) else ue)"

definition usb_obj_prestop :: "int \<Rightarrow> usb \<times> upg_err \<Rightarrow> usb \<times> upg_err" where
  "usb_obj_prestop m ue =
     (let (u, err) = ue in if m = ONE_SHOT \<and> usb_buf u \<noteq> None then (u\<lparr>usb_buf := None, usb_off := 0\<rparr>, err) else (u, err))"

text \<open>The number of items read is returned, 1 for a complete header.\<close>

definition usb_obj_getcfg :: "int \<Rightarrow> u8 list option \<Rightarrow> usb \<Rightarrow> nat \<Rightarrow> (int \<times> u8 list \<times> usb) option" where
  "usb_obj_getcfg st_size cfg u mx =
     (let buf = replicate mx 0
      in if u_config u = [] then Some (0, buf, u)
         else if st_size = 0 then Some (0, buf, u)
         else case cfg of
           None \<Rightarrow> Some (- EINVAL, buf, u)
         | Some bs \<Rightarrow> Some (if HEADER_SIZE \<le> length bs then 1 else 0, memcpy_at 0 (take HEADER_SIZE bs) buf, u))"

definition usb_obj_setpktname :: "string \<Rightarrow> usb \<Rightarrow> usb" where
  "usb_obj_setpktname name u = u\<lparr>u_pktname := name\<rparr>"

text \<open>
  Registration: the handlers for a package file with the content \<open>pkt\<close>. The handlers for start and
  stop do not touch the plugin's variables.
\<close>

definition usb_obj_register :: "nat \<Rightarrow> int \<Rightarrow> string \<Rightarrow> bool \<Rightarrow> (nat \<Rightarrow> u8 list option) \<Rightarrow> u8 list option \<Rightarrow> usb
    \<Rightarrow> (usb upg_ops \<times> usb) option" where
  "usb_obj_register source m cfg create_ok malloc pkt u =
     (if source \<noteq> UPG_USB then None
      else
        let st_size = (case pkt of None \<Rightarrow> 0 | Some bs \<Rightarrow> int (length bs))
        in Some (\<lparr>f_getcfg = usb_obj_getcfg st_size pkt, f_prestart = usb_obj_prestart m create_ok st_size malloc pkt,
             f_prestop = usb_obj_prestop m, f_start = (\<lambda>ue. ue), f_stop = (\<lambda>ue. ue), f_setpktname = usb_obj_setpktname\<rparr>,
           u\<lparr>u_config := cfg, u_percent := 0\<rparr>))"

subsection \<open>The package is read exactly\<close>

text \<open>In one-shot mode the memory has to hold the package.\<close>

definition usb_loaded :: "int \<Rightarrow> u8 list \<Rightarrow> usb \<Rightarrow> nat \<Rightarrow> bool" where
  "usb_loaded m pkt u p \<longleftrightarrow> m = PIECE_BY_PIECE \<or> length pkt < 2 ^ 31 \<and> (\<exists>rest. usb_buf u = Some (pkt @ rest))"

interpretation usb: complete_reader "usb_read m pkt" pkt "usb_loaded m pkt"
proof unfold_locales
  fix u u' :: usb and p off n :: nat and bs :: "u8 list"
  assume a: "usb_loaded m pkt u p" "p \<le> off" "0 < n" "off + n \<le> length pkt"
  have mem: "to_int32 (int off) = int off" "usb_file_read (int n) (u\<lparr>usb_off := int off\<rparr>) = Some (int n, take n (drop off pkt))"
    if "m \<noteq> PIECE_BY_PIECE"
    using a that by (auto simp: usb_loaded_def usb_file_read_def intro!: to_int32_id)
  show "bs = take n (drop off pkt) \<and> usb_loaded m pkt u' (off + n)" if "usb_read m pkt u off n (Some bs) u'"
    using that mem a by (auto elim!: usb_readE simp: usb_file_seek_def usb_loaded_def)
  have "\<exists>bs u'. usb_read m pkt u off n (Some bs) u'"
  proof (cases "m = PIECE_BY_PIECE")
    case True
    then have "usb_read m pkt u off n (Some (take n (drop off pkt))) u" using a(4) by (intro usb_read.from_file) auto
    then show ?thesis by blast
  next
    case False
    then have "usb_read m pkt u off n (Some (take n (drop off pkt))) (u\<lparr>usb_off := int off\<rparr>)"
      using mem by (intro usb_read.from_memory[of m off u "ALISLUPG_ERR_NONE" _ n "int n"]) (auto simp: usb_file_seek_def)
    then show ?thesis by blast
  qed
  then show "(\<exists>bs u'. usb_read m pkt u off n (Some bs) u') \<and> (\<forall>u'. \<not> usb_read m pkt u off n None u')"
    by (auto elim: usb_readE)
qed

lemma align_128K_covers:
  assumes "0 \<le> sz" "sz < 2 ^ 31"
  shows "sz \<le> UPG_ALIGN_128K sz"
proof -
  have "to_uint32 (sz + 0x20000 - 1) = sz + 0x20000 - 1" using assms by (intro to_uint32_id) simp_all
  moreover have "x \<le> (x + 0x20000 - 1) div 0x20000 * 0x20000" for x :: int
  proof -
    have "(x + 0x20000 - 1) mod 0x20000 < 0x20000" by simp
    with div_mult_mod_eq[of "x + 0x20000 - 1" "0x20000"] show ?thesis by linarith
  qed
  ultimately show ?thesis by (simp add: UPG_ALIGN_128K_def)
qed

lemma usb_download_loads:
  assumes "usb_file_download (int (length pkt)) malloc (Some pkt) (u0, err0) = (ALISLUPG_ERR_NONE, u, err)"
    and "\<And>n mem. malloc n = Some mem \<Longrightarrow> length mem = n" "length pkt < 2 ^ 31"
  shows "usb_loaded m pkt u p" "u_percent u = 100"
proof -
  obtain mem where mem: "malloc (nat (UPG_ALIGN_128K (int (length pkt)))) = Some mem"
    using assms(1) by (cases "malloc (nat (UPG_ALIGN_128K (int (length pkt))))") (auto simp: usb_file_download_def)
  have "int (length pkt) \<le> UPG_ALIGN_128K (int (length pkt))" by (rule align_128K_covers) (use assms(3) in simp_all)
  then have len: "length pkt \<le> length mem" using assms(2)[OF mem] by linarith
  have u: "usb_buf u = Some (memcpy_at 0 pkt mem)" "u_percent u = 100"
    using assms(1) mem by (auto simp: usb_file_download_def Let_def split: if_splits)
  have "memcpy_at 0 pkt mem = pkt @ drop (length pkt) mem" by (simp add: memcpy_at_def)
  then show "usb_loaded m pkt u p" "u_percent u = 100" using u assms(3) by (auto simp: usb_loaded_def)
qed

text \<open>The package is available: in one-shot mode it was loaded without an error.\<close>

definition usb_package :: "int \<Rightarrow> u8 list \<Rightarrow> usb \<Rightarrow> bool" where
  "usb_package m pkt u \<longleftrightarrow> m = PIECE_BY_PIECE \<or>
     (\<exists>malloc u0 err0 err. (\<forall>n mem. malloc n = Some mem \<longrightarrow> length mem = n) \<and>
        usb_file_download (int (length pkt)) malloc (Some pkt) (u0, err0) = (ALISLUPG_ERR_NONE, u, err))"

lemma usb_package_loaded:
  assumes "usb_package m pkt u" "length pkt < 2 ^ 31"
  shows "usb_loaded m pkt u p"
proof (cases "m = PIECE_BY_PIECE")
  case False
  then obtain malloc u0 err0 err where d: "\<forall>n mem. malloc n = Some mem \<longrightarrow> length mem = n"
    "usb_file_download (int (length pkt)) malloc (Some pkt) (u0, err0) = (ALISLUPG_ERR_NONE, u, err)"
    using assms(1) by (auto simp: usb_package_def)
  then show ?thesis using usb_download_loads(1)[OF d(2) _ assms(2)] by blast
qed (simp add: usb_loaded_def)

lemma usb_begin_state:
  assumes "HEADER_SIZE \<le> length pkt" "length pkt < 2 ^ 31" "usb_package m pkt u"
  shows "\<exists>u'. usb_begin m True True (int (length pkt)) (u, upg_init lib 0 []) = (u', upg_init lib (length pkt - HEADER_SIZE) []) \<and>
    usb_loaded m pkt u' 0"
proof -
  have "nat ((int (length pkt) - int HEADER_SIZE) mod 2 ^ 32) = length pkt - HEADER_SIZE"
    using assms(1,2) by (intro wrapped_rest) simp_all
  then show ?thesis
    using usb_package_loaded[OF assms(3,2), of 0]
    by (auto simp: usb_begin_def Let_def upg_init_def usb_loaded_def usb_file_seek_def usb_file_open_def)
qed

lemma file_header: "file_ok els data \<Longrightarrow> HEADER_SIZE \<le> length data \<and> length data < 2 ^ 31"
  by (simp add: file_ok_def)

lemma usb_runs:
  assumes "upg_plan_ok e els ts ps" "lib_start els ts ps lib" "aligned els" "file_ok els pkt" "usb_package m pkt u"
    and "(usb_step m pkt e scale els)\<^sup>*\<^sup>* (usb_begin m True True (int (length pkt)) (u, upg_init lib 0 [])) (u', s)"
  shows "d_error s = ALISLUPG_ERR_NONE"
    "w_run s \<Longrightarrow> \<exists>y. usb_step m pkt e scale els (u', s) y"
    "usb_step m pkt e scale els (u', s) (u'', s') \<Longrightarrow> work els s' < work els s"
    "\<exists>u'' s'. (usb_step m pkt e scale els)\<^sup>*\<^sup>* (u', s) (u'', s') \<and> \<not> w_run s'"
    "\<not> w_run s \<Longrightarrow> j < length els \<Longrightarrow> holds (ts j) (w_lib (writer s)) (image_of els (drop HEADER_SIZE pkt) j) \<and> sem_over s = 1"
proof -
  obtain u1 where u1: "usb_begin m True True (int (length pkt)) (u, upg_init lib 0 []) = (u1, upg_init lib (length pkt - HEADER_SIZE) [])"
    "usb_loaded m pkt u1 0"
    using usb_begin_state file_header[OF assms(4)] assms(5) by blast
  note r = assms(6)[unfolded usb_step_def u1(1)] and a = assms(1,2,4) u1(2) le0[of HEADER_SIZE]
  show ne: "d_error s = ALISLUPG_ERR_NONE" by (rule usb.never_fails[OF a r])
  show "w_run s \<Longrightarrow> \<exists>y. usb_step m pkt e scale els (u', s) y" unfolding usb_step_def by (rule usb.can_step[OF a assms(3) r])
  show "usb_step m pkt e scale els (u', s) (u'', s') \<Longrightarrow> work els s' < work els s"
    unfolding usb_step_def by (rule usb.step_works[OF a r])
  show "\<exists>u'' s'. (usb_step m pkt e scale els)\<^sup>*\<^sup>* (u', s) (u'', s') \<and> \<not> w_run s'"
    unfolding usb_step_def by (rule usb.finishes[OF a assms(3) r])
  show "\<not> w_run s \<Longrightarrow> j < length els \<Longrightarrow> holds (ts j) (w_lib (writer s)) (image_of els (drop HEADER_SIZE pkt) j) \<and> sem_over s = 1"
    using usb.finished_images[OF a assms(3) r ne] by blast
qed

subsection \<open>When the file cannot be opened\<close>

text \<open>The source wakes the writer, which ends at once; no partition has been opened.\<close>

lemma usb_open_failure_ends:
  assumes "m = PIECE_BY_PIECE" "\<not> fopen_ok \<or> \<not> fseek_ok"
    and "usb_begin m fopen_ok fseek_ok sz (u, upg_init lib 0 []) = (u1, s1)"
  shows "\<exists>s2. usb_step m pkt e scale els (u1, s1) (u1, s2) \<and> \<not> w_run s2 \<and> sem_over s2 = 1 \<and> d_error s2 = ALISLUPG_ERR_OTHER \<and> w_lib (writer s2) = lib"
proof -
  have s1: "s1 = (upg_init lib 0 [])\<lparr>d_error := ALISLUPG_ERR_OTHER, sem_source := 1, s_run := False\<rparr>"
    using assms by (auto simp: usb_begin_def Let_def upg_init_def)
  then have "writter_end (writer s1) = Some (writer s1)" by (simp add: upg_init_def writter_end_def alislsto_mtd_close_def)
  then have "wstep e scale els s1 (s1\<lparr>sem_source := sem_source s1 - 1, writer := writer s1, w_run := False, sem_over := sem_over s1 + 1\<rparr>)"
    using s1 by (intro wstep.writer_stop) (simp_all add: upg_init_def)
  from fstep.writer[OF this, of "usb_read m pkt" u1] show ?thesis
    unfolding usb_step_def by (intro exI conjI) (assumption, simp_all add: s1 upg_init_def)
qed

text \<open>In one-shot mode without a loaded package the source reads through a null pointer: it has no step.\<close>

lemma usb_one_shot_unloaded:
  assumes "m = ONE_SHOT" "usb_buf u = None"
  shows "\<not> usb_read m pkt u off n r u'"
  using assms by (auto elim!: usb_readE simp: ONE_SHOT_def PIECE_BY_PIECE_def usb_file_seek_def usb_file_read_def)

text \<open>A file that cannot be opened or read is not reported: neither the error nor the progress changes.\<close>

lemma usb_download_failure_silent:
  assumes "usb_file_download sz malloc fs (u, err) = (ALISLUPG_ERR_FILEOPERATEFAIL, u', err')"
  shows "err' = err" "u_percent u' = u_percent u"
  using assms by (auto simp: usb_file_download_def Let_def split: option.splits if_splits)

subsection \<open>The header\<close>

lemma usb_getcfg_header:
  assumes "u_config u \<noteq> []" "HEADER_SIZE \<le> length pkt"
  shows "usb_obj_getcfg (int (length pkt)) (Some pkt) u HEADER_SIZE = Some (1, take HEADER_SIZE pkt, u)"
  using assms by (auto simp: usb_obj_getcfg_def memcpy_at_def Let_def HEADER_SIZE_def)

end
