(* ===== verification/Upgrade_Net.thy ===== *)
theory Upgrade_Net
  imports Upgrade_File Net_Config Upgrade_Usb
begin

section \<open>The network plugin (\<open>net.c\<close>)\<close>

text \<open>
  The source thread reads the package through the ring of theory \<open>Net_Cache\<close>: piece by piece
  while it is downloaded, or in one-shot mode from a buffer that holds the whole package.
\<close>

record netupg =
  n_net :: net
  n_config :: string
  n_pktname :: string
  n_dconfig :: string
  n_handle :: bool

text \<open>The read position is set back to the start of a package that is completely in the buffer.\<close>

definition net_rewind :: "net \<Rightarrow> net" where
  "net_rewind g = g\<lparr>cache := (cache g)\<lparr>rd_pos := 0, file_offset := 0, unread_data_len := nat (url_file_size g)\<rparr>\<rparr>"

subsection \<open>The source thread\<close>

text \<open>
  The start of the thread; the result says whether the loop is entered. In one-shot mode \<open>g\<close> is
  the state at the end of the download.
\<close>

definition net_fails :: "'k upg_st \<Rightarrow> 'k upg_st" where
  "net_fails s = s\<lparr>d_error := ALISLUPG_ERR_OTHER, sem_source := sem_source s + 1, s_run := False\<rparr>"

definition net_begin :: "int \<Rightarrow> upg_elem list \<Rightarrow> net_conn \<Rightarrow> net \<times> 'k upg_st \<Rightarrow> (net_run \<times> 'k upg_st) option" where
  "net_begin m els cn gs =
     (let (g, s) = gs
      in if els = [] then Some (([], g), s\<lparr>s_run := False\<rparr>)
         else case (if m = PIECE_BY_PIECE then url_connect cn g else (True, True, [], net_rewind g)) of
           (False, _, f) \<Rightarrow> Some (f, net_fails s)
         | (True, False, f) \<Rightarrow> Some (f, net_fails s)
         | (True, True, f) \<Rightarrow> do {
             let s = s\<lparr>t_total := nat ((url_file_size (snd f) - int HEADER_SIZE) mod 2 ^ 32)\<rparr>;
             (r, f) \<leftarrow> url_seek (int HEADER_SIZE) SEEK_SET f;
             Some (f, if r \<noteq> NET_ERR_NONE then net_fails s else s) })"

text \<open>
  One piece of the package. The result is \<open>None\<close> when a read runs over the end of the ring while
  it is exactly full (\<open>ring_overrun_reachable\<close>): the bytes it copies are then not defined.
\<close>

definition net_fetch :: "nat \<Rightarrow> nat \<Rightarrow> net_run \<Rightarrow> (u8 list option \<times> net_run) option" where
  "net_fetch off n f = do {
     (r, f) \<leftarrow> url_seek (to_int32 (int off)) SEEK_SET f;
     if r \<noteq> NET_ERR_NONE then Some (None, f)
     else do {
       (ret_len, bs, f) \<leftarrow> url_read n f;
       Some (if ret_len \<le> 0 then None else Some bs, f) } }"

definition net_read :: "net_run reader" where
  "net_read f off n r f' \<longleftrightarrow> net_fetch off n f = Some (r, f')"

definition net_step :: "'k sto_env \<Rightarrow> int \<Rightarrow> upg_elem list \<Rightarrow> net_run \<times> 'k upg_st \<Rightarrow> net_run \<times> 'k upg_st \<Rightarrow> bool" where
  "net_step = fstep net_read"

text \<open>
  A read over the end of an exactly full ring does not stop the thread: it goes on with
  whatever was copied, and without an error. \<open>None\<close> is the ring from then on; nothing is known of
  what is read from it.
\<close>

definition net_read_any :: "net_run option reader" where
  "net_read_any f off n r f' \<longleftrightarrow>
     (case f of
        None \<Rightarrow> f' = None
      | Some f1 \<Rightarrow>
          (case net_fetch off n f1 of
             None \<Rightarrow> f' = None
           | Some (r1, f2) \<Rightarrow> r = r1 \<and> f' = Some f2))"

definition net_step_any :: "'k sto_env \<Rightarrow> int \<Rightarrow> upg_elem list \<Rightarrow> net_run option \<times> 'k upg_st \<Rightarrow> net_run option \<times> 'k upg_st \<Rightarrow> bool" where
  "net_step_any = fstep net_read_any"

subsection \<open>The handlers\<close>

text \<open>
  The header is read from the buffer of a finished one-shot download, or over two connections:
  one for the configuration file and one for the package it names, which replaces the
  configuration of the descriptor (an array of 256 characters).
\<close>

definition net_obj_getcfg :: "int \<Rightarrow> net_conn \<Rightarrow> net_conn \<Rightarrow> bool \<Rightarrow> u8 list \<Rightarrow> netupg \<Rightarrow> nat \<Rightarrow> (int \<times> u8 list \<times> netupg) option" where
  "net_obj_getcfg m cn1 cn2 malloc_ok behind p mx =
     (let buf = replicate mx 0
      in if n_config p = [] then Some (0, buf, p)
         else if m = ONE_SHOT \<and> net_download_finish (n_net p) then do {
           (sz, bs, f) \<leftarrow> url_read HEADER_SIZE ([], net_rewind (n_net p));
           Some (sz, memcpy_at 0 bs buf, p\<lparr>n_net := snd f\<rparr>) }
         else do {
           (ret, url, g) \<leftarrow> check_url_config_file cn1 malloc_ok behind (n_config p) [] (n_net p);
           let p = p\<lparr>n_net := g\<rparr>;
           if ret \<noteq> 0 then Some (- EINVAL, buf, p)
           else if 256 \<le> length url then None
           else do {
             (sz, bs, g) \<leftarrow> get_config_from_urlfile cn2 HEADER_SIZE (n_net p);
             Some (sz, memcpy_at 0 bs buf, p\<lparr>n_net := g, n_dconfig := url\<rparr>) } })"

text \<open>
  In one-shot mode the header is fetched for the size of the package, memory for it is
  allocated (\<open>malloc\<close> answers with its content) and the download into it is started; \<open>head_ok\<close>
  answers the allocation for the header and \<open>cn3\<close> is the connection of the download.
\<close>

definition net_obj_prestart :: "int \<Rightarrow> bool \<Rightarrow> (nat \<Rightarrow> u8 list option) \<Rightarrow> net_conn \<Rightarrow> net_conn \<Rightarrow> net_conn \<Rightarrow> bool \<Rightarrow> u8 list
    \<Rightarrow> netupg \<times> upg_err \<Rightarrow> (upg_err \<times> netupg \<times> upg_err) option" where
  "net_obj_prestart m head_ok malloc cn1 cn2 cn3 malloc_ok behind pe =
     (let (p, err) = pe
      in if m \<noteq> ONE_SHOT then Some (ALISLUPG_ERR_NONE, p, err)
         else if \<not> head_ok then Some (ALISLUPG_ERR_NOTENOUGHSPACE, p, err)
         else do {
           (sz, buf, p) \<leftarrow> net_obj_getcfg m cn1 cn2 malloc_ok behind p HEADER_SIZE;
           let len = nat (UPG_ALIGN_128K (url_file_size (n_net p)));
           case malloc len of
             None \<Rightarrow> Some (ALISLUPG_ERR_NOTENOUGHSPACE, p\<lparr>n_net := (n_net p)\<lparr>package_buf := None, package_len := len\<rparr>\<rparr>, ALISLUPG_ERR_NOTENOUGHSPACE)
           | Some mem \<Rightarrow>
               let g = (n_net p)\<lparr>package_buf := Some mem, package_len := len, cache_change_flag := 1, net_desc := Some (m, 0)\<rparr>;
                   (ok, g) = url_open (cn_static cn3) (cn_curl cn3) (cn_create cn3) g
               in if \<not> ok then Some (ALISLUPG_ERR_DOWNLOADFAIL, p\<lparr>n_net := g\<lparr>package_buf := None\<rparr>, n_handle := False\<rparr>, err)
                  else Some (ALISLUPG_ERR_NONE, p\<lparr>n_net := g, n_handle := True\<rparr>, err) })"

text \<open>The thread that the handler started: the size of the file, then its blocks.\<close>

definition net_download :: "int option \<Rightarrow> u8 list list \<Rightarrow> net \<Rightarrow> (u8 list list \<times> net) option" where
  "net_download answer blocks g = (let (more, g) = transfer_size answer g in if more then deliver blocks g else Some ([], g))"

text \<open>The buffer of the ring may be the one that is freed here; it is empty afterwards.\<close>

definition net_obj_prestop :: "int \<Rightarrow> netupg \<Rightarrow> netupg" where
  "net_obj_prestop m p =
     (if m \<noteq> ONE_SHOT then p
      else
        let g = n_net p;
            g = (if n_handle p then snd (url_close g) else g);
            g = (if package_buf g \<noteq> None then g\<lparr>package_buf := None, cache := (cache g)\<lparr>cache_buff := []\<rparr>\<rparr> else g)
        in p\<lparr>n_handle := False, n_net := g\<lparr>cache_change_flag := 0, net_desc := None, net_download_finish := False\<rparr>\<rparr>)"

definition net_obj_setpktname :: "string \<Rightarrow> netupg \<Rightarrow> netupg" where
  "net_obj_setpktname name p = p\<lparr>n_pktname := name\<rparr>"

definition net_obj_start :: "bool \<Rightarrow> u8 list option \<Rightarrow> upg_err \<times> u8 list option" where
  "net_obj_start malloc_ok tune_buf =
     (case tune_buf of
        None \<Rightarrow> if malloc_ok then (ALISLUPG_ERR_NONE, Some (replicate UPG_BUF_SIZE 0)) else (ALISLUPG_ERR_NOTENOUGHSPACE, None)
      | Some b \<Rightarrow> (ALISLUPG_ERR_NONE, Some b))"

definition net_obj_stop :: "u8 list option \<Rightarrow> upg_err \<times> u8 list option" where
  "net_obj_stop tune_buf = (ALISLUPG_ERR_NONE, None)"

subsection \<open>The package is read exactly\<close>

lemma net_fetch_ok:
  assumes "net_inv pkt f" "at_offset f \<le> off" "0 < n" "off + n \<le> length pkt" "length pkt < 2 ^ 31" "net_fetch off n f = Some (Some bs, f')"
  shows "bs = take n (drop off pkt)" "net_inv pkt f'" "at_offset f' = off + n"
proof -
  have o: "to_int32 (int off) = int off" using assms(4,5) by (intro to_int32_id) simp_all
  obtain f1 where s: "url_seek (int off) SEEK_SET f = Some (NET_ERR_NONE, f1)"
    using assms(6) by (auto simp: net_fetch_def o split: bind_splits if_splits)
  have f1: "net_inv pkt f1" "at_offset f1 = off"
    using url_seek_ok[OF assms(1) _ s] assms(2) by (auto simp: net_codes)
  obtain r where r: "url_read n f1 = Some (r, bs, f')" "0 < r"
    using assms(6) s by (auto simp: net_fetch_def o split: bind_splits if_splits)
  show "bs = take n (drop off pkt)" "net_inv pkt f'" "at_offset f' = off + n"
    using url_read_ok[OF f1(1) assms(3) r(1)] f1(2) r(2) by auto
qed

definition net_at :: "u8 list \<Rightarrow> net_run \<Rightarrow> nat \<Rightarrow> bool" where
  "net_at pkt f p \<longleftrightarrow> length pkt < 2 ^ 31 \<and> net_inv pkt f \<and> at_offset f \<le> p"

interpretation net: offset_reader net_read pkt "net_at pkt"
proof unfold_locales
  fix f f' :: net_run and p off n :: nat and bs :: "u8 list"
  assume a: "net_at pkt f p" "p \<le> off" "0 < n" "off + n \<le> length pkt" "net_read f off n (Some bs) f'"
  then show "bs = take n (drop off pkt) \<and> net_at pkt f' (off + n)"
    using net_fetch_ok[of pkt f off n bs f'] by (simp add: net_at_def net_read_def)
qed

text \<open>With the whole package in the buffer nothing can fail.\<close>

lemma net_fetch_ready:
  assumes "ready pkt f" "at_offset f \<le> off" "0 < n" "off + n \<le> length pkt" "length pkt < 2 ^ 31"
  shows "\<exists>f'. net_fetch off n f = Some (Some (take n (drop off pkt)), f') \<and> ready pkt f' \<and> at_offset f' = off + n"
proof -
  have o: "to_int32 (int off) = int off" using assms(4,5) by (intro to_int32_id) simp_all
  obtain f1 where f1: "url_seek (int off) SEEK_SET f = Some (NET_ERR_NONE, f1)" "ready pkt f1" "at_offset f1 = off"
    using url_seek_ready[OF assms(1), of "int off"] assms(2,4) by auto
  obtain f2 where "url_read n f1 = Some (int n, take n (drop off pkt), f2)" "ready pkt f2" "at_offset f2 = off + n"
    using url_read_ready[OF f1(2) assms(3)] f1(3) assms(4) by auto
  with f1(1) assms(3) show ?thesis by (simp add: net_fetch_def o)
qed

definition net_ready_at :: "u8 list \<Rightarrow> net_run \<Rightarrow> nat \<Rightarrow> bool" where
  "net_ready_at pkt f p \<longleftrightarrow> length pkt < 2 ^ 31 \<and> ready pkt f \<and> at_offset f \<le> p"

interpretation whole: complete_reader net_read pkt "net_ready_at pkt"
proof unfold_locales
  fix f f' :: net_run and p off n :: nat and bs :: "u8 list"
  assume a: "net_ready_at pkt f p" "p \<le> off" "0 < n" "off + n \<le> length pkt"
  then obtain f2 where f2: "net_fetch off n f = Some (Some (take n (drop off pkt)), f2)" "ready pkt f2" "at_offset f2 = off + n"
    using net_fetch_ready[of pkt f off n] by (auto simp: net_ready_at_def)
  then show "bs = take n (drop off pkt) \<and> net_ready_at pkt f' (off + n)" if "net_read f off n (Some bs) f'"
    using that a(1) by (auto simp: net_read_def net_ready_at_def)
  show "(\<exists>bs f'. net_read f off n (Some bs) f') \<and> (\<forall>f'. \<not> net_read f off n None f')"
    using f2 by (auto simp: net_read_def)
qed

subsection \<open>Runs without an overrun\<close>

text \<open>A step depends on the reader only through what it reads.\<close>

lemma fstep_map:
  assumes "fstep rdr e scale els (f, s) (f', s')" "\<And>off n r. rdr f off n r f' \<Longrightarrow> rdr2 g off n r g'" "f' = f \<Longrightarrow> g' = g"
  shows "fstep rdr2 e scale els (g, s) (g', s')"
  using assms(1)
proof cases
  case source_fill
  then show ?thesis using fstep.source_fill[of els s _ rdr2 g _ g'] assms(2) by simp
next
  case source_fail
  then show ?thesis using fstep.source_fail[of els s _ rdr2 g g'] assms(2) by simp
next
  case source_quit
  then show ?thesis using fstep.source_quit[of els s rdr2] assms(3) by simp
qed (use assms(3) in \<open>auto intro: fstep.intros\<close>)

lemma overrun_stays:
  assumes "net_step_any e scale els (f, s) (Some f', s')"
  obtains f1 where "f = Some f1" "net_step e scale els (f1, s) (f', s')"
proof (cases f)
  case None
  then show ?thesis
    using assms unfolding net_step_any_def by (auto simp: net_read_any_def elim!: fstep.cases)
next
  case (Some f1)
  have "fstep net_read e scale els (f1, s) (f', s')"
    by (rule fstep_map[OF assms[unfolded net_step_any_def Some]]) (auto simp: net_read_any_def net_read_def split: option.splits)
  then show ?thesis
    using that Some unfolding net_step_def by blast
qed

lemma net_run_exact:
  assumes "(net_step_any e scale els)\<^sup>*\<^sup>* (Some f0, s0) (Some f, s)"
  shows "(net_step e scale els)\<^sup>*\<^sup>* (f0, s0) (f, s)"
proof -
  have "(net_step e scale els)\<^sup>*\<^sup>* (f0, s0) (f, snd y)" if "(net_step_any e scale els)\<^sup>*\<^sup>* (Some f0, s0) y" "fst y = Some f" for y f
    using that
  proof (induction arbitrary: f rule: rtranclp_induct)
    case (step x y)
    then have "net_step_any e scale els (fst x, snd x) (Some f, snd y)"
      by (metis prod.collapse)
    then obtain f1 where "fst x = Some f1" "net_step e scale els (f1, snd x) (f, snd y)"
      by (rule overrun_stays)
    with step.IH show ?case
      by (blast intro: rtranclp.rtrancl_into_rtrancl)
  qed simp
  from this[OF assms] show ?thesis by simp
qed

lemma net_run_any:
  assumes "(net_step e scale els)\<^sup>*\<^sup>* (f0, s0) (f, s)"
  shows "(net_step_any e scale els)\<^sup>*\<^sup>* (Some f0, s0) (Some f, s)"
proof -
  have 1: "net_step_any e scale els (Some f, s) (Some f', s')" if "net_step e scale els (f, s) (f', s')" for f s f' s'
    using fstep_map[OF that[unfolded net_step_def], of net_read_any "Some f" "Some f'"] unfolding net_step_any_def
    by (simp add: net_read_any_def net_read_def)
  have "(net_step_any e scale els)\<^sup>*\<^sup>* (Some f0, s0) (Some (fst y), snd y)" if "(net_step e scale els)\<^sup>*\<^sup>* (f0, s0) y" for y
    using that
  proof (induction rule: rtranclp_induct)
    case (step x y)
    then show ?case using 1[of "fst x" "snd x" "fst y" "snd y"] by (auto intro: rtranclp.rtrancl_into_rtrancl)
  qed simp
  from this[OF assms] show ?thesis by simp
qed

subsection \<open>A piecewise upgrade\<close>

text \<open>The connection delivers the package, perhaps not to its end.\<close>

definition serves :: "u8 list \<Rightarrow> net_conn \<Rightarrow> bool" where
  "serves pkt cn \<longleftrightarrow> length (cn_static cn) = CACHE_BUF_SIZE \<and> cn_answer cn = Some (int (length pkt)) \<and>
     prefix (concat (concat (cn_arrivals cn))) pkt"

lemma net_begin_piecewise:
  assumes "cache_change_flag g \<noteq> 1" "serves pkt cn" "HEADER_SIZE \<le> length pkt" "length pkt < 2 ^ 31" "els \<noteq> []"
    and "net_begin PIECE_BY_PIECE els cn (g, upg_init lib 0 []) = Some (f, s)"
  shows "s = upg_init lib (length pkt - HEADER_SIZE) [] \<and> net_at pkt f HEADER_SIZE \<or>
    d_error s \<noteq> ALISLUPG_ERR_NONE \<and> \<not> s_run s \<and> \<not> w_check s \<and> totalwrite (writer s) = 0"
proof -
  obtain ok sized f1 where c: "url_connect cn g = (ok, sized, f1)" using prod_cases3 by blast
  show ?thesis
  proof (cases "ok \<and> sized")
    case True
    then have c1: "url_connect cn g = (True, True, f1)" using c by simp
    note sv = assms(2)[unfolded serves_def]
    note ci = url_connect_inv[OF c1 assms(1) conjunct1[OF sv] conjunct2[OF conjunct2[OF sv]]]
    have i: "net_inv pkt f1" "at_offset f1 = 0" "url_file_size (snd f1) = int (length pkt)"
      using ci(1,2) ci(3)[OF _ conjunct1[OF conjunct2[OF sv]]] assms(4) by (simp_all add: to_int32_id)
    have tot: "nat ((url_file_size (snd f1) - int HEADER_SIZE) mod 2 ^ 32) = length pkt - HEADER_SIZE"
      unfolding i(3) using assms(3,4) by (intro wrapped_rest) simp_all
    obtain r f2 where sk: "url_seek (int HEADER_SIZE) SEEK_SET f1 = Some (r, f2)"
      using assms(5,6) c1 by (auto simp: net_begin_def Let_def split: bind_splits)
    have "f = f2" "s = (if r \<noteq> NET_ERR_NONE then net_fails (upg_init lib (length pkt - HEADER_SIZE) []) else upg_init lib (length pkt - HEADER_SIZE) [])"
      using assms(5,6) c1 sk tot by (auto simp: net_begin_def upg_init_def net_fails_def Let_def)
    then show ?thesis
      using url_seek_ok[OF i(1) _ sk] i(2) assms(4) by (auto simp: net_at_def net_fails_def upg_init_def net_codes)
  next
    case False
    then have "s = net_fails (upg_init lib 0 [])"
      using assms(5,6) c by (auto simp: net_begin_def split: bool.splits)
    then show ?thesis by (simp add: net_fails_def upg_init_def)
  qed
qed

text \<open>After a failed start nothing is written.\<close>

lemma failed_start_writes_nothing:
  assumes "(fstep rdr e scale els)\<^sup>*\<^sup>* (f0, s0) (f, s)" "d_error s0 \<noteq> ALISLUPG_ERR_NONE" "\<not> s_run s0" "\<not> w_check s0" "totalwrite (writer s0) = 0"
  shows "totalwrite (writer s) = 0 \<and> d_error s \<noteq> ALISLUPG_ERR_NONE"
proof -
  have "d_error (snd y) \<noteq> ALISLUPG_ERR_NONE \<and> \<not> s_run (snd y) \<and> \<not> w_check (snd y) \<and> totalwrite (writer (snd y)) = 0"
    if "(fstep rdr e scale els)\<^sup>*\<^sup>* (f0, s0) y" for y
    using that
  proof (induction rule: rtranclp_induct)
    case (step a b)
    then show ?case by (auto elim!: fstep.cases wstep.cases simp: source_more_def writter_end_ok)
  qed (use assms in simp)
  from this[OF assms(1)] show ?thesis by simp
qed

lemma net_piecewise:
  assumes "upg_plan_ok e els ts ps" "lib_start els ts ps lib" "file_ok els pkt" "cache_change_flag g \<noteq> 1" "serves pkt cn"
    and "net_begin PIECE_BY_PIECE els cn (g, upg_init lib 0 []) = Some (f0, s0)" "(net_step e scale els)\<^sup>*\<^sup>* (f0, s0) (f, s)" "j < length els"
  shows "holds (ts j) (w_lib (writer s)) (take (totalwrite (writer s) - start_of els j) (image_of els (drop HEADER_SIZE pkt) j))"
    "aligned els \<Longrightarrow> d_error s = ALISLUPG_ERR_NONE \<Longrightarrow> \<not> w_run s \<Longrightarrow> holds (ts j) (w_lib (writer s)) (image_of els (drop HEADER_SIZE pkt) j)"
proof -
  note r = assms(7)[unfolded net_step_def] and fh = file_header[OF assms(3)]
  have ne: "els \<noteq> []" using assms(8) by auto
  consider (on) "s0 = upg_init lib (length pkt - HEADER_SIZE) []" "net_at pkt f0 HEADER_SIZE"
    | (bad) "d_error s0 \<noteq> ALISLUPG_ERR_NONE" "\<not> s_run s0" "\<not> w_check s0" "totalwrite (writer s0) = 0"
    using net_begin_piecewise[OF assms(4,5) conjunct1[OF fh] conjunct2[OF fh] ne assms(6)] by argo
  then have "holds (ts j) (w_lib (writer s)) (take (totalwrite (writer s) - start_of els j) (image_of els (drop HEADER_SIZE pkt) j)) \<and>
    (aligned els \<longrightarrow> d_error s = ALISLUPG_ERR_NONE \<longrightarrow> \<not> w_run s \<longrightarrow> holds (ts j) (w_lib (writer s)) (image_of els (drop HEADER_SIZE pkt) j))"
  proof cases
    case on
    note a = assms(1-3) on(2) order_refl
    show ?thesis
      using net.stores_images[OF a r[unfolded on(1)] assms(8)] net.finished_images(1)[OF a _ r[unfolded on(1)] _ _ assms(8)] by blast
  next
    case bad
    then show ?thesis using failed_start_writes_nothing[OF r] by simp
  qed
  then show "holds (ts j) (w_lib (writer s)) (take (totalwrite (writer s) - start_of els j) (image_of els (drop HEADER_SIZE pkt) j))"
    "aligned els \<Longrightarrow> d_error s = ALISLUPG_ERR_NONE \<Longrightarrow> \<not> w_run s \<Longrightarrow> holds (ts j) (w_lib (writer s)) (image_of els (drop HEADER_SIZE pkt) j)"
    by blast+
qed

subsection \<open>A one-shot upgrade\<close>

text \<open>The download into a buffer that is large enough never waits and never goes around.\<close>

definition filled :: "net \<Rightarrow> bool" where
  "filled g \<longleftrightarrow> cache_ok (cache g) \<and> rd_pos (cache g) = 0 \<and> wr_pos (cache g) = unread_data_len (cache g) \<and> \<not> url_abort g \<and>
     100 \<le> url_file_size g \<and> (\<exists>p. net_desc g = Some (ONE_SHOT, p))"

lemma show_download_one_shot:
  assumes "net_desc g = Some (ONE_SHOT, p)" "100 \<le> url_file_size g"
  shows "\<exists>g'. show_download g = Some g' \<and> (\<exists>p. net_desc g' = Some (ONE_SHOT, p)) \<and> cache g' = cache g \<and> url_file_size g' = url_file_size g \<and>
    (url_file_size g \<le> int (unread_data_len (cache g)) \<longrightarrow> net_download_finish g' \<and> net_desc g' = Some (ONE_SHOT, 100))"
proof -
  have "url_file_size g sdiv 100 = url_file_size g div 100" using assms(2) by (intro sdiv_nonneg) simp_all
  then have "url_file_size g sdiv 100 \<noteq> 0" using assms(2) by linarith
  with assms show ?thesis
    by (cases "url_file_size g \<le> int (unread_data_len (cache g))") (simp_all add: show_download_def)
qed

lemma write_data_filled:
  assumes "filled g" "unread_data_len (cache g) + length b \<le> cache_size (cache g)"
  shows "\<exists>g'. write_data b g = Ret (int (length b), g') \<and> filled g' \<and> queue (cache g') = queue (cache g) @ b \<and>
    cache_size (cache g') = cache_size (cache g) \<and> unread_data_len (cache g') = unread_data_len (cache g) + length b \<and>
    url_file_size g' = url_file_size g \<and>
    (url_file_size g \<le> int (unread_data_len (cache g')) \<longrightarrow> net_download_finish g' \<and> net_desc g' = Some (ONE_SHOT, 100))"
proof -
  let ?c = "cache g"
  have f: "cache_ok ?c" "rd_pos ?c = 0" "wr_pos ?c = unread_data_len ?c" "\<not> url_abort g" "100 \<le> url_file_size g"
    using assms(1) by (simp_all add: filled_def)
  obtain p where p: "net_desc g = Some (ONE_SHOT, p)" using assms(1) by (auto simp: filled_def)
  let ?d = "?c\<lparr>cache_buff := memcpy_at (wr_pos ?c) b (cache_buff ?c), wr_pos := wr_pos ?c + length b\<rparr>"
  let ?g = "g\<lparr>cache := ?d\<lparr>unread_data_len := unread_data_len ?c + length b\<rparr>\<rparr>"
  have put: "cache_put b ?c = Some ?d"
    using f assms(2) by (auto simp: cache_put_def put_bytes_def cache_ok_def Let_def)
  have d: "net_desc ?g = Some (ONE_SHOT, p)" "100 \<le> url_file_size ?g" using p f(5) by simp_all
  from show_download_one_shot[OF this]
  obtain g' where g': "show_download ?g = Some g'" "\<exists>p. net_desc g' = Some (ONE_SHOT, p)" "cache g' = cache ?g" "url_file_size g' = url_file_size g"
    "url_file_size g \<le> int (unread_data_len (cache ?g)) \<longrightarrow> net_download_finish g' \<and> net_desc g' = Some (ONE_SHOT, 100)"
    by auto
  have w: "write_data b g = Ret (int (length b), g')"
    using put g'(1) f(4) assms(2) by (simp add: write_data_def)
  note ok = write_data_ok[OF f(1,4) w]
  show ?thesis
    using w ok g' f by (auto simp: filled_def)
qed

lemma deliver_filled:
  assumes "filled g" "unread_data_len (cache g) + length (concat bs) \<le> cache_size (cache g)"
  shows "\<exists>g'. deliver bs g = Some ([], g') \<and> filled g' \<and> queue (cache g') = queue (cache g) @ concat bs \<and>
    unread_data_len (cache g') = unread_data_len (cache g) + length (concat bs) \<and> url_file_size g' = url_file_size g \<and>
    (bs \<noteq> [] \<longrightarrow> url_file_size g \<le> int (unread_data_len (cache g')) \<longrightarrow> net_download_finish g' \<and> net_desc g' = Some (ONE_SHOT, 100))"
  using assms
proof (induction bs arbitrary: g)
  case (Cons b bs)
  obtain g1 where g1: "write_data b g = Ret (int (length b), g1)" "filled g1" "queue (cache g1) = queue (cache g) @ b"
    "cache_size (cache g1) = cache_size (cache g)" "unread_data_len (cache g1) = unread_data_len (cache g) + length b"
    "url_file_size g1 = url_file_size g"
    "url_file_size g \<le> int (unread_data_len (cache g1)) \<longrightarrow> net_download_finish g1 \<and> net_desc g1 = Some (ONE_SHOT, 100)"
    using write_data_filled[OF Cons.prems(1), of b] Cons.prems(2) by auto
  have "unread_data_len (cache g1) + length (concat bs) \<le> cache_size (cache g1)" using g1(4,5) Cons.prems(2) by simp
  from Cons.IH[OF g1(2) this] obtain g' where "deliver bs g1 = Some ([], g')" "filled g'" "queue (cache g') = queue (cache g1) @ concat bs"
    "unread_data_len (cache g') = unread_data_len (cache g1) + length (concat bs)" "url_file_size g' = url_file_size g1"
    "bs \<noteq> [] \<longrightarrow> url_file_size g1 \<le> int (unread_data_len (cache g')) \<longrightarrow> net_download_finish g' \<and> net_desc g' = Some (ONE_SHOT, 100)"
    by blast
  then show ?case using g1 by (cases "bs = []") auto
qed simp

lemma net_download_complete:
  assumes "cache g = fresh_cache mem" "length pkt \<le> length mem" "\<not> url_abort g" "net_desc g = Some (ONE_SHOT, p)"
    and "concat blocks = pkt" "100 \<le> length pkt" "length pkt < 2 ^ 31"
  shows "\<exists>g'. net_download (Some (int (length pkt))) blocks g = Some ([], g') \<and> net_download_finish g' \<and> net_desc g' = Some (ONE_SHOT, 100) \<and>
    ready pkt ([], net_rewind g') \<and> url_file_size g' = int (length pkt)"
proof -
  let ?g = "g\<lparr>url_file_size := int (length pkt)\<rparr>"
  have sz: "to_int32 (int (length pkt)) = int (length pkt)" using assms(7) by (intro to_int32_id) simp_all
  have f: "filled ?g" "unread_data_len (cache ?g) = 0" "queue (cache ?g) = []" "cache_size (cache ?g) = length mem"
    using assms(1,3,4,6) fresh_cache_ok(1)[of mem] by (simp_all add: filled_def) (simp_all add: fresh_cache_def zero_cache_def)
  have fit: "unread_data_len (cache ?g) + length (concat blocks) \<le> cache_size (cache ?g)" using f(2,4) assms(2,5) by simp
  obtain g' where g': "deliver blocks ?g = Some ([], g')" "filled g'" "queue (cache g') = pkt"
    "unread_data_len (cache g') = length pkt" "url_file_size g' = int (length pkt)"
    "net_download_finish g'" "net_desc g' = Some (ONE_SHOT, 100)"
    using deliver_filled[OF f(1) fit] f(2,3) assms(5,6) by force
  have "net_rewind g' = g'\<lparr>cache := (cache g')\<lparr>file_offset := 0\<rparr>\<rparr>"
    using g'(2,4,5) by (simp add: net_rewind_def filled_def)
  moreover have "cache_ok ((cache g')\<lparr>file_offset := 0\<rparr>)" "queue ((cache g')\<lparr>file_offset := 0\<rparr>) = pkt"
    using g'(2,3) by (simp_all add: filled_def cache_ok_def queue_def)
  ultimately have "ready pkt ([], net_rewind g')"
    using g'(2,4) by (simp add: ready_def net_inv_def filled_def)
  then show ?thesis using g' sz by (auto simp: net_download_def transfer_size_def)
qed

lemma net_begin_one_shot:
  assumes "ready pkt ([], net_rewind g)" "url_file_size g = int (length pkt)" "HEADER_SIZE \<le> length pkt" "length pkt < 2 ^ 31" "els \<noteq> []"
  shows "\<exists>f. net_begin ONE_SHOT els cn (g, upg_init lib 0 []) = Some (f, upg_init lib (length pkt - HEADER_SIZE) []) \<and> net_ready_at pkt f HEADER_SIZE"
proof -
  have "nat ((url_file_size (net_rewind g) - int HEADER_SIZE) mod 2 ^ 32) = length pkt - HEADER_SIZE"
  proof -
    have "url_file_size (net_rewind g) = int (length pkt)" using assms(2) by (simp add: net_rewind_def)
    then show ?thesis using assms(3,4) by (simp only:) (intro wrapped_rest, simp_all)
  qed
  moreover obtain f where "url_seek (int HEADER_SIZE) SEEK_SET ([], net_rewind g) = Some (NET_ERR_NONE, f)" "ready pkt f" "at_offset f = HEADER_SIZE"
    using url_seek_ready[OF assms(1), of "int HEADER_SIZE"] assms(3) by (auto simp: net_rewind_def)
  ultimately show ?thesis
    using assms(4,5) by (auto simp: net_begin_def ONE_SHOT_def PIECE_BY_PIECE_def upg_init_def net_ready_at_def)
qed

text \<open>A successful start of the download leaves an empty ring on the allocated memory.\<close>

lemma prestart_fresh:
  assumes "net_obj_prestart ONE_SHOT head_ok malloc cn1 cn2 cn3 malloc_ok behind (p0, err0) = Some (ALISLUPG_ERR_NONE, p, err)"
    and "\<And>n mem. malloc n = Some mem \<Longrightarrow> length mem = n"
  shows "\<exists>mem. cache (n_net p) = fresh_cache mem \<and> length mem = package_len (n_net p) \<and> \<not> url_abort (n_net p) \<and> net_desc (n_net p) = Some (ONE_SHOT, 0)"
proof -
  obtain sz buf p1 where g: "net_obj_getcfg ONE_SHOT cn1 cn2 malloc_ok behind p0 HEADER_SIZE = Some (sz, buf, p1)"
    using assms(1) by (auto simp: net_obj_prestart_def split: if_splits bind_splits)
  let ?n = "nat (UPG_ALIGN_128K (url_file_size (n_net p1)))"
  obtain mem where mem: "malloc ?n = Some mem"
    using assms(1) g by (cases "malloc ?n") (auto simp: net_obj_prestart_def Let_def split: if_splits)
  have "length mem = ?n" by (rule assms(2)[OF mem])
  then show ?thesis
    using assms(1) g mem
    by (intro exI[of _ mem]) (auto simp: net_obj_prestart_def Let_def url_open_def change_net_cache_def fresh_cache_def split: if_splits)
qed

lemma net_one_shot:
  assumes "upg_plan_ok e els ts ps" "lib_start els ts ps lib" "aligned els" "file_ok els pkt"
    and "cache g = fresh_cache mem" "length pkt \<le> length mem" "\<not> url_abort g" "net_desc g = Some (ONE_SHOT, p)" "concat blocks = pkt"
  shows "\<exists>g' f0. net_download (Some (int (length pkt))) blocks g = Some ([], g') \<and> net_desc g' = Some (ONE_SHOT, 100) \<and>
    net_begin ONE_SHOT els cn (g', upg_init lib 0 []) = Some (f0, upg_init lib (length pkt - HEADER_SIZE) []) \<and> net_ready_at pkt f0 HEADER_SIZE"
proof -
  note fh = file_header[OF assms(4)]
  have "100 \<le> length pkt" using fh by (simp add: HEADER_SIZE_def)
  from net_download_complete[OF assms(5-9) this conjunct2[OF fh]] obtain g' where
    g': "net_download (Some (int (length pkt))) blocks g = Some ([], g')" "net_desc g' = Some (ONE_SHOT, 100)"
    "ready pkt ([], net_rewind g')" "url_file_size g' = int (length pkt)" by blast
  have "els \<noteq> []" using assms(3) by (simp add: aligned_def)
  from net_begin_one_shot[OF g'(3,4) conjunct1[OF fh] conjunct2[OF fh] this, of cn lib] g'(1,2) show ?thesis by blast
qed

subsection \<open>A small package\<close>

text \<open>The elements of theory \<open>Upgrade_Run\<close>, behind a header.\<close>

definition pkt_elems :: "upg_elem list" where
  "pkt_elems = [\<lparr>elem_name = ''kernel'', img_size = 128, img_offset = int HEADER_SIZE\<rparr>,
     \<lparr>elem_name = ''rootfs'', img_size = 128, img_offset = int HEADER_SIZE + 128\<rparr>]"

definition unit_pkt :: "u8 list" where
  "unit_pkt = replicate HEADER_SIZE 7 @ unit_data"

lemma pkt_elems_nth:
  assumes "j < 2"
  shows "elem_name (pkt_elems ! j) = elem_name (unit_elems ! j)" "img_len (pkt_elems ! j) = img_len (unit_elems ! j)"
proof -
  have "j = 0 \<or> j = 1" using assms by auto
  then show "elem_name (pkt_elems ! j) = elem_name (unit_elems ! j)" "img_len (pkt_elems ! j) = img_len (unit_elems ! j)"
    by (auto simp: pkt_elems_def unit_elems_def img_len_def)
qed

lemma pkt_start: "start_of pkt_elems 0 = 0" "start_of pkt_elems (Suc 0) = 128" "start_of pkt_elems 2 = 256" "length pkt_elems = 2"
  by (simp_all add: start_of_def pkt_elems_def img_len_def)

lemma pkt_plan:
  "upg_plan_ok unit_env pkt_elems unit_targets unit_parts" "lib_start pkt_elems unit_targets unit_parts unit_lib" "aligned pkt_elems"
proof -
  show "upg_plan_ok unit_env pkt_elems unit_targets unit_parts" "lib_start pkt_elems unit_targets unit_parts unit_lib"
    using unit_plan(1,2) by (simp_all add: upg_plan_ok_def lib_start_def target_ok_def unit_start pkt_start pkt_elems_nth)
  show "aligned pkt_elems" by (auto simp: aligned_def pkt_elems_def img_len_def less_Suc_eq)
qed

lemma pkt_file: "file_ok pkt_elems unit_pkt" "length unit_pkt = HEADER_SIZE + 256"
proof -
  show len: "length unit_pkt = HEADER_SIZE + 256" by (simp add: unit_pkt_def unit_data_def)
  have "contiguous pkt_elems"
    by (auto simp: contiguous_def pkt_start less_Suc_eq numeral_2_eq_2) (simp_all add: pkt_elems_def)
  then show "file_ok pkt_elems unit_pkt" using len by (simp add: file_ok_def pkt_start HEADER_SIZE_def)
qed

lemma pkt_image: "image_of pkt_elems (drop HEADER_SIZE unit_pkt) 0 = replicate 128 1" "image_of pkt_elems (drop HEADER_SIZE unit_pkt) (Suc 0) = replicate 128 2"
proof -
  have d: "drop HEADER_SIZE unit_pkt = unit_data" by (simp add: unit_pkt_def)
  have "image_of pkt_elems unit_data j = image_of unit_elems unit_data j" if "j < 2" "start_of pkt_elems j = start_of unit_elems j" for j
    using that pkt_elems_nth(2)[OF that(1)] by (simp add: image_of_def)
  then show "image_of pkt_elems (drop HEADER_SIZE unit_pkt) 0 = replicate 128 1" "image_of pkt_elems (drop HEADER_SIZE unit_pkt) (Suc 0) = replicate 128 2"
    using unit_image by (simp_all add: d pkt_start unit_start del: replicate.simps)
qed

definition zero_net :: net where
  "zero_net = \<lparr>cache = zero_cache, cache_change_flag = 0, package_buf = None, package_len = 0, url_file_size = 0, url_abort = False,
     net_desc = None, net_download_finish = False\<rparr>"

definition demo_conn :: "u8 list list list \<Rightarrow> net_conn" where
  "demo_conn as = \<lparr>cn_static = replicate CACHE_BUF_SIZE 0, cn_curl = True, cn_create = True, cn_answer = Some (int (length unit_pkt)), cn_arrivals = as\<rparr>"

text \<open>A plugin that knows the size of the package from before.\<close>

definition demo_plugin :: netupg where
  "demo_plugin = \<lparr>n_net = zero_net\<lparr>url_file_size := int (length unit_pkt)\<rparr>, n_config = [], n_pktname = [], n_dconfig = [], n_handle = False\<rparr>"

lemma demo_prestart:
  "\<exists>p. net_obj_prestart ONE_SHOT True (\<lambda>n. Some (replicate n 0)) (demo_conn []) (demo_conn []) (demo_conn []) True [] (demo_plugin, ALISLUPG_ERR_NONE) =
     Some (ALISLUPG_ERR_NONE, p, ALISLUPG_ERR_NONE) \<and> length unit_pkt \<le> package_len (n_net p)"
proof -
  have "int (length unit_pkt) \<le> UPG_ALIGN_128K (int (length unit_pkt))" by (rule align_128K_covers) (simp_all add: pkt_file HEADER_SIZE_def)
  then have "length unit_pkt \<le> nat (UPG_ALIGN_128K (int (length unit_pkt)))" "0 < nat (UPG_ALIGN_128K (int (length unit_pkt)))"
    using pkt_file(2) by linarith+
  then show ?thesis
    by (simp add: net_obj_prestart_def net_obj_getcfg_def demo_plugin_def Let_def url_open_def change_net_cache_def demo_conn_def)
qed

lemma demo_begin:
  "\<exists>f. net_begin PIECE_BY_PIECE pkt_elems (demo_conn [[unit_pkt]]) (zero_net, upg_init lib 0 []) = Some (f, upg_init lib (length unit_pkt - HEADER_SIZE) []) \<and>
     net_ready_at unit_pkt f HEADER_SIZE"
proof -
  let ?buf = "replicate CACHE_BUF_SIZE 0" and ?L = "length unit_pkt"
  let ?g = "zero_net\<lparr>url_file_size := int ?L, cache := fresh_cache ?buf\<rparr>"
  have L: "?L < 2 ^ 31" "HEADER_SIZE \<le> ?L" "?L \<le> CACHE_BUF_SIZE" "0 < HEADER_SIZE" by (simp_all add: pkt_file HEADER_SIZE_def CACHE_BUF_SIZE_def)
  have c: "url_connect (demo_conn [[unit_pkt]]) zero_net = (True, True, [[unit_pkt]], ?g)"
    using L by (auto simp: url_connect_def url_open_def transfer_size_def demo_conn_def zero_net_def Let_def to_int32_id fresh_cache_def)
  obtain g1 where g1: "deliver [unit_pkt] ?g = Some ([], g1)" "ready unit_pkt ([], g1)" "file_offset (cache g1) = 0"
    using fresh_arrived[of ?g ?buf unit_pkt] L(3) by (auto simp: zero_net_def)
  then obtain f where f: "url_seek (int HEADER_SIZE) SEEK_SET ([], g1) = Some (NET_ERR_NONE, f)" "ready unit_pkt f" "at_offset f = HEADER_SIZE"
    using url_seek_ready[OF g1(2), of "int HEADER_SIZE"] L(2) by auto
  have "url_seek (int HEADER_SIZE) SEEK_SET ([[unit_pkt]], ?g) = url_seek (int HEADER_SIZE) SEEK_SET ([], g1)"
    by (rule url_seek_arrived[OF g1(1)]) (use L(4) g1(3) in \<open>simp_all add: fresh_cache_def zero_cache_def\<close>)
  moreover have "nat ((int ?L - int HEADER_SIZE) mod 2 ^ 32) = ?L - HEADER_SIZE" using L by (intro wrapped_rest) simp_all
  ultimately show ?thesis
    using c f L(1) by (auto simp: net_begin_def pkt_elems_def Let_def upg_init_def net_ready_at_def)
qed

subsection \<open>The network upgrades as a whole\<close>

text \<open>
  (C9) One-shot: when the download was started and the server delivers the whole package, in
  blocks of any size, into memory that is large enough, then the download ends at 100 percent,
  the upgrade from the memory starts, meets no error, has a step to take as long as the writer
  runs, every step brings the end nearer, and at the end every partition holds its image. The
  images are whole 128-byte units for partitions other than \<open>boot\<close>, \<open>bootbak\<close> and \<open>sflash\<close>, and no
  erasure fails.
\<close>

theorem net_one_shot_completes:
  assumes "net_obj_prestart ONE_SHOT head_ok malloc cn1 cn2 cn3 malloc_ok behind (p0, err0) = Some (ALISLUPG_ERR_NONE, p, err)"
    and "\<And>n mem. malloc n = Some mem \<Longrightarrow> length mem = n" and "length pkt \<le> package_len (n_net p)" and "concat blocks = pkt"
    and "upg_plan_ok e els ts ps" and "lib_start els ts ps lib" and "aligned els" and "file_ok els pkt"
  shows "\<exists>g f0 s0. net_download (Some (int (length pkt))) blocks (n_net p) = Some ([], g) \<and> net_desc g = Some (ONE_SHOT, 100) \<and>
    net_begin ONE_SHOT els cn (g, upg_init lib 0 []) = Some (f0, s0) \<and>
    (\<forall>f s. (net_step e scale els)\<^sup>*\<^sup>* (f0, s0) (f, s) \<longrightarrow> d_error s = ALISLUPG_ERR_NONE \<and>
       (w_run s \<longrightarrow> (\<exists>y. net_step e scale els (f, s) y)) \<and>
       (\<forall>f' s'. net_step e scale els (f, s) (f', s') \<longrightarrow> work els s' < work els s) \<and>
       (\<not> w_run s \<longrightarrow> (\<forall>j<length els. holds (ts j) (w_lib (writer s)) (image_of els (drop HEADER_SIZE pkt) j))))"
proof -
  obtain mem where mem: "cache (n_net p) = fresh_cache mem" "length pkt \<le> length mem" "\<not> url_abort (n_net p)" "net_desc (n_net p) = Some (ONE_SHOT, 0)"
    using prestart_fresh[OF assms(1,2)] assms(3) by auto
  obtain g f0 where g: "net_download (Some (int (length pkt))) blocks (n_net p) = Some ([], g)" "net_desc g = Some (ONE_SHOT, 100)"
    "net_begin ONE_SHOT els cn (g, upg_init lib 0 []) = Some (f0, upg_init lib (length pkt - HEADER_SIZE) [])" "net_ready_at pkt f0 HEADER_SIZE"
    using net_one_shot[OF assms(5-8) mem assms(4), of cn] by blast
  note a = assms(5,6,8) g(4) order_refl
  show ?thesis
    unfolding net_step_def
    using g(1-3) whole.never_fails[OF a] whole.can_step[OF a assms(7)] whole.step_works[OF a] whole.finished_images(1)[OF a assms(7)]
    by (intro exI[of _ g] exI[of _ f0] exI) blast
qed

theorem net_one_shot_completes_witness:
  "\<exists>p g f0 s0 f s. net_obj_prestart ONE_SHOT True (\<lambda>n. Some (replicate n 0)) (demo_conn []) (demo_conn []) (demo_conn []) True []
       (demo_plugin, ALISLUPG_ERR_NONE) = Some (ALISLUPG_ERR_NONE, p, ALISLUPG_ERR_NONE) \<and>
     net_download (Some (int (length unit_pkt))) [take 1000 unit_pkt, drop 1000 unit_pkt] (n_net p) = Some ([], g) \<and>
     net_begin ONE_SHOT pkt_elems (demo_conn []) (g, upg_init unit_lib 0 []) = Some (f0, s0) \<and> (net_step unit_env 10 pkt_elems)\<^sup>*\<^sup>* (f0, s0) (f, s) \<and> \<not> w_run s \<and>
     d_error s = ALISLUPG_ERR_NONE \<and> holds (unit_targets 0) (w_lib (writer s)) (replicate 128 1) \<and> holds (unit_targets 1) (w_lib (writer s)) (replicate 128 2)"
proof -
  let ?m = "\<lambda>n. Some (replicate n 0)" and ?b = "[take 1000 unit_pkt, drop 1000 unit_pkt]"
  obtain p where p: "net_obj_prestart ONE_SHOT True ?m (demo_conn []) (demo_conn []) (demo_conn []) True [] (demo_plugin, ALISLUPG_ERR_NONE) =
     Some (ALISLUPG_ERR_NONE, p, ALISLUPG_ERR_NONE)" "length unit_pkt \<le> package_len (n_net p)"
    using demo_prestart by blast
  have m: "\<And>n mem. ?m n = Some mem \<Longrightarrow> length mem = n" by auto
  have b: "concat ?b = unit_pkt" by simp
  from net_one_shot_completes[OF p(1) m p(2) b pkt_plan pkt_file(1), of "demo_conn []" 10] obtain g f0 s0 where
    t: "net_download (Some (int (length unit_pkt))) ?b (n_net p) = Some ([], g)" "net_begin ONE_SHOT pkt_elems (demo_conn []) (g, upg_init unit_lib 0 []) = Some (f0, s0)"
    "\<forall>f s. (net_step unit_env 10 pkt_elems)\<^sup>*\<^sup>* (f0, s0) (f, s) \<longrightarrow> d_error s = ALISLUPG_ERR_NONE \<and>
       (w_run s \<longrightarrow> (\<exists>y. net_step unit_env 10 pkt_elems (f, s) y)) \<and>
       (\<forall>f' s'. net_step unit_env 10 pkt_elems (f, s) (f', s') \<longrightarrow> work pkt_elems s' < work pkt_elems s) \<and>
       (\<not> w_run s \<longrightarrow> (\<forall>j<length pkt_elems. holds (unit_targets j) (w_lib (writer s)) (image_of pkt_elems (drop HEADER_SIZE unit_pkt) j)))"
    by blast
  obtain mem where mem: "cache (n_net p) = fresh_cache mem" "length unit_pkt \<le> length mem" "\<not> url_abort (n_net p)" "net_desc (n_net p) = Some (ONE_SHOT, 0)"
    using prestart_fresh[OF p(1) m] p(2) by auto
  have i: "s0 = upg_init unit_lib (length unit_pkt - HEADER_SIZE) []" "net_ready_at unit_pkt f0 HEADER_SIZE"
    using net_one_shot[OF pkt_plan pkt_file(1) mem b, of "demo_conn []"] t(1,2) by auto
  obtain f s where s: "(net_step unit_env 10 pkt_elems)\<^sup>*\<^sup>* (f0, s0) (f, s)" "\<not> w_run s"
    using whole.finishes[OF pkt_plan(1,2) pkt_file(1) i(2) order_refl pkt_plan(3) rtranclp.rtrancl_refl, of 10] i(1) unfolding net_step_def by blast
  with t(3) have h: "d_error s = ALISLUPG_ERR_NONE" "\<forall>j<length pkt_elems. holds (unit_targets j) (w_lib (writer s)) (image_of pkt_elems (drop HEADER_SIZE unit_pkt) j)"
    by blast+
  from h(2)[rule_format, of 0] h(2)[rule_format, of "Suc 0"] h(1) p(1) t(1,2) s show ?thesis
    by (intro exI[of _ p] exI[of _ g] exI[of _ f0] exI[of _ s0] exI[of _ f] exI[of _ s]) (simp add: pkt_start pkt_image del: replicate.simps)
qed

text \<open>
  (C8) Piece by piece, with time-outs and a connection that breaks anywhere: as long as no read
  and no seek has run over the end of an exactly full ring, the partitions hold the parts of the
  images of the package that lie before the writer's point, and whole images at an end without
  an error. An overrun is possible with the sizes of the code (\<open>ring_overrun_reachable\<close>) and goes
  unnoticed; the run goes on with arbitrary bytes and nothing is stated of it. The partitions are
  others than \<open>boot\<close>, \<open>bootbak\<close> and \<open>sflash\<close>, and no erasure fails.
\<close>

theorem net_piecewise_stores_images:
  assumes "upg_plan_ok e els ts ps" and "lib_start els ts ps lib" and "file_ok els pkt" and "cache_change_flag g \<noteq> 1" and "serves pkt cn"
    and "net_begin PIECE_BY_PIECE els cn (g, upg_init lib 0 []) = Some (f0, s0)"
    and "(net_step_any e scale els)\<^sup>*\<^sup>* (Some f0, s0) (fo, s)" and "fo \<noteq> None" and "j < length els"
  shows "holds (ts j) (w_lib (writer s)) (take (totalwrite (writer s) - start_of els j) (image_of els (drop HEADER_SIZE pkt) j)) \<and>
    (aligned els \<and> d_error s = ALISLUPG_ERR_NONE \<and> \<not> w_run s \<longrightarrow> holds (ts j) (w_lib (writer s)) (image_of els (drop HEADER_SIZE pkt) j))"
proof -
  obtain f where "(net_step e scale els)\<^sup>*\<^sup>* (f0, s0) (f, s)"
    using assms(7,8) net_run_exact by fast
  from net_piecewise[OF assms(1-6) this assms(9)] show ?thesis by blast
qed

theorem net_piecewise_stores_images_witness:
  "\<exists>f0 s0 f s. net_begin PIECE_BY_PIECE pkt_elems (demo_conn [[unit_pkt]]) (zero_net, upg_init unit_lib 0 []) = Some (f0, s0) \<and>
     (net_step_any unit_env 10 pkt_elems)\<^sup>*\<^sup>* (Some f0, s0) (Some f, s) \<and> \<not> w_run s \<and> holds (unit_targets 1) (w_lib (writer s)) (replicate 128 2)"
proof -
  let ?cn = "demo_conn [[unit_pkt]]" and ?i = "upg_init unit_lib (length unit_pkt - HEADER_SIZE) []"
  obtain f0 where b: "net_begin PIECE_BY_PIECE pkt_elems ?cn (zero_net, upg_init unit_lib 0 []) = Some (f0, ?i)" "net_ready_at unit_pkt f0 HEADER_SIZE"
    using demo_begin by blast
  note a = pkt_plan(1,2) pkt_file(1) b(2) order_refl
  obtain f s where s: "(net_step unit_env 10 pkt_elems)\<^sup>*\<^sup>* (f0, ?i) (f, s)" "\<not> w_run s"
    using whole.finishes[OF a pkt_plan(3) rtranclp.rtrancl_refl, of 10] unfolding net_step_def by blast
  have ne: "d_error s = ALISLUPG_ERR_NONE" using whole.never_fails[OF a s(1)[unfolded net_step_def]] .
  have sv: "serves unit_pkt ?cn" "cache_change_flag zero_net \<noteq> 1" by (simp_all add: serves_def demo_conn_def zero_net_def)
  have j: "Suc 0 < length pkt_elems" by (simp add: pkt_start)
  from net_piecewise_stores_images[OF pkt_plan(1,2) pkt_file(1) sv(2,1) b(1) net_run_any[OF s(1)] _ j] ne s(2) pkt_plan(3)
  have "holds (unit_targets 1) (w_lib (writer s)) (replicate 128 2)" by (simp add: pkt_image del: replicate.simps)
  with b(1) s(2) net_run_any[OF s(1)] show ?thesis by blast
qed

end
