(* ===== verification/PackTool.thy ===== *)
theory PackTool
  imports FastCRC Dsmcc
begin

section \<open>The carousel generator of the pack tool (\<open>ALiUpgPackTool/src/aliota.cpp\<close>)\<close>

text \<open>
  The sender of what the OTA plug-in receives: the division of the upgrade file into
  modules, and the DSI, DII and DDB sections of the data carousel. There is one group, as
  in the source (\<open>g_group_num = 1\<close>); a section is its list of bytes, the check sum included.
\<close>

definition PK_BLOCK_SIZE :: nat where "PK_BLOCK_SIZE = 4066"
definition MAX_MODULE_IN_GROUP :: nat where "MAX_MODULE_IN_GROUP = 256"
definition MAX_SIZE_PER_MODULE :: nat where "MAX_SIZE_PER_MODULE = 4066 * 256"
definition MODULE_VERSION :: u8 where "MODULE_VERSION = 0"

record module_info_t =
  pk_module_id :: nat
  pk_module_size :: nat
  pk_last_section_num :: nat

record group_info_t =
  pk_oui :: nat
  pk_hw_model :: nat
  pk_hw_ver :: nat
  pk_sw_model :: nat
  pk_sw_ver :: nat
  pk_group_id :: nat
  pk_group_len :: nat
  pk_module_num :: nat
  pk_module_info :: "module_info_t list"

datatype otapkt_error = ERROR_FILE_SIZE

text \<open>
  \<open>gen_group_info\<close> on a file of \<open>flen\<close> bytes that can be opened; \<open>cur\<close> is \<open>g_current_group\<close>. An
  empty file makes the loop bound wrap around (\<open>None\<close>). The modules after the last one keep
  the zero of the static array.
\<close>

definition pk_module :: "nat \<Rightarrow> nat \<Rightarrow> nat \<Rightarrow> nat \<Rightarrow> module_info_t" where
  "pk_module cur idx sz last_num =
     \<lparr>pk_module_id = ((cur + 1) mod 256) * 256 + idx mod 256, pk_module_size = sz, pk_last_section_num = last_num\<rparr>"

definition pk_no_module :: module_info_t where
  "pk_no_module = \<lparr>pk_module_id = 0, pk_module_size = 0, pk_last_section_num = 0\<rparr>"

definition gen_group_info :: "nat \<Rightarrow> nat \<Rightarrow> group_info_t \<Rightarrow> (otapkt_error + group_info_t) option" where
  "gen_group_info cur flen grp =
     (let grp = grp\<lparr>pk_group_id := 0x80000000 + 2, pk_group_len := flen\<rparr>
      in if flen > MAX_MODULE_IN_GROUP * MAX_SIZE_PER_MODULE then Some (Inl ERROR_FILE_SIZE)
         else if flen = 0 then None
         else
           let count = flen div MAX_SIZE_PER_MODULE + (if flen mod MAX_SIZE_PER_MODULE \<noteq> 0 then 1 else 0);
               remain = flen - (count - 1) * MAX_SIZE_PER_MODULE;
               last_num = (if remain mod PK_BLOCK_SIZE \<noteq> 0 then remain div PK_BLOCK_SIZE
                       else remain div PK_BLOCK_SIZE - 1)
           in Some (Inr (grp\<lparr>pk_module_num := count,
                pk_module_info := map (\<lambda>idx. pk_module cur idx MAX_SIZE_PER_MODULE 255) [0..<count - 1] @
                  [pk_module cur (count - 1) remain (last_num mod 256)] @
                  replicate (MAX_MODULE_IN_GROUP - count) pk_no_module\<rparr>)))"

subsection \<open>Sections\<close>

text \<open>The section header, the message and the check sum that \<open>MG_FCS_Coder\<close> appends.\<close>

definition put_section :: "u8 \<Rightarrow> nat \<Rightarrow> u8 \<Rightarrow> nat \<Rightarrow> nat \<Rightarrow> u8 list \<Rightarrow> u8 list" where
  "put_section table_id ext ver sec_num last_num msg =
     (let len = length msg + 9;
          body = [table_id, of_nat (0xB0 + len div 256 mod 16), of_nat len] @ nb16 ext @
            [ver, of_nat sec_num, of_nat last_num] @ msg
      in body @ nb32 (unat (fst (MG_Table_Driven_CRC (MG_Setup_CRC_Table crc_globals_init) 0xffffffff body))))"

definition nb24 :: "nat \<Rightarrow> u8 list" where
  "nb24 n = [of_nat (n div 65536), of_nat (n div 256), of_nat n]"

text \<open>The description of a group in the DSI: two compatibility descriptors and no group info.\<close>

definition dsi_group :: "group_info_t \<Rightarrow> u8 list" where
  "dsi_group g =
     nb32 (pk_group_id g) @ nb32 (pk_group_len g) @ nb16 24 @ nb16 2 @
     [1, 9, 1] @ nb24 (pk_oui g) @ nb16 (pk_hw_model g) @ nb16 (pk_hw_ver g) @ [0] @
     [2, 9, 1] @ nb24 (pk_oui g) @ nb16 (pk_sw_model g) @ nb16 (pk_sw_ver g) @ [0] @
     nb16 0 @ nb16 0"

definition put_dsi_section :: "group_info_t list \<Rightarrow> u8 list" where
  "put_dsi_section gs =
     (let private_data = nb16 (length gs) @ concat (map dsi_group gs);
          body = replicate 20 0xff @ nb16 0 @ nb16 (length private_data) @ private_data
      in put_section 0x3B 0 0xc1 0 0
           ([0x11, 0x03, 0x10, 0x06] @ nb32 0x80000000 @ [0xff, 0] @ nb16 (length body) @ body))"

text \<open>
  A module in the DII, with a link to the next module when there are several. The link of the
  last module is taken from the entry behind it: of a full table of 256 modules the tool reads
  behind the table there, and the two bytes are not specified.
\<close>

definition dii_entry :: "group_info_t \<Rightarrow> nat \<Rightarrow> u8 list" where
  "dii_entry g i =
     (let m = pk_module_info g ! i
      in nb16 (pk_module_id m) @ nb32 (pk_module_size m) @ [MODULE_VERSION] @
         (if pk_module_num g > 1
          then [5, 4, 3, if i = 0 then 0 else if i = pk_module_num g - 1 then 2 else 1] @
            nb16 (pk_module_id (pk_module_info g ! (i + 1)))
          else [0]))"

definition put_dii_section :: "group_info_t \<Rightarrow> u8 list" where
  "put_dii_section g =
     put_section 0x3B (pk_group_id g mod 65536) 0xc1 0 0
       ([0x11, 0x03, 0x10, 0x02] @ nb32 (pk_group_id g) @ [0xff, 0] @ nb16 (18 + 2 + pk_module_num g * 13 + 2) @
        nb32 11 @ nb16 PK_BLOCK_SIZE @ [0, 0] @ nb32 0 @ nb32 0 @ nb16 0 @
        nb16 (pk_module_num g) @ concat (map (dii_entry g) [0..<pk_module_num g]) @ nb16 0)"

text \<open>A data block: \<open>payload\<close> are the bytes read from the file.\<close>

definition put_ddb_section :: "nat \<Rightarrow> nat \<Rightarrow> nat \<Rightarrow> u8 list \<Rightarrow> u8 list" where
  "put_ddb_section mid sec_num last_num payload =
     put_section 0x3C mid 0xc1 sec_num last_num (ddb_msg 1 mid MODULE_VERSION (sec_num mod 256) payload)"

text \<open>
  The loop of \<open>gen_otapkt_start\<close> over the section numbers of a module: how many bytes go into
  section \<open>n\<close>, or that it is skipped; the bytes are read one after the other from the file.
\<close>

definition ddb_block_len :: "nat \<Rightarrow> nat \<Rightarrow> nat option" where
  "ddb_block_len sz n =
     (if sz < n * PK_BLOCK_SIZE then None
      else Some (if sz - n * PK_BLOCK_SIZE > PK_BLOCK_SIZE then PK_BLOCK_SIZE else sz - n * PK_BLOCK_SIZE))"

fun module_sections :: "module_info_t \<Rightarrow> nat list \<Rightarrow> u8 list \<Rightarrow> u8 list list \<times> u8 list" where
  "module_sections m [] file = ([], file)"
| "module_sections m (n # ns) file =
     (case ddb_block_len (pk_module_size m) n of
        None \<Rightarrow> module_sections m ns file
      | Some k \<Rightarrow>
          let (secs, rest) = module_sections m ns (drop k file)
          in (put_ddb_section (pk_module_id m) n (pk_last_section_num m) (take k file) # secs, rest))"

text \<open>All data sections of a group, module after module, in the order of \<open>gen_otapkt_start\<close>.\<close>

fun group_sections :: "module_info_t list \<Rightarrow> u8 list \<Rightarrow> u8 list list" where
  "group_sections [] file = []"
| "group_sections (m # ms) file =
     (let (secs, rest) = module_sections m [0..<256] file in secs @ group_sections ms rest)"

subsection \<open>The file is divided completely\<close>

text \<open>A group before its modules are known, for the receiver of the witnesses.\<close>

definition the_group :: "nat \<Rightarrow> group_info_t" where
  "the_group ver = \<lparr>pk_oui = 0x90E6, pk_hw_model = 0x3823, pk_hw_ver = 0x0201, pk_sw_model = 1, pk_sw_ver = ver,
     pk_group_id = 0, pk_group_len = 0, pk_module_num = 0, pk_module_info = []\<rparr>"

definition group_modules :: "group_info_t \<Rightarrow> module_info_t list" where
  "group_modules g = take (pk_module_num g) (pk_module_info g)"

lemma gen_group_info_modules:
  assumes "0 < flen" "flen \<le> MAX_MODULE_IN_GROUP * MAX_SIZE_PER_MODULE"
  defines "n \<equiv> (flen + MAX_SIZE_PER_MODULE - 1) div MAX_SIZE_PER_MODULE"
  defines "r \<equiv> flen - (n - 1) * MAX_SIZE_PER_MODULE"
  shows "gen_group_info cur flen g0 = Some (Inr (g0\<lparr>pk_group_id := 0x80000002, pk_group_len := flen, pk_module_num := n,
      pk_module_info := map (\<lambda>idx. pk_module cur idx MAX_SIZE_PER_MODULE 255) [0..<n - 1] @
        [pk_module cur (n - 1) r (((r + PK_BLOCK_SIZE - 1) div PK_BLOCK_SIZE - 1) mod 256)] @
        replicate (MAX_MODULE_IN_GROUP - n) pk_no_module\<rparr>))"
    and "0 < n" "n \<le> 256" "0 < r" "r \<le> MAX_SIZE_PER_MODULE" "(n - 1) * MAX_SIZE_PER_MODULE + r = flen"
proof -
  let ?M = MAX_SIZE_PER_MODULE
  have M: "0 < ?M" "0 < PK_BLOCK_SIZE"
    by (simp_all add: MAX_SIZE_PER_MODULE_def PK_BLOCK_SIZE_def)
  have "?M \<le> flen + ?M - 1"
    using assms(1) by linarith
  then show pos: "0 < n"
    unfolding n_def using M(1) by (simp only: div_greater_zero_iff)
  have "flen + ?M - 1 < 257 * ?M"
    using assms(1,2) by (simp add: MAX_MODULE_IN_GROUP_def)
  then have "n < 257"
    unfolding n_def using M(1) by (simp only: div_less_iff_less_mult)
  then show "n \<le> 256" by simp
  have dm: "n * ?M + (flen + ?M - 1) mod ?M = flen + ?M - 1" "(flen + ?M - 1) mod ?M < ?M"
    using M(1) by (simp_all add: n_def)
  obtain k where k: "n = Suc k"
    using pos by (cases n) auto
  have b: "k * ?M < flen" "flen \<le> k * ?M + ?M"
    using dm M(1) unfolding k mult_Suc by linarith+
  then show r: "0 < r" "r \<le> ?M" "(n - 1) * ?M + r = flen"
    by (simp_all add: r_def k)
  have cnt: "flen div ?M + (if flen mod ?M \<noteq> 0 then 1 else 0) = n"
    unfolding n_def by (rule ceil_div [OF M(1)])
  have last_num: "(if r mod PK_BLOCK_SIZE \<noteq> 0 then r div PK_BLOCK_SIZE else r div PK_BLOCK_SIZE - 1) =
      (r + PK_BLOCK_SIZE - 1) div PK_BLOCK_SIZE - 1"
    unfolding ceil_div [OF M(2), symmetric] by simp
  show "gen_group_info cur flen g0 = Some (Inr (g0\<lparr>pk_group_id := 0x80000002, pk_group_len := flen, pk_module_num := n,
      pk_module_info := map (\<lambda>idx. pk_module cur idx MAX_SIZE_PER_MODULE 255) [0..<n - 1] @
        [pk_module cur (n - 1) r (((r + PK_BLOCK_SIZE - 1) div PK_BLOCK_SIZE - 1) mod 256)] @
        replicate (MAX_MODULE_IN_GROUP - n) pk_no_module\<rparr>))"
    unfolding gen_group_info_def Let_def cnt r_def [symmetric] last_num using assms(1,2) by simp
qed

lemma last_num_fits:
  assumes "r \<le> MAX_SIZE_PER_MODULE"
  shows "((r + PK_BLOCK_SIZE - 1) div PK_BLOCK_SIZE - 1) mod 256 = (r + PK_BLOCK_SIZE - 1) div PK_BLOCK_SIZE - 1"
proof -
  have "r + PK_BLOCK_SIZE - 1 < 257 * PK_BLOCK_SIZE"
    using assms by (simp add: MAX_SIZE_PER_MODULE_def PK_BLOCK_SIZE_def)
  then have "(r + PK_BLOCK_SIZE - 1) div PK_BLOCK_SIZE < 257"
    by (subst div_less_iff_less_mult) (simp_all add: PK_BLOCK_SIZE_def)
  then show ?thesis
    by (intro mod_less) linarith
qed

lemma pk_module_id_bound [simp]:
  "pk_module_id (pk_module cur idx sz l) < 65536" "pk_module_size (pk_module cur idx sz l) = sz"
proof -
  have "(cur + 1) mod 256 < 256" "idx mod 256 < 256"
    by (rule mod_less_divisor, simp)+
  then show "pk_module_id (pk_module cur idx sz l) < 65536" "pk_module_size (pk_module cur idx sz l) = sz"
    by (simp_all add: pk_module_def)
qed

lemma pack_modules_facts:
  assumes "0 < flen" and "flen \<le> MAX_MODULE_IN_GROUP * MAX_SIZE_PER_MODULE"
  shows "\<exists>g. gen_group_info cur flen g0 = Some (Inr g) \<and> 0 < pk_module_num g \<and> pk_module_num g \<le> 256 \<and>
    length (pk_module_info g) = 256 \<and> pk_group_len g = flen \<and>
    g = g0\<lparr>pk_group_id := 0x80000002, pk_group_len := flen, pk_module_num := pk_module_num g,
      pk_module_info := pk_module_info g\<rparr> \<and>
    (\<forall>m\<in>set (pk_module_info g). pk_module_id m < 65536 \<and> pk_module_size m \<le> MAX_SIZE_PER_MODULE) \<and>
    sum_list (map pk_module_size (group_modules g)) = flen \<and> distinct (map pk_module_id (group_modules g)) \<and>
    (\<forall>m\<in>set (group_modules g). 0 < pk_module_size m \<and> pk_module_size m \<le> MAX_SIZE_PER_MODULE \<and>
       pk_last_section_num m = (pk_module_size m + PK_BLOCK_SIZE - 1) div PK_BLOCK_SIZE - 1)"
proof -
  let ?M = MAX_SIZE_PER_MODULE and ?n = "(flen + MAX_SIZE_PER_MODULE - 1) div MAX_SIZE_PER_MODULE"
  let ?r = "flen - (?n - 1) * ?M"
  note g = gen_group_info_modules [OF assms]
  define last_m where "last_m = pk_module cur (?n - 1) ?r (((?r + PK_BLOCK_SIZE - 1) div PK_BLOCK_SIZE - 1) mod 256)"
  define ms where "ms = map (\<lambda>idx. pk_module cur idx ?M 255) [0..<?n - 1] @ [last_m]"
  define gr where "gr = g0\<lparr>pk_group_id := 0x80000002, pk_group_len := flen, pk_module_num := ?n,
      pk_module_info := ms @ replicate (MAX_MODULE_IN_GROUP - ?n) pk_no_module\<rparr>"
  have run: "gen_group_info cur flen g0 = Some (Inr gr)"
    using g(1) [of cur g0] by (simp add: gr_def ms_def last_m_def)
  have len: "length ms = ?n"
    using g(2) by (simp add: ms_def)
  then have gm: "group_modules gr = ms" "length (pk_module_info gr) = 256"
    using g(3) by (simp_all add: group_modules_def gr_def MAX_MODULE_IN_GROUP_def)
  have nth: "ms ! i = pk_module cur i (pk_module_size (ms ! i)) (pk_last_section_num (ms ! i))" if "i < ?n" for i
  proof (cases "i < ?n - 1")
    case False
    then have "i = ?n - 1"
      using that by linarith
    then show ?thesis
      by (simp add: ms_def last_m_def pk_module_def nth_append)
  qed (simp add: ms_def pk_module_def nth_append)
  have "pk_module_id (ms ! i) = ((cur + 1) mod 256) * 256 + i" if "i < ?n" for i
    using that g(3) by (subst nth [OF that]) (simp add: pk_module_def)
  then have "distinct (map pk_module_id ms)"
    using len by (simp add: distinct_conv_nth)
  moreover have "sum_list (map pk_module_size ms) = flen"
    using g(6) by (simp add: ms_def last_m_def pk_module_def sum_list_triv comp_def mult.commute)
  moreover have "0 < pk_module_size m \<and> pk_module_size m \<le> ?M \<and>
      pk_last_section_num m = (pk_module_size m + PK_BLOCK_SIZE - 1) div PK_BLOCK_SIZE - 1" if "m \<in> set ms" for m
  proof (cases "m = last_m")
    case True
    show ?thesis
      unfolding True last_m_def pk_module_def last_num_fits [OF g(5)] using g(4,5) by simp
  next
    case False
    then obtain idx where "m = pk_module cur idx ?M 255"
      using \<open>m \<in> set ms\<close> by (auto simp: ms_def)
    then show ?thesis
      by (simp add: pk_module_def MAX_SIZE_PER_MODULE_def PK_BLOCK_SIZE_def)
  qed
  moreover have "pk_module_id m < 65536 \<and> pk_module_size m \<le> ?M" if "m \<in> set (pk_module_info gr)" for m
    using that g(5) pk_module_id_bound by (auto simp: gr_def ms_def last_m_def pk_no_module_def)
  ultimately show ?thesis
    using run gm g(2,3) by (intro exI [of _ gr]) (simp add: gr_def)
qed

text \<open>
  Dividing the upgrade file: for every file that is not empty and fits into 256 modules
  the division succeeds; the modules have distinct identifiers, none is empty or too
  large, their sizes add up to the file size, and the last section number of each is that
  of its last block.
\<close>

lemma pack_modules_partition:
  assumes "0 < flen" and "flen \<le> MAX_MODULE_IN_GROUP * MAX_SIZE_PER_MODULE"
  shows "\<exists>g. gen_group_info cur flen g0 = Some (Inr g) \<and> 0 < pk_module_num g \<and> pk_module_num g \<le> 256 \<and>
    length (pk_module_info g) = 256 \<and> pk_group_len g = flen \<and>
    sum_list (map pk_module_size (group_modules g)) = flen \<and> distinct (map pk_module_id (group_modules g)) \<and>
    (\<forall>m\<in>set (group_modules g). 0 < pk_module_size m \<and> pk_module_size m \<le> MAX_SIZE_PER_MODULE \<and>
       pk_last_section_num m = (pk_module_size m + PK_BLOCK_SIZE - 1) div PK_BLOCK_SIZE - 1)"
  using pack_modules_facts [OF assms, of cur g0] by blast

subsection \<open>The sections of a module carry its blocks\<close>

lemma module_sections_from:
  fixes m :: module_info_t and fl :: "u8 list"
  defines "sz \<equiv> pk_module_size m"
  assumes "sz \<le> length fl"
  shows "module_sections m [i..<i + c] (drop (min (i * PK_BLOCK_SIZE) sz) fl) =
    (map (\<lambda>n. put_ddb_section (pk_module_id m) n (pk_last_section_num m) (image_block PK_BLOCK_SIZE (take sz fl) n))
       (filter (\<lambda>n. n * PK_BLOCK_SIZE \<le> sz) [i..<i + c]),
     drop (min ((i + c) * PK_BLOCK_SIZE) sz) fl)"
proof (induction c arbitrary: i)
  case (Suc c)
  let ?B = PK_BLOCK_SIZE
  have up: "[i..<i + Suc c] = i # [Suc i..<Suc i + c]"
    by (simp add: upt_conv_Cons)
  show ?case
  proof (cases "sz < i * ?B")
    case True
    then have "min (i * ?B) sz = min (Suc i * ?B) sz"
      by simp
    then show ?thesis
      using Suc.IH [of "Suc i"] True unfolding up by (simp add: ddb_block_len_def sz_def [symmetric])
  next
    case False
    let ?k = "if sz - i * ?B > ?B then ?B else sz - i * ?B"
    have k: "i * ?B + ?k = min (Suc i * ?B) sz"
      using False by (auto simp: min_def)
    have "take ?k (drop (i * ?B) fl) = image_block ?B (take sz fl) i"
      using False by (simp add: image_block_def drop_take min_def)
    moreover have "drop ?k (drop (min (i * ?B) sz) fl) = drop (min (Suc i * ?B) sz) fl"
      using False k by (simp only: drop_drop min_absorb1 not_less add.commute)
    ultimately show ?thesis
      using Suc.IH [of "Suc i"] False unfolding up
      by (simp add: ddb_block_len_def sz_def [symmetric] min_absorb1 Let_def)
  qed
qed simp

lemma module_sections_blocks:
  assumes "pk_module_size m \<le> length fl" and "pk_module_size m \<le> MAX_SIZE_PER_MODULE"
  shows "module_sections m [0..<256] fl =
    (map (\<lambda>n. put_ddb_section (pk_module_id m) n (pk_last_section_num m)
        (image_block PK_BLOCK_SIZE (take (pk_module_size m) fl) n))
       (filter (\<lambda>n. n * PK_BLOCK_SIZE \<le> pk_module_size m) [0..<256]),
     drop (pk_module_size m) fl)"
  using module_sections_from [OF assms(1), of 0 256] assms(2)
  by (simp add: min_def MAX_SIZE_PER_MODULE_def PK_BLOCK_SIZE_def)

text \<open>
  The data sections generated for a module carry exactly its consecutive blocks: the
  payload of section \<open>n\<close> is block \<open>n\<close> of the module (an empty one closes a module whose size
  is a multiple of the block size), and the file is left at the start of the next module.
\<close>

lemma module_sections_are_blocks:
  assumes "pk_module_size m \<le> length fl" and "pk_module_size m \<le> MAX_SIZE_PER_MODULE"
  shows "module_sections m [0..<256] fl =
    (map (\<lambda>n. put_ddb_section (pk_module_id m) n (pk_last_section_num m)
        (image_block PK_BLOCK_SIZE (take (pk_module_size m) fl) n))
       (filter (\<lambda>n. n * PK_BLOCK_SIZE \<le> pk_module_size m) [0..<256]),
     drop (pk_module_size m) fl)"
  using assms by (rule module_sections_blocks)

end
