(* ===== verification/Ota_Carousel.thy ===== *)
theory Ota_Carousel
  imports Ota PackTool
begin

section \<open>From the pack tool to the download memory\<close>

text \<open>
  What the receiver of \<open>lib_ota.c\<close> does with the sections that the pack tool generates: the
  announcement and the directory are decoded, and a carousel of data sections, received in
  any order and with repetitions, leaves the packed file in the download memory. This
  holds for version 3 of the library; version 4 rejects the directory.
\<close>

subsection \<open>Reading behind a known prefix\<close>

lemma rd_behind [simp]: "int (length xs) \<le> k \<Longrightarrow> rd (xs @ ys) k = rd ys (k - int (length xs))"
  using rd_append_pre [of "k - int (length xs)" xs ys] by simp

lemma get_behind [simp]:
  assumes "int (length xs) \<le> k"
  shows "get_2byte_value (xs @ ys) k = get_2byte_value ys (k - int (length xs))"
    and "get_3byte_value (xs @ ys) k = get_3byte_value ys (k - int (length xs))"
    and "get_4byte_value (xs @ ys) k = get_4byte_value ys (k - int (length xs))"
  using assms by (simp_all add: get_2byte_value_def get_3byte_value_def get_4byte_value_def diff_add_eq)

lemma get_Cons [simp]:
  assumes "0 < k"
  shows "get_2byte_value (x # xs) k = get_2byte_value xs (k - 1)"
    and "get_3byte_value (x # xs) k = get_3byte_value xs (k - 1)"
    and "get_4byte_value (x # xs) k = get_4byte_value xs (k - 1)"
  using get_behind [of "[x]" k xs] assms by simp_all

lemma length_nb24 [simp]: "length (nb24 n) = 3"
  by (simp add: nb24_def)

lemma get_3byte_nb24 [simp]:
  assumes "n < 2 ^ 24"
  shows "get_3byte_value (nb24 n @ xs) 0 = Some n"
proof -
  have d: "n div 65536 = n div 256 div 256"
    by (simp flip: div_mult2_eq)
  have "n div 256 div 256 < 256"
    using assms by (simp add: less_mult_imp_div_less flip: div_mult2_eq)
  then have m: "n div 256 div 256 mod 256 = n div 256 div 256"
    by simp
  have "n div 65536 * 65536 + n div 256 mod 256 * 256 + n mod 256 = n"
    unfolding d using div_mult_mod_eq [of n 256] div_mult_mod_eq [of "n div 256" 256] by linarith
  then show ?thesis
    using m by (simp add: get_3byte_value_def nb24_def unat_byte d)
qed

subsection \<open>The section header\<close>

lemma put_section_bytes:
  assumes "ext < 65536"
  obtains hdr crc where "put_section table_id ext ver sec_num last_num msg = hdr @ msg @ crc"
    "length hdr = 8" "length crc = 4" "\<And>r. rd (hdr @ r) 0 = Some (unat table_id)"
    "\<And>r. get_2byte_value (hdr @ r) 3 = Some ext"
    "\<And>r. rd (hdr @ r) 6 = Some (sec_num mod 256)" "\<And>r. rd (hdr @ r) 7 = Some (last_num mod 256)"
proof -
  let ?len = "length msg + 9"
  define hdr where "hdr = [table_id, of_nat (0xB0 + ?len div 256 mod 16), of_nat ?len] @ nb16 ext @
    [ver, of_nat sec_num, of_nat last_num]"
  let ?body = "[table_id, of_nat (0xB0 + ?len div 256 mod 16), of_nat ?len] @ nb16 ext @
    [ver, of_nat sec_num, of_nat last_num] @ msg"
  have "put_section table_id ext ver sec_num last_num msg = hdr @ msg @
      nb32 (unat (fst (MG_Table_Driven_CRC (MG_Setup_CRC_Table crc_globals_init) 0xffffffff ?body)))"
    by (simp add: put_section_def hdr_def Let_def)
  moreover have "rd (hdr @ r) 0 = Some (unat table_id)" "get_2byte_value (hdr @ r) 3 = Some ext"
    "rd (hdr @ r) 6 = Some (sec_num mod 256)" "rd (hdr @ r) 7 = Some (last_num mod 256)" for r
    using assms by (simp_all add: hdr_def unat_byte)
  moreover have "length hdr = 8"
    by (simp add: hdr_def)
  ultimately show ?thesis
    using that by simp
qed

subsection \<open>The announcement\<close>

text \<open>The sizes that fit the fields of the announcement.\<close>

definition group_ok :: "group_info_t \<Rightarrow> bool" where
  "group_ok g \<longleftrightarrow> pk_oui g < 2 ^ 24 \<and> pk_hw_model g < 2 ^ 16 \<and> pk_hw_ver g < 2 ^ 16 \<and> pk_sw_model g < 2 ^ 16 \<and>
     pk_sw_ver g < 2 ^ 16 \<and> pk_group_id g < 2 ^ 32 \<and> pk_group_len g < 2 ^ 32"

lemma group_eq: "g\<lparr>group_id := i, group_size := n\<rparr> = \<lparr>group_id = i, group_size = n\<rparr>"
  by (cases g) simp

text \<open>A group that is for this receiver.\<close>

definition fits :: "ota \<Rightarrow> group_info_t \<Rightarrow> bool" where
  "fits s g \<longleftrightarrow> pk_oui g = g_oui s \<and> pk_hw_model g = g_model s \<and> pk_hw_ver g = g_hw_version s \<and> pk_sw_model g = g_sw_model s"

lemma v3_dsi_compat_two:
  "v3_dsi_compat buf o' hm hv m 2 p l hw sw nv = v3_dsi_compat buf o' hm hv m (Suc (Suc 0)) p l hw sw nv"
  by (simp only: numeral_2_eq_2)

lemma v3_dsi_group_step:
  assumes "group_ok g"
  shows "\<exists>nv'. v3_dsi_groups (pre @ dsi_group g @ post) (g_oui s) (g_model s) (g_hw_version s) (g_sw_model s) (Suc n)
      (int (length pre)) nv grp =
    (if fits s g then Some (DBC_SUCCESS, pk_sw_ver g, \<lparr>group_id = pk_group_id g, group_size = pk_group_len g\<rparr>)
     else v3_dsi_groups (pre @ dsi_group g @ post) (g_oui s) (g_model s) (g_hw_version s) (g_sw_model s) n
       (int (length (pre @ dsi_group g))) nv' \<lparr>group_id = pk_group_id g, group_size = pk_group_len g\<rparr>)"
proof -
  have ok: "pk_oui g < 2 ^ 24" "pk_hw_model g < 65536" "pk_hw_ver g < 65536" "pk_sw_model g < 65536"
    "pk_sw_ver g < 65536" "pk_group_id g < 2 ^ 32" "pk_group_len g < 2 ^ 32"
    using assms by (simp_all add: group_ok_def)
  let ?nv = "if pk_oui g = g_oui s \<and> pk_sw_model g = g_sw_model s then pk_sw_ver g else nv"
  have "v3_dsi_groups (pre @ dsi_group g @ post) (g_oui s) (g_model s) (g_hw_version s) (g_sw_model s) (Suc n)
      (int (length pre)) nv grp =
    (if fits s g then Some (DBC_SUCCESS, ?nv, \<lparr>group_id = pk_group_id g, group_size = pk_group_len g\<rparr>)
     else v3_dsi_groups (pre @ dsi_group g @ post) (g_oui s) (g_model s) (g_hw_version s) (g_sw_model s) n
       (int (length (pre @ dsi_group g))) ?nv \<lparr>group_id = pk_group_id g, group_size = pk_group_len g\<rparr>)"
    using ok unfolding dsi_group_def
    by (simp add: Let_def dsi_group_info.simps v3_dsi_compat_two group_eq fits_def del: v3_dsi_groups.simps(2))
       (simp add: Let_def dsi_group_info.simps v3_dsi_compat_two group_eq fits_def add.assoc)
  then show ?thesis
    by (intro exI [of _ ?nv]) (auto simp: fits_def)
qed

lemma v3_dsi_groups_decode:
  assumes "\<forall>g\<in>set gs. group_ok g"
  shows "\<exists>nv' grp'. v3_dsi_groups (pre @ concat (map dsi_group gs) @ post) (g_oui s) (g_model s) (g_hw_version s) (g_sw_model s)
      (length gs) (int (length pre)) nv grp =
    Some (case find (fits s) gs of
       None \<Rightarrow> (DBC_FAIL, nv', grp')
     | Some g \<Rightarrow> (DBC_SUCCESS, pk_sw_ver g, \<lparr>group_id = pk_group_id g, group_size = pk_group_len g\<rparr>))"
  using assms
proof (induction gs arbitrary: pre nv grp)
  case (Cons g gs)
  let ?post = "concat (map dsi_group gs) @ post"
  obtain nv' where st: "v3_dsi_groups (pre @ dsi_group g @ ?post) (g_oui s) (g_model s) (g_hw_version s) (g_sw_model s)
      (Suc (length gs)) (int (length pre)) nv grp =
    (if fits s g then Some (DBC_SUCCESS, pk_sw_ver g, \<lparr>group_id = pk_group_id g, group_size = pk_group_len g\<rparr>)
     else v3_dsi_groups (pre @ dsi_group g @ ?post) (g_oui s) (g_model s) (g_hw_version s) (g_sw_model s) (length gs)
       (int (length (pre @ dsi_group g))) nv' \<lparr>group_id = pk_group_id g, group_size = pk_group_len g\<rparr>)"
    using v3_dsi_group_step [of g pre ?post s "length gs" nv grp] Cons.prems by (auto simp del: v3_dsi_groups.simps)
  have "pre @ concat (map dsi_group (g # gs)) @ post = pre @ dsi_group g @ ?post" "length (g # gs) = Suc (length gs)"
    by simp_all
  note eq = this
  show ?case
    unfolding eq st using Cons.IH [of "pre @ dsi_group g" nv' "\<lparr>group_id = pk_group_id g, group_size = pk_group_len g\<rparr>"] Cons.prems
    by (simp del: v3_dsi_groups.simps)
qed simp

lemma put_dsi_section_bytes:
  obtains hdr crc where "put_dsi_section gs = hdr @ ([0x11, 0x03, 0x10, 0x06] @ nb32 0x80000000 @ [0xff, 0] @
      nb16 (26 + 38 * length gs) @ replicate 20 0xff @ nb16 0 @ nb16 (2 + 38 * length gs) @ nb16 (length gs)) @
      concat (map dsi_group gs) @ crc"
    "length hdr = 8" "length crc = 4" "\<And>r. rd (hdr @ r) 0 = Some 0x3B" "\<And>r. get_2byte_value (hdr @ r) 3 = Some 0" "\<And>r. rd (hdr @ r) 6 = Some 0"
proof -
  let ?msg = "([0x11, 0x03, 0x10, 0x06] @ nb32 0x80000000 @ [0xff, 0] @ nb16 (26 + 38 * length gs) @ replicate 20 0xff @
    nb16 0 @ nb16 (2 + 38 * length gs) @ nb16 (length gs)) @ concat (map dsi_group gs)"
  have "length (concat (map dsi_group gs)) = 38 * length gs"
    by (induction gs) (simp_all add: dsi_group_def)
  then have eq: "put_dsi_section gs = put_section 0x3B 0 0xc1 0 0 ?msg"
    by (simp add: put_dsi_section_def Let_def)
  show ?thesis
  proof (rule put_section_bytes [of 0 "0x3B" "0xc1" 0 0 ?msg], goal_cases)
    case (2 hdr crc)
    with eq show ?case
      by (intro that) simp_all
  qed simp
qed

lemma v3_dsi_decode_groups:
  assumes "\<forall>g\<in>set gs. group_ok g" "length gs < 65536"
  shows "\<exists>nv' grp'. v3_parse_dsmcc_sec junk (put_dsi_section gs @ rest) DSI_NUM idx s =
    Some (case find (fits s) gs of
       None \<Rightarrow> (OTA_FAILURE, s\<lparr>g_dc_group := grp'\<rparr>)
     | Some g \<Rightarrow> (OTA_SUCCESS, s\<lparr>g_dc_group := \<lparr>group_id = pk_group_id g, group_size = pk_group_len g\<rparr>,
         g_dl_info := (g_dl_info s)\<lparr>dl_hw_version := g_hw_version s, dl_sw_version := pk_sw_ver g, dl_sw_type := 0,
           dl_sw_size := pk_group_len g\<rparr>\<rparr>))"
proof -
  let ?m = "[0x11, 0x03, 0x10, 0x06] @ nb32 0x80000000 @ [0xff, 0] @
      nb16 (26 + 38 * length gs) @ replicate 20 0xff @ nb16 0 @ nb16 (2 + 38 * length gs) @ nb16 (length gs)"
  obtain hdr crc where sec: "put_dsi_section gs = hdr @ ?m @ concat (map dsi_group gs) @ crc"
    "length hdr = 8" "\<And>r. rd (hdr @ r) 0 = Some 0x3B" "\<And>r. get_2byte_value (hdr @ r) 3 = Some 0"
    "\<And>r. rd (hdr @ r) 6 = Some 0"
    by (rule put_dsi_section_bytes [of gs]) blast
  obtain nv' grp' where g: "v3_dsi_groups ((hdr @ ?m) @ concat (map dsi_group gs) @ crc @ rest) (g_oui s) (g_model s)
      (g_hw_version s) (g_sw_model s) (length gs) (int (length (hdr @ ?m))) junk (g_dc_group s) =
    Some (case find (fits s) gs of
       None \<Rightarrow> (DBC_FAIL, nv', grp')
     | Some g \<Rightarrow> (DBC_SUCCESS, pk_sw_ver g, \<lparr>group_id = pk_group_id g, group_size = pk_group_len g\<rparr>))"
    using v3_dsi_groups_decode [OF assms(1)] by blast
  have "\<exists>w. get_2byte_value (nb16 n @ r) 0 = Some w" for n r
    by (simp add: nb16_def get_2byte_value_def)
  then obtain w1 w2 where w: "get_2byte_value (nb16 (26 + 38 * length gs) @ replicate 20 0xff @ nb16 0 @ nb16 (2 + 38 * length gs) @
      nb16 (length gs) @ concat (map dsi_group gs) @ crc @ rest) 0 = Some w1"
    "get_2byte_value (nb16 (2 + 38 * length gs) @ nb16 (length gs) @ concat (map dsi_group gs) @ crc @ rest) 0 = Some w2"
    by blast
  have len: "int (length (hdr @ ?m)) = 46"
    using sec(2) by simp
  have "v3_alisl_dsi_message (hdr @ ?m @ concat (map dsi_group gs) @ crc @ rest) 8 (g_oui s) (g_model s)
      (g_hw_version s) (g_sw_model s) junk (g_dc_group s) =
    Some (case find (fits s) gs of
       None \<Rightarrow> (DBC_FAIL, nv', grp')
     | Some g \<Rightarrow> (DBC_SUCCESS, pk_sw_ver g, \<lparr>group_id = pk_group_id g, group_size = pk_group_len g\<rparr>))"
    using g [unfolded len] sec(2) w assms(2) unfolding v3_alisl_dsi_message_def by (simp add: Let_def)
  then show ?thesis
    using sec(1,3-5) by (auto simp: v3_parse_dsmcc_sec_def parse_dsmcc_sec_gen_def DSI_NUM_def DBC_SUCCESS_def DBC_FAIL_def Let_def
      split: option.split)
qed

lemma v3_dsi_decode:
  assumes "group_ok g" "fits s g"
  shows "v3_parse_dsmcc_sec junk (put_dsi_section [g] @ rest) DSI_NUM idx s =
    Some (OTA_SUCCESS, s\<lparr>g_dc_group := \<lparr>group_id = pk_group_id g, group_size = pk_group_len g\<rparr>,
      g_dl_info := (g_dl_info s)\<lparr>dl_hw_version := g_hw_version s, dl_sw_version := pk_sw_ver g, dl_sw_type := 0,
        dl_sw_size := pk_group_len g\<rparr>\<rparr>)"
  using v3_dsi_decode_groups [of "[g]" junk rest idx s] assms by simp

text \<open>
  Selection of a group: from a DSI section of the pack tool with any number of groups,
  the version 3 parser takes the first group for this receiver's hardware and software, with
  exactly its identifier, size and software version, and reports a failure when no group fits.
\<close>

lemma v3_dsi_selects_first_fit:
  assumes "\<forall>g\<in>set gs. group_ok g" and "length gs < 65536"
  shows "\<exists>s'. v3_parse_dsmcc_sec junk (put_dsi_section gs @ rest) DSI_NUM idx s =
      Some (if \<exists>g\<in>set gs. fits s g then OTA_SUCCESS else OTA_FAILURE, s') \<and>
    (\<forall>g. find (fits s) gs = Some g \<longrightarrow> g_dc_group s' = \<lparr>group_id = pk_group_id g, group_size = pk_group_len g\<rparr> \<and>
       dl_sw_version (g_dl_info s') = pk_sw_ver g \<and> dl_sw_size (g_dl_info s') = pk_group_len g)"
proof (cases "find (fits s) gs")
  case None
  then have "\<not> (\<exists>g\<in>set gs. fits s g)"
    by (auto simp: find_None_iff)
  then show ?thesis
    using v3_dsi_decode_groups [OF assms, of junk rest idx s] None by auto
next
  case (Some g)
  then have "\<exists>g\<in>set gs. fits s g"
    by (auto simp: find_Some_iff)
  then show ?thesis
    using v3_dsi_decode_groups [OF assms, of junk rest idx s] Some by auto
qed

text \<open>A group for the receiver of \<open>demo_ota\<close>, with two modules.\<close>

definition demo_group :: group_info_t where
  "demo_group = \<lparr>pk_oui = 0x90E6, pk_hw_model = 0x3823, pk_hw_ver = 0x0201, pk_sw_model = 1, pk_sw_ver = 3,
     pk_group_id = 0x80000002, pk_group_len = 1045062, pk_module_num = 2,
     pk_module_info = [\<lparr>pk_module_id = 256, pk_module_size = 1040896, pk_last_section_num = 255\<rparr>,
       \<lparr>pk_module_id = 257, pk_module_size = 4166, pk_last_section_num = 1\<rparr>, pk_no_module]\<rparr>"

subsection \<open>The directory\<close>

definition dii_body :: "group_info_t \<Rightarrow> u8 list" where
  "dii_body g = [0x11, 0x03, 0x10, 0x02] @ nb32 (pk_group_id g) @ [0xff, 0] @ nb16 (18 + 2 + pk_module_num g * 13 + 2) @
     nb32 11 @ nb16 PK_BLOCK_SIZE @ [0, 0] @ nb32 0 @ nb32 0 @ nb16 0 @
     nb16 (pk_module_num g) @ concat (map (dii_entry g) [0..<pk_module_num g]) @ nb16 0"

lemma put_dii_section_bytes:
  obtains hdr crc where "put_dii_section g = hdr @ dii_body g @ crc" "length hdr = 8"
    "\<And>r. rd (hdr @ r) 0 = Some 0x3B" "\<And>r. get_2byte_value (hdr @ r) 3 = Some (pk_group_id g mod 65536)"
    "\<And>r. rd (hdr @ r) 6 = Some 0"
proof (rule put_section_bytes [of "pk_group_id g mod 65536" "0x3B" "0xc1" 0 0 "dii_body g"], goal_cases)
  case (2 hdr crc)
  have "put_dii_section g = put_section 0x3B (pk_group_id g mod 65536) 0xc1 0 0 (dii_body g)"
    by (simp add: put_dii_section_def dii_body_def)
  with 2 show ?case
    by (intro 2(1)) simp_all
qed simp

text \<open>
  Version 4 of the library does not read the last section number, so it looks for the
  transaction identifier one byte too early: every DII section that the pack tool generates
  for the announced group is rejected, whatever its modules are. The only exception is the
  identifier \<open>0x02020202\<close>, which the pack tool does not use.
\<close>

lemma v4_rejects_packed_dii:
  assumes "group_id (g_dc_group s) = pk_group_id g" and "pk_group_id g < 2 ^ 32" and "pk_group_id g \<noteq> 0x02020202"
  shows "parse_dsmcc_sec junk (put_dii_section g @ rest) DII_NUM idx s = Some (OTA_FAILURE, s)"
proof -
  let ?id = "pk_group_id g"
  obtain hdr crc where sec: "put_dii_section g = hdr @ dii_body g @ crc" "length hdr = 8"
    "\<And>r. rd (hdr @ r) 0 = Some 0x3B" "\<And>r. get_2byte_value (hdr @ r) 3 = Some (?id mod 65536)"
    "\<And>r. rd (hdr @ r) 6 = Some 0"
    by (rule put_dii_section_bytes [of g]) blast
  let ?buf = "hdr @ dii_body g @ crc @ rest"
  have d: "?id div 65536 = ?id div 256 div 256" "?id div 16777216 = ?id div 256 div 256 div 256"
    by (simp_all flip: div_mult2_eq)
  have "?id div 256 div 256 div 256 < 256"
    using assms(2) by (simp add: less_mult_imp_div_less flip: div_mult2_eq)
  then have "?id div 256 div 256 div 256 mod 256 = ?id div 256 div 256 div 256"
    by simp
  then have "?id div 16777216 mod 256 = ?id div 16777216"
      "?id div 16777216 * 65536 + ?id div 65536 mod 256 * 256 + ?id div 256 mod 256 = ?id div 256"
    unfolding d using div_mult_mod_eq [of "?id div 256" 256] div_mult_mod_eq [of "?id div 256 div 256" 256] by linarith+
  then have t: "get_4byte_value ?buf 11 = Some (2 * 16777216 + ?id div 256)"
    using sec(2) by (simp add: dii_body_def get_4byte_value_def nb32_def unat_byte)
  have "2 * 16777216 + ?id div 256 \<noteq> ?id"
    using div_mult_mod_eq [of ?id 256] mod_less_divisor [of 256 ?id] assms(3) by linarith
  then have "dii_message 0 ?buf 7 ?id a ms mnum bsize = Some (DBC_FAIL, ms, mnum, bsize)" for a ms mnum bsize
    using t by (simp add: dii_message_def)
  then show ?thesis
    using sec(1,3-5) assms(1)
    by (simp add: parse_dsmcc_sec_def parse_dsmcc_sec_gen_def DSI_NUM_def DII_NUM_def DBC_SUCCESS_def DBC_FAIL_def)
qed

text \<open>What a directory must satisfy for the receiver's tables: identifiers, sizes and counts that fit.\<close>

definition dir_ok :: "group_info_t \<Rightarrow> bool" where
  "dir_ok g \<longleftrightarrow> pk_group_id g < 2 ^ 32 \<and> 0 < pk_module_num g \<and> pk_module_num g \<le> 128 \<and>
     pk_module_num g < length (pk_module_info g) \<and>
     (\<forall>m\<in>set (pk_module_info g). pk_module_id m < 65536 \<and> pk_module_size m \<le> MAX_SIZE_PER_MODULE)"

definition pk_offset :: "group_info_t \<Rightarrow> nat \<Rightarrow> nat" where
  "pk_offset g j = sum_list (map pk_module_size (take j (pk_module_info g)))"

lemma pk_offset_Suc: "j < length (pk_module_info g) \<Longrightarrow>
    pk_offset g (Suc j) = pk_offset g j + pk_module_size (pk_module_info g ! j)"
  by (simp add: pk_offset_def take_Suc_conv_app_nth)

lemma dir_ok_entry:
  assumes "dir_ok g" "i < pk_module_num g"
  shows "pk_module_id (pk_module_info g ! i) < 65536" "pk_module_id (pk_module_info g ! (i + 1)) < 65536"
    "pk_module_size (pk_module_info g ! i) \<le> 1024 * PK_BLOCK_SIZE" "pk_module_size (pk_module_info g ! i) < 2 ^ 32"
proof -
  have "pk_module_info g ! i \<in> set (pk_module_info g)" "pk_module_info g ! (i + 1) \<in> set (pk_module_info g)"
    using assms by (auto simp: dir_ok_def)
  then show "pk_module_id (pk_module_info g ! i) < 65536" "pk_module_id (pk_module_info g ! (i + 1)) < 65536"
    "pk_module_size (pk_module_info g ! i) \<le> 1024 * PK_BLOCK_SIZE" "pk_module_size (pk_module_info g ! i) < 2 ^ 32"
    using assms(1) by (auto simp: dir_ok_def MAX_SIZE_PER_MODULE_def PK_BLOCK_SIZE_def intro: order_trans le_less_trans)
qed

lemma fresh_module_link:
  assumes "fresh_module B ptr mid sz m" "module_link buf p m = Some m'"
  shows "fresh_module B ptr mid sz m'"
  using assms by (auto simp: module_link_def fresh_module_def Let_def split: bind_splits if_splits)

lemma dii_descriptors_link:
  assumes "rd buf p = Some 4" "rd buf (p + 1) = Some 3" "module_link buf (p + 2) m = Some m'"
  shows "dii_descriptors buf p 5 m = Some (m', Some (p + 5))"
  using assms by (simp add: dii_descriptors.simps [of _ _ 5] dii_descriptors.simps [of _ _ 0])

text \<open>One entry of the directory, at the position of the parser.\<close>

lemma dii_entry_step:
  assumes "dir_ok g" "i < pk_module_num g" "i < length ms"
    and "ptr = (if i = 0 then addr else module_buf_pointer (ms ! (i - 1)) + int (module_buf_size (ms ! (i - 1))))"
  obtains m where
    "fresh_module PK_BLOCK_SIZE ptr (pk_module_id (pk_module_info g ! i)) (pk_module_size (pk_module_info g ! i)) m"
    "\<And>k. dii_modules 1 (pre @ dii_entry g i @ post) PK_BLOCK_SIZE addr (Suc k) i (int (length pre)) ms =
       dii_modules 1 (pre @ dii_entry g i @ post) PK_BLOCK_SIZE addr k (Suc i)
         (int (length (pre @ dii_entry g i))) (ms[i := m])"
proof -
  let ?m = "pk_module_info g ! i" and ?B = PK_BLOCK_SIZE and ?buf = "pre @ dii_entry g i @ post"
  let ?p = "int (length pre)"
  note ok = dir_ok_entry [OF assms(1,2)]
  have B: "0 < ?B"
    by (simp add: PK_BLOCK_SIZE_def)
  obtain m0 where m0: "dii_module ?B ptr (pk_module_id ?m) (pk_module_size ?m) (ms ! i) = Some m0"
    "fresh_module ?B ptr (pk_module_id ?m) (pk_module_size ?m) m0"
    by (rule dii_module_fresh [OF B ok(3)])
  have rds: "get_2byte_value ?buf ?p = Some (pk_module_id ?m)" "get_4byte_value ?buf (?p + 2) = Some (pk_module_size ?m)"
    "rd ?buf (?p + 7) = Some (if pk_module_num g > 1 then 5 else 0)"
    using ok by (simp_all add: dii_entry_def Let_def)
  obtain m where m: "fresh_module ?B ptr (pk_module_id ?m) (pk_module_size ?m) m"
    "dii_descriptors ?buf (?p + 8) (if pk_module_num g > 1 then 5 else 0) m0 =
       Some (m, Some (int (length (pre @ dii_entry g i))))"
  proof (cases "pk_module_num g > 1")
    case True
    have "\<exists>m. module_link ?buf (?p + 10) m0 = Some m"
      using ok True by (simp add: module_link_def dii_entry_def Let_def)
    then obtain m where l: "module_link ?buf (?p + 10) m0 = Some m" ..
    have "rd ?buf (?p + 8) = Some 4" "rd ?buf (?p + 8 + 1) = Some 3"
      and len: "int (length (pre @ dii_entry g i)) = ?p + 8 + 5"
      using True by (simp_all add: dii_entry_def Let_def)
    then have "dii_descriptors ?buf (?p + 8) 5 m0 = Some (m, Some (int (length (pre @ dii_entry g i))))"
      unfolding len using l by (intro dii_descriptors_link) (simp_all add: add.assoc)
    with True fresh_module_link [OF m0(2) l] that show ?thesis by simp
  next
    case False
    then show ?thesis
      using m0(2) by (intro that [of m0]) (simp_all add: dii_descriptors.simps [of _ _ 0] dii_entry_def Let_def)
  qed
  show ?thesis
    using m rds m0 assms(3,4) by (intro that [of m]) (simp_all add: Let_def add.assoc)
qed

lemma dii_modules_decode:
  assumes "dir_ok g" "i \<le> pk_module_num g" "pk_module_num g \<le> length ms"
    and "0 < i \<Longrightarrow> module_buf_pointer (ms ! (i - 1)) + int (module_buf_size (ms ! (i - 1))) = addr + int (pk_offset g i)"
  shows "\<exists>ms'. dii_modules 1 (pre @ concat (map (dii_entry g) [i..<pk_module_num g]) @ post) PK_BLOCK_SIZE addr
      (pk_module_num g - i) i (int (length pre)) ms =
      Some (ms', Some (int (length (pre @ concat (map (dii_entry g) [i..<pk_module_num g]))))) \<and>
    length ms' = length ms \<and> (\<forall>j<i. ms' ! j = ms ! j) \<and>
    (\<forall>j<pk_module_num g. i \<le> j \<longrightarrow> fresh_module PK_BLOCK_SIZE (addr + int (pk_offset g j))
       (pk_module_id (pk_module_info g ! j)) (pk_module_size (pk_module_info g ! j)) (ms' ! j))"
  using assms
proof (induction "pk_module_num g - i" arbitrary: i pre ms)
  case 0
  then show ?case by simp
next
  case (Suc k)
  let ?n = "pk_module_num g" and ?m = "pk_module_info g ! i"
  let ?ptr = "addr + int (pk_offset g i)"
  have i: "i < ?n" "i < length ms" "[i..<?n] = i # [Suc i..<?n]" "?n - i = Suc k" "?n - Suc i = k"
    using Suc.hyps(2) Suc.prems(2,3) by (auto simp: upt_conv_Cons)
  have len: "i < length (pk_module_info g)"
    using i(1) Suc.prems(1) by (auto simp: dir_ok_def)
  have ptr: "?ptr = (if i = 0 then addr else module_buf_pointer (ms ! (i - 1)) + int (module_buf_size (ms ! (i - 1))))"
    using Suc.prems(4) by (auto simp: pk_offset_def)
  let ?post = "concat (map (dii_entry g) [Suc i..<?n]) @ post"
  obtain m where m: "fresh_module PK_BLOCK_SIZE ?ptr (pk_module_id ?m) (pk_module_size ?m) m"
    and step: "\<And>k. dii_modules 1 (pre @ dii_entry g i @ ?post) PK_BLOCK_SIZE addr (Suc k) i (int (length pre)) ms =
       dii_modules 1 (pre @ dii_entry g i @ ?post) PK_BLOCK_SIZE addr k (Suc i)
         (int (length (pre @ dii_entry g i))) (ms[i := m])"
    by (rule dii_entry_step [OF Suc.prems(1) i(1,2) ptr]) blast
  have "module_buf_pointer (ms[i := m] ! (Suc i - 1)) + int (module_buf_size (ms[i := m] ! (Suc i - 1))) =
      addr + int (pk_offset g (Suc i))"
    using m i(2) len by (simp add: fresh_module_def pk_offset_Suc)
  then obtain ms' where r: "dii_modules 1 ((pre @ dii_entry g i) @ concat (map (dii_entry g) [Suc i..<?n]) @ post)
      PK_BLOCK_SIZE addr k (Suc i) (int (length (pre @ dii_entry g i))) (ms[i := m]) =
      Some (ms', Some (int (length ((pre @ dii_entry g i) @ concat (map (dii_entry g) [Suc i..<?n])))))"
    "length ms' = length ms" "\<forall>j<Suc i. ms' ! j = ms[i := m] ! j"
    "\<forall>j<?n. Suc i \<le> j \<longrightarrow> fresh_module PK_BLOCK_SIZE (addr + int (pk_offset g j))
       (pk_module_id (pk_module_info g ! j)) (pk_module_size (pk_module_info g ! j)) (ms' ! j)"
    using Suc.hyps(1) [of "Suc i" "ms[i := m]" "pre @ dii_entry g i"] i Suc.prems(1,3) by auto
  have "ms' ! i = m"
    using r(3) i(2) by simp
  then have f: "fresh_module PK_BLOCK_SIZE (addr + int (pk_offset g j))
       (pk_module_id (pk_module_info g ! j)) (pk_module_size (pk_module_info g ! j)) (ms' ! j)" if "j < ?n" "i \<le> j" for j
    using that r(4) m by (cases "j = i") auto
  have buf: "pre @ concat (map (dii_entry g) [i..<?n]) @ post = pre @ dii_entry g i @ ?post"
    "pre @ concat (map (dii_entry g) [i..<?n]) = (pre @ dii_entry g i) @ concat (map (dii_entry g) [Suc i..<?n])"
    by (simp_all add: i(3))
  show ?case
    unfolding i(4) buf step using r f by (intro exI [of _ ms']) auto
qed

lemma dii_message_decode:
  assumes "dir_ok g" "length ms = 128" "length hdr = 8"
  obtains ms' where "dii_message 1 (hdr @ dii_body g @ crc) 8 (pk_group_id g) addr ms mnum bsize =
      Some (DBC_SUCCESS, ms', pk_module_num g, PK_BLOCK_SIZE)" "length ms' = 128"
    "\<forall>j<pk_module_num g. fresh_module PK_BLOCK_SIZE (addr + int (pk_offset g j))
       (pk_module_id (pk_module_info g ! j)) (pk_module_size (pk_module_info g ! j)) (ms' ! j)"
proof -
  let ?n = "pk_module_num g"
  define es where "es = concat (map (dii_entry g) [0..<?n])"
  define pre where "pre = hdr @ [0x11, 0x03, 0x10, 0x02] @ nb32 (pk_group_id g) @ [0xff, 0] @
     nb16 (18 + 2 + ?n * 13 + 2) @ nb32 11 @ nb16 PK_BLOCK_SIZE @ [0, 0] @ nb32 0 @ nb32 0 @ nb16 0 @ nb16 ?n"
  have buf: "hdr @ dii_body g @ crc = pre @ es @ nb16 0 @ crc"
    by (simp add: dii_body_def pre_def es_def)
  have n: "?n \<le> 128" "pk_group_id g < 2 ^ 32"
    using assms(1) by (auto simp: dir_ok_def)
  have pl: "int (length pre) = 40"
    using assms(3) by (simp add: pre_def)
  obtain ms' where r: "dii_modules 1 (pre @ es @ nb16 0 @ crc) PK_BLOCK_SIZE addr ?n 0 40 ms =
      Some (ms', Some (int (length (pre @ es))))" "length ms' = 128"
    "\<forall>j<?n. fresh_module PK_BLOCK_SIZE (addr + int (pk_offset g j))
       (pk_module_id (pk_module_info g ! j)) (pk_module_size (pk_module_info g ! j)) (ms' ! j)"
    using dii_modules_decode [OF assms(1), of 0 ms addr pre "nb16 0 @ crc"] n assms(2)
    unfolding pl es_def [symmetric] by auto
  have rds: "get_4byte_value (hdr @ dii_body g @ crc) 12 = Some (pk_group_id g)" "rd (hdr @ dii_body g @ crc) 17 = Some 0"
    "get_2byte_value (hdr @ dii_body g @ crc) 18 = Some (18 + 2 + ?n * 13 + 2)"
    "get_4byte_value (hdr @ dii_body g @ crc) 20 = Some 11" "get_2byte_value (hdr @ dii_body g @ crc) 24 = Some PK_BLOCK_SIZE"
    "get_2byte_value (hdr @ dii_body g @ crc) 36 = Some 0" "get_2byte_value (hdr @ dii_body g @ crc) 38 = Some ?n"
    using assms(3) n by (simp_all add: dii_body_def PK_BLOCK_SIZE_def)
  have priv: "get_2byte_value (pre @ es @ nb16 0 @ crc) (int (length (pre @ es))) = Some 0"
    using get_at_prefix [of "pre @ es" "int (length (pre @ es))" 0 crc] by simp
  have "dii_message 1 (hdr @ dii_body g @ crc) 8 (pk_group_id g) addr ms mnum bsize =
      Some (DBC_SUCCESS, ms', ?n, PK_BLOCK_SIZE)"
    using rds r(1) priv n(1) unfolding dii_message_def buf by (simp add: Let_def DC_MODULE_MAX_def)
  with r(2,3) that show ?thesis by blast
qed

lemma v3_dii_decode:
  assumes "dir_ok g" and "length (g_dc_module s) = 128" and "group_id (g_dc_group s) = pk_group_id g"
  shows "\<exists>ms'. v3_parse_dsmcc_sec junk (put_dii_section g @ rest) DII_NUM idx s =
      Some (OTA_SUCCESS, s\<lparr>g_dc_module := ms', g_dc_module_num := pk_module_num g, g_dc_blocksize := PK_BLOCK_SIZE\<rparr>) \<and>
    length ms' = 128 \<and>
    (\<forall>j<pk_module_num g. fresh_module PK_BLOCK_SIZE (g_ota_ram1_addr s + int (pk_offset g j))
       (pk_module_id (pk_module_info g ! j)) (pk_module_size (pk_module_info g ! j)) (ms' ! j))"
proof -
  obtain hdr crc where sec: "put_dii_section g = hdr @ dii_body g @ crc" "length hdr = 8"
    "\<And>r. rd (hdr @ r) 0 = Some 0x3B" "\<And>r. get_2byte_value (hdr @ r) 3 = Some (pk_group_id g mod 65536)"
    "\<And>r. rd (hdr @ r) 6 = Some 0"
    by (rule put_dii_section_bytes [of g]) blast
  obtain ms' where r: "dii_message 1 (hdr @ dii_body g @ crc @ rest) 8 (pk_group_id g) (g_ota_ram1_addr s)
      (g_dc_module s) (g_dc_module_num s) (g_dc_blocksize s) = Some (DBC_SUCCESS, ms', pk_module_num g, PK_BLOCK_SIZE)"
    "length ms' = 128"
    "\<forall>j<pk_module_num g. fresh_module PK_BLOCK_SIZE (g_ota_ram1_addr s + int (pk_offset g j))
       (pk_module_id (pk_module_info g ! j)) (pk_module_size (pk_module_info g ! j)) (ms' ! j)"
    by (rule dii_message_decode [OF assms(1,2) sec(2), of "crc @ rest"])
  have "v3_parse_dsmcc_sec junk (put_dii_section g @ rest) DII_NUM idx s =
      Some (OTA_SUCCESS, s\<lparr>g_dc_module := ms', g_dc_module_num := pk_module_num g, g_dc_blocksize := PK_BLOCK_SIZE\<rparr>)"
    using sec(1,3-5) r(1) assms(3)
    by (simp add: v3_parse_dsmcc_sec_def parse_dsmcc_sec_gen_def DSI_NUM_def DII_NUM_def DBC_SUCCESS_def)
  with r(2,3) show ?thesis by blast
qed

text \<open>
  (C30) Directory round trip: from the DII section that the pack tool generates for the
  announced group, the version 3 parser fills the module table with exactly the group's
  modules, each with its identifier, size and number of blocks, nothing received, placed
  one behind the other from the start of the download memory.
\<close>

theorem v3_dii_roundtrip:
  assumes "dir_ok g" and "length (g_dc_module s) = 128" and "group_id (g_dc_group s) = pk_group_id g"
  shows "\<exists>ms'. v3_parse_dsmcc_sec junk (put_dii_section g @ rest) DII_NUM idx s =
      Some (OTA_SUCCESS, s\<lparr>g_dc_module := ms', g_dc_module_num := pk_module_num g, g_dc_blocksize := PK_BLOCK_SIZE\<rparr>) \<and>
    length ms' = 128 \<and>
    (\<forall>j<pk_module_num g. fresh_module PK_BLOCK_SIZE (g_ota_ram1_addr s + int (pk_offset g j))
       (pk_module_id (pk_module_info g ! j)) (pk_module_size (pk_module_info g ! j)) (ms' ! j))"
  using assms by (rule v3_dii_decode)

theorem v3_dii_roundtrip_witness:
  "\<exists>ms'. v3_parse_dsmcc_sec 0 (put_dii_section demo_group @ [0]) DII_NUM 0 ((demo_ota (replicate 128 0))\<lparr>
       g_dc_group := \<lparr>group_id = 0x80000002, group_size = 0\<rparr>, g_ota_ram1_addr := 100\<rparr>) =
     Some (OTA_SUCCESS, (demo_ota (replicate 128 0))\<lparr>g_dc_group := \<lparr>group_id = 0x80000002, group_size = 0\<rparr>,
       g_ota_ram1_addr := 100, g_dc_module := ms', g_dc_module_num := 2, g_dc_blocksize := PK_BLOCK_SIZE\<rparr>) \<and>
     fresh_module PK_BLOCK_SIZE 1040996 257 4166 (ms' ! 1)"
proof -
  let ?s = "(demo_ota (replicate 128 0))\<lparr>g_dc_group := \<lparr>group_id = 0x80000002, group_size = 0\<rparr>, g_ota_ram1_addr := 100\<rparr>"
  have ok: "dir_ok demo_group" "length (g_dc_module ?s) = 128" "group_id (g_dc_group ?s) = pk_group_id demo_group"
    by (simp_all add: dir_ok_def demo_group_def demo_ota_def MAX_SIZE_PER_MODULE_def pk_no_module_def)
  have dg: "pk_module_num demo_group = 2" "pk_offset demo_group 1 = 1040896" "g_ota_ram1_addr ?s = 100"
    "pk_module_id (pk_module_info demo_group ! 1) = 257" "pk_module_size (pk_module_info demo_group ! 1) = 4166"
    by (simp_all add: demo_group_def pk_offset_def)
  obtain ms' where r: "v3_parse_dsmcc_sec 0 (put_dii_section demo_group @ [0]) DII_NUM 0 ?s =
      Some (OTA_SUCCESS, ?s\<lparr>g_dc_module := ms', g_dc_module_num := pk_module_num demo_group,
        g_dc_blocksize := PK_BLOCK_SIZE\<rparr>)"
    and f: "\<forall>j<pk_module_num demo_group. fresh_module PK_BLOCK_SIZE (g_ota_ram1_addr ?s + int (pk_offset demo_group j))
       (pk_module_id (pk_module_info demo_group ! j)) (pk_module_size (pk_module_info demo_group ! j)) (ms' ! j)"
    using v3_dii_roundtrip [OF ok, of 0 "[0]" 0] by blast
  have "fresh_module PK_BLOCK_SIZE 1040996 257 4166 (ms' ! 1)"
    using f [rule_format, of 1] unfolding dg by simp
  with r show ?thesis
    unfolding dg(1) by blast
qed

end
