(* ===== verification/Ota_Download.thy ===== *)
theory Ota_Download
  imports Ota_Carousel
begin

section \<open>Downloading a set of modules\<close>

text \<open>
  The data sections of several modules arrive interleaved, in any order and repeatedly.
  This theory follows the receiver's callback over such a stream and shows that the
  modules end up in the download memory, for the version 3 library on the sections of the
  pack tool.
\<close>

subsection \<open>The plan of a download\<close>

text \<open>
  What is being downloaded: the modules \<open>pl_lo ..< pl_lo + pl_n\<close> of the table with their
  identifiers, places and contents. The predicate \<open>dl_inv\<close> relates it to the receiver after the
  blocks in \<open>D\<close> have arrived.
\<close>

record dl_plan =
  pl_lo :: nat
  pl_n :: nat
  pl_bs :: nat
  pl_mid :: "nat \<Rightarrow> nat"
  pl_ptr :: "nat \<Rightarrow> int"
  pl_img :: "nat \<Rightarrow> u8 list"

definition pl_range :: "dl_plan \<Rightarrow> nat set" where
  "pl_range P = {pl_lo P..<pl_lo P + pl_n P}"

definition pl_blocks :: "dl_plan \<Rightarrow> nat \<Rightarrow> nat" where
  "pl_blocks P j = (length (pl_img P j) + pl_bs P - 1) div pl_bs P"

definition pl_all :: "dl_plan \<Rightarrow> (nat \<times> nat) set" where
  "pl_all P = (SIGMA j : pl_range P. {..<pl_blocks P j})"

definition plan_ok :: "dl_plan \<Rightarrow> bool" where
  "plan_ok P \<longleftrightarrow> 0 < pl_bs P \<and> pl_bs P \<le> 4066 \<and> pl_lo P + pl_n P \<le> 256 \<and> inj_on (pl_mid P) (pl_range P) \<and>
     (\<forall>j\<in>pl_range P. pl_mid P j < 65536 \<and> 0 < length (pl_img P j) \<and> length (pl_img P j) \<le> 256 * pl_bs P \<and>
        0 \<le> pl_ptr P j) \<and>
     (\<forall>j\<in>pl_range P. \<forall>i\<in>pl_range P. i < j \<longrightarrow> pl_ptr P i + int (length (pl_img P i)) \<le> pl_ptr P j)"

definition dl_inv :: "dl_plan \<Rightarrow> (nat \<times> nat) set \<Rightarrow> ota \<Rightarrow> bool" where
  "dl_inv P D s \<longleftrightarrow> plan_ok P \<and> g_dc_blocksize s = pl_bs P \<and> pl_lo P + pl_n P \<le> length (g_dc_module s) \<and>
     D \<subseteq> pl_all P \<and>
     (\<forall>j\<in>pl_range P. module_id (g_dc_module s ! j) = pl_mid P j \<and> module_buf_pointer (g_dc_module s ! j) = pl_ptr P j \<and>
        ddb_inv (1, pl_bs P, pl_img P j, g_dc_module s ! j, ram s) \<and>
        (\<forall>b<pl_blocks P j. got (block_received (g_dc_module s ! j)) b = ((j, b) \<in> D)))"

text \<open>A place in the memory that belongs to no module.\<close>

definition pl_outside :: "dl_plan \<Rightarrow> nat \<Rightarrow> bool" where
  "pl_outside P a \<longleftrightarrow> (\<forall>i\<in>pl_range P. a < nat (pl_ptr P i) \<or> nat (pl_ptr P i) + length (pl_img P i) \<le> a)"

text \<open>
  The pack tool closes a module whose size is a multiple of the block size with a section
  that has no data; its number is the number of the module's blocks.
\<close>

definition pl_tail :: "dl_plan \<Rightarrow> (nat \<times> nat) set" where
  "pl_tail P = {(j, b). j \<in> pl_range P \<and> b = pl_blocks P j \<and> b < 256}"

text \<open>The section of block \<open>b\<close> of module \<open>j\<close>, as the pack tool generates it.\<close>

definition pl_section :: "dl_plan \<Rightarrow> nat \<times> nat \<Rightarrow> u8 list" where
  "pl_section P = (\<lambda>(j, b).
     put_ddb_section (pl_mid P j) b (pl_blocks P j - 1) (image_block (pl_bs P) (pl_img P j) b))"

subsection \<open>One section\<close>

lemma find_module_hit:
  "lo \<le> j \<Longrightarrow> j < lo + n \<Longrightarrow> j < length ms \<Longrightarrow> module_id (ms ! j) = x \<Longrightarrow>
   (\<forall>i. lo \<le> i \<longrightarrow> i < j \<longrightarrow> module_id (ms ! i) \<noteq> x) \<Longrightarrow> find_module ms x n lo = Some (Some j)"
proof (induction n arbitrary: lo)
  case (Suc n)
  then show ?case
    by (cases "lo = j") auto
qed simp

lemma range_finished_all:
  "lo + n \<le> length ms \<Longrightarrow>
   range_finished ms n lo = Some (\<forall>i\<in>{lo..<lo + n}. module_download_finish (ms ! i) = 1)"
proof (induction n arbitrary: lo)
  case (Suc n)
  have "{lo..<lo + Suc n} = insert lo {Suc lo..<Suc lo + n}"
    by auto
  then show ?case
    using Suc.IH [of "Suc lo"] Suc.prems by simp
qed simp

lemma ddb_inv_frame:
  assumes "ddb_inv (nver, B, img, m, mem)" "length mem' = length mem"
    and "\<And>a. nat (module_buf_pointer m) \<le> a \<Longrightarrow> a < nat (module_buf_pointer m) + module_buf_size m \<Longrightarrow> mem' ! a = mem ! a"
  shows "ddb_inv (nver, B, img, m, mem')"
proof -
  let ?p = "nat (module_buf_pointer m)"
  have i: "module_ok B m" "length img = module_buf_size m" "0 \<le> module_buf_pointer m"
    "module_buf_pointer m + int (module_buf_size m) \<le> int (length mem)"
    using assms(1) by (auto simp: ddb_inv_def)
  have "take (length (image_block B img b)) (drop (?p + b * B) mem') =
      take (length (image_block B img b)) (drop (?p + b * B) mem)" if "b < block_num m" for b
  proof -
    have "b * B + length (image_block B img b) \<le> module_buf_size m"
      using image_block_bounds(2) [of b B img] module_ok_blocks(2) [OF i(1) that] i(2) by simp
    moreover have "?p + module_buf_size m \<le> length mem"
      using i(3,4) by linarith
    ultimately show ?thesis
      using assms(2,3) by (intro nth_equalityI) auto
  qed
  then show ?thesis
    using assms(1,2) by (auto simp: ddb_inv_def)
qed

lemma dl_inv_module:
  assumes "dl_inv P D s" "j \<in> pl_range P"
  shows "module_id (g_dc_module s ! j) = pl_mid P j" "module_buf_pointer (g_dc_module s ! j) = pl_ptr P j"
    "ddb_inv (1, pl_bs P, pl_img P j, g_dc_module s ! j, ram s)"
    "module_buf_size (g_dc_module s ! j) = length (pl_img P j)" "block_num (g_dc_module s ! j) = pl_blocks P j"
    "j < length (g_dc_module s)" "\<And>b. b < pl_blocks P j \<Longrightarrow> got (block_received (g_dc_module s ! j)) b = ((j, b) \<in> D)"
proof -
  show *: "module_id (g_dc_module s ! j) = pl_mid P j" "module_buf_pointer (g_dc_module s ! j) = pl_ptr P j"
    "ddb_inv (1, pl_bs P, pl_img P j, g_dc_module s ! j, ram s)"
    "\<And>b. b < pl_blocks P j \<Longrightarrow> got (block_received (g_dc_module s ! j)) b = ((j, b) \<in> D)"
    using assms by (auto simp: dl_inv_def)
  show "j < length (g_dc_module s)"
    using assms by (auto simp: dl_inv_def pl_range_def)
  show "module_buf_size (g_dc_module s ! j) = length (pl_img P j)" "block_num (g_dc_module s ! j) = pl_blocks P j"
    using *(3) by (auto simp: ddb_inv_def module_ok_def pl_blocks_def)
qed

lemma dl_inv_find:
  assumes "dl_inv P D s" "j \<in> pl_range P"
  shows "find_module (g_dc_module s) (pl_mid P j) (pl_n P) (pl_lo P) = Some (Some j)"
proof -
  have "module_id (g_dc_module s ! i) \<noteq> pl_mid P j" if "pl_lo P \<le> i" "i < j" for i
  proof -
    have "i \<in> pl_range P"
      using that assms(2) by (auto simp: pl_range_def)
    then show ?thesis
      using assms that dl_inv_module(1) [OF assms(1)] by (auto simp: dl_inv_def plan_ok_def dest: inj_onD)
  qed
  then show ?thesis
    using assms(2) dl_inv_module(1,6) [OF assms] by (intro find_module_hit) (auto simp: pl_range_def)
qed

lemma plan_blocks:
  assumes "plan_ok P" "j \<in> pl_range P"
  shows "0 < pl_blocks P j" "pl_blocks P j \<le> 256"
proof -
  have p: "0 < pl_bs P" "0 < length (pl_img P j)" "length (pl_img P j) \<le> 256 * pl_bs P"
    using assms by (auto simp: plan_ok_def)
  then have "length (pl_img P j) + pl_bs P - 1 < 257 * pl_bs P"
    by linarith
  then have "pl_blocks P j < 257"
    unfolding pl_blocks_def using p(1) by (simp only: div_less_iff_less_mult)
  then show "pl_blocks P j \<le> 256" by simp
  have "pl_bs P \<le> length (pl_img P j) + pl_bs P - 1"
    using p(2) by linarith
  then show "0 < pl_blocks P j"
    unfolding pl_blocks_def using p(1) by (simp only: div_greater_zero_iff)
qed

text \<open>The modules keep their places, so a write to one leaves the others and the rest alone.\<close>

lemma dl_inv_store:
  assumes "dl_inv P D s" "j \<in> pl_range P" "b < pl_blocks P j"
    and "ddb_inv (1, pl_bs P, pl_img P j, m', mem')" "\<forall>c. got (block_received m') c = (got (block_received (g_dc_module s ! j)) c \<or> c = b)"
    and "module_id m' = pl_mid P j" "module_buf_pointer m' = pl_ptr P j" "length mem' = length (ram s)"
    and "\<forall>a<length (ram s). a < nat (pl_ptr P j) \<or> nat (pl_ptr P j) + length (pl_img P j) \<le> a \<longrightarrow> mem' ! a = ram s ! a"
  shows "dl_inv P (insert (j, b) D) (s\<lparr>g_dc_module := (g_dc_module s)[j := m'], ram := mem'\<rparr>)"
proof -
  let ?s = "s\<lparr>g_dc_module := (g_dc_module s)[j := m'], ram := mem'\<rparr>"
  note mj = dl_inv_module [OF assms(1,2)]
  have ok: "plan_ok P"
    using assms(1) by (simp add: dl_inv_def)
  have other: "ddb_inv (1, pl_bs P, pl_img P i, g_dc_module s ! i, mem')" if i: "i \<in> pl_range P" "i \<noteq> j" for i
  proof (rule ddb_inv_frame)
    note mi = dl_inv_module [OF assms(1) i(1)]
    show "ddb_inv (1, pl_bs P, pl_img P i, g_dc_module s ! i, ram s)"
      by (rule mi(3))
    fix a
    assume a: "nat (module_buf_pointer (g_dc_module s ! i)) \<le> a"
      "a < nat (module_buf_pointer (g_dc_module s ! i)) + module_buf_size (g_dc_module s ! i)"
    have "pl_ptr P i + int (length (pl_img P i)) \<le> pl_ptr P j \<or> pl_ptr P j + int (length (pl_img P j)) \<le> pl_ptr P i"
      using ok i assms(2) by (auto simp: plan_ok_def nat_neq_iff)
    moreover have "0 \<le> pl_ptr P i" "0 \<le> pl_ptr P j"
      using ok i(1) assms(2) by (auto simp: plan_ok_def)
    moreover have "pl_ptr P i + int (length (pl_img P i)) \<le> int (length (ram s))"
      using mi(2-4) by (simp add: ddb_inv_def)
    ultimately show "mem' ! a = ram s ! a"
      using a assms(9) [rule_format, of a] unfolding mi(2,4) by linarith
  qed (use assms(8) in simp)
  have "(j, b) \<in> pl_all P"
    using assms(2,3) by (simp add: pl_all_def)
  moreover have "g_dc_module ?s ! i = (if i = j then m' else g_dc_module s ! i)" for i
    using mj(6) by (simp add: nth_list_update)
  moreover have "got (block_received m') c = ((j, c) \<in> insert (j, b) D)" if "c < pl_blocks P j" for c
    using assms(5) mj(7) [OF that] by auto
  ultimately show ?thesis
    using assms(1,4,6,7) other unfolding dl_inv_def by simp
qed

lemma put_ddb_section_bytes:
  assumes "mid < 65536"
  obtains hdr crc where "put_ddb_section mid b l blk = hdr @ ddb_msg 1 mid MODULE_VERSION (b mod 256) blk @ crc"
    "length hdr = 8" "length crc = 4" "\<And>r. get_2byte_value (hdr @ r) 3 = Some mid" "\<And>r. rd (hdr @ r) 0 = Some 0x3C"
    "\<And>r. rd (hdr @ r) 6 = Some (b mod 256)" "\<And>r. rd (hdr @ r) 7 = Some (l mod 256)"
proof (rule put_section_bytes [OF assms, of "0x3C" "0xc1" b l "ddb_msg 1 mid MODULE_VERSION (b mod 256) blk"], goal_cases)
  case (1 hdr crc)
  then show ?case
    by (intro 1(1)) (simp_all add: put_ddb_section_def)
qed

lemma ddb_collect_step:
  assumes "dl_inv P D s" "(j, b) \<in> pl_all P"
  obtains ms' mem' s' where
    "ddb_collect V3 junk (pl_section P (j, b) @ rest) (pl_n P) (pl_lo P) s =
       Some ((j, b) \<notin> D, (j, b) \<notin> D \<and> (\<forall>i\<in>pl_range P. module_download_finish (g_dc_module s' ! i) = 1), s')"
    "s' = s\<lparr>g_dc_module := ms', ram := mem'\<rparr>" "dl_inv P (insert (j, b) D) s'" "length mem' = length (ram s)"
    "length ms' = length (g_dc_module s)"
    "\<forall>a<length (ram s). pl_outside P a \<longrightarrow> mem' ! a = ram s ! a"
proof -
  let ?m = "g_dc_module s ! j" and ?B = "pl_bs P" and ?blk = "image_block (pl_bs P) (pl_img P j) b"
  have j: "j \<in> pl_range P" "b < pl_blocks P j"
    using assms(2) by (auto simp: pl_all_def)
  note mj = dl_inv_module [OF assms(1) j(1)]
  have ok: "plan_ok P"
    using assms(1) by (simp add: dl_inv_def)
  note nb = plan_blocks [OF ok j(1)]
  have mid: "pl_mid P j < 65536"
    using ok j(1) by (simp add: plan_ok_def)
  have b: "b < block_num ?m" "b mod 256 = b" "(int (block_num ?m) - 1) mod 256 = int ((pl_blocks P j - 1) mod 256)"
    using j(2) nb mj(5) by (simp_all add: of_nat_diff)
  obtain hdr crc where sec: "pl_section P (j, b) = hdr @ ddb_msg 1 (pl_mid P j) MODULE_VERSION b ?blk @ crc" "length hdr = 8"
    "\<And>r. get_2byte_value (hdr @ r) 3 = Some (pl_mid P j)" "\<And>r. rd (hdr @ r) 0 = Some 0x3C"
    "\<And>r. rd (hdr @ r) 6 = Some (b mod 256)" "\<And>r. rd (hdr @ r) 7 = Some ((pl_blocks P j - 1) mod 256)"
    by (rule put_ddb_section_bytes [OF mid, of b "pl_blocks P j - 1" ?blk]) (simp add: pl_section_def b(2))
  let ?buf = "pl_section P (j, b) @ rest"
  have hit: "find_module (g_dc_module s) (pl_mid P j) (pl_n P) (pl_lo P) = Some (Some j)"
    by (rule dl_inv_find [OF assms(1) j(1)])
  obtain r m' mem' where st:
    "ddb_data 1 ?buf 8 ?m ?B b (ram s) = Some (r, m', mem')"
    "r = (if got (block_received ?m) b then DBC_FAIL else DBC_SUCCESS)" "ddb_inv (1, ?B, pl_img P j, m', mem')"
    "\<forall>c. got (block_received m') c = (got (block_received ?m) c \<or> c = b)"
    "module_id m' = pl_mid P j" "module_buf_pointer m' = pl_ptr P j" "length mem' = length (ram s)"
    "\<forall>a<length (ram s). a < nat (pl_ptr P j) \<or> nat (pl_ptr P j) + length (pl_img P j) \<le> a \<longrightarrow> mem' ! a = ram s ! a"
    using ddb_deliver_step [OF mj(3) b(1), of hdr MODULE_VERSION "crc @ rest"] sec(1,2) mj(1,2,4) b(2) by auto
  define s' where "s' = s\<lparr>g_dc_module := (g_dc_module s)[j := m'], ram := mem'\<rparr>"
  have inv: "dl_inv P (insert (j, b) D) s'"
    unfolding s'_def by (rule dl_inv_store [OF assms(1) j st(3-8)])
  have parse: "parse_dsmcc_sec_gen V3 junk ?buf DDB_NUM j s =
      Some (if (j, b) \<in> D then OTA_FAILURE else OTA_SUCCESS, s')"
    using st(1,2) sec mj(1,6,7) j(2) b(2) assms(1)
    by (simp add: parse_dsmcc_sec_gen_def DSI_NUM_def DII_NUM_def DDB_NUM_def DBC_SUCCESS_def DBC_FAIL_def s'_def dl_inv_def)
  have "pl_lo P + pl_n P \<le> length (g_dc_module s')" "j mod 256 = j"
    using inv ok j(1) by (auto simp: dl_inv_def plan_ok_def pl_range_def)
  then have "ddb_collect V3 junk ?buf (pl_n P) (pl_lo P) s =
       Some ((j, b) \<notin> D, (j, b) \<notin> D \<and> (\<forall>i\<in>pl_range P. module_download_finish (g_dc_module s' ! i) = 1), s')"
    using hit parse b(3) sec(1,3,6) range_finished_all [of "pl_lo P" "pl_n P" "g_dc_module s'"]
    by (simp add: ddb_collect_def OTA_SUCCESS_def OTA_FAILURE_def pl_range_def)
  from that [OF this s'_def inv st(7)] show ?thesis
    using st(8) j(1) by (simp add: pl_outside_def)
qed

lemma image_block_tail: "0 < B \<Longrightarrow> image_block B img ((length img + B - 1) div B) = []"
proof -
  assume B: "0 < B"
  then have "length img \<le> (length img + B - 1) div B * B"
    using div_mult_mod_eq [of "length img + B - 1" B] mod_less_divisor [OF B, of "length img + B - 1"] by linarith
  then show ?thesis
    by (simp add: image_block_def)
qed

text \<open>The closing section is refused and changes nothing.\<close>

lemma ddb_collect_tail:
  assumes "dl_inv P D s" "(j, b) \<in> pl_tail P"
  shows "ddb_collect V3 junk (pl_section P (j, b) @ rest) (pl_n P) (pl_lo P) s = Some (False, False, s)"
proof -
  let ?m = "g_dc_module s ! j"
  have j: "j \<in> pl_range P" "b = pl_blocks P j" "b < 256"
    using assms(2) by (auto simp: pl_tail_def)
  note mj = dl_inv_module [OF assms(1) j(1)]
  have ok: "plan_ok P"
    using assms(1) by (simp add: dl_inv_def)
  note nb = plan_blocks [OF ok j(1)]
  have mid: "pl_mid P j < 65536" "0 < pl_bs P"
    using ok j(1) by (simp_all add: plan_ok_def)
  have blk: "image_block (pl_bs P) (pl_img P j) b = []"
    using image_block_tail [OF mid(2)] by (simp add: j(2) pl_blocks_def)
  have b: "b mod 256 = b" "(int (block_num ?m) - 1) mod 256 = int ((pl_blocks P j - 1) mod 256)"
    using j(3) nb mj(5) by (simp_all add: of_nat_diff)
  obtain hdr crc where sec: "pl_section P (j, b) = hdr @ ddb_msg 1 (pl_mid P j) MODULE_VERSION b [] @ crc" "length hdr = 8"
    "\<And>r. get_2byte_value (hdr @ r) 3 = Some (pl_mid P j)" "\<And>r. rd (hdr @ r) 0 = Some 0x3C"
    "\<And>r. rd (hdr @ r) 6 = Some b" "\<And>r. rd (hdr @ r) 7 = Some ((pl_blocks P j - 1) mod 256)"
    by (rule put_ddb_section_bytes [OF mid(1), of b "pl_blocks P j - 1" "[]"]) (simp add: pl_section_def b(1) blk)
  have hit: "find_module (g_dc_module s) (pl_mid P j) (pl_n P) (pl_lo P) = Some (Some j)"
    by (rule dl_inv_find [OF assms(1) j(1)])
  obtain buf p where d: "ddb_data 1 (hdr @ ddb_msg 1 (pl_mid P j) MODULE_VERSION b [] @ crc @ rest) (int (length hdr)) ?m
      (pl_bs P) b (ram s) = (if module_id ?m \<noteq> pl_mid P j then Some (DBC_FAIL, ?m, ram s)
        else ddb_store buf p (length ([] :: u8 list) + 6) ?m (pl_bs P) b b (ram s))"
    by (rule ddb_data_msg [OF mid(1), of b "[]" "crc @ rest" 1 hdr MODULE_VERSION ?m "pl_bs P" b "ram s"])
      (use j(3) in \<open>simp, simp, blast\<close>)
  have "ddb_store buf p (length ([] :: u8 list) + 6) ?m (pl_bs P) b b (ram s) = Some (DBC_FAIL, ?m, ram s)"
    using b(1) mj(5) j(2) by (simp add: ddb_store_def Let_def)
  then have "ddb_data 1 (pl_section P (j, b) @ rest) 8 ?m (pl_bs P) b (ram s) = Some (DBC_FAIL, ?m, ram s)"
    using d mj(1) sec(1,2) by simp
  then have "parse_dsmcc_sec_gen V3 junk (pl_section P (j, b) @ rest) DDB_NUM j s = Some (OTA_FAILURE, s)"
    using sec(1,3,4,5) mj(1,6) assms(1)
    by (simp add: parse_dsmcc_sec_gen_def DSI_NUM_def DII_NUM_def DDB_NUM_def DBC_SUCCESS_def DBC_FAIL_def dl_inv_def)
  moreover have "j mod 256 = j"
    using ok j(1) by (auto simp: plan_ok_def pl_range_def)
  ultimately show ?thesis
    using hit b(2) sec(1,3,6) by (simp add: ddb_collect_def OTA_SUCCESS_def OTA_FAILURE_def)
qed

subsection \<open>The stream of sections\<close>

lemma finite_pl_all: "finite (pl_all P)"
  by (auto simp: pl_all_def pl_range_def)

lemma dl_inv_finished:
  assumes "dl_inv P D s"
  shows "(\<forall>j\<in>pl_range P. module_download_finish (g_dc_module s ! j) = 1) \<longleftrightarrow> D = pl_all P"
proof -
  have "module_download_finish (g_dc_module s ! j) = 1 \<longleftrightarrow> (\<forall>b<pl_blocks P j. (j, b) \<in> D)" if "j \<in> pl_range P" for j
    using dl_inv_module [OF assms that] by (simp add: ddb_inv_def module_ok_def)
  moreover have "D \<subseteq> pl_all P"
    using assms by (simp add: dl_inv_def)
  ultimately show ?thesis
    by (auto simp: pl_all_def)
qed

lemma pl_section_length:
  assumes "plan_ok P" "(j, b) \<in> pl_all P \<union> pl_tail P"
  shows "length (pl_section P (j, b)) \<le> 4096"
proof -
  have j: "j \<in> pl_range P" and mid: "pl_mid P j < 65536" "pl_bs P \<le> 4066"
    using assms by (auto simp: plan_ok_def pl_all_def pl_tail_def)
  let ?blk = "image_block (pl_bs P) (pl_img P j) b"
  obtain hdr crc where "pl_section P (j, b) = hdr @ ddb_msg 1 (pl_mid P j) MODULE_VERSION (b mod 256) ?blk @ crc"
    "length hdr = 8" "length crc = 4"
    by (rule put_ddb_section_bytes [OF mid(1), of b "pl_blocks P j - 1" ?blk]) (simp add: pl_section_def)
  then show ?thesis
    using mid(2) by (simp add: ddb_msg_def image_block_def)
qed

text \<open>The receiver of version 3 while the blocks in \<open>D\<close> have arrived.\<close>

definition v3_inv :: "dl_plan \<Rightarrow> (nat \<times> nat) set \<Rightarrow> get_section_param \<Rightarrow> ota \<Rightarrow> bool" where
  "v3_inv P D rq s \<longleftrightarrow> dl_inv P D s \<and> pl_lo P = 0 \<and> g_dc_module_num s = pl_n P \<and> total_block_num s = card (pl_all P) \<and>
     received_section_num s = card D \<and> 4096 \<le> length (g_ota_section_buf s) \<and> get_sec_cb rq \<and>
     continue_get_sec rq = (if D = pl_all P then 0 else 1) \<and>
     (D \<noteq> {} \<longrightarrow> progress_shown s \<noteq> [] \<and> last (progress_shown s) = card D * 100 div card (pl_all P))"

lemma v3_section_step:
  assumes "v3_inv P D rq s" "(j, b) \<in> pl_all P"
  shows "\<exists>rq' s'. sec_update_buf (v3_ddb_section junk) (pl_section P (j, b)) (length (pl_section P (j, b))) rq s =
      Some (rq', s') \<and> v3_inv P (insert (j, b) D) rq' s' \<and> length (ram s') = length (ram s) \<and>
    (\<forall>a<length (ram s). pl_outside P a \<longrightarrow> ram s' ! a = ram s ! a)"
proof -
  let ?sec = "pl_section P (j, b)" and ?D = "insert (j, b) D"
  have dl: "dl_inv P D s" and v: "pl_lo P = 0" "g_dc_module_num s = pl_n P" "4096 \<le> length (g_ota_section_buf s)"
    "total_block_num s = card (pl_all P)" "received_section_num s = card D" "get_sec_cb rq"
    "continue_get_sec rq = (if D = pl_all P then 0 else 1)"
    "D \<noteq> {} \<longrightarrow> progress_shown s \<noteq> [] \<and> last (progress_shown s) = card D * 100 div card (pl_all P)"
    using assms(1) by (simp_all add: v3_inv_def)
  have len: "length ?sec \<le> 4096"
    using pl_section_length assms(2) dl by (simp add: dl_inv_def)
  define rest where "rest = drop (length ?sec) (g_ota_section_buf s)"
  define s1 where "s1 = s\<lparr>g_ota_section_buf := ?sec @ rest\<rparr>"
  define rq1 where "rq1 = rq\<lparr>sec_tbl_len := length ?sec mod 65536\<rparr>"
  have upd: "sec_update_buf (v3_ddb_section junk) ?sec (length ?sec) rq s = v3_ddb_section junk rq1 s1"
    using len v(3,6) by (simp add: sec_update_buf_def DMX_MAX_SECTION_SIZE_def s1_def rest_def rq1_def memcpy_at_def)
  have dl1: "dl_inv P D s1"
    using dl by (simp add: s1_def dl_inv_def)
  obtain ms' mem' s2 where c:
    "ddb_collect V3 junk (?sec @ rest) (pl_n P) 0 s1 =
       Some ((j, b) \<notin> D, (j, b) \<notin> D \<and> (\<forall>i\<in>pl_range P. module_download_finish (g_dc_module s2 ! i) = 1), s2)"
    "s2 = s1\<lparr>g_dc_module := ms', ram := mem'\<rparr>" "dl_inv P ?D s2" "length mem' = length (ram s1)"
    "length ms' = length (g_dc_module s1)" "\<forall>a<length (ram s1). pl_outside P a \<longrightarrow> mem' ! a = ram s1 ! a"
    by (rule ddb_collect_step [OF dl1 assms(2), of junk rest, unfolded v(1)])
  have fin: "(\<forall>i\<in>pl_range P. module_download_finish (g_dc_module s2 ! i) = 1) \<longleftrightarrow> ?D = pl_all P"
    by (rule dl_inv_finished [OF c(3)])
  have card: "card ?D = (if (j, b) \<in> D then card D else card D + 1)" "card (pl_all P) \<noteq> 0"
    using finite_subset [OF _ finite_pl_all, of D P] dl assms(2) finite_pl_all [of P]
    by (auto simp: dl_inv_def insert_absorb)
  have mem: "length (ram s2) = length (ram s)" "\<forall>a<length (ram s). pl_outside P a \<longrightarrow> ram s2 ! a = ram s ! a"
    using c(2,4,6) by (simp_all add: s1_def)
  have sb: "g_ota_section_buf s1 = ?sec @ rest" "g_dc_module_num s1 = pl_n P" "4096 \<le> length (g_ota_section_buf s2)"
    "g_dc_module_num s2 = pl_n P" "total_block_num s2 = card (pl_all P)" "received_section_num s2 = card D"
    "progress_shown s2 = progress_shown s" "get_sec_cb rq1" "continue_get_sec rq1 = continue_get_sec rq"
    using v(2-6) len by (simp_all add: s1_def c(2) rest_def rq1_def)
  show ?thesis
  proof (cases "(j, b) \<in> D")
    case True
    then have "v3_ddb_section junk rq1 s1 = Some (rq1, s2)"
      using c(1) sb(1,2) by (simp add: v3_ddb_section_def)
    then show ?thesis
      using True c(3) mem sb v upd by (intro exI [of _ rq1] exI [of _ s2]) (simp add: v3_inv_def insert_absorb)
  next
    case False
    define s3 where "s3 = s2\<lparr>received_section_num := card D + 1,
      progress_shown := progress_shown s @ [(card D + 1) * 100 div card (pl_all P)]\<rparr>"
    define rq2 where "rq2 = (if ?D = pl_all P then rq1\<lparr>continue_get_sec := 0\<rparr> else rq1)"
    have run: "v3_ddb_section junk rq1 s1 = Some (rq2, s3)"
      using c(1) sb fin False card(2) by (simp add: v3_ddb_section_def Let_def s3_def rq2_def)
    have "dl_inv P ?D s3"
      using c(3) by (simp add: s3_def dl_inv_def)
    moreover have "D \<noteq> pl_all P"
      using False assms(2) by blast
    ultimately have "v3_inv P ?D rq2 s3"
      using sb v card False by (simp add: v3_inv_def s3_def rq2_def)
    then show ?thesis
      using run upd mem by (intro exI [of _ rq2] exI [of _ s3]) (simp add: s3_def)
  qed
qed

lemma v3_section_tail:
  assumes "v3_inv P D rq s" "(j, b) \<in> pl_tail P"
  shows "\<exists>rq' s'. sec_update_buf (v3_ddb_section junk) (pl_section P (j, b)) (length (pl_section P (j, b))) rq s =
      Some (rq', s') \<and> v3_inv P D rq' s' \<and> ram s' = ram s"
proof -
  let ?sec = "pl_section P (j, b)"
  have dl: "dl_inv P D s" and v: "pl_lo P = 0" "g_dc_module_num s = pl_n P" "4096 \<le> length (g_ota_section_buf s)" "get_sec_cb rq"
    using assms(1) by (simp_all add: v3_inv_def)
  have len: "length ?sec \<le> 4096"
    using pl_section_length assms(2) dl by (simp add: dl_inv_def)
  define rest where "rest = drop (length ?sec) (g_ota_section_buf s)"
  define s1 where "s1 = s\<lparr>g_ota_section_buf := ?sec @ rest\<rparr>"
  define rq1 where "rq1 = rq\<lparr>sec_tbl_len := length ?sec mod 65536\<rparr>"
  have upd: "sec_update_buf (v3_ddb_section junk) ?sec (length ?sec) rq s = v3_ddb_section junk rq1 s1"
    using len v(3,4) by (simp add: sec_update_buf_def DMX_MAX_SECTION_SIZE_def s1_def rest_def rq1_def memcpy_at_def)
  have "dl_inv P D s1"
    using dl by (simp add: s1_def dl_inv_def)
  from ddb_collect_tail [OF this assms(2), of junk rest]
  have "v3_ddb_section junk rq1 s1 = Some (rq1, s1)"
    using v(1,2) by (simp add: v3_ddb_section_def s1_def)
  moreover have "v3_inv P D rq1 s1"
    using assms(1) len by (simp add: v3_inv_def dl_inv_def rq1_def s1_def rest_def)
  ultimately show ?thesis
    using upd by (intro exI [of _ rq1] exI [of _ s1]) (simp add: s1_def)
qed

lemma v3_section_any:
  assumes "v3_inv P D rq s" "jb \<in> pl_all P \<union> pl_tail P"
  shows "\<exists>rq' s'. sec_update_buf (v3_ddb_section junk) (pl_section P jb) (length (pl_section P jb)) rq s = Some (rq', s') \<and>
    v3_inv P (D \<union> {jb} \<inter> pl_all P) rq' s' \<and> length (ram s') = length (ram s) \<and>
    (\<forall>a<length (ram s). pl_outside P a \<longrightarrow> ram s' ! a = ram s ! a)"
proof -
  obtain j b where jb: "jb = (j, b)"
    by fastforce
  show ?thesis
  proof (cases "(j, b) \<in> pl_all P")
    case True
    then show ?thesis
      using v3_section_step [OF assms(1) True] by (simp add: jb)
  next
    case False
    then have "(j, b) \<in> pl_tail P"
      using assms(2) by (simp add: jb)
    from v3_section_tail [OF assms(1) this, of junk] show ?thesis
      using False by (fastforce simp: jb)
  qed
qed

lemma v3_stream:
  assumes "v3_inv P D rq s" "set jbs \<subseteq> pl_all P \<union> pl_tail P"
  shows "\<exists>rq' s'. deliver_sections (v3_ddb_section junk) (map (pl_section P) jbs) rq s = Some (rq', s') \<and>
    v3_inv P (D \<union> set jbs \<inter> pl_all P) rq' s' \<and> length (ram s') = length (ram s) \<and>
    (\<forall>a<length (ram s). pl_outside P a \<longrightarrow> ram s' ! a = ram s ! a)"
  using assms
proof (induction jbs arbitrary: D rq s)
  case (Cons jb jbs)
  have "length (pl_section P jb) \<le> 4096"
    using pl_section_length [of P "fst jb" "snd jb"] Cons.prems by (auto simp: v3_inv_def dl_inv_def)
  then have rq: "sec_request_buf (length (pl_section P jb)) = Some (length (pl_section P jb))"
    by (simp add: sec_request_buf_def DMX_MAX_SECTION_SIZE_def)
  obtain rq1 s1 where s1: "sec_update_buf (v3_ddb_section junk) (pl_section P jb) (length (pl_section P jb)) rq s =
      Some (rq1, s1)" "v3_inv P (D \<union> {jb} \<inter> pl_all P) rq1 s1" "length (ram s1) = length (ram s)"
    "\<forall>a<length (ram s). pl_outside P a \<longrightarrow> ram s1 ! a = ram s ! a"
    using v3_section_any [OF Cons.prems(1), of jb junk] Cons.prems(2) by auto
  obtain rq' s' where r: "deliver_sections (v3_ddb_section junk) (map (pl_section P) jbs) rq1 s1 = Some (rq', s')"
    "v3_inv P (D \<union> {jb} \<inter> pl_all P \<union> set jbs \<inter> pl_all P) rq' s'" "length (ram s') = length (ram s1)"
    "\<forall>a<length (ram s1). pl_outside P a \<longrightarrow> ram s' ! a = ram s1 ! a"
    using Cons.IH [OF s1(2)] Cons.prems(2) by auto
  have "D \<union> {jb} \<inter> pl_all P \<union> set jbs \<inter> pl_all P = D \<union> set (jb # jbs) \<inter> pl_all P"
    by auto
  with r show ?case
    using s1 rq by (intro exI [of _ rq'] exI [of _ s']) simp
qed simp

lemma dl_inv_complete:
  assumes "dl_inv P (pl_all P) s" "j \<in> pl_range P"
  shows "take (length (pl_img P j)) (drop (nat (pl_ptr P j)) (ram s)) = pl_img P j"
proof -
  note mj = dl_inv_module [OF assms]
  let ?B = "pl_bs P" and ?n = "length (pl_img P j)"
  have p: "0 < ?B" "0 \<le> pl_ptr P j"
    using assms by (auto simp: dl_inv_def plan_ok_def)
  have slice: "take (length (image_block ?B (pl_img P j) b)) (drop (nat (pl_ptr P j) + b * ?B) (ram s)) =
      image_block ?B (pl_img P j) b" if "b * ?B < ?n" for b
  proof -
    have "b + 1 \<le> (?n + ?B - 1) div ?B"
      using that p(1) by (intro less_eq_div_iff_mult_less_eq [THEN iffD2]) auto
    then have "b < pl_blocks P j"
      by (simp add: pl_blocks_def)
    then show ?thesis
      using mj(2,3,5,7) assms(2) by (simp add: ddb_inv_def pl_all_def)
  qed
  have "nat (pl_ptr P j) + ?n \<le> length (ram s)"
    using mj(2-4) p(2) by (auto simp: ddb_inv_def)
  from blocks_cover [OF p(1) refl this slice] show ?thesis .
qed

end
