(* ===== verification/Carousel_Roundtrip.thy ===== *)
theory Carousel_Roundtrip
  imports Ota_Download
begin

section \<open>The packed file arrives\<close>

text \<open>
  The composition of the pack tool with the version 3 receiver: the three commands of an OTA
  download, run on the sections that the pack tool generates for a file, leave the file in
  the download memory.
\<close>

subsection \<open>The plan of a packed group\<close>

definition carousel_plan :: "group_info_t \<Rightarrow> u8 list \<Rightarrow> int \<Rightarrow> dl_plan" where
  "carousel_plan g fl addr = \<lparr>pl_lo = 0, pl_n = pk_module_num g, pl_bs = PK_BLOCK_SIZE,
     pl_mid = (\<lambda>j. pk_module_id (pk_module_info g ! j)), pl_ptr = (\<lambda>j. addr + int (pk_offset g j)),
     pl_img = (\<lambda>j. take (pk_module_size (pk_module_info g ! j)) (drop (pk_offset g j) fl))\<rparr>"

text \<open>What \<open>gen_group_info\<close> guarantees of a group, in the terms of the receiver.\<close>

definition packed :: "group_info_t \<Rightarrow> u8 list \<Rightarrow> bool" where
  "packed g fl \<longleftrightarrow> dir_ok g \<and> pk_group_len g = length fl \<and> pk_offset g (pk_module_num g) = length fl \<and>
     distinct (map pk_module_id (group_modules g)) \<and>
     (\<forall>j<pk_module_num g. 0 < pk_module_size (pk_module_info g ! j) \<and>
        pk_last_section_num (pk_module_info g ! j) =
          (pk_module_size (pk_module_info g ! j) + PK_BLOCK_SIZE - 1) div PK_BLOCK_SIZE - 1)"

lemma gen_group_packed:
  assumes "gen_group_info cur (length fl) g0 = Some (Inr g)" "pk_module_num g \<le> 128"
  shows "packed g fl" "pk_group_id g = 0x80000002"
    "pk_oui g = pk_oui g0" "pk_hw_model g = pk_hw_model g0" "pk_hw_ver g = pk_hw_ver g0"
    "pk_sw_model g = pk_sw_model g0" "pk_sw_ver g = pk_sw_ver g0" "pk_group_len g = length fl"
proof -
  have "0 < length fl" "length fl \<le> MAX_MODULE_IN_GROUP * MAX_SIZE_PER_MODULE"
    using assms(1) by (auto simp: gen_group_info_def Let_def split: if_splits)
  from pack_modules_facts [OF this, of cur g0] assms(1) have f:
    "0 < pk_module_num g" "length (pk_module_info g) = 256" "pk_group_len g = length fl"
    "\<forall>m\<in>set (pk_module_info g). pk_module_id m < 65536 \<and> pk_module_size m \<le> MAX_SIZE_PER_MODULE"
    "sum_list (map pk_module_size (group_modules g)) = length fl" "distinct (map pk_module_id (group_modules g))"
    "\<forall>m\<in>set (group_modules g). 0 < pk_module_size m \<and>
       pk_last_section_num m = (pk_module_size m + PK_BLOCK_SIZE - 1) div PK_BLOCK_SIZE - 1"
    and g: "g = g0\<lparr>pk_group_id := 0x80000002, pk_group_len := length fl, pk_module_num := pk_module_num g,
      pk_module_info := pk_module_info g\<rparr>"
    by auto
  show id: "pk_group_id g = 0x80000002" "pk_oui g = pk_oui g0" "pk_hw_model g = pk_hw_model g0" "pk_hw_ver g = pk_hw_ver g0"
    "pk_sw_model g = pk_sw_model g0" "pk_sw_ver g = pk_sw_ver g0" "pk_group_len g = length fl"
    by (subst g, simp)+
  have "pk_module_info g ! j \<in> set (group_modules g)" if "j < pk_module_num g" for j
    using that f(2) assms(2) by (auto simp: group_modules_def in_set_conv_nth intro!: exI [of _ j])
  then show "packed g fl"
    using f id(1) assms(2) by (simp add: packed_def dir_ok_def pk_offset_def group_modules_def)
qed

lemma pk_offset_mono: "i \<le> j \<Longrightarrow> pk_offset g i \<le> pk_offset g j"
proof -
  assume "i \<le> j"
  then have "take j (pk_module_info g) = take i (pk_module_info g) @ take (j - i) (drop i (pk_module_info g))"
    by (metis le_add_diff_inverse take_add)
  then show ?thesis
    by (simp add: pk_offset_def)
qed

lemma packed_module:
  assumes "packed g fl" "j < pk_module_num g"
  shows "j < length (pk_module_info g)" "pk_offset g j + pk_module_size (pk_module_info g ! j) \<le> length fl"
    "0 < pk_module_size (pk_module_info g ! j)" "pk_module_size (pk_module_info g ! j) \<le> 256 * PK_BLOCK_SIZE"
    "length (pl_img (carousel_plan g fl addr) j) = pk_module_size (pk_module_info g ! j)"
proof -
  show j: "j < length (pk_module_info g)"
    using assms by (auto simp: packed_def dir_ok_def)
  then have "pk_module_info g ! j \<in> set (pk_module_info g)"
    by simp
  then show "pk_module_size (pk_module_info g ! j) \<le> 256 * PK_BLOCK_SIZE"
    using assms(1) by (auto simp: packed_def dir_ok_def MAX_SIZE_PER_MODULE_def PK_BLOCK_SIZE_def)
  show "0 < pk_module_size (pk_module_info g ! j)"
    using assms by (simp add: packed_def)
  show le: "pk_offset g j + pk_module_size (pk_module_info g ! j) \<le> length fl"
    using pk_offset_mono [of "Suc j" "pk_module_num g" g] assms pk_offset_Suc [OF j] by (simp add: packed_def)
  show "length (pl_img (carousel_plan g fl addr) j) = pk_module_size (pk_module_info g ! j)"
    using le by (simp add: carousel_plan_def)
qed

lemma carousel_plan_sel [simp]:
  "pl_lo (carousel_plan g fl addr) = 0" "pl_n (carousel_plan g fl addr) = pk_module_num g"
  "pl_bs (carousel_plan g fl addr) = PK_BLOCK_SIZE"
  "pl_mid (carousel_plan g fl addr) j = pk_module_id (pk_module_info g ! j)"
  "pl_ptr (carousel_plan g fl addr) j = addr + int (pk_offset g j)"
  "pl_range (carousel_plan g fl addr) = {..<pk_module_num g}"
  by (auto simp: carousel_plan_def pl_range_def)

lemma carousel_plan_ok:
  assumes "packed g fl" "0 \<le> addr"
  shows "plan_ok (carousel_plan g fl addr)"
proof -
  let ?P = "carousel_plan g fl addr"
  note pm = packed_module [OF assms(1)]
  have d: "distinct (map pk_module_id (group_modules g))" "length (group_modules g) = pk_module_num g"
    using assms(1) by (auto simp: packed_def dir_ok_def group_modules_def)
  have "inj_on (\<lambda>j. pk_module_id (pk_module_info g ! j)) {..<pk_module_num g}"
  proof (rule inj_onI)
    fix x y
    assume "x \<in> {..<pk_module_num g}" "y \<in> {..<pk_module_num g}"
      "pk_module_id (pk_module_info g ! x) = pk_module_id (pk_module_info g ! y)"
    then show "x = y"
      using nth_eq_iff_index_eq [OF d(1), of x y] d(2) by (simp add: group_modules_def)
  qed
  moreover have "pl_ptr ?P i + int (length (pl_img ?P i)) \<le> pl_ptr ?P j" if "i < j" "j < pk_module_num g" for i j
    using pm [of i] that pk_offset_Suc [of i g] pk_offset_mono [of "Suc i" j g] by simp
  ultimately show ?thesis
    using assms pm dir_ok_entry(1) [of g]
    by (auto simp: plan_ok_def packed_def dir_ok_def PK_BLOCK_SIZE_def inj_on_def)
qed

subsection \<open>The sections of the pack tool are those of the plan\<close>

lemma group_sections_at:
  assumes "packed g fl" "i + k = pk_module_num g"
  shows "set (group_sections (take k (drop i (pk_module_info g))) (drop (pk_offset g i) fl)) =
    {pl_section (carousel_plan g fl addr) (j, b) | j b. i \<le> j \<and> j < pk_module_num g \<and> b < 256 \<and>
       b * PK_BLOCK_SIZE \<le> pk_module_size (pk_module_info g ! j)}"
  using assms(2)
proof (induction k arbitrary: i)
  case (Suc k)
  let ?m = "pk_module_info g ! i" and ?P = "carousel_plan g fl addr"
  have i: "i < pk_module_num g"
    using Suc.prems by simp
  note pm = packed_module [OF assms(1) i]
  have last_num: "pk_last_section_num ?m = pl_blocks ?P i - 1"
    using assms(1) i pm(5) [of addr] by (simp add: packed_def pl_blocks_def)
  have img: "take (pk_module_size ?m) (drop (pk_offset g i) fl) = pl_img ?P i"
    by (simp add: carousel_plan_def)
  have ms: "take (Suc k) (drop i (pk_module_info g)) = ?m # take k (drop (Suc i) (pk_module_info g))"
    using pm(1) by (simp add: Cons_nth_drop_Suc [symmetric])
  have "module_sections ?m [0..<256] (drop (pk_offset g i) fl) =
      (map (\<lambda>n. pl_section ?P (i, n)) (filter (\<lambda>n. n * PK_BLOCK_SIZE \<le> pk_module_size ?m) [0..<256]),
       drop (pk_offset g (Suc i)) fl)"
    using pm(2,4) by (subst module_sections_blocks)
      (simp_all add: img last_num pl_section_def pk_offset_Suc [OF pm(1)] MAX_SIZE_PER_MODULE_def PK_BLOCK_SIZE_def add.commute)
  then have "set (group_sections (take (Suc k) (drop i (pk_module_info g))) (drop (pk_offset g i) fl)) =
      {pl_section ?P (i, b) | b. b < 256 \<and> b * PK_BLOCK_SIZE \<le> pk_module_size ?m} \<union>
      {pl_section ?P (j, b) | j b. Suc i \<le> j \<and> j < pk_module_num g \<and> b < 256 \<and>
         b * PK_BLOCK_SIZE \<le> pk_module_size (pk_module_info g ! j)}"
    using Suc.IH [of "Suc i"] Suc.prems unfolding ms by auto
  also have "\<dots> = {pl_section ?P (j, b) | j b. i \<le> j \<and> j < pk_module_num g \<and> b < 256 \<and>
         b * PK_BLOCK_SIZE \<le> pk_module_size (pk_module_info g ! j)}"
  proof -
    have le: "(i \<le> j) = (j = i \<or> Suc i \<le> j)" for j
      by auto
    show ?thesis
      unfolding le using i by blast
  qed
  finally show ?case .
qed auto

text \<open>The block numbers of the generated sections.\<close>

definition carousel_blocks :: "group_info_t \<Rightarrow> (nat \<times> nat) set" where
  "carousel_blocks g = {(j, b). j < pk_module_num g \<and> b < 256 \<and> b * PK_BLOCK_SIZE \<le> pk_module_size (pk_module_info g ! j)}"

lemma carousel_sections_set:
  assumes "packed g fl"
  shows "set (group_sections (group_modules g) fl) = pl_section (carousel_plan g fl addr) ` carousel_blocks g"
  using group_sections_at [OF assms, of 0 "pk_module_num g" addr]
  by (auto simp: group_modules_def pk_offset_def carousel_blocks_def)

lemma carousel_blocks_cover:
  assumes "packed g fl" "0 \<le> addr"
  shows "pl_all (carousel_plan g fl addr) \<subseteq> carousel_blocks g"
    "carousel_blocks g \<subseteq> pl_all (carousel_plan g fl addr) \<union> pl_tail (carousel_plan g fl addr)"
proof -
  let ?P = "carousel_plan g fl addr" and ?B = PK_BLOCK_SIZE
  have ok: "plan_ok ?P"
    by (rule carousel_plan_ok [OF assms])
  have B: "0 < ?B"
    by (simp add: PK_BLOCK_SIZE_def)
  have bl: "pl_blocks ?P j = (pk_module_size (pk_module_info g ! j) + ?B - 1) div ?B" if "j < pk_module_num g" for j
    using packed_module(5) [OF assms(1) that, of addr] by (simp add: pl_blocks_def)
  show "pl_all ?P \<subseteq> carousel_blocks g"
  proof (rule subsetI, clarify)
    fix j b
    assume "(j, b) \<in> pl_all ?P"
    then have j: "j < pk_module_num g" "b < pl_blocks ?P j"
      by (auto simp: pl_all_def)
    have "b + 1 \<le> (pk_module_size (pk_module_info g ! j) + ?B - 1) div ?B"
      using j bl by simp
    then have "(b + 1) * ?B \<le> pk_module_size (pk_module_info g ! j) + ?B - 1"
      using B by (simp only: less_eq_div_iff_mult_less_eq)
    then show "(j, b) \<in> carousel_blocks g"
      using j plan_blocks(2) [OF ok, of j] by (simp add: carousel_blocks_def)
  qed
  show "carousel_blocks g \<subseteq> pl_all ?P \<union> pl_tail ?P"
  proof (rule subsetI, clarify)
    fix j b
    assume jb: "(j, b) \<in> carousel_blocks g" "(j, b) \<notin> pl_tail ?P"
    then have j: "j < pk_module_num g" "b < 256" "b * ?B \<le> pk_module_size (pk_module_info g ! j)"
      by (auto simp: carousel_blocks_def)
    have "b \<le> pl_blocks ?P j"
      unfolding bl [OF j(1)] using j(3) B by (simp add: less_eq_div_iff_mult_less_eq)
    then show "(j, b) \<in> pl_all ?P"
      using jb(2) j by (auto simp: pl_all_def pl_tail_def)
  qed
qed

text \<open>A section determines its block.\<close>

lemma pl_section_inj:
  assumes "plan_ok P"
  shows "inj_on (pl_section P) (pl_range P \<times> {..<256})"
proof (rule inj_onI, clarify)
  fix j b j' b'
  assume a: "j \<in> pl_range P" "j' \<in> pl_range P" "b < 256" "b' < 256" "pl_section P (j, b) = pl_section P (j', b')"
  have *: "get_2byte_value (pl_section P (i, c)) 3 = Some (pl_mid P i) \<and> rd (pl_section P (i, c)) 6 = Some (c mod 256)"
    if "i \<in> pl_range P" for i c
  proof -
    have "pl_mid P i < 65536"
      using assms that by (simp add: plan_ok_def)
    then show ?thesis
      by (rule put_ddb_section_bytes [of _ c "pl_blocks P i - 1" "image_block (pl_bs P) (pl_img P i) c"])
        (simp add: pl_section_def)
  qed
  have "pl_mid P j = pl_mid P j'" "b = b'"
    using * [OF a(1), of b] * [OF a(2), of b'] a(3-5) by simp_all
  then show "j = j' \<and> b = b'"
    using assms a(1,2) by (auto simp: plan_ok_def dest: inj_onD)
qed

lemma carousel_stream:
  assumes "packed g fl" "0 \<le> addr" "set secs = set (group_sections (group_modules g) fl)"
  obtains jbs where "secs = map (pl_section (carousel_plan g fl addr)) jbs" "set jbs = carousel_blocks g"
proof
  let ?P = "carousel_plan g fl addr" and ?A = "carousel_blocks g"
  let ?jbs = "map (inv_into ?A (pl_section ?P)) secs"
  have set: "set secs = pl_section ?P ` ?A"
    using assms(3) carousel_sections_set [OF assms(1)] by simp
  have inj: "inj_on (pl_section ?P) ?A"
    by (rule inj_on_subset [OF pl_section_inj [OF carousel_plan_ok [OF assms(1,2)]]]) (auto simp: carousel_blocks_def)
  show "secs = map (pl_section ?P) ?jbs"
    using set by (auto simp: comp_def f_inv_into_f intro!: map_idI [symmetric])
  show "set ?jbs = ?A"
    using set inj by (force simp: inv_into_f_f)
qed

subsection \<open>The three commands\<close>

text \<open>A demultiplexer that works and delivers the given sections.\<close>

definition dmx_delivers :: "u8 list list \<Rightarrow> dmx_env" where
  "dmx_delivers secs = \<lparr>dmx_construct_ret = 0, dmx_open_ret = 0, dmx_start_ret = 0, dmx_sections = (\<lambda>rq. secs),
     dmx_poll_ret = 0, dmx_flag_got = True\<rparr>"

lemma v3_parse_request:
  assumes "length sec \<le> 4096" "4096 \<le> length (g_ota_section_buf s)" "ty \<noteq> DDB_NUM"
  obtains buf where "v3_si_private_sec_parsing_start (dmx_delivers [sec]) junk ty pid True s =
      v3_parse_dsmcc_sec junk (sec @ buf) ty 0 (s\<lparr>g_ota_section_buf := sec @ buf\<rparr>)"
    "length (sec @ buf) = length (g_ota_section_buf s)"
proof
  let ?buf = "drop (length sec) (g_ota_section_buf s)"
  show "length (sec @ ?buf) = length (g_ota_section_buf s)"
    using assms(1,2) by simp
  show "v3_si_private_sec_parsing_start (dmx_delivers [sec]) junk ty pid True s =
      v3_parse_dsmcc_sec junk (sec @ ?buf) ty 0 (s\<lparr>g_ota_section_buf := sec @ ?buf\<rparr>)"
    using assms by (simp add: v3_si_private_sec_parsing_start_def v3_dmx_req_section_def dmx_delivers_def
      sec_request_buf_def sec_update_buf_def DMX_MAX_SECTION_SIZE_def memcpy_at_def Let_def OTA_SUCCESS_def)
qed

lemma dsi_section_length: "length (put_dsi_section [g]) = 88"
  by (simp add: put_dsi_section_def put_section_def dsi_group_def Let_def)

lemma concat_length_bound: "(\<And>x. length (f x) \<le> k) \<Longrightarrow> length (concat (map f xs)) \<le> length xs * k"
proof (induction xs)
  case (Cons x xs)
  then show ?case
    using add_mono [of "length (f x)" k] by simp
qed simp

lemma dii_section_length:
  assumes "dir_ok g"
  shows "length (put_dii_section g) \<le> 4096"
proof -
  have "length (dii_entry g i) \<le> 13" for i
    by (simp add: dii_entry_def Let_def)
  from concat_length_bound [of "dii_entry g", OF this, of "[0..<pk_module_num g]"] show ?thesis
    using assms by (simp add: put_dii_section_def put_section_def Let_def dir_ok_def)
qed

text \<open>The announcement and the directory, one after the other.\<close>

lemma v3_download_info:
  assumes "packed g fl" "group_ok g" "fits s g"
    and "length (g_dc_module s) = 128" "4096 \<le> length (g_ota_section_buf s)"
  obtains info s' where
    "v3_ota_cmd_get_download_info (dmx_delivers [put_dsi_section [g]]) (dmx_delivers [put_dii_section g]) junk pid s =
       Some (OTA_SUCCESS, Some info, s')" "dl_sw_size info = length fl" "dl_sw_version info = pk_sw_ver g"
    "g_ota_size s' = length fl" "g_dc_module_num s' = pk_module_num g" "g_dc_blocksize s' = PK_BLOCK_SIZE"
    "length (g_dc_module s') = 128" "length (g_ota_section_buf s') = length (g_ota_section_buf s)" "ram s' = ram s"
    "\<forall>j<pk_module_num g. \<exists>p. fresh_module PK_BLOCK_SIZE p (pk_module_id (pk_module_info g ! j))
       (pk_module_size (pk_module_info g ! j)) (g_dc_module s' ! j)"
proof -
  have g: "dir_ok g" "pk_group_len g = length fl"
    using assms(1) by (simp_all add: packed_def)
  obtain buf1 where r1: "v3_si_private_sec_parsing_start (dmx_delivers [put_dsi_section [g]]) junk DSI_NUM pid True s =
      v3_parse_dsmcc_sec junk (put_dsi_section [g] @ buf1) DSI_NUM 0 (s\<lparr>g_ota_section_buf := put_dsi_section [g] @ buf1\<rparr>)"
    "length (put_dsi_section [g] @ buf1) = length (g_ota_section_buf s)"
    by (rule v3_parse_request [of "put_dsi_section [g]" s DSI_NUM junk pid])
      (use assms(5) in \<open>simp_all add: dsi_section_length DSI_NUM_def DDB_NUM_def\<close>)
  define s1 where "s1 = s\<lparr>g_ota_section_buf := put_dsi_section [g] @ buf1\<rparr>"
  define s2 where "s2 = s1\<lparr>g_dc_group := \<lparr>group_id = pk_group_id g, group_size = pk_group_len g\<rparr>,
      g_dl_info := (g_dl_info s1)\<lparr>dl_hw_version := g_hw_version s1, dl_sw_version := pk_sw_ver g, dl_sw_type := 0,
        dl_sw_size := pk_group_len g\<rparr>\<rparr>"
  define s3 where "s3 = s2\<lparr>g_ota_size := pk_group_len g\<rparr>"
  have dsi: "v3_parse_dsmcc_sec junk (put_dsi_section [g] @ buf1) DSI_NUM 0 s1 = Some (OTA_SUCCESS, s2)"
    unfolding s2_def using assms(2,3) by (intro v3_dsi_decode) (simp_all add: s1_def fits_def)
  have b3: "4096 \<le> length (g_ota_section_buf s3)" "length (g_ota_section_buf s3) = length (g_ota_section_buf s)"
    using r1(2) assms(5) by (simp_all add: s3_def s2_def s1_def)
  obtain buf2 where r2: "v3_si_private_sec_parsing_start (dmx_delivers [put_dii_section g]) junk DII_NUM pid True s3 =
      v3_parse_dsmcc_sec junk (put_dii_section g @ buf2) DII_NUM 0 (s3\<lparr>g_ota_section_buf := put_dii_section g @ buf2\<rparr>)"
    "length (put_dii_section g @ buf2) = length (g_ota_section_buf s3)"
    by (rule v3_parse_request [OF dii_section_length [OF g(1)] b3(1), of DII_NUM junk pid])
      (simp_all add: DII_NUM_def DDB_NUM_def)
  define s4 where "s4 = s3\<lparr>g_ota_section_buf := put_dii_section g @ buf2\<rparr>"
  have "length (g_dc_module s4) = 128" "group_id (g_dc_group s4) = pk_group_id g"
    using assms(4) by (simp_all add: s4_def s3_def s2_def s1_def)
  from v3_dii_decode [OF g(1) this, of junk buf2 0] obtain ms' where dii:
    "v3_parse_dsmcc_sec junk (put_dii_section g @ buf2) DII_NUM 0 s4 = Some (OTA_SUCCESS,
       s4\<lparr>g_dc_module := ms', g_dc_module_num := pk_module_num g, g_dc_blocksize := PK_BLOCK_SIZE\<rparr>)" "length ms' = 128"
    "\<forall>j<pk_module_num g. \<exists>p. fresh_module PK_BLOCK_SIZE p (pk_module_id (pk_module_info g ! j))
       (pk_module_size (pk_module_info g ! j)) (ms' ! j)"
    by blast
  have "v3_ota_cmd_get_download_info (dmx_delivers [put_dsi_section [g]]) (dmx_delivers [put_dii_section g]) junk pid s =
      Some (OTA_SUCCESS, Some (g_dl_info s3),
        s4\<lparr>g_dc_module := ms', g_dc_module_num := pk_module_num g, g_dc_blocksize := PK_BLOCK_SIZE\<rparr>)"
    using r1(1) dsi r2(1) dii(1)
    unfolding v3_ota_cmd_get_download_info_def s1_def [symmetric] s4_def [symmetric] by (simp add: s3_def Let_def) (simp add: s2_def)
  from that [OF this] show ?thesis
    using g(2) dii(2,3) r2(2) b3(2) by (simp add: s4_def) (simp add: s3_def s2_def s1_def)
qed

text \<open>Placing the modules makes the receiver ready for the plan.\<close>

lemma chain_layout_fresh:
  assumes "\<forall>j<n. \<exists>p. fresh_module B p (mid j) (sz j) (ms ! j)" "n \<le> length ms" "j < n"
  shows "fresh_module B (addr + int (\<Sum>i<j. sz i)) (mid j) (sz j) (chain_layout addr (take n ms) ! j)"
proof -
  have sz: "module_buf_size (ms ! i) = sz i" if "i < n" for i
    using assms(1) that by (auto simp: fresh_module_def)
  have "mod_sizes (take j ms) = (\<Sum>i<j. sz i)"
    using assms(2,3) sz by (simp add: mod_sizes_def sum_list_sum_nth atLeast0LessThan)
  moreover obtain p where "fresh_module B p (mid j) (sz j) (ms ! j)"
    using assms(1,3) by blast
  ultimately show ?thesis
    using assms(2,3) by (auto simp: chain_layout_nth min_def fresh_module_def)
qed

lemma pk_offset_sum:
  assumes "j \<le> length (pk_module_info g)"
  shows "pk_offset g j = (\<Sum>i<j. pk_module_size (pk_module_info g ! i))"
  using assms by (simp add: pk_offset_def sum_list_sum_nth atLeast0LessThan)

lemma fresh_dl_inv:
  assumes "packed g fl" "0 \<le> addr" "addr + int (length fl) \<le> int (length (ram s))"
    and "g_dc_blocksize s = PK_BLOCK_SIZE" "length (g_dc_module s) = 128"
    and "\<forall>j<pk_module_num g. fresh_module PK_BLOCK_SIZE (addr + int (pk_offset g j)) (pk_module_id (pk_module_info g ! j))
       (pk_module_size (pk_module_info g ! j)) (g_dc_module s ! j)"
  shows "dl_inv (carousel_plan g fl addr) {} s"
    "\<And>j. j < pk_module_num g \<Longrightarrow> block_num (g_dc_module s ! j) = pl_blocks (carousel_plan g fl addr) j"
proof -
  let ?P = "carousel_plan g fl addr"
  note ok = carousel_plan_ok [OF assms(1,2)]
  have n: "pk_module_num g \<le> 128"
    using assms(1) by (simp add: packed_def dir_ok_def)
  have j: "module_id (g_dc_module s ! j) = pl_mid ?P j \<and> module_buf_pointer (g_dc_module s ! j) = pl_ptr ?P j \<and>
      block_num (g_dc_module s ! j) = pl_blocks ?P j \<and>
      ddb_inv (1, pl_bs ?P, pl_img ?P j, g_dc_module s ! j, ram s) \<and>
      (\<forall>b<pl_blocks ?P j. \<not> got (block_received (g_dc_module s ! j)) b)" if j: "j < pk_module_num g" for j
  proof -
    note pm = packed_module [OF assms(1) j]
    have f: "fresh_module PK_BLOCK_SIZE (addr + int (pk_offset g j)) (pk_module_id (pk_module_info g ! j))
        (length (pl_img ?P j)) (g_dc_module s ! j)"
      unfolding pm(5) using assms(6) j by blast
    have "pk_module_id (pk_module_info g ! j) < 65536" "0 < length (pl_img ?P j)"
      "length (pl_img ?P j) \<le> 1024 * PK_BLOCK_SIZE" "length (pl_img ?P j) < 2 ^ 32"
      unfolding pm(5) using dir_ok_entry [of g j] assms(1) j pm(3) by (simp_all add: packed_def)
    moreover have "0 \<le> addr + int (pk_offset g j)" "addr + int (pk_offset g j) + int (length (pl_img ?P j)) \<le> int (length (ram s))"
      unfolding pm(5) using assms(2,3) pm(2) by linarith+
    ultimately have "ddb_inv (1, PK_BLOCK_SIZE, pl_img ?P j, g_dc_module s ! j, ram s)"
      "\<forall>b<block_num (g_dc_module s ! j). \<not> got (block_received (g_dc_module s ! j)) b"
      using fresh_module_inv(1) [OF f, of "ram s" 1] fresh_module_inv(2) [OF f, of "ram s"] by (simp_all add: PK_BLOCK_SIZE_def)
    then show ?thesis
      using f by (simp add: fresh_module_def pl_blocks_def)
  qed
  then show "\<And>j. j < pk_module_num g \<Longrightarrow> block_num (g_dc_module s ! j) = pl_blocks ?P j"
    by blast
  show "dl_inv ?P {} s"
    unfolding dl_inv_def using ok n assms(4,5) j by auto
qed

lemma card_pl_all: "card (pl_all P) = (\<Sum>j\<in>pl_range P. pl_blocks P j)"
  by (simp add: pl_all_def pl_range_def)

lemma modules_cover:
  assumes "packed g fl" "0 \<le> addr"
    and "\<And>j. j < pk_module_num g \<Longrightarrow> take (length (pl_img (carousel_plan g fl addr) j))
      (drop (nat (pl_ptr (carousel_plan g fl addr) j)) mem) = pl_img (carousel_plan g fl addr) j"
  shows "take (length fl) (drop (nat addr) mem) = fl"
proof -
  have "take (pk_offset g k) (drop (nat addr) mem) = take (pk_offset g k) fl" if "k \<le> pk_module_num g" for k
    using that
  proof (induction k)
    case (Suc k)
    then have k: "k < pk_module_num g"
      by simp
    note pm = packed_module [OF assms(1) k]
    have "take (pk_module_size (pk_module_info g ! k)) (drop (pk_offset g k) (drop (nat addr) mem)) =
        take (pk_module_size (pk_module_info g ! k)) (drop (pk_offset g k) fl)"
      using assms(3) [OF k] assms(2) unfolding pm(5) by (simp add: carousel_plan_def nat_add_distrib add.commute)
    then show ?case
      using Suc.IH k unfolding pk_offset_Suc [OF pm(1)] take_add by simp
  qed (simp add: pk_offset_def)
  from this [of "pk_module_num g"] show ?thesis
    using assms(1) by (simp add: packed_def)
qed

lemma v3_collect_all:
  assumes "packed g fl" "0 \<le> addr" "dl_inv (carousel_plan g fl addr) {} s" "g_dc_module_num s = pk_module_num g"
    and "\<And>j. j < pk_module_num g \<Longrightarrow> block_num (g_dc_module s ! j) = pl_blocks (carousel_plan g fl addr) j"
    and "4096 \<le> length (g_ota_section_buf s)" "g_ota_size s \<le> g_ota_ram1_len s"
    and "set secs = set (group_sections (group_modules g) fl)"
  obtains s' where "v3_ota_cmd_start_download (dmx_delivers secs) junk pid s = Some (OTA_SUCCESS, s')"
    "take (length fl) (drop (nat addr) (ram s')) = fl" "length (ram s') = length (ram s)"
    "\<forall>a<length (ram s). pl_outside (carousel_plan g fl addr) a \<longrightarrow> ram s' ! a = ram s ! a"
    "received_section_num s' = total_block_num s'"
proof -
  let ?P = "carousel_plan g fl addr"
  have n: "0 < pk_module_num g" "pk_module_num g \<le> 128"
    using assms(1) by (simp_all add: packed_def dir_ok_def)
  have len: "pk_module_num g \<le> length (g_dc_module s)"
    using assms(3) by (simp add: dl_inv_def)
  define s1 where "s1 = s\<lparr>progress_shown := progress_shown s @ [0], received_section_num := 0,
    total_block_num := sum_list (map block_num (take (pk_module_num g) (g_dc_module s)))\<rparr>"
  define rq where "rq = \<lparr>sec_pid = pid, sec_tbl_len = 0, wai_flg_dly = 600000, mask_value = sec_restrict DDB_NUM s1,
    get_sec_cb = True, continue_get_sec = 1, continue_mutex_locked = False, p_mdl_range = None\<rparr>"
  have tot: "total_block_num s1 = card (pl_all ?P)"
    using len assms(5) by (simp add: s1_def card_pl_all sum_list_sum_nth atLeast0LessThan)
  have "pl_all ?P \<noteq> {}"
    using n plan_blocks(1) [OF carousel_plan_ok [OF assms(1,2)], of 0] by (auto simp: pl_all_def)
  then have inv: "v3_inv ?P {} rq s1"
    using assms(3,4,6) tot by (auto simp: v3_inv_def dl_inv_def s1_def rq_def)
  obtain jbs where jbs: "secs = map (pl_section ?P) jbs" "set jbs = carousel_blocks g"
    by (rule carousel_stream [OF assms(1,2,8)])
  note cov = carousel_blocks_cover [OF assms(1,2)]
  obtain rq' s' where r: "deliver_sections (v3_ddb_section junk) secs rq s1 = Some (rq', s')"
    "v3_inv ?P ({} \<union> set jbs \<inter> pl_all ?P) rq' s'" "length (ram s') = length (ram s1)"
    "\<forall>a<length (ram s1). pl_outside ?P a \<longrightarrow> ram s' ! a = ram s1 ! a"
    using v3_stream [OF inv, of jbs junk] jbs cov by auto
  have D: "{} \<union> set jbs \<inter> pl_all ?P = pl_all ?P"
    using jbs(2) cov(1) by auto
  then have fin: "dl_inv ?P (pl_all ?P) s'" "received_section_num s' = total_block_num s'"
    using r(2) by (simp_all add: v3_inv_def)
  have fl: "take (length fl) (drop (nat addr) (ram s')) = fl"
    using dl_inv_complete [OF fin(1)] by (intro modules_cover [OF assms(1,2)]) simp
  let ?s = "s'\<lparr>progress_shown := progress_shown s' @ [100]\<rparr>"
  have "v3_ota_cmd_start_download (dmx_delivers secs) junk pid s = Some (OTA_SUCCESS, ?s)"
    using r(1) assms(4,7) len unfolding v3_ota_cmd_start_download_def rq_def s1_def
    by (simp add: v3_si_private_sec_parsing_start_def v3_dmx_req_section_def dmx_delivers_def Let_def OTA_SUCCESS_def)
  then show ?thesis
    using fl r(3,4) fin(2) by (intro that [of ?s]) (simp_all add: s1_def)
qed

text \<open>
  (C4) From the pack tool to the receiver: the three commands of a version 3 download, run on
  the sections that the pack tool generates for an upgrade file of up to 128 modules, leave
  exactly the file in the download memory. The data sections may arrive in any order and
  any number of times, as long as each arrives; nothing outside the file's place changes.
\<close>

theorem v3_carousel_download:
  assumes "gen_group_info cur (length fl) g0 = Some (Inr g)" and "pk_module_num g \<le> 128" and "group_ok g" and "fits s g"
    and "length (g_dc_module s) = 128" and "length (g_ota_section_buf s) = 5000"
    and "0 \<le> addr" and "length fl \<le> len" and "addr + int len \<le> int (length (ram s))"
    and "set secs = set (group_sections (group_modules g) fl)"
  shows "\<exists>info s1 s2 s3.
    v3_ota_cmd_get_download_info (dmx_delivers [put_dsi_section [g]]) (dmx_delivers [put_dii_section g]) junk pid s =
      Some (OTA_SUCCESS, Some info, s1) \<and> dl_sw_size info = length fl \<and>
    v3_alislupg_ota_mem_config addr len s1 = Some (OTA_SUCCESS, s2) \<and>
    v3_ota_cmd_start_download (dmx_delivers secs) junk pid s2 = Some (OTA_SUCCESS, s3) \<and>
    take (length fl) (drop (nat addr) (ram s3)) = fl \<and> received_section_num s3 = total_block_num s3 \<and>
    (\<forall>a<length (ram s). a < nat addr \<or> nat addr + length fl \<le> a \<longrightarrow> ram s3 ! a = ram s ! a)"
proof -
  let ?n = "pk_module_num g" and ?P = "carousel_plan g fl addr"
  have pk: "packed g fl"
    by (rule gen_group_packed [OF assms(1,2)])
  have "4096 \<le> length (g_ota_section_buf s)"
    using assms(6) by simp
  then obtain info s1 where i:
    "v3_ota_cmd_get_download_info (dmx_delivers [put_dsi_section [g]]) (dmx_delivers [put_dii_section g]) junk pid s =
       Some (OTA_SUCCESS, Some info, s1)" "dl_sw_size info = length fl"
    and s1: "g_ota_size s1 = length fl" "g_dc_module_num s1 = ?n" "g_dc_blocksize s1 = PK_BLOCK_SIZE"
    "length (g_dc_module s1) = 128" "length (g_ota_section_buf s1) = length (g_ota_section_buf s)" "ram s1 = ram s"
    "\<forall>j<?n. \<exists>p. fresh_module PK_BLOCK_SIZE p (pk_module_id (pk_module_info g ! j))
       (pk_module_size (pk_module_info g ! j)) (g_dc_module s1 ! j)"
    by (rule v3_download_info [OF pk assms(3-5)])
  define s2 where "s2 = s1\<lparr>g_ota_ram1_addr := addr, g_ota_ram1_len := len,
    g_dc_module := chain_layout addr (take ?n (g_dc_module s1)) @ drop ?n (g_dc_module s1)\<rparr>"
  have mc: "v3_alislupg_ota_mem_config addr len s1 = Some (OTA_SUCCESS, s2)"
    using s1(2,4) assms(2) by (simp add: v3_alislupg_ota_mem_config_def s2_def Let_def)
  have "\<forall>j<?n. fresh_module PK_BLOCK_SIZE (addr + int (pk_offset g j)) (pk_module_id (pk_module_info g ! j))
       (pk_module_size (pk_module_info g ! j)) (g_dc_module s2 ! j)"
    using chain_layout_fresh [OF s1(7), of _ addr] pk_offset_sum [of _ g] packed_module(1) [OF pk] s1(4) assms(2)
    by (simp add: s2_def nth_append less_imp_le)
  then have inv: "dl_inv ?P {} s2" "\<And>j. j < ?n \<Longrightarrow> block_num (g_dc_module s2 ! j) = pl_blocks ?P j"
    using fresh_dl_inv [OF pk assms(7), of s2] s1(3,4,6) assms(2,8,9) by (auto simp: s2_def)
  obtain s3 where r: "v3_ota_cmd_start_download (dmx_delivers secs) junk pid s2 = Some (OTA_SUCCESS, s3)"
    "take (length fl) (drop (nat addr) (ram s3)) = fl" "length (ram s3) = length (ram s2)"
    "\<forall>a<length (ram s2). pl_outside ?P a \<longrightarrow> ram s3 ! a = ram s2 ! a" "received_section_num s3 = total_block_num s3"
    by (rule v3_collect_all [OF pk assms(7) inv(1) _ inv(2) _ _ assms(10), of junk pid])
      (use s1 assms(6,8) in \<open>simp_all add: s2_def\<close>)
  have "pl_outside ?P a" if a: "a < nat addr \<or> nat addr + length fl \<le> a" for a
    unfolding pl_outside_def
  proof
    fix i
    assume "i \<in> pl_range ?P"
    then have i: "i < ?n"
      by simp
    have "a < nat (addr + int (pk_offset g i)) \<or>
        nat (addr + int (pk_offset g i)) + pk_module_size (pk_module_info g ! i) \<le> a"
      using a packed_module(2) [OF pk i] assms(7) by linarith
    then show "a < nat (pl_ptr ?P i) \<or> nat (pl_ptr ?P i) + length (pl_img ?P i) \<le> a"
      unfolding packed_module(5) [OF pk i] carousel_plan_sel .
  qed
  then show ?thesis
    using i mc r s1(6) by (intro exI [of _ info] exI [of _ s1] exI [of _ s2] exI [of _ s3]) (simp add: s2_def)
qed

theorem v3_carousel_download_witness:
  "\<exists>g info s1 s2 s3. gen_group_info 0 3 (the_group 3) = Some (Inr g) \<and>
     v3_ota_cmd_get_download_info (dmx_delivers [put_dsi_section [g]]) (dmx_delivers [put_dii_section g]) 0 256
       ((demo_ota (replicate 128 0))\<lparr>g_ota_section_buf := replicate 5000 0, ram := replicate 10 0\<rparr>) =
       Some (OTA_SUCCESS, Some info, s1) \<and>
     v3_alislupg_ota_mem_config 2 8 s1 = Some (OTA_SUCCESS, s2) \<and>
     v3_ota_cmd_start_download (dmx_delivers (rev (group_sections (group_modules g) [7, 8, 9]))) 0 256 s2 =
       Some (OTA_SUCCESS, s3) \<and> take 3 (drop 2 (ram s3)) = [7, 8, 9]"
proof -
  let ?s = "(demo_ota (replicate 128 0))\<lparr>g_ota_section_buf := replicate 5000 0, ram := replicate 10 0\<rparr>"
  let ?fl = "[7, 8, 9] :: u8 list"
  have "\<exists>g. gen_group_info 0 (length ?fl) (the_group 3) = Some (Inr g) \<and> pk_module_num g = 1"
    by (simp add: gen_group_info_def Let_def MAX_SIZE_PER_MODULE_def MAX_MODULE_IN_GROUP_def)
  then obtain g where g: "gen_group_info 0 (length ?fl) (the_group 3) = Some (Inr g)" "pk_module_num g \<le> 128"
    by auto
  note f = gen_group_packed [OF g]
  have ok: "group_ok g" "fits ?s g"
    unfolding group_ok_def fits_def f(2-8) by (simp_all add: the_group_def demo_ota_def)
  have sz: "length (g_dc_module ?s) = 128" "length (g_ota_section_buf ?s) = 5000" "(0 :: int) \<le> 2"
    "length ?fl \<le> 8" "2 + int 8 \<le> int (length (ram ?s))"
    by (simp_all add: demo_ota_def)
  have l3: "length ?fl = 3"
    by simp
  from v3_carousel_download [OF g ok sz set_rev, of 0 256] g(1) show ?thesis
    unfolding l3 nat_numeral by blast
qed

end
