(* ===== verification/Sysinfo.thy ===== *)
theory Sysinfo
  imports Storage_Ctl
begin

section \<open>System information in the flash (\<open>alislsysinfo.c\<close>, \<open>alislsysinfoparser.c\<close>)\<close>

text \<open>
  The library keeps small records (the MAC address, the upgrade status, an extension) at
  places of the NAND flash that the page map index names. Every public call opens the flash,
  reads the index into two static tables (\<open>sysinfo_parse\<close>), moves one record with a locked
  transfer and closes the flash again. The state of the model is the two tables and the state
  of the storage library of theory \<open>Storage_Ctl\<close>.

  Shown here: a call returns the position of a flash that is already open, and its open count,
  as they were (which is what the calls during an upgrade rely on), and what a record holds
  after it was written: the written bytes when the place was erased before, and the bits that were
  set before and are set in the new record otherwise.
\<close>

definition SYSINFO_ERR_NONE :: retcode where [retcode_defs]: "SYSINFO_ERR_NONE = 0"
definition SYSINFO_ERR_NULLBUF :: retcode where [retcode_defs]: "SYSINFO_ERR_NULLBUF = 2"
definition SYSINFO_ERR_CANTOPENDEV :: retcode where [retcode_defs]: "SYSINFO_ERR_CANTOPENDEV = 4"
definition STO_DEFAULT_OFFSET :: int where "STO_DEFAULT_OFFSET = 0xFFFFFFFF"

text \<open>The numbers of the records.\<close>

definition SYSINFO_MAC :: nat where "SYSINFO_MAC = 0"
definition SYSINFO_SHAREMTD :: nat where "SYSINFO_SHAREMTD = 64"
definition SYSINFO_UPGINFO :: nat where "SYSINFO_UPGINFO = 65"
definition SYSINFO_EXTINFO :: nat where "SYSINFO_EXTINFO = 66"
definition SYSINFO_UBOOTENV :: nat where "SYSINFO_UBOOTENV = 67"

subsection \<open>The tables\<close>

record sysinfo_map =
  map_idx :: nat
  map_size :: nat
  map_offset :: int
  map_blockmono :: bool
  map_blockaligned :: bool
  map_name :: string

definition map_row :: "nat \<Rightarrow> nat \<Rightarrow> string \<Rightarrow> sysinfo_map" where
  "map_row i n name = \<lparr>map_idx = i, map_size = n, map_offset = STO_DEFAULT_OFFSET, map_blockmono = True,
     map_blockaligned = True, map_name = name\<rparr>"

definition sysinfo_ro_map :: "sysinfo_map list" where
  "sysinfo_ro_map = [map_row 0 0x6 ''MAC'', map_row 1 0x120 ''HDCPKEY'', map_row 2 0x10 ''AESKEY'', map_row 3 0 ''BOOTLOGO'',
     map_row 4 0 ''LOADER'', map_row 5 0 ''UBOOT'', map_row 6 0 ''UBOOTBK'']"

definition sysinfo_rw_map :: "sysinfo_map list" where
  "sysinfo_rw_map = [map_row SYSINFO_UPGINFO 0x200 ''UPG INFO'', map_row SYSINFO_EXTINFO 0 ''EXT INFO'',
     map_row SYSINFO_UBOOTENV 0 ''UBOOT ENV'']"

record 'k sysinfo =
  si_ro :: "sysinfo_map list"
  si_rw :: "sysinfo_map list"
  si_lib :: "'k sto_lib"

definition put_offset :: "nat \<Rightarrow> int \<Rightarrow> sysinfo_map list \<Rightarrow> sysinfo_map list" where
  "put_offset i off m = m[i := (m ! i)\<lparr>map_offset := off\<rparr>]"

definition put_size :: "nat \<Rightarrow> nat \<Rightarrow> sysinfo_map list \<Rightarrow> sysinfo_map list" where
  "put_size i n m = m[i := (m ! i)\<lparr>map_size := n\<rparr>]"

text \<open>
  The assignments of \<open>sysinfo_parse\<close> to the two tables, in the order of the source. The key space of
  the AES key starts 8 KiB behind the HDCP key; the address of the boot loader is in units of
  the ECC size.
\<close>

definition ro_offsets :: "u8 list \<Rightarrow> sysinfo_map list \<Rightarrow> sysinfo_map list" where
  "ro_offsets buf m0 =
     (let shift = (if le32 buf 28 = 1024 then 10 else 9);
          m = put_offset 0 (le32 buf 160) m0;
          m = put_offset 1 (le32 buf 164) m;
          m = put_offset 2 (map_offset (m ! 1) + 8 * 1024) m;
          m = put_offset 3 (le32 buf 172) m;
          m = put_offset 4 (to_uint32 (le32 buf 100 * 2 ^ shift)) m;
          m = put_offset 5 (le32 buf 192) m;
          m = put_size 5 (nat (le32 buf 196)) m;
          m = put_offset 6 (le32 buf 200) m
      in put_size 6 (nat (le32 buf 204)) m)"

definition rw_offsets :: "u8 list \<Rightarrow> int \<Rightarrow> sysinfo_map list \<Rightarrow> sysinfo_map list" where
  "rw_offsets buf erasesize m0 =
     (let m = put_offset 0 (le32 buf 184) m0;
          m = put_offset 1 (to_uint32 (le32 buf 184 + erasesize)) m
      in put_offset 2 (le32 buf 188) m)"

text \<open>\<open>alislsto_get_pmi\<close> on the device behind a handle, with a fresh buffer.\<close>

definition lib_get_pmi :: "'k sto_env \<Rightarrow> nat option \<Rightarrow> 'k sto_lib \<Rightarrow> ((retcode \<times> pmi_info) option \<times> 'k sto_lib) option" where
  "lib_get_pmi e = on_handle e (\<lambda>drv dev k. do {
     (ret, dev, k, p) \<leftarrow> alislsto_get_pmi drv dev k
        (Some \<lparr>pmi_buf = replicate STO_HEADER_SIZE 0, pmi_offset = 0, pmi_length = STO_HEADER_SIZE\<rparr>);
     p \<leftarrow> p;
     Some ((ret, p), dev, k) })"

definition sysinfo_parse :: "'k sto_env \<Rightarrow> bool \<Rightarrow> nat option \<Rightarrow> 'k sysinfo \<Rightarrow> (retcode \<times> 'k sysinfo) option" where
  "sysinfo_parse e malloc_ok priv st =
     (if \<not> malloc_ok then Some (SYSINFO_ERR_NULLBUF, st)
      else do {
        (r, lib) \<leftarrow> lib_get_pmi e priv (si_lib st);
        let st = st\<lparr>si_lib := lib\<rparr>;
        case r of
          None \<Rightarrow> Some (STO_ERR_INVALIDHANDLE, st)
        | Some (ret, p) \<Rightarrow>
            let buf = pmi_buf p
            in if ret \<noteq> STO_ERR_NONE then Some (ret, st)
            else if length buf < STO_HEADER_SIZE \<or> length (si_ro st) < 7 \<or> length (si_rw st) < 3 then None
            else do {
              let st = st\<lparr>si_ro := ro_offsets buf (si_ro st)\<rparr>;
              h \<leftarrow> priv;
              dev \<leftarrow> devs lib h;
              let (r, stoparam) = alislsto_get_param (Some dev) True;
              (ty, inf, maxpart) \<leftarrow> stoparam;
              info \<leftarrow> deref inf;
              Some (SYSINFO_ERR_NONE, st\<lparr>si_rw := rw_offsets buf (info_erasesize info) (si_rw st)\<rparr>) } })"

definition sysinfo_getmap :: "nat \<Rightarrow> 'k sysinfo \<Rightarrow> sysinfo_map list" where
  "sysinfo_getmap idx st = (if idx < SYSINFO_SHAREMTD then si_ro st else si_rw st)"

definition sysinfo_getidxbase :: "nat \<Rightarrow> int" where
  "sysinfo_getidxbase idx = (if idx < SYSINFO_SHAREMTD then 0 else int SYSINFO_SHAREMTD + 1)"

text \<open>An index outside the table is undefined.\<close>

definition sysinfo_setsize :: "nat \<Rightarrow> nat \<Rightarrow> 'k sysinfo \<Rightarrow> 'k sysinfo option" where
  "sysinfo_setsize idx n st =
     (if idx < SYSINFO_SHAREMTD then
        if idx < length (si_ro st) then Some (st\<lparr>si_ro := put_size idx n (si_ro st)\<rparr>) else None
      else if SYSINFO_SHAREMTD < idx \<and> idx - SYSINFO_SHAREMTD - 1 < length (si_rw st)
      then Some (st\<lparr>si_rw := put_size (idx - SYSINFO_SHAREMTD - 1) n (si_rw st)\<rparr>) else None)"

subsection \<open>The descriptor\<close>

record sysinfo_desc =
  sd_idx :: nat
  sd_start :: int
  sd_size :: nat
  sd_buf :: "u8 list option"
  sd_priv :: "nat option"

definition zero_sysinfo_desc :: sysinfo_desc where
  "zero_sysinfo_desc = \<lparr>sd_idx = 0, sd_start = 0, sd_size = 0, sd_buf = None, sd_priv = None\<rparr>"

text \<open>The parameters of the transfers: an offset in the private area, with the position restored.\<close>

definition private_para :: "nat \<Rightarrow> int \<Rightarrow> alislsto_rw_param" where
  "private_para n off = \<lparr>rw_size = n, rw_offset = off, rw_whenence = -1, rw_idx = int STO_PRIVATE, rw_flag = True\<rparr>"

text \<open>
  The locked transfers on the device behind a handle, with an actual size of 0 before. A
  null handle is refused and nothing is stored.
\<close>

definition lib_lock_read :: "'k sto_env \<Rightarrow> alislsto_rw_param \<Rightarrow> u8 list option \<Rightarrow> nat option \<Rightarrow> 'k sto_lib
    \<Rightarrow> ((retcode \<times> int \<times> u8 list option) \<times> 'k sto_lib) option" where
  "lib_lock_read e para buf handle s = do {
     (r, s) \<leftarrow> on_handle e (\<lambda>drv dev k. do {
        (err, act, buf, dev, k) \<leftarrow> alislsto_lock_read drv para dev k buf (Some 0);
        Some ((err, case act of None \<Rightarrow> 0 | Some n \<Rightarrow> n, buf), dev, k) }) handle s;
     Some (case r of None \<Rightarrow> (STO_ERR_INVALIDHANDLE, 0, buf) | Some x \<Rightarrow> x, s) }"

definition lib_lock_write :: "'k sto_env \<Rightarrow> alislsto_rw_param \<Rightarrow> u8 list option \<Rightarrow> nat option \<Rightarrow> 'k sto_lib
    \<Rightarrow> ((retcode \<times> int) \<times> 'k sto_lib) option" where
  "lib_lock_write e para buf handle s = do {
     (r, s) \<leftarrow> on_handle e (\<lambda>drv dev k. do {
        (err, act, dev, k) \<leftarrow> alislsto_lock_write drv para dev k buf (Some 0);
        Some ((err, case act of None \<Rightarrow> 0 | Some n \<Rightarrow> n), dev, k) }) handle s;
     Some (case r of None \<Rightarrow> (STO_ERR_INVALIDHANDLE, 0) | Some x \<Rightarrow> x, s) }"

text \<open>
  A failing seek into the private area closes the flash but is not reported: the descriptor
  then has no device. The result of the parser is not looked at.
\<close>

definition alislsysinfo_construct :: "'k sto_env \<Rightarrow> bool \<Rightarrow> storage_map list \<Rightarrow> nat \<Rightarrow> u8 list option \<Rightarrow> sysinfo_desc \<Rightarrow> 'k sysinfo
    \<Rightarrow> (retcode \<times> sysinfo_desc \<times> 'k sysinfo) option" where
  "alislsysinfo_construct e malloc_ok layout idx buf desc st = do {
     let desc = desc\<lparr>sd_idx := idx, sd_buf := buf\<rparr>;
     (r, dev, lib) \<leftarrow> alislsto_open e True STO_TYPE_NAND O_RDWR layout (si_lib st);
     let st = st\<lparr>si_lib := lib\<rparr>;
     if r \<noteq> STO_ERR_NONE then Some (SYSINFO_ERR_CANTOPENDEV, desc, st)
     else do {
       ((sto_err, actual_size, buf), lib) \<leftarrow> lib_lock_read e (private_para 0 0) (sd_buf desc) dev (si_lib st);
       let desc = desc\<lparr>sd_buf := buf\<rparr>;
       let st = st\<lparr>si_lib := lib\<rparr>;
       if sto_err \<noteq> STO_ERR_NONE then do {
         (r, lib) \<leftarrow> alislsto_close dev (si_lib st);
         Some (SYSINFO_ERR_NONE, desc, st\<lparr>si_lib := lib\<rparr>) }
       else do {
         (r, st) \<leftarrow> sysinfo_parse e malloc_ok dev st;
         Some (SYSINFO_ERR_NONE, desc\<lparr>sd_priv := dev\<rparr>, st) } } }"

definition alislsysinfo_destruct :: "sysinfo_desc \<Rightarrow> 'k sysinfo \<Rightarrow> (retcode \<times> sysinfo_desc \<times> 'k sysinfo) option" where
  "alislsysinfo_destruct desc st = do {
     (r, lib) \<leftarrow> alislsto_close (sd_priv desc) (si_lib st);
     Some (SYSINFO_ERR_NONE, desc\<lparr>sd_priv := None, sd_buf := None\<rparr>, st\<lparr>si_lib := lib\<rparr>) }"

text \<open>The row of a descriptor's record; an index outside the table is undefined.\<close>

definition desc_row :: "sysinfo_desc \<Rightarrow> 'k sysinfo \<Rightarrow> sysinfo_map option" where
  "desc_row desc st =
     (let m = sysinfo_getmap (sd_idx desc) st; idx = int (sd_idx desc) - sysinfo_getidxbase (sd_idx desc)
      in if 0 \<le> idx \<and> nat idx < length m then Some (m ! nat idx) else None)"

definition alislsysinfo_read :: "'k sto_env \<Rightarrow> sysinfo_desc \<Rightarrow> 'k sysinfo \<Rightarrow> (int \<times> sysinfo_desc \<times> 'k sysinfo) option" where
  "alislsysinfo_read e desc st =
     (if sd_buf desc = None then Some (to_uint32 (- EINVAL), desc, st)
      else do {
        row \<leftarrow> desc_row desc st;
        let desc = desc\<lparr>sd_size := 0\<rparr>;
        if map_size row = 0 then Some (0, desc, st)
        else do {
          ((err, n, buf), lib) \<leftarrow> lib_lock_read e (private_para (map_size row) (map_offset row)) (sd_buf desc) (sd_priv desc) (si_lib st);
          let desc = desc\<lparr>sd_buf := buf\<rparr>;
          let st = st\<lparr>si_lib := lib\<rparr>;
          if err \<noteq> STO_ERR_NONE \<or> int (map_size row) \<noteq> n then Some (to_uint32 (- EINVAL), desc, st)
          else Some (n, desc\<lparr>sd_size := nat n\<rparr>, st) } })"

definition alislsysinfo_write :: "'k sto_env \<Rightarrow> sysinfo_desc \<Rightarrow> 'k sysinfo \<Rightarrow> (int \<times> sysinfo_desc \<times> 'k sysinfo) option" where
  "alislsysinfo_write e desc st =
     (if sd_buf desc = None then Some (to_uint32 (- EINVAL), desc, st)
      else do {
        row \<leftarrow> desc_row desc st;
        if map_size row = 0 then Some (0, desc, st)
        else do {
          ((err, n), lib) \<leftarrow> lib_lock_write e (private_para (map_size row) (map_offset row)) (sd_buf desc) (sd_priv desc) (si_lib st);
          let st = st\<lparr>si_lib := lib\<rparr>;
          if err \<noteq> STO_ERR_NONE \<or> int (map_size row) \<noteq> n then Some (to_uint32 (- EINVAL), desc, st)
          else Some (0, desc\<lparr>sd_size := nat n\<rparr>, st) } })"

subsection \<open>The public calls\<close>

text \<open>
  The result of a read is the returned size, the caller's buffer and the state. A null buffer is
  answered with the number of the error, in the place of a size.
\<close>

definition alislsysinfo_mac_read :: "'k sto_env \<Rightarrow> bool \<Rightarrow> storage_map list \<Rightarrow> u8 list option \<Rightarrow> 'k sysinfo \<Rightarrow> (nat \<times> u8 list option \<times> 'k sysinfo) option" where
  "alislsysinfo_mac_read e malloc_ok layout buf st =
     (if buf = None then Some (nat SYSINFO_ERR_NULLBUF, buf, st)
      else do {
        (r, desc, st) \<leftarrow> alislsysinfo_construct e malloc_ok layout SYSINFO_MAC buf zero_sysinfo_desc st;
        (r, desc, st) \<leftarrow> alislsysinfo_read e desc st;
        let buf = sd_buf desc;
        (r, desc, st) \<leftarrow> alislsysinfo_destruct desc st;
        Some (sd_size desc, buf, st) })"

definition alislsysinfo_mac_write :: "'k sto_env \<Rightarrow> bool \<Rightarrow> storage_map list \<Rightarrow> u8 list option \<Rightarrow> 'k sysinfo \<Rightarrow> (nat \<times> 'k sysinfo) option" where
  "alislsysinfo_mac_write e malloc_ok layout buf st =
     (if buf = None then Some (nat SYSINFO_ERR_NULLBUF, st)
      else do {
        (r, desc, st) \<leftarrow> alislsysinfo_construct e malloc_ok layout SYSINFO_MAC buf zero_sysinfo_desc st;
        (r, desc, st) \<leftarrow> alislsysinfo_write e desc st;
        (r, desc, st) \<leftarrow> alislsysinfo_destruct desc st;
        Some (sd_size desc, st) })"

definition alislsysinfo_upginfo_read :: "'k sto_env \<Rightarrow> bool \<Rightarrow> storage_map list \<Rightarrow> u8 list option \<Rightarrow> nat \<Rightarrow> 'k sysinfo \<Rightarrow> (nat \<times> u8 list option \<times> 'k sysinfo) option" where
  "alislsysinfo_upginfo_read e malloc_ok layout buf sz st =
     (if buf = None then Some (nat SYSINFO_ERR_NULLBUF, buf, st)
      else do {
        (r, desc, st) \<leftarrow> alislsysinfo_construct e malloc_ok layout SYSINFO_UPGINFO buf zero_sysinfo_desc st;
        st \<leftarrow> sysinfo_setsize (sd_idx desc) sz st;
        (r, desc, st) \<leftarrow> alislsysinfo_read e desc st;
        let buf = sd_buf desc;
        (r, desc, st) \<leftarrow> alislsysinfo_destruct desc st;
        Some (sd_size desc, buf, st) })"

definition alislsysinfo_upginfo_write :: "'k sto_env \<Rightarrow> bool \<Rightarrow> storage_map list \<Rightarrow> u8 list option \<Rightarrow> nat \<Rightarrow> 'k sysinfo \<Rightarrow> (nat \<times> 'k sysinfo) option" where
  "alislsysinfo_upginfo_write e malloc_ok layout buf sz st =
     (if buf = None then Some (nat SYSINFO_ERR_NULLBUF, st)
      else do {
        (r, desc, st) \<leftarrow> alislsysinfo_construct e malloc_ok layout SYSINFO_UPGINFO buf zero_sysinfo_desc st;
        st \<leftarrow> sysinfo_setsize (sd_idx desc) sz st;
        (r, desc, st) \<leftarrow> alislsysinfo_write e desc st;
        (r, desc, st) \<leftarrow> alislsysinfo_destruct desc st;
        Some (sd_size desc, st) })"

definition alislsysinfo_extinfo_read :: "'k sto_env \<Rightarrow> bool \<Rightarrow> storage_map list \<Rightarrow> u8 list option \<Rightarrow> nat \<Rightarrow> 'k sysinfo \<Rightarrow> (nat \<times> u8 list option \<times> 'k sysinfo) option" where
  "alislsysinfo_extinfo_read e malloc_ok layout buf sz st =
     (if buf = None then Some (nat SYSINFO_ERR_NULLBUF, buf, st)
      else do {
        (r, desc, st) \<leftarrow> alislsysinfo_construct e malloc_ok layout SYSINFO_EXTINFO buf zero_sysinfo_desc st;
        st \<leftarrow> sysinfo_setsize (sd_idx desc) sz st;
        (r, desc, st) \<leftarrow> alislsysinfo_read e desc st;
        let buf = sd_buf desc;
        (r, desc, st) \<leftarrow> alislsysinfo_destruct desc st;
        Some (sd_size desc, buf, st) })"

definition alislsysinfo_extinfo_write :: "'k sto_env \<Rightarrow> bool \<Rightarrow> storage_map list \<Rightarrow> u8 list option \<Rightarrow> nat \<Rightarrow> 'k sysinfo \<Rightarrow> (nat \<times> 'k sysinfo) option" where
  "alislsysinfo_extinfo_write e malloc_ok layout buf sz st =
     (if buf = None then Some (nat SYSINFO_ERR_NULLBUF, st)
      else do {
        (r, desc, st) \<leftarrow> alislsysinfo_construct e malloc_ok layout SYSINFO_EXTINFO buf zero_sysinfo_desc st;
        st \<leftarrow> sysinfo_setsize (sd_idx desc) sz st;
        (r, desc, st) \<leftarrow> alislsysinfo_write e desc st;
        (r, desc, st) \<leftarrow> alislsysinfo_destruct desc st;
        Some (sd_size desc, st) })"

subsection \<open>A call leaves an open flash as it was\<close>

text \<open>
  The state of the storage library in the middle of a call, seen from \<open>s\<close>, the state before, with
  the flash open behind \<open>h\<close>: only the margin, the index flag and the open count of its
  descriptor and the state of the driver differ, and the descriptor of the call holds one user.
\<close>

definition in_call :: "nat \<Rightarrow> alislsto_dev \<Rightarrow> 'k sto_lib \<Rightarrow> nat option \<Rightarrow> 'k sto_lib \<Rightarrow> bool" where
  "in_call h dev s priv s' \<longleftrightarrow> (priv = None \<or> priv = Some h) \<and>
     (\<exists>m p k. s' = s\<lparr>devs := (devs s)(h \<mapsto> dev\<lparr>dev_margin := m, dev_pmi := p,
        dev_open_cnt := dev_open_cnt dev + (if priv = None then 0 else 1)\<rparr>), mtd_state := k\<rparr>)"

lemma in_call_cases:
  assumes "in_call h dev s priv s'"
  obtains m p k where "priv = None \<or> priv = Some h"
    "s' = s\<lparr>devs := (devs s)(h \<mapsto> dev\<lparr>dev_margin := m, dev_pmi := p,
        dev_open_cnt := dev_open_cnt dev + (if priv = None then 0 else 1)\<rparr>), mtd_state := k\<rparr>"
  using assms by (auto simp: in_call_def)

lemma in_callI:
  assumes "priv = None \<or> priv = Some h" and "s' = s\<lparr>devs := (devs s)(h \<mapsto> d), mtd_state := k\<rparr>"
    and "d = dev\<lparr>dev_margin := m, dev_pmi := p, dev_open_cnt := dev_open_cnt dev + (if priv = None then 0 else 1)\<rparr>"
  shows "in_call h dev s priv s'"
  unfolding in_call_def using assms by blast

lemma lock_seek_frame:
  assumes "lock_seek para (Some dev) = Some (err, c, h)"
  obtains x m where "h = Some (dev\<lparr>dev_offset := x, dev_margin := m\<rparr>)"
proof -
  have "\<exists>x m. h = Some (dev\<lparr>dev_offset := x, dev_margin := m\<rparr>)"
    using assms
    by (cases dev)
      (auto simp: lock_seek_def alislsto_lseek_def alislsto_lseek_ext_def Let_def bind_eq_Some_conv
        split: if_splits option.splits)
  with that show ?thesis by blast
qed

lemma alislsto_read_frame:
  "alislsto_read drv (Some dev) k buf len = Some (n, buf', h, k') \<Longrightarrow> \<exists>x. h = Some (dev\<lparr>dev_offset := x\<rparr>)"
  by (cases dev) (auto simp: alislsto_read_def bind_eq_Some_conv split: option.splits)

lemma alislsto_write_no_erase_frame:
  "alislsto_write_no_erase drv (Some dev) k buf len = Some (n, h, k') \<Longrightarrow> \<exists>x. h = Some (dev\<lparr>dev_offset := x\<rparr>)"
  by (cases dev) (auto simp: alislsto_write_no_erase_def bind_eq_Some_conv split: option.splits)

lemma lock_read_frame:
  assumes r: "alislsto_lock_read drv para (Some dev) k buf act = Some (err, act', buf', h, k')" and "rw_flag para"
  obtains m where "h = Some (dev\<lparr>dev_margin := m\<rparr>)"
proof (cases buf)
  case None
  with r that [of "dev_margin dev"] show ?thesis by (simp add: alislsto_lock_read_def)
next
  case (Some b)
  with r obtain e c h1 where s: "lock_seek para (Some dev) = Some (e, c, h1)"
    by (auto simp: alislsto_lock_read_def bind_eq_Some_conv)
  then obtain x m where "h1 = Some (dev\<lparr>dev_offset := x, dev_margin := m\<rparr>)"
    by (rule lock_seek_frame)
  with r s Some assms(2) show ?thesis
    by (auto simp: alislsto_lock_read_def alislsto_set_offset_def bind_eq_Some_conv split: if_splits
        dest!: alislsto_read_frame intro: that)
qed

lemma lock_write_frame:
  assumes r: "alislsto_lock_write drv para (Some dev) k buf act = Some (err, act', h, k')" and "rw_flag para"
  obtains m where "h = Some (dev\<lparr>dev_margin := m\<rparr>)"
proof (cases buf)
  case None
  with r that [of "dev_margin dev"] show ?thesis by (simp add: alislsto_lock_write_def)
next
  case (Some b)
  with r obtain e c h1 where s: "lock_seek para (Some dev) = Some (e, c, h1)"
    by (auto simp: alislsto_lock_write_def bind_eq_Some_conv)
  then obtain x m where "h1 = Some (dev\<lparr>dev_offset := x, dev_margin := m\<rparr>)"
    by (rule lock_seek_frame)
  with r s Some assms(2) show ?thesis
    by (auto simp: alislsto_lock_write_def alislsto_set_offset_def bind_eq_Some_conv split: if_splits
        dest!: alislsto_write_no_erase_frame intro: that)
qed

lemma on_handle_in_call:
  assumes "in_call h dev s priv s'" and "on_handle e f priv s' = Some (r, s'')"
    and f: "\<And>drv d k x d' k'. f drv (Some d) k = Some (x, d', k') \<Longrightarrow> \<exists>m p. d' = Some (d\<lparr>dev_margin := m, dev_pmi := p\<rparr>)"
  shows "in_call h dev s priv s''"
  using assms(1)
proof (rule in_call_cases)
  fix m p k
  assume priv: "priv = None \<or> priv = Some h" and s': "s' = s\<lparr>devs := (devs s)(h \<mapsto> dev\<lparr>dev_margin := m, dev_pmi := p,
        dev_open_cnt := dev_open_cnt dev + (if priv = None then 0 else 1)\<rparr>), mtd_state := k\<rparr>"
  show ?thesis
  proof (cases priv)
    case None
    with assms(1,2) show ?thesis by (simp add: on_handle_def)
  next
    case (Some h')
    let ?d = "dev\<lparr>dev_margin := m, dev_pmi := p, dev_open_cnt := dev_open_cnt dev + 1\<rparr>"
    obtain mtd x d' k' where "f (env_drv e mtd) (Some ?d) (k mtd) = Some (x, Some d', k')"
      and s'': "s'' = s'\<lparr>devs := (devs s')(h \<mapsto> d'), mtd_state := k(mtd := k')\<rparr>"
      using Some priv assms(2) by (auto simp: on_handle_def s' bind_eq_Some_conv)
    then obtain m' p' where "d' = ?d\<lparr>dev_margin := m', dev_pmi := p'\<rparr>"
      using f by fastforce
    with s'' Some priv show ?thesis
      by (intro in_callI [where d = d' and k = "k(mtd := k')" and m = m' and p = p']) (auto simp: s')
  qed
qed

lemma get_pmi_in_call:
  assumes "in_call h dev s priv s'" and "lib_get_pmi e priv s' = Some (r, s'')"
  shows "in_call h dev s priv s''"
proof (rule on_handle_in_call [OF assms [unfolded lib_get_pmi_def]])
  fix drv :: "'a mtd_driver" and d k x d' k'
  assume "do { (ret, dev, k, p) \<leftarrow> alislsto_get_pmi drv (Some d) k
        (Some \<lparr>pmi_buf = replicate STO_HEADER_SIZE 0, pmi_offset = 0, pmi_length = STO_HEADER_SIZE\<rparr>);
     p \<leftarrow> p; Some ((ret, p), dev, k) } = Some (x, d', k')"
  then show "\<exists>m p. d' = Some (d\<lparr>dev_margin := m, dev_pmi := p\<rparr>)"
    by (cases d) (auto simp: alislsto_get_pmi_def bind_eq_Some_conv split: if_splits)
qed

lemma private_flag [simp]: "rw_flag (private_para n off)"
  by (simp add: private_para_def)

lemma margin_frame: "d\<lparr>dev_margin := m\<rparr> = d\<lparr>dev_margin := m, dev_pmi := dev_pmi d\<rparr>"
  by simp

lemma lock_read_in_call:
  assumes "in_call h dev s priv s'" and "lib_lock_read e (private_para n off) buf priv s' = Some (r, s'')"
  shows "in_call h dev s priv s''"
proof -
  from assms(2) obtain r' where "on_handle e (\<lambda>drv dev k. do {
        (err, act, buf, dev, k) \<leftarrow> alislsto_lock_read drv (private_para n off) dev k buf (Some 0);
        Some ((err, case act of None \<Rightarrow> 0 | Some n \<Rightarrow> n, buf), dev, k) }) priv s' = Some (r', s'')"
    by (auto simp: lib_lock_read_def bind_eq_Some_conv)
  then show ?thesis
    by (rule on_handle_in_call [OF assms(1)])
      (auto simp: bind_eq_Some_conv elim!: lock_read_frame intro: margin_frame)
qed

lemma lock_write_in_call:
  assumes "in_call h dev s priv s'" and "lib_lock_write e (private_para n off) buf priv s' = Some (r, s'')"
  shows "in_call h dev s priv s''"
proof -
  from assms(2) obtain r' where "on_handle e (\<lambda>drv dev k. do {
        (err, act, dev, k) \<leftarrow> alislsto_lock_write drv (private_para n off) dev k buf (Some 0);
        Some ((err, case act of None \<Rightarrow> 0 | Some n \<Rightarrow> n), dev, k) }) priv s' = Some (r', s'')"
    by (auto simp: lib_lock_write_def bind_eq_Some_conv)
  then show ?thesis
    by (rule on_handle_in_call [OF assms(1)])
      (auto simp: bind_eq_Some_conv elim!: lock_write_frame intro: margin_frame)
qed

lemma sysinfo_parse_in_call:
  assumes "in_call h dev s priv (si_lib st)" and "sysinfo_parse e malloc_ok priv st = Some (r, st')"
  shows "in_call h dev s priv (si_lib st')"
proof (cases malloc_ok)
  case True
  then obtain x lib where g: "lib_get_pmi e priv (si_lib st) = Some (x, lib)"
    using assms(2) by (auto simp: sysinfo_parse_def bind_eq_Some_conv)
  have "si_lib st' = lib"
    using assms(2) True g
    by (cases x)
      (auto simp: sysinfo_parse_def alislsto_get_param_def bind_eq_Some_conv Let_def split: if_splits)
  with get_pmi_in_call [OF assms(1) g] show ?thesis by simp
qed (use assms in \<open>simp add: sysinfo_parse_def\<close>)

lemma close_in_call:
  assumes "in_call h dev s priv s'" and "alislsto_close priv s' = Some (r, s'')"
    and "0 < dev_open_cnt dev" and "dev_open_cnt dev + 1 < 2 ^ 32"
  shows "in_call h dev s None s''"
  using assms(1)
proof (rule in_call_cases)
  fix m p k
  assume priv: "priv = None \<or> priv = Some h" and s': "s' = s\<lparr>devs := (devs s)(h \<mapsto> dev\<lparr>dev_margin := m, dev_pmi := p,
        dev_open_cnt := dev_open_cnt dev + (if priv = None then 0 else 1)\<rparr>), mtd_state := k\<rparr>"
  have "nat ((int (dev_open_cnt dev + 1) - 1) mod 2 ^ 32) = dev_open_cnt dev"
    using assms(4) by simp
  with priv assms(1-3) show ?thesis
    by (elim disjE)
      (auto simp: alislsto_close_def s' bind_eq_Some_conv Let_def intro!: in_callI [where k = k and m = m and p = p])
qed

lemma open_in_call:
  assumes "nand_handle s = Some h" and "devs s h = Some dev" and "dev_open_cnt dev + 1 < 2 ^ 32"
    and "alislsto_open e True STO_TYPE_NAND fl layout s = Some (r, priv, s')"
  shows "r = STO_ERR_NONE \<and> in_call h dev s priv s' \<and> priv = Some h"
  using assms
  by (auto simp: alislsto_open_def intro!: in_callI [where k = "mtd_state s" and m = "dev_margin dev" and p = "dev_pmi dev"])

lemma construct_in_call:
  assumes "nand_handle (si_lib st) = Some h" and "devs (si_lib st) h = Some dev"
    and "0 < dev_open_cnt dev" and "dev_open_cnt dev + 1 < 2 ^ 32"
    and c: "alislsysinfo_construct e malloc_ok layout idx buf zero_sysinfo_desc st = Some (r, desc, st')"
  shows "in_call h dev (si_lib st) (sd_priv desc) (si_lib st')"
proof -
  from c obtain r1 lib1 priv where o: "alislsto_open e True STO_TYPE_NAND O_RDWR layout (si_lib st) = Some (r1, priv, lib1)"
    by (auto simp: alislsysinfo_construct_def bind_eq_Some_conv Let_def)
  note o' = open_in_call [OF assms(1,2,4) o]
  from c o o' obtain err n b lib2 where l: "lib_lock_read e (private_para 0 0) buf priv lib1 = Some ((err, n, b), lib2)"
    by (auto simp: alislsysinfo_construct_def bind_eq_Some_conv Let_def)
  have l': "in_call h dev (si_lib st) priv lib2"
    by (rule lock_read_in_call [OF conjunct1 [OF conjunct2 [OF o']] l])
  show ?thesis
  proof (cases "err = STO_ERR_NONE")
    case True
    with c o o' l obtain r2 where "sysinfo_parse e malloc_ok priv (st\<lparr>si_lib := lib2\<rparr>) = Some (r2, st')" "sd_priv desc = priv"
      by (auto simp: alislsysinfo_construct_def bind_eq_Some_conv Let_def)
    with sysinfo_parse_in_call [of h dev "si_lib st" priv "st\<lparr>si_lib := lib2\<rparr>"] l' show ?thesis by simp
  next
    case False
    with c o o' l obtain r2 lib3 where "alislsto_close priv lib2 = Some (r2, lib3)" "sd_priv desc = None" "si_lib st' = lib3"
      by (auto simp: alislsysinfo_construct_def zero_sysinfo_desc_def bind_eq_Some_conv Let_def)
    with close_in_call [OF l' _ assms(3,4)] show ?thesis by simp
  qed
qed

lemma setsize_lib: "sysinfo_setsize idx n st = Some st' \<Longrightarrow> si_lib st' = si_lib st"
  by (auto simp: sysinfo_setsize_def split: if_splits)

lemma read_in_call:
  assumes "in_call h dev s (sd_priv desc) (si_lib st)" and "alislsysinfo_read e desc st = Some (r, desc', st')"
  shows "in_call h dev s (sd_priv desc') (si_lib st')"
  using assms(2) lock_read_in_call [OF assms(1)] assms(1)
  by (auto simp: alislsysinfo_read_def bind_eq_Some_conv Let_def split: if_splits)

lemma write_in_call:
  assumes "in_call h dev s (sd_priv desc) (si_lib st)" and "alislsysinfo_write e desc st = Some (r, desc', st')"
  shows "in_call h dev s (sd_priv desc') (si_lib st')"
  using assms(2) lock_write_in_call [OF assms(1)] assms(1)
  by (auto simp: alislsysinfo_write_def bind_eq_Some_conv Let_def split: if_splits)

lemma destruct_in_call:
  assumes "in_call h dev s (sd_priv desc) (si_lib st)" and "alislsysinfo_destruct desc st = Some (r, desc', st')"
    and "0 < dev_open_cnt dev" and "dev_open_cnt dev + 1 < 2 ^ 32"
  shows "in_call h dev s None (si_lib st')"
  using assms(2) close_in_call [OF assms(1) _ assms(3,4)]
  by (auto simp: alislsysinfo_destruct_def bind_eq_Some_conv)

text \<open>The public calls as functions of the state alone.\<close>

definition sysinfo_calls :: "'k sto_env \<Rightarrow> bool \<Rightarrow> storage_map list \<Rightarrow> u8 list option \<Rightarrow> nat \<Rightarrow> ('k sysinfo \<Rightarrow> 'k sysinfo option) list" where
  "sysinfo_calls e malloc_ok layout buf sz =
     map (\<lambda>f st. map_option (\<lambda>(r, b, st). st) (f st))
       [alislsysinfo_mac_read e malloc_ok layout buf, alislsysinfo_upginfo_read e malloc_ok layout buf sz,
        alislsysinfo_extinfo_read e malloc_ok layout buf sz] @
     map (\<lambda>f st. map_option snd (f st))
       [alislsysinfo_mac_write e malloc_ok layout buf, alislsysinfo_upginfo_write e malloc_ok layout buf sz,
        alislsysinfo_extinfo_write e malloc_ok layout buf sz]"

lemmas call_defs = alislsysinfo_mac_read_def alislsysinfo_upginfo_read_def alislsysinfo_extinfo_read_def
  alislsysinfo_mac_write_def alislsysinfo_upginfo_write_def alislsysinfo_extinfo_write_def

lemma read_call:
  assumes "0 < dev_open_cnt dev" and "dev_open_cnt dev + 1 < 2 ^ 32"
    and "alislsysinfo_destruct desc' st' = Some (r', desc'', st'')" and "alislsysinfo_read e desc st = Some (r, desc', st')"
    and "in_call h dev s (sd_priv desc) lib" and "si_lib st = lib"
  shows "in_call h dev s None (si_lib st'')"
  by (rule destruct_in_call [OF read_in_call [OF assms(5) [folded assms(6)] assms(4)] assms(3,1,2)])

lemma write_call:
  assumes "0 < dev_open_cnt dev" and "dev_open_cnt dev + 1 < 2 ^ 32"
    and "alislsysinfo_destruct desc' st' = Some (r', desc'', st'')" and "alislsysinfo_write e desc st = Some (r, desc', st')"
    and "in_call h dev s (sd_priv desc) lib" and "si_lib st = lib"
  shows "in_call h dev s None (si_lib st'')"
  by (rule destruct_in_call [OF write_in_call [OF assms(5) [folded assms(6)] assms(4)] assms(3,1,2)])

lemma calls_in_call:
  assumes "nand_handle (si_lib st) = Some h" and "devs (si_lib st) h = Some dev"
    and "0 < dev_open_cnt dev" and "dev_open_cnt dev + 1 < 2 ^ 32"
    and "f \<in> set (sysinfo_calls e malloc_ok layout buf sz)" and "f st = Some st'"
  shows "in_call h dev (si_lib st) None (si_lib st')"
proof (cases "buf = None")
  case True
  then have "st' = st"
    using assms(5,6) by (auto simp: sysinfo_calls_def call_defs)
  moreover have "si_lib st = (si_lib st)\<lparr>devs := (devs (si_lib st))(h \<mapsto> dev), mtd_state := mtd_state (si_lib st)\<rparr>"
    using assms(2) by (simp add: map_upd_triv)
  ultimately show ?thesis
    by (intro in_callI [where d = dev and k = "mtd_state (si_lib st)" and m = "dev_margin dev" and p = "dev_pmi dev"]) auto
next
  case False
  then show ?thesis
    using assms(5,6)
    by (auto simp: sysinfo_calls_def call_defs bind_eq_Some_conv dest!: setsize_lib construct_in_call [OF assms(1-4)]
        intro: read_call [OF assms(3,4)] write_call [OF assms(3,4)])
qed

subsection \<open>What a call does on a working flash\<close>

text \<open>
  A descriptor of the whole NAND as \<open>alislsto_open\<close> leaves it when the index was found: the private
  area of its layout map is the whole device.
\<close>

definition private_row :: "mtd_info \<Rightarrow> storage_map list \<Rightarrow> bool" where
  "private_row info rows \<longleftrightarrow> STO_PRIVATE < length rows \<and> smap_offset (rows ! STO_PRIVATE) = 0 \<and>
     smap_size (rows ! STO_PRIVATE) = info_size info"

definition dev_ready :: "mtd_info \<Rightarrow> alislsto_dev \<Rightarrow> bool" where
  "dev_ready info dev \<longleftrightarrow> dev_type dev = STO_TYPE_NAND \<and> dev_handle dev \<noteq> STO_INVALID_HANDLE \<and>
     dev_info dev = Valid info \<and> dev_pmi dev \<and> (\<exists>rows. dev_attr dev = Some rows \<and> private_row info rows) \<and>
     (\<exists>logic. dev_info_logic dev = Valid logic \<and> info_erasesize logic = info_erasesize info)"

text \<open>The flash is open behind handle \<open>h\<close> with \<open>cnt\<close> users; \<open>mem\<close> and \<open>bad\<close> are its bytes and bad blocks.\<close>

definition flash_open :: "'k sto_env \<Rightarrow> ('k \<Rightarrow> flash) \<Rightarrow> mtd_info \<Rightarrow> nat \<Rightarrow> nat \<Rightarrow> (int \<Rightarrow> u8) \<Rightarrow> (int \<Rightarrow> bool) \<Rightarrow> nat \<Rightarrow> 'k sto_lib \<Rightarrow> bool" where
  "flash_open e ab info h mtd mem bad cnt s \<longleftrightarrow>
     mtd_laws (env_drv e mtd) ab info \<and> info_ok info \<and> unit_ok info (info_erasesize info) \<and>
     nand_handle s = Some h \<and> fl_mem (ab (mtd_state s mtd)) = mem \<and> fl_bad (ab (mtd_state s mtd)) = bad \<and>
     (\<exists>dev. devs s h = Some dev \<and> dev_ready info dev \<and> fd_mtd s (dev_handle dev) = Some mtd \<and> dev_open_cnt dev = cnt)"

text \<open>The first blocks are good and the first one carries the signature of the index.\<close>

definition pmi_ready :: "mtd_info \<Rightarrow> (int \<Rightarrow> u8) \<Rightarrow> (int \<Rightarrow> bool) \<Rightarrow> bool" where
  "pmi_ready info mem bad \<longleftrightarrow> \<not> bad 0 \<and> \<not> bad 1 \<and> 2 * info_erasesize info \<le> info_size info \<and>
     int STO_HEADER_SIZE \<le> info_erasesize info \<and> mem 14 = 0x55 \<and> mem 15 = 0xAA"

definition pmi_header :: "(int \<Rightarrow> u8) \<Rightarrow> u8 list" where
  "pmi_header mem = bytes_at mem 0 (int STO_HEADER_SIZE)"

lemma live_from_inside: "0 < n \<Longrightarrow> n \<le> length (live_from info bad off) \<Longrightarrow> off < info_size info"
  by (rule ccontr) simp

lemma private_seek:
  assumes "dev_ready info dev" and "0 \<le> off" and "off \<le> info_size info"
  shows "lock_seek (private_para n off) (Some dev) =
    Some (STO_ERR_NONE, 0, Some (dev\<lparr>dev_offset := off, dev_margin := info_size info\<rparr>))"
  using assms
  by (auto simp: lock_seek_def private_para_def dev_ready_def private_row_def alislsto_lseek_ext_def STO_PRIVATE_def SEEK_CUR_def)

lemma private_read_nothing:
  assumes "dev_ready info dev" and "0 \<le> info_size info"
  shows "alislsto_lock_read drv (private_para 0 0) (Some dev) k (Some buf) act =
    Some (STO_ERR_NONE, Some 0, Some buf, Some (dev\<lparr>dev_margin := info_size info\<rparr>), k)"
  using private_seek [OF assms(1) _ assms(2), of 0]
  by (simp add: alislsto_lock_read_def alislsto_set_offset_def private_para_def)

lemma private_read:
  assumes "mtd_laws drv ab info" and "info_ok info" and "dev_ready info dev"
    and "start_ok info (fl_bad (ab k)) off" and "as = live_from info (fl_bad (ab k)) off"
    and "0 < n" and "n \<le> length as" and "n \<le> length buf"
  shows "\<exists>k'. alislsto_lock_read drv (private_para n off) (Some dev) k (Some buf) act =
      Some (STO_ERR_NONE, Some (int n), Some (memcpy_at 0 (map (fl_mem (ab k)) (take n as)) buf),
            Some (dev\<lparr>dev_margin := info_size info\<rparr>), k') \<and>
    fl_mem (ab k') = fl_mem (ab k) \<and> fl_bad (ab k') = fl_bad (ab k)"
proof -
  let ?d = "dev\<lparr>dev_offset := off, dev_margin := info_size info\<rparr>"
  have "0 \<le> off" "off \<le> info_size info"
    using assms(4) live_from_inside [OF assms(6,7) [unfolded assms(5)]] by (simp_all add: start_ok_def)
  note sk = private_seek [OF assms(3) this, of n]
  have i: "dev_info ?d = Valid info" "bad_seen (dev_type ?d) (fl_bad (ab k))" "start_ok info (fl_bad (ab k)) (dev_offset ?d)"
    "as = live_from info (fl_bad (ab k)) (dev_offset ?d)"
    using assms(3-5) by (simp_all add: dev_ready_def bad_seen_def)
  from alislsto_read_spec [OF assms(1) i(1) assms(2) i(2,3) assms(6,8) i(4)] sk assms(6,7) show ?thesis
    by (auto simp: alislsto_lock_read_def alislsto_set_offset_def private_para_def)
qed

lemma private_write:
  assumes "mtd_laws drv ab info" and "info_ok info" and "unit_ok info (info_erasesize info)" and "dev_ready info dev"
    and "start_ok info (fl_bad (ab k)) off" and "as = live_from info (fl_bad (ab k)) off"
    and "0 < n" and "n \<le> length as" and "n \<le> length buf"
    and "off mod info_writesize info = 0" and "int n mod info_writesize info = 0"
  shows "\<exists>k'. alislsto_lock_write drv (private_para n off) (Some dev) k (Some buf) act =
      Some (STO_ERR_NONE, Some (int n), Some (dev\<lparr>dev_margin := info_size info\<rparr>), k') \<and>
    fl_mem (ab k') = store_at (take n as) (programmed (fl_mem (ab k)) (take n as) buf) (fl_mem (ab k)) \<and>
    fl_bad (ab k') = fl_bad (ab k)"
proof -
  let ?d = "dev\<lparr>dev_offset := off, dev_margin := info_size info\<rparr>"
  have "0 \<le> off" "off \<le> info_size info"
    using assms(5) live_from_inside [OF assms(7,8) [unfolded assms(6)]] by (simp_all add: start_ok_def)
  note sk = private_seek [OF assms(4) this, of n]
  have i: "dev_info ?d = Valid info" "bad_seen (dev_type ?d) (fl_bad (ab k))" "start_ok info (fl_bad (ab k)) (dev_offset ?d)"
    "dev_offset ?d mod info_writesize info = 0" "as = live_from info (fl_bad (ab k)) (dev_offset ?d)"
    using assms(4-6,10) by (simp_all add: dev_ready_def bad_seen_def)
  from write_no_erase_programs [OF assms(1) i(1) assms(2,3) i(2-4) assms(11,7,9) i(5) assms(8)] sk assms(7) show ?thesis
    by (auto simp: alislsto_lock_write_def alislsto_set_offset_def private_para_def)
qed

lemma pmi_found_dev:
  assumes "mtd_laws drv ab info" and "info_ok info" and "dev_info dev = Valid info"
    and "pmi_ready info (fl_mem (ab k)) (fl_bad (ab k))" and "length b = STO_HEADER_SIZE"
  shows "\<exists>k' p'. alislsto_get_pmi drv (Some dev) k (Some \<lparr>pmi_buf = b, pmi_offset = x, pmi_length = STO_HEADER_SIZE\<rparr>) =
      Some (STO_ERR_NONE, Some (dev\<lparr>dev_pmi := True\<rparr>), k', Some p') \<and> pmi_buf p' = pmi_header (fl_mem (ab k)) \<and> pmi_offset p' = 0 \<and>
      pmi_length p' = STO_HEADER_SIZE \<and> fl_mem (ab k') = fl_mem (ab k) \<and> fl_bad (ab k') = fl_bad (ab k)"
proof -
  let ?e = "info_erasesize info" and ?h = "pmi_header (fl_mem (ab k))"
  note r = assms(4) [unfolded pmi_ready_def STO_HEADER_SIZE_def]
  have e: "0 < ?e" "0 < info_size info"
    using r by auto
  obtain k1 where k1: "klseek drv k 0 = (0, k1)" "ab k1 = (ab k)\<lparr>fl_pos := 0\<rparr>"
    by (rule mtd_seek [OF assms(1), of 0]) (use e in simp_all)
  have "in_block info (ab k1) (fl_pos (ab k1)) 512"
    using r e k1(2) by (simp add: in_block_def)
  then obtain k2 where k2: "kread drv k1 512 = (512, bytes_at (fl_mem (ab k1)) (fl_pos (ab k1)) 512, k2)"
    "ab k2 = (ab k1)\<lparr>fl_pos := fl_pos (ab k1) + 512\<rparr>"
    by (rule mtd_read [OF assms(1)])
  have rd: "kread drv k1 512 = (512, ?h, k2)"
    using k2 k1(2) by (simp add: pmi_header_def STO_HEADER_SIZE_def)
  have h: "length ?h = 512" "?h ! 14 = 0x55" "?h ! 15 = 0xAA"
    using r by (simp_all add: pmi_header_def STO_HEADER_SIZE_def bytes_at_def)
  have m: "memcpy_at 0 ?h b = ?h"
    using h(1) assms(5) by (simp add: memcpy_at_def STO_HEADER_SIZE_def)
  have g: "memgetbadblock drv k 0 = 0" "memgetbadblock drv k ?e = 0"
    using mtd_bad [OF assms(1), of 0 k] mtd_bad [OF assms(1), of ?e k] r e by (auto simp: live_def)
  have "pmi_scan drv info [0, 1, 2, 3] k \<lparr>pmi_buf = b, pmi_offset = x, pmi_length = STO_HEADER_SIZE\<rparr> =
      Some (True, k2, \<lparr>pmi_buf = ?h, pmi_offset = 0, pmi_length = STO_HEADER_SIZE\<rparr>)"
    using g k1(1) rd h m by (simp add: to_uint32_def STO_HEADER_SIZE_def)
  then show ?thesis
    using assms(3) k2(2) k1(2) by (auto simp: alislsto_get_pmi_def)
qed

lemma pmi_found:
  assumes "mtd_laws drv ab info" and "info_ok info" and "dev_ready info dev"
    and "pmi_ready info (fl_mem (ab k)) (fl_bad (ab k))" and "length b = STO_HEADER_SIZE"
  shows "\<exists>k' p'. alislsto_get_pmi drv (Some dev) k (Some \<lparr>pmi_buf = b, pmi_offset = x, pmi_length = STO_HEADER_SIZE\<rparr>) =
      Some (STO_ERR_NONE, Some dev, k', Some p') \<and> pmi_buf p' = pmi_header (fl_mem (ab k)) \<and> pmi_offset p' = 0 \<and>
      pmi_length p' = STO_HEADER_SIZE \<and> fl_mem (ab k') = fl_mem (ab k) \<and> fl_bad (ab k') = fl_bad (ab k)"
proof -
  have "dev\<lparr>dev_pmi := True\<rparr> = dev" "dev_info dev = Valid info"
    using assms(3) by (simp_all add: dev_ready_def)
  with pmi_found_dev [OF assms(1,2) _ assms(4,5), of dev x] show ?thesis by simp
qed

text \<open>An operation that leaves the descriptor usable, behind the handle.\<close>

lemma on_handle_ready:
  assumes "flash_open e ab info h mtd mem bad cnt s"
    and f: "\<And>dev k. dev_ready info dev \<Longrightarrow> mtd_laws (env_drv e mtd) ab info \<Longrightarrow> info_ok info \<Longrightarrow> unit_ok info (info_erasesize info) \<Longrightarrow>
      fl_mem (ab k) = mem \<Longrightarrow> fl_bad (ab k) = bad \<Longrightarrow> \<exists>dev' k'. f (env_drv e mtd) (Some dev) k = Some (r, Some dev', k') \<and>
        dev_ready info dev' \<and> dev_handle dev' = dev_handle dev \<and> dev_open_cnt dev' = dev_open_cnt dev \<and>
        fl_mem (ab k') = mem' \<and> fl_bad (ab k') = bad"
  shows "\<exists>s'. on_handle e f (Some h) s = Some (Some r, s') \<and> flash_open e ab info h mtd mem' bad cnt s'"
proof -
  obtain dev where d: "devs s h = Some dev" "dev_ready info dev" "fd_mtd s (dev_handle dev) = Some mtd" "dev_open_cnt dev = cnt"
    using assms(1) by (auto simp: flash_open_def)
  obtain dev' k' where k': "f (env_drv e mtd) (Some dev) (mtd_state s mtd) = Some (r, Some dev', k')"
      "dev_ready info dev'" "dev_handle dev' = dev_handle dev" "dev_open_cnt dev' = dev_open_cnt dev"
      "fl_mem (ab k') = mem'" "fl_bad (ab k') = bad"
    using f [OF d(2), of "mtd_state s mtd"] assms(1) by (auto simp: flash_open_def)
  then show ?thesis
    using assms(1) d by (auto simp: on_handle_def flash_open_def)
qed

lemma on_handle_flash:
  assumes "flash_open e ab info h mtd mem bad cnt s"
    and f: "\<And>dev k. dev_ready info dev \<Longrightarrow> mtd_laws (env_drv e mtd) ab info \<Longrightarrow> info_ok info \<Longrightarrow> unit_ok info (info_erasesize info) \<Longrightarrow>
      fl_mem (ab k) = mem \<Longrightarrow> fl_bad (ab k) = bad \<Longrightarrow> \<exists>m k'. f (env_drv e mtd) (Some dev) k = Some (r, Some (dev\<lparr>dev_margin := m\<rparr>), k') \<and>
        fl_mem (ab k') = mem' \<and> fl_bad (ab k') = bad"
  shows "\<exists>s'. on_handle e f (Some h) s = Some (Some r, s') \<and> flash_open e ab info h mtd mem' bad cnt s'"
proof (rule on_handle_ready [OF assms(1)])
  fix dev k
  assume d: "dev_ready info dev" "mtd_laws (env_drv e mtd) ab info" "info_ok info" "unit_ok info (info_erasesize info)"
    "fl_mem (ab k) = mem" "fl_bad (ab k) = bad"
  then obtain m k' where "f (env_drv e mtd) (Some dev) k = Some (r, Some (dev\<lparr>dev_margin := m\<rparr>), k')"
    "fl_mem (ab k') = mem'" "fl_bad (ab k') = bad"
    using f by blast
  with d(1) show "\<exists>dev' k'. f (env_drv e mtd) (Some dev) k = Some (r, Some dev', k') \<and> dev_ready info dev' \<and>
      dev_handle dev' = dev_handle dev \<and> dev_open_cnt dev' = dev_open_cnt dev \<and> fl_mem (ab k') = mem' \<and> fl_bad (ab k') = bad"
    by (auto simp: dev_ready_def)
qed

lemma lock_read_nothing_flash:
  assumes "flash_open e ab info h mtd mem bad cnt s"
  shows "\<exists>s'. lib_lock_read e (private_para 0 0) (Some buf) (Some h) s = Some ((STO_ERR_NONE, 0, Some buf), s') \<and>
    flash_open e ab info h mtd mem bad cnt s'"
proof -
  have z: "0 \<le> info_size info"
    using assms by (simp add: flash_open_def info_ok_def)
  have "\<exists>s'. on_handle e (\<lambda>drv dev k. do {
        (err, act, buf, dev, k) \<leftarrow> alislsto_lock_read drv (private_para 0 0) dev k (Some buf) (Some 0);
        Some ((err, case act of None \<Rightarrow> 0 | Some n \<Rightarrow> n, buf), dev, k) }) (Some h) s = Some (Some (STO_ERR_NONE, 0, Some buf), s') \<and>
      flash_open e ab info h mtd mem bad cnt s'"
    by (rule on_handle_flash [OF assms]) (auto simp: private_read_nothing [OF _ z])
  then show ?thesis
    by (auto simp: lib_lock_read_def)
qed

lemma lock_read_flash:
  assumes "flash_open e ab info h mtd mem bad cnt s"
    and "start_ok info bad off" and "as = live_from info bad off" and "0 < n" and "n \<le> length as" and "n \<le> length buf"
  shows "\<exists>s'. lib_lock_read e (private_para n off) (Some buf) (Some h) s =
      Some ((STO_ERR_NONE, int n, Some (memcpy_at 0 (map mem (take n as)) buf)), s') \<and>
    flash_open e ab info h mtd mem bad cnt s'"
proof -
  let ?r = "(STO_ERR_NONE, int n, Some (memcpy_at 0 (map mem (take n as)) buf))"
  have "\<exists>s'. on_handle e (\<lambda>drv dev k. do {
        (err, act, buf, dev, k) \<leftarrow> alislsto_lock_read drv (private_para n off) dev k (Some buf) (Some 0);
        Some ((err, case act of None \<Rightarrow> 0 | Some n \<Rightarrow> n, buf), dev, k) }) (Some h) s = Some (Some ?r, s') \<and>
      flash_open e ab info h mtd mem bad cnt s'"
  proof (rule on_handle_flash [OF assms(1)])
    fix dev k
    assume "dev_ready info dev" "mtd_laws (env_drv e mtd) ab info" "info_ok info"
      and k: "fl_mem (ab k) = mem" "fl_bad (ab k) = bad"
    then show "\<exists>m k'. do {
        (err, act, buf, dev, k) \<leftarrow> alislsto_lock_read (env_drv e mtd) (private_para n off) (Some dev) k (Some buf) (Some 0);
        Some ((err, case act of None \<Rightarrow> 0 | Some n \<Rightarrow> n, buf), dev, k) } = Some (?r, Some (dev\<lparr>dev_margin := m\<rparr>), k') \<and>
        fl_mem (ab k') = mem \<and> fl_bad (ab k') = bad"
      using private_read [of "env_drv e mtd" ab info dev k off as n buf "Some 0"] assms(2-6) by auto
  qed
  then show ?thesis
    by (auto simp: lib_lock_read_def)
qed

lemma lock_write_flash:
  assumes "flash_open e ab info h mtd mem bad cnt s"
    and "start_ok info bad off" and "as = live_from info bad off" and "0 < n" and "n \<le> length as" and "n \<le> length buf"
    and "off mod info_writesize info = 0" and "int n mod info_writesize info = 0"
  shows "\<exists>s'. lib_lock_write e (private_para n off) (Some buf) (Some h) s = Some ((STO_ERR_NONE, int n), s') \<and>
    flash_open e ab info h mtd (store_at (take n as) (programmed mem (take n as) buf) mem) bad cnt s'"
proof -
  let ?mem = "store_at (take n as) (programmed mem (take n as) buf) mem"
  have "\<exists>s'. on_handle e (\<lambda>drv dev k. do {
        (err, act, dev, k) \<leftarrow> alislsto_lock_write drv (private_para n off) dev k (Some buf) (Some 0);
        Some ((err, case act of None \<Rightarrow> 0 | Some n \<Rightarrow> n), dev, k) }) (Some h) s = Some (Some (STO_ERR_NONE, int n), s') \<and>
      flash_open e ab info h mtd ?mem bad cnt s'"
  proof (rule on_handle_flash [OF assms(1)])
    fix dev k
    assume "dev_ready info dev" "mtd_laws (env_drv e mtd) ab info" "info_ok info" "unit_ok info (info_erasesize info)"
      and k: "fl_mem (ab k) = mem" "fl_bad (ab k) = bad"
    then show "\<exists>m k'. do {
        (err, act, dev, k) \<leftarrow> alislsto_lock_write (env_drv e mtd) (private_para n off) (Some dev) k (Some buf) (Some 0);
        Some ((err, case act of None \<Rightarrow> 0 | Some n \<Rightarrow> n), dev, k) } = Some ((STO_ERR_NONE, int n), Some (dev\<lparr>dev_margin := m\<rparr>), k') \<and>
        fl_mem (ab k') = ?mem \<and> fl_bad (ab k') = bad"
      using private_write [of "env_drv e mtd" ab info dev k off as n buf "Some 0"] assms(2-8) by auto
  qed
  then show ?thesis
    by (auto simp: lib_lock_write_def)
qed

lemma get_pmi_flash:
  assumes "flash_open e ab info h mtd mem bad cnt s" and "pmi_ready info mem bad"
  shows "\<exists>s'. lib_get_pmi e (Some h) s =
      Some (Some (STO_ERR_NONE, \<lparr>pmi_buf = pmi_header mem, pmi_offset = 0, pmi_length = STO_HEADER_SIZE\<rparr>), s') \<and>
    flash_open e ab info h mtd mem bad cnt s'"
  unfolding lib_get_pmi_def
proof (rule on_handle_flash [OF assms(1)])
  fix dev k
  let ?b = "replicate STO_HEADER_SIZE 0"
  let ?p = "\<lparr>pmi_buf = pmi_header mem, pmi_offset = 0, pmi_length = STO_HEADER_SIZE\<rparr>"
  assume d: "dev_ready info dev" "mtd_laws (env_drv e mtd) ab info" "info_ok info" "fl_mem (ab k) = mem" "fl_bad (ab k) = bad"
  obtain k' p' where "alislsto_get_pmi (env_drv e mtd) (Some dev) k
        (Some \<lparr>pmi_buf = ?b, pmi_offset = 0, pmi_length = STO_HEADER_SIZE\<rparr>) = Some (STO_ERR_NONE, Some dev, k', Some p')"
      "p' = ?p" "fl_mem (ab k') = mem" "fl_bad (ab k') = bad"
    using pmi_found [OF d(2,3,1), of k ?b 0] d(4,5) assms(2) by auto
  then show "\<exists>m k'. do {
     (ret, dev, k, p) \<leftarrow> alislsto_get_pmi (env_drv e mtd) (Some dev) k
        (Some \<lparr>pmi_buf = ?b, pmi_offset = 0, pmi_length = STO_HEADER_SIZE\<rparr>);
     p \<leftarrow> p;
     Some ((ret, p), dev, k) } = Some ((STO_ERR_NONE, ?p), Some (dev\<lparr>dev_margin := m\<rparr>), k') \<and>
       fl_mem (ab k') = mem \<and> fl_bad (ab k') = bad"
    by (intro exI [of _ "dev_margin dev"] exI [of _ k']) simp
qed

lemma open_flash:
  assumes "flash_open e ab info h mtd mem bad cnt s" and "cnt + 1 < 2 ^ 32"
  shows "\<exists>s'. alislsto_open e True STO_TYPE_NAND fl layout s = Some (STO_ERR_NONE, Some h, s') \<and>
    flash_open e ab info h mtd mem bad (cnt + 1) s'"
  using assms by (auto simp: alislsto_open_def flash_open_def dev_ready_def)

lemma close_flash:
  assumes "flash_open e ab info h mtd mem bad (cnt + 1) s" and "0 < cnt" and "cnt + 1 < 2 ^ 32"
  shows "\<exists>s'. alislsto_close (Some h) s = Some (STO_ERR_NONE, s') \<and> flash_open e ab info h mtd mem bad cnt s'"
proof -
  obtain dev where d: "devs s h = Some dev" "dev_open_cnt dev = cnt + 1" "dev_ready info dev" "fd_mtd s (dev_handle dev) = Some mtd"
    using assms(1) by (auto simp: flash_open_def)
  have "nat ((int (cnt + 1) - 1) mod 2 ^ 32) = cnt"
    using assms(3) by simp
  with d assms(1,2) show ?thesis
    by (auto simp: alislsto_close_def flash_open_def dev_ready_def Let_def)
qed

lemma parse_flash:
  assumes "flash_open e ab info h mtd mem bad cnt (si_lib st)" and "pmi_ready info mem bad"
    and "length (si_ro st) = 7" and "length (si_rw st) = 3"
  shows "\<exists>st'. sysinfo_parse e True (Some h) st = Some (SYSINFO_ERR_NONE, st') \<and>
    flash_open e ab info h mtd mem bad cnt (si_lib st') \<and> si_ro st' = ro_offsets (pmi_header mem) (si_ro st) \<and>
    si_rw st' = rw_offsets (pmi_header mem) (info_erasesize info) (si_rw st)"
proof -
  obtain s where s: "lib_get_pmi e (Some h) (si_lib st) =
      Some (Some (STO_ERR_NONE, \<lparr>pmi_buf = pmi_header mem, pmi_offset = 0, pmi_length = STO_HEADER_SIZE\<rparr>), s)"
    "flash_open e ab info h mtd mem bad cnt s"
    using get_pmi_flash [OF assms(1,2)] by blast
  obtain dev logic where "devs s h = Some dev" "dev_info_logic dev = Valid logic" "info_erasesize logic = info_erasesize info"
    using s(2) by (auto simp: flash_open_def dev_ready_def)
  moreover have "length (pmi_header mem) = STO_HEADER_SIZE"
    by (simp add: pmi_header_def)
  ultimately show ?thesis
    using s assms(3,4) by (simp add: sysinfo_parse_def alislsto_get_param_def Let_def)
qed

lemma construct_flash:
  assumes "flash_open e ab info h mtd mem bad cnt (si_lib st)" and "pmi_ready info mem bad"
    and "length (si_ro st) = 7" and "length (si_rw st) = 3" and "cnt + 1 < 2 ^ 32"
  shows "\<exists>st'. alislsysinfo_construct e True layout idx (Some buf) zero_sysinfo_desc st =
      Some (SYSINFO_ERR_NONE, \<lparr>sd_idx = idx, sd_start = 0, sd_size = 0, sd_buf = Some buf, sd_priv = Some h\<rparr>, st') \<and>
    flash_open e ab info h mtd mem bad (cnt + 1) (si_lib st') \<and> si_ro st' = ro_offsets (pmi_header mem) (si_ro st) \<and>
    si_rw st' = rw_offsets (pmi_header mem) (info_erasesize info) (si_rw st)"
proof -
  obtain s1 where s1: "alislsto_open e True STO_TYPE_NAND O_RDWR layout (si_lib st) = Some (STO_ERR_NONE, Some h, s1)"
    "flash_open e ab info h mtd mem bad (cnt + 1) s1"
    using open_flash [OF assms(1,5)] by blast
  obtain s2 where s2: "lib_lock_read e (private_para 0 0) (Some buf) (Some h) s1 = Some ((STO_ERR_NONE, 0, Some buf), s2)"
    "flash_open e ab info h mtd mem bad (cnt + 1) s2"
    using lock_read_nothing_flash [OF s1(2)] by blast
  from parse_flash [of e ab info h mtd mem bad "cnt + 1" "st\<lparr>si_lib := s2\<rparr>"] s2(2) assms(2-4)
  obtain st' where "sysinfo_parse e True (Some h) (st\<lparr>si_lib := s2\<rparr>) = Some (SYSINFO_ERR_NONE, st')"
    "flash_open e ab info h mtd mem bad (cnt + 1) (si_lib st')" "si_ro st' = ro_offsets (pmi_header mem) (si_ro st)"
    "si_rw st' = rw_offsets (pmi_header mem) (info_erasesize info) (si_rw st)"
    by auto
  with s1(1) s2(1) show ?thesis
    by (simp add: alislsysinfo_construct_def zero_sysinfo_desc_def)
qed

lemma destruct_flash:
  assumes "flash_open e ab info h mtd mem bad (cnt + 1) (si_lib st)" and "0 < cnt" and "cnt + 1 < 2 ^ 32" and "sd_priv desc = Some h"
  shows "\<exists>st'. alislsysinfo_destruct desc st = Some (SYSINFO_ERR_NONE, desc\<lparr>sd_priv := None, sd_buf := None\<rparr>, st') \<and>
    flash_open e ab info h mtd mem bad cnt (si_lib st') \<and> si_ro st' = si_ro st \<and> si_rw st' = si_rw st"
  using close_flash [OF assms(1-3)] assms(4) by (auto simp: alislsysinfo_destruct_def)

text \<open>The tables after the index was read and the size of the upgrade record was set.\<close>

definition upginfo_offset :: "(int \<Rightarrow> u8) \<Rightarrow> int" where
  "upginfo_offset mem = le32 (pmi_header mem) 184"

lemma rw_length [simp]: "length (rw_offsets buf x m) = length m" "length (ro_offsets buf m) = length m"
  by (simp_all add: rw_offsets_def ro_offsets_def put_offset_def put_size_def Let_def)

lemma upginfo_row:
  assumes "length (si_rw st) = 3" and "si_rw st' = rw_offsets (pmi_header mem) x (si_rw st)"
  shows "\<exists>st''. sysinfo_setsize SYSINFO_UPGINFO n st' = Some st'' \<and> si_lib st'' = si_lib st' \<and> si_ro st'' = si_ro st' \<and>
    length (si_rw st'') = 3 \<and>
    (\<forall>desc. sd_idx desc = SYSINFO_UPGINFO \<longrightarrow>
       (\<exists>row. desc_row desc st'' = Some row \<and> map_size row = n \<and> map_offset row = upginfo_offset mem))"
  using assms
  by (auto simp: sysinfo_setsize_def SYSINFO_SHAREMTD_def SYSINFO_UPGINFO_def desc_row_def sysinfo_getmap_def sysinfo_getidxbase_def
      put_size_def rw_offsets_def put_offset_def Let_def upginfo_offset_def)

lemma upginfo_write_by:
  assumes "flash_open e ab info h mtd mem bad cnt (si_lib st)" and "pmi_ready info mem bad"
    and "length (si_ro st) = 7" and "length (si_rw st) = 3" and "0 < cnt" and "cnt + 1 < 2 ^ 32" and "0 < n"
    and w: "\<And>s. flash_open e ab info h mtd mem bad (cnt + 1) s \<Longrightarrow>
      \<exists>s'. lib_lock_write e (private_para n (upginfo_offset mem)) (Some buf) (Some h) s = Some ((err, m), s') \<and>
        flash_open e ab info h mtd mem' bad (cnt + 1) s'"
  shows "\<exists>st'. alislsysinfo_upginfo_write e True layout (Some buf) n st = Some (if err = STO_ERR_NONE \<and> m = int n then n else 0, st') \<and>
    flash_open e ab info h mtd mem' bad cnt (si_lib st') \<and> length (si_ro st') = 7 \<and> length (si_rw st') = 3"
proof -
  let ?d = "\<lparr>sd_idx = SYSINFO_UPGINFO, sd_start = 0, sd_size = 0, sd_buf = Some buf, sd_priv = Some h\<rparr>"
  let ?d' = "?d\<lparr>sd_size := if err = STO_ERR_NONE \<and> m = int n then n else 0\<rparr>"
  obtain st1 where st1: "alislsysinfo_construct e True layout SYSINFO_UPGINFO (Some buf) zero_sysinfo_desc st = Some (SYSINFO_ERR_NONE, ?d, st1)"
    "flash_open e ab info h mtd mem bad (cnt + 1) (si_lib st1)" "si_ro st1 = ro_offsets (pmi_header mem) (si_ro st)"
    "si_rw st1 = rw_offsets (pmi_header mem) (info_erasesize info) (si_rw st)"
    using construct_flash [OF assms(1-4,6)] by blast
  obtain st2 row where st2: "sysinfo_setsize SYSINFO_UPGINFO n st1 = Some st2" "si_lib st2 = si_lib st1" "si_ro st2 = si_ro st1"
    "length (si_rw st2) = 3" "desc_row ?d st2 = Some row" "map_size row = n" "map_offset row = upginfo_offset mem"
    using upginfo_row [OF assms(4) st1(4), of n] by (auto dest: spec [of _ ?d])
  obtain s3 where s3: "lib_lock_write e (private_para n (upginfo_offset mem)) (Some buf) (Some h) (si_lib st2) = Some ((err, m), s3)"
    "flash_open e ab info h mtd mem' bad (cnt + 1) s3"
    using w [OF st1(2)] st2(2) by auto
  obtain r where wr: "alislsysinfo_write e ?d st2 = Some (r, ?d', st2\<lparr>si_lib := s3\<rparr>)"
    using st2(5-7) s3(1) assms(7) by (cases "err = STO_ERR_NONE \<and> m = int n") (auto simp: alislsysinfo_write_def Let_def)
  obtain st4 where "alislsysinfo_destruct ?d' (st2\<lparr>si_lib := s3\<rparr>) =
      Some (SYSINFO_ERR_NONE, ?d'\<lparr>sd_priv := None, sd_buf := None\<rparr>, st4)"
    "flash_open e ab info h mtd mem' bad cnt (si_lib st4)" "si_ro st4 = si_ro st2" "si_rw st4 = si_rw st2"
    using destruct_flash [of e ab info h mtd mem' bad cnt "st2\<lparr>si_lib := s3\<rparr>" ?d'] s3(2) assms(5,6) by auto
  then show ?thesis
    using st1(1,3) st2 wr assms(3) by (simp add: alislsysinfo_upginfo_write_def)
qed

lemma upginfo_write_flash:
  assumes "flash_open e ab info h mtd mem bad cnt (si_lib st)" and "pmi_ready info mem bad"
    and "length (si_ro st) = 7" and "length (si_rw st) = 3" and "0 < cnt" and "cnt + 1 < 2 ^ 32"
    and "start_ok info bad (upginfo_offset mem)" and "as = live_from info bad (upginfo_offset mem)"
    and "0 < n" and "n \<le> length as" and "n \<le> length buf"
    and "upginfo_offset mem mod info_writesize info = 0" and "int n mod info_writesize info = 0"
  shows "\<exists>st'. alislsysinfo_upginfo_write e True layout (Some buf) n st = Some (n, st') \<and>
    flash_open e ab info h mtd (store_at (take n as) (programmed mem (take n as) buf) mem) bad cnt (si_lib st') \<and>
    length (si_ro st') = 7 \<and> length (si_rw st') = 3"
  using upginfo_write_by [OF assms(1-6,9) lock_write_flash [OF _ assms(7-13)]] by simp

lemma upginfo_read_flash:
  assumes "flash_open e ab info h mtd mem bad cnt (si_lib st)" and "pmi_ready info mem bad"
    and "length (si_ro st) = 7" and "length (si_rw st) = 3" and "0 < cnt" and "cnt + 1 < 2 ^ 32"
    and "start_ok info bad (upginfo_offset mem)" and "as = live_from info bad (upginfo_offset mem)"
    and "0 < n" and "n \<le> length as" and "n \<le> length buf"
  shows "\<exists>st'. alislsysinfo_upginfo_read e True layout (Some buf) n st =
      Some (n, Some (memcpy_at 0 (map mem (take n as)) buf), st') \<and>
    flash_open e ab info h mtd mem bad cnt (si_lib st') \<and> length (si_ro st') = 7 \<and> length (si_rw st') = 3"
proof -
  let ?b = "memcpy_at 0 (map mem (take n as)) buf"
  let ?d = "\<lparr>sd_idx = SYSINFO_UPGINFO, sd_start = 0, sd_size = 0, sd_buf = Some buf, sd_priv = Some h\<rparr>"
  obtain st1 where st1: "alislsysinfo_construct e True layout SYSINFO_UPGINFO (Some buf) zero_sysinfo_desc st = Some (SYSINFO_ERR_NONE, ?d, st1)"
    "flash_open e ab info h mtd mem bad (cnt + 1) (si_lib st1)" "si_ro st1 = ro_offsets (pmi_header mem) (si_ro st)"
    "si_rw st1 = rw_offsets (pmi_header mem) (info_erasesize info) (si_rw st)"
    using construct_flash [OF assms(1-4,6)] by blast
  obtain st2 row where st2: "sysinfo_setsize SYSINFO_UPGINFO n st1 = Some st2" "si_lib st2 = si_lib st1" "si_ro st2 = si_ro st1"
    "length (si_rw st2) = 3" "desc_row ?d st2 = Some row" "map_size row = n" "map_offset row = upginfo_offset mem"
    using upginfo_row [OF assms(4) st1(4), of n] by (auto dest: spec [of _ ?d])
  obtain s3 where s3: "lib_lock_read e (private_para n (upginfo_offset mem)) (Some buf) (Some h) (si_lib st2) =
      Some ((STO_ERR_NONE, int n, Some ?b), s3)" "flash_open e ab info h mtd mem bad (cnt + 1) s3"
    using lock_read_flash [OF st1(2) assms(7-11)] st2(2) by auto
  let ?d3 = "?d\<lparr>sd_buf := Some ?b, sd_size := n\<rparr>"
  have r: "alislsysinfo_read e ?d st2 = Some (int n, ?d3, st2\<lparr>si_lib := s3\<rparr>)"
    using st2(5-7) s3(1) assms(9) by (simp add: alislsysinfo_read_def)
  obtain st4 where "alislsysinfo_destruct ?d3 (st2\<lparr>si_lib := s3\<rparr>) =
      Some (SYSINFO_ERR_NONE, ?d3\<lparr>sd_priv := None, sd_buf := None\<rparr>, st4)"
    "flash_open e ab info h mtd mem bad cnt (si_lib st4)" "si_ro st4 = si_ro st2" "si_rw st4 = si_rw st2"
    using destruct_flash [of e ab info h mtd mem bad cnt "st2\<lparr>si_lib := s3\<rparr>" ?d3] s3(2) assms(5,6) by auto
  then show ?thesis
    using st1(1,3) st2 r assms(3) by (simp add: alislsysinfo_upginfo_read_def)
qed

text \<open>A record outside the index leaves the index as it is.\<close>

lemma header_kept:
  assumes "as = take n (live_from info bad off)" and "int STO_HEADER_SIZE \<le> off"
  shows "pmi_header (store_at as bs mem) = pmi_header mem"
    and "pmi_ready info (store_at as bs mem) bad = pmi_ready info mem bad"
proof -
  have out: "store_at as bs mem x = mem x" if "x < int STO_HEADER_SIZE" for x
    using assms that by (intro store_at_other) (auto dest!: in_set_takeD live_from_in)
  then show "pmi_header (store_at as bs mem) = pmi_header mem"
    by (simp add: pmi_header_def bytes_at_def)
  show "pmi_ready info (store_at as bs mem) bad = pmi_ready info mem bad"
    using out [of 14] out [of 15] by (simp add: pmi_ready_def STO_HEADER_SIZE_def)
qed

text \<open>
  What a record holds after it was written once, and twice, over the bytes \<open>mem\<close>.
\<close>

definition record_area :: "mtd_info \<Rightarrow> (int \<Rightarrow> u8) \<Rightarrow> (int \<Rightarrow> bool) \<Rightarrow> nat \<Rightarrow> int list" where
  "record_area info mem bad n = take n (live_from info bad (upginfo_offset mem))"

text \<open>
  The place of the upgrade record: behind the index, on a page boundary, with room for \<open>n\<close>
  bytes. \<open>record_ok\<close> is a record that is also a whole number of pages.
\<close>

definition record_place :: "mtd_info \<Rightarrow> (int \<Rightarrow> u8) \<Rightarrow> (int \<Rightarrow> bool) \<Rightarrow> nat \<Rightarrow> bool" where
  "record_place info mem bad n \<longleftrightarrow> pmi_ready info mem bad \<and> int STO_HEADER_SIZE \<le> upginfo_offset mem \<and>
     start_ok info bad (upginfo_offset mem) \<and> upginfo_offset mem mod info_writesize info = 0 \<and>
     0 < n \<and> length (record_area info mem bad n) = n"

definition record_ok :: "mtd_info \<Rightarrow> (int \<Rightarrow> u8) \<Rightarrow> (int \<Rightarrow> bool) \<Rightarrow> nat \<Rightarrow> bool" where
  "record_ok info mem bad n \<longleftrightarrow> pmi_ready info mem bad \<and> int STO_HEADER_SIZE \<le> upginfo_offset mem \<and>
     start_ok info bad (upginfo_offset mem) \<and> upginfo_offset mem mod info_writesize info = 0 \<and>
     0 < n \<and> int n mod info_writesize info = 0 \<and> length (record_area info mem bad n) = n"

lemma record_ok_place: "record_ok info mem bad n \<longleftrightarrow> record_place info mem bad n \<and> int n mod info_writesize info = 0"
  by (auto simp: record_ok_def record_place_def)

definition tables_ok :: "'k sysinfo \<Rightarrow> bool" where
  "tables_ok st \<longleftrightarrow> length (si_ro st) = 7 \<and> length (si_rw st) = 3"

lemma record_kept:
  assumes "record_ok info mem bad n"
  shows "record_ok info (store_at (record_area info mem bad n) bs mem) bad n"
    and "record_area info (store_at (record_area info mem bad n) bs mem) bad n = record_area info mem bad n"
proof -
  have off: "upginfo_offset (store_at (record_area info mem bad n) bs mem) = upginfo_offset mem"
    using assms header_kept(1) [OF record_area_def [of info mem bad n]] by (simp add: record_ok_def upginfo_offset_def)
  then show "record_area info (store_at (record_area info mem bad n) bs mem) bad n = record_area info mem bad n"
    by (simp add: record_area_def [of _ _ _ n])
  then show "record_ok info (store_at (record_area info mem bad n) bs mem) bad n"
    using assms off header_kept(2) [OF record_area_def [of info mem bad n]] by (simp add: record_ok_def)
qed

lemma record_write:
  assumes "flash_open e ab info h mtd mem bad cnt (si_lib st)" and "tables_ok st" and "0 < cnt" and "cnt + 1 < 2 ^ 32"
    and "record_ok info mem bad n" and "length buf = n" and "as = record_area info mem bad n"
  obtains st' where "alislsysinfo_upginfo_write e True layout (Some buf) n st = Some (n, st')"
    "flash_open e ab info h mtd (store_at as (programmed mem as buf) mem) bad cnt (si_lib st')" "tables_ok st'"
proof -
  note r = assms(5) [unfolded record_ok_def record_area_def]
  have "n \<le> length (live_from info bad (upginfo_offset mem))"
    using r by (simp add: min_def split: if_splits)
  then show ?thesis
    using upginfo_write_flash [OF assms(1) _ _ _ assms(3,4) _ refl, of n buf layout] assms(2,6,7) r that
    by (auto simp: tables_ok_def record_area_def)
qed

lemma record_read:
  assumes "flash_open e ab info h mtd mem bad cnt (si_lib st)" and "tables_ok st" and "0 < cnt" and "cnt + 1 < 2 ^ 32"
    and "record_place info mem bad n" and "length buf = n"
  obtains st' where "alislsysinfo_upginfo_read e True layout (Some buf) n st = Some (n, Some (map mem (record_area info mem bad n)), st')"
    "flash_open e ab info h mtd mem bad cnt (si_lib st')" "tables_ok st'"
proof -
  note r = assms(5) [unfolded record_place_def record_area_def]
  have "n \<le> length (live_from info bad (upginfo_offset mem))"
    using r by (simp add: min_def split: if_splits)
  moreover from this have "memcpy_at 0 (map mem (record_area info mem bad n)) buf = map mem (record_area info mem bad n)"
    using assms(6) by (simp add: memcpy_at_def record_area_def)
  ultimately show ?thesis
    using upginfo_read_flash [OF assms(1) _ _ _ assms(3,4) _ refl, of n buf layout] assms(2,6) r that
    by (auto simp: tables_ok_def record_area_def)
qed

lemma record_distinct:
  assumes "record_place info mem bad n"
  shows "distinct (record_area info mem bad n)" and "length (record_area info mem bad n) = n"
  using assms
  by (simp_all add: record_place_def record_area_def distinct_take)

subsection \<open>Properties\<close>

text \<open>
  (C19) While the flash is open for another user (the writer of an upgrade), each of the six
  calls leaves its position, its open count and everything else of the storage library as
  they were, up to the margin and the index flag of the descriptor and the state of the driver.
\<close>

theorem sysinfo_keeps_position:
  assumes "nand_handle (si_lib st) = Some h" and "devs (si_lib st) h = Some dev"
    and "0 < dev_open_cnt dev" and "dev_open_cnt dev + 1 < 2 ^ 32"
    and "f \<in> set (sysinfo_calls e malloc_ok layout buf sz)" and "f st = Some st'"
  shows "\<exists>m p k. si_lib st' = (si_lib st)\<lparr>devs := (devs (si_lib st))(h \<mapsto> dev\<lparr>dev_margin := m, dev_pmi := p\<rparr>), mtd_state := k\<rparr>"
  using calls_in_call [OF assms] by (auto simp: in_call_def)

text \<open>
  The calls never erase: the second record written to the same place is not what is read
  back, but the bits that are set in both records.
\<close>

lemma upginfo_rewrite_clears_bits:
  assumes "flash_open e ab info h mtd mem bad cnt (si_lib st)" and "tables_ok st" and "0 < cnt" and "cnt + 1 < 2 ^ 32"
    and "record_ok info mem bad n" and "length bs = n" and "length bs' = n" and "length old = n"
    and "\<forall>a\<in>set (record_area info mem bad n). mem a = 0xff"
  shows "\<exists>st1 st2 st3. alislsysinfo_upginfo_write e True layout (Some bs) n st = Some (n, st1) \<and>
    alislsysinfo_upginfo_write e True layout (Some bs') n st1 = Some (n, st2) \<and>
    alislsysinfo_upginfo_read e True layout (Some old) n st2 = Some (n, Some (map2 (AND) bs bs'), st3)"
proof -
  let ?as = "record_area info mem bad n"
  let ?mem = "store_at ?as bs mem"
  let ?mem' = "store_at ?as (programmed ?mem ?as bs') ?mem"
  note dl = record_distinct [OF conjunct1 [OF assms(5) [unfolded record_ok_place]]]
  obtain st1 where st1: "alislsysinfo_upginfo_write e True layout (Some bs) n st = Some (n, st1)"
    "flash_open e ab info h mtd ?mem bad cnt (si_lib st1)" "tables_ok st1"
    using record_write [OF assms(1-6) refl] programmed_blank [of ?as mem bs mem] assms(9) by metis
  obtain st2 where st2: "alislsysinfo_upginfo_write e True layout (Some bs') n st1 = Some (n, st2)"
    "flash_open e ab info h mtd ?mem' bad cnt (si_lib st2)" "tables_ok st2"
    by (rule record_write [OF st1(2,3) assms(3,4) record_kept(1) [OF assms(5)] assms(7) record_kept(2) [OF assms(5), symmetric]])
  note k = record_kept [OF record_kept(1) [OF assms(5)], unfolded record_kept(2) [OF assms(5)]]
  obtain st3 where "alislsysinfo_upginfo_read e True layout (Some old) n st2 = Some (n, Some (map ?mem' ?as), st3)"
    using record_read [OF st2(2,3) assms(3,4) conjunct1 [OF k(1) [unfolded record_ok_place]] assms(8)] k(2) by metis
  moreover have "map ?mem' ?as = programmed ?mem ?as bs'"
    using dl assms(7) by (intro map_store_at) simp_all
  moreover have "programmed ?mem ?as bs' = map2 (AND) bs bs'"
    using dl assms(6,7) by (intro nth_equalityI) (simp_all add: programmed_def store_at_nth)
  ultimately show ?thesis
    using st1(1) st2(1) by auto
qed

text \<open>
  The driver of a NAND refuses a write that is not a whole number of pages. Neither the MAC
  address (6 bytes) nor the upgrade status (104 bytes) is one.
\<close>

definition law_whole_pages :: "'k mtd_driver \<Rightarrow> ('k \<Rightarrow> flash) \<Rightarrow> mtd_info \<Rightarrow> bool" where
  "law_whole_pages drv ab info \<longleftrightarrow> (\<forall>k bs. int (length bs) mod info_writesize info \<noteq> 0 \<longrightarrow>
     fst (kwrite drv k bs) < 0 \<and> ab (snd (kwrite drv k bs)) = ab k)"

lemma partial_page_stops:
  assumes "mtd_laws drv ab info" and "info_ok info" and "unit_ok info (info_erasesize info)"
    and "law_whole_pages drv ab info" and "ty = STO_TYPE_NAND"
    and "0 \<le> off" "off < info_size info" "live info (fl_bad (ab k)) off" "off mod info_writesize info = 0"
    and "off mod info_erasesize info + int n \<le> info_erasesize info" and "n \<le> length buf" and "int n mod info_writesize info \<noteq> 0"
  shows "\<exists>k'. write_no_erase_loop drv ty info buf n off k 0 = Some (0, off, k') \<and> fl_mem (ab k') = fl_mem (ab k) \<and> fl_bad (ab k') = fl_bad (ab k)"
proof -
  let ?e = "info_erasesize info" and ?w = "info_writesize info"
  have e: "0 < ?e" "0 < ?w"
    using assms(2,3) by (auto simp: info_ok_def unit_ok_def)
  have sk: "skip_bad drv k ?e off = Some off"
    using mtd_bad [OF assms(1,6,7), of k] assms(8) by (subst skip_bad.simps) simp
  obtain k1 where k1: "klseek drv k off = (off, k1)" "ab k1 = (ab k)\<lparr>fl_pos := off\<rparr>"
    by (rule mtd_seek [OF assms(1,6,7)])
  have n: "min n (nat (?e - off mod ?e)) = n"
    using assms(10) by linarith
  obtain wr k2 where w: "kwrite drv k1 (take n buf) = (wr, k2)"
    by fastforce
  have "wr < 0 \<and> ab k2 = ab k1"
    using assms(4,11,12) w unfolding law_whole_pages_def by (metis fst_conv length_take min.absorb2 snd_conv)
  then show ?thesis
    using assms(5-7,9,11) e sk k1 w n smod_nonneg [OF assms(6) e(1)] smod_nonneg [OF assms(6) e(2)]
    by (subst write_no_erase_loop.simps) (auto simp: min_def)
qed

lemma private_write_refused:
  assumes "mtd_laws drv ab info" and "info_ok info" and "unit_ok info (info_erasesize info)" and "dev_ready info dev"
    and "law_whole_pages drv ab info"
    and "0 \<le> off" "off < info_size info" "live info (fl_bad (ab k)) off" "off mod info_writesize info = 0"
    and "off mod info_erasesize info + int n \<le> info_erasesize info" and "n \<le> length buf" and "int n mod info_writesize info \<noteq> 0"
  shows "\<exists>k'. alislsto_lock_write drv (private_para n off) (Some dev) k (Some buf) act =
      Some (STO_ERR_MEM, Some 0, Some (dev\<lparr>dev_margin := info_size info\<rparr>), k') \<and>
    fl_mem (ab k') = fl_mem (ab k) \<and> fl_bad (ab k') = fl_bad (ab k)"
proof -
  have ty: "dev_type dev = STO_TYPE_NAND" "dev_info dev = Valid info"
    using assms(4) by (simp_all add: dev_ready_def)
  have n: "n \<noteq> 0"
    using assms(12) by (rule contrapos_nn) simp
  note sk = private_seek [OF assms(4,6), of n]
  from partial_page_stops [OF assms(1-3,5) ty(1) assms(6-12)] sk ty n assms(7) show ?thesis
    by (auto simp: alislsto_lock_write_def alislsto_write_no_erase_def alislsto_set_offset_def private_para_def)
qed

lemma lock_write_refused:
  assumes "flash_open e ab info h mtd mem bad cnt s" and "law_whole_pages (env_drv e mtd) ab info"
    and "0 \<le> off" "off < info_size info" "live info bad off" "off mod info_writesize info = 0"
    and "off mod info_erasesize info + int n \<le> info_erasesize info" and "n \<le> length buf" and "int n mod info_writesize info \<noteq> 0"
  shows "\<exists>s'. lib_lock_write e (private_para n off) (Some buf) (Some h) s = Some ((STO_ERR_MEM, 0), s') \<and>
    flash_open e ab info h mtd mem bad cnt s'"
proof -
  have "\<exists>s'. on_handle e (\<lambda>drv dev k. do {
        (err, act, dev, k) \<leftarrow> alislsto_lock_write drv (private_para n off) dev k (Some buf) (Some 0);
        Some ((err, case act of None \<Rightarrow> 0 | Some n \<Rightarrow> n), dev, k) }) (Some h) s = Some (Some (STO_ERR_MEM, 0), s') \<and>
      flash_open e ab info h mtd mem bad cnt s'"
  proof (rule on_handle_flash [OF assms(1)])
    fix dev k
    assume "dev_ready info dev" "mtd_laws (env_drv e mtd) ab info" "info_ok info" "unit_ok info (info_erasesize info)"
      and k: "fl_mem (ab k) = mem" "fl_bad (ab k) = bad"
    then show "\<exists>m k'. do {
        (err, act, dev, k) \<leftarrow> alislsto_lock_write (env_drv e mtd) (private_para n off) (Some dev) k (Some buf) (Some 0);
        Some ((err, case act of None \<Rightarrow> 0 | Some n \<Rightarrow> n), dev, k) } = Some ((STO_ERR_MEM, 0), Some (dev\<lparr>dev_margin := m\<rparr>), k') \<and>
        fl_mem (ab k') = mem \<and> fl_bad (ab k') = bad"
      using private_write_refused [of "env_drv e mtd" ab info dev off k n buf "Some 0"] assms(2-9) by auto
  qed
  then show ?thesis
    by (auto simp: lib_lock_write_def)
qed

text \<open>
  On a driver that takes whole pages only, writing an upgrade record of another size (the
  status structure of the upgrade library has 104 bytes) changes nothing on the flash and returns 0.
\<close>

lemma partial_record_not_written:
  assumes "flash_open e ab info h mtd mem bad cnt (si_lib st)" and "tables_ok st" and "0 < cnt" and "cnt + 1 < 2 ^ 32"
    and "pmi_ready info mem bad" and "law_whole_pages (env_drv e mtd) ab info" and "off = upginfo_offset mem"
    and "0 \<le> off" "off < info_size info" "live info bad off" "off mod info_writesize info = 0"
    and "off mod info_erasesize info + int n \<le> info_erasesize info" and "n \<le> length bs" and "int n mod info_writesize info \<noteq> 0"
  shows "\<exists>st'. alislsysinfo_upginfo_write e True layout (Some bs) n st = Some (0, st') \<and> flash_open e ab info h mtd mem bad cnt (si_lib st') \<and>
    tables_ok st'"
proof -
  have "0 < n"
    using assms(14) by (rule contrapos_np) simp
  moreover have "length (si_ro st) = 7" "length (si_rw st) = 3"
    using assms(2) by (simp_all add: tables_ok_def)
  ultimately show ?thesis
    using upginfo_write_by [OF assms(1,5) _ _ assms(3,4) _ lock_write_refused [OF _ assms(6) assms(8-14) [unfolded assms(7)]], where layout = layout]
    by (auto simp: STO_ERR_MEM_def STO_ERR_NONE_def tables_ok_def)
qed

text \<open>A record that ends in the good block it starts in.\<close>

definition record_in_block :: "mtd_info \<Rightarrow> (int \<Rightarrow> bool) \<Rightarrow> int \<Rightarrow> nat \<Rightarrow> bool" where
  "record_in_block info bad off n \<longleftrightarrow> off < info_size info \<and> live info bad off \<and>
     off mod info_erasesize info + int n \<le> info_erasesize info"

text \<open>
  (C20) An upgrade record is written to its erased place and read again. When its size is a
  whole number of pages both calls return the size and what is read is what was written. When
  it is not (the status of the upgrade library has 104 bytes) and the driver takes whole pages
  only, the write returns 0 and what is read are the erased bytes: the record is lost. The
  second case is stated for a record within one good block.
\<close>

theorem upginfo_roundtrip:
  assumes "flash_open e ab info h mtd mem bad cnt (si_lib st)" and "tables_ok st" and "0 < cnt" and "cnt + 1 < 2 ^ 32"
    and "record_place info mem bad n" and "length bs = n" and "length old = n"
    and "\<forall>a\<in>set (record_area info mem bad n). mem a = 0xff"
    and "int n mod info_writesize info \<noteq> 0 \<longrightarrow>
      law_whole_pages (env_drv e mtd) ab info \<and> record_in_block info bad (upginfo_offset mem) n"
  shows "\<exists>w got st1 st2. alislsysinfo_upginfo_write e True layout (Some bs) n st = Some (w, st1) \<and>
    alislsysinfo_upginfo_read e True layout (Some old) n st1 = Some (n, Some got, st2) \<and>
    (if int n mod info_writesize info = 0 then w = n \<and> got = bs else w = 0 \<and> got = replicate n 0xff)"
proof (cases "int n mod info_writesize info = 0")
  case True
  let ?as = "record_area info mem bad n"
  have ok: "record_ok info mem bad n"
    using assms(5) True by (simp add: record_ok_place)
  obtain st1 where st1: "alislsysinfo_upginfo_write e True layout (Some bs) n st = Some (n, st1)"
    "flash_open e ab info h mtd (store_at ?as (programmed mem ?as bs) mem) bad cnt (si_lib st1)" "tables_ok st1"
    by (rule record_write [OF assms(1-4) ok assms(6) refl])
  obtain st2 where "alislsysinfo_upginfo_read e True layout (Some old) n st1 =
      Some (n, Some (map (store_at ?as (programmed mem ?as bs) mem) ?as), st2)"
    using record_read [OF st1(2,3) assms(3,4) conjunct1 [OF record_kept(1) [OF ok, unfolded record_ok_place]] assms(7)]
      record_kept(2) [OF ok] by metis
  moreover have "map (store_at ?as bs mem) ?as = bs"
    using record_distinct [OF assms(5)] assms(6) by (intro map_store_at) simp_all
  ultimately show ?thesis
    using st1(1) programmed_blank [of ?as mem bs mem] assms(8) True by auto
next
  case False
  then have b: "law_whole_pages (env_drv e mtd) ab info" "record_in_block info bad (upginfo_offset mem) n"
    using assms(9) by simp_all
  note r = assms(5) [unfolded record_place_def]
  obtain st1 where st1: "alislsysinfo_upginfo_write e True layout (Some bs) n st = Some (0, st1)"
    "flash_open e ab info h mtd mem bad cnt (si_lib st1)" "tables_ok st1"
    using partial_record_not_written [OF assms(1-4) conjunct1 [OF r] b(1) refl, of n bs layout] r b(2) assms(6) False
    by (auto simp: record_in_block_def)
  obtain st2 where "alislsysinfo_upginfo_read e True layout (Some old) n st1 =
      Some (n, Some (map mem (record_area info mem bad n)), st2)"
    by (rule record_read [OF st1(2,3) assms(3-5,7)])
  moreover have "map mem (record_area info mem bad n) = replicate n 0xff"
    using record_distinct(2) [OF assms(5)] assms(8) by (intro nth_equalityI) simp_all
  ultimately show ?thesis
    using st1(1) False by auto
qed

text \<open>
  The extension record lies one block behind the upgrade record. When the block of the upgrade
  record is bad, both records are kept at the same addresses.
\<close>

lemma records_collide:
  assumes "info_ok info" and "rows = rw_offsets buf (info_erasesize info) m" and "2 < length m"
    and "off = le32 buf 184" and "off mod info_erasesize info = 0" and "off + info_erasesize info < info_size info"
    and "bad (off div info_erasesize info)"
  shows "live_from info bad (map_offset (rows ! 0)) = live_from info bad (map_offset (rows ! 1))"
proof -
  have e: "0 < info_erasesize info" "info_size info < 2 ^ 32"
    using assms(1) by (auto simp: info_ok_def)
  have off: "0 \<le> off"
    unfolding assms(4) le32_def by simp
  have l: "m \<noteq> []" "1 < length m"
    using assms(3) by auto
  have "map_offset (rows ! 0) = off"
    unfolding assms(2,4) rw_offsets_def put_offset_def Let_def using l(1) by simp
  moreover have "map_offset (rows ! 1) = to_uint32 (off + info_erasesize info)"
    unfolding assms(2,4) rw_offsets_def put_offset_def Let_def using l(2) by simp
  moreover have "to_uint32 (off + info_erasesize info) = off + info_erasesize info"
    using e off assms(6) by (intro to_uint32_id) simp_all
  moreover have "live_from info bad off = live_from info bad (off + info_erasesize info)"
    using assms(6,7) e by (intro live_from_bad [OF assms(1) off _ _ assms(5)]) (simp_all add: live_def)
  ultimately show ?thesis
    by simp
qed

text \<open>A null buffer is answered with the number 2, which callers take for a size.\<close>

lemma null_buffer_size: "alislsysinfo_mac_read e malloc_ok layout None st = Some (2, None, st)"
  by (simp add: alislsysinfo_mac_read_def SYSINFO_ERR_NULLBUF_def)

subsection \<open>Witnesses\<close>

text \<open>A flash of four blocks of 512 bytes with an index that puts the upgrade record at 1024.\<close>

definition nand_info :: mtd_info where
  "nand_info = \<lparr>info_type = MTD_NANDFLASH, info_size = 2048, info_erasesize = 512, info_writesize = 16\<rparr>"

definition nand_drv :: "flash mtd_driver" where
  "nand_drv = sim_drv\<lparr>memgetinfo := \<lambda>k. (0, nand_info),
     memgetbadblock := \<lambda>k a. if a < 0 \<or> 2048 \<le> a then -1 else if fl_bad k (a div 512) then 1 else 0,
     kwrite := \<lambda>k bs. if int (length bs) mod 16 \<noteq> 0 then (-22, k) else kwrite sim_drv k bs\<rparr>"

definition nand_mem :: "int \<Rightarrow> u8" where
  "nand_mem a = (if a = 14 then 0x55 else if a = 15 then 0xAA else if a = 185 then 4 else if a < 512 then 0 else 0xff)"

definition nand_dev :: alislsto_dev where
  "nand_dev = demo_dev\<lparr>dev_attr := Some [\<lparr>smap_offset = 0, smap_size = 0, smap_imgsz = 0\<rparr>, \<lparr>smap_offset = 0, smap_size = 2048, smap_imgsz = 0\<rparr>],
     dev_info := Valid nand_info, dev_info_logic := Valid nand_info, dev_pmi := True\<rparr>"

definition nand_env :: "flash sto_env" where
  "nand_env = (demo_env None)\<lparr>env_drv := \<lambda>m. nand_drv\<rparr>"

definition nand_sys :: "flash sysinfo" where
  "nand_sys = \<lparr>si_ro = sysinfo_ro_map, si_rw = sysinfo_rw_map,
     si_lib = (demo_lib [] [])\<lparr>devs := [0 \<mapsto> nand_dev], nand_handle := Some 0, fd_mtd := [3 \<mapsto> 1],
       mtd_state := \<lambda>i. \<lparr>fl_mem = nand_mem, fl_pos = 0, fl_bad = \<lambda>b. False\<rparr>\<rparr>\<rparr>"

lemma nand_laws: "mtd_laws nand_drv (\<lambda>k. k) nand_info" "law_whole_pages nand_drv (\<lambda>k. k) nand_info"
  by (simp_all add: mtd_laws_def driver_laws law_whole_pages_def nand_drv_def sim_drv_def nand_info_def)

lemma nand_is_open: "flash_open nand_env (\<lambda>k. k) nand_info 0 1 nand_mem (\<lambda>b. False) 1 (si_lib nand_sys)"
  using nand_laws(1)
  by (simp add: flash_open_def nand_env_def nand_sys_def nand_dev_def demo_dev_def dev_ready_def private_row_def STO_PRIVATE_def
      STO_INVALID_HANDLE_def) (simp add: info_ok_def unit_ok_def nand_info_def)

lemma nand_tables: "tables_ok nand_sys"
  by (simp add: tables_ok_def nand_sys_def sysinfo_ro_map_def sysinfo_rw_map_def)

lemma nand_offset: "upginfo_offset nand_mem = 1024"
  by (simp add: upginfo_offset_def pmi_header_def bytes_at_def STO_HEADER_SIZE_def le32_def nand_mem_def)

lemma nand_pmi: "pmi_ready nand_info nand_mem (\<lambda>b. False)"
  by (simp add: pmi_ready_def nand_info_def nand_mem_def STO_HEADER_SIZE_def)

lemma nand_area: "record_area nand_info nand_mem (\<lambda>b. False) 16 = [1024..1039]"
proof -
  have d: "1040 - 1 = (1039 :: int)"
    by simp
  have "[1024..2047] = [1024..1039] @ [1040..2047 :: int]"
    by (rule upto_append [of 1024 1040 2047, unfolded d]) simp_all
  moreover have "live_from nand_info (\<lambda>b. False) 1024 = [1024..2047]"
    by (simp add: live_from_def live_def nand_info_def filter_id_conv del: upto_rec_numeral)
  ultimately show ?thesis
    by (simp add: record_area_def nand_offset del: upto_rec_numeral)
qed

lemma nand_record: "record_ok nand_info nand_mem (\<lambda>b. False) 16"
  by (simp add: record_ok_def nand_pmi nand_offset nand_area)
    (simp add: start_ok_def nand_info_def STO_HEADER_SIZE_def live_def)

definition nand_rec :: "u8 \<Rightarrow> u8 list" where
  "nand_rec b = b # replicate 15 0xff"

lemma length_nand_rec [simp]: "length (nand_rec b) = 16"
  by (simp add: nand_rec_def)

theorem sysinfo_keeps_position_witness:
  "\<exists>st' m p k. map_option snd (alislsysinfo_upginfo_write nand_env True [] (Some (nand_rec 1)) 16 nand_sys) = Some st' \<and>
    si_lib st' = (si_lib nand_sys)\<lparr>devs := (devs (si_lib nand_sys))(0 \<mapsto> nand_dev\<lparr>dev_margin := m, dev_pmi := p\<rparr>), mtd_state := k\<rparr>"
proof -
  obtain st' where w: "alislsysinfo_upginfo_write nand_env True [] (Some (nand_rec 1)) 16 nand_sys = Some (16, st')"
    using record_write [OF nand_is_open nand_tables _ _ nand_record _ refl, of "nand_rec 1"] by auto
  have d: "nand_handle (si_lib nand_sys) = Some 0" "devs (si_lib nand_sys) 0 = Some nand_dev" "0 < dev_open_cnt nand_dev"
    "dev_open_cnt nand_dev + 1 < 2 ^ 32"
    by (simp_all add: nand_sys_def nand_dev_def demo_dev_def)
  have "(\<lambda>st. map_option snd (alislsysinfo_upginfo_write nand_env True [] (Some (nand_rec 1)) 16 st)) \<in>
      set (sysinfo_calls nand_env True [] (Some (nand_rec 1)) 16)"
    by (simp add: sysinfo_calls_def)
  from sysinfo_keeps_position [OF d this, of st'] w show ?thesis by simp
qed

lemma nand_small_area: "record_area nand_info nand_mem (\<lambda>b. False) 8 = [1024..1031]"
proof -
  have "record_area nand_info nand_mem (\<lambda>b. False) 8 = take 8 (record_area nand_info nand_mem (\<lambda>b. False) 16)"
    by (simp add: record_area_def)
  then show ?thesis
    by (simp add: nand_area)
qed

lemma nand_small_record: "record_place nand_info nand_mem (\<lambda>b. False) 8"
  by (simp add: record_place_def nand_pmi nand_offset nand_small_area)
    (simp add: start_ok_def nand_info_def STO_HEADER_SIZE_def live_def)

text \<open>A record of one page comes back; one of half a page is lost.\<close>

theorem upginfo_roundtrip_witness:
  "(\<exists>st1 st2. alislsysinfo_upginfo_write nand_env True [] (Some (nand_rec 1)) 16 nand_sys = Some (16, st1) \<and>
     alislsysinfo_upginfo_read nand_env True [] (Some (replicate 16 0)) 16 st1 = Some (16, Some (nand_rec 1), st2)) \<and>
   (\<exists>st1 st2. alislsysinfo_upginfo_write nand_env True [] (Some (replicate 8 1)) 8 nand_sys = Some (0, st1) \<and>
     alislsysinfo_upginfo_read nand_env True [] (Some (replicate 8 0)) 8 st1 = Some (8, Some (replicate 8 0xff), st2))"
proof (rule conjI)
  have w: "int 16 mod info_writesize nand_info = 0" "int 8 mod info_writesize nand_info \<noteq> 0"
    by (simp_all add: nand_info_def)
  show "\<exists>st1 st2. alislsysinfo_upginfo_write nand_env True [] (Some (nand_rec 1)) 16 nand_sys = Some (16, st1) \<and>
     alislsysinfo_upginfo_read nand_env True [] (Some (replicate 16 0)) 16 st1 = Some (16, Some (nand_rec 1), st2)"
    using upginfo_roundtrip [OF nand_is_open nand_tables _ _ conjunct1 [OF nand_record [unfolded record_ok_place]],
        of "nand_rec 1" "replicate 16 0" "[]"] w(1) by (auto simp: nand_area nand_mem_def)
  have "record_in_block nand_info (\<lambda>b. False) 1024 8" "law_whole_pages (env_drv nand_env 1) (\<lambda>k. k) nand_info"
    using nand_laws(2) by (simp_all add: record_in_block_def nand_info_def live_def nand_env_def)
  then show "\<exists>st1 st2. alislsysinfo_upginfo_write nand_env True [] (Some (replicate 8 1)) 8 nand_sys = Some (0, st1) \<and>
     alislsysinfo_upginfo_read nand_env True [] (Some (replicate 8 0)) 8 st1 = Some (8, Some (replicate 8 0xff), st2)"
    using upginfo_roundtrip [OF nand_is_open nand_tables _ _ nand_small_record, of "replicate 8 1" "replicate 8 0" "[]"] w(2)
    by (auto simp: nand_small_area nand_offset nand_mem_def)
qed

end
