(* ===== verification/Upgrade_V3.thy ===== *)
theory Upgrade_V3
  imports Sysinfo "HOL-Library.Multiset"
begin

section \<open>Package parser and partition table of upgrade library version 3 (\<open>alislupgradeparser.c\<close>)\<close>

text \<open>
  Version 3 of the upgrade library writes a package to the whole NAND flash. Its parser turns
  the configuration at the start of the package into a list of elements, each with its place in
  the package and its place on the flash (\<open>__upgrade_parse_configv1\<close>); when all elements are
  written, \<open>upgrade_parse_updatepmi\<close> puts their places into the page map index, from which the
  storage library reads the layout map when the flash is opened the next time
  (\<open>storage_parse\<close> of theory \<open>Storage_Ctl\<close>).

  Shown here: where the elements of a package lie, in the package and on the flash, for
  both kinds of packages, and that the layout map read from the updated index gives each
  element's partition the place, the size and the image size of the element.
\<close>

definition V3_ERR_NONE :: retcode where [retcode_defs]: "V3_ERR_NONE = 0"
definition V3_ERR_PARSECFGERR :: retcode where [retcode_defs]: "V3_ERR_PARSECFGERR = 4"
definition V3_ERR_CANTGETCFG :: retcode where [retcode_defs]: "V3_ERR_CANTGETCFG = 5"
definition V3_ERR_NOTENOUGHSPACE :: retcode where [retcode_defs]: "V3_ERR_NOTENOUGHSPACE = 7"
definition V3_ERR_MISMATCHPGSZ :: retcode where [retcode_defs]: "V3_ERR_MISMATCHPGSZ = 8"
definition V3_ERR_OTHER :: retcode where [retcode_defs]: "V3_ERR_OTHER = 10"

definition UPG_MAX_PARTS :: nat where "UPG_MAX_PARTS = 20"
definition UPG_MAX_CFGLEN :: nat where "UPG_MAX_CFGLEN = 4096"
definition DEFAULT_BOOTFILEDATA_START :: int where "DEFAULT_BOOTFILEDATA_START = 1024"
definition STO_UBOOT_BAK :: nat where "STO_UBOOT_BAK = 13"

datatype v3_level = UPG_LEVEL_NONE | UPG_LEVEL_BOOT | UPG_LEVEL_LOWLEVEL | UPG_LEVEL_APPLICATION

text \<open>The fields of \<open>upg_elem_t\<close> and \<open>upg_header_t\<close> that version 1 of the configuration uses.\<close>

record v3_elem =
  e3_partsz :: int
  e3_imgsz :: int
  e3_size :: int
  e3_offset :: int
  e3_dstoffset :: int
  e3_level :: v3_level
  e3_part_id :: nat
  e3_private :: bool

record v3_header =
  h3_elem :: "v3_elem list"
  h3_reqsz :: int
  h3_mono :: bool
  h3_upgdatasz :: int
  h3_maxpart_id :: nat
  h3_sign :: int
  h3_parts :: int
  h3_pktsz :: int
  h3_upgparts :: int
  h3_upgdata_offset :: int
  h3_bootfile_size :: int
  h3_bootfile_imgsz :: int
  h3_ubootfile_imgsz :: int
  h3_fskey_start :: int
  h3_fskey_end :: int
  h3_pagesz :: int
  h3_pktname :: string

subsection \<open>The list of elements\<close>

text \<open>An element is appended when its allocation succeeds.\<close>

definition v3_addelem :: "bool \<Rightarrow> v3_elem \<Rightarrow> v3_header \<Rightarrow> v3_header" where
  "v3_addelem ok el hdr = (if ok then hdr\<lparr>h3_elem := h3_elem hdr @ [el]\<rparr> else hdr)"

text \<open>
  The last element is freed and unlinked from its predecessor; a single element is freed but
  stays the head of the list.
\<close>

definition v3_delelem :: "v3_elem list \<Rightarrow> v3_elem list option" where
  "v3_delelem els = (case els of [] \<Rightarrow> Some [] | [el] \<Rightarrow> None | _ \<Rightarrow> Some (butlast els))"

definition v3_destroyelem :: "v3_header \<Rightarrow> v3_header" where
  "v3_destroyelem hdr = hdr\<lparr>h3_elem := []\<rparr>"

text \<open>
  The three lists of a level are linked one behind the other: the low level list is followed by the
  tail of the boot list (its last element), and without low level elements nothing follows the
  application list.
\<close>

definition v3_sortelem :: "v3_elem list \<Rightarrow> v3_elem list" where
  "v3_sortelem els =
     (let app = filter (\<lambda>el. e3_level el = UPG_LEVEL_APPLICATION) els;
          low = filter (\<lambda>el. e3_level el = UPG_LEVEL_LOWLEVEL) els;
          boot = filter (\<lambda>el. e3_level el = UPG_LEVEL_BOOT) els
      in if low \<noteq> [] then app @ low @ (if boot = [] then [] else [last boot])
         else if app \<noteq> [] then app else boot)"

subsection \<open>The configuration\<close>

text \<open>
  \<open>__ba_2_ul\<close> reads low byte first: the machine's byte order and the header's constant are both
  0. \<open>UPG_ALIGN_128K\<close> rounds up on unsigned values.
\<close>

definition align128k :: "int \<Rightarrow> int" where
  "align128k n = to_uint32 (n + 131071) div 131072 * 131072"

definition invalid_size :: "int \<Rightarrow> bool" where
  "invalid_size n \<longleftrightarrow> n = 0 \<or> n = 0xFFFFFFFF"

definition upg_maplevel :: "v3_level list" where
  "upg_maplevel = [UPG_LEVEL_NONE, UPG_LEVEL_BOOT, UPG_LEVEL_LOWLEVEL, UPG_LEVEL_LOWLEVEL] @
     replicate 8 UPG_LEVEL_APPLICATION @ [UPG_LEVEL_NONE, UPG_LEVEL_NONE]"

text \<open>A field of the layout map of the open flash; an index outside the map is undefined.\<close>

definition v3_tell :: "nat option \<Rightarrow> 'k sto_lib \<Rightarrow> nat \<Rightarrow> alislsto_partattr \<Rightarrow> int option" where
  "v3_tell nand lib idx attr =
     (case nand of
        None \<Rightarrow> alislsto_tell_ext None idx attr
      | Some h \<Rightarrow> do { dev \<leftarrow> devs lib h; alislsto_tell_ext (Some dev) idx attr })"

text \<open>
  The fields of the header. The sum of the number of parts and one is compared as an integer; it leaves
  the range of an \<open>int\<close> only for the largest number, where the C expression is undefined.
\<close>

definition v3_fields :: "string \<Rightarrow> u8 list \<Rightarrow> v3_header \<Rightarrow> v3_header" where
  "v3_fields config buf hdr =
     (let parts = to_int32 (le32 buf 256); upgparts = to_int32 (le32 buf 516);
          upgdata_offset = to_int32 (le32 buf 520); pktsz = le32 buf 512; bootfile_imgsz = le32 buf 524
      in hdr\<lparr>h3_sign := le32 buf 12, h3_parts := parts, h3_pktsz := pktsz, h3_upgparts := upgparts,
           h3_upgdata_offset := upgdata_offset, h3_bootfile_imgsz := bootfile_imgsz,
           h3_bootfile_size := align128k bootfile_imgsz, h3_ubootfile_imgsz := le32 buf 196,
           h3_fskey_start := to_int32 (le32 buf 688), h3_fskey_end := to_int32 (le32 buf 692),
           h3_pagesz := le32 buf 696, h3_upgdatasz := to_uint32 (pktsz - upgdata_offset), h3_pktname := config,
           h3_mono := (if parts = upgparts + 1 then True else h3_mono hdr)\<rparr>)"

text \<open>
  The place of a part on the flash: in a package for the whole flash the parts follow each other
  from the kernel partition on, otherwise a part goes to its partition and must not be larger.
  The first part is the private area, which has no place of its own.
\<close>

definition v3_place :: "(nat \<Rightarrow> alislsto_partattr \<Rightarrow> int option) \<Rightarrow> bool \<Rightarrow> nat \<Rightarrow> int \<Rightarrow> v3_elem \<Rightarrow> (retcode + v3_elem \<times> int) option" where
  "v3_place tell whole i base el =
     (if i = 0 then Some (Inr (el, base))
      else if whole then Some (Inr (el\<lparr>e3_dstoffset := to_int32 base\<rparr>, to_uint32 (base + e3_partsz el)))
      else do {
        part_off \<leftarrow> tell (e3_part_id el) STO_PART_OFFSET;
        part_size \<leftarrow> tell (e3_part_id el) STO_PART_SIZE;
        Some (if e3_partsz el > part_size then Inl V3_ERR_NOTENOUGHSPACE
              else Inr (el\<lparr>e3_dstoffset := to_int32 part_off, e3_partsz := part_size\<rparr>, base)) })"

text \<open>
  The loop over the parts; \<open>is\<close> are the values of the counter left. \<open>al\<close> says whether the allocation
  of the element of a part succeeds.
\<close>

primrec v3_parts :: "(nat \<Rightarrow> alislsto_partattr \<Rightarrow> int option) \<Rightarrow> (nat \<Rightarrow> bool) \<Rightarrow> u8 list \<Rightarrow> nat list \<Rightarrow> int \<Rightarrow> int \<Rightarrow> v3_header
    \<Rightarrow> (retcode \<times> v3_header) option" where
  "v3_parts tell al buf [] elemoffset base hdr = Some (V3_ERR_NONE, hdr)"
| "v3_parts tell al buf (i # is) elemoffset base hdr =
     (let partsz = le32 buf (260 + i * 8 + 4); imgsz = le32 buf (420 + i * 4); size = align128k imgsz;
          next_offset = to_int32 (elemoffset + (if i = 0 then h3_bootfile_size hdr else size))
      in if (invalid_size partsz \<or> invalid_size imgsz) \<and> i \<noteq> 0 then v3_parts tell al buf is next_offset base hdr
         else do {
           let partsz = to_uint32 (partsz * 1024);
           let hdr = hdr\<lparr>h3_reqsz := to_uint32 (h3_reqsz hdr + partsz), h3_maxpart_id := max (h3_maxpart_id hdr) (i + 1)\<rparr>;
           placed \<leftarrow> v3_place tell (h3_mono hdr) i base
              \<lparr>e3_partsz = partsz, e3_imgsz = imgsz, e3_size = size, e3_offset = elemoffset, e3_dstoffset = 0,
               e3_level = UPG_LEVEL_NONE, e3_part_id = i + 1, e3_private = (i = 0)\<rparr>;
           case placed of
             Inl err \<Rightarrow> Some (err, hdr)
           | Inr (el, base) \<Rightarrow>
               if length upg_maplevel \<le> i + 1 then None
               else do {
                 let el = el\<lparr>e3_level := upg_maplevel ! (i + 1)\<rparr>;
                 let hdr = (if e3_level el \<noteq> UPG_LEVEL_NONE then v3_addelem (al (i + 1)) el hdr else hdr);
                 v3_parts tell al buf is next_offset base hdr } })"

text \<open>
  \<open>upgstat_t\<close> has 26 words; \<open>cur_uboot\<close> is the 22nd. The structure is a local variable of the
  callers that is not initialised: \<open>junk\<close> is what it holds.
\<close>

definition UPGSTAT_SIZE :: nat where "UPGSTAT_SIZE = 104"

definition cur_uboot :: "u8 list \<Rightarrow> int" where
  "cur_uboot stat = le32 stat 84"

text \<open>\<open>info.c\<close>: the calls of the system information library, their results dropped.\<close>

definition alislupg_upginfo_read :: "'k sto_env \<Rightarrow> bool \<Rightarrow> storage_map list \<Rightarrow> u8 list option \<Rightarrow> nat \<Rightarrow> 'k sysinfo \<Rightarrow> (u8 list option \<times> 'k sysinfo) option" where
  "alislupg_upginfo_read e malloc_ok layout buf sz st = do {
     (n, buf, st) \<leftarrow> alislsysinfo_upginfo_read e malloc_ok layout buf sz st; Some (buf, st) }"

definition alislupg_upginfo_write :: "'k sto_env \<Rightarrow> bool \<Rightarrow> storage_map list \<Rightarrow> u8 list option \<Rightarrow> nat \<Rightarrow> 'k sysinfo \<Rightarrow> 'k sysinfo option" where
  "alislupg_upginfo_write e malloc_ok layout buf sz st = do {
     (n, st) \<leftarrow> alislsysinfo_upginfo_write e malloc_ok layout buf sz st; Some st }"

definition alislupg_extinfo_read :: "'k sto_env \<Rightarrow> bool \<Rightarrow> storage_map list \<Rightarrow> u8 list option \<Rightarrow> nat \<Rightarrow> 'k sysinfo \<Rightarrow> (u8 list option \<times> 'k sysinfo) option" where
  "alislupg_extinfo_read e malloc_ok layout buf sz st = do {
     (n, buf, st) \<leftarrow> alislsysinfo_extinfo_read e malloc_ok layout buf sz st; Some (buf, st) }"

definition alislupg_extinfo_write :: "'k sto_env \<Rightarrow> bool \<Rightarrow> storage_map list \<Rightarrow> u8 list option \<Rightarrow> nat \<Rightarrow> 'k sysinfo \<Rightarrow> 'k sysinfo option" where
  "alislupg_extinfo_write e malloc_ok layout buf sz st = do {
     (n, st) \<leftarrow> alislsysinfo_extinfo_write e malloc_ok layout buf sz st; Some st }"

text \<open>
  The element of a U-Boot image: it lies in the boot file of the package and goes to the
  partition that is not in use.
\<close>

definition v3_uboot_elem :: "'k sto_env \<Rightarrow> bool \<Rightarrow> storage_map list \<Rightarrow> u8 list \<Rightarrow> nat option \<Rightarrow> v3_header \<Rightarrow> 'k sysinfo \<Rightarrow> (v3_elem \<times> 'k sysinfo) option" where
  "v3_uboot_elem e malloc_ok layout junk nand hdr st = do {
     (stat, st) \<leftarrow> alislupg_upginfo_read e malloc_ok layout (Some junk) UPGSTAT_SIZE st;
     stat \<leftarrow> stat;
     let imgsz = h3_ubootfile_imgsz hdr;
     let part_id = (if cur_uboot stat \<noteq> 0 then STO_UBOOT else STO_UBOOT_BAK);
     partsz \<leftarrow> v3_tell nand (si_lib st) part_id STO_PART_SIZE;
     dstoffset \<leftarrow> v3_tell nand (si_lib st) part_id STO_PART_OFFSET;
     Some (\<lparr>e3_partsz = partsz, e3_imgsz = imgsz,
            e3_size = to_uint32 (align128k (to_uint32 (imgsz + DEFAULT_BOOTFILEDATA_START)) - DEFAULT_BOOTFILEDATA_START),
            e3_offset = to_int32 (h3_upgdata_offset hdr + DEFAULT_BOOTFILEDATA_START), e3_dstoffset = to_int32 dstoffset,
            e3_level = UPG_LEVEL_NONE, e3_part_id = part_id, e3_private = True\<rparr>, st) }"

definition v3_parse_configv1 :: "'k sto_env \<Rightarrow> bool \<Rightarrow> storage_map list \<Rightarrow> bool \<Rightarrow> (nat \<Rightarrow> bool) \<Rightarrow> u8 list \<Rightarrow> nat option \<Rightarrow> string \<Rightarrow> u8 list
    \<Rightarrow> v3_header \<Rightarrow> 'k sysinfo \<Rightarrow> (retcode \<times> v3_header \<times> 'k sysinfo) option" where
  "v3_parse_configv1 e malloc_ok layout elem_ok al junk nand config buf hdr st = do {
     base \<leftarrow> v3_tell nand (si_lib st) STO_KERNEL STO_PART_OFFSET;
     let hdr = v3_fields config buf hdr;
     if \<not> elem_ok then Some (V3_ERR_OTHER, hdr, st)
     else do {
       let hdr = hdr\<lparr>h3_maxpart_id := 0, h3_reqsz := 0\<rparr>;
       (hdr, st) \<leftarrow> (if h3_ubootfile_imgsz hdr > 0 then do {
            (el, st) \<leftarrow> v3_uboot_elem e malloc_ok layout junk nand hdr st;
            Some (v3_addelem (al (e3_part_id el)) el hdr, st) }
          else Some (hdr, st));
       (err, hdr) \<leftarrow> v3_parts (v3_tell nand (si_lib st)) al buf [0..<UPG_MAX_PARTS] (h3_upgdata_offset hdr) base hdr;
       Some (err, hdr, st) } }"

subsection \<open>Getting the configuration\<close>

text \<open>
  The blocks of memory an upgrade allocates: the three structures of a start, the buffer of the tune and
  the elements of the list. The heap holds one entry for every block that has not been freed; a block
  that is still there when no pointer leads to it any more is leaked. A block is freed once: \<open>free\<close> of
  a null pointer does nothing, of a freed block it is undefined.
\<close>

datatype v3_block = B_Header | B_Tune | B_Writter | B_Dest | B_Elem

type_synonym v3_heap = "v3_block multiset"

definition v3_free :: "v3_block \<Rightarrow> 'a ptr \<Rightarrow> v3_heap \<Rightarrow> v3_heap option" where
  "v3_free b q heap = (case q of Null \<Rightarrow> Some heap | Dangling \<Rightarrow> None | Valid x \<Rightarrow> if b \<in># heap then Some (heap - {#b#}) else None)"

text \<open>
  The handlers of a plugin. \<open>p3_getcfg\<close> fills the buffer and returns a length; the operations get the
  plugin's state and the error field of the descriptor. The start and the stop get the pointer to the buffer of the
  tune and the heap; the start is told whether an allocation succeeds and says whether it has created the source thread.
\<close>

record 'p v3_ops =
  p3_getcfg :: "('p \<Rightarrow> u8 list \<Rightarrow> int \<times> u8 list \<times> 'p) option"
  p3_setpktname :: "string \<Rightarrow> 'p \<Rightarrow> 'p"
  p3_setupgdata_offset :: "int \<Rightarrow> 'p \<Rightarrow> 'p"
  p3_prestart :: "'p \<times> retcode \<Rightarrow> 'p \<times> retcode"
  p3_prestop :: "'p \<times> retcode \<Rightarrow> 'p \<times> retcode"
  p3_start :: "bool \<Rightarrow> 'p \<times> unit ptr \<times> v3_heap \<Rightarrow> bool \<times> 'p \<times> unit ptr \<times> v3_heap"
  p3_stop :: "'p \<times> unit ptr \<times> v3_heap \<Rightarrow> ('p \<times> unit ptr \<times> v3_heap) option"

text \<open>The handler is called until it returns a positive length, seven times at most; \<open>n\<close> is the number of retries left.\<close>

primrec v3_getcfg_loop :: "('p \<Rightarrow> u8 list \<Rightarrow> int \<times> u8 list \<times> 'p) \<Rightarrow> nat \<Rightarrow> 'p \<Rightarrow> u8 list \<Rightarrow> int \<times> u8 list \<times> 'p" where
  "v3_getcfg_loop getcfg 0 p buf = getcfg p buf"
| "v3_getcfg_loop getcfg (Suc n) p buf =
     (let (len, buf, p) = getcfg p buf in if len \<le> 0 then v3_getcfg_loop getcfg n p buf else (len, buf, p))"

text \<open>\<open>cfgv1\<close> says that the configuration has version 1; version 2 is parsed by an empty function.\<close>

definition v3_parse_config :: "'k sto_env \<Rightarrow> bool \<Rightarrow> storage_map list \<Rightarrow> bool \<Rightarrow> bool \<Rightarrow> (nat \<Rightarrow> bool) \<Rightarrow> u8 list \<Rightarrow> 'p v3_ops \<Rightarrow> 'p \<Rightarrow> bool
    \<Rightarrow> nat option \<Rightarrow> string \<Rightarrow> v3_header \<Rightarrow> 'k sysinfo \<Rightarrow> (retcode \<times> v3_header \<times> 'p \<times> 'k sysinfo) option" where
  "v3_parse_config e malloc_ok layout buf_ok elem_ok al junk ops p cfgv1 nand config hdr st =
     (case p3_getcfg ops of
        None \<Rightarrow> Some (V3_ERR_OTHER, hdr, p, st)
      | Some getcfg \<Rightarrow>
          if \<not> buf_ok then Some (V3_ERR_OTHER, hdr, p, st)
          else do {
            let (len, buf, p) = v3_getcfg_loop getcfg 6 p (replicate UPG_MAX_CFGLEN 0);
            if len \<le> 0 then Some (V3_ERR_CANTGETCFG, hdr, p, st)
            else do {
              (err, hdr, st) \<leftarrow> (if cfgv1 then v3_parse_configv1 e malloc_ok layout elem_ok al junk nand config buf hdr st
                                  else Some (V3_ERR_NONE, hdr, st));
              let p = p3_setpktname ops (h3_pktname hdr) p;
              let p = p3_setupgdata_offset ops (to_int32 (h3_upgdata_offset hdr +
                        (if h3_ubootfile_imgsz hdr > 0 then DEFAULT_BOOTFILEDATA_START else h3_bootfile_size hdr))) p;
              Some (err, hdr, p, st) } })"

subsection \<open>The new partition table\<close>

definition word_bytes :: "int \<Rightarrow> u8 list" where
  "word_bytes x = [word_of_int x, word_of_int (x div 256), word_of_int (x div 65536), word_of_int (x div 16777216)]"

text \<open>The entries of one element; of a private element only the image size of a U-Boot is kept.\<close>

definition v3_pmi_elem :: "nat \<Rightarrow> v3_elem \<Rightarrow> u8 list \<Rightarrow> u8 list" where
  "v3_pmi_elem shift el pmi =
     (let i = e3_part_id el
      in if e3_private el then
           if i = STO_UBOOT \<or> i = STO_UBOOT_BAK then memcpy_at (192 + (i - STO_UBOOT) * 8 + 4) (word_bytes (e3_imgsz el)) pmi
           else pmi
         else memcpy_at (420 + (i - 1) * 4) (word_bytes (e3_imgsz el))
                (memcpy_at (260 + (i - 1) * 8 + 4) (word_bytes (e3_partsz el div 2 ^ shift))
                  (memcpy_at (260 + (i - 1) * 8) (word_bytes (e3_dstoffset el div 2 ^ shift)) pmi)))"

definition pmi_shift :: "u8 list \<Rightarrow> nat" where
  "pmi_shift buf = (if le32 buf 28 = 1024 then 10 else 9)"

definition v3_new_pmi :: "v3_elem list \<Rightarrow> u8 list \<Rightarrow> u8 list" where
  "v3_new_pmi els buf = fold (v3_pmi_elem (pmi_shift buf)) els buf"

definition v3_updatepmi :: "'k sto_env \<Rightarrow> bool \<Rightarrow> bool \<Rightarrow> nat option \<Rightarrow> v3_elem list \<Rightarrow> 'k sto_lib \<Rightarrow> (retcode \<times> 'k sto_lib) option" where
  "v3_updatepmi e malloc_ok wrbuf_ok nand els s =
     (if \<not> malloc_ok then Some (V3_ERR_OTHER, s)
      else do {
        (r, s) \<leftarrow> lib_get_pmi e nand s;
        case r of
          None \<Rightarrow> Some (STO_ERR_INVALIDHANDLE, s)
        | Some (ret, p) \<Rightarrow>
            if ret \<noteq> STO_ERR_NONE then Some (ret, s)
            else do {
              let p = p\<lparr>pmi_buf := v3_new_pmi els (pmi_buf p), pmi_length := STO_HEADER_SIZE\<rparr>;
              (r, s) \<leftarrow> on_handle e (\<lambda>drv dev k. alislsto_set_pmi drv wrbuf_ok dev k (Some p)) nand s;
              Some (case r of None \<Rightarrow> (STO_ERR_INVALIDHANDLE, s)
                    | Some ret \<Rightarrow> (if ret \<noteq> STO_ERR_NONE then (ret, s) else (V3_ERR_NONE, s))) } })"

subsection \<open>Where the parts lie\<close>

text \<open>The entries of part \<open>i\<close> in the configuration and whether the parser uses the part.\<close>

definition part_sz :: "u8 list \<Rightarrow> nat \<Rightarrow> int" where
  "part_sz buf i = to_uint32 (le32 buf (260 + i * 8 + 4) * 1024)"

definition img_sz :: "u8 list \<Rightarrow> nat \<Rightarrow> int" where
  "img_sz buf i = le32 buf (420 + i * 4)"

definition part_used :: "u8 list \<Rightarrow> nat \<Rightarrow> bool" where
  "part_used buf i \<longleftrightarrow> i = 0 \<or> \<not> (invalid_size (le32 buf (260 + i * 8 + 4)) \<or> invalid_size (img_sz buf i))"

text \<open>
  Where part \<open>i\<close> begins in the package: behind the boot file and the images of the parts before it,
  each rounded up to 128 KiB. In a package for the whole flash it goes behind the partitions of
  the used parts before it.
\<close>

definition pkg_offset :: "u8 list \<Rightarrow> int \<Rightarrow> int \<Rightarrow> nat \<Rightarrow> int" where
  "pkg_offset buf start boot i = (if i = 0 then start else start + boot + (\<Sum>j\<leftarrow>[1..<i]. align128k (img_sz buf j)))"

definition flash_base :: "u8 list \<Rightarrow> int \<Rightarrow> nat \<Rightarrow> int" where
  "flash_base buf base i = base + (\<Sum>j\<leftarrow>filter (part_used buf) [1..<i]. part_sz buf j)"

definition whole_elem :: "u8 list \<Rightarrow> int \<Rightarrow> int \<Rightarrow> int \<Rightarrow> nat \<Rightarrow> v3_elem" where
  "whole_elem buf start boot base i =
     \<lparr>e3_partsz = part_sz buf i, e3_imgsz = img_sz buf i, e3_size = align128k (img_sz buf i),
      e3_offset = pkg_offset buf start boot i, e3_dstoffset = (if i = 0 then 0 else flash_base buf base i),
      e3_level = upg_maplevel ! (i + 1), e3_part_id = i + 1, e3_private = (i = 0)\<rparr>"

lemma pkg_offset_Suc:
  "pkg_offset buf start boot (Suc i) = pkg_offset buf start boot i + (if i = 0 then boot else align128k (img_sz buf i))"
  by (simp add: pkg_offset_def upt_Suc del: upt_Suc) (simp add: upt_Suc)

lemma flash_base_Suc:
  "flash_base buf base (Suc i) = (if i \<noteq> 0 \<and> part_used buf i then flash_base buf base i + part_sz buf i else flash_base buf base i)"
  by (auto simp: flash_base_def)

lemma align128k_nonneg: "0 \<le> align128k n"
  using to_uint32_range(1) [of "n + 131071"] by (simp add: align128k_def pos_imp_zdiv_nonneg_iff)

lemma part_sz_nonneg: "0 \<le> part_sz buf i"
  by (simp add: part_sz_def to_uint32_range)

lemma pkg_offset_mono: "0 \<le> boot \<Longrightarrow> i \<le> j \<Longrightarrow> pkg_offset buf start boot i \<le> pkg_offset buf start boot j"
  by (rule lift_Suc_mono_le [of "pkg_offset buf start boot"]) (simp_all add: pkg_offset_Suc align128k_nonneg)

lemma flash_base_mono: "i \<le> j \<Longrightarrow> flash_base buf base i \<le> flash_base buf base j"
  by (rule lift_Suc_mono_le [of "flash_base buf base"]) (simp_all add: flash_base_Suc part_sz_nonneg)

definition level_used :: "nat \<Rightarrow> bool" where
  "level_used i \<longleftrightarrow> upg_maplevel ! (i + 1) \<noteq> UPG_LEVEL_NONE"

lemma whole_parts:
  assumes "h3_mono hdr" and "\<And>p. al p" and "h3_bootfile_size hdr = boot" and "0 \<le> start" and "0 \<le> boot" and "0 \<le> base"
    and "\<And>i. length upg_maplevel \<le> i + 1 \<Longrightarrow> i < n \<Longrightarrow> \<not> part_used buf i"
    and "pkg_offset buf start boot n < 2 ^ 31" and "flash_base buf base n < 2 ^ 31" and "i \<le> n"
  shows "\<exists>hdr'. v3_parts tell al buf [i..<n] (pkg_offset buf start boot i) (flash_base buf base i) hdr = Some (V3_ERR_NONE, hdr') \<and>
    h3_elem hdr' = h3_elem hdr @ map (whole_elem buf start boot base) (filter (\<lambda>i. part_used buf i \<and> level_used i) [i..<n])"
  using assms(1,3,10)
proof (induction "n - i" arbitrary: i hdr)
  case 0
  then show ?case by simp
next
  case (Suc d)
  then have "i < n"
    by simp
  then have upt: "[i..<n] = i # [Suc i..<n]" "d = n - Suc i" "Suc i \<le> n"
    using Suc.hyps(2) by (simp_all add: upt_conv_Cons)
  have b: "0 \<le> pkg_offset buf start boot (Suc i)" "pkg_offset buf start boot (Suc i) < 2 ^ 31"
    "0 \<le> flash_base buf base i" "flash_base buf base i < 2 ^ 31"
    "0 \<le> flash_base buf base (Suc i)" "flash_base buf base (Suc i) < 2 ^ 31"
    using pkg_offset_mono [OF assms(5), of 0 "Suc i" buf start] pkg_offset_mono [OF assms(5) upt(3), of buf start]
      flash_base_mono [of 0 i buf base] flash_base_mono [of 0 "Suc i" buf base] flash_base_mono [OF upt(3), of buf base]
      flash_base_mono [of i n buf base] assms(4,6,8,9) \<open>i < n\<close>
    by (auto simp: pkg_offset_def flash_base_def)
  have next_off: "to_int32 (pkg_offset buf start boot i + (if i = 0 then h3_bootfile_size hdr else align128k (le32 buf (420 + i * 4)))) =
      pkg_offset buf start boot (Suc i)"
    using to_int32_id [of "pkg_offset buf start boot (Suc i)"] b(1,2) Suc.prems(2)
    unfolding pkg_offset_Suc img_sz_def by (cases "i = 0") simp_all
  show ?case
  proof (cases "part_used buf i")
    case False
    then have "i \<noteq> 0" "invalid_size (le32 buf (260 + i * 8 + 4)) \<or> invalid_size (le32 buf (420 + i * 4))"
      by (auto simp: part_used_def img_sz_def)
    moreover have "flash_base buf base (Suc i) = flash_base buf base i"
      using False by (simp add: flash_base_Suc)
    ultimately show ?thesis
      using Suc.hyps(1) [OF upt(2) Suc.prems(1,2) upt(3)] False next_off unfolding upt(1) by (simp add: Let_def)
  next
    case True
    let ?hdr = "hdr\<lparr>h3_reqsz := to_uint32 (h3_reqsz hdr + part_sz buf i), h3_maxpart_id := max (h3_maxpart_id hdr) (i + 1)\<rparr>"
    let ?hdr' = "if level_used i then ?hdr\<lparr>h3_elem := h3_elem hdr @ [whole_elem buf start boot base i]\<rparr> else ?hdr"
    have lt: "i + 1 < length upg_maplevel"
      using assms(7) [of i] True \<open>i < n\<close> by linarith
    have fb: "flash_base buf base (Suc i) = (if i = 0 then flash_base buf base i else to_uint32 (flash_base buf base i + part_sz buf i))"
      using True b(5,6) by (simp add: flash_base_Suc to_uint32_id split: if_splits)
    have "v3_parts tell al buf [i..<n] (pkg_offset buf start boot i) (flash_base buf base i) hdr =
        v3_parts tell al buf [Suc i..<n] (pkg_offset buf start boot (Suc i)) (flash_base buf base (Suc i)) ?hdr'"
      unfolding upt(1) using True lt next_off fb b(3,4) Suc.prems(1) assms(2)
      by (auto simp: v3_place_def Let_def part_used_def img_sz_def part_sz_def v3_addelem_def whole_elem_def level_used_def to_int32_id)
    with Suc.hyps(1) [OF upt(2), of ?hdr'] Suc.prems(1,2) upt(3) True show ?thesis
      unfolding upt(1) by (cases "level_used i") auto
  qed
qed

lemma whole_elems_apart:
  assumes "0 \<le> boot" and "sorted_wrt (<) is" and "\<And>i. i \<in> set is \<Longrightarrow> part_used buf i"
  shows "sorted_wrt (\<lambda>a b. e3_private a \<or> e3_dstoffset a + e3_partsz a \<le> e3_dstoffset b \<and> e3_offset a + e3_size a \<le> e3_offset b)
    (map (whole_elem buf start boot base) is)"
proof -
  have "i \<noteq> 0 \<Longrightarrow> flash_base buf base i + part_sz buf i \<le> flash_base buf base j \<and>
      pkg_offset buf start boot i + align128k (img_sz buf i) \<le> pkg_offset buf start boot j"
    if "i < j" "part_used buf i" for i j
    using that flash_base_mono [of "Suc i" j buf base] pkg_offset_mono [OF assms(1), of "Suc i" j buf start]
    by (simp add: flash_base_Suc pkg_offset_Suc)
  then show ?thesis
    unfolding sorted_wrt_map using assms(2,3)
    by (auto simp: whole_elem_def intro: sorted_wrt_mono_rel [of _ "(<)"])
qed

text \<open>
  (C15) A package for the whole flash without a U-Boot image: the parser makes an element of every used part
  of a level, in order. The images follow each other in the package behind the boot file, each
  rounded up to 128 KiB, and the partitions follow each other on the flash from the kernel partition
  on; no two elements overlap, the private element apart. Parts of the level none are skipped.
\<close>

theorem whole_package_layout:
  assumes "v3_tell nand (si_lib st) STO_KERNEL STO_PART_OFFSET = Some base" and "0 \<le> base"
    and "to_int32 (le32 buf 256) = to_int32 (le32 buf 516) + 1" and "le32 buf 196 = 0"
    and "start = to_int32 (le32 buf 520)" and "0 \<le> start" and "boot = align128k (le32 buf 524)"
    and "\<forall>i<UPG_MAX_PARTS. length upg_maplevel \<le> i + 1 \<longrightarrow> \<not> part_used buf i"
    and "pkg_offset buf start boot UPG_MAX_PARTS < 2 ^ 31" and "flash_base buf base UPG_MAX_PARTS < 2 ^ 31"
    and "\<forall>p. al p" and "h3_elem hdr = []"
  shows "\<exists>hdr'. v3_parse_configv1 e malloc_ok layout True al junk nand config buf hdr st = Some (V3_ERR_NONE, hdr', st) \<and>
    h3_elem hdr' = map (whole_elem buf start boot base) (filter (\<lambda>i. part_used buf i \<and> level_used i) [0..<UPG_MAX_PARTS]) \<and>
    sorted_wrt (\<lambda>a b. e3_private a \<or> e3_dstoffset a + e3_partsz a \<le> e3_dstoffset b \<and> e3_offset a + e3_size a \<le> e3_offset b)
      (h3_elem hdr')"
proof -
  let ?is = "filter (\<lambda>i. part_used buf i \<and> level_used i) [0..<UPG_MAX_PARTS]"
  let ?hdr = "(v3_fields config buf hdr)\<lparr>h3_maxpart_id := 0, h3_reqsz := 0\<rparr>"
  have f: "h3_mono ?hdr" "h3_bootfile_size ?hdr = boot" "h3_ubootfile_imgsz ?hdr = 0" "h3_upgdata_offset ?hdr = start" "h3_elem ?hdr = []"
    using assms(3-5,7,12) by (simp_all add: v3_fields_def Let_def)
  have z: "pkg_offset buf start boot 0 = start" "flash_base buf base 0 = base"
    by (simp_all add: pkg_offset_def flash_base_def)
  have boot: "0 \<le> boot"
    using assms(7) by (simp add: align128k_nonneg)
  obtain hdr' where p: "v3_parts (v3_tell nand (si_lib st)) al buf [0..<UPG_MAX_PARTS] start base ?hdr = Some (V3_ERR_NONE, hdr')"
    "h3_elem hdr' = map (whole_elem buf start boot base) ?is"
    using whole_parts [OF f(1) _ f(2) assms(6) boot assms(2) _ assms(9,10), of al 0 "v3_tell nand (si_lib st)"] assms(8,11) f(5) z by auto
  have "sorted_wrt (<) ?is"
    by (intro sorted_wrt_filter) simp
  from whole_elems_apart [OF boot this, of buf start base] p assms(1) f(3,4) show ?thesis
    by (simp add: v3_parse_configv1_def Let_def)
qed

text \<open>
  What the parser makes of the other packages: each element but a private one has the place and the
  size of its partition, and no part is larger than its partition.
\<close>

definition in_partition :: "(nat \<Rightarrow> alislsto_partattr \<Rightarrow> int option) \<Rightarrow> u8 list \<Rightarrow> v3_elem \<Rightarrow> bool" where
  "in_partition tell buf el \<longleftrightarrow> e3_private el \<or>
     (\<exists>off. tell (e3_part_id el) STO_PART_OFFSET = Some off \<and> e3_dstoffset el = to_int32 off \<and>
        tell (e3_part_id el) STO_PART_SIZE = Some (e3_partsz el) \<and> part_sz buf (e3_part_id el - 1) \<le> e3_partsz el)"

lemma placed_in_partition:
  assumes "v3_place tell False i base el = Some (Inr (el', base'))" and "e3_part_id el = i + 1" and "e3_partsz el = part_sz buf i"
    and "e3_private el = (i = 0)"
  shows "in_partition tell buf (el'\<lparr>e3_level := l\<rparr>)"
  using assms by (auto simp: v3_place_def in_partition_def bind_eq_Some_conv split: if_splits)

definition part_elem :: "u8 list \<Rightarrow> nat \<Rightarrow> int \<Rightarrow> v3_elem" where
  "part_elem buf i eo = \<lparr>e3_partsz = part_sz buf i, e3_imgsz = img_sz buf i, e3_size = align128k (img_sz buf i), e3_offset = eo,
     e3_dstoffset = 0, e3_level = UPG_LEVEL_NONE, e3_part_id = i + 1, e3_private = (i = 0)\<rparr>"

definition count_part :: "u8 list \<Rightarrow> nat \<Rightarrow> v3_header \<Rightarrow> v3_header" where
  "count_part buf i hdr = hdr\<lparr>h3_reqsz := to_uint32 (h3_reqsz hdr + part_sz buf i), h3_maxpart_id := max (h3_maxpart_id hdr) (i + 1)\<rparr>"

lemma count_part_simps [simp]: "h3_elem (count_part buf i hdr) = h3_elem hdr" "h3_mono (count_part buf i hdr) = h3_mono hdr"
  by (simp_all add: count_part_def)

lemma v3_upd: "h3_mono (hdr\<lparr>h3_reqsz := x, h3_maxpart_id := y\<rparr>) = h3_mono hdr" "e3_level (el\<lparr>e3_level := l\<rparr>) = l"
  by simp_all

lemma v3_parts_used:
  assumes "part_used buf i"
  shows "v3_parts tell al buf (i # is) eo base hdr =
    Option.bind (v3_place tell (h3_mono hdr) i base (part_elem buf i eo)) (\<lambda>placed. case placed of
        Inl err \<Rightarrow> Some (err, count_part buf i hdr)
      | Inr (el, base) \<Rightarrow>
          if length upg_maplevel \<le> i + 1 then None
          else v3_parts tell al buf is (to_int32 (eo + (if i = 0 then h3_bootfile_size hdr else align128k (img_sz buf i)))) base
                 (if level_used i then v3_addelem (al (i + 1)) (el\<lparr>e3_level := upg_maplevel ! (i + 1)\<rparr>) (count_part buf i hdr)
                  else count_part buf i hdr))"
proof -
  have "\<not> ((invalid_size (le32 buf (260 + i * 8 + 4)) \<or> invalid_size (le32 buf (420 + i * 4))) \<and> i \<noteq> 0)"
    using assms by (auto simp: part_used_def img_sz_def)
  then show ?thesis
    unfolding v3_parts.simps Let_def part_elem_def count_part_def part_sz_def img_sz_def level_used_def v3_upd by (simp only: if_False)
qed

lemma v3_parts_skipped:
  assumes "\<not> part_used buf i"
  shows "v3_parts tell al buf (i # is) eo base hdr = v3_parts tell al buf is (to_int32 (eo + align128k (img_sz buf i))) base hdr"
  using assms by (simp add: Let_def part_used_def img_sz_def)

lemma parts_in_partitions:
  assumes "v3_parts tell al buf is eo base hdr = Some (err, hdr')" and "\<not> h3_mono hdr"
    and "\<forall>el\<in>set (h3_elem hdr). in_partition tell buf el"
  shows "\<forall>el\<in>set (h3_elem hdr'). in_partition tell buf el"
  using assms
proof (induction "is" arbitrary: eo base hdr)
  case (Cons i is')
  show ?case
  proof (cases "part_used buf i")
    case False
    then show ?thesis
      using Cons by (simp add: v3_parts_skipped del: v3_parts.simps)
  next
    case True
    then obtain placed where pl: "v3_place tell False i base (part_elem buf i eo) = Some placed"
      using Cons.prems(1,2) by (auto simp: v3_parts_used bind_eq_Some_conv simp del: v3_parts.simps)
    note r = Cons.prems(1) [unfolded v3_parts_used [OF True]]
    show ?thesis
    proof (cases placed)
      case (Inl x)
      with r pl Cons.prems(2,3) show ?thesis by auto
    next
      case (Inr y)
      obtain el base' where y: "y = (el, base')"
        by fastforce
      let ?hdr = "if level_used i then v3_addelem (al (i + 1)) (el\<lparr>e3_level := upg_maplevel ! (i + 1)\<rparr>) (count_part buf i hdr)
                  else count_part buf i hdr"
      have "in_partition tell buf (el\<lparr>e3_level := upg_maplevel ! (i + 1)\<rparr>)"
        by (rule placed_in_partition [of tell i base "part_elem buf i eo" el base']) (use pl Inr y in \<open>simp_all add: part_elem_def\<close>)
      then have "\<not> h3_mono ?hdr" "\<forall>el\<in>set (h3_elem ?hdr). in_partition tell buf el"
        using Cons.prems(2,3) by (auto simp: v3_addelem_def)
      moreover have "\<exists>eo'. v3_parts tell al buf is' eo' base' ?hdr = Some (err, hdr')"
        using r pl Inr y Cons.prems(2) by (auto split: if_split_asm)
      ultimately show ?thesis
        using Cons.IH by blast
    qed
  qed
qed simp

lemma parts_fit:
  assumes "v3_parts tell al buf is eo base hdr = Some (V3_ERR_NONE, hdr')" and "\<not> h3_mono hdr"
    and "i \<in> set is" and "part_used buf i" and "i \<noteq> 0"
  shows "\<exists>sz. tell (i + 1) STO_PART_SIZE = Some sz \<and> part_sz buf i \<le> sz"
  using assms(1-3)
proof (induction "is" arbitrary: eo base hdr)
  case (Cons j is')
  show ?case
  proof (cases "part_used buf j")
    case False
    then show ?thesis
      using Cons assms(4) by (auto simp: v3_parts_skipped simp del: v3_parts.simps)
  next
    case True
    note r = Cons.prems(1) [unfolded v3_parts_used [OF True]]
    obtain el base' where pl: "v3_place tell False j base (part_elem buf j eo) = Some (Inr (el, base'))"
      using r Cons.prems(2) by (auto simp: bind_eq_Some_conv v3_place_def retcode_defs split: if_split_asm)
    show ?thesis
    proof (cases "i = j")
      case True
      then show ?thesis
        using pl assms(5) by (auto simp: v3_place_def part_elem_def bind_eq_Some_conv split: if_split_asm)
    next
      case False
      let ?hdr = "if level_used j then v3_addelem (al (j + 1)) (el\<lparr>e3_level := upg_maplevel ! (j + 1)\<rparr>) (count_part buf j hdr)
                  else count_part buf j hdr"
      have "\<exists>eo'. v3_parts tell al buf is' eo' base' ?hdr = Some (V3_ERR_NONE, hdr')"
        using r pl Cons.prems(2) by (auto split: if_split_asm)
      moreover have "\<not> h3_mono ?hdr" "i \<in> set is'"
        using Cons.prems(2,3) False by (auto simp: v3_addelem_def)
      ultimately show ?thesis
        using Cons.IH by blast
    qed
  qed
qed simp

lemma addelem_offset [simp]: "h3_upgdata_offset (v3_addelem ok el hdr) = h3_upgdata_offset hdr"
  by (simp add: v3_addelem_def)

lemma uboot_elem_private: "v3_uboot_elem e malloc_ok layout junk nand hdr st = Some (el, st') \<Longrightarrow> e3_private el"
  by (auto simp: v3_uboot_elem_def Let_def bind_eq_Some_conv)

text \<open>
  (C16) A package for some partitions: every element the parser has made, on success and when it gave up,
  is a private one or has exactly the place and the size of its partition of the flash; on
  success no used part is declared larger than its partition.
\<close>

theorem parts_stay_in_partitions:
  assumes "v3_parse_configv1 e malloc_ok layout True al junk nand config buf hdr st = Some (err, hdr', st')"
    and "to_int32 (le32 buf 256) \<noteq> to_int32 (le32 buf 516) + 1" and "\<not> h3_mono hdr" and "h3_elem hdr = []"
    and "tell = v3_tell nand (si_lib st')"
  shows "(\<forall>el\<in>set (h3_elem hdr'). in_partition tell buf el) \<and>
    (err = V3_ERR_NONE \<longrightarrow> (\<forall>i\<in>{1..<UPG_MAX_PARTS}. part_used buf i \<longrightarrow>
       (\<exists>sz. tell (i + 1) STO_PART_SIZE = Some sz \<and> part_sz buf i \<le> sz)))"
proof -
  let ?hdr = "(v3_fields config buf hdr)\<lparr>h3_maxpart_id := 0, h3_reqsz := 0\<rparr>"
  have f: "\<not> h3_mono ?hdr" "h3_elem ?hdr = []"
    using assms(2-4) by (simp_all add: v3_fields_def Let_def)
  obtain base eo hdr1 where p: "v3_parts tell al buf [0..<UPG_MAX_PARTS] eo base hdr1 = Some (err, hdr')"
    and h: "\<not> h3_mono hdr1" "\<forall>el\<in>set (h3_elem hdr1). in_partition tell buf el"
  proof (cases "h3_ubootfile_imgsz ?hdr > 0")
    case True
    then obtain base el st1 where u: "v3_uboot_elem e malloc_ok layout junk nand ?hdr st = Some (el, st1)"
      "v3_parts (v3_tell nand (si_lib st1)) al buf [0..<UPG_MAX_PARTS] (h3_upgdata_offset ?hdr) base (v3_addelem (al (e3_part_id el)) el ?hdr) =
         Some (err, hdr')" "st' = st1"
      using assms(1) by (auto simp: v3_parse_configv1_def Let_def bind_eq_Some_conv)
    moreover have "\<not> h3_mono (v3_addelem (al (e3_part_id el)) el ?hdr)"
      "\<forall>el\<in>set (h3_elem (v3_addelem (al (e3_part_id el)) el ?hdr)). in_partition tell buf el"
      using f uboot_elem_private [OF u(1)] by (auto simp: v3_addelem_def in_partition_def)
    ultimately show ?thesis
      using that assms(5) by metis
  next
    case False
    then obtain base where "v3_parts (v3_tell nand (si_lib st)) al buf [0..<UPG_MAX_PARTS] (h3_upgdata_offset ?hdr) base ?hdr =
         Some (err, hdr')" "st' = st"
      using assms(1) by (auto simp: v3_parse_configv1_def Let_def bind_eq_Some_conv)
    with that [of _ base ?hdr] f assms(5) show ?thesis by auto
  qed
  have "\<exists>sz. tell (i + 1) STO_PART_SIZE = Some sz \<and> part_sz buf i \<le> sz"
    if "err = V3_ERR_NONE" "i \<in> {1..<UPG_MAX_PARTS}" "part_used buf i" for i
    using parts_fit [OF p [unfolded that(1)] h(1)] that(2,3) by auto
  with parts_in_partitions [OF p h] show ?thesis by blast
qed

text \<open>The size of the image itself plays no role for the place of a part.\<close>

lemma image_size_not_checked:
  "v3_place tell whole i base (el\<lparr>e3_imgsz := n\<rparr>) =
     map_option (map_sum id (map_prod (\<lambda>el. el\<lparr>e3_imgsz := n\<rparr>) id)) (v3_place tell whole i base el)"
  by (auto simp: v3_place_def bind_eq_Some_conv split: bind_splits)

text \<open>Sorting keeps at most one of the elements of the boot level when there are elements of another level.\<close>

lemma sort_loses_boot_elements:
  assumes "\<exists>el\<in>set els. e3_level el \<in> {UPG_LEVEL_APPLICATION, UPG_LEVEL_LOWLEVEL}"
  shows "length (filter (\<lambda>el. e3_level el = UPG_LEVEL_BOOT) (v3_sortelem els)) \<le> 1"
proof -
  let ?n = "\<lambda>xs. length (filter (\<lambda>el. e3_level el = UPG_LEVEL_BOOT) xs)"
  have "?n (filter (\<lambda>el. e3_level el = l) els) = 0" if "l \<noteq> UPG_LEVEL_BOOT" for l
    using that by (simp add: filter_empty_conv)
  from this [of UPG_LEVEL_APPLICATION] this [of UPG_LEVEL_LOWLEVEL] show ?thesis
    using assms by (auto simp: v3_sortelem_def Let_def filter_empty_conv)
qed

subsection \<open>The layout map of the new partition table\<close>

lemma length_word_bytes [simp]: "length (word_bytes x) = 4"
  by (simp add: word_bytes_def)

lemma word_bytes_value:
  "uint (word_of_int x :: u8) + 256 * uint (word_of_int (x div 256) :: u8) + 65536 * uint (word_of_int (x div 65536) :: u8) +
     16777216 * uint (word_of_int (x div 16777216) :: u8) = to_uint32 x"
proof -
  have u: "uint (word_of_int y :: u8) = y mod 256" for y
    by (simp add: unsigned_of_int take_bit_eq_mod)
  have "to_uint32 x = x mod 4294967296"
    by (simp add: to_uint32_def take_bit_eq_mod)
  moreover have "x mod 4294967296 = 256 * (x div 256 mod 16777216) + x mod 256"
    using zmod_zmult2_eq [of 16777216 x 256] by simp
  moreover have "x div 256 mod 16777216 = 256 * (x div 65536 mod 65536) + x div 256 mod 256"
    using zmod_zmult2_eq [of 65536 "x div 256" 256] zdiv_zmult2_eq [of 256 x 256] by simp
  moreover have "x div 65536 mod 65536 = 256 * (x div 16777216 mod 256) + x div 65536 mod 256"
    using zmod_zmult2_eq [of 256 "x div 65536" 256] zdiv_zmult2_eq [of 256 x 65536] by simp
  ultimately show ?thesis
    unfolding u by linarith
qed

lemma le32_memcpy_same:
  assumes "p + 4 \<le> length buf"
  shows "le32 (memcpy_at p (word_bytes x) buf) p = to_uint32 x"
  using assms word_bytes_value [of x] by (simp add: le32_def nth_memcpy_at word_bytes_def)

lemma le32_memcpy_other:
  assumes "p + 4 \<le> length buf" and "q + 4 \<le> p \<or> p + 4 \<le> q" and "q + 4 \<le> length buf"
  shows "le32 (memcpy_at p (word_bytes x) buf) q = le32 buf q"
  using assms by (auto simp: le32_def nth_memcpy_at)

text \<open>The fields an element has in the table, with their values; all lie on word boundaries.\<close>

definition elem_fields :: "nat \<Rightarrow> v3_elem \<Rightarrow> (nat \<times> int) list" where
  "elem_fields shift el =
     (let i = e3_part_id el
      in if e3_private el then if i = STO_UBOOT \<or> i = STO_UBOOT_BAK then [(192 + (i - STO_UBOOT) * 8 + 4, e3_imgsz el)] else []
         else [(260 + (i - 1) * 8, e3_dstoffset el div 2 ^ shift), (260 + (i - 1) * 8 + 4, e3_partsz el div 2 ^ shift),
               (420 + (i - 1) * 4, e3_imgsz el)])"

definition put_fields :: "(nat \<times> int) list \<Rightarrow> u8 list \<Rightarrow> u8 list" where
  "put_fields fs buf = fold (\<lambda>(p, x). memcpy_at p (word_bytes x)) fs buf"

lemma pmi_elem_fields: "v3_pmi_elem shift el = put_fields (elem_fields shift el)"
  by (auto simp: v3_pmi_elem_def put_fields_def elem_fields_def Let_def)

lemma new_pmi_fields: "v3_new_pmi els buf = put_fields (concat (map (elem_fields (pmi_shift buf)) els)) buf"
proof -
  have "fold (v3_pmi_elem shift) els b = put_fields (concat (map (elem_fields shift) els)) b" for shift b
    by (induction els arbitrary: b) (simp_all add: pmi_elem_fields put_fields_def)
  then show ?thesis by (simp add: v3_new_pmi_def)
qed

definition fields_ok :: "nat \<Rightarrow> (nat \<times> int) list \<Rightarrow> bool" where
  "fields_ok n fs \<longleftrightarrow> (\<forall>(p, x)\<in>set fs. 4 dvd p \<and> p + 4 \<le> n)"

lemma put_fields_length: "fields_ok (length buf) fs \<Longrightarrow> length (put_fields fs buf) = length buf"
proof (induction fs arbitrary: buf)
  case (Cons f fs)
  then show ?case
    by (cases f) (simp add: put_fields_def fields_ok_def)
qed (simp add: put_fields_def)

lemma words_apart: "4 dvd p \<Longrightarrow> 4 dvd q \<Longrightarrow> p \<noteq> q \<Longrightarrow> q + 4 \<le> p \<or> p + 4 \<le> (q :: nat)"
  by (auto elim!: dvdE)

lemma put_fields_other:
  assumes "fields_ok (length buf) fs" and "4 dvd q" and "q + 4 \<le> length buf" and "q \<notin> fst ` set fs"
  shows "le32 (put_fields fs buf) q = le32 buf q"
  using assms
proof (induction fs arbitrary: buf)
  case (Cons f fs)
  obtain p x where f: "f = (p, x)"
    by fastforce
  let ?b = "memcpy_at p (word_bytes x) buf"
  have p: "4 dvd p" "p + 4 \<le> length buf" "p \<noteq> q" "fields_ok (length buf) fs"
    using Cons.prems f by (auto simp: fields_ok_def)
  then have "le32 ?b q = le32 buf q" "length ?b = length buf"
    using le32_memcpy_other [of p buf q x] words_apart [OF p(1) Cons.prems(2) p(3)] Cons.prems(3) by simp_all
  with Cons.IH [of ?b] p(4) Cons.prems(2-4) show ?case
    by (simp add: f put_fields_def)
qed (simp add: put_fields_def)

lemma put_fields_get:
  assumes "fields_ok (length buf) fs" and "distinct (map fst fs)" and "(p, x) \<in> set fs"
  shows "le32 (put_fields fs buf) p = to_uint32 x"
  using assms
proof (induction fs arbitrary: buf)
  case (Cons f fs)
  obtain q y where f: "f = (q, y)"
    by fastforce
  let ?b = "memcpy_at q (word_bytes y) buf"
  have q: "4 dvd q" "q + 4 \<le> length buf" "fields_ok (length ?b) fs" "length ?b = length buf"
    using Cons.prems(1) f by (auto simp: fields_ok_def)
  show ?case
  proof (cases "p = q")
    case True
    then have "x = y" "q \<notin> fst ` set fs"
      using Cons.prems(2,3) f by (auto simp: rev_image_eqI)
    then show ?thesis
      using put_fields_other [OF q(3,1)] q(2,4) le32_memcpy_same [OF q(2), of y] True by (simp add: f put_fields_def)
  next
    case False
    then show ?thesis
      using Cons.IH [OF q(3)] Cons.prems(2,3) by (simp add: f put_fields_def)
  qed
qed simp

text \<open>Elements with different part numbers and values that the table can hold.\<close>

definition table_ok :: "nat \<Rightarrow> v3_elem list \<Rightarrow> bool" where
  "table_ok shift els \<longleftrightarrow> distinct (map e3_part_id els) \<and>
     (\<forall>el\<in>set els. e3_part_id el \<in> {1..UPG_MAX_PARTS} \<and>
        (\<not> e3_private el \<longrightarrow> 0 \<le> e3_dstoffset el \<and> e3_dstoffset el < 2 ^ 31 \<and> e3_dstoffset el mod 2 ^ shift = 0 \<and>
           0 \<le> e3_partsz el \<and> e3_partsz el < 2 ^ 32 \<and> e3_partsz el mod 2 ^ shift = 0 \<and>
           0 \<le> e3_imgsz el \<and> e3_imgsz el < 2 ^ 32))"

lemma elem_fields_pos:
  assumes "(p, x) \<in> set (elem_fields shift el)" and "e3_part_id el \<in> {1..UPG_MAX_PARTS}"
  shows "4 dvd p" and "192 < p" and "p + 4 \<le> STO_HEADER_SIZE"
  using assms
  by (auto simp: elem_fields_def Let_def UPG_MAX_PARTS_def STO_HEADER_SIZE_def STO_UBOOT_def STO_UBOOT_BAK_def split: if_split_asm;
      presburger)+

lemma elem_fields_inj:
  assumes "(p, x) \<in> set (elem_fields shift el)" and "(p, y) \<in> set (elem_fields shift el')"
    and "e3_part_id el \<in> {1..UPG_MAX_PARTS}" and "e3_part_id el' \<in> {1..UPG_MAX_PARTS}"
  shows "e3_part_id el = e3_part_id el'"
  using assms
  by (auto simp: elem_fields_def Let_def UPG_MAX_PARTS_def STO_UBOOT_def STO_UBOOT_BAK_def split: if_split_asm)

lemma elem_fields_distinct: "distinct (map fst (elem_fields shift el))" if "e3_part_id el \<in> {1..UPG_MAX_PARTS}"
  using that by (auto simp: elem_fields_def Let_def UPG_MAX_PARTS_def)

lemma all_fields_distinct:
  assumes "table_ok shift els"
  shows "distinct (map fst (concat (map (elem_fields shift) els)))"
  using assms
proof (induction els)
  case (Cons el els)
  have "fst ` set (elem_fields shift el) \<inter> fst ` set (concat (map (elem_fields shift) els)) = {}"
  proof (rule ccontr)
    assume "\<not> ?thesis"
    then obtain p x y el' where "(p, x) \<in> set (elem_fields shift el)" "(p, y) \<in> set (elem_fields shift el')" "el' \<in> set els"
      by fastforce
    then show False
      using elem_fields_inj [of p x shift el y el'] Cons.prems by (auto simp: table_ok_def rev_image_eqI)
  qed
  with Cons elem_fields_distinct [of el shift] show ?case
    by (auto simp: table_ok_def)
qed simp

lemma table_fields_ok:
  assumes "table_ok shift els"
  shows "fields_ok STO_HEADER_SIZE (concat (map (elem_fields shift) els))"
  using assms elem_fields_pos by (fastforce simp: fields_ok_def table_ok_def)

lemma new_pmi_get:
  assumes "length buf = STO_HEADER_SIZE" and "table_ok (pmi_shift buf) els" and "el \<in> set els"
    and "(p, x) \<in> set (elem_fields (pmi_shift buf) el)"
  shows "le32 (v3_new_pmi els buf) p = to_uint32 x"
  unfolding new_pmi_fields
  by (rule put_fields_get) (use assms table_fields_ok [OF assms(2)] all_fields_distinct [OF assms(2)] in auto)

lemma new_pmi_other:
  assumes "length buf = STO_HEADER_SIZE" and "table_ok (pmi_shift buf) els" and "4 dvd q" and "q + 4 \<le> STO_HEADER_SIZE"
    and "\<And>el x. el \<in> set els \<Longrightarrow> (q, x) \<notin> set (elem_fields (pmi_shift buf) el)"
  shows "le32 (v3_new_pmi els buf) q = le32 buf q"
  unfolding new_pmi_fields
  by (rule put_fields_other) (use assms table_fields_ok [OF assms(2)] in auto)

lemma new_pmi_length:
  assumes "length buf = STO_HEADER_SIZE" and "table_ok (pmi_shift buf) els"
  shows "length (v3_new_pmi els buf) = STO_HEADER_SIZE"
  using put_fields_length [of buf] table_fields_ok [OF assms(2)] assms(1) by (simp add: new_pmi_fields)

lemma new_pmi_low:
  assumes "length buf = STO_HEADER_SIZE" and "table_ok (pmi_shift buf) els" and "4 dvd q" and "q \<le> 192"
  shows "le32 (v3_new_pmi els buf) q = le32 buf q"
proof (rule new_pmi_other [OF assms(1-3)])
  show "q + 4 \<le> STO_HEADER_SIZE"
    using assms(4) by (simp add: STO_HEADER_SIZE_def)
  show "(q, x) \<notin> set (elem_fields (pmi_shift buf) el)" if "el \<in> set els" for el x
    using elem_fields_pos(2) [of q x "pmi_shift buf" el] that assms(2,4) by (auto simp: table_ok_def)
qed

lemma new_pmi_shift:
  assumes "length buf = STO_HEADER_SIZE" and "table_ok (pmi_shift buf) els"
  shows "pmi_shift (v3_new_pmi els buf) = pmi_shift buf"
  using new_pmi_low [OF assms, of 28] by (simp add: pmi_shift_def)

text \<open>The row the storage library reads for the partition of an element, and for another partition.\<close>

lemma shift_back:
  assumes "0 \<le> x" and "x < 2 ^ 32" and "x mod 2 ^ shift = 0"
  shows "to_uint32 (x div 2 ^ shift) * 2 ^ shift = x"
proof -
  have "x div 2 ^ shift \<le> x"
    using assms(1) by (simp add: div_le_self)
  then have "to_uint32 (x div 2 ^ shift) = x div 2 ^ shift"
    using assms(1,2) by (intro to_uint32_id) (simp_all add: pos_imp_zdiv_nonneg_iff)
  then show ?thesis
    using assms(3) by (simp add: dvd_div_mult_self mod_eq_0_iff_dvd)
qed

lemma updated_row:
  assumes "length buf = STO_HEADER_SIZE" and "table_ok (pmi_shift buf) els" and "el \<in> set els" and "\<not> e3_private el"
    and "STO_KERNEL \<le> e3_part_id el"
  shows "part_row (v3_new_pmi els buf) (pmi_shift buf) (e3_part_id el) m =
    m\<lparr>smap_offset := e3_dstoffset el, smap_imgsz := e3_imgsz el, smap_size := e3_partsz el\<rparr>"
proof -
  let ?i = "e3_part_id el" and ?s = "pmi_shift buf" and ?b = "v3_new_pmi els buf"
  have v: "0 \<le> e3_dstoffset el" "e3_dstoffset el < 2 ^ 31" "e3_dstoffset el mod 2 ^ ?s = 0"
    "0 \<le> e3_partsz el" "e3_partsz el < 2 ^ 32" "e3_partsz el mod 2 ^ ?s = 0" "0 \<le> e3_imgsz el" "e3_imgsz el < 2 ^ 32"
    using assms(2-4) by (auto simp: table_ok_def)
  have i: "?i - STO_KERNEL + 1 = ?i - 1"
    using assms(5) by (simp add: STO_KERNEL_def)
  have f: "le32 ?b (260 + (?i - 1) * 8) = to_uint32 (e3_dstoffset el div 2 ^ ?s)"
    "le32 ?b (264 + (?i - 1) * 8) = to_uint32 (e3_partsz el div 2 ^ ?s)"
    "le32 ?b (420 + (?i - 1) * 4) = to_uint32 (e3_imgsz el)"
    using new_pmi_get [OF assms(1-3)] assms(4) by (simp_all add: elem_fields_def Let_def ac_simps)
  have d: "to_uint32 (e3_dstoffset el div 2 ^ ?s) * 2 ^ ?s = e3_dstoffset el" "to_uint32 (e3_partsz el div 2 ^ ?s) * 2 ^ ?s = e3_partsz el"
    using v by (intro shift_back; simp)+
  have "e3_dstoffset el div 2 ^ ?s \<le> e3_dstoffset el" "0 \<le> e3_dstoffset el div 2 ^ ?s"
    using v(1) by (simp_all add: div_le_self pos_imp_zdiv_nonneg_iff)
  then have "to_uint32 (e3_dstoffset el div 2 ^ ?s) = e3_dstoffset el div 2 ^ ?s" "to_int32 (e3_dstoffset el div 2 ^ ?s) = e3_dstoffset el div 2 ^ ?s"
    using v(2) by - (intro to_uint32_id to_int32_id; simp)+
  then have "to_int32 (to_int32 (to_uint32 (e3_dstoffset el div 2 ^ ?s)) * 2 ^ ?s) = e3_dstoffset el"
    using d(1) v(1,2) by (simp add: to_int32_id)
  then show ?thesis
    unfolding part_row_def i f using d(2) v(4,5,7,8) by (simp add: to_uint32_id)
qed

lemma other_row:
  assumes "length buf = STO_HEADER_SIZE" and "table_ok (pmi_shift buf) els" and "i \<in> {STO_KERNEL..<STO_UBOOT}"
    and "\<And>el. el \<in> set els \<Longrightarrow> e3_part_id el \<noteq> i \<or> e3_private el"
  shows "part_row (v3_new_pmi els buf) shift i m = part_row buf shift i m"
proof -
  have i: "2 \<le> i" "i < 12"
    using assms(3) by (simp_all add: STO_KERNEL_def STO_UBOOT_def)
  have none: "(q, x) \<notin> set (elem_fields (pmi_shift buf) el)"
    if "el \<in> set els" "q \<in> {260 + (i - STO_KERNEL + 1) * 8, 264 + (i - STO_KERNEL + 1) * 8, 420 + (i - STO_KERNEL + 1) * 4}" for el q x
    using that assms(2) assms(4) [OF that(1)] i
    by (auto simp: table_ok_def elem_fields_def Let_def STO_KERNEL_def STO_UBOOT_def STO_UBOOT_BAK_def UPG_MAX_PARTS_def split: if_split_asm)
  have "le32 (v3_new_pmi els buf) q = le32 buf q"
    if "q \<in> {260 + (i - STO_KERNEL + 1) * 8, 264 + (i - STO_KERNEL + 1) * 8, 420 + (i - STO_KERNEL + 1) * 4}" for q
  proof (rule new_pmi_other [OF assms(1,2)])
    show "4 dvd q" "q + 4 \<le> STO_HEADER_SIZE"
      using that i by (auto simp: STO_HEADER_SIZE_def STO_KERNEL_def; presburger)+
  qed (use none that in blast)
  then show ?thesis
    by (simp add: part_row_def)
qed

subsection \<open>Updating the index on the flash\<close>

definition first_block_erases :: "'k mtd_driver \<Rightarrow> mtd_info \<Rightarrow> bool" where
  "first_block_erases drv info \<longleftrightarrow> (\<forall>k. fst (memerase drv k 0 (info_erasesize info)) = 0)"

definition with_header :: "u8 list \<Rightarrow> (int \<Rightarrow> u8) \<Rightarrow> int \<Rightarrow> u8" where
  "with_header hdr mem = (\<lambda>a. if 0 \<le> a \<and> a < int (length hdr) then hdr ! nat a else mem a)"

lemma pmi_header_with_header: "length hdr = STO_HEADER_SIZE \<Longrightarrow> pmi_header (with_header hdr mem) = hdr"
  by (intro nth_equalityI) (simp_all add: pmi_header_def with_header_def bytes_at_def)

lemma rewritten_block:
  assumes "length hdr \<le> nat e" and "0 \<le> e"
  shows "mem_write 0 (memcpy_at 0 hdr (bytes_at mem 0 e)) (mem_erase 0 e mem) = with_header hdr mem"
proof -
  let ?w = "memcpy_at 0 hdr (bytes_at mem 0 e)"
  have l: "int (length ?w) = e"
    using assms by simp
  show ?thesis
  proof
    fix x
    have "mem_write 0 ?w (mem_erase 0 e mem) x = (if 0 \<le> x \<and> x < e then ?w ! nat x else mem x)"
      using mem_write_erased [OF l, of 0 mem] store_at_upto [of "length ?w" ?w 0 mem x] unfolding l by simp
    then show "mem_write 0 ?w (mem_erase 0 e mem) x = with_header hdr mem x"
      using assms nth_memcpy_at [of 0 hdr "bytes_at mem 0 e" "nat x"]
      by (auto simp: with_header_def bytes_at_def nat_less_iff)
  qed
qed

lemma set_pmi_block:
  assumes "mtd_laws drv ab info" and "info_ok info" and "unit_ok info (info_erasesize info)" and "dev_ready info dev"
    and "pmi_ready info (fl_mem (ab k)) (fl_bad (ab k))" and "first_block_erases drv info" and "length hdr = STO_HEADER_SIZE"
  shows "\<exists>k'. alislsto_set_pmi drv True (Some dev) k (Some \<lparr>pmi_buf = hdr, pmi_offset = 0, pmi_length = STO_HEADER_SIZE\<rparr>) =
      Some (STO_ERR_NONE, Some (dev\<lparr>dev_offset := 0\<rparr>), k') \<and> fl_mem (ab k') = with_header hdr (fl_mem (ab k)) \<and> fl_bad (ab k') = fl_bad (ab k)"
proof -
  let ?e = "info_erasesize info" and ?mem = "fl_mem (ab k)"
  note r = assms(5) [unfolded pmi_ready_def]
  have e: "0 < ?e" "0 < info_size info" "STO_HEADER_SIZE \<le> nat ?e"
    using r assms(2) by (auto simp: info_ok_def)
  let ?w = "memcpy_at 0 hdr (bytes_at ?mem 0 ?e)"
  have g: "memgetbadblock drv k 0 = 0"
    using mtd_bad [OF assms(1), of 0 k] r e by (auto simp: live_def)
  obtain k1 where k1: "klseek drv k 0 = (0, k1)" "ab k1 = (ab k)\<lparr>fl_pos := 0\<rparr>"
    by (rule mtd_seek [OF assms(1), of 0]) (use e in simp_all)
  have ib: "in_block info f 0 ?e" if "fl_bad f = fl_bad (ab k)" for f
    using r e that by (simp add: in_block_def)
  obtain k2 where k2: "kread drv k1 ?e = (?e, bytes_at ?mem 0 ?e, k2)" "ab k2 = (ab k)\<lparr>fl_pos := ?e\<rparr>"
    using mtd_read [OF assms(1), of k1 ?e] ib [of "ab k1"] k1(2) by auto
  obtain k3 where k3: "memerase drv k2 0 ?e = (0, k3)"
    using assms(6) by (cases "memerase drv k2 0 ?e") (auto simp: first_block_erases_def dest: spec [of _ k2])
  have "law_erase (memerase drv) ab info ?e"
    using assms(1) by (simp add: mtd_laws_def)
  then have ek: "ab k3 = (ab k2)\<lparr>fl_mem := mem_erase 0 ?e ?mem\<rparr>"
    using ib [of "ab k2"] k2(2) k3 by (auto simp: law_erase_def dest!: spec [of _ k2] spec [of _ 0])
  obtain k4 where k4: "klseek drv k3 0 = (0, k4)" "ab k4 = (ab k3)\<lparr>fl_pos := 0\<rparr>"
    by (rule mtd_seek [OF assms(1), of 0]) (use e in simp_all)
  have wl: "int (length ?w) = ?e"
    using e assms(7) by simp
  obtain k5 where k5: "kwrite drv k4 ?w = (?e, k5)" "ab k5 = (ab k4)\<lparr>fl_mem := mem_write 0 ?w (fl_mem (ab k4)), fl_pos := ?e\<rparr>"
    by (rule mtd_write [OF assms(1), of k4 ?w])
      (use ib [of "ab k4"] k4(2) ek k2(2) wl assms(3) in \<open>simp_all add: unit_ok_def\<close>)
  have z: "memcpy_at 0 (bytes_at ?mem 0 ?e) (replicate (nat ?e) 0) = bytes_at ?mem 0 ?e"
    using e by (simp add: memcpy_at_def)
  have "fl_mem (ab k5) = with_header hdr ?mem"
    using k5(2) k4(2) ek rewritten_block [of hdr ?e ?mem] assms(7) e by simp
  moreover have "fl_bad (ab k5) = fl_bad (ab k)"
    using k5(2) k4(2) ek k2(2) by simp
  ultimately show ?thesis
    using assms(4,7) g k1(1) k2(1) k3 k4(1) k5(1) z e
    by (auto simp: alislsto_set_pmi_def dev_ready_def Let_def)
qed

lemma put_fields_byte:
  assumes "fields_ok (length buf) fs" and "\<forall>(p, x)\<in>set fs. q < p" and "q < length buf"
  shows "put_fields fs buf ! q = buf ! q"
  using assms
proof (induction fs arbitrary: buf)
  case (Cons f fs)
  obtain p x where f: "f = (p, x)"
    by fastforce
  let ?b = "memcpy_at p (word_bytes x) buf"
  have "p + 4 \<le> length buf" "q < p"
    using Cons.prems f by (auto simp: fields_ok_def)
  then have "length ?b = length buf" "?b ! q = buf ! q"
    using Cons.prems(3) nth_memcpy_at [of p "word_bytes x" buf q] by simp_all
  with Cons.IH [of ?b] Cons.prems show ?case
    by (auto simp: f put_fields_def fields_ok_def)
qed (simp add: put_fields_def)

lemma new_pmi_byte:
  assumes "length buf = STO_HEADER_SIZE" and "table_ok (pmi_shift buf) els" and "q < 192"
  shows "v3_new_pmi els buf ! q = buf ! q"
  unfolding new_pmi_fields
proof (rule put_fields_byte)
  show "\<forall>(p, x)\<in>set (concat (map (elem_fields (pmi_shift buf)) els)). q < p"
    using elem_fields_pos(2) assms(2,3) by (fastforce simp: table_ok_def)
qed (use assms table_fields_ok [OF assms(2)] in \<open>auto simp: STO_HEADER_SIZE_def\<close>)

lemma new_pmi_ready:
  assumes "pmi_ready info mem bad" and "table_ok (pmi_shift (pmi_header mem)) els"
  shows "pmi_ready info (with_header (v3_new_pmi els (pmi_header mem)) mem) bad"
proof -
  have l: "length (pmi_header mem) = STO_HEADER_SIZE"
    by (simp add: pmi_header_def)
  have "with_header (v3_new_pmi els (pmi_header mem)) mem (int q) = mem (int q)" if "q < 192" for q
    using new_pmi_byte [OF l assms(2) that] new_pmi_length [OF l assms(2)] that
    by (simp add: with_header_def pmi_header_def bytes_at_def STO_HEADER_SIZE_def)
  from this [of 14] this [of 15] assms(1) show ?thesis
    by (simp add: pmi_ready_def)
qed

lemma updatepmi_flash:
  assumes "flash_open e ab info h mtd mem bad cnt s" and "pmi_ready info mem bad" and "first_block_erases (env_drv e mtd) info"
    and "table_ok (pmi_shift (pmi_header mem)) els"
  shows "\<exists>s'. v3_updatepmi e True True (Some h) els s = Some (V3_ERR_NONE, s') \<and>
    flash_open e ab info h mtd (with_header (v3_new_pmi els (pmi_header mem)) mem) bad cnt s'"
proof -
  let ?hdr = "v3_new_pmi els (pmi_header mem)"
  let ?p = "\<lparr>pmi_buf = pmi_header mem, pmi_offset = 0, pmi_length = STO_HEADER_SIZE\<rparr>"
  have hl: "length ?hdr = STO_HEADER_SIZE"
    by (rule new_pmi_length [OF _ assms(4)]) (simp add: pmi_header_def)
  obtain s1 where g: "lib_get_pmi e (Some h) s = Some (Some (STO_ERR_NONE, ?p), s1)" and s1: "flash_open e ab info h mtd mem bad cnt s1"
    using get_pmi_flash [OF assms(1,2)] by blast
  have "\<exists>s'. on_handle e (\<lambda>drv dev k. alislsto_set_pmi drv True dev k (Some (?p\<lparr>pmi_buf := ?hdr\<rparr>))) (Some h) s1 =
      Some (Some STO_ERR_NONE, s') \<and> flash_open e ab info h mtd (with_header ?hdr mem) bad cnt s'"
  proof (rule on_handle_ready [OF s1])
    fix dev k
    assume d: "dev_ready info dev" "mtd_laws (env_drv e mtd) ab info" "info_ok info" "unit_ok info (info_erasesize info)"
      "fl_mem (ab k) = mem" "fl_bad (ab k) = bad"
    have "dev_ready info (dev\<lparr>dev_offset := 0\<rparr>)"
      using d(1) by (simp add: dev_ready_def)
    with set_pmi_block [OF d(2-4,1) _ assms(3) hl, of k] d(5,6) assms(2)
    show "\<exists>dev' k'. alislsto_set_pmi (env_drv e mtd) True (Some dev) k (Some (?p\<lparr>pmi_buf := ?hdr\<rparr>)) = Some (STO_ERR_NONE, Some dev', k') \<and>
        dev_ready info dev' \<and> dev_handle dev' = dev_handle dev \<and> dev_open_cnt dev' = dev_open_cnt dev \<and>
        fl_mem (ab k') = with_header ?hdr mem \<and> fl_bad (ab k') = bad"
      by auto
  qed
  with g show ?thesis
    by (auto simp: v3_updatepmi_def Let_def)
qed

lemma nth_middle: "length xs = a \<Longrightarrow> a \<le> i \<Longrightarrow> i < b \<Longrightarrow> (xs @ map f [a..<b] @ zs) ! i = f i"
  by (auto simp: nth_append)

text \<open>What \<open>storage_parse\<close> reads from a header, for the partitions from the kernel on.\<close>

lemma storage_parse_rows:
  assumes "mtd_laws drv ab info" and "info_ok info" and "dev_info dev = Valid info" and "pmi_ready info (fl_mem (ab k)) (fl_bad (ab k))"
    and "dev_attr dev = Some rows" and "STO_NANDMAX \<le> length rows" and "hdr = pmi_header (fl_mem (ab k))"
  shows "\<exists>dev' k' rows'. storage_parse drv True dev k = Some (STO_ERR_NONE, dev', k') \<and> dev_attr dev' = Some rows' \<and>
    (\<forall>i\<in>{STO_KERNEL..<STO_UBOOT}. rows' ! i = part_row hdr (pmi_shift hdr) i (rows ! i))"
proof -
  let ?b = "replicate STO_HEADER_SIZE 0"
  obtain k' p' where "alislsto_get_pmi drv (Some dev) k (Some \<lparr>pmi_buf = ?b, pmi_offset = 0, pmi_length = STO_HEADER_SIZE\<rparr>) =
      Some (STO_ERR_NONE, Some (dev\<lparr>dev_pmi := True\<rparr>), k', Some p')" "pmi_buf p' = hdr"
    using pmi_found_dev [OF assms(1-4), of ?b 0] assms(7) by auto
  moreover have "length hdr = STO_HEADER_SIZE"
    by (simp add: assms(7) pmi_header_def)
  moreover have "(\<forall>i\<in>{STO_KERNEL..<STO_UBOOT}. ([x, y] @ map f [STO_KERNEL..<STO_UBOOT] @ zs) ! i = f i)" for x y zs and f :: "nat \<Rightarrow> storage_map"
    using nth_middle [of "[x, y]" STO_KERNEL _ STO_UBOOT f zs] by (simp add: STO_KERNEL_def del: append_Cons)
  ultimately show ?thesis
    using assms(3,5,6) by (simp add: storage_parse_def Let_def pmi_shift_def del: append_Cons)
qed

text \<open>
  (C14) The partition table that is written after an upgrade is the one the storage library reads: when the
  flash is opened again, the partition of every element has the offset, the size and the
  image size of the element, and every other partition from the kernel on is what it was.
\<close>

theorem updated_index_gives_layout:
  assumes "flash_open e ab info h mtd mem bad cnt s" and "pmi_ready info mem bad" and "first_block_erases (env_drv e mtd) info"
    and "hdr = pmi_header mem" and "table_ok (pmi_shift hdr) els"
  shows "\<exists>s'. v3_updatepmi e True True (Some h) els s = Some (V3_ERR_NONE, s') \<and>
    (\<forall>dev rows. dev_info dev = Valid info \<and> dev_attr dev = Some rows \<and> STO_NANDMAX \<le> length rows \<longrightarrow>
      (\<exists>dev' k' rows'. storage_parse (env_drv e mtd) True dev (mtd_state s' mtd) = Some (STO_ERR_NONE, dev', k') \<and> dev_attr dev' = Some rows' \<and>
        (\<forall>el\<in>set els. \<not> e3_private el \<and> e3_part_id el \<in> {STO_KERNEL..<STO_UBOOT} \<longrightarrow> rows' ! e3_part_id el =
           (rows ! e3_part_id el)\<lparr>smap_offset := e3_dstoffset el, smap_imgsz := e3_imgsz el, smap_size := e3_partsz el\<rparr>) \<and>
        (\<forall>i\<in>{STO_KERNEL..<STO_UBOOT}. (\<forall>el\<in>set els. e3_part_id el \<noteq> i \<or> e3_private el) \<longrightarrow>
           rows' ! i = part_row hdr (pmi_shift hdr) i (rows ! i))))"
proof -
  let ?new = "v3_new_pmi els hdr"
  have l: "length hdr = STO_HEADER_SIZE"
    by (simp add: assms(4) pmi_header_def)
  obtain s' where s': "v3_updatepmi e True True (Some h) els s = Some (V3_ERR_NONE, s')"
    and f: "flash_open e ab info h mtd (with_header ?new mem) bad cnt s'"
    using updatepmi_flash [OF assms(1-3)] assms(4,5) by blast
  have m: "mtd_laws (env_drv e mtd) ab info" "info_ok info" "fl_mem (ab (mtd_state s' mtd)) = with_header ?new mem" "fl_bad (ab (mtd_state s' mtd)) = bad"
    using f by (simp_all add: flash_open_def)
  have r: "pmi_ready info (fl_mem (ab (mtd_state s' mtd))) (fl_bad (ab (mtd_state s' mtd)))"
    using new_pmi_ready [OF assms(2)] assms(4,5) m(3,4) by simp
  have n: "?new = pmi_header (fl_mem (ab (mtd_state s' mtd)))"
    using pmi_header_with_header [OF new_pmi_length [OF l assms(5)]] m(3) by simp
  have "\<exists>dev' k' rows'. storage_parse (env_drv e mtd) True dev (mtd_state s' mtd) = Some (STO_ERR_NONE, dev', k') \<and> dev_attr dev' = Some rows' \<and>
      (\<forall>i\<in>{STO_KERNEL..<STO_UBOOT}. rows' ! i = part_row ?new (pmi_shift hdr) i (rows ! i))"
    if "dev_info dev = Valid info" "dev_attr dev = Some rows" "STO_NANDMAX \<le> length rows" for dev rows
    using storage_parse_rows [OF m(1,2) that(1) r that(2,3) n] new_pmi_shift [OF l assms(5)] by simp
  then show ?thesis
    using s' updated_row [OF l assms(5)] other_row [OF l assms(5)] by fastforce
qed

subsection \<open>Witnesses\<close>

text \<open>A configuration with two parts behind the private one; \<open>u\<close> is the number of parts to be upgraded.\<close>

definition v3_words :: "int \<Rightarrow> (nat \<times> int) list" where
  "v3_words u = [(256, 2), (516, u), (520, 1024), (272, 256), (424, 1000), (280, 256), (428, 1)]"

definition v3_cfg :: "int \<Rightarrow> u8 list" where
  "v3_cfg u = put_fields (v3_words u) (replicate 1024 0)"

lemma v3_words_ok: "fields_ok 1024 (v3_words u)" "distinct (map fst (v3_words u))"
  by (simp_all add: fields_ok_def v3_words_def)

lemma v3_cfg_word:
  assumes "4 dvd q" and "q + 4 \<le> 1024"
  shows "le32 (v3_cfg u) q = (case map_of (v3_words u) q of None \<Rightarrow> 0 | Some x \<Rightarrow> to_uint32 x)"
proof -
  define z :: "u8 list" where "z = replicate 1024 0"
  have l: "length z = 1024" and z: "le32 z q = 0"
    using assms(2) by (simp_all add: z_def le32_def)
  have c: "v3_cfg u = put_fields (v3_words u) z"
    by (simp add: v3_cfg_def z_def)
  note ok = v3_words_ok(1) [of u, folded l] v3_words_ok(2) [of u]
  show ?thesis
  proof (cases "map_of (v3_words u) q")
    case None
    then have "q \<notin> fst ` set (v3_words u)"
      by (simp add: map_of_eq_None_iff)
    then have "le32 (v3_cfg u) q = le32 z q"
      unfolding c using assms l by (intro put_fields_other [OF ok(1)]) simp_all
    then show ?thesis
      using None z by simp
  next
    case (Some x)
    then show ?thesis
      unfolding c using put_fields_get [OF ok, of q x] by (simp add: map_of_SomeD)
  qed
qed

lemma v3_cfg_unused:
  assumes "3 \<le> i" and "i < 20"
  shows "\<not> part_used (v3_cfg u) i"
proof -
  have "4 dvd 260 + i * 8 + 4"
    by presburger
  then have "le32 (v3_cfg u) (260 + i * 8 + 4) = 0"
    using assms by (subst v3_cfg_word) (auto simp: v3_words_def)
  then show ?thesis
    using assms(1) by (simp add: part_used_def invalid_size_def)
qed

lemma v3_cfg_used: "part_used (v3_cfg u) 0" "part_used (v3_cfg u) 1" "part_used (v3_cfg u) 2"
  by (simp_all add: part_used_def img_sz_def v3_cfg_word v3_words_def invalid_size_def to_uint32_def)

lemma v3_cfg_sizes: "part_sz (v3_cfg u) 0 = 0" "part_sz (v3_cfg u) 1 = 262144" "part_sz (v3_cfg u) 2 = 262144"
  "img_sz (v3_cfg u) 1 = 1000" "img_sz (v3_cfg u) 2 = 1"
  by (simp_all add: part_sz_def img_sz_def v3_cfg_word v3_words_def to_uint32_def)

lemma v3_cfg_img: "3 \<le> i \<Longrightarrow> i < 20 \<Longrightarrow> img_sz (v3_cfg u) i = 0"
  by (auto simp: img_sz_def v3_cfg_word v3_words_def)

text \<open>A flash of 4 MiB whose kernel partition lies at 512 KiB.\<close>

definition v3_rows :: "storage_map list" where
  "v3_rows = replicate 14 \<lparr>smap_offset = 524288, smap_size = 262144, smap_imgsz = 0\<rparr>"

definition v3_sys :: "flash sysinfo" where
  "v3_sys = nand_sys\<lparr>si_lib := (si_lib nand_sys)\<lparr>devs := [0 \<mapsto> nand_dev\<lparr>dev_attr := Some v3_rows\<rparr>]\<rparr>\<rparr>"

definition v3_hdr0 :: v3_header where
  "v3_hdr0 = \<lparr>h3_elem = [], h3_reqsz = 0, h3_mono = False, h3_upgdatasz = 0, h3_maxpart_id = 0, h3_sign = 0, h3_parts = 0, h3_pktsz = 0,
     h3_upgparts = 0, h3_upgdata_offset = 0, h3_bootfile_size = 0, h3_bootfile_imgsz = 0, h3_ubootfile_imgsz = 0, h3_fskey_start = 0,
     h3_fskey_end = 0, h3_pagesz = 0, h3_pktname = []\<rparr>"

lemma v3_sys_tell:
  assumes "i < 14"
  shows "v3_tell (Some 0) (si_lib v3_sys) i STO_PART_OFFSET = Some 524288" "v3_tell (Some 0) (si_lib v3_sys) i STO_PART_SIZE = Some 262144"
  using assms by (simp_all add: v3_tell_def v3_sys_def nand_sys_def alislsto_tell_ext_def nand_dev_def v3_rows_def to_uint32_def)

lemma align128k_small: "align128k 0 = 0" "align128k 1 = 131072" "align128k 1000 = 131072"
  by (simp_all add: align128k_def to_uint32_def)

lemma v3_parts_rest: "(\<And>i. i \<in> set is \<Longrightarrow> \<not> part_used buf i) \<Longrightarrow> v3_parts tell al buf is eo base hdr = Some (V3_ERR_NONE, hdr)"
  by (induction "is" arbitrary: eo) (simp_all add: v3_parts_skipped del: v3_parts.simps(2))

lemma upt_20: "[0..<20] = 0 # 1 # 2 # [3..<20 :: nat]" "[1..<20] = 1 # 2 # [3..<20 :: nat]"
  by (simp_all add: upt_rec)

lemma v3_cfg_rest: "(\<Sum>j\<leftarrow>[3..<20]. align128k (img_sz (v3_cfg u) j)) = 0" "filter (part_used (v3_cfg u)) [3..<20] = []"
  "filter (\<lambda>i. part_used (v3_cfg u) i \<and> level_used i) [3..<20] = []"
proof -
  have "map (\<lambda>j. align128k (img_sz (v3_cfg u) j)) [3..<20] = map (\<lambda>j. 0) [3..<20]"
    by (rule map_cong) (auto simp: v3_cfg_img align128k_small simp del: upt_rec_numeral)
  then show "(\<Sum>j\<leftarrow>[3..<20]. align128k (img_sz (v3_cfg u) j)) = 0"
    by (simp only: sum_list_0)
qed (auto simp: filter_empty_conv v3_cfg_unused simp del: upt_rec_numeral)

lemma v3_levels: "level_used 0" "level_used 1" "level_used 2"
  by (simp_all add: level_used_def upg_maplevel_def)

lemma v3_cfg_head: "to_int32 (le32 (v3_cfg 1) 256) = 2" "to_int32 (le32 (v3_cfg 1) 516) = 1" "le32 (v3_cfg 1) 196 = 0"
  "to_int32 (le32 (v3_cfg 1) 520) = 1024" "le32 (v3_cfg 1) 524 = 0"
  "to_int32 (le32 (v3_cfg 0) 256) = 2" "to_int32 (le32 (v3_cfg 0) 516) = 0" "le32 (v3_cfg 0) 196 = 0"
  by (simp_all add: v3_cfg_word v3_words_def to_uint32_def to_int32_id)

lemma v3_cfg_page: "le32 (v3_cfg u) 696 = 0"
  using v3_cfg_word [of 696 u] by (simp add: v3_words_def)

theorem whole_package_layout_witness:
  "\<exists>hdr'. v3_parse_configv1 nand_env True [] True (\<lambda>p. True) [] (Some 0) ''p'' (v3_cfg 1) v3_hdr0 v3_sys = Some (V3_ERR_NONE, hdr', v3_sys) \<and>
     map e3_part_id (h3_elem hdr') = [1, 2, 3] \<and> map e3_dstoffset (h3_elem hdr') = [0, 524288, 786432] \<and>
     map e3_offset (h3_elem hdr') = [1024, 1024, 132096]"
proof -
  let ?b = "v3_cfg 1"
  have o: "pkg_offset ?b 1024 0 20 < 2 ^ 31" "flash_base ?b 524288 20 < 2 ^ 31"
    unfolding pkg_offset_def flash_base_def upt_20
    by (simp_all add: v3_cfg_rest v3_cfg_used v3_cfg_sizes align128k_small del: One_nat_def upt_rec_numeral)
  have "map (whole_elem ?b 1024 0 524288) (filter (\<lambda>i. part_used ?b i \<and> level_used i) [0..<20]) = map (whole_elem ?b 1024 0 524288) [0, 1, 2]"
    unfolding upt_20 by (simp add: v3_cfg_rest v3_cfg_used v3_levels del: One_nat_def upt_rec_numeral)
  moreover have "[1..<2] = [1 :: nat]"
    by (simp add: upt_rec)
  ultimately have "map e3_part_id (map (whole_elem ?b 1024 0 524288) (filter (\<lambda>i. part_used ?b i \<and> level_used i) [0..<20])) = [1, 2, 3]"
    "map e3_dstoffset (map (whole_elem ?b 1024 0 524288) (filter (\<lambda>i. part_used ?b i \<and> level_used i) [0..<20])) = [0, 524288, 786432]"
    "map e3_offset (map (whole_elem ?b 1024 0 524288) (filter (\<lambda>i. part_used ?b i \<and> level_used i) [0..<20])) = [1024, 1024, 132096]"
    using v3_cfg_used(2) by (simp_all only:) (simp_all add: whole_elem_def flash_base_def pkg_offset_def v3_cfg_sizes align128k_small del: One_nat_def)
  then show ?thesis
    using whole_package_layout [of "Some 0" v3_sys 524288 ?b 1024 0 "\<lambda>p. True" v3_hdr0 nand_env True "[]" "[]" "''p''"] o v3_cfg_unused [of _ 1]
    by (auto simp: v3_sys_tell v3_cfg_head align128k_small STO_KERNEL_def UPG_MAX_PARTS_def upg_maplevel_def v3_hdr0_def
      simp del: upt_rec_numeral)
qed

lemma v3_cfg_parses:
  assumes "\<And>i. i < 14 \<Longrightarrow> v3_tell nand (si_lib st) i STO_PART_OFFSET = Some 524288"
    and "\<And>i. i < 14 \<Longrightarrow> v3_tell nand (si_lib st) i STO_PART_SIZE = Some 262144" and "u = 0 \<or> u = 1"
  shows "\<exists>hdr'. v3_parse_configv1 e malloc_ok layout True (\<lambda>p. True) junk nand config (v3_cfg u) v3_hdr0 st = Some (V3_ERR_NONE, hdr', st) \<and>
     map e3_part_id (h3_elem hdr') = [1, 2, 3] \<and> h3_mono hdr' = (u = 1) \<and> h3_reqsz hdr' = 524288 \<and> h3_pagesz hdr' = 0 \<and> h3_ubootfile_imgsz hdr' = 0"
proof -
  let ?f = "v3_fields config (v3_cfg u) v3_hdr0"
  have f: "h3_mono ?f = (u = 1)" "h3_ubootfile_imgsz ?f = 0" "h3_elem ?f = []" "h3_pagesz ?f = 0"
    using assms(3) by (auto simp: v3_fields_def Let_def v3_cfg_head v3_hdr0_def v3_cfg_page)
  have p: "v3_parts tell al (v3_cfg u) [3..<20] eo base hdr = Some (V3_ERR_NONE, hdr)" for tell al eo base hdr
    by (rule v3_parts_rest) (simp add: v3_cfg_unused del: upt_rec_numeral)
  have l: "\<not> length upg_maplevel \<le> 1" "\<not> length upg_maplevel \<le> 2" "\<not> length upg_maplevel \<le> 3"
    by (simp_all add: upg_maplevel_def)
  have "\<exists>hdr'. v3_parts (v3_tell nand (si_lib st)) (\<lambda>p. True) (v3_cfg u) [0..<20] eo 524288 (?f\<lparr>h3_maxpart_id := 0, h3_reqsz := 0\<rparr>) = Some (V3_ERR_NONE, hdr') \<and>
     map e3_part_id (h3_elem hdr') = [1, 2, 3] \<and> h3_mono hdr' = h3_mono ?f \<and> h3_reqsz hdr' = 524288 \<and> h3_pagesz hdr' = 0 \<and> h3_ubootfile_imgsz hdr' = 0" for eo
    unfolding upt_20
    by (cases "h3_mono ?f") (simp_all add: v3_parts_used v3_cfg_used v3_place_def part_elem_def count_part_def assms(1,2) v3_cfg_sizes f(2-4) l v3_levels v3_addelem_def p to_uint32_def
        del: v3_parts.simps One_nat_def upt_rec_numeral)
  from this [of "h3_upgdata_offset ?f"] show ?thesis
    by (auto simp: v3_parse_configv1_def Let_def assms(1) STO_KERNEL_def f(1,2) UPG_MAX_PARTS_def simp del: upt_rec_numeral)
qed

lemma v3_parts_example:
  "\<exists>hdr'. v3_parse_configv1 nand_env True [] True (\<lambda>p. True) [] (Some 0) ''p'' (v3_cfg 0) v3_hdr0 v3_sys = Some (V3_ERR_NONE, hdr', v3_sys) \<and>
     map e3_part_id (h3_elem hdr') = [1, 2, 3]"
  using v3_cfg_parses [of "Some 0" v3_sys 0 nand_env True "[]" "[]" "''p''"] by (auto simp: v3_sys_tell)

theorem parts_stay_in_partitions_witness:
  "\<exists>hdr'. v3_parse_configv1 nand_env True [] True (\<lambda>p. True) [] (Some 0) ''p'' (v3_cfg 0) v3_hdr0 v3_sys = Some (V3_ERR_NONE, hdr', v3_sys) \<and>
     map e3_part_id (h3_elem hdr') = [1, 2, 3] \<and>
     (\<forall>el\<in>set (h3_elem hdr'). in_partition (v3_tell (Some 0) (si_lib v3_sys)) (v3_cfg 0) el)"
proof -
  obtain hdr' where p: "v3_parse_configv1 nand_env True [] True (\<lambda>p. True) [] (Some 0) ''p'' (v3_cfg 0) v3_hdr0 v3_sys = Some (V3_ERR_NONE, hdr', v3_sys)"
    "map e3_part_id (h3_elem hdr') = [1, 2, 3]"
    using v3_parts_example by (elim exE conjE) (rule that)
  have "\<forall>el\<in>set (h3_elem hdr'). in_partition (v3_tell (Some 0) (si_lib v3_sys)) (v3_cfg 0) el"
    by (rule parts_stay_in_partitions [OF p(1) _ _ _ refl, THEN conjunct1]) (simp_all add: v3_cfg_head v3_hdr0_def)
  with p show ?thesis by (intro exI conjI)
qed

definition v3_kernel_elem :: v3_elem where
  "v3_kernel_elem = \<lparr>e3_partsz = 512, e3_imgsz = 100, e3_size = 131072, e3_offset = 1024, e3_dstoffset = 1024,
     e3_level = UPG_LEVEL_LOWLEVEL, e3_part_id = 2, e3_private = False\<rparr>"

lemma nand_shift: "pmi_shift (pmi_header nand_mem) = 9"
  by (simp add: pmi_shift_def pmi_header_def bytes_at_def STO_HEADER_SIZE_def le32_def nand_mem_def)

lemma nand_first_block: "first_block_erases (env_drv nand_env 1) nand_info"
  by (simp add: first_block_erases_def nand_env_def nand_drv_def sim_drv_def nand_info_def)

lemma v3_kernel_table: "table_ok 9 [v3_kernel_elem]"
  by (simp add: table_ok_def v3_kernel_elem_def UPG_MAX_PARTS_def)

theorem updated_index_gives_layout_witness:
  "\<exists>s'. v3_updatepmi nand_env True True (Some 0) [v3_kernel_elem] (si_lib nand_sys) = Some (V3_ERR_NONE, s') \<and>
    (\<exists>dev' k' rows'. storage_parse (env_drv nand_env 1) True (nand_dev\<lparr>dev_attr := Some v3_rows\<rparr>) (mtd_state s' 1) = Some (STO_ERR_NONE, dev', k') \<and>
      dev_attr dev' = Some rows' \<and> rows' ! 2 = \<lparr>smap_offset = 1024, smap_size = 512, smap_imgsz = 100\<rparr>)"
proof -
  have "table_ok (pmi_shift (pmi_header nand_mem)) [v3_kernel_elem]"
    by (simp add: nand_shift v3_kernel_table)
  from updated_index_gives_layout [OF nand_is_open nand_pmi nand_first_block refl this] show ?thesis
    by (elim ex_forward conj_forward)
      (auto dest!: spec [of _ "nand_dev\<lparr>dev_attr := Some v3_rows\<rparr>"] spec [of _ v3_rows]
        simp: v3_kernel_elem_def STO_KERNEL_def STO_UBOOT_def v3_rows_def nand_dev_def STO_NANDMAX_def)
qed

end
