(* ===== verification/Upgrade_V3_Writer.thy ===== *)
theory Upgrade_V3_Writer
  imports Upgrade_V3 Upgrade_Writer
begin

section \<open>Writing a package of version 3 (\<open>writter.c\<close> of version 3)\<close>

text \<open>
  The writer of version 3 works on the whole NAND flash: it erases the place of an element and stores the
  buffers of the source one behind the other with the locked transfers, which do not erase. At the end it
  writes the new partition table and, after an upgrade of the boot loader, switches the flag that tells
  which of the two copies is in use. Pointers to elements are their indices in the list.

  Shown here: what the turns of the writer for all images leave on the flash, in a package for the whole
  flash; that an image as large as its partition loses its first buffer; and that the flag is never
  switched on a flash that takes whole pages only.
\<close>

subsection \<open>The writer\<close>

record 'k v3_writer =
  w3_sys :: "'k sysinfo"
  w3_nand :: "nat option"
  w3_elem_old :: "nat option"
  w3_shown :: int

text \<open>The two kinds of seeks of the transfers: into an area of the layout map, and to the current position.\<close>

definition area_para :: "nat \<Rightarrow> nat \<Rightarrow> int \<Rightarrow> alislsto_rw_param" where
  "area_para idx n off = \<lparr>rw_size = n, rw_offset = off, rw_whenence = -1, rw_idx = int idx, rw_flag = False\<rparr>"

definition next_para :: "nat \<Rightarrow> alislsto_rw_param" where
  "next_para n = \<lparr>rw_size = n, rw_offset = 0, rw_whenence = SEEK_CUR, rw_idx = -1, rw_flag = False\<rparr>"

definition v3_writter_begin :: "'k sto_env \<Rightarrow> storage_map list \<Rightarrow> 'k v3_writer \<Rightarrow> 'k v3_writer option" where
  "v3_writter_begin e layout w = do {
     (r, h, lib) \<leftarrow> alislsto_open e True STO_TYPE_NAND O_RDWR layout (si_lib (w3_sys w));
     Some (w\<lparr>w3_sys := (w3_sys w)\<lparr>si_lib := lib\<rparr>, w3_nand := (if h = None then w3_nand w else h), w3_shown := 0\<rparr>) }"

text \<open>
  The first buffer of an element. In a package for some partitions it is only written when the image is
  smaller than the partition. The results of the calls are not looked at.
\<close>

definition v3_new_elem :: "'k sto_env \<Rightarrow> bool \<Rightarrow> v3_elem \<Rightarrow> u8 list \<Rightarrow> nat \<Rightarrow> int \<Rightarrow> nat option \<Rightarrow> 'k sto_lib \<Rightarrow> 'k sto_lib option" where
  "v3_new_elem e whole el buf sz curoffset nand lib = do {
     (r, lib) \<leftarrow> lib_erase e (e3_dstoffset el) (e3_partsz el) nand lib;
     if whole then do {
       (r, lib) \<leftarrow> lib_lock_write e (area_para STO_PRIVATE sz (e3_dstoffset el)) (Some buf) nand lib; Some lib }
     else do {
       part_size \<leftarrow> v3_tell nand lib (e3_part_id el) STO_PART_SIZE;
       if e3_imgsz el < part_size then do {
         (r, lib) \<leftarrow> lib_lock_write e (area_para (e3_part_id el) sz curoffset) (Some buf) nand lib; Some lib }
       else Some lib } }"

text \<open>One turn of the loop, without an error so far; \<open>j\<close> is the element, \<open>pct\<close> the progress the source has stored.\<close>

definition v3_writter_turn :: "'k sto_env \<Rightarrow> bool \<Rightarrow> int \<Rightarrow> nat \<Rightarrow> v3_elem \<Rightarrow> u8 list \<Rightarrow> nat \<Rightarrow> int \<Rightarrow> int \<Rightarrow> 'k v3_writer \<Rightarrow> 'k v3_writer option" where
  "v3_writter_turn e whole scale j el buf sz curoffset pct w = do {
     let lib = si_lib (w3_sys w);
     lib \<leftarrow> (if w3_elem_old w \<noteq> Some j then v3_new_elem e whole el buf sz curoffset (w3_nand w) lib
             else do { (r, lib) \<leftarrow> lib_lock_write e (next_para sz) (Some buf) (w3_nand w) lib; Some lib });
     Some (w\<lparr>w3_sys := (w3_sys w)\<lparr>si_lib := lib\<rparr>, w3_elem_old := Some j,
             w3_shown := (if pct - w3_shown w \<ge> scale \<or> pct = 100 then pct else w3_shown w)\<rparr>) }"

text \<open>
  The flag of the boot loader in the upgrade status. The status is a local variable that is not
  initialised: \<open>junk\<close> is what it holds.
\<close>

definition v3_switch_uboot :: "'k sto_env \<Rightarrow> bool \<Rightarrow> storage_map list \<Rightarrow> u8 list \<Rightarrow> 'k sysinfo \<Rightarrow> 'k sysinfo option" where
  "v3_switch_uboot e malloc_ok layout junk st = do {
     (stat, st) \<leftarrow> alislupg_upginfo_read e malloc_ok layout (Some junk) UPGSTAT_SIZE st;
     stat \<leftarrow> stat;
     alislupg_upginfo_write e malloc_ok layout (Some (memcpy_at 84 (word_bytes (if cur_uboot stat \<noteq> 0 then 0 else 1)) stat)) UPGSTAT_SIZE st }"

definition v3_writter_end :: "'k sto_env \<Rightarrow> bool \<Rightarrow> bool \<Rightarrow> storage_map list \<Rightarrow> u8 list \<Rightarrow> v3_header \<Rightarrow> retcode \<Rightarrow> 'k v3_writer \<Rightarrow> 'k v3_writer option" where
  "v3_writter_end e malloc_ok wrbuf_ok layout junk hdr err w = do {
     let st = w3_sys w;
     st \<leftarrow> (if err = V3_ERR_NONE then do {
              (r, lib) \<leftarrow> v3_updatepmi e malloc_ok wrbuf_ok (w3_nand w) (h3_elem hdr) (si_lib st); Some (st\<lparr>si_lib := lib\<rparr>) }
            else Some st);
     st \<leftarrow> (if h3_ubootfile_imgsz hdr > 0 then v3_switch_uboot e malloc_ok layout junk st else Some st);
     (r, lib) \<leftarrow> alislsto_close (w3_nand w) (si_lib st);
     Some (w\<lparr>w3_sys := st\<lparr>si_lib := lib\<rparr>\<rparr>) }"

text \<open>The turns of the writer for a sequence of buffers: element, buffer, size, offset in the element, progress.\<close>

type_synonym v3_turn = "nat \<times> u8 list \<times> nat \<times> int \<times> int"

primrec v3_turns :: "'k sto_env \<Rightarrow> bool \<Rightarrow> int \<Rightarrow> v3_elem list \<Rightarrow> v3_turn list \<Rightarrow> 'k v3_writer \<Rightarrow> 'k v3_writer option" where
  "v3_turns e whole scale els [] w = Some w"
| "v3_turns e whole scale els (t # ts) w =
     (case t of (j, buf, sz, curoffset, pct) \<Rightarrow>
        if length els \<le> j then None
        else do { w \<leftarrow> v3_writter_turn e whole scale j (els ! j) buf sz curoffset pct w; v3_turns e whole scale els ts w })"

lemma v3_turns_append: "v3_turns e whole scale els (ts @ us) w = Option.bind (v3_turns e whole scale els ts w) (v3_turns e whole scale els us)"
  by (induction ts arbitrary: w) (auto split: prod.splits intro!: Option.bind_cong)

subsection \<open>Whole pages of good addresses\<close>

text \<open>From a page boundary on, the good addresses are whole pages.\<close>

lemma page_same_block:
  assumes "info_ok info" and "unit_ok info (info_erasesize info)" and "off mod info_writesize info = 0" and "0 \<le> x" and "x < info_writesize info"
  shows "(off + x) div info_erasesize info = off div info_erasesize info"
proof -
  let ?e = "info_erasesize info" and ?w = "info_writesize info"
  have e: "0 < ?e" "0 < ?w" "?e mod ?w = 0"
    using assms(1,2) by (auto simp: info_ok_def unit_ok_def)
  obtain m where m: "?e = ?w * m" using e(3) by auto
  obtain q where q: "off = ?w * q" using assms(3) by auto
  have "(off + x) div ?w = q"
    using e(2) assms(4,5) q by simp
  then show ?thesis
    using e(1,2) zdiv_zmult2_eq [of m "off + x" ?w] zdiv_zmult2_eq [of m off ?w] q unfolding m by (simp add: zero_less_mult_iff)
qed

lemma live_from_page:
  assumes "info_ok info" and "unit_ok info (info_erasesize info)" and "off mod info_writesize info = 0" and "0 \<le> off" and "off < info_size info"
  shows "live_from info bad off = (if live info bad off then [off..off + info_writesize info - 1] else []) @ live_from info bad (off + info_writesize info)"
proof -
  let ?w = "info_writesize info"
  have w: "0 < ?w" "info_size info mod ?w = 0"
    using assms(1,2) unfolding info_ok_def unit_ok_def by (auto intro: mod_0_imp_dvd dvd_trans)
  then have "?w dvd info_size info - off"
    using assms(3) by (intro dvd_diff) (auto simp: mod_0_imp_dvd)
  then have "off + ?w \<le> info_size info"
    using assms(5) zdvd_imp_le [of ?w "info_size info - off"] by simp
  then have "[off..info_size info - 1] = [off..off + ?w - 1] @ [off + ?w..info_size info - 1]"
    using w upto_append [of off "off + ?w" "info_size info - 1"] by simp
  moreover have "live info bad x = live info bad off" if "x \<in> set [off..off + ?w - 1]" for x
    using page_same_block [OF assms(1-3), of "x - off"] that by (simp add: live_def)
  then have "filter (live info bad) [off..off + ?w - 1] = (if live info bad off then [off..off + ?w - 1] else [])"
    by (cases "live info bad off") (simp_all add: filter_id_conv filter_empty_conv del: set_upto)
  ultimately show ?thesis
    by (simp only: live_from_def filter_append)
qed

lemma live_from_pages:
  assumes "info_ok info" and "unit_ok info (info_erasesize info)" and "off mod info_writesize info = 0" and "0 \<le> off"
    and "i < length (live_from info bad off)"
  shows "live_from info bad off ! i mod info_writesize info = int i mod info_writesize info"
  using assms(3-5)
proof (induction "nat (info_size info - off)" arbitrary: off i rule: less_induct)
  case less
  let ?w = "info_writesize info"
  have w: "0 < ?w"
    using assms(2) by (simp add: unit_ok_def)
  have off: "off < info_size info"
    by (rule ccontr) (use less.prems(3) in simp)
  note lf = live_from_page [OF assms(1,2) less.prems(1,2) off, of bad]
  have IH: "live_from info bad (off + ?w) ! i' mod ?w = int i' mod ?w" if "i' < length (live_from info bad (off + ?w))" for i'
    by (rule less.hyps) (use that w off less.prems(1,2) in simp_all)
  show ?case
  proof (cases "live info bad off")
    case False
    then show ?thesis
      using IH [of i] less.prems(3) by (simp add: lf)
  next
    case True
    show ?thesis
    proof (cases "i < nat ?w")
      case True
      then have "live_from info bad off ! i = off + int i"
        using \<open>live info bad off\<close> by (simp add: lf nth_append)
      then show ?thesis
        using less.prems(1) by (simp add: mod_add_left_eq [symmetric])
    next
      case False
      then have "int (i - nat ?w) mod ?w = int i mod ?w"
        using w by (simp add: of_nat_diff mod_diff_right_eq [symmetric])
      then show ?thesis
        using IH [of "i - nat ?w"] \<open>live info bad off\<close> False less.prems(3) by (simp add: lf nth_append)
    qed
  qed
qed

text \<open>The position behind whole pages is a page boundary.\<close>

lemma live_from_page_end:
  assumes "info_ok info" and "unit_ok info (info_erasesize info)" and "off mod info_writesize info = 0" and "0 \<le> off"
    and "0 < n" and "n \<le> length (live_from info bad off)" and "int n mod info_writesize info = 0"
  shows "(live_from info bad off ! (n - 1) + 1) mod info_writesize info = 0"
proof -
  have "(live_from info bad off ! (n - 1) + 1) mod info_writesize info = (int (n - 1) + 1) mod info_writesize info"
    using live_from_pages [OF assms(1-4), of "n - 1" bad] assms(5,6) by (intro mod_add_cong) simp_all
  then show ?thesis
    using assms(5,7) by (simp add: of_nat_diff)
qed

subsection \<open>The flash behind the writer\<close>

text \<open>
  The flash is open behind handle \<open>h\<close> with the descriptor \<open>dev\<close>; its driver obeys the laws of a flash and
  does not fail to erase a good block.
\<close>

definition v3_dev :: "mtd_info \<Rightarrow> alislsto_dev \<Rightarrow> bool" where
  "v3_dev info dev \<longleftrightarrow> dev_ready info dev \<and> dev_ok dev \<and> dev_erase_type dev = STO_ERASE_TYPE_BLOCK"

definition nand_laws_ok :: "'k sto_env \<Rightarrow> ('k \<Rightarrow> flash) \<Rightarrow> mtd_info \<Rightarrow> nat \<Rightarrow> bool" where
  "nand_laws_ok e ab info mtd \<longleftrightarrow> mtd_laws (env_drv e mtd) ab info \<and> info_ok info \<and> unit_ok info (info_erasesize info) \<and>
     info_size info < 2 ^ 31 \<and> info_erasesize info < 2 ^ 31 \<and> erase_never_fails (env_drv e mtd) ab info zero_dev"

definition nand_at :: "('k \<Rightarrow> flash) \<Rightarrow> mtd_info \<Rightarrow> nat \<Rightarrow> nat \<Rightarrow> alislsto_dev \<Rightarrow> (int \<Rightarrow> u8) \<Rightarrow> (int \<Rightarrow> bool) \<Rightarrow> 'k sto_lib \<Rightarrow> bool" where
  "nand_at ab info h mtd dev mem bad s \<longleftrightarrow> nand_handle s = Some h \<and> devs s h = Some dev \<and> v3_dev info dev \<and>
     fd_mtd s (dev_handle dev) = Some mtd \<and> fl_mem (ab (mtd_state s mtd)) = mem \<and> fl_bad (ab (mtd_state s mtd)) = bad"

lemma nand_at_flash_open:
  assumes "nand_laws_ok e ab info mtd" and "nand_at ab info h mtd dev mem bad s"
  shows "flash_open e ab info h mtd mem bad (dev_open_cnt dev) s"
  using assms by (auto simp: nand_laws_ok_def nand_at_def flash_open_def v3_dev_def)

lemma v3_dev_moved [simp]: "v3_dev info (dev\<lparr>dev_offset := x\<rparr>) = v3_dev info dev" "v3_dev info (dev\<lparr>dev_margin := y\<rparr>) = v3_dev info dev"
  by (simp_all add: v3_dev_def dev_ready_def dev_ok_def cong: ptr.case_cong option.case_cong)

lemma on_handle_nand:
  assumes "nand_at ab info h mtd dev mem bad s" and "f (env_drv e mtd) (Some dev) (mtd_state s mtd) = Some (r, Some dev', k')"
    and "v3_dev info dev'" and "dev_handle dev' = dev_handle dev" and "fl_mem (ab k') = mem'" and "fl_bad (ab k') = bad"
  obtains s' where "on_handle e f (Some h) s = Some (Some r, s')" "nand_at ab info h mtd dev' mem' bad s'"
  using assms that by (auto simp: on_handle_def nand_at_def)

lemma erase_nand:
  assumes "nand_laws_ok e ab info mtd" and "nand_at ab info h mtd dev mem bad s" and "as = live_from info bad start"
    and "0 \<le> start" and "start \<le> info_size info" and "start mod info_erasesize info = 0"
    and "0 \<le> len" and "len < 2 ^ 31" and "len mod info_erasesize info = 0"
  obtains r s' where "lib_erase e start len (Some h) s = Some (Some r, s')"
    "nand_at ab info h mtd dev (erase_at (take (nat len) as) mem) bad s'"
proof -
  have d: "v3_dev info dev" "dev_info dev = Valid info" "fl_mem (ab (mtd_state s mtd)) = mem" "fl_bad (ab (mtd_state s mtd)) = bad"
    using assms(2) by (auto simp: nand_at_def v3_dev_def dev_ready_def)
  then have t: "dev_ok dev" "bad_seen (dev_type dev) (fl_bad (ab (mtd_state s mtd)))" "dev_erase_type dev = STO_ERASE_TYPE_BLOCK"
    by (simp_all add: v3_dev_def dev_ready_def bad_seen_def)
  note l = assms(1) [unfolded nand_laws_ok_def]
  have u: "unit_ok info (write_unit dev info)" "erase_never_fails (env_drv e mtd) ab info dev"
    using l unfolding block_units [OF t(3)] by simp_all
  have a: "as = live_from info (fl_bad (ab (mtd_state s mtd))) start"
    by (simp add: assms(3) d(4))
  obtain r k' where r: "alislsto_erase (env_drv e mtd) (Some dev) (mtd_state s mtd) start len = Some (r, Some dev, k')"
    "fl_mem (ab k') = erase_at (take (nat len) as) mem" "fl_bad (ab k') = bad"
    using alislsto_erase_spec [OF _ t(1) d(2) t(2) _ u assms(4-9) a] l d(3,4) by auto
  show ?thesis
    by (rule on_handle_nand [where f = "\<lambda>drv dev k. alislsto_erase drv dev k start len", OF assms(2) r(1) d(1) refl r(2,3)])
      (use that in \<open>auto simp: lib_erase_def\<close>)
qed

text \<open>A locked write, whatever its seek, stores from the position of the seek on.\<close>

lemma lock_write_nand:
  assumes "nand_laws_ok e ab info mtd" and "nand_at ab info h mtd dev mem bad s"
    and "lock_seek para (Some dev) = Some (STO_ERR_NONE, c, Some dev1)" and "c \<noteq> -1" and "rw_flag para = False" and "rw_size para = n"
    and "v3_dev info dev1" and "dev_handle dev1 = dev_handle dev" and "as = live_from info bad (dev_offset dev1)"
    and "start_ok info bad (dev_offset dev1)" and "dev_offset dev1 mod info_writesize info = 0"
    and "0 < n" and "n \<le> length as" and "n \<le> length buf" and "int n mod info_writesize info = 0"
  obtains s' where "lib_lock_write e para (Some buf) (Some h) s = Some ((STO_ERR_NONE, int n), s')"
    "nand_at ab info h mtd (dev1\<lparr>dev_offset := as ! (n - 1) + 1\<rparr>) (store_at (take n as) (programmed mem (take n as) buf) mem) bad s'"
proof -
  let ?k = "mtd_state s mtd" and ?mem = "store_at (take n as) (programmed mem (take n as) buf) mem"
  let ?f = "\<lambda>drv dev k. do {
        (err, act, dev, k) \<leftarrow> alislsto_lock_write drv para dev k (Some buf) (Some 0);
        Some ((err, case act of None \<Rightarrow> 0 | Some n \<Rightarrow> n), dev, k) }"
  have l: "mtd_laws (env_drv e mtd) ab info" "info_ok info" "unit_ok info (info_erasesize info)"
    using assms(1) by (simp_all add: nand_laws_ok_def)
  have d: "dev_info dev1 = Valid info" "bad_seen (dev_type dev1) (fl_bad (ab ?k))" "fl_mem (ab ?k) = mem" "fl_bad (ab ?k) = bad"
    using assms(2,7) by (simp_all add: nand_at_def v3_dev_def dev_ready_def bad_seen_def)
  have a: "start_ok info (fl_bad (ab ?k)) (dev_offset dev1)" "as = live_from info (fl_bad (ab ?k)) (dev_offset dev1)"
    using assms(9,10) d(4) by simp_all
  obtain k' where k': "alislsto_write_no_erase (env_drv e mtd) (Some dev1) ?k (Some buf) n =
      Some (int n, Some (dev1\<lparr>dev_offset := as ! (n - 1) + 1\<rparr>), k')" "fl_mem (ab k') = ?mem" "fl_bad (ab k') = bad"
    using write_no_erase_programs [OF l(1) d(1) l(2,3) d(2) a(1) assms(11,15,12,14) a(2) assms(13)] d(3,4) by auto
  have f: "?f (env_drv e mtd) (Some dev) ?k = Some ((STO_ERR_NONE, int n), Some (dev1\<lparr>dev_offset := as ! (n - 1) + 1\<rparr>), k')"
    using k'(1) assms(3-6,12) by (simp add: alislsto_lock_write_def alislsto_set_offset_def)
  obtain s' where s': "on_handle e ?f (Some h) s = Some (Some (STO_ERR_NONE, int n), s')"
    "nand_at ab info h mtd (dev1\<lparr>dev_offset := as ! (n - 1) + 1\<rparr>) ?mem bad s'"
    by (rule on_handle_nand [where f = ?f, OF assms(2) f _ _ k'(2,3)]) (use assms(7,8) in simp_all)
  show ?thesis
    by (rule that [OF _ s'(2)]) (simp add: lib_lock_write_def s'(1))
qed

subsection \<open>The turns for one image\<close>

text \<open>The position behind \<open>c\<close> good bytes from \<open>dst\<close> on.\<close>

definition at_pos :: "mtd_info \<Rightarrow> (int \<Rightarrow> bool) \<Rightarrow> int \<Rightarrow> nat \<Rightarrow> alislsto_dev \<Rightarrow> bool" where
  "at_pos info bad dst c dev \<longleftrightarrow> start_ok info bad (dev_offset dev) \<and> dev_offset dev mod info_writesize info = 0 \<and>
     live_from info bad (dev_offset dev) = drop c (live_from info bad dst)"

lemma at_pos_after:
  assumes "info_ok info" and "unit_ok info (info_erasesize info)" and "at_pos info bad dst c dev"
    and "as = live_from info bad (dev_offset dev)" and "0 < n" and "n \<le> length as" and "int n mod info_writesize info = 0"
  shows "at_pos info bad dst (c + n) (dev\<lparr>dev_offset := as ! (n - 1) + 1\<rparr>)"
proof -
  have z: "0 \<le> dev_offset dev" "dev_offset dev mod info_writesize info = 0"
    using assms(3) by (simp_all add: at_pos_def start_ok_def)
  show ?thesis
    using live_from_after [OF assms(1) z(1) assms(5) _ refl, of bad] live_from_page_end [OF assms(1,2) z(2,1) assms(5) _ assms(7), of bad] assms(3,4,6)
    by (simp add: at_pos_def add.commute)
qed

lemma area_seek:
  assumes "v3_dev info dev" and "0 \<le> off" and "off \<le> info_size info"
  shows "lock_seek (area_para STO_PRIVATE n off) (Some dev) =
    Some (STO_ERR_NONE, 0, Some (dev\<lparr>dev_offset := off, dev_margin := info_size info\<rparr>))"
  using assms
  by (auto simp: lock_seek_def area_para_def v3_dev_def dev_ready_def private_row_def alislsto_lseek_ext_def STO_PRIVATE_def SEEK_CUR_def)

lemma next_seek:
  assumes "v3_dev info dev" and "0 \<le> dev_offset dev" and "dev_offset dev < info_size info" and "info_size info < 2 ^ 31"
  shows "lock_seek (next_para n) (Some dev) = Some (STO_ERR_NONE, dev_offset dev, Some dev)"
proof -
  have "to_int32 (dev_offset dev) = dev_offset dev" "to_int32 0 = 0"
    using assms(2-4) by (simp_all add: to_int32_id)
  then show ?thesis
    using assms
    by (simp add: lock_seek_def next_para_def alislsto_lseek_def v3_dev_def dev_ready_def seek_target_def SEEK_CUR_def SEEK_SET_def SEEK_END_def Let_def)
qed

text \<open>The place of an element and what a buffer has to be.\<close>

definition place_ok :: "mtd_info \<Rightarrow> v3_elem \<Rightarrow> bool" where
  "place_ok info el \<longleftrightarrow> 0 \<le> e3_dstoffset el \<and> e3_dstoffset el \<le> info_size info \<and> e3_dstoffset el mod info_erasesize info = 0 \<and>
     0 \<le> e3_partsz el \<and> e3_partsz el < 2 ^ 31 \<and> e3_partsz el mod info_erasesize info = 0"

definition pages :: "mtd_info \<Rightarrow> nat \<Rightarrow> bool" where
  "pages info n \<longleftrightarrow> 0 < n \<and> int n mod info_writesize info = 0"

text \<open>The state of the writer: its handle and the flash behind it.\<close>

definition writer_at :: "('k \<Rightarrow> flash) \<Rightarrow> mtd_info \<Rightarrow> nat \<Rightarrow> nat \<Rightarrow> alislsto_dev \<Rightarrow> (int \<Rightarrow> u8) \<Rightarrow> (int \<Rightarrow> bool) \<Rightarrow> 'k v3_writer \<Rightarrow> bool" where
  "writer_at ab info h mtd dev mem bad w \<longleftrightarrow> w3_nand w = Some h \<and> nand_at ab info h mtd dev mem bad (si_lib (w3_sys w))"

definition same_tables :: "'k v3_writer \<Rightarrow> 'k v3_writer \<Rightarrow> bool" where
  "same_tables w w' \<longleftrightarrow> si_ro (w3_sys w') = si_ro (w3_sys w) \<and> si_rw (w3_sys w') = si_rw (w3_sys w)"

lemma same_tables_refl [simp]: "same_tables w w"
  by (simp add: same_tables_def)

lemma same_tables_trans: "same_tables w w1 \<Longrightarrow> same_tables w1 w2 \<Longrightarrow> same_tables w w2"
  by (simp add: same_tables_def)

lemma store_at_take: "length as \<le> n \<Longrightarrow> store_at as (take n bs) mem = store_at as bs mem"
  by (metis (no_types, lifting) length_zip min.coboundedI1 store_at_def take_all take_zip)

lemma at_pos_start:
  assumes "place_ok info el" and "unit_ok info (info_erasesize info)" and "dev_offset dev = e3_dstoffset el"
  shows "at_pos info bad (e3_dstoffset el) 0 dev"
proof -
  have "e3_dstoffset el mod info_writesize info = 0"
    using assms(1,2) unfolding place_ok_def unit_ok_def by (auto intro: mod_0_imp_dvd dvd_trans)
  then show ?thesis
    using assms(1,3) by (simp add: at_pos_def place_ok_def start_ok_def)
qed

lemma first_turn:
  assumes "nand_laws_ok e ab info mtd" and "writer_at ab info h mtd dev mem bad w" and "w3_elem_old w \<noteq> Some j" and "place_ok info el"
    and "as = live_from info bad (e3_dstoffset el)" and "pages info n" and "n \<le> length as" and "n \<le> nat (e3_partsz el)" and "n \<le> length buf"
  obtains w' dev' where "v3_writter_turn e True scale j el buf n cur pct w = Some w'" "w3_elem_old w' = Some j"
    "writer_at ab info h mtd dev' (store_at (take n as) (take n buf) (erase_at (take (nat (e3_partsz el)) as) mem)) bad w'"
    "at_pos info bad (e3_dstoffset el) n dev'" "dev_open_cnt dev' = dev_open_cnt dev" "same_tables w w'"
proof -
  let ?dst = "e3_dstoffset el"
  let ?d = "dev\<lparr>dev_offset := ?dst, dev_margin := info_size info\<rparr>"
  define mem1 where "mem1 = erase_at (take (nat (e3_partsz el)) as) mem"
  have l: "info_ok info" "unit_ok info (info_erasesize info)"
    using assms(1) by (simp_all add: nand_laws_ok_def)
  have w: "w3_nand w = Some h" "nand_at ab info h mtd dev mem bad (si_lib (w3_sys w))"
    using assms(2) by (simp_all add: writer_at_def)
  have pl: "0 \<le> ?dst" "?dst \<le> info_size info" "?dst mod info_erasesize info = 0" "0 \<le> e3_partsz el" "e3_partsz el < 2 ^ 31"
    "e3_partsz el mod info_erasesize info = 0"
    using assms(4) by (simp_all add: place_ok_def)
  have n: "0 < n" "int n mod info_writesize info = 0"
    using assms(6) by (simp_all add: pages_def)
  obtain r s1 where s1: "lib_erase e ?dst (e3_partsz el) (Some h) (si_lib (w3_sys w)) = Some (Some r, s1)" "nand_at ab info h mtd dev mem1 bad s1"
    unfolding mem1_def by (rule erase_nand [OF assms(1) w(2) assms(5) pl])
  have d: "v3_dev info dev" "v3_dev info ?d" "dev_offset ?d = ?dst"
    using s1(2) by (simp_all add: nand_at_def)
  have p: "at_pos info bad ?dst 0 ?d" "as = live_from info bad (dev_offset ?d)"
    using at_pos_start [OF assms(4) l(2) d(3)] assms(5) by simp_all
  obtain s2 where s2: "lib_lock_write e (area_para STO_PRIVATE n ?dst) (Some buf) (Some h) s1 = Some ((STO_ERR_NONE, int n), s2)"
    "nand_at ab info h mtd (?d\<lparr>dev_offset := as ! (n - 1) + 1\<rparr>) (store_at (take n as) (programmed mem1 (take n as) buf) mem1) bad s2"
    by (rule lock_write_nand [OF assms(1) s1(2) area_seek [OF d(1) pl(1,2)] _ _ _ d(2) _ p(2) _ _ n(1) assms(7,9) n(2)])
      (use p(1) in \<open>simp_all add: area_para_def at_pos_def\<close>)
  have blank: "mem1 a = 0xff" if "a \<in> set (take n as)" for a
    using that assms(8) set_take_subset_set_take [of n "nat (e3_partsz el)" as] by (auto simp: mem1_def erase_at_def)
  have m: "store_at (take n as) (programmed mem1 (take n as) buf) mem1 = store_at (take n as) (take n buf) mem1"
    using programmed_blank [of "take n as" mem1 buf mem1, OF blank] store_at_take [of "take n as" n buf mem1] by simp
  show ?thesis
    by (rule that [of "w\<lparr>w3_sys := (w3_sys w)\<lparr>si_lib := s2\<rparr>, w3_elem_old := Some j,
             w3_shown := (if pct - w3_shown w \<ge> scale \<or> pct = 100 then pct else w3_shown w)\<rparr>" "?d\<lparr>dev_offset := as ! (n - 1) + 1\<rparr>"])
      (use s1(1) s2 m w(1) assms(3) at_pos_after [OF l p n(1) assms(7) n(2)] in
        \<open>simp_all add: v3_writter_turn_def v3_new_elem_def writer_at_def mem1_def Let_def same_tables_def\<close>)
qed

lemma next_turn:
  assumes "nand_laws_ok e ab info mtd" and "writer_at ab info h mtd dev mem bad w" and "w3_elem_old w = Some j"
    and "at_pos info bad dst c dev" and "as = live_from info bad dst" and "pages info n" and "c + n \<le> length as" and "n \<le> length buf"
    and "\<And>a. a \<in> set (take n (drop c as)) \<Longrightarrow> mem a = 0xff"
  obtains w' dev' where "v3_writter_turn e whole scale j el buf n cur pct w = Some w'" "w3_elem_old w' = Some j"
    "writer_at ab info h mtd dev' (store_at (take n (drop c as)) (take n buf) mem) bad w'"
    "at_pos info bad dst (c + n) dev'" "dev_open_cnt dev' = dev_open_cnt dev" "same_tables w w'"
proof -
  have l: "info_ok info" "unit_ok info (info_erasesize info)" "info_size info < 2 ^ 31"
    using assms(1) by (simp_all add: nand_laws_ok_def)
  have w: "w3_nand w = Some h" "nand_at ab info h mtd dev mem bad (si_lib (w3_sys w))" "v3_dev info dev"
    using assms(2) by (simp_all add: writer_at_def nand_at_def)
  have n: "0 < n" "int n mod info_writesize info = 0"
    using assms(6) by (simp_all add: pages_def)
  have b: "drop c as = live_from info bad (dev_offset dev)" "n \<le> length (drop c as)" "0 \<le> dev_offset dev"
    using assms(4,5,7) by (simp_all add: at_pos_def start_ok_def)
  have "dev_offset dev < info_size info"
    using live_from_inside [OF n(1)] b by simp
  note sk = next_seek [OF w(3) b(3) this l(3), of n]
  obtain s1 where s1: "lib_lock_write e (next_para n) (Some buf) (Some h) (si_lib (w3_sys w)) = Some ((STO_ERR_NONE, int n), s1)"
    "nand_at ab info h mtd (dev\<lparr>dev_offset := drop c as ! (n - 1) + 1\<rparr>)
       (store_at (take n (drop c as)) (programmed mem (take n (drop c as)) buf) mem) bad s1"
    by (rule lock_write_nand [OF assms(1) w(2) sk _ _ _ w(3) _ b(1) _ _ n(1) b(2) assms(8) n(2)])
      (use assms(4) b(3) in \<open>simp_all add: next_para_def at_pos_def\<close>)
  have m: "store_at (take n (drop c as)) (programmed mem (take n (drop c as)) buf) mem = store_at (take n (drop c as)) (take n buf) mem"
    using programmed_blank [of "take n (drop c as)" mem buf mem] assms(9) store_at_take [of "take n (drop c as)" n buf mem] by simp
  show ?thesis
    by (rule that [of "w\<lparr>w3_sys := (w3_sys w)\<lparr>si_lib := s1\<rparr>, w3_elem_old := Some j,
             w3_shown := (if pct - w3_shown w \<ge> scale \<or> pct = 100 then pct else w3_shown w)\<rparr>" "dev\<lparr>dev_offset := drop c as ! (n - 1) + 1\<rparr>"])
      (use s1 m w(1) assms(3) at_pos_after [OF l(1,2) assms(4) b(1) n(1) b(2) n(2)] in
        \<open>simp_all add: v3_writter_turn_def writer_at_def Let_def same_tables_def\<close>)
qed

definition turn_ok :: "mtd_info \<Rightarrow> nat \<Rightarrow> v3_turn \<Rightarrow> bool" where
  "turn_ok info j t = (case t of (j', buf, n, cur, pct) \<Rightarrow> j' = j \<and> pages info n \<and> n \<le> length buf)"

fun turn_bytes :: "v3_turn \<Rightarrow> u8 list" where
  "turn_bytes (j, buf, n, cur, pct) = take n buf"

lemma next_turns:
  assumes "nand_laws_ok e ab info mtd" and "as = live_from info bad dst" and "j < length els"
    and "writer_at ab info h mtd dev mem bad w" and "w3_elem_old w = Some j" and "at_pos info bad dst c dev"
    and "\<forall>t\<in>set ts. turn_ok info j t" and "img = concat (map turn_bytes ts)" and "c + length img \<le> length as"
    and "\<forall>a\<in>set (take (length img) (drop c as)). mem a = 0xff"
  shows "\<exists>w' dev'. v3_turns e whole scale els ts w = Some w' \<and> w3_elem_old w' = Some j \<and>
    writer_at ab info h mtd dev' (store_at (take (length img) (drop c as)) img mem) bad w' \<and> dev_open_cnt dev' = dev_open_cnt dev \<and>
    same_tables w w'"
  using assms(4-10)
proof (induction ts arbitrary: w dev mem c img)
  case Nil
  then show ?case by auto
next
  case (Cons t ts)
  obtain buf n cur pct where t: "t = (j, buf, n, cur, pct)" "pages info n" "n \<le> length buf"
    using Cons.prems(4) by (cases t) (auto simp: turn_ok_def)
  define rest where "rest = concat (map turn_bytes ts)"
  have img: "img = take n buf @ rest" "length img = n + length rest"
    using Cons.prems(5) t by (simp_all add: rest_def)
  have sp: "take (length img) (drop c as) = take n (drop c as) @ take (length rest) (drop (c + n) as)"
    unfolding img(2) by (simp add: take_add ac_simps)
  have d: "set (take n (drop c as)) \<inter> set (take (length rest) (drop (c + n) as)) = {}"
    using distinct_take [of "drop c as" "length img"] assms(2) unfolding sp by (simp add: distinct_drop)
  obtain w1 dev1 where w1: "v3_writter_turn e whole scale j (els ! j) buf n cur pct w = Some w1" "w3_elem_old w1 = Some j"
    "writer_at ab info h mtd dev1 (store_at (take n (drop c as)) (take n buf) mem) bad w1"
    "at_pos info bad dst (c + n) dev1" "dev_open_cnt dev1 = dev_open_cnt dev" "same_tables w w1"
    by (rule next_turn [OF assms(1) Cons.prems(1-3) assms(2) t(2) _ t(3)]) (use Cons.prems(6,7) img(2) sp in auto)
  have "store_at (take n (drop c as)) (take n buf) mem a = 0xff" if "a \<in> set (take (length rest) (drop (c + n) as))" for a
    using that d Cons.prems(7) sp by (subst store_at_other) auto
  with Cons.IH [OF w1(3,2,4) _ rest_def] Cons.prems(4,6) img(2)
  obtain w' dev' where w': "v3_turns e whole scale els ts w1 = Some w'" "w3_elem_old w' = Some j"
    "writer_at ab info h mtd dev' (store_at (take (length rest) (drop (c + n) as)) rest (store_at (take n (drop c as)) (take n buf) mem)) bad w'"
    "dev_open_cnt dev' = dev_open_cnt dev1" "same_tables w1 w'"
    by (auto simp: add.assoc)
  have "store_at (take (length img) (drop c as)) img mem =
      store_at (take (length rest) (drop (c + n) as)) rest (store_at (take n (drop c as)) (take n buf) mem)"
    unfolding sp unfolding img(1) using t(3) Cons.prems(6) img(2) by (intro store_at_append) simp
  moreover have "same_tables w w'"
    using same_tables_trans [OF w1(6) w'(5)] .
  ultimately show ?case
    using w1 w' t(1) assms(3) by (intro exI [of _ w'] exI [of _ dev']) simp
qed

text \<open>The image fits the good blocks of its place.\<close>

definition image_fits :: "mtd_info \<Rightarrow> (int \<Rightarrow> bool) \<Rightarrow> v3_elem \<Rightarrow> nat \<Rightarrow> bool" where
  "image_fits info bad el n \<longleftrightarrow> place_ok info el \<and>
     n \<le> length (filter (\<lambda>a. a < e3_dstoffset el + e3_partsz el) (live_from info bad (e3_dstoffset el)))"

definition stored :: "mtd_info \<Rightarrow> (int \<Rightarrow> bool) \<Rightarrow> (int \<Rightarrow> u8) \<Rightarrow> v3_elem \<Rightarrow> u8 list \<Rightarrow> bool" where
  "stored info bad mem el img \<longleftrightarrow> map mem (take (length img) (live_from info bad (e3_dstoffset el))) = img"

lemma sorted_live_from: "sorted (live_from info bad off)"
  unfolding live_from_def by (rule sorted_filter [of "\<lambda>x. x", simplified]) simp

lemma filter_below_prefix:
  assumes "sorted (xs :: int list)" and "n \<le> length (filter (\<lambda>a. a < b) xs)"
  shows "\<forall>a\<in>set (take n xs). a < b"
proof -
  have "filter (\<lambda>a. a < b) xs = takeWhile (\<lambda>a. a < b) xs"
    using assms(1)
  proof (induction xs)
    case (Cons a xs)
    have "filter (\<lambda>a. a < b) xs = []" if "\<not> a < b"
      unfolding filter_empty_conv using that Cons.prems by auto
    with Cons show ?case by auto
  qed simp
  then have "take n xs = take n (takeWhile (\<lambda>a. a < b) xs)"
    using assms(2) takeWhile_dropWhile_id [of "\<lambda>a. a < b" xs] by (metis append_Nil2 diff_is_0_eq take0 take_append)
  then show ?thesis
    by (metis in_set_takeD set_takeWhileD)
qed

lemma image_fits_place:
  assumes "image_fits info bad el n" and "as = live_from info bad (e3_dstoffset el)"
  shows "place_ok info el" and "n \<le> length as" and "n \<le> nat (e3_partsz el)" and "\<forall>a\<in>set (take n as). a < e3_dstoffset el + e3_partsz el"
proof -
  let ?f = "filter (\<lambda>a. a < e3_dstoffset el + e3_partsz el) as"
  show "place_ok info el"
    using assms(1) by (simp add: image_fits_def)
  have n: "n \<le> length ?f"
    using assms(1) unfolding image_fits_def assms(2) by (rule conjunct2)
  show "n \<le> length as"
    using n length_filter_le [of "\<lambda>a. a < e3_dstoffset el + e3_partsz el" as] by linarith
  show "\<forall>a\<in>set (take n as). a < e3_dstoffset el + e3_partsz el"
    using filter_below_prefix [OF _ n] sorted_live_from [of info bad "e3_dstoffset el"] unfolding assms(2) by blast
  have "set ?f \<subseteq> {e3_dstoffset el..<e3_dstoffset el + e3_partsz el}"
    using assms(2) by (auto dest: live_from_in)
  then have "card (set ?f) \<le> nat (e3_partsz el)"
    using card_mono [of "{e3_dstoffset el..<e3_dstoffset el + e3_partsz el}"] by fastforce
  moreover have "distinct ?f"
    using assms(2) by simp
  ultimately show "n \<le> nat (e3_partsz el)"
    using n by (simp only: distinct_card)
qed

lemma image_turns:
  assumes "nand_laws_ok e ab info mtd" and "writer_at ab info h mtd dev mem bad w" and "w3_elem_old w \<noteq> Some j" and "j < length els"
    and "ts \<noteq> []" and "\<forall>t\<in>set ts. turn_ok info j t" and "img = concat (map turn_bytes ts)" and "image_fits info bad (els ! j) (length img)"
    and "as = live_from info bad (e3_dstoffset (els ! j))"
  shows "\<exists>w' dev'. v3_turns e True scale els ts w = Some w' \<and> w3_elem_old w' = Some j \<and>
    writer_at ab info h mtd dev' (store_at (take (length img) as) img (erase_at (take (nat (e3_partsz (els ! j))) as) mem)) bad w' \<and>
    dev_open_cnt dev' = dev_open_cnt dev \<and> same_tables w w'"
proof -
  note f = image_fits_place [OF assms(8,9)]
  let ?mem = "erase_at (take (nat (e3_partsz (els ! j))) as) mem"
  obtain t us where ts: "ts = t # us"
    using assms(5) by (cases ts) auto
  obtain buf n cur pct where t: "t = (j, buf, n, cur, pct)" "pages info n" "n \<le> length buf"
    using assms(6) ts by (cases t) (auto simp: turn_ok_def)
  define rest where "rest = concat (map turn_bytes us)"
  have img: "img = take n buf @ rest" "length img = n + length rest"
    using assms(7) ts t by (simp_all add: rest_def)
  obtain w1 dev1 where w1: "v3_writter_turn e True scale j (els ! j) buf n cur pct w = Some w1" "w3_elem_old w1 = Some j"
    "writer_at ab info h mtd dev1 (store_at (take n as) (take n buf) ?mem) bad w1"
    "at_pos info bad (e3_dstoffset (els ! j)) n dev1" "dev_open_cnt dev1 = dev_open_cnt dev" "same_tables w w1"
    by (rule first_turn [OF assms(1-3) f(1) assms(9) t(2) _ _ t(3)]) (use f(2,3) img(2) in simp_all)
  have sp: "take (length img) as = take n as @ take (length rest) (drop n as)"
    unfolding img(2) by (simp add: take_add)
  have d: "set (take n as) \<inter> set (take (length rest) (drop n as)) = {}"
    using distinct_take [of as "length img"] assms(9) unfolding sp by simp
  have "store_at (take n as) (take n buf) ?mem a = 0xff" if "a \<in> set (take (length rest) (drop n as))" for a
  proof -
    have "a \<in> set (take (nat (e3_partsz (els ! j))) as)"
      using that set_take_subset_set_take [OF f(3), of as] unfolding sp by auto
    then show ?thesis
      using that d by (subst store_at_other) (auto simp: erase_at_def)
  qed
  with next_turns [OF assms(1,9,4) w1(3,2,4) _ rest_def, of True scale] assms(6) ts f(2) img(2)
  obtain w' dev' where w': "v3_turns e True scale els us w1 = Some w'" "w3_elem_old w' = Some j"
    "writer_at ab info h mtd dev' (store_at (take (length rest) (drop n as)) rest (store_at (take n as) (take n buf) ?mem)) bad w'"
    "dev_open_cnt dev' = dev_open_cnt dev1" "same_tables w1 w'"
    by auto
  have "store_at (take (length img) as) img ?mem =
      store_at (take (length rest) (drop n as)) rest (store_at (take n as) (take n buf) ?mem)"
    unfolding sp unfolding img(1) using t(3) f(2) img(2) by (intro store_at_append) simp
  then show ?thesis
    using w1 w' ts t(1) assms(4) same_tables_trans [OF w1(6) w'(5)] by (intro exI [of _ w'] exI [of _ dev']) simp
qed

subsection \<open>All images of a package for the whole flash\<close>

text \<open>The turns of a package in groups, one for each element with an image, in the order of their places.\<close>

definition elem_group_ok :: "mtd_info \<Rightarrow> (int \<Rightarrow> bool) \<Rightarrow> v3_elem list \<Rightarrow> nat \<times> v3_turn list \<Rightarrow> bool" where
  "elem_group_ok info bad els g \<longleftrightarrow> fst g < length els \<and> snd g \<noteq> [] \<and> (\<forall>t\<in>set (snd g). turn_ok info (fst g) t) \<and>
     image_fits info bad (els ! fst g) (length (concat (map turn_bytes (snd g))))"

definition elem_groups_ok :: "mtd_info \<Rightarrow> (int \<Rightarrow> bool) \<Rightarrow> v3_elem list \<Rightarrow> (nat \<times> v3_turn list) list \<Rightarrow> bool" where
  "elem_groups_ok info bad els gs \<longleftrightarrow> (\<forall>g\<in>set gs. elem_group_ok info bad els g) \<and> distinct (map fst gs) \<and>
     sorted_wrt (\<lambda>g g'. e3_dstoffset (els ! fst g) + e3_partsz (els ! fst g) \<le> e3_dstoffset (els ! fst g')) gs"

lemma stored_at:
  assumes "image_fits info bad el (length img)" and "as = live_from info bad (e3_dstoffset el)"
  shows "stored info bad (store_at (take (length img) as) img mem) el img"
  using image_fits_place(2) [OF assms] assms(2) by (simp add: stored_def map_store_at distinct_take)

lemma stored_kept:
  assumes "stored info bad mem el img" and "image_fits info bad el (length img)"
    and "\<And>a. a < e3_dstoffset el + e3_partsz el \<Longrightarrow> mem' a = mem a"
  shows "stored info bad mem' el img"
proof -
  have "map mem' (take (length img) (live_from info bad (e3_dstoffset el))) = map mem (take (length img) (live_from info bad (e3_dstoffset el)))"
    using image_fits_place(4) [OF assms(2) refl] assms(3) by (intro map_cong) auto
  with assms(1) show ?thesis
    by (simp add: stored_def)
qed

lemma package_turns:
  assumes "nand_laws_ok e ab info mtd" and "elem_groups_ok info bad els gs" and "writer_at ab info h mtd dev mem bad w"
    and "\<forall>g\<in>set gs. w3_elem_old w \<noteq> Some (fst g)"
  shows "\<exists>w' dev' mem'. v3_turns e True scale els (concat (map snd gs)) w = Some w' \<and> writer_at ab info h mtd dev' mem' bad w' \<and>
    dev_open_cnt dev' = dev_open_cnt dev \<and> same_tables w w' \<and>
    (\<forall>g\<in>set gs. stored info bad mem' (els ! fst g) (concat (map turn_bytes (snd g)))) \<and>
    (\<forall>a. (\<forall>g\<in>set gs. a < e3_dstoffset (els ! fst g)) \<longrightarrow> mem' a = mem a)"
  using assms(2-4)
proof (induction gs arbitrary: w dev mem)
  case Nil
  then show ?case by auto
next
  case (Cons g gs)
  define img where "img = concat (map turn_bytes (snd g))"
  define as where "as = live_from info bad (e3_dstoffset (els ! fst g))"
  define mem1 where "mem1 = store_at (take (length img) as) img (erase_at (take (nat (e3_partsz (els ! fst g))) as) mem)"
  have g: "fst g < length els" "snd g \<noteq> []" "\<forall>t\<in>set (snd g). turn_ok info (fst g) t" "image_fits info bad (els ! fst g) (length img)"
    using Cons.prems(1) by (simp_all add: elem_groups_ok_def elem_group_ok_def img_def)
  obtain w1 dev1 where w1: "v3_turns e True scale els (snd g) w = Some w1" "w3_elem_old w1 = Some (fst g)"
    "writer_at ab info h mtd dev1 mem1 bad w1" "dev_open_cnt dev1 = dev_open_cnt dev" "same_tables w w1"
    using image_turns [OF assms(1) Cons.prems(2) _ g(1-3) img_def g(4) as_def, of scale] Cons.prems(3) unfolding mem1_def by auto
  have low: "mem1 a = mem a" if "a < e3_dstoffset (els ! fst g)" for a
    unfolding mem1_def using that
    by (subst store_at_other) (auto simp: erase_at_def as_def dest!: in_set_takeD live_from_in)
  have gs: "elem_groups_ok info bad els gs" "\<forall>g'\<in>set gs. w3_elem_old w1 \<noteq> Some (fst g')"
    using Cons.prems(1) w1(2) by (auto simp: elem_groups_ok_def rev_image_eqI)
  obtain w' dev' mem' where w': "v3_turns e True scale els (concat (map snd gs)) w1 = Some w'" "writer_at ab info h mtd dev' mem' bad w'"
    "dev_open_cnt dev' = dev_open_cnt dev1" "same_tables w1 w'"
    "\<forall>g\<in>set gs. stored info bad mem' (els ! fst g) (concat (map turn_bytes (snd g)))"
    "\<forall>a. (\<forall>g\<in>set gs. a < e3_dstoffset (els ! fst g)) \<longrightarrow> mem' a = mem1 a"
    using Cons.IH [OF gs(1) w1(3) gs(2)] by blast
  have after: "e3_dstoffset (els ! fst g) + e3_partsz (els ! fst g) \<le> e3_dstoffset (els ! fst g')" if "g' \<in> set gs" for g'
    using Cons.prems(1) that by (simp add: elem_groups_ok_def)
  have "stored info bad mem' (els ! fst g) img"
  proof (rule stored_kept [OF _ g(4)])
    show "stored info bad mem1 (els ! fst g) img"
      unfolding mem1_def by (rule stored_at [OF g(4) as_def])
    show "mem' a = mem1 a" if "a < e3_dstoffset (els ! fst g) + e3_partsz (els ! fst g)" for a
      using w'(6) less_le_trans [OF that after] by blast
  qed
  moreover have "mem' a = mem a" if "\<forall>g'\<in>set (g # gs). a < e3_dstoffset (els ! fst g')" for a
    using that w'(6) low by simp
  ultimately show ?case
    using w1 w' same_tables_trans [OF w1(5) w'(4)] by (intro exI [of _ w'] exI [of _ dev'] exI [of _ mem']) (auto simp: v3_turns_append img_def)
qed

subsection \<open>The end of the writer\<close>

text \<open>Every element with an image lies behind the page map index.\<close>

definition behind_index :: "v3_elem list \<Rightarrow> (nat \<times> v3_turn list) list \<Rightarrow> bool" where
  "behind_index els gs \<longleftrightarrow> (\<forall>g\<in>set gs. int STO_HEADER_SIZE \<le> e3_dstoffset (els ! fst g))"

lemma begin_nand:
  assumes "nand_at ab info h mtd dev mem bad (si_lib (w3_sys w))" and "dev_open_cnt dev + 1 < 2 ^ 32"
  shows "\<exists>w'. v3_writter_begin e layout w = Some w' \<and> writer_at ab info h mtd (dev\<lparr>dev_open_cnt := dev_open_cnt dev + 1\<rparr>) mem bad w' \<and>
    same_tables w w' \<and> w3_elem_old w' = w3_elem_old w"
proof -
  have "v3_dev info (dev\<lparr>dev_open_cnt := dev_open_cnt dev + 1\<rparr>) = v3_dev info dev"
    by (simp add: v3_dev_def dev_ready_def dev_ok_def cong: ptr.case_cong option.case_cong)
  with assms show ?thesis
    by (simp add: v3_writter_begin_def alislsto_open_def nand_at_def writer_at_def same_tables_def)
qed

lemma end_without_uboot:
  assumes "nand_laws_ok e ab info mtd" and "writer_at ab info h mtd dev mem bad w" and "dev_open_cnt dev = cnt + 1" and "0 < cnt" and "cnt + 1 < 2 ^ 32"
    and "pmi_ready info mem bad" and "first_block_erases (env_drv e mtd) info" and "table_ok (pmi_shift (pmi_header mem)) (h3_elem hdr)"
    and "h3_ubootfile_imgsz hdr = 0"
  shows "\<exists>w'. v3_writter_end e True True layout junk hdr V3_ERR_NONE w = Some w' \<and>
    flash_open e ab info h mtd (with_header (v3_new_pmi (h3_elem hdr) (pmi_header mem)) mem) bad cnt (si_lib (w3_sys w'))"
proof -
  let ?mem = "with_header (v3_new_pmi (h3_elem hdr) (pmi_header mem)) mem"
  have w: "w3_nand w = Some h" "flash_open e ab info h mtd mem bad (cnt + 1) (si_lib (w3_sys w))"
    using assms(2) nand_at_flash_open [OF assms(1), of h dev mem bad, unfolded assms(3)] by (simp_all add: writer_at_def)
  obtain s1 where s1: "v3_updatepmi e True True (Some h) (h3_elem hdr) (si_lib (w3_sys w)) = Some (V3_ERR_NONE, s1)"
    "flash_open e ab info h mtd ?mem bad (cnt + 1) s1"
    using updatepmi_flash [OF w(2) assms(6,7,8)] by blast
  obtain s2 where "alislsto_close (Some h) s1 = Some (STO_ERR_NONE, s2)" "flash_open e ab info h mtd ?mem bad cnt s2"
    using close_flash [OF s1(2) assms(4,5)] by blast
  then show ?thesis
    using s1(1) w(1) assms(9) by (simp add: v3_writter_end_def Let_def)
qed

lemma stored_with_header:
  assumes "stored info bad mem el img" and "int (length hdr) \<le> e3_dstoffset el"
  shows "stored info bad (with_header hdr mem) el img"
proof -
  have "map (with_header hdr mem) (take (length img) (live_from info bad (e3_dstoffset el))) =
      map mem (take (length img) (live_from info bad (e3_dstoffset el)))"
    using assms(2) by (intro map_cong) (auto simp: with_header_def dest!: in_set_takeD live_from_in)
  with assms(1) show ?thesis
    by (simp add: stored_def)
qed

lemma index_kept:
  assumes "\<And>a. a < int STO_HEADER_SIZE \<Longrightarrow> mem' a = mem a"
  shows "pmi_header mem' = pmi_header mem" and "pmi_ready info mem' bad = pmi_ready info mem bad"
  using assms [of 14] assms [of 15] assms by (simp_all add: pmi_header_def bytes_at_def pmi_ready_def STO_HEADER_SIZE_def)

text \<open>What a package for the whole flash, without a boot loader, leaves on the flash.\<close>

lemma whole_turns_stored:
  assumes "nand_laws_ok e ab info mtd" and "writer_at ab info h mtd dev mem bad w0" and "dev_open_cnt dev = cnt + 1" and "0 < cnt" and "cnt + 1 < 2 ^ 32"
    and "pmi_ready info mem bad" and "first_block_erases (env_drv e mtd) info" and "els = h3_elem hdr"
    and "table_ok (pmi_shift (pmi_header mem)) els" and "h3_ubootfile_imgsz hdr = 0"
    and "elem_groups_ok info bad els gs" and "behind_index els gs" and "\<forall>g\<in>set gs. w3_elem_old w0 \<noteq> Some (fst g)"
  shows "\<exists>w1 w2 mem'. v3_turns e True scale els (concat (map snd gs)) w0 = Some w1 \<and>
    v3_writter_end e True True layout junk hdr V3_ERR_NONE w1 = Some w2 \<and>
    flash_open e ab info h mtd mem' bad cnt (si_lib (w3_sys w2)) \<and> pmi_ready info mem' bad \<and>
    pmi_header mem' = v3_new_pmi els (pmi_header mem) \<and>
    (\<forall>g\<in>set gs. stored info bad mem' (els ! fst g) (concat (map turn_bytes (snd g))))"
proof -
  obtain w2 dev2 mem2 where w2: "v3_turns e True scale els (concat (map snd gs)) w0 = Some w2" "writer_at ab info h mtd dev2 mem2 bad w2"
    "dev_open_cnt dev2 = cnt + 1" "\<forall>g\<in>set gs. stored info bad mem2 (els ! fst g) (concat (map turn_bytes (snd g)))"
    "\<forall>a. (\<forall>g\<in>set gs. a < e3_dstoffset (els ! fst g)) \<longrightarrow> mem2 a = mem a"
    using package_turns [OF assms(1,11,2), of scale] assms(3,13) by auto
  have "mem2 a = mem a" if "a < int STO_HEADER_SIZE" for a
    using that w2(5) assms(12) less_le_trans [OF that] by (simp add: behind_index_def)
  note k = index_kept [OF this]
  have t: "pmi_ready info mem2 bad" "table_ok (pmi_shift (pmi_header mem2)) (h3_elem hdr)"
    using k assms(6,8,9) by simp_all
  let ?new = "v3_new_pmi els (pmi_header mem)"
  obtain w3 where w3: "v3_writter_end e True True layout junk hdr V3_ERR_NONE w2 = Some w3"
    "flash_open e ab info h mtd (with_header ?new mem2) bad cnt (si_lib (w3_sys w3))"
    using end_without_uboot [OF assms(1) w2(2,3) assms(4,5) t(1) assms(7) t(2) assms(10), of layout junk] k(1) assms(8) by auto
  have l: "length ?new = STO_HEADER_SIZE"
    by (rule new_pmi_length [OF _ assms(9)]) (simp add: pmi_header_def)
  have "stored info bad (with_header ?new mem2) (els ! fst g) (concat (map turn_bytes (snd g)))" if "g \<in> set gs" for g
    using that w2(4) assms(12) l by (intro stored_with_header) (auto simp: behind_index_def)
  moreover have "pmi_ready info (with_header ?new mem2) bad"
    using new_pmi_ready [OF t(1), of els] t(2) k(1) assms(8) by simp
  ultimately show ?thesis
    using w2(1) w3 pmi_header_with_header [OF l] by blast
qed

subsection \<open>What the writer gets wrong\<close>

text \<open>
  (C38) In a package for some partitions, the first buffer of an image that is as large as its
  partition is lost: the partition is erased, nothing is written, the position stays where the previous
  element ended, and the next buffers of the image will be written there.
\<close>

theorem full_partition_loses_buffer:
  assumes "nand_laws_ok e ab info mtd" and "writer_at ab info h mtd dev mem bad w" and "w3_elem_old w \<noteq> Some j" and "place_ok info el"
    and "dev_attr dev = Some rows" and "e3_part_id el < length rows" and "smap_size (rows ! e3_part_id el) \<le> e3_imgsz el"
  shows "\<exists>w'. v3_writter_turn e False scale j el buf n cur pct w = Some w' \<and> w3_elem_old w' = Some j \<and>
    writer_at ab info h mtd dev (erase_at (take (nat (e3_partsz el)) (live_from info bad (e3_dstoffset el))) mem) bad w'"
proof -
  have w: "w3_nand w = Some h" "nand_at ab info h mtd dev mem bad (si_lib (w3_sys w))"
    using assms(2) by (simp_all add: writer_at_def)
  have pl: "0 \<le> e3_dstoffset el" "e3_dstoffset el \<le> info_size info" "e3_dstoffset el mod info_erasesize info = 0" "0 \<le> e3_partsz el"
    "e3_partsz el < 2 ^ 31" "e3_partsz el mod info_erasesize info = 0"
    using assms(4) by (simp_all add: place_ok_def)
  obtain r s1 where s1: "lib_erase e (e3_dstoffset el) (e3_partsz el) (Some h) (si_lib (w3_sys w)) = Some (Some r, s1)"
    "nand_at ab info h mtd dev (erase_at (take (nat (e3_partsz el)) (live_from info bad (e3_dstoffset el))) mem) bad s1"
    by (rule erase_nand [OF assms(1) w(2) refl pl])
  have "devs s1 h = Some dev" "dev_pmi dev"
    using s1(2) by (simp_all add: nand_at_def v3_dev_def dev_ready_def)
  then have "v3_tell (Some h) s1 (e3_part_id el) STO_PART_SIZE = Some (smap_size (rows ! e3_part_id el))"
    using assms(5,6) by (simp add: v3_tell_def alislsto_tell_ext_def)
  then show ?thesis
    using s1 w(1) assms(3,7) by (simp add: v3_writter_turn_def v3_new_elem_def writer_at_def Let_def)
qed

text \<open>
  On a flash that takes whole pages only, a first buffer that is not a whole number of pages is not
  written at all: the partition is erased, and the turn goes on as if the buffer had been stored.
\<close>

lemma partial_buffer_lost:
  assumes "nand_laws_ok e ab info mtd" and "law_whole_pages (env_drv e mtd) ab info" and "writer_at ab info h mtd dev mem bad w"
    and "w3_elem_old w \<noteq> Some j" and "place_ok info el" and "e3_dstoffset el < info_size info" and "live info bad (e3_dstoffset el)"
    and "int n mod info_writesize info \<noteq> 0" and "int n \<le> info_erasesize info" and "n \<le> length buf"
  shows "\<exists>w' dev'. v3_writter_turn e True scale j el buf n cur pct w = Some w' \<and> w3_elem_old w' = Some j \<and>
    writer_at ab info h mtd dev' (erase_at (take (nat (e3_partsz el)) (live_from info bad (e3_dstoffset el))) mem) bad w'"
proof -
  let ?dst = "e3_dstoffset el"
  let ?d = "dev\<lparr>dev_offset := ?dst, dev_margin := info_size info\<rparr>"
  define mem1 where "mem1 = erase_at (take (nat (e3_partsz el)) (live_from info bad ?dst)) mem"
  let ?f = "\<lambda>drv dev k. do {
        (err, act, dev, k) \<leftarrow> alislsto_lock_write drv (area_para STO_PRIVATE n ?dst) dev k (Some buf) (Some 0);
        Some ((err, case act of None \<Rightarrow> 0 | Some n \<Rightarrow> n), dev, k) }"
  have l: "mtd_laws (env_drv e mtd) ab info" "info_ok info" "unit_ok info (info_erasesize info)"
    using assms(1) by (simp_all add: nand_laws_ok_def)
  have w: "w3_nand w = Some h" "nand_at ab info h mtd dev mem bad (si_lib (w3_sys w))"
    using assms(3) by (simp_all add: writer_at_def)
  have pl: "0 \<le> ?dst" "?dst \<le> info_size info" "?dst mod info_erasesize info = 0" "0 \<le> e3_partsz el" "e3_partsz el < 2 ^ 31"
    "e3_partsz el mod info_erasesize info = 0"
    using assms(5) by (simp_all add: place_ok_def)
  have n: "n \<noteq> 0"
    using assms(8) by (rule contrapos_nn) simp
  obtain r s1 where s1: "lib_erase e ?dst (e3_partsz el) (Some h) (si_lib (w3_sys w)) = Some (Some r, s1)" "nand_at ab info h mtd dev mem1 bad s1"
    unfolding mem1_def by (rule erase_nand [OF assms(1) w(2) refl pl])
  have d: "v3_dev info dev" "v3_dev info ?d" "fl_mem (ab (mtd_state s1 mtd)) = mem1" "fl_bad (ab (mtd_state s1 mtd)) = bad"
    using s1(2) by (simp_all add: nand_at_def)
  then have ty: "dev_type dev = STO_TYPE_NAND" "dev_info dev = Valid info"
    by (simp_all add: v3_dev_def dev_ready_def)
  have "?dst mod info_writesize info = 0"
    using pl(3) l(3) unfolding unit_ok_def by (auto intro: mod_0_imp_dvd dvd_trans)
  then obtain k' where k': "write_no_erase_loop (env_drv e mtd) STO_TYPE_NAND info buf n ?dst (mtd_state s1 mtd) 0 = Some (0, ?dst, k')"
    "fl_mem (ab k') = mem1" "fl_bad (ab k') = bad"
    using partial_page_stops [OF l assms(2) refl pl(1) assms(6), of "mtd_state s1 mtd" n buf] assms(7-10) pl(3) d(3,4) by auto
  obtain err act where f: "?f (env_drv e mtd) (Some dev) (mtd_state s1 mtd) = Some ((err, act), Some ?d, k')"
    using k'(1) area_seek [OF d(1) pl(1,2), of n] ty n
    by (auto simp: alislsto_lock_write_def alislsto_write_no_erase_def alislsto_set_offset_def area_para_def)
  obtain s2 where s2: "on_handle e ?f (Some h) s1 = Some (Some (err, act), s2)" "nand_at ab info h mtd ?d mem1 bad s2"
    by (rule on_handle_nand [where f = ?f, OF s1(2) f d(2) _ k'(2,3)]) simp_all
  have "lib_lock_write e (area_para STO_PRIVATE n ?dst) (Some buf) (Some h) s1 = Some ((err, act), s2)"
    by (simp add: lib_lock_write_def s2(1))
  then show ?thesis
    using s1(1) s2(2) w(1) assms(4)
    by (auto simp: v3_writter_turn_def v3_new_elem_def writer_at_def mem1_def Let_def)
qed

lemma new_pmi_record:
  assumes "length buf = STO_HEADER_SIZE" and "table_ok (pmi_shift buf) els"
  shows "le32 (v3_new_pmi els buf) 184 = le32 buf 184"
  by (rule new_pmi_low [OF assms]) simp_all

text \<open>
  (C39) On a flash that takes whole pages only, the flag that tells which copy of the boot loader is in
  use is never switched: the end of the writer after an upgrade of the boot loader changes nothing on
  the flash but the page map index.
\<close>

theorem uboot_flag_not_switched:
  assumes "nand_laws_ok e ab info mtd" and "writer_at ab info h mtd dev mem bad w" and "dev_open_cnt dev = cnt + 1" and "0 < cnt" and "cnt + 2 < 2 ^ 32"
    and "tables_ok (w3_sys w)" and "pmi_ready info mem bad" and "first_block_erases (env_drv e mtd) info"
    and "table_ok (pmi_shift (pmi_header mem)) (h3_elem hdr)" and "0 < h3_ubootfile_imgsz hdr"
    and "law_whole_pages (env_drv e mtd) ab info" and "off = upginfo_offset mem" and "off < info_size info" and "live info bad off"
    and "off mod info_writesize info = 0" and "off mod info_erasesize info + int UPGSTAT_SIZE \<le> info_erasesize info"
    and "UPGSTAT_SIZE \<le> length (live_from info bad off)" and "int UPGSTAT_SIZE mod info_writesize info \<noteq> 0" and "length junk = UPGSTAT_SIZE"
  shows "\<exists>w'. v3_writter_end e True True layout junk hdr V3_ERR_NONE w = Some w' \<and>
    flash_open e ab info h mtd (with_header (v3_new_pmi (h3_elem hdr) (pmi_header mem)) mem) bad cnt (si_lib (w3_sys w'))"
proof -
  let ?hdr = "v3_new_pmi (h3_elem hdr) (pmi_header mem)"
  let ?mem = "with_header ?hdr mem" and ?n = UPGSTAT_SIZE
  have l: "length (pmi_header mem) = STO_HEADER_SIZE"
    by (simp add: pmi_header_def)
  have w: "w3_nand w = Some h" "flash_open e ab info h mtd mem bad (cnt + 1) (si_lib (w3_sys w))"
    using assms(2) nand_at_flash_open [OF assms(1), of h dev mem bad, unfolded assms(3)] by (simp_all add: writer_at_def)
  obtain s1 where s1: "v3_updatepmi e True True (Some h) (h3_elem hdr) (si_lib (w3_sys w)) = Some (V3_ERR_NONE, s1)"
    "flash_open e ab info h mtd ?mem bad (cnt + 1) s1"
    using updatepmi_flash [OF w(2) assms(7-9)] by blast
  let ?st = "(w3_sys w)\<lparr>si_lib := s1\<rparr>"
  have r: "pmi_ready info ?mem bad" "upginfo_offset ?mem = off" "tables_ok ?st" "0 \<le> off" "start_ok info bad off"
    using new_pmi_ready [OF assms(7,9)] pmi_header_with_header [OF new_pmi_length [OF l assms(9)], of mem] new_pmi_record [OF l assms(9)] assms(6,12,14)
    by (auto simp: upginfo_offset_def tables_ok_def le32_def start_ok_def)
  have c: "0 < cnt + 1" "cnt + 1 + 1 < 2 ^ 32" "0 < ?n"
    using assms(5) by (simp_all add: UPGSTAT_SIZE_def)
  obtain st2 where st2: "alislsysinfo_upginfo_read e True layout (Some junk) ?n ?st =
      Some (?n, Some (memcpy_at 0 (map ?mem (take ?n (live_from info bad off))) junk), st2)"
    "flash_open e ab info h mtd ?mem bad (cnt + 1) (si_lib st2)" "tables_ok st2"
    using upginfo_read_flash [of e ab info h mtd ?mem bad "cnt + 1" ?st, OF _ r(1) _ _ c(1,2) _ refl c(3), of junk layout, unfolded r(2)] s1(2) r(3,5) assms(17,19)
    by (auto simp: tables_ok_def)
  let ?stat = "memcpy_at 0 (map ?mem (take ?n (live_from info bad off))) junk"
  let ?b = "memcpy_at 84 (word_bytes (if cur_uboot ?stat \<noteq> 0 then 0 else 1)) ?stat"
  have "length ?b = ?n"
    using assms(17,19) by (simp add: UPGSTAT_SIZE_def)
  then obtain st3 where st3: "alislsysinfo_upginfo_write e True layout (Some ?b) ?n st2 = Some (0, st3)"
    "flash_open e ab info h mtd ?mem bad (cnt + 1) (si_lib st3)"
    using partial_record_not_written [OF st2(2,3) c(1,2) r(1) assms(11) _ r(4) assms(13-16) _ assms(18), of ?b layout] r(2) by auto
  obtain s4 where "alislsto_close (Some h) (si_lib st3) = Some (STO_ERR_NONE, s4)" "flash_open e ab info h mtd ?mem bad cnt s4"
    using close_flash [OF st3(2) assms(4)] assms(5) by auto
  then show ?thesis
    using s1(1) st2(1) st3(1) w(1) assms(10)
    by (simp add: v3_writter_end_def v3_switch_uboot_def alislupg_upginfo_read_def alislupg_upginfo_write_def Let_def)
qed

subsection \<open>Witnesses\<close>

text \<open>The flash of the system information, opened for the writer; the third row is a partition of one block.\<close>

definition v3_nand_rows :: "storage_map list" where
  "v3_nand_rows = [\<lparr>smap_offset = 0, smap_size = 0, smap_imgsz = 0\<rparr>, \<lparr>smap_offset = 0, smap_size = 2048, smap_imgsz = 0\<rparr>,
     \<lparr>smap_offset = 1024, smap_size = 512, smap_imgsz = 0\<rparr>]"

definition v3_nand_dev :: "nat \<Rightarrow> alislsto_dev" where
  "v3_nand_dev cnt = nand_dev\<lparr>dev_open_cnt := cnt, dev_bad_cnt := 0, dev_bad_map := Some [0], dev_attr := Some v3_nand_rows\<rparr>"

definition v3_nand_writer :: "nat \<Rightarrow> flash v3_writer" where
  "v3_nand_writer cnt = \<lparr>w3_sys = nand_sys\<lparr>si_lib := (si_lib nand_sys)\<lparr>devs := [0 \<mapsto> v3_nand_dev cnt]\<rparr>\<rparr>, w3_nand = Some 0,
     w3_elem_old = None, w3_shown = 0\<rparr>"

lemma v3_nand_laws: "nand_laws_ok nand_env (\<lambda>k. k) nand_info 1"
proof -
  have "erase_never_fails nand_drv (\<lambda>k. k) nand_info zero_dev"
    by (simp add: erase_never_fails_def erase_unit_def nand_drv_def sim_drv_def zero_dev_def write_unit_def)
  then show ?thesis
    using nand_laws(1) by (simp add: nand_laws_ok_def nand_env_def) (simp add: nand_info_def info_ok_def unit_ok_def)
qed

lemma nand_live: "live_from nand_info (\<lambda>b. False) a = [a..2047]"
  by (simp add: live_from_def live_def nand_info_def filter_id_conv del: upto_rec_numeral)

lemma v3_nand_open: "writer_at (\<lambda>k. k) nand_info 0 1 (v3_nand_dev cnt) nand_mem (\<lambda>b. False) (v3_nand_writer cnt)"
proof -
  have "length (good_blocks [0] 4) = 4"
    by code_simp
  then have "dev_ok (v3_nand_dev cnt)"
    by (simp add: dev_ok_def v3_nand_dev_def nand_dev_def demo_dev_def nand_info_def info_ok_def blocks_of_def)
  moreover have "dev_ready nand_info (v3_nand_dev cnt)"
    by (simp add: dev_ready_def v3_nand_dev_def nand_dev_def demo_dev_def private_row_def STO_PRIVATE_def STO_INVALID_HANDLE_def v3_nand_rows_def)
      (simp add: nand_info_def)
  ultimately have "v3_dev nand_info (v3_nand_dev cnt)"
    by (simp add: v3_dev_def v3_nand_dev_def nand_dev_def demo_dev_def STO_ERASE_TYPE_BLOCK_def)
  then show ?thesis
    by (simp add: writer_at_def nand_at_def v3_nand_writer_def nand_sys_def) (simp add: v3_nand_dev_def nand_dev_def demo_dev_def)
qed

theorem full_partition_loses_buffer_witness:
  "\<exists>w'. v3_writter_turn nand_env False 1 0 (v3_kernel_elem\<lparr>e3_imgsz := 512\<rparr>) (replicate 512 1) 512 0 100 (v3_nand_writer 1) = Some w' \<and>
    w3_elem_old w' = Some 0 \<and>
    writer_at (\<lambda>k. k) nand_info 0 1 (v3_nand_dev 1) (erase_at (take 512 (live_from nand_info (\<lambda>b. False) 1024)) nand_mem) (\<lambda>b. False) w'"
proof -
  let ?el = "v3_kernel_elem\<lparr>e3_imgsz := 512\<rparr>"
  have p: "place_ok nand_info ?el" "dev_attr (v3_nand_dev 1) = Some v3_nand_rows" "e3_part_id ?el < length v3_nand_rows"
    "smap_size (v3_nand_rows ! e3_part_id ?el) \<le> e3_imgsz ?el" "w3_elem_old (v3_nand_writer 1) \<noteq> Some 0"
    by (simp_all add: place_ok_def v3_kernel_elem_def nand_info_def v3_nand_dev_def v3_nand_rows_def v3_nand_writer_def)
  have e: "e3_dstoffset ?el = 1024" "nat (e3_partsz ?el) = 512"
    by (simp_all add: v3_kernel_elem_def)
  show ?thesis
    by (rule full_partition_loses_buffer [OF v3_nand_laws v3_nand_open p(5,1-4), unfolded e])
qed

theorem uboot_flag_not_switched_witness:
  "\<exists>w'. v3_writter_end nand_env True True [] (replicate 104 7) (v3_hdr0\<lparr>h3_elem := [v3_kernel_elem], h3_ubootfile_imgsz := 1\<rparr>) V3_ERR_NONE (v3_nand_writer 2) = Some w' \<and>
    flash_open nand_env (\<lambda>k. k) nand_info 0 1 (with_header (v3_new_pmi [v3_kernel_elem] (pmi_header nand_mem)) nand_mem) (\<lambda>b. False) 1 (si_lib (w3_sys w'))"
proof -
  let ?hdr = "v3_hdr0\<lparr>h3_elem := [v3_kernel_elem], h3_ubootfile_imgsz := 1\<rparr>"
  have e: "h3_elem ?hdr = [v3_kernel_elem]"
    by simp
  have t: "tables_ok (w3_sys (v3_nand_writer 2))" "table_ok (pmi_shift (pmi_header nand_mem)) (h3_elem ?hdr)" "law_whole_pages (env_drv nand_env 1) (\<lambda>k. k) nand_info"
    using nand_tables nand_laws(2) v3_kernel_table by (simp_all add: tables_ok_def v3_nand_writer_def nand_shift nand_env_def)
  show ?thesis
    by (rule uboot_flag_not_switched [OF v3_nand_laws v3_nand_open _ _ _ t(1) nand_pmi nand_first_block t(2) _ t(3) nand_offset [symmetric], unfolded e])
      (simp_all add: v3_nand_dev_def nand_live UPGSTAT_SIZE_def del: upto_rec_numeral, simp_all add: nand_info_def live_def)
qed

end
