(* ===== verification/Upgrade_V3_Run.thy ===== *)
theory Upgrade_V3_Run
  imports Upgrade_V3_Writer
begin

section \<open>The two threads of version 3 (\<open>writter.c\<close>, \<open>usb.c\<close>)\<close>

text \<open>
  The source thread of the USB plugin reads the images from the package file and hands them to the
  writer buffer by buffer; the two semaphores pass the buffer to and fro. Unlike in version 4 the progress
  is counted by the source, and the writer looks at it and at \<open>writting\<close> after it has given the
  buffer back.

  Shown here: in every interleaving the writer performs the turns for a prefix of the buffers of
  the package, in order; when it has performed them all, the flash holds the images at the places
  of the new partition table; and the writer may end without an error before the last buffer.
\<close>

subsection \<open>The source\<close>

record 'k v3_st =
  v_w :: "'k v3_writer"
  v_wrun :: bool
  v_check :: bool
  v_buf :: "u8 list"
  v_size :: nat
  v_total :: nat
  v_elem :: nat
  v_cur :: nat
  v_writting :: bool
  v_semw :: nat
  v_sems :: nat
  v_over :: nat
  v_err :: retcode
  v_pct :: int
  v_srun :: bool
  v_open :: bool
  v_selem :: nat
  v_elemread :: nat
  v_perread :: nat
  v_totalread :: nat
  v_begun :: bool

definition v3_img :: "v3_elem \<Rightarrow> nat" where
  "v3_img el = nat (e3_imgsz el)"

text \<open>The number of bytes of the next read; \<open>fread\<close> delivers them all or counts as failed.\<close>

definition v3_source_len :: "v3_elem list \<Rightarrow> 'k v3_st \<Rightarrow> nat" where
  "v3_source_len els s = (if v3_img (els ! v_selem s) < UPG_BUF_SIZE then v3_img (els ! v_selem s) else v_perread s)"

definition v3_fread :: "u8 list \<Rightarrow> int \<Rightarrow> nat \<Rightarrow> u8 list option" where
  "v3_fread pkg off n = (if 0 \<le> off \<and> nat off + n \<le> length pkg then Some (take n (drop (nat off) pkg)) else None)"

text \<open>The progress; with a total below 100 its division has a zero divisor.\<close>

definition v3_percent :: "nat \<Rightarrow> nat \<Rightarrow> int option" where
  "v3_percent readn tot = (if tot div 100 = 0 then None else if readn = tot then Some 100 else Some (int (readn div (tot div 100))))"

text \<open>After a read of the \<open>n\<close> bytes \<open>bs\<close>.\<close>

definition v3_source_turn :: "v3_elem list \<Rightarrow> nat \<Rightarrow> u8 list \<Rightarrow> 'k v3_st \<Rightarrow> 'k v3_st option" where
  "v3_source_turn els n bs s =
     (let el = els ! v_selem s;
          er = u32 (v_elemread s + n);
          tr = u32 (v_totalread s + n);
          rest = nat ((int (v3_img el) - int er) mod 2 ^ 32);
          pr = (if rest < UPG_BUF_SIZE then rest else n);
          tr = (if pr = 0 then nat ((int tr + e3_size el - e3_imgsz el) mod 2 ^ 32) else tr);
          s = s\<lparr>v_elem := v_selem s, v_cur := v_elemread s, v_buf := memcpy_at 0 bs (v_buf s), v_size := n, v_totalread := tr,
                v_sems := v_sems s + 1\<rparr>;
          s = (if pr = 0 then s\<lparr>v_selem := v_selem s + 1, v_elemread := 0, v_perread := UPG_BUF_SIZE\<rparr>
               else s\<lparr>v_elemread := er, v_perread := pr\<rparr>)
      in do { p \<leftarrow> v3_percent tr (v_total s); Some (s\<lparr>v_pct := p\<rparr>) })"

definition v3_source_more :: "v3_elem list \<Rightarrow> 'k v3_st \<Rightarrow> bool" where
  "v3_source_more els s \<longleftrightarrow> v_srun s \<and> v_open s \<and> v_totalread s < v_total s \<and> v_selem s < length els"

text \<open>
  The state when both threads begin: the tune is filled with zeros. \<open>w\<close> is the writer after it has opened
  the flash, which the source does not look at, \<open>start\<close> the offset of the data in the package, \<open>buf\<close> the
  buffer. Before its loop the writer sets the progress to zero, at any time relative to the source: \<open>v_begun\<close>
  says whether it has done so.
\<close>

definition v3_init :: "'k v3_writer \<Rightarrow> nat \<Rightarrow> u8 list \<Rightarrow> 'k v3_st" where
  "v3_init w start buf = \<lparr>v_w = w, v_wrun = True, v_check = False, v_buf = buf, v_size = 0, v_total = 0, v_elem = 0, v_cur = 0,
     v_writting = False, v_semw = 1, v_sems = 0, v_over = 0, v_err = V3_ERR_NONE, v_pct = 0, v_srun = True, v_open = False, v_selem = 0, v_elemread = 0,
     v_perread = UPG_BUF_SIZE, v_totalread = start, v_begun = False\<rparr>"

text \<open>
  A step of one of the threads. \<open>v_check\<close> marks the writer between giving the buffer back and looking at
  the progress. The package file may be missing, and a seek or a read may fail; a failed read leaves a
  buffer that is not looked at any more.
\<close>

inductive v3step :: "'k sto_env \<Rightarrow> bool \<Rightarrow> bool \<Rightarrow> int \<Rightarrow> v3_header \<Rightarrow> u8 list \<Rightarrow> 'k v3_st \<Rightarrow> 'k v3_st \<Rightarrow> bool" for e m wb scale hdr pkg where
  source_none: "\<lbrakk>v_srun s; \<not> v_open s; h3_elem hdr = []\<rbrakk> \<Longrightarrow> v3step e m wb scale hdr pkg s (s\<lparr>v_srun := False\<rparr>)"
| source_open: "\<lbrakk>v_srun s; \<not> v_open s; h3_elem hdr \<noteq> []\<rbrakk>
    \<Longrightarrow> v3step e m wb scale hdr pkg s (s\<lparr>v_open := True, v_total := length pkg, v_writting := True\<rparr>)"
| source_nofile: "\<lbrakk>v_srun s; \<not> v_open s; h3_elem hdr \<noteq> []\<rbrakk>
    \<Longrightarrow> v3step e m wb scale hdr pkg s (s\<lparr>v_err := V3_ERR_OTHER, v_sems := v_sems s + 1, v_srun := False, v_writting := False\<rparr>)"
| source_skip: "\<lbrakk>v3_source_more (h3_elem hdr) s; e3_imgsz (h3_elem hdr ! v_selem s) = 0\<rbrakk>
    \<Longrightarrow> v3step e m wb scale hdr pkg s (s\<lparr>v_totalread := nat ((int (v_totalread s) + e3_size (h3_elem hdr ! v_selem s)) mod 2 ^ 32), v_selem := v_selem s + 1\<rparr>)"
| source_end: "\<lbrakk>v_srun s; v_open s; \<not> v3_source_more (h3_elem hdr) s\<rbrakk> \<Longrightarrow> v3step e m wb scale hdr pkg s (s\<lparr>v_srun := False, v_writting := False\<rparr>)"
| source_quit: "\<lbrakk>v3_source_more (h3_elem hdr) s; e3_imgsz (h3_elem hdr ! v_selem s) \<noteq> 0; 0 < v_semw s; v_err s \<noteq> V3_ERR_NONE\<rbrakk>
    \<Longrightarrow> v3step e m wb scale hdr pkg s (s\<lparr>v_semw := v_semw s - 1, v_srun := False, v_writting := False\<rparr>)"
| source_fill: "\<lbrakk>v3_source_more (h3_elem hdr) s; e3_imgsz (h3_elem hdr ! v_selem s) \<noteq> 0; 0 < v_semw s; v_err s = V3_ERR_NONE;
      n = v3_source_len (h3_elem hdr) s; v3_fread pkg (e3_offset (h3_elem hdr ! v_selem s) + int (v_elemread s)) n = Some bs;
      v3_source_turn (h3_elem hdr) n bs (s\<lparr>v_semw := v_semw s - 1\<rparr>) = Some s'\<rbrakk> \<Longrightarrow> v3step e m wb scale hdr pkg s s'"
| source_fail: "\<lbrakk>v3_source_more (h3_elem hdr) s; e3_imgsz (h3_elem hdr ! v_selem s) \<noteq> 0; 0 < v_semw s; v_err s = V3_ERR_NONE\<rbrakk>
    \<Longrightarrow> v3step e m wb scale hdr pkg s (s\<lparr>v_semw := v_semw s - 1, v_elem := v_selem s, v_cur := v_elemread s, v_err := V3_ERR_OTHER, v_sems := v_sems s + 1,
          v_srun := False, v_writting := False\<rparr>)"
| writer_begin: "\<lbrakk>v_wrun s; \<not> v_begun s\<rbrakk> \<Longrightarrow> v3step e m wb scale hdr pkg s (s\<lparr>v_begun := True, v_pct := 0\<rparr>)"
| writer_write: "\<lbrakk>v_wrun s; v_begun s; \<not> v_check s; 0 < v_sems s; v_err s = V3_ERR_NONE; v_elem s < length (h3_elem hdr);
      v3_writter_turn e (h3_mono hdr) scale (v_elem s) (h3_elem hdr ! v_elem s) (v_buf s) (v_size s) (int (v_cur s)) (v_pct s) (v_w s) = Some w\<rbrakk>
    \<Longrightarrow> v3step e m wb scale hdr pkg s (s\<lparr>v_sems := v_sems s - 1, v_w := w, v_semw := v_semw s + 1, v_check := True\<rparr>)"
| writer_next: "\<lbrakk>v_wrun s; v_check s; v_writting s; v_pct s \<noteq> 100\<rbrakk> \<Longrightarrow> v3step e m wb scale hdr pkg s (s\<lparr>v_check := False\<rparr>)"
| writer_done: "\<lbrakk>v_wrun s; v_check s; \<not> v_writting s \<or> v_pct s = 100; v3_writter_end e m wb layout junk hdr (v_err s) (v_w s) = Some w\<rbrakk>
    \<Longrightarrow> v3step e m wb scale hdr pkg s (s\<lparr>v_check := False, v_w := w, v_wrun := False, v_over := v_over s + 1\<rparr>)"
| writer_stop: "\<lbrakk>v_wrun s; v_begun s; \<not> v_check s; 0 < v_sems s; v_err s \<noteq> V3_ERR_NONE; v3_writter_end e m wb layout junk hdr (v_err s) (v_w s) = Some w\<rbrakk>
    \<Longrightarrow> v3step e m wb scale hdr pkg s (s\<lparr>v_sems := v_sems s - 1, v_w := w, v_wrun := False, v_over := v_over s + 1\<rparr>)"

abbreviation v3_reach :: "'k sto_env \<Rightarrow> bool \<Rightarrow> bool \<Rightarrow> int \<Rightarrow> v3_header \<Rightarrow> u8 list \<Rightarrow> 'k v3_st \<Rightarrow> 'k v3_st \<Rightarrow> bool" where
  "v3_reach e m wb scale hdr pkg \<equiv> (v3step e m wb scale hdr pkg)\<^sup>*\<^sup>*"

text \<open>The writer posts its end once, as its last step; the source does not touch the semaphore.\<close>

lemma source_turn_over: "v3_source_turn els n bs s = Some s' \<Longrightarrow> v_over s' = v_over s \<and> v_wrun s' = v_wrun s \<and> v_srun s' = v_srun s"
  by (auto simp: v3_source_turn_def Let_def bind_eq_Some_conv split: if_splits)

lemma step_over:
  assumes "v3step e m wb scale hdr pkg s s'" and "v_over s = of_bool (\<not> v_wrun s)"
  shows "v_over s' = of_bool (\<not> v_wrun s')"
  using assms by cases (auto dest: source_turn_over)

lemma reach_over:
  assumes "v3_reach e m wb scale hdr pkg s0 s" and "v_over s0 = 0" and "v_wrun s0"
  shows "v_over s = of_bool (\<not> v_wrun s)"
  using assms(1)
proof induction
  case base
  then show ?case
    using assms(2,3) by simp
next
  case (step y z)
  then show ?case
    by (simp only: step_over [OF step.hyps(2) step.IH])
qed

text \<open>A source that does not run is not started by the threads.\<close>

lemma reach_srun:
  assumes "v3_reach e m wb scale hdr pkg s0 s" and "v_srun s"
  shows "v_srun s0"
  using assms
proof induction
  case (step y z)
  from step.hyps(2) step.prems have "v_srun y"
    by cases (auto dest: source_turn_over)
  then show ?case
    by (rule step.IH)
qed

subsection \<open>The buffers of a package\<close>

text \<open>The buffers of an image from byte \<open>c\<close> on: element, size, bytes, offset in the image.\<close>

type_synonym v3_chunk = "nat \<times> nat \<times> u8 list \<times> int"

function img_chunks :: "u8 list \<Rightarrow> v3_elem \<Rightarrow> nat \<Rightarrow> nat \<Rightarrow> v3_chunk list" where
  "img_chunks pkg el j c =
     (if c < v3_img el
      then (let n = min UPG_BUF_SIZE (v3_img el - c) in (j, n, take n (drop (nat (e3_offset el + int c)) pkg), int c)) # img_chunks pkg el j (c + UPG_BUF_SIZE)
      else [])"
  by pat_completeness auto
termination
  by (relation "measure (\<lambda>(pkg, el, j, c). v3_img el - c)") (auto simp: UPG_BUF_SIZE_def)

declare img_chunks.simps [simp del]

definition rest_chunks :: "u8 list \<Rightarrow> v3_elem list \<Rightarrow> nat \<Rightarrow> nat \<Rightarrow> v3_chunk list" where
  "rest_chunks pkg els i c =
     (if i < length els then img_chunks pkg (els ! i) i c @ concat (map (\<lambda>j. img_chunks pkg (els ! j) j 0) [Suc i..<length els]) else [])"

definition all_chunks :: "u8 list \<Rightarrow> v3_elem list \<Rightarrow> v3_chunk list" where
  "all_chunks pkg els = concat (map (\<lambda>j. img_chunks pkg (els ! j) j 0) [0..<length els])"

fun turn_chunk :: "v3_turn \<Rightarrow> v3_chunk" where
  "turn_chunk (j, buf, n, cur, pct) = (j, n, take n buf, cur)"

lemma rest_chunks_all: "rest_chunks pkg els 0 0 = all_chunks pkg els"
  by (cases "els = []") (simp_all add: rest_chunks_def all_chunks_def upt_conv_Cons)

lemma rest_chunks_next:
  assumes "i < length els" and "v3_img (els ! i) \<le> c"
  shows "rest_chunks pkg els i c = rest_chunks pkg els (Suc i) 0"
proof -
  have "img_chunks pkg (els ! i) i c = []"
    using assms(2) by (simp add: img_chunks.simps)
  then show ?thesis
    using assms(1) by (cases "Suc i < length els") (simp_all add: rest_chunks_def upt_conv_Cons)
qed

subsection \<open>The turns of a run\<close>

definition sizes_ok :: "v3_elem list \<Rightarrow> bool" where
  "sizes_ok els \<longleftrightarrow> (\<forall>el\<in>set els. 0 \<le> e3_imgsz el \<and> e3_imgsz el < 2 ^ 32)"

definition src_ok :: "v3_elem list \<Rightarrow> 'k v3_st \<Rightarrow> bool" where
  "src_ok els s \<longleftrightarrow> (if v_elemread s = 0 then v_perread s = UPG_BUF_SIZE
     else v_selem s < length els \<and> UPG_BUF_SIZE \<le> v3_img (els ! v_selem s) \<and> v_elemread s < v3_img (els ! v_selem s) \<and>
          v_perread s = min UPG_BUF_SIZE (v3_img (els ! v_selem s) - v_elemread s))"

text \<open>The buffer that waits for the writer.\<close>

definition pending :: "'k v3_st \<Rightarrow> v3_chunk list" where
  "pending s = (if v_sems s = 0 then [] else [(v_elem s, v_size s, take (v_size s) (v_buf s), int (v_cur s))])"

lemma source_len_min:
  assumes "src_ok els s" and "v_selem s < length els" and "v3_img (els ! v_selem s) \<noteq> 0"
  shows "v3_source_len els s = min UPG_BUF_SIZE (v3_img (els ! v_selem s) - v_elemread s)" and "v_elemread s < v3_img (els ! v_selem s)"
  using assms by (auto simp: src_ok_def v3_source_len_def min_def split: if_splits)

lemma source_turn_eq:
  assumes "u32 (v_elemread s + n) = er" and "nat ((int (v3_img (els ! v_selem s)) - int er) mod 2 ^ 32) = r" and "(if r < UPG_BUF_SIZE then r else n) = pr"
    and "v3_source_turn els n bs s = Some s'"
  shows "\<exists>p tr. s' = (if pr = 0
      then s\<lparr>v_elem := v_selem s, v_cur := v_elemread s, v_buf := memcpy_at 0 bs (v_buf s), v_size := n, v_totalread := tr, v_sems := v_sems s + 1,
             v_selem := v_selem s + 1, v_elemread := 0, v_perread := UPG_BUF_SIZE, v_pct := p\<rparr>
      else s\<lparr>v_elem := v_selem s, v_cur := v_elemread s, v_buf := memcpy_at 0 bs (v_buf s), v_size := n, v_totalread := tr, v_sems := v_sems s + 1,
             v_elemread := er, v_perread := pr, v_pct := p\<rparr>)"
proof -
  obtain tr where "Option.bind (v3_percent tr (v_total s)) (\<lambda>p. Some ((if pr = 0
      then s\<lparr>v_elem := v_selem s, v_cur := v_elemread s, v_buf := memcpy_at 0 bs (v_buf s), v_size := n, v_totalread := tr, v_sems := v_sems s + 1,
             v_selem := v_selem s + 1, v_elemread := 0, v_perread := UPG_BUF_SIZE\<rparr>
      else s\<lparr>v_elem := v_selem s, v_cur := v_elemread s, v_buf := memcpy_at 0 bs (v_buf s), v_size := n, v_totalread := tr, v_sems := v_sems s + 1,
             v_elemread := er, v_perread := pr\<rparr>)\<lparr>v_pct := p\<rparr>)) = Some s'"
    using assms(4) unfolding v3_source_turn_def Let_def assms(1-3) by (cases "pr = 0") simp_all
  then show ?thesis
    by (cases "v3_percent tr (v_total s)"; cases "pr = 0") auto
qed

lemma source_turn_same: "v3_source_turn els n bs s = Some s' \<Longrightarrow> v_w s' = v_w s \<and> v_wrun s' = v_wrun s"
  by (auto simp: v3_source_turn_def Let_def bind_eq_Some_conv split: if_splits)

lemma source_turn_chunk:
  assumes "sizes_ok els" and "src_ok els s" and "v_selem s < length els" and "e3_imgsz (els ! v_selem s) \<noteq> 0" and "n = v3_source_len els s"
    and "v3_fread pkg (e3_offset (els ! v_selem s) + int (v_elemread s)) n = Some bs" and "v3_source_turn els n bs (s\<lparr>v_semw := k\<rparr>) = Some s'"
    and "length (v_buf s) = UPG_BUF_SIZE" and "v_sems s = 0"
  shows "rest_chunks pkg els (v_selem s) (v_elemread s) = pending s' @ rest_chunks pkg els (v_selem s') (v_elemread s')" and "src_ok els s'"
    and "length (v_buf s') = UPG_BUF_SIZE" and "v_sems s' = 1" and "v_semw s' = k"
    and "v_w s' = v_w s" and "v_wrun s' = v_wrun s" and "v_check s' = v_check s" and "v_err s' = v_err s"
proof -
  let ?el = "els ! v_selem s" and ?c = "v_elemread s"
  have sz: "0 \<le> e3_imgsz ?el" "e3_imgsz ?el < 2 ^ 32"
    using assms(1,3) by (simp_all add: sizes_ok_def)
  have i: "v3_img ?el \<noteq> 0" "v3_img ?el < 2 ^ 32"
    using sz assms(4) by (auto simp: v3_img_def)
  note n = source_len_min [OF assms(2,3) i(1), folded assms(5)]
  have bs: "0 \<le> e3_offset ?el + int ?c" "nat (e3_offset ?el + int ?c) + n \<le> length pkg" "bs = take n (drop (nat (e3_offset ?el + int ?c)) pkg)"
    using assms(6) by (auto simp: v3_fread_def split: if_splits)
  have l: "length bs = n" "n \<le> UPG_BUF_SIZE" "?c + n \<le> v3_img ?el"
    using bs n by auto
  have m: "take n (memcpy_at 0 bs (v_buf s)) = bs" "length (memcpy_at 0 bs (v_buf s)) = UPG_BUF_SIZE"
    using l(1,2) assms(8) by (simp_all add: memcpy_at_def)
  have er: "u32 (?c + n) = ?c + n" "nat ((int (v3_img ?el) - int (?c + n)) mod 2 ^ 32) = v3_img ?el - (?c + n)"
    using l(3) i(2) by (auto simp: u32_def of_nat_diff [symmetric] simp del: of_nat_diff)
  let ?r = "v3_img ?el - (?c + n)"
  have pr: "(if ?r < UPG_BUF_SIZE then ?r else n) = (if ?r = 0 then 0 else min UPG_BUF_SIZE ?r)" "?r \<noteq> 0 \<Longrightarrow> n = UPG_BUF_SIZE"
    using n(1) l(3) by auto
  have e: "u32 (v_elemread (s\<lparr>v_semw := k\<rparr>) + n) = ?c + n"
    "nat ((int (v3_img (els ! v_selem (s\<lparr>v_semw := k\<rparr>))) - int (?c + n)) mod 2 ^ 32) = ?r"
    "((if ?r = 0 then 0 else min UPG_BUF_SIZE ?r) = 0) = (?r = 0)"
    using er by (simp_all add: UPG_BUF_SIZE_def)
  note t = source_turn_eq [OF e(1,2) pr(1) assms(7), unfolded e(3)]
  obtain p tr where s': "s' = (if ?r = 0
      then s\<lparr>v_semw := k, v_elem := v_selem s, v_cur := ?c, v_buf := memcpy_at 0 bs (v_buf s), v_size := n, v_totalread := tr, v_sems := 1,
             v_selem := v_selem s + 1, v_elemread := 0, v_perread := UPG_BUF_SIZE, v_pct := p\<rparr>
      else s\<lparr>v_semw := k, v_elem := v_selem s, v_cur := ?c, v_buf := memcpy_at 0 bs (v_buf s), v_size := n, v_totalread := tr, v_sems := 1,
             v_elemread := ?c + n, v_perread := min UPG_BUF_SIZE ?r, v_pct := p\<rparr>)"
    using t assms(9) by (cases "?r = 0") (simp_all only: if_True if_False v3_st.simps v3_st.update_convs, auto)
  have "pending s' = [(v_selem s, n, bs, int ?c)]"
    using m(1) by (simp add: s' pending_def)
  moreover have "rest_chunks pkg els (v_selem s) ?c = (v_selem s, n, bs, int ?c) # rest_chunks pkg els (v_selem s) (?c + UPG_BUF_SIZE)"
    using assms(3) n bs(3) by (simp add: rest_chunks_def img_chunks.simps [of _ _ _ ?c] Let_def)
  moreover have "rest_chunks pkg els (v_selem s) (?c + UPG_BUF_SIZE) = rest_chunks pkg els (v_selem s') (v_elemread s')"
    using rest_chunks_next [OF assms(3), of "?c + UPG_BUF_SIZE" pkg] pr(2) l(2,3) by (cases "?r = 0") (simp_all add: s')
  ultimately show "rest_chunks pkg els (v_selem s) (v_elemread s) = pending s' @ rest_chunks pkg els (v_selem s') (v_elemread s')"
    by simp
  show "src_ok els s'"
    using pr(2) l(3) assms(3) by (cases "?r = 0") (auto simp: s' src_ok_def UPG_BUF_SIZE_def)
  show "length (v_buf s') = UPG_BUF_SIZE" and "v_sems s' = 1" and "v_semw s' = k"
    and "v_w s' = v_w s" and "v_wrun s' = v_wrun s" and "v_check s' = v_check s" and "v_err s' = v_err s"
    using m(2) by (simp_all add: s')
qed

text \<open>The writer has performed the turns \<open>ts\<close>, and its end if it does not run any more.\<close>

definition performed :: "'k sto_env \<Rightarrow> bool \<Rightarrow> bool \<Rightarrow> int \<Rightarrow> v3_header \<Rightarrow> 'k v3_writer \<Rightarrow> v3_turn list \<Rightarrow> 'k v3_st \<Rightarrow> bool" where
  "performed e m wb scale hdr w0 ts s \<longleftrightarrow> (\<exists>w. v3_turns e (h3_mono hdr) scale (h3_elem hdr) ts w0 = Some w \<and>
     (if v_wrun s then v_w s = w
      else \<exists>layout junk err. v3_writter_end e m wb layout junk hdr err w = Some (v_w s) \<and> (v_err s = V3_ERR_NONE \<longrightarrow> err = V3_ERR_NONE)))"

definition v3_run_inv :: "'k sto_env \<Rightarrow> bool \<Rightarrow> bool \<Rightarrow> int \<Rightarrow> v3_header \<Rightarrow> u8 list \<Rightarrow> 'k v3_writer \<Rightarrow> 'k v3_st \<Rightarrow> bool" where
  "v3_run_inv e m wb scale hdr pkg w0 s \<longleftrightarrow> length (v_buf s) = UPG_BUF_SIZE \<and> (v_err s = V3_ERR_NONE \<longrightarrow> v_semw s + v_sems s \<le> 1) \<and>
     (\<exists>ts us. all_chunks pkg (h3_elem hdr) = map turn_chunk ts @ us \<and> performed e m wb scale hdr w0 ts s \<and>
        (v_err s = V3_ERR_NONE \<longrightarrow> src_ok (h3_elem hdr) s \<and> us = pending s @ rest_chunks pkg (h3_elem hdr) (v_selem s) (v_elemread s)))"

lemma v3_run_invI:
  assumes "length (v_buf s) = UPG_BUF_SIZE" and "v_err s = V3_ERR_NONE \<Longrightarrow> v_semw s + v_sems s \<le> 1" and "all_chunks pkg (h3_elem hdr) = map turn_chunk ts @ us"
    and "performed e m wb scale hdr w0 ts s"
    and "v_err s = V3_ERR_NONE \<Longrightarrow> src_ok (h3_elem hdr) s \<and> us = pending s @ rest_chunks pkg (h3_elem hdr) (v_selem s) (v_elemread s)"
  shows "v3_run_inv e m wb scale hdr pkg w0 s"
  using assms by (auto simp: v3_run_inv_def)

lemma err_codes [simp]: "V3_ERR_OTHER \<noteq> V3_ERR_NONE" "V3_ERR_NONE \<noteq> V3_ERR_OTHER"
  by (simp_all add: V3_ERR_OTHER_def V3_ERR_NONE_def)

lemma performed_end:
  assumes "performed e m wb scale hdr w0 ts s" and "v_wrun s" and "v3_writter_end e m wb layout junk hdr (v_err s) (v_w s) = Some w"
    and "v_w s' = w" and "\<not> v_wrun s'" and "v_err s' = v_err s"
  shows "performed e m wb scale hdr w0 ts s'"
  unfolding performed_def
proof (intro exI conjI)
  show "v3_turns e (h3_mono hdr) scale (h3_elem hdr) ts w0 = Some (v_w s)"
    using assms(1,2) by (auto simp: performed_def)
  show "if v_wrun s' then v_w s' = v_w s
    else \<exists>layout junk err. v3_writter_end e m wb layout junk hdr err (v_w s) = Some (v_w s') \<and> (v_err s' = V3_ERR_NONE \<longrightarrow> err = V3_ERR_NONE)"
    using assms(3-6) by (simp, blast)
qed

lemma v3_run_inv_step:
  assumes "sizes_ok (h3_elem hdr)" and "v3_run_inv e m wb scale hdr pkg w0 s" and "v3step e m wb scale hdr pkg s s'"
  shows "v3_run_inv e m wb scale hdr pkg w0 s'"
proof -
  let ?els = "h3_elem hdr"
  obtain ts us where b: "length (v_buf s) = UPG_BUF_SIZE" "v_err s = V3_ERR_NONE \<Longrightarrow> v_semw s + v_sems s \<le> 1" and c: "all_chunks pkg ?els = map turn_chunk ts @ us"
    and p: "performed e m wb scale hdr w0 ts s"
    and r: "v_err s = V3_ERR_NONE \<Longrightarrow> src_ok ?els s \<and> us = pending s @ rest_chunks pkg ?els (v_selem s) (v_elemread s)"
    using assms(2) by (auto simp: v3_run_inv_def)
  have same: "performed e m wb scale hdr w0 ts s'" if "v_w s' = v_w s" "v_wrun s' = v_wrun s" "v_err s' = v_err s \<or> v_err s' \<noteq> V3_ERR_NONE"
    using p that unfolding performed_def by (auto split: if_splits; blast)
  from assms(3) show ?thesis
  proof cases
    case source_none
    have "src_ok ?els s' = src_ok ?els s" "pending s' = pending s"
      using source_none(1) by (simp_all add: src_ok_def pending_def)
    then show ?thesis
      using b r same source_none(1) by (intro v3_run_invI [OF _ _ c]) simp_all
  next
    case source_open
    then show ?thesis
      using b r same by (intro v3_run_invI [OF _ _ c]) (simp_all add: src_ok_def pending_def)
  next
    case source_nofile
    then show ?thesis
      using b same by (intro v3_run_invI [OF _ _ c]) simp_all
  next
    case source_skip
    have z: "v_selem s < length ?els" "v3_img (?els ! v_selem s) = 0"
      using source_skip by (simp_all add: v3_source_more_def v3_img_def)
    show ?thesis
    proof (rule v3_run_invI [OF _ _ c])
      assume "v_err s' = V3_ERR_NONE"
      then have o: "src_ok ?els s" "us = pending s @ rest_chunks pkg ?els (v_selem s) (v_elemread s)"
        using r source_skip(1) by auto
      then have "v_elemread s = 0"
        using z(2) by (auto simp: src_ok_def split: if_splits)
      then show "src_ok ?els s' \<and> us = pending s' @ rest_chunks pkg ?els (v_selem s') (v_elemread s')"
        using o rest_chunks_next [OF z(1), of 0 pkg] z(2) source_skip(1) by (simp add: src_ok_def pending_def)
    qed (use b same source_skip(1) in simp_all)
  next
    case source_end
    then show ?thesis
      using b r same by (intro v3_run_invI [OF _ _ c]) (simp_all add: src_ok_def pending_def)
  next
    case source_quit
    then show ?thesis
      using b r same by (intro v3_run_invI [OF _ _ c]) (simp_all add: src_ok_def pending_def)
  next
    case (source_fill n bs)
    have k: "v_sems s = 0" "v_selem s < length ?els"
      using b(2) source_fill by (simp_all add: v3_source_more_def)
    have o: "src_ok ?els s" "us = pending s @ rest_chunks pkg ?els (v_selem s) (v_elemread s)"
      using r source_fill by auto
    note t = source_turn_chunk [OF assms(1) o(1) k(2) source_fill(2,5,6,7) b(1) k(1)]
    have "performed e m wb scale hdr w0 ts s'"
      using same t(6,7,9) by simp
    then show ?thesis
      using t o(2) k(1) b(2) by (intro v3_run_invI [OF _ _ c]) (simp_all add: pending_def [of s])
  next
    case source_fail
    then show ?thesis
      using b same by (intro v3_run_invI [OF _ _ c]) simp_all
  next
    case writer_begin
    then show ?thesis
      using b r same by (intro v3_run_invI [OF _ _ c]) (simp_all add: src_ok_def pending_def)
  next
    case (writer_write w)
    let ?t = "(v_elem s, v_buf s, v_size s, int (v_cur s), v_pct s)"
    have o: "src_ok ?els s" "us = turn_chunk ?t # rest_chunks pkg ?els (v_selem s) (v_elemread s)"
      using r writer_write by (auto simp: pending_def)
    have c': "all_chunks pkg ?els = map turn_chunk (ts @ [?t]) @ rest_chunks pkg ?els (v_selem s) (v_elemread s)"
      unfolding c o(2) by simp
    show ?thesis
      using b o(1) p writer_write by (intro v3_run_invI [OF _ _ c']) (auto simp: performed_def v3_turns_append pending_def src_ok_def)
  next
    case writer_next
    then show ?thesis
      using b r same by (intro v3_run_invI [OF _ _ c]) (simp_all add: src_ok_def pending_def)
  next
    case (writer_done layout junk w)
    have "performed e m wb scale hdr w0 ts s'"
      by (rule performed_end [OF p writer_done(2,5)]) (simp_all add: writer_done(1))
    then show ?thesis
      using b r writer_done by (intro v3_run_invI [OF _ _ c]) (simp_all add: src_ok_def pending_def)
  next
    case (writer_stop layout junk w)
    have "performed e m wb scale hdr w0 ts s'"
      by (rule performed_end [OF p writer_stop(2,7)]) (simp_all add: writer_stop(1))
    then show ?thesis
      using b writer_stop by (intro v3_run_invI [OF _ _ c]) simp_all
  qed
qed

lemma v3_run_inv_reach:
  assumes "sizes_ok (h3_elem hdr)" and "length buf = UPG_BUF_SIZE" and "v3_reach e m wb scale hdr pkg (v3_init w0 start buf) s"
  shows "v3_run_inv e m wb scale hdr pkg w0 s"
  using assms(3)
proof (induction rule: rtranclp_induct)
  case base
  show ?case
    by (rule v3_run_invI [where ts = "[]" and us = "all_chunks pkg (h3_elem hdr)"])
      (use assms(2) in \<open>simp_all add: v3_init_def performed_def src_ok_def pending_def rest_chunks_all\<close>)
next
  case (step s s')
  then show ?case
    using v3_run_inv_step [OF assms(1)] by blast
qed

subsection \<open>The turns of a complete run\<close>

lemma split_concat_map:
  assumes "map f ts = concat (map g js)" and "distinct js"
  shows "\<exists>h. ts = concat (map h js) \<and> (\<forall>j\<in>set js. map f (h j) = g j)"
  using assms
proof (induction js arbitrary: ts)
  case (Cons j js)
  obtain us vs where t: "ts = us @ vs" "map f us = g j" "map f vs = concat (map g js)"
    using Cons.prems(1) by (auto simp: map_eq_append_conv)
  obtain h where h: "vs = concat (map h js)" "\<forall>j\<in>set js. map f (h j) = g j"
    using Cons.IH [OF t(3)] Cons.prems(2) by auto
  have "map (h(j := us)) js = map h js"
    using Cons.prems(2) by (intro map_cong) auto
  then have "ts = concat (map (h(j := us)) (j # js))"
    by (simp only: list.map concat.simps t(1) h(1) fun_upd_same)
  moreover have "\<forall>i\<in>set (j # js). map f ((h(j := us)) i) = g i"
    using t(2) h(2) by simp
  ultimately show ?case by blast
qed simp

lemma concat_map_filter:
  assumes "\<And>x. x \<in> set xs \<Longrightarrow> \<not> P x \<Longrightarrow> f x = []"
  shows "concat (map f (filter P xs)) = concat (map f xs)"
  using assms by (induction xs) auto

text \<open>
  The images lie in the package and fit their places, which are behind the page map index and in ascending order;
  they are whole pages.
\<close>

definition package_fits :: "mtd_info \<Rightarrow> (int \<Rightarrow> bool) \<Rightarrow> u8 list \<Rightarrow> v3_elem list \<Rightarrow> bool" where
  "package_fits info bad pkg els \<longleftrightarrow> int UPG_BUF_SIZE mod info_writesize info = 0 \<and>
     (\<forall>el\<in>set els. v3_img el \<noteq> 0 \<longrightarrow> 0 \<le> e3_offset el \<and> nat (e3_offset el) + v3_img el \<le> length pkg \<and> pages info (v3_img el) \<and>
        image_fits info bad el (v3_img el) \<and> int STO_HEADER_SIZE \<le> e3_dstoffset el) \<and>
     sorted_wrt (\<lambda>el el'. v3_img el \<noteq> 0 \<longrightarrow> v3_img el' \<noteq> 0 \<longrightarrow> e3_dstoffset el + e3_partsz el \<le> e3_dstoffset el') els"

definition v3_image :: "u8 list \<Rightarrow> v3_elem \<Rightarrow> u8 list" where
  "v3_image pkg el = take (v3_img el) (drop (nat (e3_offset el)) pkg)"

fun chunk_ok :: "mtd_info \<Rightarrow> nat \<Rightarrow> v3_chunk \<Rightarrow> bool" where
  "chunk_ok info j (j', n, bs, c) \<longleftrightarrow> j' = j \<and> pages info n \<and> length bs = n"

lemma img_chunks_image:
  assumes "0 \<le> e3_offset el" and "nat (e3_offset el) + v3_img el \<le> length pkg" and "int UPG_BUF_SIZE mod info_writesize info = 0"
    and "int (v3_img el) mod info_writesize info = 0" and "int c mod info_writesize info = 0"
  shows "(\<forall>ch\<in>set (img_chunks pkg el j c). chunk_ok info j ch) \<and>
    concat (map (\<lambda>(j, n, bs, c). bs) (img_chunks pkg el j c)) = take (v3_img el - c) (drop (nat (e3_offset el) + c) pkg)"
  using assms(5)
proof (induction "v3_img el - c" arbitrary: c rule: less_induct)
  case less
  show ?case
  proof (cases "c < v3_img el")
    case False
    then show ?thesis
      by (simp add: img_chunks.simps)
  next
    case True
    define n where "n = min UPG_BUF_SIZE (v3_img el - c)"
    have d: "info_writesize info dvd int UPG_BUF_SIZE" "info_writesize info dvd int (v3_img el) - int c" "info_writesize info dvd int c + int UPG_BUF_SIZE"
      using assms(3,4) less.prems by (auto simp: mod_0_imp_dvd)
    have n: "0 < n" "int n mod info_writesize info = 0" "c + n \<le> v3_img el"
      using d(1,2) True by (auto simp: n_def min_def of_nat_diff UPG_BUF_SIZE_def)
    have o: "nat (e3_offset el + int c) = nat (e3_offset el) + c"
      using assms(1) by (simp add: nat_add_distrib)
    have IH: "(\<forall>ch\<in>set (img_chunks pkg el j (c + UPG_BUF_SIZE)). chunk_ok info j ch) \<and>
        concat (map (\<lambda>(j, n, bs, c). bs) (img_chunks pkg el j (c + UPG_BUF_SIZE))) = take (v3_img el - (c + UPG_BUF_SIZE)) (drop (nat (e3_offset el) + (c + UPG_BUF_SIZE)) pkg)"
      by (rule less.hyps) (use True d(3) in \<open>simp_all add: UPG_BUF_SIZE_def\<close>)
    have e: "img_chunks pkg el j c = (j, n, take n (drop (nat (e3_offset el) + c) pkg), int c) # img_chunks pkg el j (c + UPG_BUF_SIZE)"
      using True by (simp add: img_chunks.simps [of _ _ _ c] n_def o Let_def)
    have "take (v3_img el - c) (drop (nat (e3_offset el) + c) pkg) =
        take n (drop (nat (e3_offset el) + c) pkg) @ take (v3_img el - (c + UPG_BUF_SIZE)) (drop (nat (e3_offset el) + (c + UPG_BUF_SIZE)) pkg)"
    proof (cases "UPG_BUF_SIZE \<le> v3_img el - c")
      case True
      then have "v3_img el - c = n + (v3_img el - (c + UPG_BUF_SIZE))" "n = UPG_BUF_SIZE"
        by (simp_all add: n_def)
      then show ?thesis
        by (simp add: take_add ac_simps)
    qed (simp add: n_def)
    then show ?thesis
      using IH n assms(2) by (simp add: e pages_def)
  qed
qed

lemma chunk_turn:
  assumes "chunk_ok info j (turn_chunk t)"
  shows "turn_ok info j t" and "(\<lambda>(j, n, bs, c). bs) (turn_chunk t) = turn_bytes t"
  using assms by (cases t; auto simp: turn_ok_def)+

text \<open>The turns for all buffers of the package are groups of turns as the writer needs them.\<close>

lemma run_groups:
  assumes "package_fits info bad pkg els" and "all_chunks pkg els = map turn_chunk ts"
  obtains gs where "ts = concat (map snd gs)" "elem_groups_ok info bad els gs" "behind_index els gs"
    "\<And>j. j < length els \<Longrightarrow> v3_img (els ! j) \<noteq> 0 \<Longrightarrow> \<exists>g\<in>set gs. fst g = j \<and> concat (map turn_bytes (snd g)) = v3_image pkg (els ! j)"
proof -
  let ?js = "filter (\<lambda>j. v3_img (els ! j) \<noteq> 0) [0..<length els]"
  obtain f where f: "ts = concat (map f [0..<length els])" "\<And>j. j < length els \<Longrightarrow> map turn_chunk (f j) = img_chunks pkg (els ! j) j 0"
    using split_concat_map [of turn_chunk ts "\<lambda>j. img_chunks pkg (els ! j) j 0" "[0..<length els]"] assms(2) by (auto simp: all_chunks_def)
  define gs where "gs = map (\<lambda>j. (j, f j)) ?js"
  have ok: "(\<forall>t\<in>set (f j). turn_ok info j t) \<and> concat (map turn_bytes (f j)) = v3_image pkg (els ! j) \<and> f j \<noteq> [] \<and>
      image_fits info bad (els ! j) (v3_img (els ! j)) \<and> length (v3_image pkg (els ! j)) = v3_img (els ! j) \<and> int STO_HEADER_SIZE \<le> e3_dstoffset (els ! j)"
    if j: "j < length els" "v3_img (els ! j) \<noteq> 0" for j
  proof -
    have p: "0 \<le> e3_offset (els ! j)" "nat (e3_offset (els ! j)) + v3_img (els ! j) \<le> length pkg" "int UPG_BUF_SIZE mod info_writesize info = 0"
      "int (v3_img (els ! j)) mod info_writesize info = 0" "image_fits info bad (els ! j) (v3_img (els ! j))" "int STO_HEADER_SIZE \<le> e3_dstoffset (els ! j)"
      using assms(1) j by (auto simp: package_fits_def pages_def)
    have c: "\<forall>t\<in>set (f j). chunk_ok info j (turn_chunk t)"
      "concat (map (\<lambda>(j, n, bs, c). bs) (map turn_chunk (f j))) = v3_image pkg (els ! j)"
      using img_chunks_image [OF p(1-4), of 0 j] by (simp_all flip: f(2) [OF j(1)] add: v3_image_def)
    have "map turn_bytes (f j) = map (\<lambda>(j, n, bs, c). bs) (map turn_chunk (f j))"
      using c(1) chunk_turn(2) by auto
    then have "concat (map turn_bytes (f j)) = v3_image pkg (els ! j)"
      by (simp only: c(2))
    moreover have "length (v3_image pkg (els ! j)) = v3_img (els ! j)"
      using p(2) by (simp add: v3_image_def)
    moreover from this j(2) have "v3_image pkg (els ! j) \<noteq> []"
      by auto
    ultimately show ?thesis
      using c chunk_turn(1) p(5,6) by auto
  qed
  have "f j = []" if "j < length els" "v3_img (els ! j) = 0" for j
    using f(2) [OF that(1)] that(2) by (simp add: img_chunks.simps)
  then have "concat (map f ?js) = concat (map f [0..<length els])"
    by (intro concat_map_filter) auto
  then have 1: "ts = concat (map snd gs)"
    by (simp add: gs_def f(1) o_def)
  have "sorted_wrt (\<lambda>i j. e3_dstoffset (els ! i) + e3_partsz (els ! i) \<le> e3_dstoffset (els ! j)) ?js"
  proof (rule sorted_wrt_mono_rel [OF _ sorted_wrt_filter [OF sorted_wrt_upt]])
    show "e3_dstoffset (els ! i) + e3_partsz (els ! i) \<le> e3_dstoffset (els ! j)" if "i \<in> set ?js" "j \<in> set ?js" "i < j" for i j
      using that assms(1) by (simp add: package_fits_def sorted_wrt_iff_nth_less)
  qed
  then have 2: "elem_groups_ok info bad els gs"
    using ok by (auto simp: elem_groups_ok_def elem_group_ok_def gs_def o_def sorted_wrt_map)
  have 3: "behind_index els gs"
    using ok by (auto simp: behind_index_def gs_def)
  show ?thesis
    by (rule that [OF 1 2 3]) (use ok in \<open>auto simp: gs_def intro!: bexI\<close>)
qed

subsection \<open>What a run leaves on the flash\<close>

text \<open>The end of a run without an error when no buffer is left.\<close>

definition v3_finished :: "v3_elem list \<Rightarrow> 'k v3_st \<Rightarrow> bool" where
  "v3_finished els s \<longleftrightarrow> \<not> v_wrun s \<and> v_err s = V3_ERR_NONE \<and> v_sems s = 0 \<and> length els \<le> v_selem s"

lemma finished_turns:
  assumes "v3_run_inv e m wb scale hdr pkg w0 s" and "v3_finished (h3_elem hdr) s"
  obtains ts w layout junk where "all_chunks pkg (h3_elem hdr) = map turn_chunk ts" "v3_turns e (h3_mono hdr) scale (h3_elem hdr) ts w0 = Some w"
    "v3_writter_end e m wb layout junk hdr V3_ERR_NONE w = Some (v_w s)"
proof -
  obtain ts us where t: "all_chunks pkg (h3_elem hdr) = map turn_chunk ts @ us" "performed e m wb scale hdr w0 ts s"
    "us = pending s @ rest_chunks pkg (h3_elem hdr) (v_selem s) (v_elemread s)"
    using assms by (auto simp: v3_run_inv_def v3_finished_def)
  have "us = []"
    using t(3) assms(2) by (simp add: v3_finished_def pending_def rest_chunks_def)
  with t(1,2) assms(2) show ?thesis
    by (auto simp: performed_def v3_finished_def intro!: that)
qed

text \<open>
  (C13) In every interleaving of the two threads, the writer has at any time handled a prefix of the
  buffers of the package, in their order, each with the bytes the package has there, and its
  writes are those of its turns for these buffers, followed by its end when it does not run any more.
\<close>

theorem v3_writer_prefix:
  assumes "sizes_ok (h3_elem hdr)" and "length buf = UPG_BUF_SIZE" and "v3_reach e m wb scale hdr pkg (v3_init w0 start buf) s"
  shows "\<exists>ts us. all_chunks pkg (h3_elem hdr) = map turn_chunk ts @ us \<and> performed e m wb scale hdr w0 ts s"
  using v3_run_inv_reach [OF assms] by (auto simp: v3_run_inv_def)

text \<open>
  (C3) A run for a package for the whole flash that ends without an error and with no buffer left has
  brought the package to the flash: every image is stored in the good blocks at its place, and the
  partition table on the flash gives the place, the partition size and the image size of every element.
  This is stated for packages without a boot loader whose images are whole numbers of pages and lie, in
  ascending order, behind the page map index, on a flash that another user holds open and whose
  erasures succeed. The number of pages matters: the writer passes the exact size of an image and
  ignores the results of its writes, so that a flash that takes whole pages only refuses a buffer of
  another size and the image is lost without an error (\<open>partial_buffer_lost\<close>).
\<close>

theorem v3_upgrade_complete:
  assumes "nand_laws_ok e ab info mtd" and "nand_at ab info h mtd dev mem bad (si_lib (w3_sys w))" and "0 < dev_open_cnt dev" and "dev_open_cnt dev + 1 < 2 ^ 32"
    and "pmi_ready info mem bad" and "first_block_erases (env_drv e mtd) info" and "w3_elem_old w = None"
    and "els = h3_elem hdr" and "table_ok (pmi_shift (pmi_header mem)) els" and "h3_ubootfile_imgsz hdr = 0" and "h3_mono hdr"
    and "package_fits info bad pkg els" and "sizes_ok els" and "length buf = UPG_BUF_SIZE"
    and "v3_writter_begin e layout w = Some w0" and "v3_reach e True True scale hdr pkg (v3_init w0 start buf) s" and "v3_finished els s"
  shows "\<exists>mem'. flash_open e ab info h mtd mem' bad (dev_open_cnt dev) (si_lib (w3_sys (v_w s))) \<and>
    (\<forall>el\<in>set els. stored info bad mem' el (v3_image pkg el)) \<and>
    (\<forall>el\<in>set els. \<not> e3_private el \<and> STO_KERNEL \<le> e3_part_id el \<longrightarrow> (\<forall>row. part_row (pmi_header mem') (pmi_shift (pmi_header mem')) (e3_part_id el) row =
       row\<lparr>smap_offset := e3_dstoffset el, smap_imgsz := e3_imgsz el, smap_size := e3_partsz el\<rparr>))"
proof -
  let ?dev = "dev\<lparr>dev_open_cnt := dev_open_cnt dev + 1\<rparr>"
  have w0: "writer_at ab info h mtd ?dev mem bad w0" "w3_elem_old w0 = None"
    using begin_nand [OF assms(2,4), of e layout] assms(7,15) by auto
  have f: "v3_run_inv e True True scale hdr pkg w0 s" "v3_finished (h3_elem hdr) s"
    using v3_run_inv_reach [OF _ assms(14,16)] assms(8,13,17) by simp_all
  obtain ts w1 layout' junk where ts: "all_chunks pkg els = map turn_chunk ts" "v3_turns e True scale els ts w0 = Some w1"
    "v3_writter_end e True True layout' junk hdr V3_ERR_NONE w1 = Some (v_w s)"
    by (rule finished_turns [OF f]) (use assms(8,11) in simp)
  obtain gs where gs: "ts = concat (map snd gs)" "elem_groups_ok info bad els gs" "behind_index els gs"
    "\<And>j. j < length els \<Longrightarrow> v3_img (els ! j) \<noteq> 0 \<Longrightarrow> \<exists>g\<in>set gs. fst g = j \<and> concat (map turn_bytes (snd g)) = v3_image pkg (els ! j)"
    using run_groups [OF assms(12) ts(1)] by metis
  obtain mem' where m: "flash_open e ab info h mtd mem' bad (dev_open_cnt dev) (si_lib (w3_sys (v_w s)))"
    "pmi_header mem' = v3_new_pmi els (pmi_header mem)" "\<forall>g\<in>set gs. stored info bad mem' (els ! fst g) (concat (map turn_bytes (snd g)))"
    using whole_turns_stored [OF assms(1) w0(1) _ assms(3-6,8-10) gs(2,3), of scale layout' junk] w0(2) ts(2,3) gs(1) by auto
  have "stored info bad mem' el (v3_image pkg el)" if el: "el \<in> set els" for el
  proof -
    obtain j where j: "j < length els" "els ! j = el"
      using el by (auto simp: in_set_conv_nth)
    show ?thesis
      using gs(4) [OF j(1)] m(3) j(2) by (cases "v3_img el = 0") (auto simp: stored_def v3_image_def)
  qed
  moreover have l: "length (pmi_header mem) = STO_HEADER_SIZE"
    by (simp add: pmi_header_def)
  ultimately show ?thesis
    using m(1) updated_row [OF l assms(9)] new_pmi_shift [OF l assms(9)] m(2) by (intro exI [of _ mem']) simp
qed

text \<open>
  (C37) The last buffer may be lost: when the source fills it while the writer is between giving the
  buffer back and looking at the progress, the writer finds the progress complete and ends
  without an error, with the buffer not written.
\<close>

theorem v3_last_buffer_lost:
  assumes "sizes_ok (h3_elem hdr)" and "length buf = UPG_BUF_SIZE" and "v3_reach e m wb scale hdr pkg (v3_init w0 start buf) s"
    and "v_wrun s" and "v_check s" and "v3step e m wb scale hdr pkg s s1" and "v_sems s1 = 1" and "v_check s1" and "v_err s1 = V3_ERR_NONE" and "v_pct s1 = 100"
    and "v3_writter_end e m wb layout junk hdr V3_ERR_NONE (v_w s) = Some w"
  shows "\<exists>s2 ts us. v3_reach e m wb scale hdr pkg (v3_init w0 start buf) s2 \<and> \<not> v_wrun s2 \<and> v_err s2 = V3_ERR_NONE \<and> v_w s2 = w \<and>
    all_chunks pkg (h3_elem hdr) = map turn_chunk ts @ us \<and> us \<noteq> [] \<and> performed e m wb scale hdr w0 ts s2"
proof -
  have w: "v_wrun s1" "v_w s1 = v_w s"
    using assms(6,4,5,8) source_turn_same by (cases; fastforce)+
  let ?s2 = "s1\<lparr>v_check := False, v_w := w, v_wrun := False, v_over := v_over s1 + 1\<rparr>"
  have "v3step e m wb scale hdr pkg s1 ?s2"
    by (rule writer_done) (use w assms(8-11) in simp_all)
  with assms(3,6) have r: "v3_reach e m wb scale hdr pkg (v3_init w0 start buf) ?s2"
    by (meson rtranclp.rtrancl_into_rtrancl)
  obtain ts us where "all_chunks pkg (h3_elem hdr) = map turn_chunk ts @ us" "performed e m wb scale hdr w0 ts ?s2"
    "us = pending ?s2 @ rest_chunks pkg (h3_elem hdr) (v_selem ?s2) (v_elemread ?s2)"
    using v3_run_inv_reach [OF assms(1,2) r] assms(9) by (auto simp: v3_run_inv_def)
  with r assms(7,9) show ?thesis
    by (intro exI [of _ ?s2] exI [of _ ts] exI [of _ us]) (simp add: pending_def)
qed

subsection \<open>Witnesses\<close>

text \<open>A package with two images of one page each, and the run that brings it to the flash.\<close>

definition v3_run_elem :: "nat \<Rightarrow> v3_elem" where
  "v3_run_elem j = v3_kernel_elem\<lparr>e3_imgsz := 16, e3_size := 16, e3_offset := 1024 + 16 * int j, e3_dstoffset := 1024 + 512 * int j, e3_part_id := 2 + j\<rparr>"

definition v3_run_hdr :: v3_header where
  "v3_run_hdr = v3_hdr0\<lparr>h3_elem := [v3_run_elem 0, v3_run_elem 1], h3_mono := True, h3_ubootfile_imgsz := 0\<rparr>"

definition v3_run_pkg :: "u8 list" where
  "v3_run_pkg = replicate 1056 1"

definition v3_run_buf :: "u8 list" where
  "v3_run_buf = replicate UPG_BUF_SIZE 0"

lemma filter_upto: "filter (\<lambda>a. a < b) [a..c] = [a..min (b - 1) c]"
proof (induction a c rule: upto.induct)
  case (1 a c)
  then show ?case
    by (cases "a \<le> c"; cases "a < b") (simp_all add: upto_rec1 filter_empty_conv)
qed

lemma v3_run_fits:
  assumes "j < 2"
  shows "image_fits nand_info (\<lambda>b. False) (v3_run_elem j) 16"
proof -
  have "j = 0 \<or> j = 1" using assms by auto
  then show ?thesis
    by (auto simp: image_fits_def nand_live filter_upto v3_run_elem_def v3_kernel_elem_def simp del: upto_rec_numeral)
      (simp_all add: place_ok_def nand_info_def)
qed

lemma v3_run_package:
  "package_fits nand_info (\<lambda>b. False) v3_run_pkg (h3_elem v3_run_hdr)" "sizes_ok (h3_elem v3_run_hdr)"
  "table_ok (pmi_shift (pmi_header nand_mem)) (h3_elem v3_run_hdr)" "length v3_run_buf = UPG_BUF_SIZE"
proof -
  have "v3_img (v3_run_elem j) = 16" for j
    by (simp add: v3_img_def v3_run_elem_def)
  then show "package_fits nand_info (\<lambda>b. False) v3_run_pkg (h3_elem v3_run_hdr)"
    using v3_run_fits [of 0] v3_run_fits [of 1] by (simp add: package_fits_def v3_run_hdr_def v3_run_pkg_def)
      (simp add: v3_run_elem_def v3_kernel_elem_def pages_def nand_info_def UPG_BUF_SIZE_def STO_HEADER_SIZE_def)
  show "sizes_ok (h3_elem v3_run_hdr)" "table_ok (pmi_shift (pmi_header nand_mem)) (h3_elem v3_run_hdr)"
    by (simp_all add: sizes_ok_def table_ok_def v3_run_hdr_def v3_run_elem_def v3_kernel_elem_def nand_shift UPG_MAX_PARTS_def)
  show "length v3_run_buf = UPG_BUF_SIZE"
    by (simp add: v3_run_buf_def)
qed

text \<open>The step of the source for an image that fits the buffer.\<close>

lemma source_fill_image:
  assumes "v3_source_more (h3_elem hdr) s" and "el = h3_elem hdr ! v_selem s" and "0 < e3_imgsz el" and "e3_imgsz el < int UPG_BUF_SIZE" and "e3_size el = e3_imgsz el"
    and "v_elemread s = 0" and "v_semw s = 1" and "v_sems s = 0" and "v_err s = V3_ERR_NONE"
    and "0 \<le> e3_offset el" and "nat (e3_offset el) + v3_img el \<le> length pkg" and "tr = v_totalread s + v3_img el" and "tr < 2 ^ 32"
    and "v3_percent tr (v_total s) = Some p"
  shows "v3step e m wb scale hdr pkg s (s\<lparr>v_semw := 0, v_elem := v_selem s, v_cur := 0, v_buf := memcpy_at 0 (v3_image pkg el) (v_buf s),
    v_size := v3_img el, v_totalread := tr, v_sems := 1, v_selem := v_selem s + 1, v_elemread := 0, v_perread := UPG_BUF_SIZE, v_pct := p\<rparr>)"
proof (rule source_fill [where n = "v3_img el" and bs = "v3_image pkg el", OF assms(1) _ _ assms(9)])
  have t: "nat (e3_imgsz el + int (v_totalread s)) = tr"
    using assms(3,12) by (simp add: v3_img_def)
  have i: "v3_img el < UPG_BUF_SIZE" "int (v3_img el) = e3_imgsz el" "u32 (v3_img el) = v3_img el" "u32 tr = tr"
    using assms(3,4,13) by (simp_all add: v3_img_def u32_def UPG_BUF_SIZE_def)
  then show "v3_img el = v3_source_len (h3_elem hdr) s"
    using assms(2) by (simp add: v3_source_len_def)
  show "v3_fread pkg (e3_offset (h3_elem hdr ! v_selem s) + int (v_elemread s)) (v3_img el) = Some (v3_image pkg el)"
    using assms(2,6,10,11) by (simp add: v3_fread_def v3_image_def)
  show "v3_source_turn (h3_elem hdr) (v3_img el) (v3_image pkg el) (s\<lparr>v_semw := v_semw s - 1\<rparr>) = Some (s\<lparr>v_semw := 0, v_elem := v_selem s, v_cur := 0,
    v_buf := memcpy_at 0 (v3_image pkg el) (v_buf s), v_size := v3_img el, v_totalread := tr, v_sems := 1, v_selem := v_selem s + 1, v_elemread := 0,
    v_perread := UPG_BUF_SIZE, v_pct := p\<rparr>)"
    using assms(2,5-8,12-14) i t by (simp add: v3_source_turn_def Let_def UPG_BUF_SIZE_def)
qed (use assms(2,3,7) in auto)

definition v3_run_image :: "nat \<Rightarrow> u8 list" where
  "v3_run_image j = v3_image v3_run_pkg (v3_run_elem j)"

definition v3_run_turn :: "nat \<Rightarrow> v3_turn" where
  "v3_run_turn j = (j, if j = 0 then memcpy_at 0 (v3_run_image 0) v3_run_buf else memcpy_at 0 (v3_run_image 1) (memcpy_at 0 (v3_run_image 0) v3_run_buf), 16, 0,
     if j = 0 then 104 else 100)"

lemma v3_run_bufs: "length (v3_run_image 0) = 16" "length (v3_run_image 1) = 16"
  "16 \<le> length (memcpy_at 0 (v3_run_image 0) v3_run_buf)" "16 \<le> length (memcpy_at 0 (v3_run_image 1) (memcpy_at 0 (v3_run_image 0) v3_run_buf))"
proof -
  show "length (v3_run_image 0) = 16" "length (v3_run_image 1) = 16"
    by (simp_all add: v3_run_image_def v3_image_def v3_run_pkg_def v3_run_elem_def v3_kernel_elem_def v3_img_def)
  then show "16 \<le> length (memcpy_at 0 (v3_run_image 0) v3_run_buf)" "16 \<le> length (memcpy_at 0 (v3_run_image 1) (memcpy_at 0 (v3_run_image 0) v3_run_buf))"
    by (simp_all add: memcpy_at_def)
qed

lemma v3_run_group:
  assumes "j < 2"
  shows "elem_group_ok nand_info (\<lambda>b. False) (h3_elem v3_run_hdr) (j, [v3_run_turn j])"
proof -
  have "turn_ok nand_info j (v3_run_turn j)" "length (turn_bytes (v3_run_turn j)) = 16"
    using assms v3_run_bufs by (auto simp: turn_ok_def v3_run_turn_def pages_def nand_info_def)
  moreover have "h3_elem v3_run_hdr ! j = v3_run_elem j" "j < length (h3_elem v3_run_hdr)"
    using assms by (auto simp: v3_run_hdr_def less_2_cases_iff)
  ultimately show ?thesis
    using v3_run_fits [OF assms] by (simp add: elem_group_ok_def)
qed

lemma v3_run_groups:
  "elem_groups_ok nand_info (\<lambda>b. False) (h3_elem v3_run_hdr) [(0, [v3_run_turn 0])]" "behind_index (h3_elem v3_run_hdr) [(0, [v3_run_turn 0])]"
  "elem_groups_ok nand_info (\<lambda>b. False) (h3_elem v3_run_hdr) [(0, [v3_run_turn 0]), (1, [v3_run_turn 1])]"
  "behind_index (h3_elem v3_run_hdr) [(0, [v3_run_turn 0]), (1, [v3_run_turn 1])]"
  using v3_run_group [of 0] v3_run_group [of 1]
  by (simp_all add: elem_groups_ok_def behind_index_def) (simp_all add: v3_run_hdr_def v3_run_elem_def v3_kernel_elem_def STO_HEADER_SIZE_def)

definition v3_run_after :: "nat \<Rightarrow> flash v3_writer \<Rightarrow> flash v3_writer \<Rightarrow> bool" where
  "v3_run_after n w0 w \<longleftrightarrow> v3_turns nand_env True 1 (h3_elem v3_run_hdr) (map v3_run_turn [0..<n]) w0 = Some w \<and>
     (\<exists>w'. v3_writter_end nand_env True True [] [] v3_run_hdr V3_ERR_NONE w = Some w')"

lemma v3_run_writer:
  obtains w0 wa wb where "v3_writter_begin nand_env [] (v3_nand_writer 1) = Some w0" "v3_run_after 1 w0 wa" "v3_run_after 2 w0 wb"
proof -
  have n: "nand_at (\<lambda>k. k) nand_info 0 1 (v3_nand_dev 1) nand_mem (\<lambda>b. False) (si_lib (w3_sys (v3_nand_writer 1)))"
    "w3_elem_old (v3_nand_writer 1) = None" "dev_open_cnt ((v3_nand_dev 1)\<lparr>dev_open_cnt := dev_open_cnt (v3_nand_dev 1) + 1\<rparr>) = 1 + 1"
    using v3_nand_open [of 1] by (simp_all add: writer_at_def v3_nand_writer_def v3_nand_dev_def)
  obtain w0 where w0: "v3_writter_begin nand_env [] (v3_nand_writer 1) = Some w0"
    "writer_at (\<lambda>k. k) nand_info 0 1 ((v3_nand_dev 1)\<lparr>dev_open_cnt := dev_open_cnt (v3_nand_dev 1) + 1\<rparr>) nand_mem (\<lambda>b. False) w0" "w3_elem_old w0 = None"
    using begin_nand [OF n(1), of nand_env "[]"] n(2,3) by auto
  have u: "h3_ubootfile_imgsz v3_run_hdr = 0" "(0 :: nat) < 1" "(1 :: nat) + 1 < 2 ^ 32"
    by (simp_all add: v3_run_hdr_def)
  note st = whole_turns_stored [OF v3_nand_laws w0(2) n(3) u(2,3) nand_pmi nand_first_block refl v3_run_package(3) u(1), of _ 1 "[]" "[]"]
  show ?thesis
    using st [OF v3_run_groups(1,2)] st [OF v3_run_groups(3,4)] w0(3)
    by (auto simp: v3_run_after_def upt_conv_Cons numeral_2_eq_2 intro!: that [OF w0(1)])
qed

text \<open>The two buffers filled and the first of them written.\<close>

abbreviation v3_run_step :: "flash v3_st \<Rightarrow> flash v3_st \<Rightarrow> bool" where
  "v3_run_step \<equiv> v3step nand_env True True 1 v3_run_hdr v3_run_pkg"

abbreviation v3_run_start :: "flash v3_writer \<Rightarrow> flash v3_st" where
  "v3_run_start w0 \<equiv> v3_init w0 1024 v3_run_buf"

definition v3_run_first :: "flash v3_writer \<Rightarrow> flash v3_writer \<Rightarrow> flash v3_st" where
  "v3_run_first w0 wa = (v3_run_start w0)\<lparr>v_begun := True, v_w := wa, v_check := True, v_open := True, v_total := 1056, v_writting := True, v_buf := memcpy_at 0 (v3_run_image 0) v3_run_buf, v_size := 16, v_totalread := 1040,
     v_selem := 1, v_pct := 104\<rparr>"

lemma v3_run_elem_simps:
  "h3_elem v3_run_hdr ! 0 = v3_run_elem 0" "h3_elem v3_run_hdr ! Suc 0 = v3_run_elem 1" "length (h3_elem v3_run_hdr) = 2" "h3_mono v3_run_hdr"
  "e3_imgsz (v3_run_elem j) = 16" "e3_size (v3_run_elem j) = 16" "v3_img (v3_run_elem j) = 16" "0 \<le> e3_offset (v3_run_elem j)"
  "j < 2 \<Longrightarrow> nat (e3_offset (v3_run_elem j)) + 16 \<le> length v3_run_pkg" "16 < UPG_BUF_SIZE"
  by (simp_all add: v3_run_hdr_def v3_run_elem_def v3_img_def v3_run_pkg_def UPG_BUF_SIZE_def)

lemma v3_run_first_reach:
  assumes "v3_run_after 1 w0 wa"
  shows "v3_run_step\<^sup>*\<^sup>* (v3_run_start w0) (v3_run_first w0 wa)"
proof -
  let ?i = "(v3_run_start w0)\<lparr>v_begun := True\<rparr>"
  let ?s0 = "?i\<lparr>v_open := True, v_total := 1056, v_writting := True\<rparr>"
  have "v3_run_step (v3_run_start w0) ((v3_run_start w0)\<lparr>v_begun := True, v_pct := 0\<rparr>)"
    by (rule writer_begin) (simp_all add: v3_init_def)
  then have i: "v3_run_step (v3_run_start w0) ?i"
    by (simp add: v3_init_def)
  have "v3_run_step ?i (?i\<lparr>v_open := True, v_total := length v3_run_pkg, v_writting := True\<rparr>)"
    by (rule source_open) (simp_all add: v3_init_def v3_run_hdr_def)
  then have s0: "v3_run_step ?i ?s0"
    by (simp add: v3_run_pkg_def [THEN arg_cong [of _ _ length]])
  have "v3_source_more (h3_elem v3_run_hdr) ?s0"
    by (simp add: v3_source_more_def v3_init_def v3_run_elem_simps)
  from source_fill_image [OF this refl, of v3_run_pkg 1040 104 nand_env True True 1]
  have s1: "v3_run_step ?s0 (?s0\<lparr>v_semw := 0, v_buf := memcpy_at 0 (v3_run_image 0) v3_run_buf, v_size := 16, v_totalread := 1040,
      v_sems := 1, v_selem := 1, v_pct := 104\<rparr>)" (is "v3_run_step _ ?s1")
    by (simp add: v3_init_def v3_run_elem_simps v3_percent_def v3_run_image_def)
  have "v3_writter_turn nand_env True 1 0 (v3_run_elem 0) (memcpy_at 0 (v3_run_image 0) v3_run_buf) 16 0 104 w0 = Some wa"
    using assms by (simp add: v3_run_after_def v3_run_turn_def v3_run_elem_simps bind_eq_Some_conv)
  then have "v3_run_step ?s1 (?s1\<lparr>v_sems := v_sems ?s1 - 1, v_w := wa, v_semw := v_semw ?s1 + 1, v_check := True\<rparr>)"
    by (intro writer_write) (simp_all add: v3_init_def v3_run_elem_simps)
  also have "?s1\<lparr>v_sems := v_sems ?s1 - 1, v_w := wa, v_semw := v_semw ?s1 + 1, v_check := True\<rparr> = v3_run_first w0 wa"
    by (simp add: v3_run_first_def v3_init_def)
  finally show ?thesis
    using i s0 s1 by (meson converse_rtranclp_into_rtranclp rtranclp.rtrancl_refl)
qed

lemma v3_run_second:
  "v3_run_step ((v3_run_first w0 wa)\<lparr>v_check := b\<rparr>) ((v3_run_first w0 wa)\<lparr>v_check := b, v_semw := 0, v_elem := 1,
     v_buf := memcpy_at 0 (v3_run_image 1) (memcpy_at 0 (v3_run_image 0) v3_run_buf), v_totalread := 1056, v_sems := 1, v_selem := 2, v_pct := 100\<rparr>)"
proof -
  let ?s = "(v3_run_first w0 wa)\<lparr>v_check := b\<rparr>"
  have s: "v3_source_more (h3_elem v3_run_hdr) ?s" "v_selem ?s = Suc 0" "v_elemread ?s = 0" "v_semw ?s = 1" "v_sems ?s = 0" "v_err ?s = V3_ERR_NONE"
    "v_totalread ?s = 1040" "v_total ?s = 1056" "v_buf ?s = memcpy_at 0 (v3_run_image 0) v3_run_buf"
    by (simp_all add: v3_source_more_def v3_run_first_def v3_init_def v3_run_elem_simps)
  have el: "v3_run_elem 1 = h3_elem v3_run_hdr ! v_selem ?s"
    unfolding s(2) by (simp add: v3_run_elem_simps)
  have "v3_run_step ?s (?s\<lparr>v_semw := 0, v_elem := v_selem ?s, v_cur := 0, v_buf := memcpy_at 0 (v3_image v3_run_pkg (v3_run_elem 1)) (v_buf ?s),
    v_size := v3_img (v3_run_elem 1), v_totalread := 1056, v_sems := 1, v_selem := v_selem ?s + 1, v_elemread := 0, v_perread := UPG_BUF_SIZE, v_pct := 100\<rparr>)"
    by (rule source_fill_image [OF s(1) el _ _ _ s(3-6)]) (simp_all only: s(7,8), simp_all add: v3_run_elem_simps v3_percent_def)
  then show ?thesis
    unfolding s(2,9) v3_run_elem_simps v3_run_image_def by (simp add: v3_run_first_def v3_init_def numeral_2_eq_2)
qed

lemma v3_run_finishes:
  assumes "v3_run_after 1 w0 wa" and "v3_run_after 2 w0 wb"
  obtains s where "v3_run_step\<^sup>*\<^sup>* (v3_run_start w0) s" "v3_finished (h3_elem v3_run_hdr) s" "v_srun s"
proof -
  let ?b = "memcpy_at 0 (v3_run_image 1) (memcpy_at 0 (v3_run_image 0) v3_run_buf)"
  let ?s1 = "(v3_run_first w0 wa)\<lparr>v_check := False\<rparr>"
  let ?s2 = "(v3_run_first w0 wa)\<lparr>v_check := False, v_semw := 0, v_elem := 1, v_buf := ?b, v_totalread := 1056, v_sems := 1, v_selem := 2, v_pct := 100\<rparr>"
  let ?s3 = "?s2\<lparr>v_sems := v_sems ?s2 - 1, v_w := wb, v_semw := v_semw ?s2 + 1, v_check := True\<rparr>"
  have 1: "v3_run_step (v3_run_first w0 wa) ?s1"
    by (rule writer_next) (simp_all add: v3_run_first_def v3_init_def)
  have "v3_writter_turn nand_env True 1 1 (v3_run_elem 1) ?b 16 0 100 wa = Some wb"
    using assms by (simp add: v3_run_after_def numeral_2_eq_2 upt_conv_Cons v3_run_turn_def v3_run_elem_simps bind_eq_Some_conv)
  then have 3: "v3_run_step ?s2 ?s3"
    by (intro writer_write) (simp_all add: v3_run_first_def v3_init_def v3_run_elem_simps)
  obtain w where "v3_writter_end nand_env True True [] [] v3_run_hdr V3_ERR_NONE wb = Some w"
    using assms(2) by (auto simp: v3_run_after_def)
  then have 4: "v3_run_step ?s3 (?s3\<lparr>v_check := False, v_w := w, v_wrun := False, v_over := v_over ?s3 + 1\<rparr>)" (is "v3_run_step _ ?s4")
    by (intro writer_done) (simp_all add: v3_run_first_def v3_init_def)
  have "v3_run_step\<^sup>*\<^sup>* (v3_run_start w0) ?s4"
    using v3_run_first_reach [OF assms(1)] 1 v3_run_second [of False w0 wa] 3 4 by (meson rtranclp.rtrancl_into_rtrancl)
  moreover have "v3_finished (h3_elem v3_run_hdr) ?s4" "v_srun ?s4"
    by (simp_all add: v3_finished_def v3_run_first_def v3_init_def v3_run_elem_simps)
  ultimately show ?thesis
    by (rule that)
qed

text \<open>The writer may end, and post its end, while the source has not yet left its loop.\<close>

lemma source_outlives_writer: "\<exists>w0 s. v3_run_step\<^sup>*\<^sup>* (v3_run_start w0) s \<and> \<not> v_wrun s \<and> v_srun s"
proof -
  obtain w0 wa wb where w: "v3_run_after 1 w0 wa" "v3_run_after 2 w0 wb"
    by (rule v3_run_writer)
  obtain s where "v3_run_step\<^sup>*\<^sup>* (v3_run_start w0) s" "v3_finished (h3_elem v3_run_hdr) s" "v_srun s"
    by (rule v3_run_finishes [OF w])
  then show ?thesis
    by (auto simp: v3_finished_def)
qed

theorem v3_writer_prefix_witness:
  "\<exists>w0 s ts us. v3_run_step\<^sup>*\<^sup>* (v3_run_start w0) s \<and> v3_finished (h3_elem v3_run_hdr) s \<and>
    all_chunks v3_run_pkg (h3_elem v3_run_hdr) = map turn_chunk ts @ us \<and> performed nand_env True True 1 v3_run_hdr w0 ts s"
proof -
  obtain w0 wa wb where w: "v3_run_after 1 w0 wa" "v3_run_after 2 w0 wb"
    by (rule v3_run_writer)
  obtain s where s: "v3_run_step\<^sup>*\<^sup>* (v3_run_start w0) s" "v3_finished (h3_elem v3_run_hdr) s" "v_srun s"
    by (rule v3_run_finishes [OF w])
  show ?thesis
    using v3_writer_prefix [OF v3_run_package(2,4) s(1)] s by blast
qed

theorem v3_upgrade_complete_witness:
  "\<exists>w0 s mem'. v3_writter_begin nand_env [] (v3_nand_writer 1) = Some w0 \<and> v3_run_step\<^sup>*\<^sup>* (v3_run_start w0) s \<and>
    flash_open nand_env (\<lambda>k. k) nand_info 0 1 mem' (\<lambda>b. False) 1 (si_lib (w3_sys (v_w s))) \<and>
    stored nand_info (\<lambda>b. False) mem' (v3_run_elem 1) (v3_run_image 1)"
proof -
  obtain w0 wa wb where w: "v3_writter_begin nand_env [] (v3_nand_writer 1) = Some w0" "v3_run_after 1 w0 wa" "v3_run_after 2 w0 wb"
    by (rule v3_run_writer)
  obtain s where s: "v3_run_step\<^sup>*\<^sup>* (v3_run_start w0) s" "v3_finished (h3_elem v3_run_hdr) s" "v_srun s"
    by (rule v3_run_finishes [OF w(2,3)])
  have n: "nand_at (\<lambda>k. k) nand_info 0 1 (v3_nand_dev 1) nand_mem (\<lambda>b. False) (si_lib (w3_sys (v3_nand_writer 1)))"
    "w3_elem_old (v3_nand_writer 1) = None" "dev_open_cnt (v3_nand_dev 1) = 1" "h3_ubootfile_imgsz v3_run_hdr = 0" "h3_mono v3_run_hdr"
    using v3_nand_open [of 1] by (simp_all add: writer_at_def v3_nand_writer_def v3_nand_dev_def v3_run_hdr_def)
  have c: "0 < dev_open_cnt (v3_nand_dev 1)" "dev_open_cnt (v3_nand_dev 1) + 1 < 2 ^ 32"
    by (simp_all add: v3_nand_dev_def)
  have "v3_run_elem 1 \<in> set (h3_elem v3_run_hdr)"
    by (simp add: v3_run_hdr_def)
  then show ?thesis
    using v3_upgrade_complete [OF v3_nand_laws n(1) c nand_pmi nand_first_block n(2) refl v3_run_package(3) n(4,5) v3_run_package(1,2,4) w(1) s(1,2)] w(1) s(1)
    unfolding n(3) v3_run_image_def by blast
qed

theorem v3_last_buffer_lost_witness:
  "\<exists>w0 s ts us. v3_run_step\<^sup>*\<^sup>* (v3_run_start w0) s \<and> \<not> v_wrun s \<and> v_err s = V3_ERR_NONE \<and>
    all_chunks v3_run_pkg (h3_elem v3_run_hdr) = map turn_chunk ts @ us \<and> us \<noteq> [] \<and> performed nand_env True True 1 v3_run_hdr w0 ts s"
proof -
  obtain w0 wa wb where w: "v3_run_after 1 w0 wa"
    by (rule v3_run_writer)
  have c: "v_wrun (v3_run_first w0 wa)" "v_check (v3_run_first w0 wa)" "v_w (v3_run_first w0 wa) = wa" "v_err (v3_run_first w0 wa) = V3_ERR_NONE"
    by (simp_all add: v3_run_first_def v3_init_def)
  obtain w' where e: "v3_writter_end nand_env True True [] [] v3_run_hdr V3_ERR_NONE (v_w (v3_run_first w0 wa)) = Some w'"
    using w by (auto simp: v3_run_after_def c(3))
  have f: "v3_run_first w0 wa = (v3_run_first w0 wa)\<lparr>v_check := True\<rparr>"
    by (simp add: v3_run_first_def)
  note st = v3_run_second [of True w0 wa, folded f]
  show ?thesis
    using v3_last_buffer_lost [OF v3_run_package(2,4) v3_run_first_reach [OF w] c(1,2) st _ _ _ _ e] c(2,4) by auto
qed

end
