(* ===== verification/Upgrade_V3_Api.thy ===== *)
theory Upgrade_V3_Api
  imports Upgrade_V3_Run
begin

section \<open>The USB plugin and the life cycle of version 3 (\<open>usb.c\<close>, \<open>alislupgrade.c\<close>, \<open>object.c\<close>, \<open>tune.c\<close>)\<close>

text \<open>
  The public calls of version 3 on the descriptor. Pointers to allocated structures are of type \<open>ptr\<close>: a freed
  structure leaves a dangling pointer where the code does not clear it, and using one is undefined.
  The handlers of a plugin are called through the object, which exists from the construction on and
  is filled by the registration.

  The heap of the descriptor records which of the blocks have not been freed.

  Shown here: whatever a start returns, it leaves the flash, its position and its open count as they
  were; the stop waits for the writer and then frees every block of the session, but it does not wait
  for the source, which may still use the freed tune; a start that fails behind the allocations leaks; and the
  abort after a start that found too little space uses freed memory.
\<close>

definition V3_ERR_NOSUPPORTOBJ :: retcode where [retcode_defs]: "V3_ERR_NOSUPPORTOBJ = 1"
definition UPG_CONFIGV1_SIZE :: nat where "UPG_CONFIGV1_SIZE = 1024"
definition UPG_PATH_SIZE :: nat where "UPG_PATH_SIZE = 64 * 4"

subsection \<open>The handlers of the USB plugin\<close>

record v3_usb =
  u3_config :: string
  u3_pktname :: string
  u3_offset :: int

text \<open>
  \<open>fs\<close> gives the contents of files; \<open>junk\<close> is the size found in the uninitialised \<open>stat\<close> of a missing file.
  \<open>fread\<close> is asked for one item, so that the result is 1 and not the number of bytes. A file that is too
  short fills the buffer with what it has.
\<close>

definition usb3_getcfg :: "(string \<Rightarrow> u8 list option) \<Rightarrow> nat \<Rightarrow> bool \<Rightarrow> v3_usb \<Rightarrow> u8 list \<Rightarrow> int \<times> u8 list \<times> v3_usb" where
  "usb3_getcfg fs junk cfgv1 p buf =
     (if u3_config p = [] then (0, buf, p)
      else
        let st_size = (case fs (u3_config p) of None \<Rightarrow> junk | Some bs \<Rightarrow> length bs)
        in if st_size = 0 then (0, buf, p)
           else if \<not> cfgv1 \<and> st_size > length buf then (if st_size > UPG_MAX_CFGLEN then - EINVAL else int st_size, buf, p)
           else if cfgv1 \<and> UPG_CONFIGV1_SIZE > length buf then (int UPG_CONFIGV1_SIZE, buf, p)
           else case fs (u3_config p) of
             None \<Rightarrow> (- EINVAL, buf, p)
           | Some bs \<Rightarrow>
               let n = (if cfgv1 then UPG_CONFIGV1_SIZE else st_size)
               in (if n \<le> length bs then 1 else 0, memcpy_at 0 (take n bs) buf, p))"

text \<open>The start allocates the buffer unless there is one; without a buffer no source thread is created. The stop frees it.\<close>

fun usb3_start :: "bool \<Rightarrow> v3_usb \<times> unit ptr \<times> v3_heap \<Rightarrow> bool \<times> v3_usb \<times> unit ptr \<times> v3_heap" where
  "usb3_start malloc_ok (p, dest, heap) =
     (if dest = Null then if malloc_ok then (True, p, Valid (), add_mset B_Dest heap) else (False, p, Null, heap)
      else (True, p, dest, heap))"

fun usb3_stop :: "v3_usb \<times> unit ptr \<times> v3_heap \<Rightarrow> (v3_usb \<times> unit ptr \<times> v3_heap) option" where
  "usb3_stop (p, dest, heap) = do { heap \<leftarrow> v3_free B_Dest dest heap; Some (p, Null, heap) }"

definition usb3_ops :: "(string \<Rightarrow> u8 list option) \<Rightarrow> nat \<Rightarrow> bool \<Rightarrow> v3_usb v3_ops" where
  "usb3_ops fs junk cfgv1 = \<lparr>p3_getcfg = Some (usb3_getcfg fs junk cfgv1),
     p3_setpktname = \<lambda>name p. p\<lparr>u3_pktname := name\<rparr>, p3_setupgdata_offset = \<lambda>off p. p\<lparr>u3_offset := off\<rparr>,
     p3_prestart = \<lambda>x. x, p3_prestop = \<lambda>x. x,
     p3_start = usb3_start, p3_stop = usb3_stop\<rparr>"

text \<open>The registration keeps the other fields of the plugin, a static variable: \<open>p\<close>.\<close>

definition usb3_register :: "(string \<Rightarrow> u8 list option) \<Rightarrow> nat \<Rightarrow> bool \<Rightarrow> v3_usb \<Rightarrow> string \<Rightarrow> v3_usb v3_ops \<times> v3_usb" where
  "usb3_register fs junk cfgv1 p cfg = (usb3_ops fs junk cfgv1, p\<lparr>u3_config := cfg\<rparr>)"

subsection \<open>The descriptor\<close>

text \<open>The tune: its buffer, its semaphores, once they are initialised, and the flag of the source.\<close>

record v3_tune =
  t3_dest :: "unit ptr"
  t3_semw :: "nat option"
  t3_sems :: "nat option"
  t3_writting :: bool

text \<open>
  The descriptor, with the heap. \<open>d3_over\<close> is the value of the semaphore the writer posts at its end, once it is
  initialised; \<open>d3_running\<close> says that the writer thread runs. \<open>d3_reader\<close> is the copy of the pointer to the tune that the
  source thread of the last start holds: null when there is no such thread.
\<close>

record 'p v3_desc =
  d3_sources :: nat
  d3_source :: nat
  d3_object :: "('p v3_ops \<times> 'p) option ptr"
  d3_percent :: int
  d3_header :: "v3_header ptr"
  d3_cfgv1 :: bool
  d3_config :: string
  d3_tune :: "v3_tune ptr"
  d3_scale :: int
  d3_error :: retcode
  d3_writter :: "unit ptr"
  d3_over :: "nat option"
  d3_nand :: "nat option"
  d3_running :: bool
  d3_reader :: "unit ptr"
  d3_heap :: v3_heap

definition zero_v3_desc :: "'p v3_desc" where
  "zero_v3_desc = \<lparr>d3_sources = 0, d3_source = 0, d3_object = Null, d3_percent = 0, d3_header = Null, d3_cfgv1 = True, d3_config = [],
     d3_tune = Null, d3_scale = 0, d3_error = V3_ERR_NONE, d3_writter = Null, d3_over = None, d3_nand = None, d3_running = False,
     d3_reader = Null, d3_heap = {#}\<rparr>"

definition zero_v3_tune :: v3_tune where
  "zero_v3_tune = \<lparr>t3_dest = Null, t3_semw = None, t3_sems = None, t3_writting = False\<rparr>"

definition zero_v3_header :: v3_header where
  "zero_v3_header = \<lparr>h3_elem = [], h3_reqsz = 0, h3_mono = False, h3_upgdatasz = 0, h3_maxpart_id = 0, h3_sign = 0, h3_parts = 0, h3_pktsz = 0,
     h3_upgparts = 0, h3_upgdata_offset = 0, h3_bootfile_size = 0, h3_bootfile_imgsz = 0, h3_ubootfile_imgsz = 0, h3_fskey_start = 0,
     h3_fskey_end = 0, h3_pagesz = 0, h3_pktname = []\<rparr>"

definition v3_object_detect :: "(nat \<Rightarrow> bool) \<Rightarrow> nat \<Rightarrow> 'p v3_desc \<Rightarrow> retcode \<times> 'p v3_desc" where
  "v3_object_detect dlopen_ok source d =
     (if and (d3_source d) source \<noteq> 0 \<and> d3_object d \<noteq> Null then (V3_ERR_NONE, d)
      else if \<not> dlopen_ok source then (V3_ERR_NOSUPPORTOBJ, d\<lparr>d3_sources := unset_bit source (d3_sources d)\<rparr>)
      else (V3_ERR_NONE, d\<lparr>d3_sources := set_bit source (d3_sources d)\<rparr>))"

text \<open>\<open>al\<close> answers the allocations. The handle is given out before the other allocations.\<close>

definition v3_construct :: "(nat \<Rightarrow> bool) \<Rightarrow> (nat \<Rightarrow> bool) \<Rightarrow> retcode \<times> 'p v3_desc option" where
  "v3_construct al dlopen_ok =
     (if \<not> al 0 then (V3_ERR_OTHER, None)
      else if \<not> al 1 then (V3_ERR_OTHER, Some zero_v3_desc)
      else
        let d = zero_v3_desc\<lparr>d3_object := Valid None\<rparr>;
            d = snd (v3_object_detect dlopen_ok UPG_OTA (d\<lparr>d3_sources := set_bit UPG_OTA (d3_sources d)\<rparr>));
            d = snd (v3_object_detect dlopen_ok UPG_USB (d\<lparr>d3_sources := set_bit UPG_USB (d3_sources d)\<rparr>));
            d = snd (v3_object_detect dlopen_ok UPG_NET (d\<lparr>d3_sources := set_bit UPG_NET (d3_sources d)\<rparr>))
        in if and (d3_sources d) 7 = 0 then (V3_ERR_NOSUPPORTOBJ, Some d) else (V3_ERR_NONE, Some d))"

text \<open>
  The plugin of the selected source registers itself with \<open>reg\<close>; a plugin that is not found is called through a
  null pointer. The test of the sources never holds because of the precedence of its operators.
\<close>

definition v3_object_init :: "(string \<Rightarrow> 'p v3_ops \<times> 'p) option \<Rightarrow> 'p v3_desc \<Rightarrow> (retcode \<times> 'p v3_desc) option" where
  "v3_object_init reg d =
     (if and (of_bool (d3_sources d = 0)) (push_bit (d3_source d) 1) \<noteq> (0 :: nat) then Some (V3_ERR_NOSUPPORTOBJ, d)
      else do {
        f \<leftarrow> reg;
        obj \<leftarrow> deref (d3_object d);
        Some (V3_ERR_NONE, d\<lparr>d3_object := Valid (Some (f (d3_config d))), d3_percent := 0\<rparr>) })"

text \<open>The parameters of an open are the source, the configuration and the scale of the progress.\<close>

definition v3_open :: "(string \<Rightarrow> 'p v3_ops \<times> 'p) option \<Rightarrow> nat \<times> string \<times> int \<Rightarrow> 'p v3_desc option \<Rightarrow> (retcode \<times> 'p v3_desc option) option" where
  "v3_open reg param desc =
     (case desc of
        None \<Rightarrow> Some (V3_ERR_OTHER, None)
      | Some d \<Rightarrow>
          let (source, cfg, scale) = param; d = d\<lparr>d3_source := source\<rparr>
          in if \<not> bit (d3_sources d) source then Some (V3_ERR_NOSUPPORTOBJ, Some d)
             else if UPG_PATH_SIZE \<le> length cfg then None
             else do {
               (r, d) \<leftarrow> v3_object_init reg (d\<lparr>d3_config := cfg, d3_scale := (if scale = 0 then UPG_DEFAULT_SCALE else scale)\<rparr>);
               Some (V3_ERR_NONE, Some d) })"

text \<open>A handler of the object; before the registration its pointer is null.\<close>

definition v3_handler :: "('p v3_ops \<Rightarrow> 'p \<times> retcode \<Rightarrow> 'p \<times> retcode) \<Rightarrow> 'p v3_desc \<Rightarrow> 'p v3_desc option" where
  "v3_handler f d = do {
     obj \<leftarrow> deref (d3_object d);
     (ops, p) \<leftarrow> obj;
     let (p, err) = f ops (p, d3_error d);
     Some (d\<lparr>d3_object := Valid (Some (ops, p)), d3_error := err\<rparr>) }"

text \<open>The start handler creates the source thread, which copies the pointer to the tune; the stop handler joins no thread.\<close>

definition v3_obj_start :: "bool \<Rightarrow> 'p v3_desc \<Rightarrow> 'p v3_desc option" where
  "v3_obj_start dest_ok d = do {
     obj \<leftarrow> deref (d3_object d);
     (ops, p) \<leftarrow> obj;
     tune \<leftarrow> deref (d3_tune d);
     let (created, p, dest, heap) = p3_start ops dest_ok (p, t3_dest tune, d3_heap d);
     Some (d\<lparr>d3_object := Valid (Some (ops, p)), d3_tune := Valid (tune\<lparr>t3_dest := dest\<rparr>), d3_heap := heap,
             d3_reader := (if created then Valid () else d3_reader d)\<rparr>) }"

definition v3_tune_end :: "'p v3_desc \<Rightarrow> 'p v3_desc option" where
  "v3_tune_end d = do {
     obj \<leftarrow> deref (d3_object d);
     (ops, p) \<leftarrow> obj;
     tune \<leftarrow> deref (d3_tune d);
     (p, dest, heap) \<leftarrow> p3_stop ops (p, t3_dest tune, d3_heap d);
     Some (d\<lparr>d3_object := Valid (Some (ops, p)), d3_tune := Valid (tune\<lparr>t3_dest := dest\<rparr>), d3_heap := heap\<rparr>) }"

definition v3_prestart :: "'p v3_desc option \<Rightarrow> (retcode \<times> 'p v3_desc option) option" where
  "v3_prestart desc =
     (case desc of
        None \<Rightarrow> Some (V3_ERR_OTHER, None)
      | Some d \<Rightarrow> do { d \<leftarrow> v3_handler p3_prestart d; Some (V3_ERR_NONE, Some d) })"

subsection \<open>Starting\<close>

text \<open>
  The three structures of an upgrade; after a failure the earlier ones are freed but still pointed to.
  The pointers of an earlier start are overwritten; the source thread of an earlier start is not followed any further.
\<close>

definition v3_alloc :: "(nat \<Rightarrow> bool) \<Rightarrow> 'p v3_desc \<Rightarrow> 'p v3_desc + 'p v3_desc" where
  "v3_alloc al d =
     (let heap = d3_heap d
      in if \<not> al 0 then Inl (d\<lparr>d3_header := Null\<rparr>)
         else if \<not> al 1 then Inl (d\<lparr>d3_header := Dangling, d3_tune := Null, d3_heap := add_mset B_Header heap - {#B_Header#}\<rparr>)
         else if \<not> al 2 then Inl (d\<lparr>d3_header := Dangling, d3_tune := Dangling, d3_writter := Null,
           d3_heap := heap + {#B_Header, B_Tune#} - {#B_Header#} - {#B_Tune#}, d3_reader := Null\<rparr>)
         else Inr (d\<lparr>d3_header := Valid zero_v3_header, d3_tune := Valid zero_v3_tune, d3_writter := Valid (),
           d3_heap := heap + {#B_Header, B_Tune, B_Writter#}, d3_reader := Null\<rparr>))"

text \<open>
  The parser on the descriptor; an object that is not registered has no handler. Every element of the list is a block of its own.
  The element the parser works with is freed at its end, but not when a part is too large.
\<close>

definition v3_desc_parse :: "'k sto_env \<Rightarrow> bool \<Rightarrow> storage_map list \<Rightarrow> (nat \<Rightarrow> bool) \<Rightarrow> (nat \<Rightarrow> bool) \<Rightarrow> u8 list \<Rightarrow> 'p v3_desc \<Rightarrow> 'k sysinfo
    \<Rightarrow> (retcode \<times> 'p v3_desc \<times> 'k sysinfo) option" where
  "v3_desc_parse e malloc_ok layout al elal junk d st = do {
     obj \<leftarrow> deref (d3_object d);
     hdr \<leftarrow> deref (d3_header d);
     case obj of
       None \<Rightarrow> Some (V3_ERR_OTHER, d, st)
     | Some (ops, p) \<Rightarrow> do {
         (err, hdr, p, st) \<leftarrow> v3_parse_config e malloc_ok layout (al 3) (al 4) elal junk ops p (d3_cfgv1 d) (d3_nand d) (d3_config d) hdr st;
         Some (err, d\<lparr>d3_object := Valid (Some (ops, p)), d3_header := Valid hdr,
           d3_heap := d3_heap d + replicate_mset (length (h3_elem hdr)) B_Elem + (if err = V3_ERR_NOTENOUGHSPACE then {#B_Elem#} else {#})\<rparr>, st) } }"

text \<open>The parameters of the open flash; without a handle the structure of the caller stays zero.\<close>

definition v3_storage_info :: "nat option \<Rightarrow> 'k sto_lib \<Rightarrow> mtd_info ptr option" where
  "v3_storage_info nand lib =
     (case nand of
        None \<Rightarrow> Some Null
      | Some h \<Rightarrow> do { dev \<leftarrow> devs lib h; Some (case snd (alislsto_get_param (Some dev) True) of None \<Rightarrow> Null | Some (t, info, maxpart) \<Rightarrow> info) })"

definition v3_sto_close :: "nat option \<Rightarrow> 'k sysinfo \<Rightarrow> 'k sysinfo option" where
  "v3_sto_close nand st = do { (r, lib) \<leftarrow> alislsto_close nand (si_lib st); Some (st\<lparr>si_lib := lib\<rparr>) }"

text \<open>The checks behind the parser and the start of the two threads.\<close>

definition v3_launch :: "bool \<Rightarrow> 'p v3_desc \<Rightarrow> 'p v3_desc option" where
  "v3_launch dest_ok d = do {
     tune \<leftarrow> deref (d3_tune d);
     d \<leftarrow> Some (d\<lparr>d3_tune := Valid (tune\<lparr>t3_semw := Some 1, t3_sems := Some 0\<rparr>), d3_running := True\<rparr>);
     v3_obj_start dest_ok d }"

text \<open>The three structures are freed; the pointers to them, here and in the source thread, then dangle.\<close>

definition freed :: "'a ptr \<Rightarrow> 'a ptr" where
  "freed q = (case q of Null \<Rightarrow> Null | Dangling \<Rightarrow> Dangling | Valid x \<Rightarrow> Dangling)"

lemma freed_simps [simp]: "freed Null = Null" "freed Dangling = Dangling" "freed (Valid x) = Dangling"
  by (simp_all add: freed_def)

definition v3_free_session :: "'p v3_desc \<Rightarrow> 'p v3_desc option" where
  "v3_free_session d = do {
     heap \<leftarrow> v3_free B_Writter (d3_writter d) (d3_heap d);
     heap \<leftarrow> v3_free B_Tune (d3_tune d) heap;
     heap \<leftarrow> v3_free B_Header (d3_header d) heap;
     Some (d\<lparr>d3_writter := freed (d3_writter d), d3_tune := freed (d3_tune d), d3_reader := freed (d3_reader d),
             d3_header := freed (d3_header d), d3_heap := heap\<rparr>) }"

definition v3_checked :: "bool \<Rightarrow> 'p v3_desc \<Rightarrow> 'k sysinfo \<Rightarrow> (retcode \<times> 'p v3_desc \<times> 'k sysinfo) option" where
  "v3_checked dest_ok d st = do {
     info \<leftarrow> v3_storage_info (d3_nand d) (si_lib st);
     hdr \<leftarrow> deref (d3_header d);
     if info = Null then do { st \<leftarrow> v3_sto_close (d3_nand d) st; Some (V3_ERR_MISMATCHPGSZ, d, st) }
     else do {
       info \<leftarrow> deref info;
       if info_writesize info div 1024 \<noteq> h3_pagesz hdr then do { st \<leftarrow> v3_sto_close (d3_nand d) st; Some (V3_ERR_MISMATCHPGSZ, d, st) }
       else if h3_mono hdr \<and> h3_reqsz hdr > info_size info then do {
         st \<leftarrow> v3_sto_close (d3_nand d) st;
         d \<leftarrow> v3_free_session (d\<lparr>d3_over := None\<rparr>);
         Some (V3_ERR_NOTENOUGHSPACE, d, st) }
       else do {
         st \<leftarrow> v3_sto_close (d3_nand d) st;
         d \<leftarrow> v3_launch dest_ok (d\<lparr>d3_over := Some 0\<rparr>);
         Some (V3_ERR_NONE, d, st) } } }"

definition v3_start :: "'k sto_env \<Rightarrow> bool \<Rightarrow> storage_map list \<Rightarrow> (nat \<Rightarrow> bool) \<Rightarrow> (nat \<Rightarrow> bool) \<Rightarrow> u8 list \<Rightarrow> 'p v3_desc option \<Rightarrow> 'k sysinfo
    \<Rightarrow> (retcode \<times> 'p v3_desc option \<times> 'k sysinfo) option" where
  "v3_start e malloc_ok layout al elal junk desc st =
     (case desc of
        None \<Rightarrow> Some (V3_ERR_OTHER, None, st)
      | Some d \<Rightarrow>
          (case v3_alloc al d of
             Inl d \<Rightarrow> Some (V3_ERR_OTHER, Some d, st)
           | Inr d \<Rightarrow> do {
               (r, h, lib) \<leftarrow> alislsto_open e True STO_TYPE_NAND O_RDWR layout (si_lib st);
               let d = (if h = None then d else d\<lparr>d3_nand := h\<rparr>);
               (err, d, st) \<leftarrow> v3_desc_parse e malloc_ok layout al elal junk d (st\<lparr>si_lib := lib\<rparr>);
               if err \<noteq> V3_ERR_NONE then do { st \<leftarrow> v3_sto_close (d3_nand d) st; Some (V3_ERR_PARSECFGERR, Some d, st) }
               else do { (err, d, st) \<leftarrow> v3_checked (al 5) d st; Some (err, Some d, st) } }))"

subsection \<open>Status, abort, stop and the end\<close>

text \<open>The percentage and the error the caller sees after the wait; \<open>pct\<close> is what it had.\<close>

definition v3_wait_status :: "int \<Rightarrow> 'p v3_desc option \<Rightarrow> retcode \<times> int \<times> retcode option" where
  "v3_wait_status pct desc =
     (case desc of
        None \<Rightarrow> (V3_ERR_OTHER, pct, None)
      | Some d \<Rightarrow> (d3_error d, if d3_error d \<noteq> V3_ERR_NONE then pct else d3_percent d, Some (d3_error d)))"

text \<open>The list of the elements is freed block by block.\<close>

primrec v3_free_elems :: "v3_elem list \<Rightarrow> v3_heap \<Rightarrow> v3_heap option" where
  "v3_free_elems [] heap = Some heap"
| "v3_free_elems (el # els) heap = do { heap \<leftarrow> v3_free B_Elem (Valid el) heap; v3_free_elems els heap }"

definition v3_destroyelem :: "'p v3_desc \<Rightarrow> 'p v3_desc option" where
  "v3_destroyelem d = do {
     hdr \<leftarrow> deref (d3_header d);
     heap \<leftarrow> v3_free_elems (h3_elem hdr) (d3_heap d);
     Some (d\<lparr>d3_header := Valid (hdr\<lparr>h3_elem := []\<rparr>), d3_heap := heap\<rparr>) }"

definition v3_tune_deinit :: "'p v3_desc \<Rightarrow> 'p v3_desc option" where
  "v3_tune_deinit d = do { tune \<leftarrow> deref (d3_tune d); Some (d\<lparr>d3_tune := Valid (tune\<lparr>t3_sems := None, t3_semw := None\<rparr>)\<rparr>) }"

text \<open>
  What an abort and a stop have in common: the buffer is freed by the plugin, the semaphores are destroyed, the
  elements and the three structures are freed and the pointers to them cleared.
\<close>

definition v3_release :: "'p v3_desc \<Rightarrow> 'p v3_desc option" where
  "v3_release d = do {
     d \<leftarrow> v3_tune_end d;
     d \<leftarrow> v3_tune_deinit d;
     d \<leftarrow> v3_destroyelem (d\<lparr>d3_over := None\<rparr>);
     d \<leftarrow> v3_free_session d;
     Some (d\<lparr>d3_writter := Null, d3_tune := Null, d3_header := Null\<rparr>) }"

definition v3_abort :: "'p v3_desc option \<Rightarrow> (retcode \<times> 'p v3_desc option) option" where
  "v3_abort desc =
     (case desc of
        None \<Rightarrow> Some (V3_ERR_OTHER, None)
      | Some d \<Rightarrow> do {
          d \<leftarrow> v3_handler p3_prestop d;
          if d3_tune d = Null then Some (V3_ERR_NONE, Some d)
          else do { d \<leftarrow> v3_release d; Some (V3_ERR_NONE, Some d) } })"

text \<open>
  The stop first waits for the post of the writer: with the semaphore at zero the call does not return (from this state;
  the threads go on). A semaphore that is not initialised cannot be waited for. No thread is joined.
\<close>

definition v3_tune_waitfinish :: "'p v3_desc \<Rightarrow> 'p v3_desc option" where
  "v3_tune_waitfinish d = do { n \<leftarrow> d3_over d; if n = 0 then None else Some (d\<lparr>d3_over := Some (n - 1)\<rparr>) }"

definition v3_stop :: "'p v3_desc option \<Rightarrow> (retcode \<times> 'p v3_desc option) option" where
  "v3_stop desc =
     (case desc of
        None \<Rightarrow> Some (V3_ERR_OTHER, None)
      | Some d \<Rightarrow> do {
          d \<leftarrow> v3_tune_waitfinish d;
          d \<leftarrow> v3_release d;
          Some (V3_ERR_NONE, Some d) })"

text \<open>The last access of the source thread, through its own copy of the pointer: it clears \<open>writting\<close> in the tune.\<close>

definition v3_source_over :: "'p v3_desc \<Rightarrow> 'p v3_desc option" where
  "v3_source_over d = do {
     reading \<leftarrow> deref (d3_reader d);
     tune \<leftarrow> deref (d3_tune d);
     Some (d\<lparr>d3_tune := Valid (tune\<lparr>t3_writting := False\<rparr>), d3_reader := Null\<rparr>) }"

text \<open>Every plugin clears the object of the descriptor when it is unregistered; the structure is not freed.\<close>

definition v3_close :: "'p v3_desc option \<Rightarrow> (retcode \<times> 'p v3_desc option) option" where
  "v3_close desc =
     (case desc of
        None \<Rightarrow> Some (V3_ERR_OTHER, None)
      | Some d \<Rightarrow> do {
          obj \<leftarrow> deref (d3_object d);
          registered \<leftarrow> obj;
          Some (STO_ERR_NONE, Some (d\<lparr>d3_object := Null\<rparr>)) })"

definition v3_destruct :: "'p v3_desc option \<Rightarrow> retcode \<times> 'p v3_desc option" where
  "v3_destruct desc = (case desc of None \<Rightarrow> (V3_ERR_OTHER, None) | Some d \<Rightarrow> (STO_ERR_NONE, None))"

subsection \<open>The threads of a session\<close>

text \<open>
  The state in which the threads of a start begin: the source runs if it was created, and the error is
  that of the descriptor, which the start does not reset.
\<close>

definition v3_begin :: "'k v3_writer \<Rightarrow> nat \<Rightarrow> u8 list \<Rightarrow> 'p v3_desc \<Rightarrow> 'k v3_st" where
  "v3_begin w start buf d = (v3_init w start buf)\<lparr>v_srun := (d3_reader d \<noteq> Null), v_err := d3_error d\<rparr>"

text \<open>The descriptor and the tune as the threads have left them in the state \<open>s\<close>.\<close>

definition v3_shared :: "'k v3_st \<Rightarrow> 'p v3_desc \<Rightarrow> 'p v3_desc" where
  "v3_shared s d = d\<lparr>d3_percent := v_pct s, d3_error := v_err s, d3_running := v_wrun s,
     d3_over := map_option (\<lambda>n. n + v_over s) (d3_over d), d3_reader := (if v_srun s then d3_reader d else Null),
     d3_tune := map_ptr (\<lambda>t. t\<lparr>t3_semw := Some (v_semw s), t3_sems := Some (v_sems s), t3_writting := v_writting s\<rparr>) (d3_tune d)\<rparr>"

subsection \<open>The configuration through the USB plugin\<close>

lemma usb3_getcfg_result:
  assumes "UPG_CONFIGV1_SIZE \<le> length buf" and "usb3_getcfg fs junk True p buf = (len, buf', p')"
  shows "p' = p" and "length buf' = length buf"
    and "0 < len \<Longrightarrow> \<exists>bs. fs (u3_config p) = Some bs \<and> UPG_CONFIGV1_SIZE \<le> length bs \<and> take UPG_CONFIGV1_SIZE buf' = take UPG_CONFIGV1_SIZE bs"
  using assms
  by (auto simp: usb3_getcfg_def Let_def UPG_CONFIGV1_SIZE_def EINVAL_def memcpy_at_def split: if_splits option.splits)

lemma usb3_getcfg_loop:
  assumes "UPG_CONFIGV1_SIZE \<le> length buf" and "v3_getcfg_loop (usb3_getcfg fs junk True) n p buf = (len, buf', p')"
  shows "p' = p \<and> (0 < len \<longrightarrow> (\<exists>bs. fs (u3_config p) = Some bs \<and> UPG_CONFIGV1_SIZE \<le> length bs \<and>
    take UPG_CONFIGV1_SIZE buf' = take UPG_CONFIGV1_SIZE bs))"
  using assms
proof (induction n arbitrary: buf)
  case 0
  then show ?case
    using usb3_getcfg_result [of buf fs junk p len buf' p'] by auto
next
  case (Suc n)
  obtain len1 buf1 p1 where g: "usb3_getcfg fs junk True p buf = (len1, buf1, p1)"
    by (metis prod_cases3)
  note r = usb3_getcfg_result [OF Suc.prems(1) g]
  show ?case
    using Suc.IH [of buf1] Suc.prems g r by (cases "len1 \<le> 0") auto
qed

lemma le32_prefix:
  assumes "take n xs = take n ys" and "i + 4 \<le> n"
  shows "le32 xs i = le32 ys i"
proof -
  have "xs ! (i + k) = ys ! (i + k)" if "k < 4" for k
    using arg_cong [OF assms(1), of "\<lambda>l. l ! (i + k)"] that assms(2) by simp
  from this [of 0] this [of 1] this [of 2] this [of 3] show ?thesis
    by (simp add: le32_def)
qed

lemma parse_no_uboot:
  assumes "le32 buf 196 = 0" and "v3_parse_configv1 e malloc_ok layout elem_ok al junk nand cfg buf hdr st = Some (err, hdr', st')"
  shows "st' = st"
  using assms by (auto simp: v3_parse_configv1_def Let_def v3_fields_def bind_eq_Some_conv split: if_splits)

text \<open>Without a boot loader in the configuration the parser only reads the layout map.\<close>

lemma usb3_parse_keeps:
  assumes "\<forall>bs. fs (u3_config p) = Some bs \<longrightarrow> le32 bs 196 = 0"
    and "v3_parse_config e malloc_ok layout buf_ok elem_ok al junk (usb3_ops fs size0 cfgv1) p cfgv1 nand cfg hdr st = Some (err, hdr', p', st')"
  shows "st' = st"
proof -
  let ?g = "usb3_getcfg fs size0 cfgv1" and ?z = "replicate UPG_MAX_CFGLEN 0 :: u8 list"
  obtain len buf q where g: "v3_getcfg_loop ?g 6 p ?z = (len, buf, q)"
    by (metis prod_cases3)
  have n: "UPG_CONFIGV1_SIZE \<le> length ?z" "196 + 4 \<le> UPG_CONFIGV1_SIZE"
    unfolding length_replicate by (simp_all add: UPG_CONFIGV1_SIZE_def UPG_MAX_CFGLEN_def)
  have u: "le32 buf 196 = 0" if l: "cfgv1" "0 < len"
  proof -
    obtain bs where "fs (u3_config p) = Some bs" "take UPG_CONFIGV1_SIZE buf = take UPG_CONFIGV1_SIZE bs"
      using usb3_getcfg_loop [OF n(1), of fs size0 6 p len buf q] g l by auto
    then show ?thesis
      using le32_prefix [OF _ n(2), of buf bs] assms(1) by simp
  qed
  have "p3_getcfg (usb3_ops fs size0 cfgv1) = Some ?g"
    by (simp add: usb3_ops_def)
  then show ?thesis
    using assms(2) parse_no_uboot [OF u] unfolding v3_parse_config_def
    by (auto simp only: option.case g Let_def prod.case split: if_splits) (auto simp: bind_eq_Some_conv)
qed

subsection \<open>What the calls leave behind\<close>

text \<open>The open flash of the library, opened once more and closed again, is as it was.\<close>

lemma open_shared:
  assumes "nand_handle s = Some h" and "devs s h = Some dev" and "dev_open_cnt dev + 1 < 2 ^ 32"
  shows "alislsto_open e True STO_TYPE_NAND flags layout s =
    Some (STO_ERR_NONE, Some h, s\<lparr>devs := (devs s)(h \<mapsto> dev\<lparr>dev_open_cnt := dev_open_cnt dev + 1\<rparr>)\<rparr>)"
  using assms by (simp add: alislsto_open_def)

lemma close_shared:
  assumes "devs s h = Some dev" and "0 < dev_open_cnt dev" and "dev_open_cnt dev + 1 < 2 ^ 32"
  shows "v3_sto_close (Some h) (st\<lparr>si_lib := s\<lparr>devs := (devs s)(h \<mapsto> dev\<lparr>dev_open_cnt := dev_open_cnt dev + 1\<rparr>)\<rparr>\<rparr>) = Some (st\<lparr>si_lib := s\<rparr>)"
proof -
  have "nat (int (dev_open_cnt dev) mod 4294967296) = dev_open_cnt dev" "(devs s)(h \<mapsto> dev) = devs s"
    using assms by (simp_all add: fun_upd_idem)
  then show ?thesis
    using assms by (simp add: v3_sto_close_def alislsto_close_def Let_def)
qed

lemma desc_parse_keeps:
  assumes "d3_object d = Valid (Some (usb3_ops fs size0 (d3_cfgv1 d), p))" and "\<forall>bs. fs (u3_config p) = Some bs \<longrightarrow> le32 bs 196 = 0"
    and "v3_desc_parse e malloc_ok layout al elal junk d st = Some (err, d', st')"
  shows "st' = st" and "d3_nand d' = d3_nand d" and "d3_running d' = d3_running d"
  using assms(3) usb3_parse_keeps [where fs = fs and p = p] assms(2) by (auto simp: v3_desc_parse_def assms(1) bind_eq_Some_conv)

lemma deref_Valid: "deref q = Some x \<longleftrightarrow> q = Valid x"
  by (cases q) simp_all

lemma launch_result:
  assumes "v3_launch dest_ok d = Some d'"
  shows "d3_running d' \<and> d3_header d' = d3_header d \<and> d3_nand d' = d3_nand d"
  using assms by (auto simp: v3_launch_def v3_obj_start_def bind_eq_Some_conv deref_Valid split_beta Let_def)

lemma free_session_result:
  assumes "v3_free_session d = Some d'"
  shows "d3_running d' = d3_running d \<and> d3_tune d' = freed (d3_tune d)"
  using assms by (auto simp: v3_free_session_def bind_eq_Some_conv)

text \<open>The checks end with the close of the flash; on success the threads run on what the parser has found.\<close>

lemma checked_outcome:
  assumes "devs s h = Some dev" and "0 < dev_open_cnt dev" and "dev_open_cnt dev + 1 < 2 ^ 32" and "d3_nand d = Some h"
    and "v3_checked dest_ok d (st\<lparr>si_lib := s\<lparr>devs := (devs s)(h \<mapsto> dev\<lparr>dev_open_cnt := dev_open_cnt dev + 1\<rparr>)\<rparr>\<rparr>) = Some (err, d', st')"
  shows "st' = st\<lparr>si_lib := s\<rparr>"
    and "err \<noteq> V3_ERR_NONE \<Longrightarrow> d3_running d' = d3_running d"
    and "err = V3_ERR_NONE \<Longrightarrow> \<exists>hdr logic. d3_header d' = Valid hdr \<and> d3_nand d' = Some h \<and> d3_running d' \<and> dev_info_logic dev = Valid logic \<and>
      info_writesize logic div 1024 = h3_pagesz hdr \<and> (h3_mono hdr \<longrightarrow> h3_reqsz hdr \<le> info_size logic)"
  using assms(5) close_shared [OF assms(1-3), of st]
  by (auto simp: v3_checked_def v3_storage_info_def alislsto_get_param_def assms(4) bind_eq_Some_conv deref_Valid
      V3_ERR_NONE_def V3_ERR_MISMATCHPGSZ_def V3_ERR_NOTENOUGHSPACE_def dest!: launch_result free_session_result split: if_splits)

lemma start_cases:
  assumes "v3_start e malloc_ok layout al elal junk (Some d) st = Some (err, desc, st')"
  obtains (alloc) d1 where "err = V3_ERR_OTHER" "desc = Some d1" "st' = st" "d3_running d1 = d3_running d"
  | (parsed) r hd lib d1 perr d2 st1 where "alislsto_open e True STO_TYPE_NAND O_RDWR layout (si_lib st) = Some (r, hd, lib)"
      "d1 = d\<lparr>d3_header := Valid zero_v3_header, d3_tune := Valid zero_v3_tune, d3_writter := Valid (),
         d3_heap := d3_heap d + {#B_Header, B_Tune, B_Writter#}, d3_reader := Null, d3_nand := (if hd = None then d3_nand d else hd)\<rparr>"
      "v3_desc_parse e malloc_ok layout al elal junk d1 (st\<lparr>si_lib := lib\<rparr>) = Some (perr, d2, st1)"
      "perr \<noteq> V3_ERR_NONE \<and> err = V3_ERR_PARSECFGERR \<and> desc = Some d2 \<and> v3_sto_close (d3_nand d2) st1 = Some st' \<or>
       perr = V3_ERR_NONE \<and> (\<exists>d3. v3_checked (al 5) d2 st1 = Some (err, d3, st') \<and> desc = Some d3)"
proof (cases "v3_alloc al d")
  case (Inl d1)
  then have "d3_running d1 = d3_running d"
    by (auto simp: v3_alloc_def Let_def split: if_splits)
  with Inl assms show ?thesis
    by (intro alloc [of d1]) (simp_all add: v3_start_def)
next
  case (Inr d1)
  then have d1: "d1 = d\<lparr>d3_header := Valid zero_v3_header, d3_tune := Valid zero_v3_tune, d3_writter := Valid (),
      d3_heap := d3_heap d + {#B_Header, B_Tune, B_Writter#}, d3_reader := Null\<rparr>"
    by (auto simp: v3_alloc_def Let_def split: if_splits)
  obtain r hd lib where o: "alislsto_open e True STO_TYPE_NAND O_RDWR layout (si_lib st) = Some (r, hd, lib)"
    using assms Inr by (auto simp: v3_start_def bind_eq_Some_conv)
  let ?d = "d1\<lparr>d3_nand := (if hd = None then d3_nand d else hd)\<rparr>"
  have n: "(if hd = None then d1 else d1\<lparr>d3_nand := hd\<rparr>) = ?d"
    by (simp add: d1)
  obtain perr d2 st1 where p: "v3_desc_parse e malloc_ok layout al elal junk ?d (st\<lparr>si_lib := lib\<rparr>) = Some (perr, d2, st1)"
    using assms Inr o n by (auto simp: v3_start_def Let_def bind_eq_Some_conv simp del: if_split)
  show ?thesis
    by (rule parsed [OF o _ p]) (use assms Inr o n p d1 in \<open>auto simp: v3_start_def Let_def bind_eq_Some_conv split: if_splits\<close>)
qed

lemma desc_parse_frame:
  assumes "v3_desc_parse e malloc_ok layout al elal junk d st = Some (err, d', st')"
  shows "d3_writter d' = d3_writter d" and "d3_tune d' = d3_tune d" and "d3_reader d' = d3_reader d"
    and "d3_object d = Valid (Some (ops, p)) \<Longrightarrow> err \<noteq> V3_ERR_NOTENOUGHSPACE \<Longrightarrow>
      \<exists>hdr q. d3_header d' = Valid hdr \<and> d3_object d' = Valid (Some (ops, q)) \<and> d3_heap d' = d3_heap d + replicate_mset (length (h3_elem hdr)) B_Elem"
  using assms by (auto simp: v3_desc_parse_def bind_eq_Some_conv split: option.splits)

text \<open>
  (C17) A start through the USB plugin of a package without a boot loader, with a flash that another user holds
  open, leaves the storage and the system information library exactly as they were, whatever it returns. The threads run only if it returns
  success, and then the page size of the package is that of the flash and a package for the whole flash fits it.
\<close>

theorem v3_start_keeps_storage:
  assumes "nand_handle (si_lib st) = Some h" and "devs (si_lib st) h = Some dev" and "0 < dev_open_cnt dev" and "dev_open_cnt dev + 1 < 2 ^ 32"
    and "d3_object d = Valid (Some (usb3_ops fs size0 (d3_cfgv1 d), p))" and "\<forall>bs. fs (u3_config p) = Some bs \<longrightarrow> le32 bs 196 = 0"
    and "v3_start e malloc_ok layout al elal junk (Some d) st = Some (err, desc, st')"
  shows "st' = st \<and> (\<exists>d'. desc = Some d' \<and> (err \<noteq> V3_ERR_NONE \<longrightarrow> d3_running d' = d3_running d) \<and>
    (err = V3_ERR_NONE \<longrightarrow> (\<exists>hdr logic. d3_header d' = Valid hdr \<and> d3_nand d' = Some h \<and> d3_running d' \<and> dev_info_logic dev = Valid logic \<and>
       info_writesize logic div 1024 = h3_pagesz hdr \<and> (h3_mono hdr \<longrightarrow> h3_reqsz hdr \<le> info_size logic))))"
  using assms(7)
proof (cases rule: start_cases)
  case (alloc d1)
  then show ?thesis by simp
next
  case (parsed r hd lib d1 perr d2 st1)
  let ?lib = "(si_lib st)\<lparr>devs := (devs (si_lib st))(h \<mapsto> dev\<lparr>dev_open_cnt := dev_open_cnt dev + 1\<rparr>)\<rparr>"
  have o: "hd = Some h" "lib = ?lib"
    using parsed(1) open_shared [OF assms(1,2,4), of e O_RDWR layout] by simp_all
  have d1: "d3_object d1 = Valid (Some (usb3_ops fs size0 (d3_cfgv1 d1), p))" "d3_nand d1 = Some h" "d3_running d1 = d3_running d"
    using assms(5) o(1) by (simp_all add: parsed(2))
  note k = desc_parse_keeps [OF d1(1) assms(6) parsed(3)]
  have n: "d3_nand d2 = Some h" "st1 = st\<lparr>si_lib := ?lib\<rparr>" "d3_running d2 = d3_running d"
    using k d1 o(2) by simp_all
  note cl = close_shared [OF assms(2-4), of st]
  from parsed(4) show ?thesis
  proof (elim disjE conjE exE)
    assume "err = V3_ERR_PARSECFGERR" "desc = Some d2" "v3_sto_close (d3_nand d2) st1 = Some st'"
    then show ?thesis
      using n cl by (simp add: V3_ERR_PARSECFGERR_def V3_ERR_NONE_def)
  next
    fix d3 assume c: "v3_checked (al 5) d2 st1 = Some (err, d3, st')" "desc = Some d3"
    show ?thesis
      using checked_outcome [OF assms(2-4) n(1) c(1) [unfolded n(2)]] c(2) n(3) by auto
  qed
qed


subsection \<open>The memory of a session\<close>

text \<open>What a session of the USB plugin has allocated over the blocks \<open>heap\<close> that were there before.\<close>

definition in_session :: "v3_heap \<Rightarrow> v3_usb v3_desc \<Rightarrow> bool" where
  "in_session heap d \<longleftrightarrow> (\<exists>ops p hdr tune. d3_object d = Valid (Some (ops, p)) \<and> d3_header d = Valid hdr \<and> d3_tune d = Valid tune \<and>
     p3_stop ops = usb3_stop \<and> d3_writter d = Valid () \<and> t3_dest tune \<noteq> Dangling \<and>
     d3_heap d = heap + {#B_Header, B_Tune, B_Writter#} + replicate_mset (length (h3_elem hdr)) B_Elem + (if t3_dest tune = Null then {#} else {#B_Dest#}))"

lemma in_sessionI:
  assumes "d3_object d = Valid (Some (ops, p))" and "d3_header d = Valid hdr" and "d3_tune d = Valid tune" and "p3_stop ops = usb3_stop"
    and "d3_writter d = Valid ()" and "t3_dest tune \<noteq> Dangling"
    and "d3_heap d = heap + {#B_Header, B_Tune, B_Writter#} + replicate_mset (length (h3_elem hdr)) B_Elem + (if t3_dest tune = Null then {#} else {#B_Dest#})"
  shows "in_session heap d"
  unfolding in_session_def using assms by blast

lemma in_sessionE:
  assumes "in_session heap d"
  obtains ops p hdr tune where "d3_object d = Valid (Some (ops, p))" "d3_header d = Valid hdr" "d3_tune d = Valid tune" "p3_stop ops = usb3_stop"
    "d3_writter d = Valid ()" "t3_dest tune \<noteq> Dangling"
    "d3_heap d = heap + {#B_Header, B_Tune, B_Writter#} + replicate_mset (length (h3_elem hdr)) B_Elem + (if t3_dest tune = Null then {#} else {#B_Dest#})"
  using assms unfolding in_session_def by (elim exE conjE) (rule that)

lemma in_session_shared: "in_session heap d \<Longrightarrow> in_session heap ((v3_shared s d)\<lparr>d3_over := n\<rparr>)"
  by (elim in_sessionE, rule in_sessionI [where tune = "t\<lparr>t3_semw := a, t3_sems := b, t3_writting := c\<rparr>" for t a b c]) (simp_all add: v3_shared_def)

lemma free_elems_all: "v3_free_elems els (replicate_mset (length els) B_Elem + heap) = Some heap"
  by (induction els) (simp_all add: v3_free_def)

text \<open>Releasing a session gives every one of its blocks back, and nothing else.\<close>

lemma release_session:
  assumes "in_session heap d"
  shows "\<exists>x. v3_release d = Some (d\<lparr>d3_object := Valid (Some x), d3_header := Null, d3_tune := Null, d3_writter := Null, d3_over := None,
    d3_reader := freed (d3_reader d), d3_heap := heap\<rparr>)"
proof -
  obtain ops p hdr tune where d: "d3_object d = Valid (Some (ops, p))" "d3_header d = Valid hdr" "d3_tune d = Valid tune" "p3_stop ops = usb3_stop"
    "d3_writter d = Valid ()" "t3_dest tune \<noteq> Dangling"
    "d3_heap d = heap + {#B_Header, B_Tune, B_Writter#} + replicate_mset (length (h3_elem hdr)) B_Elem + (if t3_dest tune = Null then {#} else {#B_Dest#})"
    using assms by (rule in_sessionE)
  let ?heap = "replicate_mset (length (h3_elem hdr)) B_Elem + (heap + {#B_Header, B_Tune, B_Writter#})"
  have "v3_tune_end d = Some (d\<lparr>d3_object := Valid (Some (ops, p)), d3_tune := Valid (tune\<lparr>t3_dest := Null\<rparr>), d3_heap := ?heap\<rparr>)"
    using d(6) by (cases "t3_dest tune") (auto simp: v3_tune_end_def d v3_free_def)
  moreover have "v3_free_elems (h3_elem hdr) ?heap = Some (heap + {#B_Header, B_Tune, B_Writter#})"
    by (rule free_elems_all)
  ultimately show ?thesis
    by (intro exI [of _ "(ops, p)"]) (simp add: v3_release_def v3_tune_deinit_def v3_destroyelem_def v3_free_session_def v3_free_def d)
qed

lemma start_session:
  assumes "d3_object d = Valid (Some (usb3_ops fs size0 cfgv1, p))"
    and "v3_start e malloc_ok layout al elal junk (Some d) st = Some (V3_ERR_NONE, Some d1, st')"
  shows "in_session (d3_heap d) d1" and "d3_over d1 = Some 0" and "d3_reader d1 \<noteq> Dangling"
proof -
  from assms(2) have "in_session (d3_heap d) d1 \<and> d3_over d1 = Some 0 \<and> d3_reader d1 \<noteq> Dangling"
  proof (cases rule: start_cases)
    case (parsed r hd lib d0 perr d2 st1)
    then have p: "perr = V3_ERR_NONE" and c: "v3_checked (al 5) d2 st1 = Some (V3_ERR_NONE, d1, st')"
      by (auto simp: V3_ERR_PARSECFGERR_def V3_ERR_NONE_def)
    have "d3_object d0 = Valid (Some (usb3_ops fs size0 cfgv1, p))" "V3_ERR_NONE \<noteq> V3_ERR_NOTENOUGHSPACE"
      using assms(1) parsed(2) by (simp_all add: V3_ERR_NONE_def V3_ERR_NOTENOUGHSPACE_def)
    then obtain hdr q where d2: "d3_header d2 = Valid hdr" "d3_object d2 = Valid (Some (usb3_ops fs size0 cfgv1, q))"
        "d3_heap d2 = d3_heap d + {#B_Header, B_Tune, B_Writter#} + replicate_mset (length (h3_elem hdr)) B_Elem"
      using desc_parse_frame(4) [OF parsed(3) [unfolded p]] parsed(2) by auto
    have f: "d3_writter d2 = Valid ()" "d3_tune d2 = Valid zero_v3_tune" "d3_reader d2 = Null"
      using desc_parse_frame(1-3) [OF parsed(3)] parsed(2) by simp_all
    have "v3_launch (al 5) (d2\<lparr>d3_over := Some 0\<rparr>) = Some d1"
      using c by (auto simp: v3_checked_def bind_eq_Some_conv V3_ERR_NONE_def V3_ERR_MISMATCHPGSZ_def V3_ERR_NOTENOUGHSPACE_def split: if_splits)
    then have l: "d1 = d2\<lparr>d3_over := Some 0, d3_running := True, d3_object := Valid (Some (usb3_ops fs size0 cfgv1, q)),
        d3_tune := Valid (zero_v3_tune\<lparr>t3_semw := Some 1, t3_sems := Some 0, t3_dest := (if al 5 then Valid () else Null)\<rparr>),
        d3_heap := (if al 5 then add_mset B_Dest (d3_heap d2) else d3_heap d2), d3_reader := (if al 5 then Valid () else Null)\<rparr>"
      by (cases "al 5") (simp_all add: v3_launch_def v3_obj_start_def d2(2) f usb3_ops_def zero_v3_tune_def)
    have "in_session (d3_heap d) d1"
      by (rule in_sessionI [where ops = "usb3_ops fs size0 cfgv1" and p = q and hdr = hdr]) (auto simp: l d2 f usb3_ops_def split: if_splits)
    then show ?thesis
      by (simp add: l)
  qed (simp add: V3_ERR_OTHER_def V3_ERR_NONE_def)
  then show "in_session (d3_heap d) d1" and "d3_over d1 = Some 0" and "d3_reader d1 \<noteq> Dangling"
    by simp_all
qed

text \<open>
  (C18) After a start through the USB plugin that returned success, in every state \<open>s\<close> the threads can get into: while the
  writer runs, its semaphore is at zero and the stop does not return; when the writer has ended, the stop returns, every
  block the start has allocated has been freed and no other, the pointers are cleared and the semaphore
  is destroyed, and the descriptor can be closed and destroyed. The source thread is not waited for: if it still runs, its
  last access to the tune, defined before the stop, goes through a pointer to freed memory after it.
\<close>

theorem v3_session_released:
  assumes "d3_object d = Valid (Some (usb3_ops fs size0 cfgv1, p))"
    and "v3_start e malloc_ok layout al elal junk (Some d) st = Some (V3_ERR_NONE, Some d1, st')" and "d3_header d1 = Valid hdr"
    and "v3_reach e m wb (d3_scale d1) hdr pkg (v3_begin w start buf d1) s"
  shows "if v_wrun s then d3_over (v3_shared s d1) = Some 0 \<and> v3_stop (Some (v3_shared s d1)) = None
    else \<exists>d2 d3. v3_stop (Some (v3_shared s d1)) = Some (V3_ERR_NONE, Some d2) \<and> d3_heap d2 = d3_heap d \<and>
      d3_header d2 = Null \<and> d3_tune d2 = Null \<and> d3_writter d2 = Null \<and> d3_over d2 = None \<and> \<not> d3_running d2 \<and>
      d3_reader d2 = (if v_srun s then Dangling else Null) \<and> (v3_source_over (v3_shared s d1) \<noteq> None) = v_srun s \<and> v3_source_over d2 = None \<and>
      v3_close (Some d2) = Some (STO_ERR_NONE, Some d3) \<and> v3_destruct (Some d3) = (STO_ERR_NONE, None)"
proof -
  note d1 = start_session [OF assms(1,2)]
  have o: "v_over s = of_bool (\<not> v_wrun s)"
    using reach_over [OF assms(4)] by (simp add: v3_begin_def v3_init_def)
  have q: "v_srun s \<Longrightarrow> d3_reader d1 = Valid ()"
    using reach_srun [OF assms(4)] d1(3) by (cases "d3_reader d1") (simp_all add: v3_begin_def v3_init_def)
  show ?thesis
  proof (cases "v_wrun s")
    case True
    with o d1(2) show ?thesis
      by (simp add: v3_stop_def v3_tune_waitfinish_def v3_shared_def)
  next
    case False
    let ?d = "(v3_shared s d1)\<lparr>d3_over := Some 0\<rparr>"
    have w: "v3_tune_waitfinish (v3_shared s d1) = Some ?d"
      using False o d1(2) by (simp add: v3_tune_waitfinish_def v3_shared_def)
    have "in_session (d3_heap d) ?d"
      using d1(1) by (rule in_session_shared)
    then obtain x where r: "v3_release ?d = Some (?d\<lparr>d3_object := Valid (Some x), d3_header := Null, d3_tune := Null, d3_writter := Null, d3_over := None,
        d3_reader := freed (d3_reader ?d), d3_heap := d3_heap d\<rparr>)"
      using release_session by blast
    have "v_srun s \<Longrightarrow> v3_source_over (v3_shared s d1) \<noteq> None"
      using q d1(1) by (auto simp: v3_source_over_def v3_shared_def elim!: in_sessionE)
    moreover have "\<not> v_srun s \<Longrightarrow> v3_source_over (v3_shared s d1) = None"
      by (simp add: v3_source_over_def v3_shared_def)
    ultimately have a: "(v3_source_over (v3_shared s d1) \<noteq> None) = v_srun s"
      by (cases "v_srun s") simp_all
    have b: "v3_source_over d2 = None" if "d3_tune d2 = Null" for d2 :: "v3_usb v3_desc"
      using that by (simp add: v3_source_over_def bind_eq_None_conv)
    show ?thesis
      using False w r q unfolding a by (simp add: v3_stop_def b v3_close_def v3_destruct_def) (simp add: v3_shared_def)
  qed
qed


text \<open>
  (C40) After a start that found too little space on the flash, the abort is undefined: the tune and the header
  have been freed, but the descriptor still points to them.
\<close>

theorem v3_abort_after_no_space:
  assumes "v3_start e malloc_ok layout al elal junk (Some d) st = Some (V3_ERR_NOTENOUGHSPACE, desc, st')"
  shows "v3_abort desc = None"
  using assms
proof (cases rule: start_cases)
  case (parsed r hd lib d1 perr d2 st1)
  then obtain d3 where "v3_checked (al 5) d2 st1 = Some (V3_ERR_NOTENOUGHSPACE, d3, st')" "desc = Some d3"
    by (auto simp: V3_ERR_PARSECFGERR_def V3_ERR_NOTENOUGHSPACE_def)
  moreover have "d3_tune d2 = Valid zero_v3_tune"
    using desc_parse_frame(2) [OF parsed(3)] parsed(2) by simp
  ultimately have "d3_tune d3 = Dangling" "desc = Some d3"
    by (auto simp: v3_checked_def bind_eq_Some_conv V3_ERR_NONE_def V3_ERR_MISMATCHPGSZ_def V3_ERR_NOTENOUGHSPACE_def
        dest!: free_session_result split: if_splits)
  then show ?thesis
    by (auto simp: v3_abort_def v3_handler_def v3_release_def v3_tune_end_def bind_eq_None_conv split: prod.splits)
qed (simp add: V3_ERR_OTHER_def V3_ERR_NOTENOUGHSPACE_def)

text \<open>
  What else the calls get wrong: a descriptor that was closed cannot be opened again, because the object is
  gone; and the result of the handler for the configuration is the number of items, not of bytes.
\<close>

lemma v3_reopen_undefined:
  assumes "v3_close (Some d) = Some (err, Some d')" and "bit (d3_sources d) source" and "d3_sources d \<noteq> 0"
  shows "v3_open reg (source, cfg, scale) (Some d') = None"
  using assms by (auto simp: v3_close_def v3_open_def v3_object_init_def bind_eq_Some_conv bind_eq_None_conv)

lemma usb3_getcfg_counts_items:
  assumes "fs (u3_config p) = Some bs" and "u3_config p \<noteq> []" and "UPG_CONFIGV1_SIZE \<le> length bs" and "UPG_CONFIGV1_SIZE \<le> length buf"
  shows "fst (usb3_getcfg fs junk True p buf) = 1"
  using assms by (auto simp: usb3_getcfg_def Let_def UPG_CONFIGV1_SIZE_def)

subsection \<open>Witnesses\<close>

text \<open>The parser looks at the first 1024 bytes of its buffer only.\<close>

lemma v3_parts_prefix:
  assumes "take 1024 b = take 1024 b'" and "\<forall>i\<in>set is. i < 20"
  shows "v3_parts tell al b is eo base hdr = v3_parts tell al b' is eo base hdr"
  using assms(2)
proof (induction "is" arbitrary: eo base hdr)
  case (Cons i "is")
  have "i < 20"
    using Cons.prems by simp
  then have "le32 b (260 + i * 8 + 4) = le32 b' (260 + i * 8 + 4)" "le32 b (420 + i * 4) = le32 b' (420 + i * 4)"
    by (auto intro!: le32_prefix [OF assms(1)])
  moreover have "v3_parts tell al b is eo base hdr = v3_parts tell al b' is eo base hdr" for eo base hdr
    using Cons.IH Cons.prems by simp
  ultimately show ?case
    by (simp only: v3_parts.simps)
qed simp

lemma v3_parse_prefix:
  assumes "take 1024 b = take 1024 b'"
  shows "v3_parse_configv1 e malloc_ok layout elem_ok al junk nand cfg b hdr st = v3_parse_configv1 e malloc_ok layout elem_ok al junk nand cfg b' hdr st"
proof -
  have w: "le32 b i = le32 b' i" if "i + 4 \<le> 1024" for i
    using le32_prefix [OF assms that] .
  have "v3_fields cfg b hdr = v3_fields cfg b' hdr"
    by (simp add: v3_fields_def w)
  moreover have "v3_parts tell al b [0..<UPG_MAX_PARTS] eo base hdr = v3_parts tell al b' [0..<UPG_MAX_PARTS] eo base hdr" for tell eo base hdr
    by (rule v3_parts_prefix [OF assms]) (simp add: UPG_MAX_PARTS_def del: upt_rec_numeral)
  ultimately show ?thesis
    unfolding v3_parse_configv1_def by (simp only:)
qed

definition v3_api_fs :: "int \<Rightarrow> string \<Rightarrow> u8 list option" where
  "v3_api_fs u = [''c'' \<mapsto> v3_cfg u]"

definition v3_api_desc :: "int \<Rightarrow> v3_usb v3_desc" where
  "v3_api_desc u = zero_v3_desc\<lparr>d3_object := Valid (Some (usb3_ops (v3_api_fs u) 0 True, \<lparr>u3_config = ''c'', u3_pktname = [], u3_offset = 0\<rparr>)),
     d3_config := ''c''\<rparr>"

lemma v3_api_getcfg:
  assumes "p = \<lparr>u3_config = ''c'', u3_pktname = [], u3_offset = 0\<rparr>"
  shows "\<exists>buf. v3_getcfg_loop (usb3_getcfg (v3_api_fs u) 0 True) 6 p (replicate UPG_MAX_CFGLEN 0) = (1, buf, p) \<and> take 1024 buf = take 1024 (v3_cfg u)"
proof -
  define z :: "u8 list" where "z = replicate UPG_MAX_CFGLEN 0"
  have "length (v3_cfg u) = 1024"
    unfolding v3_cfg_def using put_fields_length [of "replicate 1024 0" "v3_words u"] v3_words_ok(1) [of u] by (simp only: length_replicate)
  moreover have "1024 \<le> length z"
    unfolding z_def length_replicate by (simp add: UPG_MAX_CFGLEN_def)
  ultimately have l: "length (v3_cfg u) = 1024" "1024 \<le> length z" "v3_api_fs u ''c'' = Some (v3_cfg u)"
    by (simp_all add: v3_api_fs_def)
  have g: "usb3_getcfg (v3_api_fs u) 0 True p z = (1, memcpy_at 0 (v3_cfg u) z, p)"
    using l by (simp add: usb3_getcfg_def assms Let_def UPG_CONFIGV1_SIZE_def)
  have "v3_getcfg_loop (usb3_getcfg (v3_api_fs u) 0 True) 6 p z = (1, memcpy_at 0 (v3_cfg u) z, p)"
    by (simp add: numeral_eq_Suc g)
  moreover have "take 1024 (memcpy_at 0 (v3_cfg u) z) = take 1024 (v3_cfg u)"
    using l by (simp add: memcpy_at_def)
  ultimately show ?thesis
    unfolding z_def by blast
qed

lemma v3_api_device:
  "nand_handle (si_lib v3_sys) = Some 0" "devs (si_lib v3_sys) 0 = Some (nand_dev\<lparr>dev_attr := Some v3_rows\<rparr>)"
  "0 < dev_open_cnt (nand_dev\<lparr>dev_attr := Some v3_rows\<rparr>)" "dev_open_cnt (nand_dev\<lparr>dev_attr := Some v3_rows\<rparr>) + 1 < 2 ^ 32"
  by (simp_all add: v3_sys_def nand_sys_def nand_dev_def demo_dev_def)

text \<open>
  The start with both configurations: the first is for some partitions, the second needs more than the flash has.
  After the second the elements of the list stay allocated, and nothing points to them any more.
\<close>

lemma v3_api_start:
  assumes "u = 0 \<or> u = 1"
  shows "\<exists>d. v3_start nand_env True [] (\<lambda>n. True) (\<lambda>n. True) [] (Some (v3_api_desc u)) v3_sys =
    Some (if u = 1 then V3_ERR_NOTENOUGHSPACE else V3_ERR_NONE, Some d, v3_sys) \<and>
    (if u = 1 then d3_header d = Dangling \<and> d3_heap d = replicate_mset 3 B_Elem
     else \<exists>hdr. d3_header d = Valid hdr \<and> h3_elem hdr \<noteq> [] \<and> h3_ubootfile_imgsz hdr = 0 \<and> d3_reader d = Valid () \<and> d3_error d = V3_ERR_NONE)"
proof -
  let ?dev = "nand_dev\<lparr>dev_attr := Some v3_rows\<rparr>"
  let ?p = "\<lparr>u3_config = ''c'', u3_pktname = [], u3_offset = 0\<rparr>"
  note s = v3_api_device
  define lib where "lib = (si_lib v3_sys)\<lparr>devs := (devs (si_lib v3_sys))(0 \<mapsto> ?dev\<lparr>dev_open_cnt := dev_open_cnt ?dev + 1\<rparr>)\<rparr>"
  define st where "st = v3_sys\<lparr>si_lib := lib\<rparr>"
  have o: "alislsto_open nand_env True STO_TYPE_NAND O_RDWR [] (si_lib v3_sys) = Some (STO_ERR_NONE, Some 0, lib)"
    using open_shared [OF s(1,2,4)] by (simp add: lib_def)
  have c: "v3_sto_close (Some 0) st = Some v3_sys"
    using close_shared [OF s(2-4), of v3_sys] by (simp add: lib_def st_def)
  have dev: "devs (si_lib st) 0 = Some (?dev\<lparr>dev_open_cnt := dev_open_cnt ?dev + 1\<rparr>)"
    by (simp add: st_def lib_def)
  have t: "v3_tell (Some 0) (si_lib st) i STO_PART_OFFSET = Some 524288" "v3_tell (Some 0) (si_lib st) i STO_PART_SIZE = Some 262144" if "i < 14" for i
    using that by (simp_all add: v3_tell_def dev alislsto_tell_ext_def nand_dev_def v3_rows_def to_uint32_def)
  have i: "v3_storage_info (Some 0) (si_lib st) = Some (Valid nand_info)"
    by (simp add: v3_storage_info_def dev alislsto_get_param_def nand_dev_def)
  obtain buf where g: "v3_getcfg_loop (usb3_getcfg (v3_api_fs u) 0 True) 6 ?p (replicate UPG_MAX_CFGLEN 0) = (1, buf, ?p)" "take 1024 buf = take 1024 (v3_cfg u)"
    using v3_api_getcfg [OF refl, of u] by blast
  obtain hdr where h0: "v3_parse_configv1 nand_env True [] True (\<lambda>n. True) [] (Some 0) ''c'' (v3_cfg u) v3_hdr0 st = Some (V3_ERR_NONE, hdr, st)"
    and m: "map e3_part_id (h3_elem hdr) = [1, 2, 3]" and h: "h3_mono hdr = (u = 1)" "h3_reqsz hdr = 524288" "h3_pagesz hdr = 0" "h3_ubootfile_imgsz hdr = 0"
    using v3_cfg_parses [OF t assms, of nand_env True "[]" "[]" "''c''"] by - (drule meta_mp, assumption, drule meta_mp, assumption, elim exE conjE, rule that)
  have l: "length (h3_elem hdr) = 3" "h3_elem hdr \<noteq> []"
    using arg_cong [OF m, of length] by auto
  have z: "zero_v3_header = v3_hdr0"
    by (simp add: zero_v3_header_def v3_hdr0_def)
  obtain q where p: "v3_parse_config nand_env True [] True True (\<lambda>n. True) [] (usb3_ops (v3_api_fs u) 0 True) ?p True (Some 0) ''c'' zero_v3_header st =
      Some (V3_ERR_NONE, hdr, q, st)"
    using h0 g unfolding v3_parse_prefix [OF g(2), symmetric] z
    by (simp add: v3_parse_config_def usb3_ops_def Let_def)
  let ?d = "(v3_api_desc u)\<lparr>d3_header := Valid zero_v3_header, d3_tune := Valid zero_v3_tune, d3_writter := Valid (),
    d3_heap := {#B_Header, B_Tune, B_Writter#}, d3_reader := Null, d3_nand := Some 0\<rparr>"
  obtain d2 where d2: "v3_desc_parse nand_env True [] (\<lambda>n. True) (\<lambda>n. True) [] ?d st = Some (V3_ERR_NONE, d2, st)" "d3_nand d2 = Some 0"
    "d3_header d2 = Valid hdr" "d3_object d2 = Valid (Some (usb3_ops (v3_api_fs u) 0 True, q))" "d3_tune d2 = Valid zero_v3_tune"
    "d3_writter d2 = Valid ()" "d3_reader d2 = Null" "d3_error d2 = V3_ERR_NONE" "d3_heap d2 = {#B_Header, B_Tune, B_Writter#} + replicate_mset 3 B_Elem"
    using p l(1) by (simp add: v3_desc_parse_def v3_api_desc_def zero_v3_desc_def V3_ERR_NONE_def V3_ERR_NOTENOUGHSPACE_def)
  have c1: "\<exists>d. v3_checked True d2 st = Some (V3_ERR_NOTENOUGHSPACE, d, v3_sys) \<and> d3_header d = Dangling \<and> d3_heap d = replicate_mset 3 B_Elem" if "u = 1"
    using that by (simp add: v3_checked_def d2 i h c v3_free_session_def v3_free_def) (simp add: nand_info_def)
  have c0: "\<exists>d. v3_checked True d2 st = Some (V3_ERR_NONE, d, v3_sys) \<and> d3_header d = Valid hdr \<and> d3_reader d = Valid () \<and> d3_error d = V3_ERR_NONE" if "u = 0"
    using that by (simp add: v3_checked_def d2 i h c v3_launch_def v3_obj_start_def usb3_ops_def zero_v3_tune_def) (simp add: nand_info_def)
  have a: "v3_alloc (\<lambda>n. True) (v3_api_desc u) = Inr (?d\<lparr>d3_nand := None\<rparr>)"
    by (simp add: v3_alloc_def Let_def v3_api_desc_def zero_v3_desc_def)
  have "v3_start nand_env True [] (\<lambda>n. True) (\<lambda>n. True) [] (Some (v3_api_desc u)) v3_sys =
      Option.bind (v3_checked True d2 st) (\<lambda>(err, d, st). Some (err, Some d, st))"
    using o d2(1) by (simp add: v3_start_def a Let_def st_def)
  then show ?thesis
    using c0 c1 h(4) l(2) assms by auto
qed

lemma no_space_leaks_elements:
  "\<exists>d. v3_start nand_env True [] (\<lambda>n. True) (\<lambda>n. True) [] (Some (v3_api_desc 1)) v3_sys = Some (V3_ERR_NOTENOUGHSPACE, Some d, v3_sys) \<and>
    d3_header d = Dangling \<and> d3_heap d = replicate_mset 3 B_Elem"
  using v3_api_start [of 1] by simp

text \<open>The threads of the first start when the package file is missing: the source reports the error and ends, and then the writer.\<close>

definition v3_api_writer :: "flash v3_writer" where
  "v3_api_writer = \<lparr>w3_sys = v3_sys, w3_nand = None, w3_elem_old = None, w3_shown = 0\<rparr>"

lemma v3_api_writer_runs:
  obtains w where "v3_writter_begin nand_env [] v3_api_writer = Some w"
    "\<And>hdr. h3_ubootfile_imgsz hdr = 0 \<Longrightarrow> \<exists>w'. v3_writter_end nand_env True True [] [] hdr V3_ERR_OTHER w = Some w'"
proof -
  note s = v3_api_device
  let ?dev = "nand_dev\<lparr>dev_attr := Some v3_rows\<rparr>"
  define lib where "lib = (si_lib v3_sys)\<lparr>devs := (devs (si_lib v3_sys))(0 \<mapsto> ?dev\<lparr>dev_open_cnt := dev_open_cnt ?dev + 1\<rparr>)\<rparr>"
  let ?w = "v3_api_writer\<lparr>w3_sys := v3_sys\<lparr>si_lib := lib\<rparr>, w3_nand := Some 0, w3_shown := 0\<rparr>"
  have "v3_writter_begin nand_env [] v3_api_writer = Some ?w"
    using open_shared [OF s(1,2,4)] by (simp add: v3_writter_begin_def v3_api_writer_def lib_def)
  moreover obtain r lib' where "alislsto_close (Some 0) lib = Some (r, lib')"
    using close_shared [OF s(2-4), of v3_sys] by (auto simp: lib_def v3_sto_close_def bind_eq_Some_conv)
  then have "\<exists>w'. v3_writter_end nand_env True True [] [] hdr V3_ERR_OTHER ?w = Some w'" if "h3_ubootfile_imgsz hdr = 0" for hdr
    using that by (simp add: v3_writter_end_def Let_def V3_ERR_OTHER_def V3_ERR_NONE_def)
  ultimately show ?thesis
    by (rule that)
qed

lemma v3_missing_file_run:
  assumes "h3_elem hdr \<noteq> []" and "d3_reader d = Valid ()" and "v3_writter_end e m wb [] [] hdr V3_ERR_OTHER w = Some w'"
  shows "\<exists>s. v3_reach e m wb scale hdr pkg (v3_begin w start buf d) s \<and> \<not> v_wrun s"
proof -
  let ?s0 = "v3_begin w start buf d"
  let ?s1 = "?s0\<lparr>v_err := V3_ERR_OTHER, v_sems := v_sems ?s0 + 1, v_srun := False, v_writting := False\<rparr>"
  let ?s2 = "?s1\<lparr>v_begun := True, v_pct := 0\<rparr>"
  let ?s3 = "?s2\<lparr>v_sems := v_sems ?s2 - 1, v_w := w', v_wrun := False, v_over := v_over ?s2 + 1\<rparr>"
  let ?step = "v3step e m wb scale hdr pkg"
  have "?step ?s0 ?s1"
    by (rule source_nofile) (simp_all add: v3_begin_def v3_init_def assms)
  moreover have "?step ?s1 ?s2"
    by (rule writer_begin) (simp_all add: v3_begin_def v3_init_def)
  moreover have "?step ?s2 ?s3"
    by (rule writer_stop) (use assms(3) in \<open>simp_all add: v3_begin_def v3_init_def V3_ERR_OTHER_def V3_ERR_NONE_def\<close>)
  ultimately have "?step\<^sup>*\<^sup>* ?s0 ?s3"
    by (meson converse_rtranclp_into_rtranclp rtranclp.rtrancl_refl)
  then show ?thesis
    by (rule_tac x = ?s3 in exI) simp
qed

theorem v3_start_keeps_storage_witness:
  "\<exists>d hdr. v3_start nand_env True [] (\<lambda>n. True) (\<lambda>n. True) [] (Some (v3_api_desc 0)) v3_sys = Some (V3_ERR_NONE, Some d, v3_sys) \<and>
    d3_header d = Valid hdr \<and> d3_nand d = Some 0 \<and> d3_running d"
proof -
  obtain d where s: "v3_start nand_env True [] (\<lambda>n. True) (\<lambda>n. True) [] (Some (v3_api_desc 0)) v3_sys = Some (V3_ERR_NONE, Some d, v3_sys)"
    using v3_api_start [of 0] by auto
  have o: "d3_object (v3_api_desc 0) = Valid (Some (usb3_ops (v3_api_fs 0) 0 (d3_cfgv1 (v3_api_desc 0)), \<lparr>u3_config = ''c'', u3_pktname = [], u3_offset = 0\<rparr>))"
    by (simp add: v3_api_desc_def zero_v3_desc_def)
  have "\<forall>bs. v3_api_fs 0 (u3_config \<lparr>u3_config = ''c'', u3_pktname = [], u3_offset = 0\<rparr>) = Some bs \<longrightarrow> le32 bs 196 = 0"
    by (simp add: v3_api_fs_def v3_cfg_head)
  from v3_start_keeps_storage [OF v3_api_device o this s] s show ?thesis
    by auto
qed

theorem v3_session_released_witness:
  "\<exists>d hdr w s d2. v3_start nand_env True [] (\<lambda>n. True) (\<lambda>n. True) [] (Some (v3_api_desc 0)) v3_sys = Some (V3_ERR_NONE, Some d, v3_sys) \<and>
    d3_header d = Valid hdr \<and> v3_writter_begin nand_env [] v3_api_writer = Some w \<and> v3_stop (Some (v3_shared (v3_begin w 0 [] d) d)) = None \<and>
    v3_reach nand_env True True (d3_scale d) hdr [] (v3_begin w 0 [] d) s \<and> \<not> v_wrun s \<and>
    v3_stop (Some (v3_shared s d)) = Some (V3_ERR_NONE, Some d2) \<and> d3_heap d2 = {#} \<and> d3_tune d2 = Null"
proof -
  obtain d hdr where s: "v3_start nand_env True [] (\<lambda>n. True) (\<lambda>n. True) [] (Some (v3_api_desc 0)) v3_sys = Some (V3_ERR_NONE, Some d, v3_sys)"
    and h: "d3_header d = Valid hdr" "h3_elem hdr \<noteq> []" "h3_ubootfile_imgsz hdr = 0" "d3_reader d = Valid ()"
    using v3_api_start [of 0] by auto
  obtain w w' where w: "v3_writter_begin nand_env [] v3_api_writer = Some w" "v3_writter_end nand_env True True [] [] hdr V3_ERR_OTHER w = Some w'"
    using v3_api_writer_runs h(3) by metis
  obtain s1 where r: "v3_reach nand_env True True (d3_scale d) hdr [] (v3_begin w 0 [] d) s1" "\<not> v_wrun s1"
    using v3_missing_file_run [OF h(2,4) w(2)] by blast
  have o: "d3_object (v3_api_desc 0) = Valid (Some (usb3_ops (v3_api_fs 0) 0 True, \<lparr>u3_config = ''c'', u3_pktname = [], u3_offset = 0\<rparr>))"
    "d3_heap (v3_api_desc 0) = {#}"
    by (simp_all add: v3_api_desc_def zero_v3_desc_def)
  have "v_wrun (v3_begin w 0 [] d)"
    by (simp add: v3_begin_def v3_init_def)
  then have "v3_stop (Some (v3_shared (v3_begin w 0 [] d) d)) = None"
    using v3_session_released [OF o(1) s h(1) rtranclp.rtrancl_refl] by simp
  moreover obtain d2 where "v3_stop (Some (v3_shared s1 d)) = Some (V3_ERR_NONE, Some d2)" "d3_heap d2 = {#}" "d3_tune d2 = Null"
    using v3_session_released [OF o(1) s h(1) r(1)] r(2) o(2) by auto
  ultimately show ?thesis
    using s h(1) w(1) r by blast
qed

theorem v3_abort_after_no_space_witness:
  "\<exists>d. v3_start nand_env True [] (\<lambda>n. True) (\<lambda>n. True) [] (Some (v3_api_desc 1)) v3_sys = Some (V3_ERR_NOTENOUGHSPACE, Some d, v3_sys) \<and>
    v3_abort (Some d) = None"
proof -
  obtain d where s: "v3_start nand_env True [] (\<lambda>n. True) (\<lambda>n. True) [] (Some (v3_api_desc 1)) v3_sys = Some (V3_ERR_NOTENOUGHSPACE, Some d, v3_sys)"
    using v3_api_start [of 1] by auto
  with v3_abort_after_no_space [OF s] show ?thesis
    by blast
qed

end
