(* ===== verification/Spec2Isabelle.thy ===== *)
theory Spec2Isabelle
  imports Upgrade_Net Carousel_Roundtrip Upgrade_V3_Api
begin

text \<open>
  \<^bold>\<open>Firmware upgrade and flash storage of the ALi set-top-box platform.\<close>

  The repository is the user-space platform library of a set-top box. This development models
  the part of it that can destroy a box: the path of a firmware image from the packing tool
  over the broadcast carousel and the upgrade library to the flash.

  \<^bold>\<open>The program.\<close> A packing tool (\<open>lib/libalislupgrade_v4/ALiUpgPackTool\<close>) puts the images of
  the partitions behind a header, inserts a check sum behind every piece and divides the file
  into the modules and sections of a DSM-CC data carousel. On the box the over-the-air plugin
  (\<open>plugins/ota\<close>) collects the sections (\<open>lib_ota_dbc.c\<close>, \<open>lib_ota.c\<close>), checks the pieces and
  hands their bytes to the upgrade library (\<open>aliota.c\<close>), which parses the header
  (\<open>alislupgradeparser.c\<close>) and moves the images buffer by buffer from a source thread to a writer
  thread (\<open>writter.c\<close>). Two more plugins read the package from a file (\<open>plugins/usb\<close>) or download it
  through a ring buffer (\<open>plugins/net\<close>). The writer opens, erases and writes the partitions with the storage
  library (\<open>lib/libalislstorage\<close>), which hides bad blocks and shares open devices. Version 3 of the upgrade
  library writes NAND flashes with a page map index: it keeps its status in a record of the system
  information library (\<open>lib/libalislsysinfo\<close>) and rewrites the partition table of the index at the end.

  \<^bold>\<open>Theories.\<close>
  \<^item> \<open>Prelude\<close>: words, C conversions, \<open>memcpy\<close>, simp collections.
  \<^item> \<open>FastCRC\<close> (\<open>fastCRC.c\<close>): the bitwise and the table-driven check sum, coder and decoder;
    they agree, a coded frame is accepted and bursts of up to four bytes are detected.
    Locale \<open>msb_crc\<close>.
  \<^item> \<open>Flash_Device\<close> (\<open>alislstorage.c\<close>: descriptor, bad block map, address translation, seeks).
    The translation is an order-preserving bijection onto the good blocks, kept when a block
    turns bad. Locale \<open>address_map\<close>.
  \<^item> \<open>Storage\<close> (\<open>alislstorage.c\<close>: read, write, write without erase, erase, locked access). Transfers
    store and return exactly the bytes of the good blocks. Locale \<open>byte_store\<close>. The kernel driver
    is the record \<open>mtd_driver\<close>; \<open>mtd_laws\<close> states what a flash driver does.
  \<^item> \<open>Mtd_Table\<close>, \<open>Storage_Ctl\<close> (\<open>alislstorage.c\<close>, \<open>alislstorageparser.c\<close>: \<open>/proc/mtd\<close>, open and
    close, page map index, layout map, controls) on the library state \<open>sto_lib\<close>; the system is the
    record \<open>sto_env\<close>. The partition list is what the kernel prints; handles are shared and
    counted, and the last close frees the device. Locale \<open>shared_handles\<close>.
  \<^item> \<open>Dsmcc\<close>, \<open>Ota\<close> (\<open>lib_ota_dbc.c\<close>, \<open>lib_ota.c\<close>, versions 3 and 4): message parsers, section
    callbacks, download commands, memory layout. Blocks may arrive in any order and repeatedly;
    a module is finished exactly when all have arrived. Locale \<open>block_collector\<close>. The
    demultiplexer is the record \<open>dmx_env\<close>: the sections it delivers and its return codes.
  \<^item> \<open>PackTool\<close>, \<open>Ota_Carousel\<close>, \<open>Ota_Download\<close>, \<open>Carousel_Roundtrip\<close> (the tool's \<open>aliota.cpp\<close> against
    the receiver): what the tool sends the version 3 receiver reassembles; version 4 rejects it.
  \<^item> \<open>Ota_Piece\<close> (\<open>aliota.c\<close>): the download thread and the reader as the step relation \<open>pstep\<close>; the
    reader gets checked pieces in order, unless the first piece fails, and the buffer has one user at a
    time; the states in which neither thread can step are listed.
  \<^item> \<open>Package\<close> (\<open>aliupgpacktool.cpp\<close>, \<open>alislupgrade.h\<close>): header, images, inserted check sums.
  \<^item> \<open>Upgrade\<close> (\<open>alislupgrade.c\<close>, \<open>alislupgradeparser.c\<close>, \<open>object.c\<close>, \<open>tune.c\<close>): descriptor, plugin
    handlers, header parser; a generated package parses back.
  \<^item> \<open>Upgrade_Writer\<close> (\<open>writter.c\<close> and the source loop of \<open>aliota.c\<close>): the two threads as the step
    relation \<open>ustep\<close>; what opening, erasing and writing do to a partition.
  \<^item> \<open>Upgrade_Run\<close>: the invariant of the two threads, progress and completion of an upgrade.
  \<^item> \<open>Upgrade_File\<close> (the source loop shared by \<open>usb.c\<close> and \<open>net.c\<close>): an upgrade whose source seeks and
    reads the package is an upgrade from a stream. Locales \<open>offset_reader\<close> (what is read is right)
    and \<open>complete_reader\<close> (and no read fails).
  \<^item> \<open>Upgrade_Usb\<close> (\<open>usb.c\<close>): the package on a stick, read from the file or from memory; both readers
    are complete.
  \<^item> \<open>Net_Cache\<close> (\<open>net_interface.c\<close>): the ring between libcurl and the plugin. It refines a queue of
    bytes, except that a read over the end of an exactly full ring leaves the buffer; the two
    threads never wait for each other.
  \<^item> \<open>Net_Config\<close> (\<open>net.c\<close>): URLs, version numbers and the configuration file, with the heap bytes that are read
    behind its buffer.
  \<^item> \<open>Upgrade_Net\<close> (\<open>net.c\<close>): the source thread and the handlers; piecewise upgrades store only bytes of
    the package as long as the ring is not read over its end, one-shot upgrades complete. The run behind such an
    overrun is part of the relation \<open>net_step_any\<close>, with arbitrary bytes.
  \<^item> \<open>Sysinfo\<close> (\<open>lib/libalislsysinfo\<close>): the records of the private area (MAC address, upgrade status,
    extension), found through the page map index and moved by the locked transfers of the storage
    library. A call does not disturb a transfer of the writer; a record is read back when its place
    was erased and it is whole pages, is refused by the flash when it is not whole pages, and loses bits when its place was not erased.
  \<^item> \<open>Upgrade_V3\<close> (\<open>lib/libalislupgrade_v3\<close>: \<open>alislupgradeparser.c\<close>, \<open>info.c\<close>): the elements of a package of
    version 3, their places in the package and on the flash, and the partition table they are
    written to; the storage library reads back the layout that the table was given.
  \<^item> \<open>Upgrade_V3_Writer\<close> (\<open>writter.c\<close> of version 3): what the writer does to the flash for a sequence of buffers
    and at its end. The images of a package for the whole flash are stored at their places; an image as
    large as its partition loses its first buffer, a buffer that is not whole pages is lost, and the flag of the boot
    loader is not switched.
  \<^item> \<open>Upgrade_V3_Run\<close> (\<open>writter.c\<close>, \<open>usb.c\<close> of version 3): the two threads as the step relation \<open>v3step\<close>. The
    writer handles a prefix of the buffers in order; a run that has handled all leaves the package and
    its partition table on the flash; the last buffer may be lost.
  \<^item> \<open>Upgrade_V3_Api\<close> (\<open>alislupgrade.c\<close>, \<open>object.c\<close>, \<open>tune.c\<close> and the handlers of \<open>usb.c\<close> of version 3): the public calls
    on the descriptor, its pointers and the heap of the blocks they lead to, tied to the states of the two threads. A start
    leaves the storage library as it was; a stop returns when the writer has ended and frees every block of the
    session, while the source may still use the tune; an abort after a start without enough space uses freed memory.
  \<^item> this theory: from the packing tool to the flash.

  \<^bold>\<open>Conventions.\<close> The target is a 32-bit machine; conversions are written out on \<open>int\<close>. An outer
  \<open>None\<close> is undefined behaviour (an access outside a buffer, a null or freed pointer, a division by
  zero) or a loop that does not return; return codes are values. Loops are total functions with a
  measure, or \<open>partial_function (option)\<close> where they may not end. Allocations and system calls are
  answered by parameters. A thread is a program counter and its locals; one step is what it does
  between two waits, and polling a semaphore with \<open>sem_getvalue\<close> and \<open>sem_wait\<close> is one wait. The
  threads of the network ring are interleaved by the lists of blocks that arrive before each access.

  \<^bold>\<open>Bounds.\<close> No fuel is used. The hypotheses name the sizes at which the code is right: transfers
  inside the device, images that fit the good blocks, packages below 2 GB, images of whole
  128-byte units for the progress counter, images of whole pages for version 3, open counts that do not
  reach 2^32. The end-to-end theorems of version 4 are about partitions other than \<open>boot\<close>, \<open>bootbak\<close> and \<open>sflash\<close>,
  where the writer keeps old boot parameters, and about erasures that succeed.

  \<^bold>\<open>Not modelled.\<close> Mutexes inside the storage library (each call is one step), the progress
  callback, debug output, the transport stream packets of the packing tool and its configuration
  files, libcurl and the certificates of HTTPS connections, the network and over-the-air
  threads of version 3 (the older text of the modelled ones), and the other libraries
  of the platform (demultiplexer, decoders, display, sound, HDMI, input, smart card), which mostly
  pass structures to kernel drivers.
\<close>

subsection \<open>From the packing tool to the flash\<close>

text \<open>
  The elements that the library parses from a package cut its data into the images of the
  packing tool.
\<close>

lemma sel_start_of:
  assumes "\<forall>x\<in>set sels. sel_ok x" "j \<le> length sels"
  shows "int (start_of (sel_elems sels) j) = sel_len (take j sels)"
proof -
  have "int (sum_list (map img_len els)) = sum_list (map img_size els)" if "\<forall>el\<in>set els. 0 \<le> img_size el" for els
    using that by (induction els) (auto simp: img_len_def)
  moreover have "\<forall>el\<in>set (take j (sel_elems sels)). 0 \<le> img_size el"
    using sel_take(2)[OF assms(1)] by (auto simp: sel_elems_def sel_elem_def dest!: in_set_takeD)
  ultimately show ?thesis
    using sel_elems_sizes[OF assms(2)] by (simp add: start_of_def)
qed

lemma package_images:
  assumes "gen_package mainver upgver bootver down nand nor = Some pkg" "sels = selected nand nor"
    and "\<forall>x\<in>set sels. sel_ok x" "int HEADER_SIZE + sel_len sels < 2 ^ 31" "- (2 ^ 31) \<le> down" "down < 2 ^ 31"
  shows "start_of (sel_elems sels) (length sels) = length pkg - HEADER_SIZE" "start_of (sel_elems sels) (length sels) < 2 ^ 32"
    "j < length sels \<Longrightarrow> image_of (sel_elems sels) (drop HEADER_SIZE pkg) j = image_data (fst (sels ! j)) (snd (sels ! j))"
proof -
  note sl = package_slice[OF assms]
  have tot: "int (start_of (sel_elems sels) (length sels)) = sel_len sels" using sel_start_of[OF assms(3) order_refl] by simp
  show "start_of (sel_elems sels) (length sels) = length pkg - HEADER_SIZE" using tot sl(1) by linarith
  show "start_of (sel_elems sels) (length sels) < 2 ^ 32" using tot assms(4) by simp
  assume j: "j < length sels"
  have "nat (int HEADER_SIZE + sel_len (take j sels)) = HEADER_SIZE + start_of (sel_elems sels) j"
    using sel_start_of[OF assms(3), of j] j by simp
  with sl(2)[OF j] show "image_of (sel_elems sels) (drop HEADER_SIZE pkg) j = image_data (fst (sels ! j)) (snd (sels ! j))"
    using j by (simp add: image_of_def img_len_def sel_elem_def add.commute)
qed

lemma sel_aligned:
  assumes "\<forall>x\<in>set sels. sel_ok x" "sels \<noteq> []" "\<forall>x\<in>set sels. 128 dvd image_len (fst x) (snd x)"
  shows "aligned (sel_elems sels)"
proof -
  have "128 dvd img_len (sel_elems sels ! j)" if j: "j < length sels" for j
  proof -
    have "128 dvd image_len (fst (sels ! j)) (snd (sels ! j))" using assms(3) j by simp
    then show ?thesis using sel_take(2)[OF assms(1) j] j by (auto simp: img_len_def sel_elem_def nat_mult_distrib)
  qed
  then show ?thesis using assms(2) by (auto simp: aligned_def sel_elems_def)
qed

text \<open>The file itself is what the sources that read by offset need.\<close>

lemma package_file_ok:
  assumes "gen_package mainver upgver bootver down nand nor = Some pkg" "sels = selected nand nor"
    and "\<forall>x\<in>set sels. sel_ok x" "int HEADER_SIZE + sel_len sels < 2 ^ 31" "- (2 ^ 31) \<le> down" "down < 2 ^ 31"
  shows "file_ok (sel_elems sels) pkg"
proof -
  note len = package_slice(1)[OF assms] and st = package_images(1)[OF assms]
  have "contiguous (sel_elems sels)"
    using sel_start_of[OF assms(3)] by (simp add: contiguous_def sel_elem_def)
  moreover have "HEADER_SIZE \<le> length pkg" using len sel_data_length(2)[OF assms(3)] by linarith
  ultimately show ?thesis using st len assms(4) by (simp add: file_ok_def)
qed

text \<open>
  (C1) A package that the packing tool generated, whose images are whole 128-byte units, is
  accepted by the library, and when an upgrade with the elements parsed from its header and
  the bytes behind the header ends without an error, every selected partition holds, at its
  first good addresses, the image the tool made of its file. The partitions are others than
  \<open>boot\<close>, \<open>bootbak\<close> and \<open>sflash\<close>, which the writer treats differently, and no erasure fails.
\<close>

theorem package_reaches_flash:
  assumes "gen_package mainver upgver bootver down nand nor = Some pkg" and "sels = selected nand nor"
    and "\<forall>x\<in>set sels. sel_ok x" and "int HEADER_SIZE + sel_len sels < 2 ^ 31" and "- (2 ^ 31) \<le> down" and "down < 2 ^ 31"
    and "partinfo_list lib \<noteq> []" and "\<forall>j. al j"
    and "\<forall>x\<in>set sels. part_holds (partinfo_list lib) (partName (snd x)) (image_len (fst x) (snd x))"
    and "sels \<noteq> []" and "\<forall>x\<in>set sels. 128 dvd image_len (fst x) (snd x)" and "elems d = []"
    and "upg_plan_ok e (sel_elems sels) ts (partinfo_list lib)" and "lib_start (sel_elems sels) ts (partinfo_list lib) lib"
  shows "\<exists>d'. upgrade_parse_header e True al (take HEADER_SIZE pkg) d lib = Some (ALISLUPG_ERR_NONE, d', lib) \<and>
    (\<forall>s. (ustep e scale (elems d'))\<^sup>*\<^sup>* (upg_init lib (length pkg - HEADER_SIZE) (drop HEADER_SIZE pkg)) s \<longrightarrow>
       d_error s = ALISLUPG_ERR_NONE \<longrightarrow> \<not> w_run s \<longrightarrow>
       (\<forall>j<length sels. holds (ts j) (w_lib (writer s)) (image_data (fst (sels ! j)) (snd (sels ! j)))))"
proof -
  let ?els = "sel_elems sels" and ?data = "drop HEADER_SIZE pkg"
  obtain d' where d': "upgrade_parse_header e True al (take HEADER_SIZE pkg) d lib = Some (ALISLUPG_ERR_NONE, d', lib)" "elems d' = ?els"
    using package_header_parses[OF assms(1-9), of e d] assms(12) by auto
  note im = package_images[OF assms(1-6)]
  have al: "aligned ?els" by (rule sel_aligned[OF assms(3,10,11)])
  have "holds (ts j) (w_lib (writer s)) (image_data (fst (sels ! j)) (snd (sels ! j)))"
    if r: "(ustep e scale ?els)\<^sup>*\<^sup>* (upg_init lib (length pkg - HEADER_SIZE) ?data) s" "d_error s = ALISLUPG_ERR_NONE" "\<not> w_run s"
      and j: "j < length sels" for s j
  proof -
    have "start_of ?els (length ?els) \<le> length ?data" using im(1) by simp
    from finished_holds[OF assms(13,14) al this, of scale s j] show ?thesis
      using r j im by simp
  qed
  then show ?thesis using d' by auto
qed

text \<open>
  (C2) The same over USB, from the file to the flash: with the package of the tool on the stick and
  the USB plugin registered, the library parses the header out of the file, and every upgrade
  with the parsed elements, piece by piece or from memory, meets no error, has a step to take
  as long as the writer runs, comes nearer to its end with every step and leaves the tool's
  images on the flash. The images are whole 128-byte units for partitions other than \<open>boot\<close>,
  \<open>bootbak\<close> and \<open>sflash\<close>, and no erasure fails.
\<close>

theorem usb_package_reaches_flash:
  assumes "gen_package mainver upgver bootver down nand nor = Some pkg" and "sels = selected nand nor"
    and "\<forall>x\<in>set sels. sel_ok x" and "int HEADER_SIZE + sel_len sels < 2 ^ 31" and "- (2 ^ 31) \<le> down" and "down < 2 ^ 31"
    and "partinfo_list lib \<noteq> []" and "\<forall>j. al j"
    and "\<forall>x\<in>set sels. part_holds (partinfo_list lib) (partName (snd x)) (image_len (fst x) (snd x))"
    and "sels \<noteq> []" and "\<forall>x\<in>set sels. 128 dvd image_len (fst x) (snd x)"
    and "upg_plan_ok e (sel_elems sels) ts (partinfo_list lib)" and "lib_start (sel_elems sels) ts (partinfo_list lib) lib"
    and "usb_obj_register UPG_USB m cfg create_ok malloc (Some pkg) u0 = Some (ops, u)" and "cfg \<noteq> []"
    and "elems d = []" and "object d = Some (Some ops)" and "plugin d = u" and "usb_package m pkg u1"
  shows "\<exists>d'. upgrade_parse_config e al d lib = Some (ALISLUPG_ERR_NONE, d', lib) \<and> elems d' = sel_elems sels \<and>
    (\<forall>u' s. (usb_step m pkg e scale (elems d'))\<^sup>*\<^sup>* (usb_begin m True True (int (length pkg)) (u1, upg_init lib 0 [])) (u', s) \<longrightarrow>
       d_error s = ALISLUPG_ERR_NONE \<and> (w_run s \<longrightarrow> (\<exists>y. usb_step m pkg e scale (elems d') (u', s) y)) \<and>
       (\<forall>u'' s'. usb_step m pkg e scale (elems d') (u', s) (u'', s') \<longrightarrow> work (elems d') s' < work (elems d') s) \<and>
       (\<not> w_run s \<longrightarrow> (\<forall>j<length sels. holds (ts j) (w_lib (writer s)) (image_data (fst (sels ! j)) (snd (sels ! j))))))"
proof -
  note fo = package_file_ok[OF assms(1-6)] and im = package_images(3)[OF assms(1-6)]
  have "HEADER_SIZE \<le> length pkg" using file_header[OF fo] by simp
  then have get: "f_getcfg ops u HEADER_SIZE = Some (1, take HEADER_SIZE pkg, u)" "f_setpktname ops = usb_obj_setpktname"
    using usb_getcfg_header[of u pkg] assms(14,15) by (auto simp: usb_obj_register_def Let_def)
  have al: "al 0" "al 1" "\<forall>j. (\<lambda>i. al (2 + i)) j" using assms(8) by simp_all
  obtain d1 where d1: "upgrade_parse_header e True (\<lambda>i. al (2 + i)) (take HEADER_SIZE pkg) (d\<lparr>plugin := u\<rparr>) lib = Some (ALISLUPG_ERR_NONE, d1, lib)"
    "elems d1 = sel_elems sels"
    using package_header_parses[OF assms(1-7) al(3) assms(9), of e "d\<lparr>plugin := u\<rparr>"] assms(16) by auto
  let ?d = "d1\<lparr>plugin := usb_obj_setpktname (config d1) (plugin d1)\<rparr>"
  have p: "upgrade_parse_config e al d lib = Some (ALISLUPG_ERR_NONE, ?d, lib)" "elems ?d = sel_elems sels"
    using d1 get assms(17,18) al by (simp_all add: upgrade_parse_config_def)
  note r = usb_runs[OF assms(12,13) sel_aligned[OF assms(3,10,11)] fo assms(19)]
  show ?thesis
    using p r(1-3) r(5) im by (intro exI[of _ ?d]) auto
qed

text \<open>A package with one kernel image of three bytes, for a flash of two 128 KB blocks whose second block is bad.\<close>

definition pack_info :: mtd_info where
  "pack_info = \<lparr>info_type = MTD_NANDFLASH, info_size = 262144, info_erasesize = 131072, info_writesize = 2048\<rparr>"

definition pack_drv :: "flash mtd_driver" where
  "pack_drv = sim_drv\<lparr>memgetinfo := \<lambda>k. (0, pack_info),
     memgetbadblock := \<lambda>k a. if a < 0 \<or> 262144 \<le> a then -1 else if fl_bad k (a div 131072) then 1 else 0\<rparr>"

definition pack_env :: "flash sto_env" where
  "pack_env = (demo_env None)\<lparr>env_drv := \<lambda>m. pack_drv\<rparr>"

definition pack_parts :: "partinfo list" where
  "pack_parts = [\<lparr>part_name = ''boot'', part_index = 0, part_size = 262144\<rparr>, \<lparr>part_name = ''kernel'', part_index = 1, part_size = 262144\<rparr>]"

definition pack_nand :: "flash_part list" where
  "pack_nand = [\<lparr>partSelect = True, partName = ''kernel'', partSize = 200000, partFile = [1, 2, 3]\<rparr>]"

definition pack_target :: "nat \<Rightarrow> flash target" where
  "pack_target j = \<lparr>tg_part = 1, tg_ab = (\<lambda>k. k), tg_info = pack_info, tg_bad = (\<lambda>b. b = 1)\<rparr>"

lemma pack_selected: "selected pack_nand [] = [(131072, hd pack_nand)]"
  by (simp add: selected_def pack_nand_def ALIGN_128KB_def)

lemma pack_image: "image_len 131072 (hd pack_nand) = 131072" "partName (hd pack_nand) = ''kernel''" "0 \<le> partSize (hd pack_nand)"
  by (simp_all add: pack_nand_def image_len_def partFileAlignSize_def align_def)

definition pack_elems :: "upg_elem list" where
  "pack_elems = sel_elems (selected pack_nand [])"

lemma pack_elems_facts: "length pack_elems = 1" "img_len (pack_elems ! 0) = 131072" "elem_name (pack_elems ! 0) = ''kernel''"
  by (simp_all add: pack_elems_def sel_elem_def pack_selected pack_image img_len_def)

lemma pack_room: "131072 \<le> length (live_from pack_info (\<lambda>b. b = 1) 0)"
  using live_from_good[of pack_info 0 "\<lambda>b. b = 1" 131072] by (simp add: pack_info_def info_ok_def live_def)

lemma pack_target_ok: "target_ok pack_env (\<lambda>k. k) pack_info (\<lambda>b. b = 1) pack_parts (pack_elems ! 0) 1"
proof -
  have "unit_ok pack_info 131072" "info_ok pack_info" "erase_never_fails pack_drv (\<lambda>k. k) pack_info zero_dev"
    "info_size pack_info = 262144" "info_erasesize pack_info = 131072" "mtd_laws pack_drv (\<lambda>k. k) pack_info"
    by (simp_all add: unit_ok_def info_ok_def erase_never_fails_def erase_unit_def pack_info_def pack_drv_def sim_drv_def zero_dev_def
        STO_ERASE_TYPE_SECTOR_def mtd_laws_def driver_laws)
  moreover have "memgetinfo pack_drv k = (0, pack_info)" for k by (simp add: pack_drv_def)
  moreover have "\<exists>p. find_part ''kernel'' pack_parts = Some (1, p) \<and> part_size p = 262144" by (simp add: pack_parts_def find_part_def)
  ultimately show ?thesis
    using pack_room by (simp add: target_ok_def pack_elems_facts pack_env_def demo_env_def STO_INVALID_HANDLE_def)
qed

lemma pack_plan:
  "upg_plan_ok pack_env pack_elems pack_target pack_parts"
  "lib_start pack_elems pack_target pack_parts (demo_lib pack_parts [None, None])"
  "aligned pack_elems"
proof -
  have "alloc_ok pack_env" by (simp add: alloc_ok_def pack_env_def demo_env_def)
  then show "upg_plan_ok pack_env pack_elems pack_target pack_parts"
    using pack_target_ok by (simp add: upg_plan_ok_def pack_elems_facts pack_target_def lessThan_Suc)
  show "lib_start pack_elems pack_target pack_parts (demo_lib pack_parts [None, None])"
    by (simp add: lib_start_def pack_elems_facts pack_target_def demo_lib_def sim_flash_def)
  have "pack_elems \<noteq> []" using pack_elems_facts(1) by auto
  then show "aligned pack_elems" by (simp add: aligned_def pack_elems_facts)
qed

definition usb_idle :: usb where
  "usb_idle = \<lparr>usb_buf = None, usb_off = 0, u_config = [], u_pktname = [], u_percent = 0\<rparr>"

lemma pack_facts:
  "\<exists>pkg. gen_package 1 0 0 2 pack_nand [] = Some pkg"
  "\<forall>x\<in>set (selected pack_nand []). sel_ok x"
  "int HEADER_SIZE + sel_len (selected pack_nand []) < 2 ^ 31"
  "- (2 ^ 31) \<le> (2 :: int)" "(2 :: int) < 2 ^ 31"
  "partinfo_list (demo_lib pack_parts [None, None]) \<noteq> []"
  "\<forall>j :: nat. (\<lambda>j. True) j"
  "\<forall>x\<in>set (selected pack_nand []). part_holds (partinfo_list (demo_lib pack_parts [None, None])) (partName (snd x)) (image_len (fst x) (snd x))"
  "selected pack_nand [] \<noteq> []"
  "\<forall>x\<in>set (selected pack_nand []). 128 dvd image_len (fst x) (snd x)"
  "elems (zero_desc ()) = []"
  "upg_plan_ok pack_env (sel_elems (selected pack_nand [])) pack_target (partinfo_list (demo_lib pack_parts [None, None]))"
  "lib_start (sel_elems (selected pack_nand [])) pack_target (partinfo_list (demo_lib pack_parts [None, None])) (demo_lib pack_parts [None, None])"
  "aligned (sel_elems (selected pack_nand []))"
proof -
  have pl: "partinfo_list (demo_lib pack_parts [None, None]) = pack_parts" "pack_parts \<noteq> []" by (simp_all add: demo_lib_def pack_parts_def)
  show "\<exists>pkg. gen_package 1 0 0 2 pack_nand [] = Some pkg"
    by (simp add: gen_package_def gen_header_def pack_nand_def c_name_def MAX_PART_def MAX_PART_NAME_LEN_def Let_def)
  show "\<forall>x\<in>set (selected pack_nand []). sel_ok x" by (simp add: pack_selected pack_image sel_ok_def MAX_PART_NAME_LEN_def)
  show "int HEADER_SIZE + sel_len (selected pack_nand []) < 2 ^ 31" by (simp add: pack_selected pack_image HEADER_SIZE_def)
  show "\<forall>x\<in>set (selected pack_nand []). part_holds (partinfo_list (demo_lib pack_parts [None, None])) (partName (snd x)) (image_len (fst x) (snd x))"
    unfolding pl by (simp add: pack_selected pack_image part_holds_def pack_parts_def find_part_def)
  show "upg_plan_ok pack_env (sel_elems (selected pack_nand [])) pack_target (partinfo_list (demo_lib pack_parts [None, None]))"
    "lib_start (sel_elems (selected pack_nand [])) pack_target (partinfo_list (demo_lib pack_parts [None, None])) (demo_lib pack_parts [None, None])"
    "aligned (sel_elems (selected pack_nand []))"
    using pack_plan unfolding pack_elems_def pl(1) by simp_all
  show "partinfo_list (demo_lib pack_parts [None, None]) \<noteq> []" using pl by simp
qed (simp_all add: pack_selected pack_image zero_desc_def)

theorem package_reaches_flash_witness:
  "\<exists>pkg d' s. gen_package 1 0 0 2 pack_nand [] = Some pkg \<and>
     upgrade_parse_header pack_env True (\<lambda>j. True) (take HEADER_SIZE pkg) (zero_desc ()) (demo_lib pack_parts [None, None]) =
       Some (ALISLUPG_ERR_NONE, d', demo_lib pack_parts [None, None]) \<and>
     (ustep pack_env 10 (elems d'))\<^sup>*\<^sup>* (upg_init (demo_lib pack_parts [None, None]) (length pkg - HEADER_SIZE) (drop HEADER_SIZE pkg)) s \<and>
     \<not> w_run s \<and> holds (pack_target 0) (w_lib (writer s)) (image_data 131072 (hd pack_nand))"
proof -
  let ?sels = "selected pack_nand []" and ?lib = "demo_lib pack_parts [None, None]"
  note f = pack_facts
  obtain pkg where pkg: "gen_package 1 0 0 2 pack_nand [] = Some pkg" using f(1) by blast
  obtain d' where d': "upgrade_parse_header pack_env True (\<lambda>j. True) (take HEADER_SIZE pkg) (zero_desc ()) ?lib = Some (ALISLUPG_ERR_NONE, d', ?lib)"
    and fin: "\<forall>s. (ustep pack_env 10 (elems d'))\<^sup>*\<^sup>* (upg_init ?lib (length pkg - HEADER_SIZE) (drop HEADER_SIZE pkg)) s \<longrightarrow>
       d_error s = ALISLUPG_ERR_NONE \<longrightarrow> \<not> w_run s \<longrightarrow>
       (\<forall>j<length ?sels. holds (pack_target j) (w_lib (writer s)) (image_data (fst (?sels ! j)) (snd (?sels ! j))))"
    using package_reaches_flash[OF pkg refl f(2-13), of 10] by blast
  obtain d2 where "upgrade_parse_header pack_env True (\<lambda>j. True) (take HEADER_SIZE pkg) (zero_desc ()) ?lib = Some (ALISLUPG_ERR_NONE, d2, ?lib)"
    "elems d2 = sel_elems ?sels"
    using package_header_parses[OF pkg refl f(2-8), of pack_env "zero_desc ()"] f(11) by auto
  then have els: "elems d' = sel_elems ?sels" using d' by simp
  note im = package_images[OF pkg refl f(2-5)]
  from run_exists[OF f(12-14), of "drop HEADER_SIZE pkg" 10] obtain s where
    "(ustep pack_env 10 (sel_elems ?sels))\<^sup>*\<^sup>* (upg_init ?lib (length pkg - HEADER_SIZE) (drop HEADER_SIZE pkg)) s"
    "d_error s = ALISLUPG_ERR_NONE" "\<not> w_run s"
    using im by auto
  with d' fin[rule_format, of s 0] els pkg show ?thesis by (auto simp: pack_selected)
qed

theorem usb_package_reaches_flash_witness:
  "\<exists>pkg ops u d' u' s. gen_package 1 0 0 2 pack_nand [] = Some pkg \<and>
     usb_obj_register UPG_USB PIECE_BY_PIECE ''/mnt/upg.bin'' True (\<lambda>n. None) (Some pkg) usb_idle = Some (ops, u) \<and>
     upgrade_parse_config pack_env (\<lambda>j. True) ((zero_desc u)\<lparr>object := Some (Some ops)\<rparr>) (demo_lib pack_parts [None, None]) =
       Some (ALISLUPG_ERR_NONE, d', demo_lib pack_parts [None, None]) \<and>
     (usb_step PIECE_BY_PIECE pkg pack_env 10 (elems d'))\<^sup>*\<^sup>*
       (usb_begin PIECE_BY_PIECE True True (int (length pkg)) (u, upg_init (demo_lib pack_parts [None, None]) 0 [])) (u', s) \<and>
     \<not> w_run s \<and> d_error s = ALISLUPG_ERR_NONE \<and> holds (pack_target 0) (w_lib (writer s)) (image_data 131072 (hd pack_nand))"
proof -
  let ?sels = "selected pack_nand []" and ?lib = "demo_lib pack_parts [None, None]" and ?m = PIECE_BY_PIECE
  note f = pack_facts
  obtain pkg where pkg: "gen_package 1 0 0 2 pack_nand [] = Some pkg" using f(1) by blast
  obtain ops u where reg: "usb_obj_register UPG_USB ?m ''/mnt/upg.bin'' True (\<lambda>n. None) (Some pkg) usb_idle = Some (ops, u)"
    by (simp add: usb_obj_register_def Let_def)
  let ?d = "(zero_desc u)\<lparr>object := Some (Some ops)\<rparr>"
  have d: "elems ?d = []" "object ?d = Some (Some ops)" "plugin ?d = u" by (simp_all add: zero_desc_def)
  have up: "usb_package ?m pkg u" by (simp add: usb_package_def)
  obtain d' where t: "upgrade_parse_config pack_env (\<lambda>j. True) ?d ?lib = Some (ALISLUPG_ERR_NONE, d', ?lib)" "elems d' = sel_elems ?sels"
    "\<forall>u' s. (usb_step ?m pkg pack_env 10 (elems d'))\<^sup>*\<^sup>* (usb_begin ?m True True (int (length pkg)) (u, upg_init ?lib 0 [])) (u', s) \<longrightarrow>
       d_error s = ALISLUPG_ERR_NONE \<and> (w_run s \<longrightarrow> (\<exists>y. usb_step ?m pkg pack_env 10 (elems d') (u', s) y)) \<and>
       (\<forall>u'' s'. usb_step ?m pkg pack_env 10 (elems d') (u', s) (u'', s') \<longrightarrow> work (elems d') s' < work (elems d') s) \<and>
       (\<not> w_run s \<longrightarrow> (\<forall>j<length ?sels. holds (pack_target j) (w_lib (writer s)) (image_data (fst (?sels ! j)) (snd (?sels ! j)))))"
    using usb_package_reaches_flash[OF pkg refl f(2,3,4,5,6,7,8,9,10,12,13) reg _ d up, of 10] by auto
  let ?b = "usb_begin ?m True True (int (length pkg)) (u, upg_init ?lib 0 [])"
  obtain u1 s1 where b: "?b = (u1, s1)" by force
  from usb_runs(4)[OF f(12,13,14) package_file_ok[OF pkg refl f(2,3,4,5)] up, of 10 u1 s1] b obtain u' s where
    "(usb_step ?m pkg pack_env 10 (elems d'))\<^sup>*\<^sup>* ?b (u', s)" "\<not> w_run s"
    unfolding t(2) by auto
  with t pkg reg show ?thesis by (fastforce simp: pack_selected)
qed

end
